(* ===== verification/Prelude.thy ===== *)
theory Prelude
  imports
    Complex_Main
    "HOL-Library.Char_ord"
    "HOL-Library.List_Lexorder"
    "HOL-Library.Product_Lexorder"
    "HOL-Library.AList"
begin

text \<open>
  Shared vocabulary of the development: the exceptions of the backend and the result type that
  carries them, the loops over fallible bodies, Python dictionaries as association lists in
  insertion order, and the lemmas on sorted enumerations that several components use.

  Strings are lists of 8-bit characters read as the code points U+0000 to U+00FF. Their order is
  the lexicographic order of code points (theories \<open>Char_ord\<close> and \<open>List_Lexorder\<close>), which is the
  order of Python's \<open>str\<close>; pairs and triples are ordered lexicographically as Python's tuples are.
\<close>

section \<open>Exceptions and results\<close>

type_synonym uuid = string
  \<comment> \<open>the canonical text of a UUID, i.e. \<open>str(u)\<close>; UUID order is the order of that text\<close>

datatype exn =
    ValueError string
  | AttributeError string
  | KeyError
  | ZeroDivisionError
  | InvalidOperation
  | NoReturn
    \<comment> \<open>the union-find walk does not end normally (an unknown id, or a cycle)\<close>
  | LookupError string
  | IntegrityError
  | DataError
    \<comment> \<open>a value that does not fit its column\<close>
  | CaseNotFound uuid
  | CaseReadOnly uuid
  | StaleCaseVersion uuid
  | InvalidAssignee uuid
  | NoteNotFound uuid
  | NoteRetractForbidden uuid
  | TransitionError string
  | InvalidCursor
  | TokenError
  | MultipleResultsFound
  | RecursionError
  | TypeError
  | IndexError
  | RuntimeError string
  | ProgrammingError string
    \<comment> \<open>a relation that does not exist\<close>
  | HTTPException nat string

type_synonym 'a result = "exn + 'a"

definition rbind :: "'a result \<Rightarrow> ('a \<Rightarrow> 'b result) \<Rightarrow> 'b result" where
  "rbind r f = (case r of Inl e \<Rightarrow> Inl e | Inr x \<Rightarrow> f x)"

fun rmap :: "('a \<Rightarrow> 'b result) \<Rightarrow> 'a list \<Rightarrow> 'b list result" where
  "rmap f [] = Inr []"
| "rmap f (x # xs) = rbind (f x) (\<lambda>y. rbind (rmap f xs) (\<lambda>ys. Inr (y # ys)))"

fun rfold :: "('a \<Rightarrow> 's \<Rightarrow> 's result) \<Rightarrow> 'a list \<Rightarrow> 's \<Rightarrow> 's result" where
  "rfold f [] s = Inr s"
| "rfold f (x # xs) s = rbind (f x s) (rfold f xs)"

text \<open>Python's \<open>all(...)\<close> over a body that may raise: stops at the first false one.\<close>

fun rall :: "('a \<Rightarrow> bool result) \<Rightarrow> 'a list \<Rightarrow> bool result" where
  "rall f [] = Inr True"
| "rall f (x # xs) = rbind (f x) (\<lambda>b. if b then rall f xs else Inr False)"

definition is_ok :: "'a result \<Rightarrow> bool" where
  "is_ok r \<longleftrightarrow> (\<exists>x. r = Inr x)"

named_theorems result_simps \<open>unfolding of successful results\<close>

lemma rbind_Inl [simp]: "rbind (Inl e) f = Inl e"
  by (simp add: rbind_def)

lemma rbind_Inr [simp]: "rbind (Inr x) f = f x"
  by (simp add: rbind_def)

lemma rbind_eq_Inr [result_simps]: "rbind r f = Inr y \<longleftrightarrow> (\<exists>x. r = Inr x \<and> f x = Inr y)"
  by (cases r) auto

lemma rbind_assoc: "rbind (rbind r f) g = rbind r (\<lambda>x. rbind (f x) g)"
  by (cases r) auto

lemma is_ok_Inr [simp]: "is_ok (Inr x)"
  by (simp add: is_ok_def)

lemma is_ok_Inl [simp]: "\<not> is_ok (Inl e)"
  by (simp add: is_ok_def)

lemma is_okE: "is_ok r \<Longrightarrow> (\<And>x. r = Inr x \<Longrightarrow> P) \<Longrightarrow> P"
  by (auto simp: is_ok_def)

lemma is_ok_rbind: "is_ok r \<Longrightarrow> (\<And>x. r = Inr x \<Longrightarrow> is_ok (f x)) \<Longrightarrow> is_ok (rbind r f)"
  by (cases r) auto

lemma rmap_ok: "(\<And>x. x \<in> set xs \<Longrightarrow> is_ok (f x)) \<Longrightarrow> is_ok (rmap f xs)"
  by (induction xs) (auto intro!: is_ok_rbind)

lemma rall_ok: "(\<And>x. x \<in> set xs \<Longrightarrow> is_ok (f x)) \<Longrightarrow> is_ok (rall f xs)"
  by (induction xs) (auto intro!: is_ok_rbind)

lemma rmap_eq_Inr [result_simps]:
  "rmap f xs = Inr ys \<longleftrightarrow> list_all2 (\<lambda>x y. f x = Inr y) xs ys"
  by (induction xs arbitrary: ys) (auto simp: result_simps list_all2_Cons1)

lemma list_all2_eq_map:
  "list_all2 Q xs ys \<Longrightarrow> (\<And>x y. x \<in> set xs \<Longrightarrow> Q x y \<Longrightarrow> y = f x) \<Longrightarrow> ys = map f xs"
  by (induction xs ys rule: list_all2_induct) auto

lemma rfold_append: "rfold f (xs @ ys) s = rbind (rfold f xs s) (rfold f ys)"
  by (induction xs arbitrary: s) (auto simp: rbind_def split: sum.split)

lemma rfold_ok:
  assumes "\<And>x s. x \<in> set xs \<Longrightarrow> I s \<Longrightarrow> \<exists>t. f x s = Inr t \<and> I t" and "I s"
  shows "\<exists>t. rfold f xs s = Inr t \<and> I t"
  using assms
proof (induction xs arbitrary: s)
  case Nil
  then show ?case by simp
next
  case (Cons x xs)
  from Cons.prems obtain t where "f x s = Inr t" and "I t" by force
  with Cons show ?case by simp
qed

lemma rfold_invariant:
  assumes "rfold f xs s = Inr t" and "I s"
    and "\<And>x s t. x \<in> set xs \<Longrightarrow> f x s = Inr t \<Longrightarrow> I s \<Longrightarrow> I t"
  shows "I t"
  using assms by (induction xs arbitrary: s) (auto simp: result_simps)

section \<open>Dictionaries in insertion order\<close>

text \<open>
  A Python dictionary iterates in insertion order and keeps the place of a key that is assigned
  again. \<open>AList.update\<close> does exactly that on association lists, and \<open>map_of\<close> is the lookup.
  \<open>dict_append\<close> is \<open>d[k].append(v)\<close> on a \<open>defaultdict(list)\<close>, \<open>dict_add\<close> is \<open>d[k].add(v)\<close> on a
  \<open>defaultdict(set)\<close>.
\<close>

definition dict_append :: "'k \<Rightarrow> 'v \<Rightarrow> ('k \<times> 'v list) list \<Rightarrow> ('k \<times> 'v list) list" where
  "dict_append k v d =
     (case map_of d k of None \<Rightarrow> AList.update k [v] d | Some vs \<Rightarrow> AList.update k (vs @ [v]) d)"

definition dict_add :: "'k \<Rightarrow> 'v \<Rightarrow> ('k \<times> 'v set) list \<Rightarrow> ('k \<times> 'v set) list" where
  "dict_add k v d =
     (case map_of d k of None \<Rightarrow> AList.update k {v} d | Some vs \<Rightarrow> AList.update k (insert v vs) d)"

definition dict_set :: "('k \<times> 'v set) list \<Rightarrow> 'k \<Rightarrow> 'v set" where
  "dict_set d k = (case map_of d k of None \<Rightarrow> {} | Some vs \<Rightarrow> vs)"

lemma map_of_update [simp]: "map_of (AList.update k v d) = (map_of d)(k \<mapsto> v)"
  by (rule update_conv')

lemma map_of_dict_append:
  "map_of (dict_append k v d) =
     (map_of d)(k \<mapsto> (case map_of d k of None \<Rightarrow> [v] | Some vs \<Rightarrow> vs @ [v]))"
  by (simp add: dict_append_def split: option.split)

lemma distinct_dict_append:
  "distinct (map fst d) \<Longrightarrow> distinct (map fst (dict_append k v d))"
  by (simp add: dict_append_def distinct_update split: option.split)

lemma dict_set_add: "dict_set (dict_add k v d) k' = (if k' = k then insert v (dict_set d k) else dict_set d k')"
  by (simp add: dict_set_def dict_add_def split: option.split)

lemma distinct_dict_add: "distinct (map fst d) \<Longrightarrow> distinct (map fst (dict_add k v d))"
  by (simp add: dict_add_def distinct_update split: option.split)

lemma dom_dict_add: "fst ` set (dict_add k v d) = insert k (fst ` set d)"
  by (simp add: dict_add_def dom_update split: option.split)

section \<open>Sorted enumerations\<close>

lemma sorted_list_of_set_take_card:
  "finite A \<Longrightarrow> card (set (take n (sorted_list_of_set A))) = min n (card A)"
  by (simp add: distinct_card min_def)

lemma set_take_subset_sorted:
  "finite A \<Longrightarrow> set (take n (sorted_list_of_set A)) \<subseteq> A"
  using set_take_subset [of n "sorted_list_of_set A"] by simp

end
