(* ===== verification/Lifecycle.thy ===== *)
theory Lifecycle
  imports Prelude
begin

text \<open>
  \<open>app/cases/lifecycle.py\<close>: the graph \<open>ALLOWED\<close> of status transitions and \<open>validate_transition\<close>.
\<close>

definition ALLOWED :: "(string \<times> string list) list" where
  "ALLOWED =
     [(''Open'', [''In Progress'']),
      (''In Progress'', [''Pending Info'', ''Closed'']),
      (''Pending Info'', [''In Progress'']),
      (''Closed'', [''In Progress'']),
      (''Merged'', [])]"

definition reachable_from :: "string \<Rightarrow> string list" where
  "reachable_from current = (case map_of ALLOWED current of None \<Rightarrow> [] | Some ts \<Rightarrow> ts)"

definition validate_transition ::
  "string \<Rightarrow> string \<Rightarrow> string option \<Rightarrow> string list \<Rightarrow> unit result" where
  "validate_transition current target disposition dispositions =
     (if target \<notin> set (reachable_from current) then Inl (TransitionError ''illegal_transition'')
      else if target = ''Closed'' then
        (case disposition of
           None \<Rightarrow> Inl (TransitionError ''disposition_required'')
         | Some d \<Rightarrow> if d \<notin> set dispositions then Inl (TransitionError ''unknown_disposition'') else Inr ())
      else Inr ())"

definition STATUSES :: "string list" where
  "STATUSES = map fst ALLOWED"

lemma reachable_from_cases:
  "t \<in> set (reachable_from c) \<longleftrightarrow>
     c = ''Open'' \<and> t = ''In Progress''
     \<or> c = ''In Progress'' \<and> (t = ''Pending Info'' \<or> t = ''Closed'')
     \<or> c = ''Pending Info'' \<and> t = ''In Progress'' \<or> c = ''Closed'' \<and> t = ''In Progress''"
  by (auto simp: reachable_from_def ALLOWED_def split: if_splits)

lemma reachable_statuses: "t \<in> set (reachable_from c) \<Longrightarrow> c \<in> set STATUSES \<and> t \<in> set STATUSES \<and> t \<noteq> ''Merged''"
  by (auto simp: reachable_from_cases STATUSES_def ALLOWED_def)

lemma validate_transition_Inr:
  "validate_transition c t d ds = Inr u \<longleftrightarrow>
     t \<in> set (reachable_from c) \<and> (t = ''Closed'' \<longrightarrow> (\<exists>x \<in> set ds. d = Some x))"
  by (auto simp: validate_transition_def split: option.split)

text \<open>Every status a person can move a case to can be reached from \<open>Open\<close>, and no sequence of moves
  enters or leaves \<open>Merged\<close>.\<close>

inductive moves :: "string \<Rightarrow> string \<Rightarrow> bool" where
  stay: "moves c c"
| move: "moves c d \<Longrightarrow> validate_transition d t x ds = Inr () \<Longrightarrow> moves c t"

lemma moves_Merged: "moves c t \<Longrightarrow> c = ''Merged'' \<longleftrightarrow> t = ''Merged''"
  by (induction rule: moves.induct) (auto simp: validate_transition_Inr reachable_from_cases)

text \<open>A status change is accepted exactly on an edge of the graph and, for a close, with a configured
  disposition; the three refusals are told apart. By accepted moves a person takes an open case to
  every status but \<open>Merged\<close>, and a merged case nowhere.\<close>

theorem validate_transition_spec:
  "(validate_transition c t d ds = Inr () \<longleftrightarrow>
      t \<in> set (reachable_from c) \<and> (t \<noteq> ''Closed'' \<or> (\<exists>x \<in> set ds. d = Some x)))
   \<and> (validate_transition c t d ds = Inl (TransitionError ''illegal_transition'') \<longleftrightarrow> t \<notin> set (reachable_from c))
   \<and> (moves ''Open'' t \<longleftrightarrow> t \<in> {''Open'', ''In Progress'', ''Pending Info'', ''Closed''})
   \<and> (moves ''Merged'' t \<longleftrightarrow> t = ''Merged'')"
proof -
  have step: "moves ''Open'' d \<Longrightarrow> t \<in> set (reachable_from d) \<Longrightarrow> moves ''Open'' t" for d t
    by (rule moves.move [of _ d _ "Some []" "[[]]"]) (auto simp: validate_transition_Inr)
  have "moves ''Open'' ''In Progress''"
    by (rule step [OF moves.stay]) (simp add: reachable_from_cases)
  moreover from this have "moves ''Open'' ''Pending Info''" "moves ''Open'' ''Closed''"
    by (auto intro: step simp: reachable_from_cases)
  moreover have "moves ''Open'' t \<Longrightarrow> t \<in> {''Open'', ''In Progress'', ''Pending Info'', ''Closed''}"
    by (induction "''Open''" t rule: moves.induct) (auto simp: validate_transition_Inr reachable_from_cases)
  moreover have "moves ''Merged'' t \<Longrightarrow> t = ''Merged''" using moves_Merged [of "''Merged''" t] by simp
  ultimately show ?thesis
    by (auto simp: validate_transition_def intro: moves.stay split: option.split)
qed

theorem validate_transition_spec_witness:
  "validate_transition ''In Progress'' ''Closed'' (Some ''Escalate'') [''Escalate''] = Inr ()
   \<and> moves ''Open'' ''Closed'' \<and> \<not> moves ''Merged'' ''Closed''"
  using validate_transition_spec [of "''In Progress''" "''Closed''" "Some ''Escalate''" "[''Escalate'']"]
  by (simp add: reachable_from_cases)

end
