(* ===== verification/Numerics.thy ===== *)
theory Numerics
  imports Prelude "HOL-Library.Log_Nat"
begin

text \<open>
  The numbers of the grouping engine. Python's \<open>decimal.Decimal\<close> and its binary64 \<open>float\<close> are
  both "exact rational result, then round to a fixed number of significant digits, ties to even":
  28 decimal digits for the default decimal context, 53 binary digits for a float. One function
  \<open>round_sig\<close> models both, over the rationals, which contain every finite value of either type.
  Overflow to infinity, gradual underflow and NaN do not occur in the ranges the engine uses and
  are not modelled.

  The lemmas show what the engine relies on: rounding is monotone, keeps sign and zero, and leaves
  representable values (in particular small integers) alone.
\<close>

section \<open>Rounding half to even\<close>

definition round_half_even :: "rat \<Rightarrow> int" where
  "round_half_even q =
     (let n = \<lfloor>q\<rfloor>; d = q - of_int n
      in if d < 1 / 2 then n else if 1 / 2 < d then n + 1 else if even n then n else n + 1)"

text \<open>The exponent of the leading digit of a positive rational in base \<open>b\<close>.\<close>

definition ilog :: "nat \<Rightarrow> rat \<Rightarrow> int" where
  "ilog b q =
     (let (n, d) = quotient_of q;
          e = int (floorlog b (nat n)) - int (floorlog b (nat d))
      in if rat_of_nat b powi e \<le> q then e else e - 1)"

definition round_pos :: "nat \<Rightarrow> nat \<Rightarrow> rat \<Rightarrow> rat" where
  "round_pos b p q =
     (let u = rat_of_nat b powi (ilog b q - int p + 1) in of_int (round_half_even (q / u)) * u)"

definition round_sig :: "nat \<Rightarrow> nat \<Rightarrow> rat \<Rightarrow> rat" where
  "round_sig b p q =
     (if q = 0 then 0 else if 0 < q then round_pos b p q else - round_pos b p (- q))"

text \<open>The result of a float operation, and of a \<open>Decimal\<close> operation in the default context.\<close>

definition fl :: "rat \<Rightarrow> rat" where
  "fl = round_sig 2 53"

definition dec :: "rat \<Rightarrow> rat" where
  "dec = round_sig 10 28"

text \<open>
  Python 3.11's \<open>sum\<close> over floats (the deployed image is \<open>python:3.11\<close>): a left fold that rounds
  after every addition and starts from 0.
\<close>

definition float_sum :: "rat list \<Rightarrow> rat" where
  "float_sum xs = foldl (\<lambda>s x. fl (s + x)) 0 xs"

definition is_float :: "rat \<Rightarrow> bool" where
  "is_float q \<longleftrightarrow> fl q = q"

section \<open>Lemmas\<close>

lemma round_half_even_of_int [simp]: "round_half_even (of_int n) = n"
  by (simp add: round_half_even_def)

lemma round_half_even_ge_floor: "\<lfloor>q\<rfloor> \<le> round_half_even q"
  and round_half_even_le_Suc_floor: "round_half_even q \<le> \<lfloor>q\<rfloor> + 1"
  by (auto simp: round_half_even_def Let_def)

lemma round_half_even_mono:
  assumes "q \<le> q'"
  shows "round_half_even q \<le> round_half_even q'"
proof (cases "\<lfloor>q\<rfloor> = \<lfloor>q'\<rfloor>")
  case True
  with assms show ?thesis by (auto simp: round_half_even_def Let_def)
next
  case False
  with assms have "\<lfloor>q\<rfloor> + 1 \<le> \<lfloor>q'\<rfloor>" using floor_mono [of q q'] by linarith
  with round_half_even_le_Suc_floor [of q] round_half_even_ge_floor [of q'] show ?thesis
    by linarith
qed

lemma round_half_even_ge: "of_int n \<le> q \<Longrightarrow> n \<le> round_half_even q"
  using round_half_even_mono [of "of_int n" q] by simp

lemma round_half_even_le: "q \<le> of_int n \<Longrightarrow> round_half_even q \<le> n"
  using round_half_even_mono [of q "of_int n"] by simp

lemma floorlog_low: "0 < n \<Longrightarrow> 1 < b \<Longrightarrow> b ^ (floorlog b n - 1) \<le> n"
  using floorlog_bounds [of n b] by simp

lemma floorlog_high: "0 < n \<Longrightarrow> 1 < b \<Longrightarrow> n < b ^ floorlog b n"
  using floorlog_bounds [of n b] by simp

lemma floorlog_pos: "0 < n \<Longrightarrow> 1 < b \<Longrightarrow> 0 < floorlog b n"
  by (simp add: floorlog_def)

lemma ilog_bounds:
  assumes "1 < b" and "0 < q"
  shows "rat_of_nat b powi ilog b q \<le> q \<and> q < rat_of_nat b powi (ilog b q + 1)"
proof -
  obtain n d where nd: "quotient_of q = (n, d)" by (cases "quotient_of q")
  have "0 < d" using nd by (rule quotient_of_denom_pos)
  have q: "q = of_int n / of_int d" using nd by (rule quotient_of_div)
  have "0 < n" using assms(2) \<open>0 < d\<close> by (simp add: q zero_less_divide_iff)
  define a c where "a = floorlog b (nat n)" and "c = floorlog b (nat d)"
  have pos: "0 < a" "0 < c"
    using \<open>0 < n\<close> \<open>0 < d\<close> assms(1) by (auto simp: a_def c_def intro!: floorlog_pos)
  have ofn: "rat_of_int n = of_nat (nat n)" "rat_of_int d = of_nat (nat d)"
    using \<open>0 < n\<close> \<open>0 < d\<close> by auto
  have n: "rat_of_nat b ^ (a - 1) \<le> of_int n" "rat_of_int n < of_nat b ^ a"
    using floorlog_low [of "nat n" b] floorlog_high [of "nat n" b] \<open>0 < n\<close> assms(1)
    unfolding ofn a_def of_nat_power [symmetric] of_nat_le_iff of_nat_less_iff by auto
  have d: "rat_of_nat b ^ (c - 1) \<le> of_int d" "rat_of_int d < of_nat b ^ c"
    using floorlog_low [of "nat d" b] floorlog_high [of "nat d" b] \<open>0 < d\<close> assms(1)
    unfolding ofn c_def of_nat_power [symmetric] of_nat_le_iff of_nat_less_iff by auto
  have b0: "rat_of_nat b \<noteq> 0" "0 < rat_of_nat b" using assms(1) by auto
  have "q < of_nat b ^ a / of_nat b ^ (c - 1)"
    unfolding q using n d \<open>0 < n\<close> \<open>0 < d\<close> b0 by (intro frac_less) auto
  also have "\<dots> = of_nat b powi (int a - int c + 1)"
    using pos b0 by (simp add: power_int_diff [symmetric] power_int_of_nat [symmetric]
        of_nat_diff del: power_int_of_nat) (simp add: algebra_simps)
  finally have up: "q < of_nat b powi (int a - int c + 1)" .
  have "of_nat b ^ (a - 1) / of_nat b ^ c \<le> q"
    unfolding q using n d \<open>0 < n\<close> \<open>0 < d\<close> b0 by (intro frac_le) auto
  moreover have "of_nat b ^ (a - 1) / of_nat b ^ c = rat_of_nat b powi (int a - int c - 1)"
    using pos b0 by (simp add: power_int_diff [symmetric] power_int_of_nat [symmetric]
        of_nat_diff del: power_int_of_nat) (simp add: algebra_simps)
  ultimately have low: "rat_of_nat b powi (int a - int c - 1) \<le> q" by simp
  show ?thesis using up low by (auto simp: ilog_def nd a_def [symmetric] c_def [symmetric] Let_def)
qed

lemma ilog_mono:
  assumes "1 < b" and "0 < q" and "q \<le> q'"
  shows "ilog b q \<le> ilog b q'"
proof (rule ccontr)
  assume "\<not> ilog b q \<le> ilog b q'"
  then have "rat_of_nat b powi (ilog b q' + 1) \<le> of_nat b powi ilog b q"
    using assms(1) by (intro power_int_increasing) auto
  also have "\<dots> \<le> q" using ilog_bounds [OF assms(1,2)] by simp
  also have "\<dots> \<le> q'" by (rule assms(3))
  also have "\<dots> < of_nat b powi (ilog b q' + 1)" using ilog_bounds [of b q'] assms by simp
  finally show False by simp
qed

lemma ilog_less: "1 < b \<Longrightarrow> 0 < q \<Longrightarrow> q < of_nat b powi k \<Longrightarrow> ilog b q < k"
proof (rule ccontr)
  assume "1 < b" and "0 < q" and q: "q < of_nat b powi k" and "\<not> ilog b q < k"
  then have "rat_of_nat b powi k \<le> of_nat b powi ilog b q"
    by (intro power_int_increasing) auto
  with q ilog_bounds [OF \<open>1 < b\<close> \<open>0 < q\<close>] show False by simp
qed

lemma scaled_leading_digit:
  assumes "1 < b" and "0 < p"
  shows "rat_of_nat b powi k / of_nat b powi (e - int p + 1) = of_nat b powi (k - e - 1 + int p)"
    and "rat_of_nat b powi e / of_nat b powi (e - int p + 1) = of_int (int b ^ (p - 1))"
    and "rat_of_nat b powi (e + 1) / of_nat b powi (e - int p + 1) = of_int (int b ^ p)"
proof -
  have b: "rat_of_nat b \<noteq> 0" using assms by simp
  show "rat_of_nat b powi k / of_nat b powi (e - int p + 1) = of_nat b powi (k - e - 1 + int p)" for k
    using b by (simp add: power_int_diff [symmetric] algebra_simps)
  from this [of e] show "rat_of_nat b powi e / of_nat b powi (e - int p + 1) = of_int (int b ^ (p - 1))"
    using assms b power_int_of_nat [of "rat_of_nat b" "p - 1"] by (simp add: of_nat_diff algebra_simps)
  from \<open>\<And>k. rat_of_nat b powi k / of_nat b powi (e - int p + 1) = of_nat b powi (k - e - 1 + int p)\<close> [of "e + 1"]
  show "rat_of_nat b powi (e + 1) / of_nat b powi (e - int p + 1) = of_int (int b ^ p)"
    by simp
qed

lemma round_pos_bounds:
  assumes "1 < b" and "0 < p" and "0 < q"
  shows "rat_of_nat b powi ilog b q \<le> round_pos b p q \<and> round_pos b p q \<le> of_nat b powi (ilog b q + 1)"
proof -
  define u where "u = rat_of_nat b powi (ilog b q - int p + 1)"
  have u: "0 < u" using assms by (simp add: u_def zero_less_power_int)
  note scale = scaled_leading_digit(2,3) [OF assms(1,2), of "ilog b q", folded u_def]
  have "of_int (int b ^ (p - 1)) \<le> q / u" "q / u \<le> of_int (int b ^ p)"
    unfolding scale [symmetric]
    using ilog_bounds [OF assms(1,3)] u by (auto intro!: divide_right_mono)
  then have m: "int b ^ (p - 1) \<le> round_half_even (q / u)" "round_half_even (q / u) \<le> int b ^ p"
    by (auto intro: round_half_even_ge round_half_even_le)
  have low: "rat_of_nat b powi ilog b q = of_int (int b ^ (p - 1)) * u"
    and high: "rat_of_nat b powi (ilog b q + 1) = of_int (int b ^ p) * u"
    unfolding scale [symmetric] using u by simp_all
  show ?thesis
    unfolding low high round_pos_def Let_def u_def [symmetric]
    using m u by (simp only: mult_le_cancel_right of_int_le_iff) simp
qed

lemma round_pos_mono:
  assumes "1 < b" and "0 < p" and "0 < q" and "q \<le> q'"
  shows "round_pos b p q \<le> round_pos b p q'"
proof (cases "ilog b q = ilog b q'")
  case True
  have "0 < rat_of_nat b powi (ilog b q' - int p + 1)" using assms by (simp add: zero_less_power_int)
  with True assms show ?thesis
    by (auto simp: round_pos_def Let_def intro!: mult_right_mono round_half_even_mono divide_right_mono)
next
  case False
  with ilog_mono [OF assms(1,3,4)] have "ilog b q + 1 \<le> ilog b q'" by simp
  then have "rat_of_nat b powi (ilog b q + 1) \<le> of_nat b powi ilog b q'"
    using assms(1) by (intro power_int_increasing) auto
  with round_pos_bounds [OF assms(1,2,3)] round_pos_bounds [OF assms(1,2), of q'] assms
  show ?thesis by simp
qed

lemma round_pos_positive:
  assumes "1 < b" and "0 < p" and "0 < q"
  shows "0 < round_pos b p q"
proof -
  have "0 < rat_of_nat b powi ilog b q" using assms(1) by (simp add: zero_less_power_int)
  with round_pos_bounds [OF assms] show ?thesis by linarith
qed

lemma round_sig_mono:
  assumes "1 < b" and "0 < p" and "q \<le> q'"
  shows "round_sig b p q \<le> round_sig b p q'"
  using round_pos_mono [OF assms(1,2), of q q'] round_pos_mono [OF assms(1,2), of "- q'" "- q"]
    round_pos_positive [OF assms(1,2), of "- q"] round_pos_positive [OF assms(1,2), of q'] assms(3)
  by (auto simp: round_sig_def)

lemma round_sig_0 [simp]: "round_sig b p 0 = 0"
  by (simp add: round_sig_def)

lemma round_sig_minus: "round_sig b p (- q) = - round_sig b p q"
  by (simp add: round_sig_def)

lemma round_sig_eq_0_iff: "1 < b \<Longrightarrow> 0 < p \<Longrightarrow> round_sig b p q = 0 \<longleftrightarrow> q = 0"
  using round_pos_positive [of b p q] round_pos_positive [of b p "- q"] by (auto simp: round_sig_def)

text \<open>Integers of at most \<open>p\<close> digits, scaled by any power of the base, are left alone.\<close>

lemma round_pos_exact:
  assumes "1 < b" and "0 < p" and "0 < m" and "m < int b ^ p"
  shows "round_pos b p (of_int m * of_nat b powi k) = of_int m * of_nat b powi k"
proof -
  define q where "q = rat_of_int m * of_nat b powi k"
  define u where "u = rat_of_nat b powi (ilog b q - int p + 1)"
  have b: "0 < rat_of_nat b" using assms by simp
  have q: "0 < q" using assms b by (simp add: q_def zero_less_power_int)
  have "rat_of_int m < of_int (int b ^ p)" using assms(4) by (simp only: of_int_less_iff)
  then have "q < of_nat b powi (int p + k)"
    using b by (simp add: q_def power_int_add zero_less_power_int)
  then have "ilog b q < int p + k" using ilog_less [OF assms(1) q] by simp
  then obtain j where j: "k = ilog b q - int p + 1 + int j" by (metis add.commute zle_iff_zadd
        add_le_cancel_left diff_add_eq add1_zle_eq diff_le_eq)
  have "u \<noteq> 0" using b by (simp add: u_def)
  have "q = of_int (m * int b ^ j) * u"
  proof -
    have "rat_of_nat b powi k = of_nat b powi (ilog b q - int p + 1) * of_nat b powi int j"
      using b by (subst power_int_add [symmetric]) (simp_all add: j [symmetric])
    then show ?thesis by (simp add: u_def [symmetric]) (simp add: q_def)
  qed
  then have "q / u = of_int (m * int b ^ j)" using \<open>u \<noteq> 0\<close> by simp
  then have "round_pos b p q = of_int (m * int b ^ j) * u"
    unfolding round_pos_def Let_def u_def [symmetric] by (simp only: round_half_even_of_int)
  with \<open>q = of_int (m * int b ^ j) * u\<close> show ?thesis by (simp only: q_def)
qed

lemma round_sig_exact:
  assumes "1 < b" and "0 < p" and "\<bar>m\<bar> < int b ^ p"
  shows "round_sig b p (of_int m * of_nat b powi k) = of_int m * of_nat b powi k"
proof -
  have "0 < rat_of_nat b powi k" using assms by (simp add: zero_less_power_int)
  with round_pos_exact [OF assms(1,2), of m k] round_pos_exact [OF assms(1,2), of "- m" k] assms(3)
  show ?thesis by (auto simp: round_sig_def zero_less_mult_iff not_less)
qed

lemma round_sig_of_int: "1 < b \<Longrightarrow> 0 < p \<Longrightarrow> \<bar>m\<bar> < int b ^ p \<Longrightarrow> round_sig b p (of_int m) = of_int m"
  using round_sig_exact [of b p m 0] by simp

subsection \<open>Floats and decimals\<close>

lemma fl_mono: "q \<le> q' \<Longrightarrow> fl q \<le> fl q'"
  by (simp add: fl_def round_sig_mono)

lemma fl_0 [simp]: "fl 0 = 0"
  by (simp add: fl_def)

lemma fl_of_int: "\<bar>m\<bar> < 2 ^ 53 \<Longrightarrow> fl (of_int m) = of_int m"
  by (simp add: fl_def round_sig_of_int)

lemma fl_1 [simp]: "fl 1 = 1"
  using fl_of_int [of 1] by simp

lemma fl_numeral: "(numeral n :: int) < 2 ^ 53 \<Longrightarrow> fl (numeral n) = numeral n"
  using fl_of_int [of "numeral n"] by simp

lemma fl_minus: "fl (- q) = - fl q"
  by (simp add: fl_def round_sig_minus)

lemma round_pos_idem:
  assumes "1 < b" and "0 < p" and "0 < q"
  shows "round_pos b p (round_pos b p q) = round_pos b p q"
proof -
  define e where "e = ilog b q"
  define m where "m = round_half_even (q / rat_of_nat b powi (e - int p + 1))"
  have r: "round_pos b p q = of_int m * of_nat b powi (e - int p + 1)"
    by (simp add: round_pos_def e_def m_def Let_def)
  have u: "0 < rat_of_nat b powi k" for k using assms(1) by (simp add: zero_less_power_int)
  have "rat_of_int m * of_nat b powi (e - int p + 1) \<le> of_nat b powi (e + 1)"
    using round_pos_bounds [OF assms] r by (simp add: e_def)
  then have "rat_of_int m \<le> of_nat b powi (e + 1) / of_nat b powi (e - int p + 1)"
    by (simp only: pos_le_divide_eq [OF u])
  then have "m \<le> int b ^ p" using scaled_leading_digit(3) [OF assms(1,2)] by (simp only: of_int_le_iff)
  moreover have "0 < m" using round_pos_positive [OF assms] u [of "e - int p + 1"] by (auto simp: r zero_less_mult_iff)
  ultimately show ?thesis
  proof (cases "m < int b ^ p")
    case True
    with round_pos_exact [OF assms(1,2) \<open>0 < m\<close>] show ?thesis by (simp add: r)
  next
    case False
    with \<open>m \<le> int b ^ p\<close> have "m = int b ^ p" by simp
    then have "round_pos b p q = of_nat b powi (int p) * of_nat b powi (e - int p + 1)" by (simp add: r)
    also have "\<dots> = of_int 1 * of_nat b powi (e + 1)"
      using assms(1) power_int_add [of "rat_of_nat b" "int p" "e - int p + 1"] by simp
    finally show ?thesis
      using round_pos_exact [OF assms(1,2), of 1] one_less_power [of "int b" p] assms by simp
  qed
qed

lemma fl_idem [simp]: "fl (fl q) = fl q"
  using round_pos_idem [of 2 53 q] round_pos_idem [of 2 53 "- q"]
    round_pos_positive [of 2 53 q] round_pos_positive [of 2 53 "- q"]
  by (auto simp: fl_def round_sig_def)

lemma fl_abs: "\<bar>fl q\<bar> = fl \<bar>q\<bar>"
  using fl_mono [of 0 q] fl_mono [of q 0] by (auto simp: abs_if fl_minus not_less)

lemma fl_eq_0_iff [simp]: "fl q = 0 \<longleftrightarrow> q = 0"
  by (simp add: fl_def round_sig_eq_0_iff)

lemma fl_nonneg: "0 \<le> q \<Longrightarrow> 0 \<le> fl q"
  using fl_mono [of 0 q] by simp

lemma fl_positive: "0 < q \<Longrightarrow> 0 < fl q"
  using fl_nonneg [of q] by (simp add: less_le)

lemma fl_le_1: "q \<le> 1 \<Longrightarrow> fl q \<le> 1"
  using fl_mono [of q 1] by simp

lemma fl_le_of_int: "q \<le> of_int m \<Longrightarrow> \<bar>m\<bar> < 2 ^ 53 \<Longrightarrow> fl q \<le> of_int m"
  using fl_mono [of q "of_int m"] by (simp add: fl_of_int)

lemma fl_ge_of_int: "of_int m \<le> q \<Longrightarrow> \<bar>m\<bar> < 2 ^ 53 \<Longrightarrow> of_int m \<le> fl q"
  using fl_mono [of "of_int m" q] by (simp add: fl_of_int)

lemma dec_mono: "q \<le> q' \<Longrightarrow> dec q \<le> dec q'"
  by (simp add: dec_def round_sig_mono)

lemma dec_0 [simp]: "dec 0 = 0"
  by (simp add: dec_def)

lemma dec_minus: "dec (- q) = - dec q"
  by (simp add: dec_def round_sig_minus)

lemma dec_abs: "\<bar>dec q\<bar> = dec \<bar>q\<bar>"
  using dec_mono [of 0 q] dec_mono [of q 0] by (auto simp: abs_if dec_minus not_less)

lemma dec_eq_0_iff [simp]: "dec q = 0 \<longleftrightarrow> q = 0"
  by (simp add: dec_def round_sig_eq_0_iff)

lemma dec_exact: "\<bar>m\<bar> < 10 ^ 28 \<Longrightarrow> dec (of_int m / 10 ^ k) = of_int m / 10 ^ k"
  using round_sig_exact [of 10 28 m "- int k"]
  by (simp add: dec_def power_int_minus field_simps)

lemma foldl_fl_mono:
  "list_all2 (\<le>) xs ys \<Longrightarrow> s \<le> t \<Longrightarrow>
     foldl (\<lambda>s x. fl (s + x)) s xs \<le> foldl (\<lambda>s x. fl (s + x)) t ys"
  by (induction xs ys arbitrary: s t rule: list_all2_induct) (auto intro: fl_mono add_mono)

lemma float_sum_mono: "list_all2 (\<le>) xs ys \<Longrightarrow> float_sum xs \<le> float_sum ys"
  by (simp add: float_sum_def foldl_fl_mono)

lemma float_sum_nonneg: "(\<And>x. x \<in> set xs \<Longrightarrow> 0 \<le> x) \<Longrightarrow> 0 \<le> float_sum xs"
proof -
  assume nonneg: "\<And>x. x \<in> set xs \<Longrightarrow> 0 \<le> x"
  have "foldl (\<lambda>s x. fl (s + x)) s xs \<ge> 0" if "0 \<le> s" for s
    using nonneg that by (induction xs arbitrary: s) (auto simp: fl_nonneg)
  then show ?thesis by (simp add: float_sum_def)
qed

end
