(* ===== verification/Json.thy ===== *)
theory Json
  imports Prelude
begin

text \<open>
  The JSON text that the audit log hashes: Python's
  \<open>json.dumps(obj, sort_keys=True, separators=(",", ":"))\<close> with its default \<open>ensure_ascii=True\<close>
  (\<open>_canonical_json\<close> in \<open>app/audit/service.py\<close>). Objects are association lists; \<open>sort_keys\<close> puts
  the members of every object in key order and \<open>render\<close> writes the text. A float is carried as the
  numeral text that \<open>repr\<close> prints for it.

  The main lemma is that rendering is injective: two payloads with the same text are the same
  payload. What the audit chain covers is therefore exactly the payload, and tamper evidence
  depends on the hash function alone.
\<close>

section \<open>Values and their canonical text\<close>

datatype json =
    JNull
  | JBool bool
  | JInt int
  | JFloat string
  | JStr string
  | JList "json list"
  | JObj "(string \<times> json) list"

definition hex_digit :: "nat \<Rightarrow> char" where
  "hex_digit n = (if n < 10 then char_of (48 + n) else char_of (87 + n))"

text \<open>The encoder's \<open>ESCAPE_DCT\<close>; every other character outside \<open>' '..'~'\<close> becomes \<open>\uXXXX\<close>.\<close>

definition named_escapes :: "(char \<times> char) list" where
  "named_escapes =
     [(CHR 0x5C, CHR 0x5C), (CHR 0x22, CHR 0x22), (CHR 0x08, CHR ''b''), (CHR 0x0C, CHR ''f''),
      (CHR 0x0A, CHR ''n''), (CHR 0x0D, CHR ''r''), (CHR 0x09, CHR ''t'')]"

definition escape_char :: "char \<Rightarrow> string" where
  "escape_char c =
     (case map_of named_escapes c of
        Some l \<Rightarrow> [CHR 0x5C, l]
      | None \<Rightarrow>
          let n = of_char c :: nat
          in if 32 \<le> n \<and> n \<le> 126 then [c]
             else [CHR 0x5C, CHR ''u'', CHR ''0'', CHR ''0'', hex_digit (n div 16), hex_digit (n mod 16)])"

definition string_text :: "string \<Rightarrow> string" where
  "string_text s = CHR 0x22 # concat (map escape_char s) @ [CHR 0x22]"

fun nat_text :: "nat \<Rightarrow> string" where
  "nat_text n =
     (if n < 10 then [char_of (48 + n)] else nat_text (n div 10) @ [char_of (48 + n mod 10)])"

declare nat_text.simps [simp del]

definition int_text :: "int \<Rightarrow> string" where
  "int_text i = (if i < 0 then CHR ''-'' # nat_text (nat (- i)) else nat_text (nat i))"

fun comma_join :: "string list \<Rightarrow> string" where
  "comma_join [] = []"
| "comma_join [t] = t"
| "comma_join (t # u # ts) = t @ CHR '','' # comma_join (u # ts)"

fun render :: "json \<Rightarrow> string" where
  "render JNull = ''null''"
| "render (JBool b) = (if b then ''true'' else ''false'')"
| "render (JInt i) = int_text i"
| "render (JFloat t) = t"
| "render (JStr s) = string_text s"
| "render (JList xs) = CHR ''['' # comma_join (map render xs) @ [CHR '']'']"
| "render (JObj kvs) =
     CHR ''{'' # comma_join (map (\<lambda>(k, v). string_text k @ CHR '':'' # render v) kvs) @ [CHR ''}'']"

fun sort_keys :: "json \<Rightarrow> json" where
  "sort_keys (JList xs) = JList (map sort_keys xs)"
| "sort_keys (JObj kvs) = JObj (sort_key fst (map (\<lambda>(k, v). (k, sort_keys v)) kvs))"
| "sort_keys x = x"

definition canonical_json :: "json \<Rightarrow> string" where
  "canonical_json x = render (sort_keys x)"

definition is_digit :: "char \<Rightarrow> bool" where
  "is_digit c \<longleftrightarrow> 48 \<le> (of_char c :: nat) \<and> (of_char c :: nat) \<le> 57"

text \<open>A float token is made of numeral characters and is not an integer literal.\<close>

definition float_token :: "string \<Rightarrow> bool" where
  "float_token t \<longleftrightarrow>
     list_all (\<lambda>c. is_digit c \<or> c \<in> set ''+-.e'') t \<and> (CHR ''.'' \<in> set t \<or> CHR ''e'' \<in> set t)"

fun wf_json :: "json \<Rightarrow> bool" where
  "wf_json (JFloat t) = float_token t"
| "wf_json (JList xs) = list_all wf_json xs"
| "wf_json (JObj kvs) = list_all (\<lambda>(k, v). wf_json v) kvs"
| "wf_json _ = True"

section \<open>Rendering is injective\<close>

subsection \<open>Numerals\<close>

fun digits_value :: "nat \<Rightarrow> string \<Rightarrow> nat" where
  "digits_value v [] = v"
| "digits_value v (c # cs) = digits_value (10 * v + (of_char c - 48)) cs"

lemma digits_value_append: "digits_value v (s @ t) = digits_value (digits_value v s) t"
  by (induction s arbitrary: v) auto

lemma digits_value_nat_text: "digits_value 0 (nat_text n) = n"
proof (induction n rule: nat_text.induct)
  case (1 n)
  then show ?case
    by (subst nat_text.simps) (auto simp: digits_value_append)
qed

lemma nat_text_inject: "nat_text m = nat_text n \<longleftrightarrow> m = n"
  by (metis digits_value_nat_text)

lemma is_digit_char_of [simp]: "n < 10 \<Longrightarrow> is_digit (char_of (48 + n :: nat))"
  by (simp add: is_digit_def)

lemma digits_nat_text: "c \<in> set (nat_text n) \<Longrightarrow> is_digit c"
proof (induction n rule: nat_text.induct)
  case (1 n)
  from "1.prems" have "c \<in> set (if n < 10 then [char_of (48 + n)] else nat_text (n div 10) @ [char_of (48 + n mod 10)])"
    by (subst (asm) nat_text.simps)
  then show ?case using "1.IH" by (auto split: if_splits)
qed

lemma nat_text_nonempty [simp]: "nat_text n \<noteq> []"
  by (subst nat_text.simps) simp

lemma nat_text_not_minus: "nat_text n \<noteq> CHR ''-'' # t"
proof
  assume "nat_text n = CHR ''-'' # t"
  then have "CHR ''-'' \<in> set (nat_text n)" by simp
  then have "is_digit (CHR ''-'')" by (rule digits_nat_text)
  then show False by (simp add: is_digit_def)
qed

lemma int_text_inject: "int_text i = int_text j \<longleftrightarrow> i = j"
  by (auto simp: int_text_def nat_text_inject nat_text_not_minus nat_text_not_minus [symmetric])

lemma set_int_text: "c \<in> set (int_text i) \<Longrightarrow> c = CHR ''-'' \<or> is_digit c"
  using digits_nat_text by (auto simp: int_text_def split: if_splits)

lemma int_text_nonempty [simp]: "int_text i \<noteq> []"
  by (simp add: int_text_def)

subsection \<open>Strings\<close>

lemma hex_digit_value:
  "n < 16 \<Longrightarrow> (if of_char (hex_digit n) < (87::nat) then of_char (hex_digit n) - 48 else of_char (hex_digit n) - 87) = n"
  by (simp add: hex_digit_def)

lemma hex_digit_inject: "m < 16 \<Longrightarrow> n < 16 \<Longrightarrow> hex_digit m = hex_digit n \<longleftrightarrow> m = n"
  by (metis hex_digit_value)

lemma hex_byte_inject:
  fixes c d :: char
  assumes "hex_digit (of_char c div 16) = hex_digit (of_char d div 16)"
    and "hex_digit (of_char c mod 16) = hex_digit (of_char d mod 16)"
  shows "c = d"
proof -
  have bound: "(of_char x :: nat) div 16 < 16" for x :: char
    using nat_of_char_less_256 [of x] by (simp add: less_mult_imp_div_less)
  have "(of_char c :: nat) div 16 = of_char d div 16"
    using assms(1) bound by (simp add: hex_digit_inject)
  moreover have "(of_char c :: nat) mod 16 = of_char d mod 16"
    using assms(2) by (simp add: hex_digit_inject)
  ultimately have "(of_char c :: nat) = of_char d" by (metis div_mod_decomp)
  then show ?thesis by simp
qed

lemma escape_char_cases:
  obtains (plain) "escape_char c = [c]" and "c \<noteq> CHR 0x5C" and "c \<noteq> CHR 0x22"
  | (named) l where "map_of named_escapes c = Some l" and "escape_char c = [CHR 0x5C, l]"
  | (hex) "escape_char c = [CHR 0x5C, CHR ''u'', CHR ''0'', CHR ''0'',
        hex_digit (of_char c div 16), hex_digit (of_char c mod 16)]"
proof (cases "map_of named_escapes c")
  case None
  then have "c \<noteq> CHR 0x5C" "c \<noteq> CHR 0x22"
    by (auto simp: named_escapes_def)
  with None show thesis
    by (cases "32 \<le> (of_char c :: nat) \<and> (of_char c :: nat) \<le> 126")
      (auto simp: escape_char_def Let_def intro: plain hex)
next
  case (Some l)
  then show thesis by (intro named) (auto simp: escape_char_def)
qed

lemma named_escapes_inject:
  "map_of named_escapes c = Some l \<Longrightarrow> map_of named_escapes d = Some l \<Longrightarrow> c = d"
  by (auto simp: named_escapes_def split: if_splits)

lemma named_escapes_not_u: "map_of named_escapes c \<noteq> Some (CHR ''u'')"
  by (simp add: named_escapes_def)

lemma escape_char_prefix:
  assumes "escape_char c @ u = escape_char d @ v"
  shows "c = d \<and> u = v"
proof (cases c rule: escape_char_cases)
  case plain
  with assms show ?thesis by (cases d rule: escape_char_cases) simp_all
next
  case (named l)
  with assms show ?thesis
    by (cases d rule: escape_char_cases) (auto simp: named_escapes_not_u intro: named_escapes_inject)
next
  case hex
  with assms show ?thesis
    by (cases d rule: escape_char_cases) (auto simp: named_escapes_not_u intro: hex_byte_inject)
qed

lemma escape_char_quote: "escape_char c @ u \<noteq> CHR 0x22 # v"
  by (cases c rule: escape_char_cases) auto

lemma escaped_prefix:
  "concat (map escape_char s) @ CHR 0x22 # u = concat (map escape_char t) @ CHR 0x22 # v \<Longrightarrow> s = t \<and> u = v"
proof (induction s arbitrary: t)
  case Nil
  then show ?case by (cases t) (auto simp: escape_char_quote [symmetric])
next
  case (Cons c s)
  then obtain d t' where t: "t = d # t'"
    using escape_char_quote by (cases t) fastforce+
  with Cons.prems have eq: "escape_char c @ concat (map escape_char s) @ CHR 0x22 # u
      = escape_char d @ concat (map escape_char t') @ CHR 0x22 # v" by simp
  with Cons.IH t show ?case using escape_char_prefix [OF eq] by simp
qed

lemma string_text_prefix: "string_text s @ u = string_text t @ v \<Longrightarrow> s = t \<and> u = v"
  by (rule escaped_prefix) (simp add: string_text_def)

subsection \<open>Whole values\<close>

text \<open>A scalar token ends where a separator or the text ends.\<close>

definition separator :: "char \<Rightarrow> bool" where
  "separator c \<longleftrightarrow> c = CHR '','' \<or> c = CHR '']'' \<or> c = CHR ''}''"

definition stops :: "string \<Rightarrow> bool" where
  "stops u \<longleftrightarrow> u = [] \<or> separator (hd u)"

lemma stops_simps [simp]:
  "stops []" "stops (CHR '','' # u)" "stops (CHR '']'' # u)" "stops (CHR ''}'' # u)"
  by (simp_all add: stops_def separator_def)

fun scalar :: "json \<Rightarrow> bool" where
  "scalar (JStr s) = False"
| "scalar (JList xs) = False"
| "scalar (JObj kvs) = False"
| "scalar _ = True"

definition token_char :: "char \<Rightarrow> bool" where
  "token_char c \<longleftrightarrow> is_digit c \<or> c \<in> set ''nulltruefalse+-.e''"

lemma float_token_chars: "float_token t \<Longrightarrow> c \<in> set t \<Longrightarrow> is_digit c \<or> c \<in> set ''+-.e''"
  by (auto simp: float_token_def list_all_iff)

lemma scalar_chars:
  assumes "scalar x" and "wf_json x" and "c \<in> set (render x)"
  shows "token_char c"
proof (cases x)
  case (JInt i)
  with assms(3) have "c = CHR ''-'' \<or> is_digit c" by (simp add: set_int_text)
  then show ?thesis by (auto simp: token_char_def)
next
  case (JFloat t)
  with assms have "is_digit c \<or> c \<in> set ''+-.e''" using float_token_chars [of t c] by simp
  then show ?thesis by (auto simp: token_char_def)
next
  case (JBool b)
  with assms(3) show ?thesis by (cases b) (auto simp: token_char_def)
qed (use assms in \<open>auto simp: token_char_def\<close>)

lemma token_char_not_structural:
  "token_char c \<Longrightarrow> \<not> separator c \<and> c \<noteq> CHR 0x22 \<and> c \<noteq> CHR ''['' \<and> c \<noteq> CHR ''{''"
  by (auto simp: token_char_def separator_def is_digit_def)

lemma scalar_nonempty: "scalar x \<Longrightarrow> wf_json x \<Longrightarrow> render x \<noteq> []"
  by (cases x) (auto simp: float_token_def)

lemma scalar_token:
  assumes "scalar x" and "wf_json x" and "stops u"
  shows "takeWhile (\<lambda>c. \<not> separator c) (render x @ u) = render x"
proof -
  have "\<forall>c \<in> set (render x). \<not> separator c"
    using scalar_chars [OF assms(1,2)] token_char_not_structural by blast
  moreover have "takeWhile (\<lambda>c. \<not> separator c) u = []"
    using assms(3) by (cases u) (auto simp: stops_def)
  ultimately show ?thesis by (simp add: takeWhile_append2)
qed

text \<open>Each kind of scalar is told apart by a character that only it contains.\<close>

lemma word_not_digit [simp]:
  "\<not> is_digit (CHR ''n'')" "\<not> is_digit (CHR ''r'')" "\<not> is_digit (CHR ''s'')"
  "\<not> is_digit (CHR ''.'')" "\<not> is_digit (CHR ''e'')"
  by (simp_all add: is_digit_def)

lemma int_text_no_word:
  "CHR ''n'' \<notin> set (int_text i)" "CHR ''r'' \<notin> set (int_text i)" "CHR ''s'' \<notin> set (int_text i)"
  "CHR ''.'' \<notin> set (int_text i)" "CHR ''e'' \<notin> set (int_text i)"
  by (auto dest: set_int_text)

lemma float_token_no_word:
  assumes "float_token t"
  shows "CHR ''n'' \<notin> set t" "CHR ''r'' \<notin> set t" "CHR ''s'' \<notin> set t"
  by (auto dest: float_token_chars [OF assms])

lemma word_not_float:
  "\<not> float_token ''null''" "\<not> float_token ''true''" "\<not> float_token ''false''"
  by (simp_all add: float_token_def)

lemma int_text_not_float: "\<not> float_token (int_text i)"
  using int_text_no_word(4,5) [of i] by (auto simp: float_token_def)

definition scalar_kind :: "string \<Rightarrow> nat" where
  "scalar_kind t =
     (if CHR ''n'' \<in> set t then 0 else if CHR ''r'' \<in> set t then 1 else if CHR ''s'' \<in> set t then 2
      else if CHR ''.'' \<in> set t \<or> CHR ''e'' \<in> set t then 3 else 4)"

lemma scalar_kind_render:
  "scalar_kind (render JNull) = 0"
  "scalar_kind (render (JBool True)) = 1"
  "scalar_kind (render (JBool False)) = 2"
  "wf_json (JFloat t) \<Longrightarrow> scalar_kind (render (JFloat t)) = 3"
  "scalar_kind (render (JInt i)) = 4"
  by (auto simp: scalar_kind_def int_text_no_word float_token_no_word float_token_def
      dest: float_token_no_word)

lemma scalar_inject:
  assumes "scalar x" and "wf_json x" and "scalar y" and "wf_json y" and "render x = render y"
  shows "x = y"
proof -
  have kind: "scalar_kind (render x) = scalar_kind (render y)" using assms(5) by simp
  have bool: "scalar_kind (render (JBool b)) = (if b then 1 else 2)" for b
    using scalar_kind_render(2,3) by (cases b) simp_all
  show ?thesis
    using kind assms
    by (cases x; cases y)
      (simp_all only: scalar_kind_render bool scalar.simps, auto simp: int_text_inject word_not_float int_text_not_float split: if_splits)
qed

lemma scalar_prefix:
  assumes "scalar x" "wf_json x" "scalar y" "wf_json y" "stops u" "stops v"
    and "render x @ u = render y @ v"
  shows "x = y \<and> u = v"
proof -
  have "render x = render y"
    using assms scalar_token by metis
  with assms scalar_inject show ?thesis by auto
qed

lemma scalar_head:
  assumes "scalar x" "wf_json x"
  obtains c t where "render x = c # t" "token_char c"
  using scalar_nonempty [OF assms] scalar_chars [OF assms] by (cases "render x") auto

text \<open>The first character of a value: a structural one for compound values.\<close>

fun opener :: "json \<Rightarrow> char option" where
  "opener (JStr s) = Some (CHR 0x22)"
| "opener (JList xs) = Some (CHR ''['')"
| "opener (JObj kvs) = Some (CHR ''{'')"
| "opener _ = None"

lemma opener_head: "opener x = Some c \<Longrightarrow> \<exists>t. render x = c # t"
  by (cases x) (auto simp: string_text_def)

lemma opener_scalar: "opener x = None \<longleftrightarrow> scalar x"
  by (cases x) auto

lemma opener_not_token: "opener z = Some c \<Longrightarrow> \<not> token_char c"
  by (cases z) (use token_char_not_structural in auto)

lemma opener_eq:
  assumes "wf_json x" and "wf_json y" and eq: "render x @ u = render y @ v"
  shows "opener x = opener y"
proof -
  have head: "\<exists>c t. render z = c # t \<and> opener z = (if token_char c then None else Some c)"
    if wf: "wf_json z" for z
  proof (cases "opener z")
    case None
    then obtain c t where "render z = c # t" "token_char c"
      using wf scalar_head opener_scalar by blast
    with None show ?thesis by simp
  next
    case (Some c)
    with opener_head [of z c] opener_not_token [of z c] show ?thesis by auto
  qed
  from head [OF assms(1)] obtain c s where "render x = c # s"
    and x: "opener x = (if token_char c then None else Some c)" by blast
  moreover from head [OF assms(2)] obtain d t where "render y = d # t"
    and y: "opener y = (if token_char d then None else Some d)" by blast
  ultimately show ?thesis using eq x y by simp
qed

lemma render_not_separator:
  assumes "wf_json x" and "separator c"
  shows "render x @ u \<noteq> c # v"
proof (cases "opener x")
  case None
  then obtain d t where "render x = d # t" "token_char d"
    using assms(1) scalar_head opener_scalar by blast
  with assms(2) token_char_not_structural [of d] show ?thesis by auto
next
  case (Some d)
  then obtain t where "render x = d # t" using opener_head by blast
  moreover have "d \<noteq> c" using Some assms(2) by (cases x) (auto simp: separator_def)
  ultimately show ?thesis by simp
qed

lemma comma_join_Cons:
  "comma_join (t # ts) @ u = t @ (if ts = [] then u else CHR '','' # comma_join ts @ u)"
  by (cases ts) auto

text \<open>
  Element texts that are told apart by their prefix, never start with the closing bracket and
  may be followed by a separator give a comma-separated list that is told apart by its prefix.
\<close>

lemma comma_join_prefix:
  assumes elem: "\<And>x y u v. x \<in> set xs \<Longrightarrow> y \<in> set ys \<Longrightarrow> stops u \<Longrightarrow> stops v \<Longrightarrow>
      f x @ u = f y @ v \<Longrightarrow> x = y \<and> u = v"
    and nosep: "\<And>x u v. x \<in> set xs \<union> set ys \<Longrightarrow> f x @ u \<noteq> close # v"
    and close: "separator close" "close \<noteq> CHR '',''"
    and eq: "comma_join (map f xs) @ close # u = comma_join (map f ys) @ close # v"
  shows "xs = ys \<and> u = v"
  using elem nosep eq
proof (induction xs arbitrary: ys)
  case Nil
  then show ?case by (cases ys) (auto simp: comma_join_Cons dest: sym)
next
  case (Cons x xs)
  then obtain y ys' where ys: "ys = y # ys'"
    by (cases ys) (auto simp: comma_join_Cons)
  have stop: "stops (close # w)" for w using close by (simp add: stops_def)
  let ?tail = "\<lambda>zs w. if zs = [] then close # w else CHR '','' # comma_join (map f zs) @ close # w"
  have "f x @ ?tail xs u = f y @ ?tail ys' v"
    using Cons.prems(3) by (simp add: ys comma_join_Cons)
  then have "x = y \<and> ?tail xs u = ?tail ys' v"
    using Cons.prems(1) [of x y "?tail xs u" "?tail ys' v"] stop by (auto simp: ys)
  moreover have "xs = ys' \<and> u = v" if tail: "?tail xs u = ?tail ys' v"
  proof (cases "xs = [] \<or> ys' = []")
    case True
    with tail close show ?thesis by (auto split: if_splits)
  next
    case False
    with tail have "comma_join (map f xs) @ close # u = comma_join (map f ys') @ close # v" by simp
    then show ?thesis using Cons.prems(1,2) by (intro Cons.IH) (auto simp: ys)
  qed
  ultimately show ?case by (simp add: ys)
qed

definition member_text :: "string \<times> json \<Rightarrow> string" where
  "member_text kv = string_text (fst kv) @ CHR '':'' # render (snd kv)"

lemma render_JObj: "render (JObj kvs) = CHR ''{'' # comma_join (map member_text kvs) @ [CHR ''}'']"
proof -
  have "(\<lambda>(k, v). string_text k @ CHR '':'' # render v) = member_text"
    by (simp add: fun_eq_iff member_text_def)
  then show ?thesis by (simp only: render.simps)
qed

lemma member_text_not_separator: "separator c \<Longrightarrow> member_text kv @ u \<noteq> c # v"
  by (auto simp: member_text_def string_text_def separator_def)

lemma render_prefix:
  assumes "wf_json x" and "wf_json y" and "stops u" and "stops v"
    and "render x @ u = render y @ v"
  shows "x = y \<and> u = v"
  using assms
proof (induction x arbitrary: y u v)
  case (JStr s)
  then obtain t where "y = JStr t" using opener_eq [OF JStr.prems(1,2,5)] by (cases y) auto
  with JStr.prems show ?case using string_text_prefix [of s u t v] by simp
next
  case (JList xs)
  then obtain ys where y: "y = JList ys" using opener_eq [OF JList.prems(1,2,5)] by (cases y) auto
  have "xs = ys \<and> u = v"
  proof (rule comma_join_prefix [where f = render and close = "CHR '']''"])
    show "comma_join (map render xs) @ CHR '']'' # u = comma_join (map render ys) @ CHR '']'' # v"
      using JList.prems(5) by (simp add: y)
  qed (use JList y in \<open>auto simp: list_all_iff separator_def render_not_separator\<close>)
  then show ?case by (simp add: y)
next
  case (JObj kvs)
  then obtain kvs' where y: "y = JObj kvs'" using opener_eq [OF JObj.prems(1,2,5)] by (cases y) auto
  have elem: "kv = kv' \<and> r = s"
    if "kv \<in> set kvs" "kv' \<in> set kvs'" "stops r" "stops s" "member_text kv @ r = member_text kv' @ s"
    for kv kv' r s
  proof -
    have key: "fst kv = fst kv' \<and> render (snd kv) @ r = render (snd kv') @ s"
      using string_text_prefix [of "fst kv" "CHR '':'' # render (snd kv) @ r" "fst kv'" "CHR '':'' # render (snd kv') @ s"]
        that(5) by (simp add: member_text_def)
    moreover have "wf_json (snd kv)" "wf_json (snd kv')"
      using JObj.prems(1,2) that(1,2) by (auto simp: y list_all_iff case_prod_beta)
    ultimately show ?thesis
      using JObj.IH [of kv "snd kv" "snd kv'" r s] that(1,3,4) by (cases kv; cases kv') (auto simp: snds.simps)
  qed
  have "kvs = kvs' \<and> u = v"
  proof (rule comma_join_prefix [where f = member_text and close = "CHR ''}''"])
    show "comma_join (map member_text kvs) @ CHR ''}'' # u = comma_join (map member_text kvs') @ CHR ''}'' # v"
      using JObj.prems(5) by (simp add: y render_JObj del: render.simps)
  qed (use elem in \<open>auto simp: separator_def member_text_not_separator\<close>)
  then show ?case by (simp add: y)
qed (use opener_eq opener_scalar scalar_prefix in \<open>metis opener.simps(4,5,6,7)\<close>)+

theorem render_inject: "wf_json x \<Longrightarrow> wf_json y \<Longrightarrow> render x = render y \<longleftrightarrow> x = y"
  using render_prefix [of x y "[]" "[]"] by auto

lemma wf_sort_keys [simp]: "wf_json (sort_keys x) = wf_json x"
  by (induction x rule: sort_keys.induct) (force simp: list_all_iff)+

lemma canonical_json_inject:
  "wf_json x \<Longrightarrow> wf_json y \<Longrightarrow> canonical_json x = canonical_json y \<longleftrightarrow> sort_keys x = sort_keys y"
  by (simp add: canonical_json_def render_inject)

end
