(* ===== verification/Normalize.thy ===== *)
theory Normalize
  imports Numerics Json
begin

text \<open>
  \<open>app/ingestion/normalize.py\<close> and the inbound half of \<open>app/schemas/alert.py\<close>: the validated
  payload \<open>AlertIn\<close>, its canonical form \<open>NormalizedAlert\<close>, the merchant name normaliser and the
  amount buckets that blocking uses.

  A datetime is its wall-clock reading in microseconds with the UTC offset it carries (none for a
  naive one); an instant in UTC is an integer number of microseconds. A \<open>Decimal\<close> is its value. The
  amount constraints of the schema are \<open>valid_amount\<close>. An IP address is the text that \<open>str\<close> gives for
  the parsed address.

  The lemmas show that the normalised name is the space-separated list of the maximal
  alphanumeric runs of the lower-cased name (so normalising is idempotent), and that the buckets
  partition the non-negative amounts in order.
\<close>

section \<open>Characters and strings\<close>

definition lower_char :: "char \<Rightarrow> char" where
  "lower_char c =
     (let n = of_char c :: nat
      in if 65 \<le> n \<and> n \<le> 90 \<or> 192 \<le> n \<and> n \<le> 222 \<and> n \<noteq> 215 then char_of (n + 32) else c)"

definition py_lower :: "string \<Rightarrow> string" where
  "py_lower s = map lower_char s"

text \<open>\<open>str.upper\<close> on the ASCII range; the schema admits no other characters in a currency.\<close>

definition upper_char :: "char \<Rightarrow> char" where
  "upper_char c = (let n = of_char c :: nat in if 97 \<le> n \<and> n \<le> 122 then char_of (n - 32) else c)"

definition py_upper :: "string \<Rightarrow> string" where
  "py_upper s = map upper_char s"

definition is_space :: "char \<Rightarrow> bool" where
  "is_space c \<longleftrightarrow>
     (let n = of_char c :: nat in 9 \<le> n \<and> n \<le> 13 \<or> 28 \<le> n \<and> n \<le> 32 \<or> n = 133 \<or> n = 160)"

definition py_strip :: "string \<Rightarrow> string" where
  "py_strip s = rev (dropWhile is_space (rev (dropWhile is_space s)))"

text \<open>The class \<open>[a-z0-9]\<close>, and \<open>re.sub("[^a-z0-9]+", " ", s)\<close>: the flag says that the run in
  progress has already been replaced.\<close>

definition alnum :: "char \<Rightarrow> bool" where
  "alnum c \<longleftrightarrow> is_digit c \<or> (let n = of_char c :: nat in 97 \<le> n \<and> n \<le> 122)"

fun sub_runs :: "bool \<Rightarrow> string \<Rightarrow> string" where
  "sub_runs r [] = []"
| "sub_runs r (c # cs) =
     (if alnum c then c # sub_runs False cs
      else if r then sub_runs True cs
      else CHR '' '' # sub_runs True cs)"

section \<open>Normalisation of an alert\<close>

record datetime =
  dt_wall :: int
  dt_offset :: "int option"

record alert_in =
  in_external_alert_id :: string
  in_source_system :: string
  in_event_time :: datetime
  in_amount :: rat
  in_currency :: string
  in_direction :: string
  in_customer_ref :: "string option"
  in_account_ref :: "string option"
  in_counterparty_ref :: "string option"
  in_merchant_name :: "string option"
  in_mcc :: "string option"
  in_device_id :: "string option"
  in_ip_address :: "string option"
  in_session_id :: "string option"
  in_risk_score :: "int option"
  in_rule_codes :: "string list"
  in_typologies :: "string list"
  in_raw_payload :: json
  in_ground_truth_group_id :: "string option"

record normalized_alert =
  na_external_alert_id :: string
  na_source_system :: string
  na_event_time :: int
  na_amount :: rat
  na_currency :: string
  na_direction :: string
  na_customer_ref :: "string option"
  na_account_ref :: "string option"
  na_counterparty_ref :: "string option"
  na_merchant_name :: "string option"
  na_merchant_name_normalised :: "string option"
  na_mcc :: "string option"
  na_device_id :: "string option"
  na_session_id :: "string option"
  na_ip_address :: "string option"
  na_risk_score :: "int option"
  na_rule_codes :: "string list"
  na_typologies :: "string list"
  na_raw_payload :: json
  na_ground_truth_group_id :: "string option"

text \<open>The constraints of \<open>AlertIn\<close> that pydantic has checked before any of this code runs.\<close>

definition valid_amount :: "rat \<Rightarrow> bool" where
  "valid_amount a \<longleftrightarrow> 0 \<le> a \<and> a < 10 ^ 14 \<and> a * 10 ^ 4 = of_int \<lfloor>a * 10 ^ 4\<rfloor>"

definition valid_currency :: "string \<Rightarrow> bool" where
  "valid_currency s \<longleftrightarrow>
     length s = 3 \<and> list_all (\<lambda>c. 65 \<le> (of_char c :: nat) \<and> (of_char c :: nat) \<le> 90) s"

definition valid_direction :: "string \<Rightarrow> bool" where
  "valid_direction s \<longleftrightarrow> s \<in> set [''inbound'', ''outbound'', ''internal'']"

definition valid_risk_score :: "int \<Rightarrow> bool" where
  "valid_risk_score n \<longleftrightarrow> 0 \<le> n \<and> n \<le> 100"

definition valid_alert_in :: "alert_in \<Rightarrow> bool" where
  "valid_alert_in p \<longleftrightarrow>
     dt_offset (in_event_time p) \<noteq> None
     \<and> valid_amount (in_amount p)
     \<and> valid_currency (in_currency p)
     \<and> valid_direction (in_direction p)
     \<and> pred_option valid_risk_score (in_risk_score p)"

fun normalize_merchant_name :: "string option \<Rightarrow> string option" where
  "normalize_merchant_name None = None"
| "normalize_merchant_name (Some name) = Some (py_strip (sub_runs False (py_lower name)))"

text \<open>\<open>Decimal.quantize(Decimal("0.0001"))\<close>: half-even at four decimals, and an error when the
  coefficient would need more than the 28 digits of the context.\<close>

definition quantize4 :: "rat \<Rightarrow> rat result" where
  "quantize4 a =
     (let n = round_half_even (a * 10 ^ 4)
      in if \<bar>n\<bar> < 10 ^ 28 then Inr (of_int n / 10 ^ 4) else Inl InvalidOperation)"

definition normalize_alert :: "alert_in \<Rightarrow> normalized_alert result" where
  "normalize_alert p =
     (case dt_offset (in_event_time p) of
        None \<Rightarrow> Inl (ValueError ''event_time must be timezone-aware'')
      | Some offset \<Rightarrow>
          rbind (quantize4 (in_amount p)) (\<lambda>amount.
            Inr \<lparr> na_external_alert_id = in_external_alert_id p,
                  na_source_system = in_source_system p,
                  na_event_time = dt_wall (in_event_time p) - offset,
                  na_amount = amount,
                  na_currency = py_upper (in_currency p),
                  na_direction = in_direction p,
                  na_customer_ref = in_customer_ref p,
                  na_account_ref = in_account_ref p,
                  na_counterparty_ref = in_counterparty_ref p,
                  na_merchant_name = in_merchant_name p,
                  na_merchant_name_normalised = normalize_merchant_name (in_merchant_name p),
                  na_mcc = in_mcc p,
                  na_device_id = in_device_id p,
                  na_session_id = in_session_id p,
                  na_ip_address = in_ip_address p,
                  na_risk_score = in_risk_score p,
                  na_rule_codes = in_rule_codes p,
                  na_typologies = in_typologies p,
                  na_raw_payload = in_raw_payload p,
                  na_ground_truth_group_id = in_ground_truth_group_id p \<rparr>))"

definition amount_bucket :: "rat \<Rightarrow> string result" where
  "amount_bucket amount =
     (if amount < 0 then Inl (ValueError ''amount must be non-negative'')
      else if amount < 10 then Inr ''0-10''
      else if amount < 100 then Inr ''10-100''
      else if amount < 1000 then Inr ''100-1000''
      else if amount < 10000 then Inr ''1000-10000''
      else Inr ''10000+'')"

section \<open>The normalised name as a list of words\<close>

text \<open>The specification: the maximal alphanumeric runs, joined by single spaces.\<close>

function tokens :: "string \<Rightarrow> string list" where
  "tokens s =
     (let t = dropWhile (\<lambda>c. \<not> alnum c) s
      in if t = [] then [] else takeWhile alnum t # tokens (dropWhile alnum t))"
  by pat_completeness auto
termination
proof (relation "measure length")
  fix s t
  assume t: "t = dropWhile (\<lambda>c. \<not> alnum c) s" "t \<noteq> []"
  from t(2) obtain c u where c: "t = c # u" by (auto simp: neq_Nil_conv)
  have "alnum (hd t)" using hd_dropWhile [of "\<lambda>c. \<not> alnum c" s] t by simp
  with c have "alnum c" by simp
  have "length (dropWhile alnum t) \<le> length u"
    using c \<open>alnum c\<close> by (simp add: length_dropWhile_le)
  moreover have "length t \<le> length s" by (simp add: t(1) length_dropWhile_le)
  ultimately show "(dropWhile alnum t, s) \<in> measure length" using c by simp
qed simp

declare tokens.simps [simp del]

fun space_join :: "string list \<Rightarrow> string" where
  "space_join [] = []"
| "space_join [w] = w"
| "space_join (w # v # ws) = w @ CHR '' '' # space_join (v # ws)"

lemma space_not_alnum [simp]: "\<not> alnum (CHR '' '')"
  by (simp add: alnum_def is_digit_def)

lemma is_space_space [simp]: "is_space (CHR '' '')"
  by (simp add: is_space_def)

lemma alnum_not_space: "alnum c \<Longrightarrow> \<not> is_space c"
  by (auto simp: alnum_def is_digit_def is_space_def Let_def)

lemma lower_alnum: "alnum c \<Longrightarrow> lower_char c = c"
  by (auto simp: alnum_def is_digit_def lower_char_def Let_def)

lemma sub_runs_alnum_prefix:
  "\<forall>c \<in> set w. alnum c \<Longrightarrow> w \<noteq> [] \<Longrightarrow> sub_runs r (w @ s) = w @ sub_runs False s"
proof (induction w arbitrary: r)
  case (Cons c w)
  then show ?case by (cases "w = []") auto
qed simp

lemma sub_runs_gap: "sub_runs True s = sub_runs True (dropWhile (\<lambda>c. \<not> alnum c) s)"
  by (induction s) auto

lemma sub_runs_False:
  "sub_runs False s = (if s \<noteq> [] \<and> \<not> alnum (hd s) then [CHR '' ''] else []) @ sub_runs True s"
  by (cases s) auto

lemma tokens_nonempty_alnum: "w \<in> set (tokens s) \<Longrightarrow> w \<noteq> [] \<and> (\<forall>c \<in> set w. alnum c)"
proof (induction s rule: tokens.induct)
  case (1 s)
  define t where "t = dropWhile (\<lambda>c. \<not> alnum c) s"
  show ?case
  proof (cases "t = []")
    case True
    with "1.prems" show ?thesis by (subst (asm) tokens.simps) (simp add: t_def)
  next
    case False
    then have "alnum (hd t)" using hd_dropWhile [of "\<lambda>c. \<not> alnum c" s] by (simp add: t_def)
    with False have "takeWhile alnum t \<noteq> []" by (cases t) auto
    moreover from "1.prems" False have "w = takeWhile alnum t \<or> w \<in> set (tokens (dropWhile alnum t))"
      by (subst (asm) tokens.simps) (auto simp: t_def [symmetric] Let_def)
    ultimately show ?thesis using "1.IH" [OF t_def] False by (auto dest: set_takeWhileD)
  qed
qed

lemma space_join_Cons: "space_join (w # ws) = w @ (if ws = [] then [] else CHR '' '' # space_join ws)"
  by (cases ws) auto

text \<open>After a replaced run, what remains is the words of the rest and at most one trailing space.\<close>

lemma sub_runs_True:
  "sub_runs True s = space_join (tokens s) @
     (if tokens s \<noteq> [] \<and> \<not> alnum (last s) then [CHR '' ''] else [])"
proof (induction s rule: tokens.induct)
  case (1 s)
  define t where "t = dropWhile (\<lambda>c. \<not> alnum c) s"
  have gap: "sub_runs True s = sub_runs True t" unfolding t_def by (rule sub_runs_gap)
  show ?case
  proof (cases "t = []")
    case True
    then have "tokens s = []" by (subst tokens.simps) (simp add: t_def)
    with True gap show ?thesis by simp
  next
    case False
    define w v where "w = takeWhile alnum t" and "v = dropWhile alnum t"
    have t: "t = w @ v" by (simp add: w_def v_def)
    have "alnum (hd t)" using False hd_dropWhile [of "\<lambda>c. \<not> alnum c" s] by (simp add: t_def)
    then have w: "w \<noteq> []" "\<forall>c \<in> set w. alnum c"
      using False by (auto simp: w_def neq_Nil_conv dest: set_takeWhileD)
    have tok: "tokens s = w # tokens v"
      using False by (subst tokens.simps) (simp add: t_def [symmetric] w_def v_def Let_def)
    have v: "v \<noteq> [] \<Longrightarrow> \<not> alnum (hd v)" unfolding v_def by (rule hd_dropWhile)
    have last: "last s = last t" using False dropWhile_append3 [of "\<lambda>c. \<not> alnum c"] takeWhile_dropWhile_id [of "\<lambda>c. \<not> alnum c" s]
      by (metis last_appendR t_def)
    have "sub_runs True s = w @ sub_runs False v"
      using gap sub_runs_alnum_prefix [OF w(2,1)] by (simp add: t)
    also have "\<dots> = w @ (if v = [] then [] else CHR '' '' # sub_runs True v)"
      using v by (auto simp: sub_runs_False [of v])
    finally have eq: "sub_runs True s = \<dots>" .
    have nil: "v \<noteq> [] \<Longrightarrow> tokens v = [] \<Longrightarrow> \<not> alnum (last v)"
      by (subst (asm) tokens.simps) (auto simp: Let_def split: if_splits)
    show ?thesis
    proof (cases "v = []")
      case True
      then show ?thesis using eq tok last w t by (simp add: tokens.simps [of "[]"])
    next
      case False
      then show ?thesis
        using eq tok last t nil "1.IH" [OF t_def \<open>t \<noteq> []\<close>, folded v_def]
        by (simp add: space_join_Cons)
    qed
  qed
qed

lemma space_join_ends:
  assumes "ws \<noteq> []" and "\<forall>w \<in> set ws. w \<noteq> [] \<and> (\<forall>c \<in> set w. alnum c)"
  shows "space_join ws \<noteq> [] \<and> alnum (hd (space_join ws)) \<and> alnum (last (space_join ws))"
  using assms by (induction ws rule: space_join.induct) (auto simp: hd_append)

lemma py_strip_core:
  assumes "x \<noteq> []" and "\<not> is_space (hd x)" and "\<not> is_space (last x)"
    and "\<forall>c \<in> set pre \<union> set post. is_space c"
  shows "py_strip (pre @ x @ post) = x"
proof -
  have "dropWhile is_space (pre @ x @ post) = x @ post"
    using assms by (cases x) (auto simp: dropWhile_append2)
  moreover have "dropWhile is_space (rev post @ rev x) = dropWhile is_space (rev x)"
    using assms(4) by (intro dropWhile_append2) auto
  moreover have "dropWhile is_space (rev x) = rev x"
    using assms(1,3) by (cases x rule: rev_cases) auto
  ultimately show ?thesis by (simp add: py_strip_def)
qed

lemma strip_sub_runs: "py_strip (sub_runs False s) = space_join (tokens s)"
proof (cases "tokens s = []")
  case True
  then show ?thesis by (auto simp: sub_runs_False [of s] sub_runs_True py_strip_def)
next
  case False
  then show ?thesis
    using space_join_ends [of "tokens s"] tokens_nonempty_alnum [of _ s] alnum_not_space
    by (simp only: sub_runs_False [of s] sub_runs_True, intro py_strip_core) auto
qed

lemma tokens_space_join:
  assumes "\<forall>w \<in> set ws. w \<noteq> [] \<and> (\<forall>c \<in> set w. alnum c)"
  shows "tokens (space_join ws) = ws"
  using assms
proof (induction ws rule: space_join.induct)
  case 1
  show ?case by (simp add: tokens.simps [of "[]"])
next
  case (2 w)
  then have "dropWhile (\<lambda>c. \<not> alnum c) w = w" "takeWhile alnum w = w" "dropWhile alnum w = []"
    by (cases w, auto)+
  then have "tokens w = (if w = [] then [] else w # tokens [])"
    by (subst tokens.simps) (simp only: Let_def)
  with 2 show ?case by (simp add: tokens.simps [of "[]"])
next
  case (3 w v ws)
  let ?r = "CHR '' '' # space_join (v # ws)"
  have "dropWhile (\<lambda>c. \<not> alnum c) (w @ ?r) = w @ ?r" "takeWhile alnum (w @ ?r) = w"
    "dropWhile alnum (w @ ?r) = ?r"
    using 3 by (cases w, auto simp: takeWhile_append2 dropWhile_append2)+
  then have "tokens (w @ ?r) = w # tokens ?r"
    by (subst tokens.simps) (simp add: Let_def)
  moreover have "tokens ?r = tokens (space_join (v # ws))"
    by (simp add: tokens.simps [of ?r] tokens.simps [of "space_join (v # ws)"])
  ultimately show ?case using 3 by simp
qed

lemma lower_space_join:
  "\<forall>w \<in> set ws. \<forall>c \<in> set w. alnum c \<Longrightarrow> py_lower (space_join ws) = space_join ws"
proof -
  have "lower_char (CHR '' '') = CHR '' ''" by (simp add: lower_char_def)
  then show "\<forall>w \<in> set ws. \<forall>c \<in> set w. alnum c \<Longrightarrow> py_lower (space_join ws) = space_join ws"
    by (induction ws rule: space_join.induct) (auto simp: py_lower_def lower_alnum intro: map_idI)
qed

text \<open>The normalised merchant name is the space-separated list of the maximal alphanumeric
  runs of the lower-cased name.\<close>

theorem normalize_merchant_name_words:
  "normalize_merchant_name (Some name) = Some (space_join (tokens (py_lower name)))"
  by (simp add: strip_sub_runs)

text \<open>Normalising a merchant name twice is the same as normalising it once.\<close>

theorem normalize_merchant_name_idempotent:
  "normalize_merchant_name (normalize_merchant_name name) = normalize_merchant_name name"
proof (cases name)
  case (Some s)
  have "\<forall>w \<in> set (tokens (py_lower s)). w \<noteq> [] \<and> (\<forall>c \<in> set w. alnum c)"
    using tokens_nonempty_alnum by blast
  then show ?thesis
    by (simp add: Some strip_sub_runs lower_space_join tokens_space_join)
qed simp

section \<open>Amounts\<close>

lemma amount_bucket_ok: "0 \<le> a \<Longrightarrow> is_ok (amount_bucket a)"
  by (simp add: amount_bucket_def)

text \<open>Two non-negative amounts are in one bucket exactly when none of the four boundaries
  separates them (each boundary belongs to the upper bucket).\<close>

theorem amount_bucket_eq_iff:
  assumes "0 \<le> a" and "0 \<le> b"
  shows "amount_bucket a = amount_bucket b \<longleftrightarrow> (\<forall>t \<in> {10, 100, 1000, 10000}. a < t \<longleftrightarrow> b < t)"
  using assms by (auto simp: amount_bucket_def split: if_splits)

theorem amount_bucket_eq_iff_witness:
  "amount_bucket 4980 = amount_bucket 1000 \<and> amount_bucket 1000 \<noteq> amount_bucket (9999 / 10)"
  using amount_bucket_eq_iff [of 4980 1000] amount_bucket_eq_iff [of 1000 "9999 / 10"] by simp

lemma quantize4_exact:
  assumes "valid_amount a"
  shows "quantize4 a = Inr a"
proof -
  have a: "a * 10 ^ 4 = of_int \<lfloor>a * 10 ^ 4\<rfloor>" "0 \<le> a" "a < 10 ^ 14"
    using assms unfolding valid_amount_def by blast+
  then have "round_half_even (a * 10 ^ 4) = \<lfloor>a * 10 ^ 4\<rfloor>"
    by (metis round_half_even_of_int)
  moreover have "\<bar>\<lfloor>a * 10 ^ 4\<rfloor>\<bar> < 10 ^ 28"
    using a(2,3) by (simp add: abs_if floor_less_iff)
  moreover have "of_int \<lfloor>a * 10 ^ 4\<rfloor> / 10 ^ 4 = a"
    by (subst a(1) [symmetric]) simp
  ultimately show ?thesis by (simp add: quantize4_def Let_def)
qed

lemma valid_currency_upper:
  assumes "valid_currency s"
  shows "py_upper s = s"
proof -
  have "upper_char c = c" if "c \<in> set s" for c
    using assms that by (fastforce simp: valid_currency_def upper_char_def list_all_iff Let_def)
  then show ?thesis by (simp add: py_upper_def map_idI)
qed

lemma normalize_alert_total: "valid_alert_in p \<Longrightarrow> \<exists>n. normalize_alert p = Inr n"
  using valid_currency_upper [of "in_currency p"] quantize4_exact [of "in_amount p"]
  by (auto simp: valid_alert_in_def normalize_alert_def)

text \<open>A payload that the schema accepts is normalised without an error; the amount and the
  currency come out unchanged and the event time as its UTC instant.\<close>

theorem normalize_alert_valid:
  assumes "valid_alert_in p"
  shows "\<exists>n offset. normalize_alert p = Inr n
    \<and> na_amount n = in_amount p \<and> na_currency n = in_currency p
    \<and> dt_offset (in_event_time p) = Some offset
    \<and> na_event_time n = dt_wall (in_event_time p) - offset
    \<and> na_merchant_name_normalised n = normalize_merchant_name (in_merchant_name p)"
  using assms valid_currency_upper [of "in_currency p"] quantize4_exact [of "in_amount p"]
  by (auto simp: valid_alert_in_def normalize_alert_def)

definition sample_alert_in :: alert_in where
  "sample_alert_in =
     \<lparr> in_external_alert_id = ''ext-1'', in_source_system = ''txmon-core'',
       in_event_time = \<lparr> dt_wall = 1000000, dt_offset = Some 0 \<rparr>, in_amount = 25 / 2,
       in_currency = ''USD'', in_direction = ''inbound'', in_customer_ref = Some ''cust-1'',
       in_account_ref = Some ''acct-1'', in_counterparty_ref = None,
       in_merchant_name = Some ''  Quick-Cash,  LLC '', in_mcc = None, in_device_id = None,
       in_ip_address = None, in_session_id = None, in_risk_score = Some 40, in_rule_codes = [],
       in_typologies = [], in_raw_payload = JObj [], in_ground_truth_group_id = None \<rparr>"

lemma valid_sample_alert_in: "valid_alert_in sample_alert_in"
  by (simp add: valid_alert_in_def sample_alert_in_def valid_amount_def valid_currency_def
      valid_direction_def valid_risk_score_def)

theorem normalize_alert_valid_witness: "\<exists>n. normalize_alert sample_alert_in = Inr n \<and> na_amount n = 25 / 2"
proof -
  have "in_amount sample_alert_in = 25 / 2" by (simp add: sample_alert_in_def)
  with normalize_alert_valid [OF valid_sample_alert_in] show ?thesis by auto
qed

end
