(* ===== verification/Grouping.thy ===== *)
theory Grouping
  imports Normalize
begin

text \<open>
  The data of the pure grouping engine: the frozen configuration classes of
  \<open>app/grouping/__init__.py\<close>, the \<open>EngineAlert\<close> projection of \<open>app/grouping/blocking.py\<close>, its
  attribute lookup by name, and the platform functions the engine calls that are not part of the
  repository.

  Of the rule's floats only \<open>amount_tolerance\<close> reaches a comparison, and only as
  \<open>Decimal(str(amount_tolerance))\<close>; the field holds that decimal value. The configuration is what
  \<open>load_config\<close> returns.
\<close>

record rule =
  rule_id :: string
  enabled :: bool
  blocking_keys :: "string list"
  time_window_seconds :: int
  amount_tolerance :: rat
  match_keys :: "string list"
  weight :: rat

record feature_weights =
  w_time :: rat
  w_amount :: rat
  w_name :: rat
  w_device :: rat
  w_ip :: rat
  w_typology :: rat

record grouping_config =
  rules :: "rule list"
  weights :: feature_weights
  similarity_threshold :: rat
  candidate_cap :: int
  time_tau_seconds :: int
  dispositions :: "string list"
  risk_aggregation :: string

definition ENGINE_VERSION :: string where
  "ENGINE_VERSION = ''1.0.0''"

record engine_alert =
  ea_id :: string
  ea_event_time :: int
  ea_amount :: rat
  ea_currency :: string
  ea_customer_ref :: "string option"
  ea_account_ref :: "string option"
  ea_counterparty_ref :: "string option"
  ea_merchant_name_normalised :: "string option"
  ea_mcc :: "string option"
  ea_device_id :: "string option"
  ea_ip_address :: "string option"
  ea_session_id :: "string option"
  ea_typologies :: "string set"

text \<open>The Python values that an attribute of an \<open>EngineAlert\<close> can hold.\<close>

datatype pyval =
    PyNone
  | PyStr string
  | PyTime int
  | PyDecimal rat
  | PyFrozenset "string set"

fun opt_str :: "string option \<Rightarrow> pyval" where
  "opt_str None = PyNone"
| "opt_str (Some s) = PyStr s"

definition getattr_alert :: "engine_alert \<Rightarrow> string \<Rightarrow> pyval result" where
  "getattr_alert a key =
     (case map_of
        [(''id'', PyStr (ea_id a)),
         (''event_time'', PyTime (ea_event_time a)),
         (''amount'', PyDecimal (ea_amount a)),
         (''currency'', PyStr (ea_currency a)),
         (''customer_ref'', opt_str (ea_customer_ref a)),
         (''account_ref'', opt_str (ea_account_ref a)),
         (''counterparty_ref'', opt_str (ea_counterparty_ref a)),
         (''merchant_name_normalised'', opt_str (ea_merchant_name_normalised a)),
         (''mcc'', opt_str (ea_mcc a)),
         (''device_id'', opt_str (ea_device_id a)),
         (''ip_address'', opt_str (ea_ip_address a)),
         (''session_id'', opt_str (ea_session_id a)),
         (''typologies'', PyFrozenset (ea_typologies a))] key of
        None \<Rightarrow> Inl (AttributeError key)
      | Some v \<Rightarrow> Inr v)"

text \<open>
  What the engine calls outside the repository: \<open>str\<close> of a datetime, a decimal or a frozenset (only
  reached when a rule blocks on such an attribute), the C library's \<open>exp\<close>, \<open>rapidfuzz\<close>'s
  \<open>token_set_ratio\<close>, the SHA-256 hex digest, \<open>repr\<close> of a float and \<open>isoformat\<close> of a UTC instant.
\<close>

record platform =
  py_str :: "pyval \<Rightarrow> string"
  math_exp :: "rat \<Rightarrow> rat"
  token_set_ratio :: "string \<Rightarrow> string \<Rightarrow> rat"
  sha256 :: "string \<Rightarrow> string"
  float_repr :: "rat \<Rightarrow> string"
  isoformat :: "int \<Rightarrow> string"

text \<open>\<open>abs((a.event_time - b.event_time).total_seconds())\<close>, a float.\<close>

definition delta_seconds :: "engine_alert \<Rightarrow> engine_alert \<Rightarrow> rat" where
  "delta_seconds a b = \<bar>fl (of_int (ea_event_time a - ea_event_time b) / 10 ^ 6)\<bar>"

lemma delta_seconds_sym: "delta_seconds a b = delta_seconds b a"
  using fl_minus [of "of_int (ea_event_time a - ea_event_time b) / 10 ^ 6"]
  by (simp add: delta_seconds_def minus_divide_left)

lemma delta_seconds_nonneg [simp]: "0 \<le> delta_seconds a b"
  by (simp add: delta_seconds_def)

lemma delta_seconds_self [simp]: "delta_seconds a a = 0"
  by (simp add: delta_seconds_def)

text \<open>The attributes every alert has, and the rule keys that can be looked up.\<close>

definition alert_fields :: "string list" where
  "alert_fields =
     [''id'', ''event_time'', ''amount'', ''currency'', ''customer_ref'', ''account_ref'',
      ''counterparty_ref'', ''merchant_name_normalised'', ''mcc'', ''device_id'', ''ip_address'',
      ''session_id'', ''typologies'']"

definition known_key :: "string \<Rightarrow> bool" where
  "known_key k \<longleftrightarrow> k = ''amount_bucket'' \<or> k \<in> set alert_fields"

definition wf_rule :: "rule \<Rightarrow> bool" where
  "wf_rule r \<longleftrightarrow> list_all known_key (blocking_keys r) \<and> list_all known_key (match_keys r)"

lemma getattr_alert_ok: "k \<in> set alert_fields \<Longrightarrow> is_ok (getattr_alert a k)"
  by (auto simp: getattr_alert_def alert_fields_def)

section \<open>The shipped configuration\<close>

text \<open>\<open>backend/config/grouping.yaml\<close>; the weights are the floats nearest to the decimals in the file.\<close>

definition shipped_rules :: "rule list" where
  "shipped_rules =
     [\<lparr> rule_id = ''same-txn-dispute'', enabled = True, blocking_keys = [''account_ref''],
        time_window_seconds = 86400, amount_tolerance = 0,
        match_keys = [''account_ref'', ''amount'', ''counterparty_ref''], weight = 1 \<rparr>,
      \<lparr> rule_id = ''same-customer-72h'', enabled = True, blocking_keys = [''customer_ref''],
        time_window_seconds = 259200, amount_tolerance = 1, match_keys = [''customer_ref''],
        weight = fl (6 / 10) \<rparr>,
      \<lparr> rule_id = ''card-testing-burst'', enabled = True, blocking_keys = [''device_id''],
        time_window_seconds = 1800, amount_tolerance = 1 / 10,
        match_keys = [''device_id'', ''amount_bucket''], weight = fl (8 / 10) \<rparr>,
      \<lparr> rule_id = ''shared-ip-session'', enabled = True, blocking_keys = [''ip_address''],
        time_window_seconds = 7200, amount_tolerance = 1, match_keys = [''ip_address'', ''session_id''],
        weight = fl (7 / 10) \<rparr>,
      \<lparr> rule_id = ''same-counterparty-window'', enabled = True, blocking_keys = [''counterparty_ref''],
        time_window_seconds = 604800, amount_tolerance = 1, match_keys = [''counterparty_ref''],
        weight = fl (5 / 10) \<rparr>]"

definition shipped_config :: grouping_config where
  "shipped_config =
     \<lparr> rules = shipped_rules,
       weights = \<lparr> w_time = fl (20 / 100), w_amount = fl (20 / 100), w_name = fl (20 / 100),
                   w_device = fl (15 / 100), w_ip = fl (10 / 100), w_typology = fl (15 / 100) \<rparr>,
       similarity_threshold = fl (72 / 100), candidate_cap = 500, time_tau_seconds = 10800,
       dispositions = [''No action'', ''Escalate'', ''Confirmed fraud'', ''Confirmed AML concern'', ''Duplicate''],
       risk_aggregation = ''max'' \<rparr>"

lemma wf_shipped_rules: "list_all wf_rule shipped_rules"
  by (simp add: shipped_rules_def wf_rule_def known_key_def alert_fields_def)

text \<open>A closed platform for witnesses: it satisfies every law the properties ask of one.\<close>

definition sample_platform :: platform where
  "sample_platform =
     \<lparr> py_str = (\<lambda>v. []), math_exp = (\<lambda>x. if x = 0 then 1 else 0),
       token_set_ratio = (\<lambda>s t. if s = t then 100 else 0), sha256 = (\<lambda>s. CHR ''h'' # s),
       float_repr = (\<lambda>q. ''0.0''), isoformat = int_text \<rparr>"

text \<open>Two alerts of one account thirty seconds apart, and an unrelated one.\<close>

definition sample_alert :: "string \<Rightarrow> int \<Rightarrow> string \<Rightarrow> engine_alert" where
  "sample_alert i t acct =
     \<lparr> ea_id = i, ea_event_time = t, ea_amount = 250, ea_currency = ''USD'', ea_customer_ref = None,
       ea_account_ref = Some acct, ea_counterparty_ref = Some ''cp'', ea_merchant_name_normalised = Some ''shop'',
       ea_mcc = None, ea_device_id = None, ea_ip_address = None, ea_session_id = None,
       ea_typologies = {''fraud''} \<rparr>"

definition sample_alerts :: "engine_alert list" where
  "sample_alerts = [sample_alert ''b'' 30000000 ''acct-1'', sample_alert ''a'' 0 ''acct-1'',
     (sample_alert ''c'' 0 ''acct-2'')\<lparr> ea_counterparty_ref := None \<rparr>]"

end
