(* ===== verification/Blocking.thy ===== *)
theory Blocking
  imports Grouping
begin

text \<open>
  \<open>app/grouping/blocking.py\<close>: the blocking key of an alert under a rule and \<open>candidate_pairs\<close>, loop
  by loop, with the dictionaries in insertion order. A key that cannot be looked up and a negative
  amount raise, so every function returns a result.

  \<open>blocked_together\<close> is the specification of the inner loops and \<open>candidate_pairs_iff\<close> the
  characterisation of the result: it depends on the set of alerts only.
\<close>

section \<open>Definitions\<close>

definition py_text :: "platform \<Rightarrow> pyval \<Rightarrow> string" where
  "py_text P v = (case v of PyStr s \<Rightarrow> s | PyNone \<Rightarrow> ''None'' | _ \<Rightarrow> py_str P v)"

definition key_value :: "engine_alert \<Rightarrow> string \<Rightarrow> pyval result" where
  "key_value a key =
     (if key = ''amount_bucket'' then rbind (amount_bucket (ea_amount a)) (\<lambda>b. Inr (PyStr b))
      else getattr_alert a key)"

fun key_parts :: "platform \<Rightarrow> engine_alert \<Rightarrow> string list \<Rightarrow> string list \<Rightarrow> string list result" where
  "key_parts P a [] parts = Inr parts"
| "key_parts P a (key # keys) parts =
     rbind (key_value a key) (\<lambda>value.
       if value = PyNone then Inr []
       else key_parts P a keys (parts @ [key @ ''='' @ py_text P value]))"

definition blocking_key_values :: "platform \<Rightarrow> engine_alert \<Rightarrow> rule \<Rightarrow> string list result" where
  "blocking_key_values P a r = key_parts P a (blocking_keys r) []"

definition rule_buckets ::
  "platform \<Rightarrow> engine_alert list \<Rightarrow> rule \<Rightarrow> (string list \<times> engine_alert list) list result" where
  "rule_buckets P alerts r =
     rfold (\<lambda>a buckets. rbind (blocking_key_values P a r) (\<lambda>parts.
        Inr (if parts \<noteq> [] then dict_append parts a buckets else buckets))) alerts []"

type_synonym counterparts = "(string \<times> string set) list"

fun link_left :: "int \<Rightarrow> engine_alert \<Rightarrow> engine_alert list \<Rightarrow> counterparts \<Rightarrow> counterparts" where
  "link_left window left [] cp = cp"
| "link_left window left (right # rest) cp =
     link_left window left rest
       (if delta_seconds left right \<le> of_int window
        then dict_add (ea_id right) (ea_id left) (dict_add (ea_id left) (ea_id right) cp)
        else cp)"

fun link_bucket :: "int \<Rightarrow> engine_alert list \<Rightarrow> counterparts \<Rightarrow> counterparts" where
  "link_bucket window [] cp = cp"
| "link_bucket window (left # rest) cp = link_bucket window rest (link_left window left rest cp)"

definition link_rule ::
  "platform \<Rightarrow> engine_alert list \<Rightarrow> rule \<Rightarrow> counterparts \<Rightarrow> counterparts result" where
  "link_rule P alerts r cp =
     (if \<not> enabled r then Inr cp
      else rbind (rule_buckets P alerts r) (\<lambda>buckets.
        Inr (fold (link_bucket (time_window_seconds r)) (map snd buckets) cp)))"

text \<open>The slice \<open>xs[:n]\<close>: a negative bound counts from the end.\<close>

definition slice_to :: "int \<Rightarrow> 'a list \<Rightarrow> 'a list" where
  "slice_to n xs = take (nat (if n < 0 then int (length xs) + n else n)) xs"

definition capped :: "int \<Rightarrow> string set \<Rightarrow> string set" where
  "capped cap cps =
     (if int (card cps) > cap then set (slice_to cap (sorted_list_of_set cps)) else cps)"

definition mutual_pairs :: "counterparts \<Rightarrow> (string \<times> string) set" where
  "mutual_pairs allowed =
     (\<Union>(alert_id, cps) \<in> set allowed.
        (\<lambda>c. if alert_id \<le> c then (alert_id, c) else (c, alert_id)) `
          {c \<in> cps. alert_id \<in> dict_set allowed c})"

definition candidate_pairs ::
  "platform \<Rightarrow> engine_alert list \<Rightarrow> grouping_config \<Rightarrow> (string \<times> string) set result" where
  "candidate_pairs P alerts config =
     rbind (rfold (link_rule P alerts) (rules config) []) (\<lambda>counterparts.
       let allowed = map (\<lambda>alert_id. (alert_id, capped (candidate_cap config) (dict_set counterparts alert_id)))
                       (sort (map fst counterparts))
       in Inr (mutual_pairs allowed))"

section \<open>Which pairs a rule links\<close>

definition blocked_together :: "platform \<Rightarrow> rule \<Rightarrow> engine_alert \<Rightarrow> engine_alert \<Rightarrow> bool" where
  "blocked_together P r a b \<longleftrightarrow>
     enabled r
     \<and> blocking_key_values P a r = blocking_key_values P b r
     \<and> is_ok (blocking_key_values P a r) \<and> blocking_key_values P a r \<noteq> Inr []
     \<and> delta_seconds a b \<le> of_int (time_window_seconds r)"

definition counterpart_ids ::
  "platform \<Rightarrow> engine_alert list \<Rightarrow> rule list \<Rightarrow> string \<Rightarrow> string set" where
  "counterpart_ids P alerts rs x =
     {y. \<exists>r \<in> set rs. \<exists>a \<in> set alerts. \<exists>b \<in> set alerts.
        a \<noteq> b \<and> ea_id a = x \<and> ea_id b = y \<and> blocked_together P r a b}"

lemma blocked_together_sym: "blocked_together P r a b = blocked_together P r b a"
  by (auto simp: blocked_together_def delta_seconds_sym [of a b])

lemma dict_set_link_left:
  "dict_set (link_left w l rs cp) x =
     dict_set cp x \<union> {y. \<exists>r \<in> set rs. delta_seconds l r \<le> of_int w
        \<and> (x = ea_id l \<and> y = ea_id r \<or> x = ea_id r \<and> y = ea_id l)}"
  by (induction w l rs cp rule: link_left.induct) (auto simp: dict_set_add)

lemma dict_set_link_bucket:
  assumes "distinct bs"
  shows "dict_set (link_bucket w bs cp) x =
     dict_set cp x \<union> {y. \<exists>a \<in> set bs. \<exists>b \<in> set bs. a \<noteq> b \<and> ea_id a = x \<and> ea_id b = y
        \<and> delta_seconds a b \<le> of_int w}"
  using assms
proof (induction w bs cp rule: link_bucket.induct)
  case (2 w l rest cp)
  then show ?case by (auto simp: dict_set_link_left delta_seconds_sym [of _ l])
qed simp

lemma distinct_link_left:
  "distinct (map fst cp) \<Longrightarrow> distinct (map fst (link_left w l rs cp))"
  by (induction w l rs cp rule: link_left.induct) (auto simp: distinct_dict_add)

lemma distinct_link_bucket:
  "distinct (map fst cp) \<Longrightarrow> distinct (map fst (link_bucket w bs cp))"
  by (induction w bs cp rule: link_bucket.induct) (auto simp: distinct_link_left)

text \<open>The bucket of a key holds the alerts with that key, in input order.\<close>

definition bucket_of :: "platform \<Rightarrow> rule \<Rightarrow> engine_alert list \<Rightarrow> string list \<Rightarrow> engine_alert list option" where
  "bucket_of P r xs parts =
     (let bs = filter (\<lambda>a. blocking_key_values P a r = Inr parts) xs
      in if parts = [] \<or> bs = [] then None else Some bs)"

lemma bucket_of_Some:
  "bucket_of P r xs parts = Some bs \<longleftrightarrow>
     parts \<noteq> [] \<and> bs \<noteq> [] \<and> bs = filter (\<lambda>a. blocking_key_values P a r = Inr parts) xs"
  by (auto simp: bucket_of_def Let_def)

lemma same_bucket_iff:
  "(\<exists>bs parts. bucket_of P r xs parts = Some bs \<and> a \<in> set bs \<and> b \<in> set bs) \<longleftrightarrow>
     a \<in> set xs \<and> b \<in> set xs \<and> blocking_key_values P a r = blocking_key_values P b r
     \<and> is_ok (blocking_key_values P a r) \<and> blocking_key_values P a r \<noteq> Inr []"
  (is "?L \<longleftrightarrow> ?R")
proof
  assume ?R
  then obtain parts where "blocking_key_values P a r = Inr parts" by (metis is_okE)
  with \<open>?R\<close> have "bucket_of P r xs parts = Some (filter (\<lambda>a. blocking_key_values P a r = Inr parts) xs)"
    by (force simp: bucket_of_Some filter_empty_conv)
  with \<open>?R\<close> \<open>blocking_key_values P a r = Inr parts\<close> show ?L by fastforce
qed (auto simp: bucket_of_Some)

lemma rule_buckets_step:
  assumes "rfold (\<lambda>a buckets. rbind (blocking_key_values P a r) (\<lambda>parts.
        Inr (if parts \<noteq> [] then dict_append parts a buckets else buckets))) xs d = Inr d'"
    and "\<And>parts. map_of d parts = bucket_of P r ys parts" and "distinct (map fst d)"
  shows "(\<forall>parts. map_of d' parts = bucket_of P r (ys @ xs) parts) \<and> distinct (map fst d')
     \<and> (\<forall>a \<in> set xs. is_ok (blocking_key_values P a r))"
  using assms
proof (induction xs arbitrary: d ys)
  case (Cons a xs)
  from Cons.prems(1) obtain ps where ps: "blocking_key_values P a r = Inr ps"
    and rest: "rfold (\<lambda>a buckets. rbind (blocking_key_values P a r) (\<lambda>parts.
        Inr (if parts \<noteq> [] then dict_append parts a buckets else buckets))) xs
        (if ps \<noteq> [] then dict_append ps a d else d) = Inr d'"
    by (auto simp: result_simps)
  have "map_of (if ps \<noteq> [] then dict_append ps a d else d) parts = bucket_of P r (ys @ [a]) parts" for parts
    using Cons.prems(2) ps by (auto simp: map_of_dict_append bucket_of_def Let_def split: if_splits)
  moreover have "distinct (map fst (if ps \<noteq> [] then dict_append ps a d else d))"
    using Cons.prems(3) by (simp add: distinct_dict_append)
  ultimately show ?case using Cons.IH [OF rest, of "ys @ [a]"] ps by simp
qed simp

lemma rule_buckets_values:
  assumes "rule_buckets P alerts r = Inr d"
  shows "set (map snd d) = {bs. \<exists>parts. bucket_of P r alerts parts = Some bs}"
    and "a \<in> set alerts \<Longrightarrow> is_ok (blocking_key_values P a r)"
proof -
  have d: "\<forall>parts. map_of d parts = bucket_of P r alerts parts" "distinct (map fst d)"
    "\<forall>a \<in> set alerts. is_ok (blocking_key_values P a r)"
    using rule_buckets_step [of P r alerts "[]" d "[]"] assms
    by (simp_all add: rule_buckets_def bucket_of_def)
  then show "a \<in> set alerts \<Longrightarrow> is_ok (blocking_key_values P a r)" by blast
  have "bs \<in> snd ` set d \<longleftrightarrow> (\<exists>parts. map_of d parts = Some bs)" for bs
    using d(2) by (force simp: image_iff intro: map_of_is_SomeI dest: map_of_SomeD)
  with d(1) show "set (map snd d) = {bs. \<exists>parts. bucket_of P r alerts parts = Some bs}" by auto
qed

lemma dict_set_link_buckets:
  assumes "\<forall>bs \<in> set bl. distinct bs"
  shows "dict_set (fold (link_bucket w) bl cp) x =
     dict_set cp x \<union> {y. \<exists>bs \<in> set bl. \<exists>a \<in> set bs. \<exists>b \<in> set bs. a \<noteq> b \<and> ea_id a = x \<and> ea_id b = y
        \<and> delta_seconds a b \<le> of_int w}"
  using assms by (induction bl arbitrary: cp) (auto simp: dict_set_link_bucket)

lemma dict_set_link_rule:
  assumes "link_rule P alerts r cp = Inr cp'" and "distinct alerts"
  shows "dict_set cp' x = dict_set cp x \<union> counterpart_ids P alerts [r] x"
proof (cases "enabled r")
  case True
  with assms(1) obtain d where d: "rule_buckets P alerts r = Inr d"
    and cp': "cp' = fold (link_bucket (time_window_seconds r)) (map snd d) cp"
    by (auto simp: link_rule_def result_simps)
  note vals = rule_buckets_values [OF d]
  have "\<forall>bs \<in> set (map snd d). distinct bs"
    unfolding vals(1) using assms(2) by (auto simp: bucket_of_Some)
  note links = dict_set_link_buckets [OF this, of "time_window_seconds r" cp x, folded cp']
  have "(\<exists>bs \<in> set (map snd d). a \<in> set bs \<and> b \<in> set bs) \<longleftrightarrow>
      a \<in> set alerts \<and> b \<in> set alerts \<and> blocking_key_values P a r = blocking_key_values P b r
      \<and> is_ok (blocking_key_values P a r) \<and> blocking_key_values P a r \<noteq> Inr []" for a b
    unfolding vals(1) by (subst same_bucket_iff [symmetric]) blast
  then have "(\<exists>bs \<in> set (map snd d). \<exists>a \<in> set bs. \<exists>b \<in> set bs. Q a b) \<longleftrightarrow>
      (\<exists>a \<in> set alerts. \<exists>b \<in> set alerts. blocking_key_values P a r = blocking_key_values P b r
      \<and> is_ok (blocking_key_values P a r) \<and> blocking_key_values P a r \<noteq> Inr [] \<and> Q a b)" for Q
    by blast
  then show ?thesis
    unfolding links by (simp add: counterpart_ids_def blocked_together_def True conj_ac)
next
  case False
  with assms(1) show ?thesis
    by (simp add: link_rule_def counterpart_ids_def blocked_together_def)
qed

lemma dict_set_link_rules:
  assumes "rfold (link_rule P alerts) rs cp = Inr cp'" and "distinct alerts"
  shows "dict_set cp' x = dict_set cp x \<union> counterpart_ids P alerts rs x"
  using assms
proof (induction rs arbitrary: cp)
  case Nil
  then show ?case by (simp add: counterpart_ids_def)
next
  case (Cons r rs)
  then obtain cp1 where "link_rule P alerts r cp = Inr cp1" "rfold (link_rule P alerts) rs cp1 = Inr cp'"
    by (auto simp: result_simps)
  with Cons dict_set_link_rule [of P alerts r cp cp1 x] show ?case
    by (auto simp: counterpart_ids_def)
qed

section \<open>The result\<close>

lemma counterpart_ids_subset: "counterpart_ids P alerts rs x \<subseteq> ea_id ` set alerts"
  by (auto simp: counterpart_ids_def)

lemma finite_counterpart_ids [simp]: "finite (counterpart_ids P alerts rs x)"
  by (rule finite_subset [OF counterpart_ids_subset]) simp

lemma counterpart_ids_swap:
  assumes "y \<in> counterpart_ids P alerts rs x"
  shows "x \<in> counterpart_ids P alerts rs y"
proof -
  from assms obtain r a b where "r \<in> set rs" "a \<in> set alerts" "b \<in> set alerts" "b \<noteq> a"
    "ea_id a = x" "ea_id b = y" "blocked_together P r b a"
    by (auto simp: counterpart_ids_def blocked_together_sym)
  then show ?thesis by (force simp: counterpart_ids_def)
qed

lemma counterpart_ids_sym: "y \<in> counterpart_ids P alerts rs x \<longleftrightarrow> x \<in> counterpart_ids P alerts rs y"
  by (rule iffI) (rule counterpart_ids_swap, assumption)+

lemma set_slice_to_subset: "set (slice_to n xs) \<subseteq> set xs"
  by (simp add: slice_to_def set_take_subset)

lemma capped_subset: "finite A \<Longrightarrow> capped n A \<subseteq> A"
  using set_slice_to_subset [of n "sorted_list_of_set A"] by (auto simp: capped_def)

lemma card_capped: "finite A \<Longrightarrow> 0 \<le> n \<Longrightarrow> int (card (capped n A)) \<le> n"
  by (simp add: capped_def slice_to_def distinct_card min_def)

lemma capped_id: "int (card A) \<le> n \<Longrightarrow> capped n A = A"
  by (simp add: capped_def)

lemma capped_empty [simp]: "0 \<le> n \<Longrightarrow> capped n {} = {}" "capped n {} \<subseteq> {}"
  by (simp_all add: capped_def slice_to_def)

lemma mutual_pairs_iff:
  assumes "distinct (map fst al)"
  shows "(x, y) \<in> mutual_pairs al \<longleftrightarrow> x \<le> y \<and> y \<in> dict_set al x \<and> x \<in> dict_set al y"
proof -
  have entry: "(\<exists>cps. (z, cps) \<in> set al \<and> c \<in> cps) \<longleftrightarrow> c \<in> dict_set al z" for z c
    using map_of_eq_Some_iff [OF assms, symmetric, of z]
    by (auto simp: dict_set_def split: option.splits)
  have "(x, y) \<in> mutual_pairs al \<longleftrightarrow>
      (\<exists>z c. (\<exists>cps. (z, cps) \<in> set al \<and> c \<in> cps) \<and> z \<in> dict_set al c
        \<and> (x, y) = (if z \<le> c then (z, c) else (c, z)))"
    unfolding mutual_pairs_def by blast
  then show ?thesis unfolding entry by (auto split: if_splits)
qed

lemma distinct_link_rules:
  "rfold (link_rule P alerts) rs cp = Inr cp' \<Longrightarrow> distinct (map fst cp) \<Longrightarrow> distinct (map fst cp')"
proof (erule rfold_invariant)
  fix r cp cp' assume "link_rule P alerts r cp = Inr cp'" "distinct (map fst cp)"
  moreover have "distinct (map fst (fold (link_bucket w) bl cp))" if "distinct (map fst cp)" for w bl cp
    using that by (induction bl arbitrary: cp) (auto simp: distinct_link_bucket)
  ultimately show "distinct (map fst cp')"
    by (auto simp: link_rule_def result_simps split: if_splits)
qed

lemma candidate_pairs_iff:
  assumes "candidate_pairs P alerts config = Inr S" and "distinct alerts"
  shows "(x, y) \<in> S \<longleftrightarrow> x \<le> y
     \<and> y \<in> capped (candidate_cap config) (counterpart_ids P alerts (rules config) x)
     \<and> x \<in> capped (candidate_cap config) (counterpart_ids P alerts (rules config) y)"
proof -
  obtain cp where cp: "rfold (link_rule P alerts) (rules config) [] = Inr cp"
    and S: "S = mutual_pairs (map (\<lambda>i. (i, capped (candidate_cap config) (dict_set cp i))) (sort (map fst cp)))"
    using assms(1) by (auto simp: candidate_pairs_def result_simps Let_def)
  have C: "dict_set cp i = counterpart_ids P alerts (rules config) i" for i
    using dict_set_link_rules [OF cp assms(2)] by (simp add: dict_set_def)
  have dist: "distinct (map fst cp)" using distinct_link_rules [OF cp] by simp
  have none: "i \<notin> fst ` set cp \<Longrightarrow> dict_set cp i = {}" for i
    by (simp add: dict_set_def map_of_eq_None_iff [symmetric])
  have "dict_set (map (\<lambda>i. (i, f i)) (sort (map fst cp))) i = (if i \<in> fst ` set cp then f i else {})"
    for f :: "string \<Rightarrow> string set" and i
    by (simp add: dict_set_def map_of_map_restrict restrict_map_def)
  then have "dict_set (map (\<lambda>i. (i, capped (candidate_cap config) (dict_set cp i))) (sort (map fst cp))) i
      = capped (candidate_cap config) (dict_set cp i)" for i
    using none [of i] capped_empty(2) by auto
  then show ?thesis
    unfolding S by (subst mutual_pairs_iff) (simp_all add: dist o_def C)
qed

section \<open>When the stage succeeds\<close>

lemma rfold_is_ok_iff:
  assumes "\<And>x s. is_ok (f x s) \<longleftrightarrow> Q x"
  shows "is_ok (rfold f xs s) \<longleftrightarrow> (\<forall>x \<in> set xs. Q x)"
proof (induction xs arbitrary: s)
  case (Cons x xs)
  show ?case
  proof (cases "f x s")
    case (Inl e)
    then have "\<not> Q x" using assms [of x s] by simp
    with Inl show ?thesis by simp
  next
    case (Inr t)
    then have "Q x" using assms [of x s] by simp
    with Inr Cons.IH [of t] show ?thesis by simp
  qed
qed simp

lemma rule_buckets_ok_iff:
  "is_ok (rule_buckets P alerts r) \<longleftrightarrow> (\<forall>a \<in> set alerts. is_ok (blocking_key_values P a r))"
  unfolding rule_buckets_def
  by (rule rfold_is_ok_iff) (auto simp: is_ok_def result_simps)

lemma link_rule_ok_iff:
  "is_ok (link_rule P alerts r cp) \<longleftrightarrow>
     (enabled r \<longrightarrow> (\<forall>a \<in> set alerts. is_ok (blocking_key_values P a r)))"
  unfolding rule_buckets_ok_iff [symmetric] by (auto simp: link_rule_def is_ok_def result_simps)

lemma candidate_pairs_ok_iff:
  "is_ok (candidate_pairs P alerts config) \<longleftrightarrow>
     (\<forall>r \<in> set (rules config). enabled r \<longrightarrow> (\<forall>a \<in> set alerts. is_ok (blocking_key_values P a r)))"
  unfolding rfold_is_ok_iff [where f = "link_rule P alerts", OF link_rule_ok_iff, symmetric, of "rules config" "[]"]
  by (auto simp: candidate_pairs_def is_ok_def result_simps Let_def)

lemma key_value_ok: "known_key k \<Longrightarrow> 0 \<le> ea_amount a \<Longrightarrow> is_ok (key_value a k)"
  by (auto simp: key_value_def known_key_def intro: getattr_alert_ok amount_bucket_ok is_ok_rbind)

lemma blocking_key_values_ok:
  assumes "wf_rule r" "0 \<le> ea_amount a"
  shows "is_ok (blocking_key_values P a r)"
proof -
  have "list_all known_key ks \<Longrightarrow> is_ok (key_parts P a ks ps)" for ks ps
    using assms(2) by (induction ks arbitrary: ps) (auto intro!: is_ok_rbind key_value_ok)
  with assms(1) show ?thesis by (simp add: blocking_key_values_def wf_rule_def)
qed

section \<open>Properties\<close>

lemma candidate_pairs_blocked_lemma:
  assumes "candidate_pairs P alerts config = Inr S" and "distinct (map ea_id alerts)"
    and "(x, y) \<in> S"
  shows "x < y \<and> x \<in> ea_id ` set alerts \<and> y \<in> ea_id ` set alerts
     \<and> y \<in> counterpart_ids P alerts (rules config) x"
proof -
  have "distinct alerts" using assms(2) by (simp add: distinct_map)
  from assms(3) have "x \<le> y" and c: "y \<in> counterpart_ids P alerts (rules config) x"
    and c': "x \<in> counterpart_ids P alerts (rules config) y"
    using capped_subset [OF finite_counterpart_ids]
    unfolding candidate_pairs_iff [OF assms(1) \<open>distinct alerts\<close>] by blast+
  moreover have "x \<noteq> y"
    using c assms(2) by (auto simp: counterpart_ids_def distinct_map inj_on_def)
  ultimately show ?thesis
    using counterpart_ids_subset by (metis order_le_less subsetD)
qed

text \<open>Every candidate pair is an ordered pair of two different alerts of the input that some
  enabled rule blocks together: the same non-empty blocking key, and event times no further apart
  than the rule's window.\<close>

theorem candidate_pairs_sound:
  assumes "candidate_pairs P alerts config = Inr S" and "distinct (map ea_id alerts)"
    and "(x, y) \<in> S"
  shows "x < y \<and> (\<exists>r \<in> set (rules config). \<exists>a \<in> set alerts. \<exists>b \<in> set alerts.
     ea_id a = x \<and> ea_id b = y \<and> blocked_together P r a b)"
  using candidate_pairs_blocked_lemma [OF assms] by (auto simp: counterpart_ids_def)

text \<open>No alert appears in more than \<open>candidate_cap\<close> candidate pairs.\<close>

theorem candidate_pairs_degree:
  assumes "candidate_pairs P alerts config = Inr S" and "distinct alerts" and "0 \<le> candidate_cap config"
  shows "int (card {y. (x, y) \<in> S \<or> (y, x) \<in> S}) \<le> candidate_cap config"
proof -
  let ?C = "capped (candidate_cap config) (counterpart_ids P alerts (rules config) x)"
  have fin: "finite ?C" by (rule finite_subset [OF capped_subset]) simp_all
  have "{y. (x, y) \<in> S \<or> (y, x) \<in> S} \<subseteq> ?C"
    unfolding candidate_pairs_iff [OF assms(1,2)] by blast
  then have "card {y. (x, y) \<in> S \<or> (y, x) \<in> S} \<le> card ?C" by (rule card_mono [OF fin])
  with card_capped [OF finite_counterpart_ids assms(3)] show ?thesis by (meson of_nat_mono order_trans)
qed

text \<open>C39: With rules whose keys exist, alerts whose amounts are not negative and no alert over the
  cap, the stage succeeds and yields exactly the pairs that some enabled rule blocks together,
  whatever the order of the alerts.\<close>

theorem candidate_pairs_complete:
  assumes "list_all wf_rule (rules config)" and "\<forall>a \<in> set alerts. 0 \<le> ea_amount a"
    and "distinct (map ea_id alerts)"
    and "\<forall>x. int (card (counterpart_ids P alerts (rules config) x)) \<le> candidate_cap config"
  shows "candidate_pairs P alerts config =
     Inr {(x, y). x < y \<and> y \<in> counterpart_ids P alerts (rules config) x}"
proof -
  have "is_ok (candidate_pairs P alerts config)"
    using assms(1,2) by (auto simp: candidate_pairs_ok_iff list_all_iff intro: blocking_key_values_ok)
  then obtain S where S: "candidate_pairs P alerts config = Inr S" by (rule is_okE)
  have "distinct alerts" using assms(3) by (simp add: distinct_map)
  have "(x, y) \<in> S \<longleftrightarrow> x < y \<and> y \<in> counterpart_ids P alerts (rules config) x" for x y
    using candidate_pairs_blocked_lemma [OF S assms(3), of x y]
      candidate_pairs_iff [OF S \<open>distinct alerts\<close>, of x y] assms(4)
      counterpart_ids_sym [of y P alerts "rules config" x]
    by (auto simp: capped_id)
  then show ?thesis unfolding S by auto
qed

lemma candidate_pairs_set_cong:
  assumes "candidate_pairs P xs config = Inr S" and "set ys = set xs" and "distinct xs" "distinct ys"
  shows "candidate_pairs P ys config = Inr S"
proof -
  have "is_ok (candidate_pairs P ys config)"
    using assms(1,2) candidate_pairs_ok_iff [of P xs config] by (simp add: candidate_pairs_ok_iff)
  then obtain T where T: "candidate_pairs P ys config = Inr T" by (rule is_okE)
  have "counterpart_ids P ys (rules config) = counterpart_ids P xs (rules config)"
    by (simp add: counterpart_ids_def assms(2) fun_eq_iff)
  then have "T = S"
    using candidate_pairs_iff [OF T assms(4)] candidate_pairs_iff [OF assms(1,3)] by (auto simp: set_eq_iff)
  with T show ?thesis by simp
qed

section \<open>A concrete run\<close>

lemma candidate_pairs_sample:
  "candidate_pairs sample_platform sample_alerts shipped_config = Inr {(''a'', ''b'')}"
proof -
  have "rfold (link_rule sample_platform sample_alerts) shipped_rules [] =
      Inr [(''b'', {''a''}), (''a'', {''b''})]"
    by (simp add: shipped_rules_def sample_alerts_def sample_alert_def link_rule_def rule_buckets_def
        blocking_key_values_def key_value_def getattr_alert_def py_text_def dict_append_def dict_add_def
        delta_seconds_def fl_numeral)
  then show ?thesis
    by (simp add: candidate_pairs_def shipped_config_def capped_def dict_set_def mutual_pairs_def
        insert_commute)
qed

lemma distinct_sample_alerts: "distinct (map ea_id sample_alerts)"
  by (simp add: sample_alerts_def sample_alert_def)

theorem candidate_pairs_sound_witness: "(''a'' :: string) < ''b'' \<and> (\<exists>r \<in> set shipped_rules. enabled r)"
  using candidate_pairs_sound [OF candidate_pairs_sample distinct_sample_alerts, of "''a''" "''b''"]
  by (auto simp: blocked_together_def shipped_config_def)

theorem candidate_pairs_degree_witness: "int (card {y. y = (''b'' :: string)}) \<le> 500"
  using candidate_pairs_degree [OF candidate_pairs_sample, of "''a''"] distinct_sample_alerts
  by (simp add: shipped_config_def distinct_map)

theorem candidate_pairs_complete_witness:
  "{(x, y). x < y \<and> y \<in> counterpart_ids sample_platform sample_alerts shipped_rules x} = {(''a'', ''b'')}"
proof -
  have "\<forall>x. card (counterpart_ids sample_platform sample_alerts (rules shipped_config) x) \<le> length sample_alerts"
    using card_mono [OF _ counterpart_ids_subset, of sample_alerts sample_platform "rules shipped_config"]
      card_image_le [of "set sample_alerts" ea_id] card_length [of sample_alerts]
    by (meson List.finite_set finite_imageI order_trans)
  then have "\<forall>x. int (card (counterpart_ids sample_platform sample_alerts (rules shipped_config) x))
      \<le> candidate_cap shipped_config"
    by (simp add: shipped_config_def sample_alerts_def) (rule allI, erule allE, erule order_trans, simp)
  moreover have "list_all wf_rule (rules shipped_config)" "\<forall>a \<in> set sample_alerts. 0 \<le> ea_amount a"
    using wf_shipped_rules by (simp_all add: shipped_config_def sample_alerts_def sample_alert_def)
  ultimately show ?thesis
    using candidate_pairs_complete [of shipped_config sample_alerts sample_platform] distinct_sample_alerts
    by (simp add: candidate_pairs_sample) (simp add: shipped_config_def)
qed

end
