(* ===== verification/Scoring.thy ===== *)
theory Scoring
  imports Blocking
begin

text \<open>
  \<open>app/grouping/scoring.py\<close>: the two verdicts on a candidate pair, the deterministic rules and the
  weighted similarity, with every float operation rounded by \<open>fl\<close> and every \<open>Decimal\<close> operation by
  \<open>dec\<close>. The dictionary of contributions is an association list in the code's order.
\<close>

section \<open>Definitions\<close>

definition FEATURE_KEYS :: "string list" where
  "FEATURE_KEYS = [''time'', ''amount'', ''name'', ''device'', ''ip'', ''typology'']"

definition match_key_agrees :: "string \<Rightarrow> engine_alert \<Rightarrow> engine_alert \<Rightarrow> rule \<Rightarrow> bool result" where
  "match_key_agrees key a b r =
     (if key = ''amount'' then
        let denom = max (max (ea_amount a) (ea_amount b)) 1
        in Inr (dec (\<bar>dec (ea_amount a - ea_amount b)\<bar> / denom) \<le> amount_tolerance r)
      else if key = ''amount_bucket'' then
        rbind (amount_bucket (ea_amount a)) (\<lambda>l.
        rbind (amount_bucket (ea_amount b)) (\<lambda>r. Inr (l = r)))
      else
        rbind (getattr_alert a key) (\<lambda>left.
        rbind (getattr_alert b key) (\<lambda>right.
          Inr (left \<noteq> PyNone \<and> right \<noteq> PyNone \<and> left = right))))"

fun match_rules :: "engine_alert \<Rightarrow> engine_alert \<Rightarrow> rule list \<Rightarrow> string list \<Rightarrow> string list result" where
  "match_rules a b [] matched = Inr matched"
| "match_rules a b (r # rs) matched =
     (if \<not> enabled r then match_rules a b rs matched
      else if delta_seconds a b > of_int (time_window_seconds r) then match_rules a b rs matched
      else rbind (rall (\<lambda>key. match_key_agrees key a b r) (match_keys r)) (\<lambda>agreed.
        match_rules a b rs (if agreed then matched @ [rule_id r] else matched)))"

definition deterministic_match ::
  "engine_alert \<Rightarrow> engine_alert \<Rightarrow> grouping_config \<Rightarrow> string list result" where
  "deterministic_match a b config = match_rules a b (rules config) []"

type_synonym contributions = "(string \<times> rat) list"

definition time_contribution :: "platform \<Rightarrow> engine_alert \<Rightarrow> engine_alert \<Rightarrow> int \<Rightarrow> rat result" where
  "time_contribution P a b tau =
     (if tau = 0 then Inl ZeroDivisionError
      else Inr (math_exp P (fl (- delta_seconds a b / fl (of_int tau)))))"

definition amount_contribution :: "engine_alert \<Rightarrow> engine_alert \<Rightarrow> rat" where
  "amount_contribution a b =
     (let left_amount = fl (ea_amount a); right_amount = fl (ea_amount b)
      in fl (1 - min 1 (fl (\<bar>fl (left_amount - right_amount)\<bar> / max (max left_amount right_amount) 1))))"

definition name_contribution :: "platform \<Rightarrow> engine_alert \<Rightarrow> engine_alert \<Rightarrow> rat" where
  "name_contribution P a b =
     (case (ea_merchant_name_normalised a, ea_merchant_name_normalised b) of
        (Some m, Some n) \<Rightarrow> fl (token_set_ratio P m n / 100)
      | _ \<Rightarrow> 0)"

definition equal_contribution :: "string option \<Rightarrow> string option \<Rightarrow> rat" where
  "equal_contribution l r = (if l \<noteq> None \<and> l = r then 1 else 0)"

definition typology_contribution :: "engine_alert \<Rightarrow> engine_alert \<Rightarrow> rat" where
  "typology_contribution a b =
     (if ea_typologies a = {} \<and> ea_typologies b = {} then 0
      else let union = ea_typologies a \<union> ea_typologies b
        in if union \<noteq> {}
           then fl (of_nat (card (ea_typologies a \<inter> ea_typologies b)) / of_nat (card union)) else 0)"

definition feature_contributions ::
  "platform \<Rightarrow> engine_alert \<Rightarrow> engine_alert \<Rightarrow> grouping_config \<Rightarrow> contributions result" where
  "feature_contributions P a b config =
     rbind (time_contribution P a b (time_tau_seconds config)) (\<lambda>time_c. Inr
       [(''time'', time_c),
        (''amount'', amount_contribution a b),
        (''name'', name_contribution P a b),
        (''device'', equal_contribution (ea_device_id a) (ea_device_id b)),
        (''ip'', equal_contribution (ea_ip_address a) (ea_ip_address b)),
        (''typology'', typology_contribution a b)])"

definition weights_by_key :: "feature_weights \<Rightarrow> (string \<times> rat) list" where
  "weights_by_key w =
     [(''time'', w_time w), (''amount'', w_amount w), (''name'', w_name w), (''device'', w_device w),
      (''ip'', w_ip w), (''typology'', w_typology w)]"

definition lookup :: "(string \<times> rat) list \<Rightarrow> string \<Rightarrow> rat result" where
  "lookup d k = (case map_of d k of None \<Rightarrow> Inl KeyError | Some v \<Rightarrow> Inr v)"

definition weighted_score :: "contributions \<Rightarrow> feature_weights \<Rightarrow> rat result" where
  "weighted_score contribs w =
     (let by_key = weights_by_key w; total = float_sum (map snd by_key)
      in rbind (rmap (\<lambda>key. rbind (lookup by_key key) (\<lambda>wk.
            rbind (lookup contribs key) (\<lambda>c. Inr (fl (wk * c))))) FEATURE_KEYS) (\<lambda>summands.
          if total = 0 then Inl ZeroDivisionError else Inr (fl (float_sum summands / total))))"

definition score_pair :: "platform \<Rightarrow> engine_alert \<Rightarrow> engine_alert \<Rightarrow> grouping_config \<Rightarrow> rat result" where
  "score_pair P a b config =
     rbind (feature_contributions P a b config) (\<lambda>contribs. weighted_score contribs (weights config))"

record pair_verdict =
  pv_method :: string
  pv_rule_ids :: "string list"
  pv_score :: "rat option"
  pv_contributions :: contributions

definition pair_decision ::
  "platform \<Rightarrow> engine_alert \<Rightarrow> engine_alert \<Rightarrow> grouping_config \<Rightarrow> pair_verdict result" where
  "pair_decision P a b config =
     rbind (feature_contributions P a b config) (\<lambda>contribs.
     rbind (deterministic_match a b config) (\<lambda>matched.
       if matched \<noteq> [] then
         Inr \<lparr> pv_method = ''deterministic'', pv_rule_ids = matched, pv_score = None,
               pv_contributions = contribs \<rparr>
       else rbind (weighted_score contribs (weights config)) (\<lambda>s.
         Inr \<lparr> pv_method = ''similarity'', pv_rule_ids = [], pv_score = Some s,
               pv_contributions = contribs \<rparr>)))"

section \<open>Deterministic rules\<close>

text \<open>What it means for a rule to match a pair, with no loop and no exception.\<close>

definition keys_agree :: "rat \<Rightarrow> string \<Rightarrow> engine_alert \<Rightarrow> engine_alert \<Rightarrow> bool" where
  "keys_agree tol key a b \<longleftrightarrow>
     (if key = ''amount''
      then dec (dec \<bar>ea_amount a - ea_amount b\<bar> / max (max (ea_amount a) (ea_amount b)) 1) \<le> tol
      else if key = ''amount_bucket'' then amount_bucket (ea_amount a) = amount_bucket (ea_amount b)
      else getattr_alert a key = getattr_alert b key \<and> getattr_alert a key \<noteq> Inr PyNone)"

definition rule_matches :: "engine_alert \<Rightarrow> engine_alert \<Rightarrow> rule \<Rightarrow> bool" where
  "rule_matches a b r \<longleftrightarrow>
     enabled r \<and> delta_seconds a b \<le> of_int (time_window_seconds r)
     \<and> (\<forall>key \<in> set (match_keys r). keys_agree (amount_tolerance r) key a b)"

lemma match_key_agrees_eq:
  assumes "known_key key" "0 \<le> ea_amount a" "0 \<le> ea_amount b"
  shows "match_key_agrees key a b r = Inr (keys_agree (amount_tolerance r) key a b)"
proof -
  obtain l r where "amount_bucket (ea_amount a) = Inr l" "amount_bucket (ea_amount b) = Inr r"
    using amount_bucket_ok [OF assms(2)] amount_bucket_ok [OF assms(3)] unfolding is_ok_def by blast
  moreover have "key \<noteq> ''amount_bucket'' \<Longrightarrow> is_ok (getattr_alert a key) \<and> is_ok (getattr_alert b key)"
    using assms(1) by (auto simp: known_key_def intro: getattr_alert_ok)
  ultimately show ?thesis
    by (auto simp: match_key_agrees_def keys_agree_def dec_abs Let_def elim!: is_okE)
qed

lemma match_rules_eq:
  assumes "0 \<le> ea_amount a" "0 \<le> ea_amount b" "list_all wf_rule rs"
  shows "match_rules a b rs matched = Inr (matched @ map rule_id (filter (rule_matches a b) rs))"
  using assms(3)
proof (induction rs arbitrary: matched)
  case (Cons r rs)
  have "rall (\<lambda>key. match_key_agrees key a b r) ks = Inr (\<forall>key \<in> set ks. keys_agree (amount_tolerance r) key a b)"
    if "list_all known_key ks" for ks
    using that by (induction ks) (simp_all add: match_key_agrees_eq assms(1,2))
  with Cons show ?case by (auto simp: rule_matches_def wf_rule_def)
qed simp

lemma deterministic_match_eq:
  assumes "0 \<le> ea_amount a" "0 \<le> ea_amount b" "list_all wf_rule (rules config)"
  shows "deterministic_match a b config = Inr (map rule_id (filter (rule_matches a b) (rules config)))"
  using match_rules_eq [OF assms] by (simp add: deterministic_match_def)

lemma match_key_agrees_sym: "match_key_agrees key a b r = Inr v \<Longrightarrow> match_key_agrees key b a r = Inr v"
  using dec_minus [of "ea_amount a - ea_amount b"]
  by (auto simp: match_key_agrees_def result_simps max.commute Let_def split: if_splits)

section \<open>Similarity\<close>

text \<open>What is asked of the platform: \<open>exp\<close> of a non-positive float lies in [0, 1] and is 1 at 0, and
  the token-set ratio is a symmetric percentage that is 100 on equal names.\<close>

definition similarity_laws :: "platform \<Rightarrow> bool" where
  "similarity_laws P \<longleftrightarrow>
     (\<forall>x \<le> 0. 0 \<le> math_exp P x \<and> math_exp P x \<le> 1) \<and> math_exp P 0 = 1
     \<and> (\<forall>s t. 0 \<le> token_set_ratio P s t \<and> token_set_ratio P s t \<le> 100)
     \<and> (\<forall>s t. token_set_ratio P s t = token_set_ratio P t s) \<and> (\<forall>s. token_set_ratio P s s = 100)"

lemma similarity_laws_sample: "similarity_laws sample_platform"
  by (simp add: similarity_laws_def sample_platform_def)

definition wf_weights :: "feature_weights \<Rightarrow> bool" where
  "wf_weights w \<longleftrightarrow> (\<forall>x \<in> snd ` set (weights_by_key w). 0 \<le> x \<and> is_float x)
     \<and> float_sum (map snd (weights_by_key w)) \<noteq> 0"

lemma unit_fl: "0 \<le> q \<Longrightarrow> q \<le> 1 \<Longrightarrow> 0 \<le> fl q \<and> fl q \<le> 1"
  by (simp add: fl_nonneg fl_le_1)

lemma amount_contribution_bounds: "0 \<le> amount_contribution a b \<and> amount_contribution a b \<le> 1"
  unfolding amount_contribution_def Let_def
  by (intro unit_fl) (auto intro!: fl_nonneg divide_nonneg_pos simp: min_def less_max_iff_disj)

lemma typology_contribution_bounds: "0 \<le> typology_contribution a b \<and> typology_contribution a b \<le> 1"
proof -
  have "card (A \<inter> B) \<le> card (A \<union> B)" if "finite (A \<union> B)" for A B :: "string set"
    using that by (intro card_mono) auto
  then have "of_nat (card (A \<inter> B)) / of_nat (card (A \<union> B)) \<le> (1 :: rat)" for A B :: "string set"
    by (cases "finite (A \<union> B)") (auto simp: divide_le_eq_1 dest: card_gt_0_iff [THEN iffD1])
  then show ?thesis unfolding typology_contribution_def Let_def by (auto intro: fl_nonneg fl_le_1)
qed

lemma name_contribution_bounds:
  "similarity_laws P \<Longrightarrow> 0 \<le> name_contribution P a b \<and> name_contribution P a b \<le> 1"
  by (auto simp: name_contribution_def similarity_laws_def intro: fl_nonneg fl_le_1 split: option.split)

lemma equal_contribution_bounds: "0 \<le> equal_contribution l r \<and> equal_contribution l r \<le> 1"
  by (simp add: equal_contribution_def)

lemma time_contribution_bounds:
  assumes "similarity_laws P" and "0 < tau" and "time_contribution P a b tau = Inr c"
  shows "0 \<le> c \<and> c \<le> 1"
proof -
  have "0 < fl (of_int tau)" using assms(2) by (simp add: fl_positive)
  then have "delta_seconds a b / fl (of_int tau) \<ge> 0" by (simp add: divide_nonneg_pos)
  then have "fl (- delta_seconds a b / fl (of_int tau)) \<le> 0" using fl_mono [of _ 0] by fastforce
  with assms show ?thesis by (auto simp: time_contribution_def similarity_laws_def split: if_splits)
qed

lemma feature_contributions_bounds:
  assumes "similarity_laws P" and "0 < time_tau_seconds config"
    and "feature_contributions P a b config = Inr cs"
  shows "map fst cs = FEATURE_KEYS \<and> (\<forall>(k, c) \<in> set cs. 0 \<le> c \<and> c \<le> 1)"
  using assms(3) time_contribution_bounds [OF assms(1,2)] name_contribution_bounds [OF assms(1)]
    amount_contribution_bounds equal_contribution_bounds typology_contribution_bounds
  by (auto simp: feature_contributions_def FEATURE_KEYS_def result_simps)

lemma weighted_score_explicit:
  assumes "map fst cs = FEATURE_KEYS"
  shows "weighted_score cs w =
     (if float_sum (map snd (weights_by_key w)) = 0 then Inl ZeroDivisionError
      else Inr (fl (float_sum (map2 (\<lambda>x c. fl (x * c)) (map snd (weights_by_key w)) (map snd cs))
             / float_sum (map snd (weights_by_key w)))))"
proof -
  from assms obtain t a n d i y where cs: "cs = [(''time'', t), (''amount'', a), (''name'', n),
      (''device'', d), (''ip'', i), (''typology'', y)]"
    by (auto simp: FEATURE_KEYS_def map_eq_Cons_conv)
  show ?thesis unfolding cs by (simp add: weighted_score_def weights_by_key_def lookup_def FEATURE_KEYS_def Let_def)
qed

lemma weighted_score_bounds:
  assumes "wf_weights w" and "map fst cs = FEATURE_KEYS" and "\<forall>(k, c) \<in> set cs. 0 \<le> c \<and> c \<le> 1"
    and "weighted_score cs w = Inr s"
  shows "0 \<le> s \<and> s \<le> 1"
proof -
  let ?w = "map snd (weights_by_key w)" and ?t = "float_sum (map snd (weights_by_key w))"
  let ?ts = "map2 (\<lambda>x c. fl (x * c)) ?w (map snd cs)"
  have len: "length ?w = length (map snd cs)"
    using arg_cong [OF assms(2), of length] by (simp add: weights_by_key_def FEATURE_KEYS_def)
  have w: "\<forall>x \<in> set ?w. 0 \<le> x \<and> fl x = x" and t: "?t \<noteq> 0"
    using assms(1) by (auto simp: wf_weights_def is_float_def)
  have c: "\<forall>x \<in> set (map snd cs). 0 \<le> x \<and> x \<le> 1" using assms(3) by auto
  have summand: "0 \<le> fl (x * c) \<and> fl (x * c) \<le> x" if "0 \<le> x" "fl x = x" "0 \<le> c" "c \<le> 1" for x c
    using that fl_nonneg [of "x * c"] fl_mono [of "x * c" x] by (simp add: mult_left_le)
  have "list_all2 (\<le>) ?ts ?w"
    using w c len by (auto simp: list_all2_conv_all_nth summand)
  moreover have "0 \<le> float_sum ?ts"
  proof (rule float_sum_nonneg)
    fix y assume "y \<in> set ?ts"
    then obtain x c where "(x, c) \<in> set (zip ?w (map snd cs))" "y = fl (x * c)" by auto
    with summand w c show "0 \<le> y" by (metis set_zip_leftD set_zip_rightD)
  qed
  moreover have "0 \<le> ?t" using w by (intro float_sum_nonneg) auto
  ultimately have "0 \<le> float_sum ?ts / ?t" "float_sum ?ts / ?t \<le> 1"
    using float_sum_mono [of ?ts ?w] t by (simp_all add: divide_le_eq_1)
  then have "0 \<le> fl (float_sum ?ts / ?t) \<and> fl (float_sum ?ts / ?t) \<le> 1" by (rule unit_fl)
  with assms(4) t show ?thesis unfolding weighted_score_explicit [OF assms(2)] by simp
qed

lemma score_pair_ok:
  assumes "wf_weights (weights config)" and "time_tau_seconds config \<noteq> 0"
  shows "\<exists>cs s. feature_contributions P a b config = Inr cs
    \<and> weighted_score cs (weights config) = Inr s \<and> score_pair P a b config = Inr s"
proof -
  obtain cs where cs: "feature_contributions P a b config = Inr cs" "map fst cs = FEATURE_KEYS"
    using assms(2) by (simp add: feature_contributions_def time_contribution_def FEATURE_KEYS_def)
  with assms(1) obtain s where "weighted_score cs (weights config) = Inr s"
    using weighted_score_explicit [OF cs(2)] by (simp add: wf_weights_def)
  with cs show ?thesis by (auto simp: score_pair_def)
qed

lemma feature_contributions_sym:
  assumes "similarity_laws P"
  shows "feature_contributions P a b config = feature_contributions P b a config"
proof -
  have "\<bar>fl (x - y)\<bar> = \<bar>fl (y - x)\<bar>" for x y using fl_minus [of "x - y"] by simp
  then have "amount_contribution a b = amount_contribution b a"
    by (simp add: amount_contribution_def Let_def max.commute)
  moreover have "name_contribution P a b = name_contribution P b a"
    using assms by (auto simp: name_contribution_def similarity_laws_def split: option.split)
  moreover have "typology_contribution a b = typology_contribution b a"
    by (simp add: typology_contribution_def Let_def Un_commute Int_commute conj_commute)
  moreover have "equal_contribution l r = equal_contribution r l" for l r
    by (auto simp: equal_contribution_def)
  ultimately show ?thesis
    by (simp add: feature_contributions_def time_contribution_def delta_seconds_sym [of a b])
qed

lemma deterministic_match_sym:
  assumes "deterministic_match a b config = Inr ids"
  shows "deterministic_match b a config = Inr ids"
proof -
  have swap: "match_key_agrees key b a r = Inr v \<longleftrightarrow> match_key_agrees key a b r = Inr v" for key r v
    using match_key_agrees_sym by blast
  have all: "rall (\<lambda>key. match_key_agrees key b a r) ks = Inr v \<longleftrightarrow>
      rall (\<lambda>key. match_key_agrees key a b r) ks = Inr v" for ks r v
    by (induction ks) (auto simp: result_simps swap)
  have "match_rules b a rs m = Inr ids" if "match_rules a b rs m = Inr ids" for rs m
    using that
  proof (induction rs arbitrary: m)
    case (Cons r rs)
    show ?case
    proof (cases "enabled r \<and> delta_seconds a b \<le> of_int (time_window_seconds r)")
      case True
      with Cons.prems obtain v where "rall (\<lambda>key. match_key_agrees key a b r) (match_keys r) = Inr v"
        "match_rules a b rs (if v then m @ [rule_id r] else m) = Inr ids"
        by (auto simp: result_simps)
      moreover from this(1) have "rall (\<lambda>key. match_key_agrees key b a r) (match_keys r) = Inr v"
        by (simp only: all)
      ultimately show ?thesis using True Cons.IH by (simp add: delta_seconds_sym [of b a])
    next
      case False
      with Cons show ?thesis by (auto simp: delta_seconds_sym [of b a] not_le)
    qed
  qed simp
  with assms show ?thesis by (simp add: deterministic_match_def)
qed

lemma pair_decision_ok:
  assumes "list_all wf_rule (rules config)" and "wf_weights (weights config)"
    and "time_tau_seconds config \<noteq> 0" and "0 \<le> ea_amount a" and "0 \<le> ea_amount b"
  shows "is_ok (pair_decision P a b config)"
proof -
  obtain cs s where "feature_contributions P a b config = Inr cs" "weighted_score cs (weights config) = Inr s"
    using score_pair_ok [OF assms(2,3)] by blast
  with deterministic_match_eq [OF assms(4,5,1)] show ?thesis by (simp add: pair_decision_def)
qed

section \<open>Properties\<close>

text \<open>With weights that are non-negative floats of non-zero sum and a positive time constant, the
  similarity of any two alerts is computed without an error and lies in [0, 1], after rounding.\<close>

theorem score_pair_bounds:
  assumes "similarity_laws P" and "wf_weights (weights config)" and "0 < time_tau_seconds config"
  shows "\<exists>s. score_pair P a b config = Inr s \<and> 0 \<le> s \<and> s \<le> 1"
proof -
  obtain cs s where "feature_contributions P a b config = Inr cs"
    "weighted_score cs (weights config) = Inr s" "score_pair P a b config = Inr s"
    using score_pair_ok [OF assms(2)] assms(3) by (metis less_irrefl)
  with weighted_score_bounds [OF assms(2)] feature_contributions_bounds [OF assms(1,3)]
  show ?thesis by blast
qed

text \<open>An alert compared with itself scores exactly 1 when none of its features is missing.\<close>

theorem score_pair_self:
  assumes "similarity_laws P" and "wf_weights (weights config)" and "0 < time_tau_seconds config"
    and "ea_merchant_name_normalised a \<noteq> None" and "ea_device_id a \<noteq> None" and "ea_ip_address a \<noteq> None"
    and "finite (ea_typologies a)" and "ea_typologies a \<noteq> {}"
  shows "score_pair P a a config = Inr 1"
proof -
  have "time_contribution P a a (time_tau_seconds config) = Inr 1" "amount_contribution a a = 1"
    "name_contribution P a a = 1" "typology_contribution a a = 1"
    using assms by (auto simp: time_contribution_def amount_contribution_def name_contribution_def
        typology_contribution_def similarity_laws_def Let_def)
  then have cs: "feature_contributions P a a config = Inr (map (\<lambda>k. (k, 1)) FEATURE_KEYS)"
    using assms by (simp add: feature_contributions_def equal_contribution_def FEATURE_KEYS_def)
  let ?w = "map snd (weights_by_key (weights config))"
  have "map2 (\<lambda>x c. fl (x * c)) ?w (map (\<lambda>k. 1) FEATURE_KEYS) = map fl ?w"
    by (simp add: weights_by_key_def FEATURE_KEYS_def)
  also have "\<dots> = ?w"
    using assms(2) by (intro map_idI) (auto simp: wf_weights_def is_float_def)
  finally show ?thesis
    using assms(2) weighted_score_explicit [of "map (\<lambda>k. (k, 1)) FEATURE_KEYS" "weights config"]
    by (simp add: score_pair_def cs wf_weights_def o_def)
qed

text \<open>The verdict on a pair does not depend on the order of its two alerts.\<close>

theorem pair_decision_sym:
  assumes "similarity_laws P" and "pair_decision P a b config = Inr v"
  shows "pair_decision P b a config = Inr v"
proof -
  from assms(2) obtain ids where "deterministic_match a b config = Inr ids"
    by (auto simp: pair_decision_def result_simps)
  with deterministic_match_sym [of a b config ids] assms(2) show ?thesis
    by (simp add: pair_decision_def feature_contributions_sym [OF assms(1), of b a])
qed

text \<open>The verdict lists exactly the rules that match, in the order of the configuration. It is
  deterministic, and has no score, if there is one; otherwise it carries the similarity of the pair.\<close>

theorem pair_decision_verdict:
  assumes "list_all wf_rule (rules config)" and "wf_weights (weights config)"
    and "time_tau_seconds config \<noteq> 0" and "0 \<le> ea_amount a" and "0 \<le> ea_amount b"
  shows "\<exists>v. pair_decision P a b config = Inr v
     \<and> pv_rule_ids v = map rule_id (filter (rule_matches a b) (rules config))
     \<and> (if \<exists>r \<in> set (rules config). rule_matches a b r
        then pv_method v = ''deterministic'' \<and> pv_score v = None
        else pv_method v = ''similarity'' \<and> map_option Inr (pv_score v) = Some (score_pair P a b config))"
proof -
  obtain cs s where "feature_contributions P a b config = Inr cs"
    "weighted_score cs (weights config) = Inr s" "score_pair P a b config = Inr s"
    using score_pair_ok [OF assms(2,3)] by blast
  with deterministic_match_eq [OF assms(4,5,1)] show ?thesis
    by (auto simp: pair_decision_def filter_empty_conv)
qed

lemma delta_seconds_le_day:
  "delta_seconds a b \<le> 86400 \<longleftrightarrow> \<bar>ea_event_time a - ea_event_time b\<bar> \<le> 86400 * 10 ^ 6"
proof -
  let ?d = "\<bar>ea_event_time a - ea_event_time b\<bar>"
  have delta: "delta_seconds a b = fl (of_int ?d / 10 ^ 6)"
    by (simp add: delta_seconds_def fl_abs)
  show ?thesis
  proof (cases "?d \<le> 86400 * 10 ^ 6")
    case True
    then have "rat_of_int ?d \<le> of_int (86400 * 10 ^ 6)" by (simp only: of_int_le_iff)
    then have "rat_of_int ?d / 10 ^ 6 \<le> 86400" by simp
    from fl_mono [OF this] True show ?thesis by (simp add: delta fl_numeral)
  next
    case False
    then have "rat_of_int (86400 * 10 ^ 6 + 1) \<le> of_int ?d" by (simp only: of_int_le_iff)
    then have "86400 + 1 / 10 ^ 6 \<le> rat_of_int ?d / 10 ^ 6" by simp
    from fl_mono [OF this] have "fl (86400 + 1 / 10 ^ 6) \<le> delta_seconds a b" by (simp add: delta)
    moreover have "fl (of_int (86400 * 2 ^ 20 + 1) * 2 powi - 20) \<le> fl (86400 + 1 / 10 ^ 6)"
      by (rule fl_mono) (simp add: power_int_minus)
    moreover have "fl (of_int (86400 * 2 ^ 20 + 1) * 2 powi - 20) = of_int (86400 * 2 ^ 20 + 1) * 2 powi - 20"
      using round_sig_exact [of 2 53 "86400 * 2 ^ 20 + 1" "- 20"] by (simp add: fl_def)
    moreover have "(86400 :: rat) < of_int (86400 * 2 ^ 20 + 1) * 2 powi - 20" by (simp add: power_int_minus)
    ultimately show ?thesis using False by simp
  qed
qed

text \<open>Under the shipped rules a pair is reported as the same disputed transaction exactly when both
  alerts name the same account and the same counterparty, the amounts are equal and the event times
  are at most 24 hours apart, to the microsecond.\<close>

theorem same_txn_dispute:
  assumes "0 \<le> ea_amount a" and "0 \<le> ea_amount b"
  shows "\<exists>ids. deterministic_match a b shipped_config = Inr ids \<and>
    (''same-txn-dispute'' \<in> set ids \<longleftrightarrow>
       ea_account_ref a \<noteq> None \<and> ea_account_ref a = ea_account_ref b
       \<and> ea_counterparty_ref a \<noteq> None \<and> ea_counterparty_ref a = ea_counterparty_ref b
       \<and> ea_amount a = ea_amount b \<and> \<bar>ea_event_time a - ea_event_time b\<bar> \<le> 86400 * 10 ^ 6)"
proof -
  have amount: "dec (dec \<bar>ea_amount a - ea_amount b\<bar> / max (max (ea_amount a) (ea_amount b)) 1) \<le> 0
      \<longleftrightarrow> ea_amount a = ea_amount b"
  proof -
    let ?q = "dec \<bar>ea_amount a - ea_amount b\<bar> / max (max (ea_amount a) (ea_amount b)) 1"
    have pos: "0 < max (max (ea_amount a) (ea_amount b)) 1" by (simp add: less_max_iff_disj)
    have "0 \<le> ?q" using dec_mono [of 0 "\<bar>ea_amount a - ea_amount b\<bar>"] pos by simp
    then have "0 \<le> dec ?q" using dec_mono [of 0 ?q] by simp
    then have "dec ?q \<le> 0 \<longleftrightarrow> dec ?q = 0" by linarith
    with pos show ?thesis by simp
  qed
  have opt: "opt_str x = opt_str y \<longleftrightarrow> x = y" "opt_str x = PyNone \<longleftrightarrow> x = None" for x y
    by (cases x; cases y; simp)+
  have "''same-txn-dispute'' \<in> rule_id ` set (filter (rule_matches a b) shipped_rules) \<longleftrightarrow>
      rule_matches a b (hd shipped_rules)"
    by (simp add: shipped_rules_def image_iff)
  also have "\<dots> \<longleftrightarrow> ea_account_ref a \<noteq> None \<and> ea_account_ref a = ea_account_ref b
       \<and> ea_counterparty_ref a \<noteq> None \<and> ea_counterparty_ref a = ea_counterparty_ref b
       \<and> ea_amount a = ea_amount b \<and> \<bar>ea_event_time a - ea_event_time b\<bar> \<le> 86400 * 10 ^ 6"
    by (auto simp: shipped_rules_def rule_matches_def keys_agree_def amount getattr_alert_def opt
        delta_seconds_le_day)
  finally show ?thesis
    using deterministic_match_eq [OF assms, of shipped_config] wf_shipped_rules
    by (simp add: shipped_config_def)
qed

section \<open>A concrete pair\<close>

lemma wf_shipped_weights: "wf_weights (weights shipped_config)"
proof -
  have "0 < float_sum [fl (20 / 100), fl (20 / 100), fl (20 / 100), fl (15 / 100), fl (10 / 100), fl (15 / 100)]"
    by (simp add: float_sum_def fl_positive add_pos_pos del: fl_eq_0_iff)
  then show ?thesis
    by (simp add: wf_weights_def weights_by_key_def shipped_config_def is_float_def fl_nonneg)
qed

theorem score_pair_bounds_witness:
  "\<exists>s. score_pair sample_platform (sample_alert ''a'' 0 ''x'') (sample_alert ''b'' 5 ''y'') shipped_config = Inr s
     \<and> 0 \<le> s \<and> s \<le> 1"
  using score_pair_bounds [OF similarity_laws_sample wf_shipped_weights] by (simp add: shipped_config_def)

theorem score_pair_self_witness:
  "score_pair sample_platform
     ((sample_alert ''a'' 0 ''x'')\<lparr> ea_device_id := Some ''d'', ea_ip_address := Some ''10.0.0.1'' \<rparr>)
     ((sample_alert ''a'' 0 ''x'')\<lparr> ea_device_id := Some ''d'', ea_ip_address := Some ''10.0.0.1'' \<rparr>)
     shipped_config = Inr 1"
  by (rule score_pair_self [OF similarity_laws_sample wf_shipped_weights])
    (simp_all add: shipped_config_def sample_alert_def)

lemma shipped_config_simps [simp]:
  "rules shipped_config = shipped_rules" "time_tau_seconds shipped_config = 10800"
  by (simp_all add: shipped_config_def)

lemma sample_alert_simps [simp]:
  "ea_id (sample_alert i t x) = i" "ea_amount (sample_alert i t x) = 250"
  "ea_event_time (sample_alert i t x) = t" "ea_account_ref (sample_alert i t x) = Some x"
  "ea_counterparty_ref (sample_alert i t x) = Some ''cp''"
  by (simp_all add: sample_alert_def)

lemma pair_decision_sample_ok:
  "is_ok (pair_decision P (sample_alert i t x) (sample_alert j u y) shipped_config)"
  by (rule pair_decision_ok) (simp_all add: wf_shipped_rules wf_shipped_weights)

theorem pair_decision_sym_witness:
  "\<exists>v. pair_decision sample_platform (sample_alert ''b'' 0 ''x'') (sample_alert ''a'' 0 ''x'') shipped_config = Inr v"
proof -
  obtain v where "pair_decision sample_platform (sample_alert ''a'' 0 ''x'') (sample_alert ''b'' 0 ''x'') shipped_config = Inr v"
    using pair_decision_sample_ok by (rule is_okE)
  from pair_decision_sym [OF similarity_laws_sample this] show ?thesis by (rule exI)
qed

lemma keys_agree_sample:
  "keys_agree tol ''account_ref'' (sample_alert i t x) (sample_alert j u y) \<longleftrightarrow> x = y"
  "keys_agree tol ''counterparty_ref'' (sample_alert i t x) (sample_alert j u y)"
  "\<not> keys_agree tol ''device_id'' (sample_alert i t x) (sample_alert j u y)"
  "\<not> keys_agree tol ''ip_address'' (sample_alert i t x) (sample_alert j u y)"
  "\<not> keys_agree tol ''customer_ref'' (sample_alert i t x) (sample_alert j u y)"
  by (simp_all add: keys_agree_def getattr_alert_def sample_alert_def)

theorem pair_decision_verdict_witness:
  "\<exists>v. pair_decision sample_platform (sample_alert ''a'' 0 ''x'') (sample_alert ''b'' 0 ''y'') shipped_config = Inr v
     \<and> pv_rule_ids v = [''same-counterparty-window'']"
proof -
  let ?a = "sample_alert ''a'' 0 ''x''" and ?b = "sample_alert ''b'' 0 ''y''"
  have "map rule_id (filter (rule_matches ?a ?b) shipped_rules) = [''same-counterparty-window'']"
    by (simp add: shipped_rules_def rule_matches_def keys_agree_sample delta_seconds_def)
  moreover obtain v where "pair_decision sample_platform ?a ?b shipped_config = Inr v"
    "pv_rule_ids v = map rule_id (filter (rule_matches ?a ?b) (rules shipped_config))"
    using pair_decision_verdict [of shipped_config ?a ?b sample_platform] wf_shipped_rules wf_shipped_weights
    by (simp only: shipped_config_simps sample_alert_simps) auto
  ultimately show ?thesis by simp
qed

theorem same_txn_dispute_witness:
  "\<exists>ids. deterministic_match (sample_alert ''a'' 0 ''x'') (sample_alert ''b'' 5 ''x'') shipped_config = Inr ids
     \<and> ''same-txn-dispute'' \<in> set ids"
  using same_txn_dispute [of "sample_alert ''a'' 0 ''x''" "sample_alert ''b'' 5 ''x''"] by auto

end
