(* ===== verification/UnionFind.thy ===== *)
theory UnionFind
  imports Prelude
begin

text \<open>
  The class \<open>_UnionFind\<close> of \<open>app/grouping/engine.py\<close>. The parent dictionary is a finite map; \<open>find\<close>
  is the two while loops, the walk to the root and the path compression. A loop that never ends is
  \<open>None\<close> (\<open>partial_function\<close>), an identifier outside the dictionary raises \<open>KeyError\<close>.

  The locale \<open>disjoint_sets\<close> is the interface the engine uses: what \<open>find\<close> and \<open>union\<close> do to the
  representatives. Its lemmas give the partition after a sequence of unions, and the interpretation
  at the end shows that the code keeps the contract.
\<close>

section \<open>Definitions\<close>

type_synonym 'a parents = "'a \<Rightarrow> 'a option"

definition uf_init :: "'a list \<Rightarrow> 'a parents" where
  "uf_init items = map_of (map (\<lambda>x. (x, x)) items)"

partial_function (option) find_root :: "('a :: linorder) parents \<Rightarrow> 'a \<Rightarrow> 'a result option" where
  "find_root p x =
     (case p x of
        None \<Rightarrow> Some (Inl KeyError)
      | Some up \<Rightarrow> if up \<noteq> x then find_root p up else Some (Inr x))"

partial_function (option) compress ::
  "('a :: linorder) parents \<Rightarrow> 'a \<Rightarrow> 'a \<Rightarrow> 'a parents result option" where
  "compress p x rt =
     (case p x of
        None \<Rightarrow> Some (Inl KeyError)
      | Some up \<Rightarrow> if up \<noteq> rt then compress (p(x \<mapsto> rt)) up rt else Some (Inr p))"

text \<open>A walk that does not end has no result at all; \<open>NoReturn\<close> marks it in the result type.\<close>

definition returned :: "'a result option \<Rightarrow> 'a result" where
  "returned r = (case r of None \<Rightarrow> Inl NoReturn | Some v \<Rightarrow> v)"

definition uf_find :: "('a :: linorder) parents \<Rightarrow> 'a \<Rightarrow> ('a \<times> 'a parents) result" where
  "uf_find p x =
     rbind (returned (find_root p x)) (\<lambda>rt.
     rbind (returned (compress p x rt)) (\<lambda>p'. Inr (rt, p')))"

definition uf_union :: "('a :: linorder) parents \<Rightarrow> 'a \<Rightarrow> 'a \<Rightarrow> 'a parents result" where
  "uf_union p a b =
     rbind (uf_find p a) (\<lambda>(ra, p1).
     rbind (uf_find p1 b) (\<lambda>(rb, p2).
       if ra = rb then Inr p2
       else let (lo, hi) = (if ra < rb then (ra, rb) else (rb, ra)) in Inr (p2(hi \<mapsto> lo))))"

section \<open>The interface\<close>

locale disjoint_sets =
  fixes invar :: "'p \<Rightarrow> bool"
    and elems :: "'p \<Rightarrow> ('a :: linorder) set"
    and rep :: "'p \<Rightarrow> 'a \<Rightarrow> 'a"
    and find :: "'p \<Rightarrow> 'a \<Rightarrow> ('a \<times> 'p) result"
    and union :: "'p \<Rightarrow> 'a \<Rightarrow> 'a \<Rightarrow> 'p result"
  assumes rep_in: "invar p \<Longrightarrow> x \<in> elems p \<Longrightarrow> rep p x \<in> elems p"
    and rep_le: "invar p \<Longrightarrow> x \<in> elems p \<Longrightarrow> rep p x \<le> x"
    and rep_rep: "invar p \<Longrightarrow> x \<in> elems p \<Longrightarrow> rep p (rep p x) = rep p x"
    and find_ok: "invar p \<Longrightarrow> x \<in> elems p \<Longrightarrow>
      \<exists>p'. find p x = Inr (rep p x, p') \<and> invar p' \<and> elems p' = elems p
        \<and> (\<forall>y \<in> elems p. rep p' y = rep p y)"
    and union_ok: "invar p \<Longrightarrow> a \<in> elems p \<Longrightarrow> b \<in> elems p \<Longrightarrow>
      \<exists>p'. union p a b = Inr p' \<and> invar p' \<and> elems p' = elems p
        \<and> (\<forall>x \<in> elems p. \<forall>y \<in> elems p. rep p' x = rep p' y \<longleftrightarrow>
             rep p x = rep p y
             \<or> rep p x = rep p a \<and> rep p y = rep p b \<or> rep p x = rep p b \<and> rep p y = rep p a)"
begin

definition same :: "'p \<Rightarrow> ('a \<times> 'a) set" where
  "same p = {(x, y). x \<in> elems p \<and> y \<in> elems p \<and> rep p x = rep p y}"

lemma rep_least:
  assumes "invar p" "x \<in> elems p"
  shows "(x, rep p x) \<in> same p \<and> (\<forall>y. (x, y) \<in> same p \<longrightarrow> rep p x \<le> y)"
  using assms rep_in rep_rep rep_le by (auto simp: same_def)

lemma equiv_same: "equiv (elems p) (same p)"
  by (auto simp: same_def equiv_def refl_on_def sym_def trans_def)

text \<open>After a list of unions two elements are together exactly when the edges connect them, starting
  from what was together before.\<close>

lemma union_same:
  assumes "invar p" "a \<in> elems p" "b \<in> elems p"
  shows "\<exists>p'. union p a b = Inr p' \<and> invar p' \<and> elems p' = elems p
    \<and> (same p')\<^sup>* = (same p \<union> {(a, b), (b, a)})\<^sup>*"
proof -
  from union_ok [OF assms] obtain p' where p': "union p a b = Inr p'" "invar p'" "elems p' = elems p"
    and rep': "\<And>x y. x \<in> elems p \<Longrightarrow> y \<in> elems p \<Longrightarrow> rep p' x = rep p' y \<longleftrightarrow>
      rep p x = rep p y \<or> rep p x = rep p a \<and> rep p y = rep p b \<or> rep p x = rep p b \<and> rep p y = rep p a"
    by auto
  let ?E = "same p \<union> {(a, b), (b, a)}"
  have "?E \<subseteq> same p'" using rep' assms(2,3) by (auto simp: same_def p'(3))
  moreover have "same p' \<subseteq> ?E\<^sup>*"
  proof
    fix e assume "e \<in> same p'"
    then obtain x y where e: "e = (x, y)" and xy: "x \<in> elems p" "y \<in> elems p" "rep p' x = rep p' y"
      by (auto simp: same_def p'(3))
    have step: "(u, v) \<in> ?E\<^sup>*" if "u \<in> elems p" "v \<in> elems p" "rep p u = rep p v" for u v
      using that by (auto simp: same_def)
    have ab: "(a, b) \<in> ?E\<^sup>*" "(b, a) \<in> ?E\<^sup>*" by auto
    from rep' [OF xy(1,2)] xy(3) consider "rep p x = rep p y"
      | "rep p x = rep p a" "rep p b = rep p y" | "rep p x = rep p b" "rep p a = rep p y" by metis
    then show "e \<in> ?E\<^sup>*"
      unfolding e by cases (meson step ab xy(1,2) assms(2,3) rtrancl_trans)+
  qed
  ultimately have "(same p')\<^sup>* = ?E\<^sup>*" by (metis rtrancl_subset)
  with p' show ?thesis by blast
qed

lemma unions_same:
  assumes "invar p" and "set es \<subseteq> elems p \<times> elems p"
  shows "\<exists>p'. rfold (\<lambda>(a, b) q. union q a b) es p = Inr p' \<and> invar p' \<and> elems p' = elems p
    \<and> (same p')\<^sup>* = (same p \<union> (set es \<union> (set es)\<inverse>))\<^sup>*"
  using assms
proof (induction es arbitrary: p)
  case Nil
  then show ?case by auto
next
  case (Cons e es)
  obtain a b where e: "e = (a, b)" by (cases e)
  with Cons.prems union_same [of p a b] obtain p1 where p1: "union p a b = Inr p1" "invar p1"
    "elems p1 = elems p" "(same p1)\<^sup>* = (same p \<union> {(a, b), (b, a)})\<^sup>*" by auto
  with Cons.prems Cons.IH [of p1] obtain p' where p': "rfold (\<lambda>(a, b) q. union q a b) es p1 = Inr p'"
    "invar p'" "elems p' = elems p" "(same p')\<^sup>* = (same p1 \<union> (set es \<union> (set es)\<inverse>))\<^sup>*" by auto
  note p'(4)
  also have "(same p1 \<union> (set es \<union> (set es)\<inverse>))\<^sup>* = ((same p1)\<^sup>* \<union> (set es \<union> (set es)\<inverse>)\<^sup>*)\<^sup>*"
    by (simp add: rtrancl_Un_rtrancl)
  also have "\<dots> = (same p \<union> {(a, b), (b, a)} \<union> (set es \<union> (set es)\<inverse>))\<^sup>*"
    unfolding p1(4) by (simp add: rtrancl_Un_rtrancl)
  also have "same p \<union> {(a, b), (b, a)} \<union> (set es \<union> (set es)\<inverse>) = same p \<union> (set (e # es) \<union> (set (e # es))\<inverse>)"
    by (auto simp: e)
  finally show ?case using p' p1(1) by (simp add: e)
qed

lemma rep_eq_iff:
  assumes "x \<in> elems p" "y \<in> elems p"
  shows "rep p x = rep p y \<longleftrightarrow> (x, y) \<in> (same p)\<^sup>*"
proof
  assume "(x, y) \<in> (same p)\<^sup>*"
  then show "rep p x = rep p y" by (induction rule: rtrancl_induct) (auto simp: same_def)
qed (use assms in \<open>auto simp: same_def\<close>)

text \<open>From the discrete partition: the representative is the least element connected to \<open>x\<close>.\<close>

lemma unions_partition:
  assumes "invar p" and "\<forall>x \<in> elems p. rep p x = x" and "set es \<subseteq> elems p \<times> elems p"
  shows "\<exists>p'. rfold (\<lambda>(a, b) q. union q a b) es p = Inr p' \<and> invar p' \<and> elems p' = elems p
    \<and> (\<forall>x \<in> elems p. \<forall>y \<in> elems p. rep p' x = rep p' y \<longleftrightarrow> (x, y) \<in> (set es \<union> (set es)\<inverse>)\<^sup>*)
    \<and> (\<forall>x \<in> elems p. (x, rep p' x) \<in> (set es \<union> (set es)\<inverse>)\<^sup>*
         \<and> (\<forall>y. (x, y) \<in> (set es \<union> (set es)\<inverse>)\<^sup>* \<longrightarrow> rep p' x \<le> y))"
proof -
  let ?E = "set es \<union> (set es)\<inverse>"
  from unions_same [OF assms(1,3)] obtain p' where p': "rfold (\<lambda>(a, b) q. union q a b) es p = Inr p'"
    "invar p'" "elems p' = elems p" "(same p')\<^sup>* = (same p \<union> ?E)\<^sup>*" by blast
  have "same p \<subseteq> Id" using assms(2) by (auto simp: same_def)
  then have "(same p \<union> ?E)\<^sup>* = ?E\<^sup>*"
    by (intro rtrancl_subset) auto
  with p'(4) have conn: "(same p')\<^sup>* = ?E\<^sup>*" by simp
  have closed: "y \<in> elems p" if "(x, y) \<in> ?E\<^sup>*" "x \<in> elems p" for x y
    using that assms(3) by (induction rule: rtrancl_induct) auto
  have least: "(x, rep p' x) \<in> ?E\<^sup>* \<and> (\<forall>y. (x, y) \<in> ?E\<^sup>* \<longrightarrow> rep p' x \<le> y)" if "x \<in> elems p" for x
  proof
    show "(x, rep p' x) \<in> ?E\<^sup>*"
      using rep_least [OF p'(2), of x] that by (auto simp: p'(3) conn [symmetric])
    show "\<forall>y. (x, y) \<in> ?E\<^sup>* \<longrightarrow> rep p' x \<le> y"
      using rep_eq_iff [of x p'] rep_le [OF p'(2)] closed that
      by (auto simp: p'(3) conn) metis
  qed
  with p' rep_eq_iff [of _ p'] conn show ?thesis by auto
qed

text \<open>Looking up a list of elements, the structure threaded through, returns their representatives.\<close>

lemma finds_rep:
  assumes "invar p" and "set xs \<subseteq> elems p" and "\<forall>y \<in> elems p. rep p y = r y"
    and "\<And>q x s. x \<in> set xs \<Longrightarrow> invar q \<Longrightarrow> elems q = elems p \<Longrightarrow> \<forall>y \<in> elems p. rep q y = r y \<Longrightarrow>
       step x (q, s) = rbind (find q x) (\<lambda>(k, q'). rbind (f x k) (\<lambda>v. Inr (q', s @ [v])))"
    and "\<forall>x \<in> set xs. is_ok (f x (r x))"
  shows "\<exists>p' vs. rfold step xs (p, s) = Inr (p', s @ vs) \<and> list_all2 (\<lambda>x v. f x (r x) = Inr v) xs vs"
  using assms
proof (induction xs arbitrary: p s)
  case Nil
  then show ?case by auto
next
  case (Cons x xs)
  from Cons.prems(1,2) find_ok [of p x] obtain p1 where p1: "find p x = Inr (rep p x, p1)" "invar p1"
    "elems p1 = elems p" "\<forall>y \<in> elems p. rep p1 y = rep p y" by auto
  from Cons.prems(5) obtain v where v: "f x (r x) = Inr v" by (auto simp: is_ok_def)
  have "step x (p, s) = Inr (p1, s @ [v])"
    using Cons.prems(4) [of x p s] Cons.prems(1,2,3) p1 v by auto
  moreover have "\<exists>p' vs. rfold step xs (p1, s @ [v]) = Inr (p', (s @ [v]) @ vs)
      \<and> list_all2 (\<lambda>x v. f x (r x) = Inr v) xs vs"
    using Cons.prems p1 by (intro Cons.IH) auto
  ultimately show ?case using v by fastforce
qed

end

section \<open>The code keeps the contract\<close>

text \<open>Every parent is an element below its child, or the child itself.\<close>

definition uf_invar :: "('a :: linorder) parents \<Rightarrow> bool" where
  "uf_invar p \<longleftrightarrow> finite (dom p) \<and> (\<forall>x y. p x = Some y \<longrightarrow> y \<in> dom p \<and> y \<le> x)"

definition uf_rep :: "('a :: linorder) parents \<Rightarrow> 'a \<Rightarrow> 'a" where
  "uf_rep p x = (case find_root p x of Some (Inr r) \<Rightarrow> r | _ \<Rightarrow> x)"

lemma uf_induct [consumes 2, case_names root up]:
  assumes "uf_invar p" and "x \<in> dom p"
    and "\<And>x. p x = Some x \<Longrightarrow> P x"
    and "\<And>x y. p x = Some y \<Longrightarrow> y < x \<Longrightarrow> y \<in> dom p \<Longrightarrow> P y \<Longrightarrow> P x"
  shows "P x"
  using assms(2)
proof (induction "card {z \<in> dom p. z < x}" arbitrary: x rule: less_induct)
  case less
  from less.prems obtain y where y: "p x = Some y" by blast
  with assms(1) have "y \<in> dom p" "y \<le> x" by (auto simp: uf_invar_def)
  show ?case
  proof (cases "y = x")
    case False
    with \<open>y \<le> x\<close> have "y < x" by simp
    have "{z \<in> dom p. z < y} \<subset> {z \<in> dom p. z < x}"
      using \<open>y < x\<close> \<open>y \<in> dom p\<close> by force
    then have "card {z \<in> dom p. z < y} < card {z \<in> dom p. z < x}"
      using assms(1) by (intro psubset_card_mono) (auto simp: uf_invar_def)
    from less.hyps [OF this \<open>y \<in> dom p\<close>] y \<open>y < x\<close> \<open>y \<in> dom p\<close> show ?thesis by (rule assms(4) [rotated 3])
  qed (use assms(3) y in simp)
qed

lemma find_root_ok:
  assumes "uf_invar p" and "x \<in> dom p"
  shows "find_root p x = Some (Inr (uf_rep p x)) \<and> p (uf_rep p x) = Some (uf_rep p x) \<and> uf_rep p x \<le> x"
  using assms
proof (induction rule: uf_induct)
  case (root x)
  then show ?case by (simp add: uf_rep_def find_root.simps [of p x])
next
  case (up x y)
  then have "find_root p x = Some (Inr (uf_rep p y))" by (auto simp: find_root.simps [of p x])
  moreover from this have "uf_rep p x = uf_rep p y" unfolding uf_rep_def [of p x] by simp
  ultimately show ?case using up by auto
qed

lemma uf_rep_root: "p x = Some x \<Longrightarrow> uf_rep p x = x"
  by (simp add: uf_rep_def find_root.simps [of p x])

lemma uf_rep_up:
  assumes "uf_invar p" and "p x = Some y"
  shows "uf_rep p x = uf_rep p y"
proof (cases "y = x")
  case False
  have "y \<in> dom p" using assms by (auto simp: uf_invar_def)
  with False assms(2) find_root_ok [OF assms(1), of y] have "find_root p x = Some (Inr (uf_rep p y))"
    by (auto simp: find_root.simps [of p x])
  then show ?thesis unfolding uf_rep_def [of p x] by simp
qed simp

lemma uf_rep_in: "uf_invar p \<Longrightarrow> x \<in> dom p \<Longrightarrow> uf_rep p x \<in> dom p"
  using find_root_ok [of p x] by auto

lemma uf_rep_idem: "uf_invar p \<Longrightarrow> x \<in> dom p \<Longrightarrow> uf_rep p (uf_rep p x) = uf_rep p x"
  using find_root_ok [of p x] by (simp add: uf_rep_root)

text \<open>The two ways the code changes a parent: shortening a path and linking a root below another.\<close>

lemma shorten:
  assumes "uf_invar p" and "x \<in> dom p"
  shows "uf_invar (p(x \<mapsto> uf_rep p x)) \<and> dom (p(x \<mapsto> uf_rep p x)) = dom p
     \<and> (\<forall>y \<in> dom p. uf_rep (p(x \<mapsto> uf_rep p x)) y = uf_rep p y)"
proof -
  let ?q = "p(x \<mapsto> uf_rep p x)"
  note root = find_root_ok [OF assms] uf_rep_in [OF assms]
  have dom: "dom ?q = dom p" using assms(2) by auto
  have inv: "uf_invar ?q"
    using assms root by (auto simp: uf_invar_def)
  have "uf_rep ?q y = uf_rep p y" if "y \<in> dom ?q" for y
    using inv that
  proof (induction rule: uf_induct)
    case (root y)
    then show ?case using find_root_ok [OF assms] by (auto simp: uf_rep_root split: if_splits)
  next
    case (up y z)
    then have "uf_rep ?q y = uf_rep p z" using uf_rep_up [OF inv] by metis
    also have "\<dots> = uf_rep p y"
      using up.hyps(1) uf_rep_up [OF assms(1), of y z] uf_rep_idem [OF assms]
      by (auto split: if_splits)
    finally show ?case .
  qed
  with inv dom show ?thesis by simp
qed

lemma link:
  assumes "uf_invar p" and "p lo = Some lo" and "p hi = Some hi" and "lo < hi"
  shows "uf_invar (p(hi \<mapsto> lo)) \<and> dom (p(hi \<mapsto> lo)) = dom p
     \<and> (\<forall>y \<in> dom p. uf_rep (p(hi \<mapsto> lo)) y = (if uf_rep p y = hi then lo else uf_rep p y))"
proof -
  define q where "q = p(hi \<mapsto> lo)"
  have q: "q hi = Some lo" "y \<noteq> hi \<Longrightarrow> q y = p y" for y by (simp_all add: q_def)
  have dom: "dom q = dom p" using assms(3) by (auto simp: q_def)
  have inv: "uf_invar q" using assms by (auto simp: q_def uf_invar_def)
  note ends = uf_rep_root [of p lo, OF assms(2)] uf_rep_root [of p hi, OF assms(3)]
  have "uf_rep q y = (if uf_rep p y = hi then lo else uf_rep p y)" if "y \<in> dom q" for y
    using inv that
  proof (induction rule: uf_induct)
    case (root y)
    then have "y \<noteq> hi" using q(1) assms(4) by auto
    with root q(2) [of y] show ?case by (simp add: uf_rep_root)
  next
    case (up y z)
    have y: "uf_rep q y = uf_rep q z" by (rule uf_rep_up [OF inv up.hyps(1)])
    show ?case
    proof (cases "y = hi")
      case True
      with up.hyps(1) q(1) have "z = lo" by simp
      with True y up.IH ends assms(4) show ?thesis by auto
    next
      case False
      with up.hyps(1) q(2) have "p y = Some z" by simp
      from uf_rep_up [OF assms(1) this] y up.IH show ?thesis by simp
    qed
  qed
  with inv dom show ?thesis by (simp add: q_def)
qed

lemma compress_ok:
  assumes "uf_invar p" and "x \<in> dom p"
  shows "\<exists>q. compress p x (uf_rep p x) = Some (Inr q) \<and> uf_invar q \<and> dom q = dom p
     \<and> (\<forall>y \<in> dom p. uf_rep q y = uf_rep p y)"
  using assms
proof (induction "card {z \<in> dom p. z < x}" arbitrary: p x rule: less_induct)
  case less
  let ?r = "uf_rep p x"
  from less.prems obtain y where y: "p x = Some y" by blast
  show ?case
  proof (cases "y = ?r")
    case True
    with y less.prems show ?thesis by (simp add: compress.simps [of p x])
  next
    case False
    let ?p1 = "p(x \<mapsto> ?r)"
    have "y \<in> dom p" "y \<le> x" using less.prems(1) y by (auto simp: uf_invar_def)
    moreover have "y \<noteq> x" using False y uf_rep_root by metis
    ultimately have "y < x" by simp
    note p1 = shorten [OF less.prems]
    have same: "uf_rep ?p1 y = ?r" using p1 \<open>y \<in> dom p\<close> uf_rep_up [OF less.prems(1) y] by metis
    have "{z \<in> dom p. z < y} \<subset> {z \<in> dom p. z < x}" using \<open>y < x\<close> \<open>y \<in> dom p\<close> by force
    then have "card {z \<in> dom ?p1. z < y} < card {z \<in> dom p. z < x}"
      using less.prems(1) p1 by (simp only: p1) (intro psubset_card_mono, auto simp: uf_invar_def)
    from less.hyps [OF this] p1 \<open>y \<in> dom p\<close> obtain q where "compress ?p1 y ?r = Some (Inr q)" "uf_invar q"
      "dom q = dom p" "\<forall>z \<in> dom p. uf_rep q z = uf_rep p z"
      unfolding same by (metis (no_types, lifting))
    then show ?thesis using y False by (simp add: compress.simps [of p x])
  qed
qed

lemma uf_find_ok:
  assumes "uf_invar p" and "x \<in> dom p"
  shows "\<exists>q. uf_find p x = Inr (uf_rep p x, q) \<and> uf_invar q \<and> dom q = dom p
     \<and> (\<forall>y \<in> dom p. uf_rep q y = uf_rep p y)"
  using find_root_ok [OF assms] compress_ok [OF assms] by (auto simp: uf_find_def returned_def)

lemma uf_union_ok:
  assumes "uf_invar p" and "a \<in> dom p" and "b \<in> dom p"
  shows "\<exists>q. uf_union p a b = Inr q \<and> uf_invar q \<and> dom q = dom p
     \<and> (\<forall>x \<in> dom p. \<forall>y \<in> dom p. uf_rep q x = uf_rep q y \<longleftrightarrow> uf_rep p x = uf_rep p y
          \<or> uf_rep p x = uf_rep p a \<and> uf_rep p y = uf_rep p b \<or> uf_rep p x = uf_rep p b \<and> uf_rep p y = uf_rep p a)"
proof -
  obtain p1 where p1: "uf_find p a = Inr (uf_rep p a, p1)" "uf_invar p1" "dom p1 = dom p"
    "\<forall>y \<in> dom p. uf_rep p1 y = uf_rep p y"
    using uf_find_ok [OF assms(1,2)] by blast
  obtain p2 where p2: "uf_find p1 b = Inr (uf_rep p b, p2)" "uf_invar p2" "dom p2 = dom p"
    "\<forall>y \<in> dom p. uf_rep p2 y = uf_rep p y"
    using uf_find_ok [OF p1(2), of b] p1 assms(3) by force
  have roots: "p2 (uf_rep p z) = Some (uf_rep p z)" if "z \<in> dom p" for z
    using find_root_ok [OF p2(2), of z] p2(3,4) that by simp
  note result = p1(1) p2(1)
  consider (eq) "uf_rep p a = uf_rep p b" | (lt) "uf_rep p a < uf_rep p b" | (gt) "uf_rep p b < uf_rep p a"
    by fastforce
  then show ?thesis
  proof cases
    case eq
    with p2 show ?thesis by (auto simp: uf_union_def result)
  next
    case lt
    with link [OF p2(2) roots roots lt] assms(2,3) p2(3,4) show ?thesis
      by (auto simp: uf_union_def result)
  next
    case gt
    with link [OF p2(2) roots roots gt] assms(2,3) p2(3,4) show ?thesis
      by (auto simp: uf_union_def result)
  qed
qed

interpretation uf: disjoint_sets uf_invar dom uf_rep uf_find uf_union
proof unfold_locales
  fix p :: "'a parents" and x assume "uf_invar p" "x \<in> dom p"
  then show "uf_rep p x \<in> dom p" "uf_rep p x \<le> x" "uf_rep p (uf_rep p x) = uf_rep p x"
    using find_root_ok [of p x] by (auto simp: uf_rep_root)
qed (use uf_find_ok uf_union_ok in blast)+

lemma uf_init_Some: "uf_init items x = Some y \<longleftrightarrow> x \<in> set items \<and> y = x"
  by (auto simp: uf_init_def map_of_map_restrict restrict_map_def)

lemma uf_init_ok: "uf_invar (uf_init items) \<and> dom (uf_init items) = set items \<and> (\<forall>x \<in> set items. uf_rep (uf_init items) x = x)"
proof -
  have "dom (uf_init items) = set items" by (auto simp: uf_init_Some)
  then show ?thesis by (simp add: uf_invar_def uf_init_Some uf_rep_root)
qed

section \<open>Properties\<close>

text \<open>C38: After any list of unions of known items, \<open>find\<close> ends for every item and returns the least
  item that the united pairs connect to it; two items get the same answer exactly when the pairs
  connect them.\<close>

theorem union_find_partition:
  assumes "set es \<subseteq> set items \<times> set items"
  shows "\<exists>p. rfold (\<lambda>(a, b) q. uf_union q a b) es (uf_init items) = Inr p
    \<and> (\<forall>x \<in> set items. \<exists>r q. uf_find p x = Inr (r, q)
         \<and> (x, r) \<in> (set es \<union> (set es)\<inverse>)\<^sup>* \<and> (\<forall>y. (x, y) \<in> (set es \<union> (set es)\<inverse>)\<^sup>* \<longrightarrow> r \<le> y)
         \<and> (\<forall>y \<in> set items. uf_rep p y = r \<longleftrightarrow> (x, y) \<in> (set es \<union> (set es)\<inverse>)\<^sup>*))"
proof -
  obtain p where "rfold (\<lambda>(a, b) q. uf_union q a b) es (uf_init items) = Inr p" "uf_invar p" "dom p = set items"
    "\<forall>x \<in> set items. \<forall>y \<in> set items. uf_rep p x = uf_rep p y \<longleftrightarrow> (x, y) \<in> (set es \<union> (set es)\<inverse>)\<^sup>*"
    "\<forall>x \<in> set items. (x, uf_rep p x) \<in> (set es \<union> (set es)\<inverse>)\<^sup>*
      \<and> (\<forall>y. (x, y) \<in> (set es \<union> (set es)\<inverse>)\<^sup>* \<longrightarrow> uf_rep p x \<le> y)"
    using uf.unions_partition [of "uf_init items" es] uf_init_ok [of items] assms by auto
  moreover from this have "\<exists>q. uf_find p x = Inr (uf_rep p x, q)" if "x \<in> set items" for x
    using uf_find_ok [of p x] that by blast
  ultimately show ?thesis by (intro exI [of _ p] conjI ballI) (simp, metis)
qed

theorem union_find_partition_witness:
  "\<exists>p r q. rfold (\<lambda>(a, b) q. uf_union q a b) [(3, 2)] (uf_init [1, 2, 3 :: nat]) = Inr p
     \<and> uf_find p 3 = Inr (r, q) \<and> r \<le> 2"
proof -
  have "set [(3, 2)] \<subseteq> set [1, 2, 3 :: nat] \<times> set [1, 2, 3]" by simp
  from union_find_partition [OF this] obtain p r q
    where "rfold (\<lambda>(a, b) q. uf_union q a b) [(3, 2)] (uf_init [1, 2, 3 :: nat]) = Inr p"
      "uf_find p 3 = Inr (r, q)" "\<forall>y. (3, y) \<in> (set [(3, 2)] \<union> (set [(3, 2)])\<inverse>)\<^sup>* \<longrightarrow> r \<le> y"
    by (metis list.set_intros(1) list.set_intros(2))
  moreover have "(3, 2) \<in> (set [(3, 2)] \<union> (set [(3, 2 :: nat)])\<inverse>)\<^sup>*" by (intro r_into_rtrancl) simp
  ultimately show ?thesis by blast
qed

end
