(* ===== verification/Engine.thy ===== *)
theory Engine
  imports Scoring UnionFind
begin

text \<open>
  \<open>app/grouping/engine.py\<close>: from candidate pairs over kept edges to connected components and one
  decision per alert. \<open>group\<close> is the code's function with its dictionaries and loops.

  \<open>kept_pairs\<close> and \<open>linked\<close> specify the result without loops; \<open>group_result\<close> is the lemma that the
  code computes them, and the properties at the end follow from it.
\<close>

section \<open>Definitions\<close>

record decision =
  d_alert_id :: string
  d_group_key :: string
  d_method :: string
  d_matched_rule_ids :: "string list"
  d_similarity_score :: "rat option"
  d_contributions :: contributions

record edge =
  e_method :: string
  e_matched_rule_ids :: "string list"
  e_score :: "rat option"
  e_contributions :: contributions

type_synonym pair = "string \<times> string"
type_synonym kept_edges = "(pair \<times> edge) list"

definition norm_pair :: "string \<Rightarrow> string \<Rightarrow> pair" where
  "norm_pair a b = (if a \<le> b then (a, b) else (b, a))"

definition edge_sort_key :: "string \<times> edge \<Rightarrow> nat \<times> rat \<times> string" where
  "edge_sort_key ce =
     (if e_method (snd ce) = ''deterministic'' then (0, 0, fst ce)
      else (1, - (case e_score (snd ce) of None \<Rightarrow> 0 | Some s \<Rightarrow> s), fst ce))"

definition getitem :: "('k \<times> 'v) list \<Rightarrow> 'k \<Rightarrow> 'v result" where
  "getitem d k = (case map_of d k of None \<Rightarrow> Inl KeyError | Some v \<Rightarrow> Inr v)"

definition index_by_id :: "engine_alert list \<Rightarrow> (string \<times> engine_alert) list" where
  "index_by_id alerts = fold (\<lambda>a. AList.update (ea_id a) a) alerts []"

definition pair_edge ::
  "platform \<Rightarrow> grouping_config \<Rightarrow> (string \<times> engine_alert) list \<Rightarrow> pair \<Rightarrow> edge result" where
  "pair_edge P config by_id pr =
     rbind (getitem by_id (fst pr)) (\<lambda>a.
     rbind (getitem by_id (snd pr)) (\<lambda>b.
     rbind (pair_decision P a b config) (\<lambda>v.
       Inr \<lparr> e_method = pv_method v, e_matched_rule_ids = pv_rule_ids v, e_score = pv_score v,
             e_contributions = pv_contributions v \<rparr>)))"

definition strong_enough :: "grouping_config \<Rightarrow> edge \<Rightarrow> bool" where
  "strong_enough config e \<longleftrightarrow>
     e_matched_rule_ids e \<noteq> []
     \<or> (case e_score e of None \<Rightarrow> False | Some s \<Rightarrow> s \<ge> similarity_threshold config)"

definition keep_candidate ::
  "platform \<Rightarrow> grouping_config \<Rightarrow> (string \<times> engine_alert) list \<Rightarrow> pair set \<Rightarrow> pair \<Rightarrow> kept_edges
     \<Rightarrow> kept_edges result" where
  "keep_candidate P config by_id apart = (\<lambda>(low, high) kept.
     let pr = norm_pair low high
     in if pr \<in> apart then Inr kept
        else rbind (pair_edge P config by_id (low, high)) (\<lambda>e.
          Inr (if strong_enough config e then AList.update pr e kept else kept)))"

definition force_pair ::
  "platform \<Rightarrow> grouping_config \<Rightarrow> (string \<times> engine_alert) list \<Rightarrow> pair set \<Rightarrow> pair \<Rightarrow> kept_edges
     \<Rightarrow> kept_edges result" where
  "force_pair P config by_id apart = (\<lambda>(low, high) kept.
     if low \<notin> fst ` set by_id \<or> high \<notin> fst ` set by_id then Inr kept
     else
       let pr = norm_pair low high
       in if pr \<in> apart \<or> pr \<in> fst ` set kept then Inr kept
          else rbind (pair_edge P config by_id (low, high)) (\<lambda>e. Inr (AList.update pr e kept)))"

type_synonym incidence = "(string \<times> (string \<times> edge) list) list"

definition append_at :: "string \<Rightarrow> string \<times> edge \<Rightarrow> incidence \<Rightarrow> incidence result" where
  "append_at x ce d = rbind (getitem d x) (\<lambda>ces. Inr (AList.update x (ces @ [ce]) d))"

definition add_incident :: "pair \<times> edge \<Rightarrow> incidence \<Rightarrow> incidence result" where
  "add_incident = (\<lambda>((low, high), e) d. rbind (append_at low (high, e) d) (append_at high (low, e)))"

definition decide :: "string \<Rightarrow> string \<Rightarrow> (string \<times> edge) list \<Rightarrow> decision" where
  "decide alert_id group_key edges =
     (if edges = [] then
        \<lparr> d_alert_id = alert_id, d_group_key = group_key, d_method = ''singleton'',
          d_matched_rule_ids = [], d_similarity_score = None, d_contributions = [] \<rparr>
      else
        let e = snd (arg_min_list edge_sort_key edges)
        in \<lparr> d_alert_id = alert_id, d_group_key = group_key, d_method = e_method e,
             d_matched_rule_ids = e_matched_rule_ids e, d_similarity_score = e_score e,
             d_contributions = e_contributions e \<rparr>)"

definition decide_next ::
  "incidence \<Rightarrow> string \<Rightarrow> string parents \<times> decision list \<Rightarrow> (string parents \<times> decision list) result" where
  "decide_next incident alert_id = (\<lambda>(uf, decisions).
     rbind (uf_find uf alert_id) (\<lambda>(group_key, uf').
     rbind (getitem incident alert_id) (\<lambda>edges.
       Inr (uf', decisions @ [decide alert_id group_key edges]))))"

definition group ::
  "platform \<Rightarrow> engine_alert list \<Rightarrow> grouping_config \<Rightarrow> pair list \<Rightarrow> pair list \<Rightarrow> decision list result" where
  "group P alerts config pinned_apart pinned_together =
     (let by_id = index_by_id alerts;
          ids = sort (map fst by_id);
          apart = (\<lambda>(a, b). norm_pair a b) ` set pinned_apart;
          together = (\<lambda>(a, b). norm_pair a b) ` set pinned_together
      in rbind (candidate_pairs P alerts config) (\<lambda>candidates.
         rbind (rfold (keep_candidate P config by_id apart) (sorted_list_of_set candidates) []) (\<lambda>kept1.
         rbind (rfold (force_pair P config by_id apart) (sorted_list_of_set together) kept1) (\<lambda>kept.
         rbind (rfold (\<lambda>(low, high) uf. uf_union uf low high) (sort (map fst kept)) (uf_init ids)) (\<lambda>uf.
         rbind (rfold add_incident kept (map (\<lambda>x. (x, [])) ids)) (\<lambda>incident.
         rbind (rfold (decide_next incident) ids (uf, [])) (\<lambda>(_, decisions). Inr decisions)))))))"

section \<open>What the engine should compute\<close>

definition by_id_edge :: "platform \<Rightarrow> grouping_config \<Rightarrow> engine_alert list \<Rightarrow> pair \<Rightarrow> edge" where
  "by_id_edge P config alerts pr =
     (case pair_edge P config (index_by_id alerts) pr of Inr e \<Rightarrow> e | Inl _ \<Rightarrow> \<lparr> e_method = [],
        e_matched_rule_ids = [], e_score = None, e_contributions = [] \<rparr>)"

definition kept_pairs ::
  "platform \<Rightarrow> engine_alert list \<Rightarrow> grouping_config \<Rightarrow> pair list \<Rightarrow> pair list \<Rightarrow> pair set" where
  "kept_pairs P alerts config pinned_apart pinned_together =
     {pr. pr \<notin> (\<lambda>(a, b). norm_pair a b) ` set pinned_apart
        \<and> ((\<exists>S. candidate_pairs P alerts config = Inr S \<and> pr \<in> S)
             \<and> strong_enough config (by_id_edge P config alerts pr)
           \<or> pr \<in> (\<lambda>(a, b). norm_pair a b) ` set pinned_together
             \<and> fst pr \<in> ea_id ` set alerts \<and> snd pr \<in> ea_id ` set alerts)}"

definition linked :: "pair set \<Rightarrow> (string \<times> string) set" where
  "linked E = (E \<union> E\<inverse>)\<^sup>*"

definition wf_input :: "engine_alert list \<Rightarrow> grouping_config \<Rightarrow> bool" where
  "wf_input alerts config \<longleftrightarrow>
     distinct (map ea_id alerts) \<and> (\<forall>a \<in> set alerts. 0 \<le> ea_amount a)
     \<and> list_all wf_rule (rules config) \<and> wf_weights (weights config) \<and> time_tau_seconds config \<noteq> 0"

section \<open>The code computes it\<close>

lemma update_new: "k \<notin> fst ` set d \<Longrightarrow> AList.update k v d = d @ [(k, v)]"
  by (induction d) auto

lemma index_by_id_distinct:
  assumes "distinct (map ea_id alerts)"
  shows "index_by_id alerts = map (\<lambda>a. (ea_id a, a)) alerts"
proof -
  have "fold (\<lambda>a. AList.update (ea_id a) a) xs d = d @ map (\<lambda>a. (ea_id a, a)) xs"
    if "distinct (map ea_id xs)" "ea_id ` set xs \<inter> fst ` set d = {}" for xs and d :: "(string \<times> engine_alert) list"
    using that by (induction xs arbitrary: d) (auto simp: update_new)
  from this [OF assms, of "[]"] show ?thesis by (simp add: index_by_id_def)
qed

lemma getitem_index:
  assumes "distinct (map ea_id alerts)" and "a \<in> set alerts"
  shows "getitem (index_by_id alerts) (ea_id a) = Inr a"
proof -
  have "map_of (map (\<lambda>a. (ea_id a, a)) alerts) (ea_id a) = Some a"
    using assms by (intro map_of_is_SomeI) (auto simp: o_def)
  then show ?thesis by (simp add: getitem_def index_by_id_distinct [OF assms(1)])
qed

lemma pair_edge_ok:
  assumes "wf_input alerts config" and "x \<in> ea_id ` set alerts" and "y \<in> ea_id ` set alerts"
  shows "pair_edge P config (index_by_id alerts) (x, y) = Inr (by_id_edge P config alerts (x, y))"
proof -
  from assms(2,3) obtain a b where ab: "a \<in> set alerts" "x = ea_id a" "b \<in> set alerts" "y = ea_id b" by blast
  with assms(1) have "is_ok (pair_decision P a b config)"
    by (intro pair_decision_ok) (auto simp: wf_input_def)
  then obtain v where "pair_decision P a b config = Inr v" by (rule is_okE)
  with assms(1) ab show ?thesis
    by (simp add: by_id_edge_def pair_edge_def getitem_index wf_input_def)
qed

lemma kept_fold:
  assumes "\<And>pr k. pr \<in> set L \<Longrightarrow> pr \<in> fst ` set k \<longleftrightarrow> pr \<in> fst ` set kept \<Longrightarrow>
      f pr k = Inr (if c pr then AList.update pr (E pr) k else k)"
    and "\<And>pr. pr \<in> set L \<Longrightarrow> c pr \<Longrightarrow> pr \<notin> fst ` set kept" and "distinct L"
  shows "rfold f L kept = Inr (kept @ map (\<lambda>pr. (pr, E pr)) (filter c L))"
proof -
  have "rfold f M (kept @ map (\<lambda>pr. (pr, E pr)) (filter c N))
      = Inr (kept @ map (\<lambda>pr. (pr, E pr)) (filter c (N @ M)))" if "L = N @ M" for M N
    using that
  proof (induction M arbitrary: N)
    case (Cons pr M)
    let ?k = "kept @ map (\<lambda>pr. (pr, E pr)) (filter c N)"
    have pr: "pr \<in> set L" "pr \<notin> set N" using Cons.prems assms(3) by auto
    then have k: "pr \<in> fst ` set ?k \<longleftrightarrow> pr \<in> fst ` set kept" by force
    from assms(1) [OF pr(1) k] assms(2) [OF pr(1)] k
    have "f pr ?k = Inr (kept @ map (\<lambda>pr. (pr, E pr)) (filter c (N @ [pr])))"
      by (auto simp: update_new)
    with Cons.IH [of "N @ [pr]"] Cons.prems show ?case by simp
  qed simp
  from this [of "[]" L] show ?thesis by simp
qed

definition incident_of :: "kept_edges \<Rightarrow> string \<Rightarrow> (string \<times> edge) list" where
  "incident_of kept x = concat (map (\<lambda>((low, high), e).
     (if low = x then [(high, e)] else []) @ (if high = x then [(low, e)] else [])) kept)"

lemma incident_fold:
  assumes "\<forall>((low, high), e) \<in> set kept. low \<in> A \<and> high \<in> A" and "fst ` set d = A"
  shows "\<exists>d'. rfold add_incident kept d = Inr d' \<and> fst ` set d' = A
    \<and> (\<forall>x \<in> A. map_of d' x = Some (the (map_of d x) @ incident_of kept x))"
  using assms
proof (induction kept arbitrary: d)
  case Nil
  then show ?case by (auto simp: incident_of_def weak_map_of_SomeI)
next
  case (Cons ke kept)
  obtain low high e where ke: "ke = ((low, high), e)" by (metis prod.exhaust)
  have at: "\<exists>d1. append_at y ce d0 = Inr d1 \<and> fst ` set d1 = A
      \<and> map_of d1 = (map_of d0)(y \<mapsto> the (map_of d0 y) @ [ce])"
    if "y \<in> A" "fst ` set d0 = A" for y ce and d0 :: incidence
  proof -
    from that obtain v where "map_of d0 y = Some v" by (metis map_of_eq_None_iff not_None_eq)
    then show ?thesis using that by (auto simp: append_at_def getitem_def dom_update)
  qed
  have lh: "low \<in> A" "high \<in> A" using Cons.prems(1) ke by auto
  obtain d1 where d1: "append_at low (high, e) d = Inr d1" "fst ` set d1 = A"
    "map_of d1 = (map_of d)(low \<mapsto> the (map_of d low) @ [(high, e)])"
    using at [OF lh(1) Cons.prems(2)] by blast
  obtain d2 where d2: "append_at high (low, e) d1 = Inr d2" "fst ` set d2 = A"
    "map_of d2 = (map_of d1)(high \<mapsto> the (map_of d1 high) @ [(low, e)])"
    using at [OF lh(2) d1(2)] by blast
  obtain d' where d': "rfold add_incident kept d2 = Inr d'" "fst ` set d' = A"
    "\<forall>x \<in> A. map_of d' x = Some (the (map_of d2 x) @ incident_of kept x)"
    using Cons.IH [OF _ d2(2)] Cons.prems(1) by auto
  then show ?case
    using d1 d2 by (auto simp: ke add_incident_def incident_of_def)
qed

lemma norm_pair_le: "x \<le> y \<Longrightarrow> norm_pair x y = (x, y)"
  by (simp add: norm_pair_def)

lemma finite_candidates:
  assumes "candidate_pairs P alerts config = Inr S" and "distinct (map ea_id alerts)"
  shows "finite S" "S \<subseteq> {(x, y). x < y} \<inter> ea_id ` set alerts \<times> ea_id ` set alerts"
proof -
  show sub: "S \<subseteq> {(x, y). x < y} \<inter> ea_id ` set alerts \<times> ea_id ` set alerts"
    using candidate_pairs_blocked_lemma [OF assms] by auto
  show "finite S" by (rule finite_subset [OF sub]) simp
qed

text \<open>The edges the two loops keep: the listed pairs, each once, with its own verdict.\<close>

lemma kept_result:
  assumes "wf_input alerts config" and "candidate_pairs P alerts config = Inr S"
  shows "\<exists>kept1 kept. rfold (keep_candidate P config (index_by_id alerts) ((\<lambda>(a, b). norm_pair a b) ` set apart))
      (sorted_list_of_set S) [] = Inr kept1
    \<and> rfold (force_pair P config (index_by_id alerts) ((\<lambda>(a, b). norm_pair a b) ` set apart))
      (sorted_list_of_set ((\<lambda>(a, b). norm_pair a b) ` set together)) kept1 = Inr kept
    \<and> distinct (map fst kept) \<and> set (map fst kept) = kept_pairs P alerts config apart together
    \<and> (\<forall>(pr, e) \<in> set kept. e = by_id_edge P config alerts pr)"
proof -
  let ?A = "(\<lambda>(a, b). norm_pair a b) ` set apart" and ?T = "(\<lambda>(a, b). norm_pair a b) ` set together"
  let ?E = "by_id_edge P config alerts" and ?I = "ea_id ` set alerts"
  have dist: "distinct (map ea_id alerts)" using assms(1) by (simp add: wf_input_def)
  note S = finite_candidates [OF assms(2) dist]
  have keys: "fst ` set (index_by_id alerts) = ?I" by (force simp: index_by_id_distinct [OF dist])
  define c1 where "c1 pr \<longleftrightarrow> pr \<notin> ?A \<and> strong_enough config (?E pr)" for pr
  define kept1 where "kept1 = map (\<lambda>pr. (pr, ?E pr)) (filter c1 (sorted_list_of_set S))"
  define c2 where "c2 pr \<longleftrightarrow> fst pr \<in> ?I \<and> snd pr \<in> ?I \<and> pr \<notin> ?A \<and> pr \<notin> fst ` set kept1" for pr
  have "keep_candidate P config (index_by_id alerts) ?A pr k = Inr (if c1 pr then AList.update pr (?E pr) k else k)"
    if "pr \<in> S" for pr k
  proof -
    obtain x y where pr: "pr = (x, y)" by (cases pr)
    with S(2) that have "norm_pair x y = (x, y)" "x \<in> ?I" "y \<in> ?I" by (auto simp: norm_pair_def)
    with pair_edge_ok [OF assms(1), of x y P] show ?thesis
      by (simp add: pr keep_candidate_def c1_def Let_def)
  qed
  then have 1: "rfold (keep_candidate P config (index_by_id alerts) ?A) (sorted_list_of_set S) [] = Inr kept1"
    using kept_fold [of "sorted_list_of_set S" "[]" "keep_candidate P config (index_by_id alerts) ?A" c1 ?E] S(1)
    by (simp add: kept1_def)
  have T: "x \<le> y" if "(x, y) \<in> ?T" for x y using that by (auto simp: norm_pair_def split: if_splits)
  have step2: "force_pair P config (index_by_id alerts) ?A pr k = Inr (if c2 pr then AList.update pr (?E pr) k else k)"
    if "pr \<in> ?T" "pr \<in> fst ` set k \<longleftrightarrow> pr \<in> fst ` set kept1" for pr k
  proof -
    obtain x y where pr: "pr = (x, y)" by (cases pr)
    with that T have "norm_pair x y = (x, y)" by (simp add: norm_pair_le)
    with that(2) pair_edge_ok [OF assms(1), of x y P] show ?thesis
      by (auto simp: pr force_pair_def c2_def Let_def keys)
  qed
  have 2: "rfold (force_pair P config (index_by_id alerts) ?A) (sorted_list_of_set ?T) kept1
      = Inr (kept1 @ map (\<lambda>pr. (pr, ?E pr)) (filter c2 (sorted_list_of_set ?T)))"
    by (rule kept_fold) (simp_all add: step2, simp add: c2_def)
  have keys1: "fst ` set kept1 = {pr \<in> S. c1 pr}" using S(1) by (force simp: kept1_def)
  have "distinct (map fst kept1)" by (simp add: kept1_def o_def)
  then have "distinct (map fst (kept1 @ map (\<lambda>pr. (pr, ?E pr)) (filter c2 (sorted_list_of_set ?T))))"
    by (auto simp: o_def c2_def)
  moreover have "{pr \<in> S. c1 pr} \<union> {pr \<in> ?T. c2 pr} = kept_pairs P alerts config apart together"
    using S(2) by (auto simp: kept_pairs_def assms(2) c1_def c2_def keys1)
  then have "set (map fst (kept1 @ map (\<lambda>pr. (pr, ?E pr)) (filter c2 (sorted_list_of_set ?T))))
      = kept_pairs P alerts config apart together"
    by (simp add: keys1 image_image o_def)
  moreover have "\<forall>(pr, e) \<in> set (kept1 @ map (\<lambda>pr. (pr, ?E pr)) (filter c2 (sorted_list_of_set ?T))). e = ?E pr"
    by (auto simp: kept1_def)
  ultimately show ?thesis using 1 2 by blast
qed

text \<open>The decision about one alert, from the kept pairs alone.\<close>

definition counterpart_edges ::
  "platform \<Rightarrow> engine_alert list \<Rightarrow> grouping_config \<Rightarrow> pair set \<Rightarrow> string \<Rightarrow> (string \<times> edge) list" where
  "counterpart_edges P alerts config E x =
     map (\<lambda>y. (y, by_id_edge P config alerts (norm_pair x y))) (sorted_list_of_set {y. norm_pair x y \<in> E})"

definition decision_of ::
  "platform \<Rightarrow> engine_alert list \<Rightarrow> grouping_config \<Rightarrow> pair list \<Rightarrow> pair list \<Rightarrow> string \<Rightarrow> decision" where
  "decision_of P alerts config apart together x =
     (let E = kept_pairs P alerts config apart together
      in decide x (Min {y. (x, y) \<in> linked E}) (counterpart_edges P alerts config E x))"

lemma kept_pairs_sub:
  assumes "wf_input alerts config"
  shows "kept_pairs P alerts config apart together \<subseteq>
    {(x, y). x \<le> y} \<inter> ea_id ` set alerts \<times> ea_id ` set alerts"
proof
  fix pr assume "pr \<in> kept_pairs P alerts config apart together"
  then consider S where "candidate_pairs P alerts config = Inr S" "pr \<in> S"
    | "pr \<in> (\<lambda>(a, b). norm_pair a b) ` set together" "fst pr \<in> ea_id ` set alerts" "snd pr \<in> ea_id ` set alerts"
    unfolding kept_pairs_def by blast
  then show "pr \<in> {(x, y). x \<le> y} \<inter> ea_id ` set alerts \<times> ea_id ` set alerts"
  proof cases
    case 1
    have "distinct (map ea_id alerts)" using assms by (simp add: wf_input_def)
    from subsetD [OF finite_candidates(2) [OF 1(1) this] 1(2)] show ?thesis by auto
  next
    case 2
    then show ?thesis by (cases pr) (auto simp: norm_pair_def split: if_splits)
  qed
qed

lemma kept_pairs_mem:
  assumes "wf_input alerts config" and "(x, y) \<in> kept_pairs P alerts config apart together"
  shows "x \<le> y" "x \<in> ea_id ` set alerts" "y \<in> ea_id ` set alerts"
  using subsetD [OF kept_pairs_sub [OF assms(1)] assms(2)] by auto

lemma incident_of_set:
  assumes "set (map fst kept) = E" and "\<forall>(pr, e) \<in> set kept. e = F pr" and "E \<subseteq> {(x, y). x \<le> y}"
  shows "set (incident_of kept x) = {(y, F (norm_pair x y)) | y. norm_pair x y \<in> E}"
proof -
  have mem: "(pr, e) \<in> set kept \<longleftrightarrow> pr \<in> E \<and> e = F pr" for pr e
    using assms(1,2) by force
  have inc: "ce \<in> set (incident_of kept x) \<longleftrightarrow> (\<exists>low high e. ((low, high), e) \<in> set kept
      \<and> (low = x \<and> ce = (high, e) \<or> high = x \<and> ce = (low, e)))" for ce
  proof (induction kept)
    case (Cons ke kept)
    obtain low high e where "ke = ((low, high), e)" by (metis prod.exhaust)
    with Cons show ?case by (auto simp: incident_of_def)
  qed (simp add: incident_of_def)
  have norm: "norm_pair x y \<in> E \<longleftrightarrow> (x, y) \<in> E \<and> norm_pair x y = (x, y) \<or> (y, x) \<in> E \<and> norm_pair x y = (y, x)" for y
    using assms(3) by (auto simp: norm_pair_def)
  have ord: "(a, b) \<in> E \<Longrightarrow> norm_pair a b = (a, b) \<and> norm_pair b a = (a, b)" for a b
    using assms(3) by (auto simp: norm_pair_def)
  show ?thesis
  proof (intro equalityI subsetI)
    fix ce assume "ce \<in> set (incident_of kept x)"
    with ord show "ce \<in> {(y, F (norm_pair x y)) | y. norm_pair x y \<in> E}"
      unfolding inc mem by fastforce
  next
    fix ce assume "ce \<in> {(y, F (norm_pair x y)) | y. norm_pair x y \<in> E}"
    then obtain y where "ce = (y, F (norm_pair x y))" "norm_pair x y \<in> E" by blast
    then show "ce \<in> set (incident_of kept x)"
      unfolding inc mem norm by (elim disjE conjE) (rule exI [of _ x], rule exI [of _ y], simp,
        rule exI [of _ y], rule exI [of _ x], simp)
  qed
qed

lemma arg_min_list_set_cong:
  assumes "set xs = set ys" and "inj_on f (set xs)"
  shows "xs = [] \<or> arg_min_list f xs = arg_min_list f ys"
proof (cases "xs = []")
  case False
  then have "ys \<noteq> []" using assms(1) by auto
  have "f (arg_min_list f xs) = f (arg_min_list f ys)"
    using False \<open>ys \<noteq> []\<close> assms(1) by (simp add: f_arg_min_list_f)
  then show ?thesis
    using assms arg_min_list_in [OF False] arg_min_list_in [OF \<open>ys \<noteq> []\<close>] by (auto dest: inj_onD)
qed simp

lemma edge_sort_key_inj: "inj_on edge_sort_key {(y, G y) | y. Q y}"
  by (auto simp: inj_on_def edge_sort_key_def split: if_splits)

lemma decide_incident:
  assumes "set (map fst kept) = E" and "\<forall>(pr, e) \<in> set kept. e = by_id_edge P config alerts pr"
    and "E \<subseteq> {(x, y). x \<le> y}" and "finite E"
  shows "decide x k (incident_of kept x) = decide x k (counterpart_edges P alerts config E x)"
proof -
  have "{y. norm_pair x y \<in> E} \<subseteq> fst ` E \<union> snd ` E"
    by (force simp: norm_pair_def split: if_splits)
  then have fin: "finite {y. norm_pair x y \<in> E}" by (rule finite_subset) (simp add: assms(4))
  have set: "set (incident_of kept x) = {(y, by_id_edge P config alerts (norm_pair x y)) | y. norm_pair x y \<in> E}"
    by (rule incident_of_set [OF assms(1-3)])
  also have "\<dots> = set (counterpart_edges P alerts config E x)"
    using fin by (auto simp: counterpart_edges_def)
  finally have "set (incident_of kept x) = set (counterpart_edges P alerts config E x)" .
  moreover from arg_min_list_set_cong [OF this, of edge_sort_key]
  have "incident_of kept x = [] \<or> arg_min_list edge_sort_key (incident_of kept x)
      = arg_min_list edge_sort_key (counterpart_edges P alerts config E x)"
    using edge_sort_key_inj [of "\<lambda>y. by_id_edge P config alerts (norm_pair x y)" "\<lambda>y. norm_pair x y \<in> E"]
    by (simp add: set)
  ultimately show ?thesis by (auto simp: decide_def)
qed

lemma linked_closed:
  assumes "E \<subseteq> A \<times> A" and "(x, y) \<in> linked E" and "x \<in> A"
  shows "y \<in> A"
  using assms(2,3,1) unfolding linked_def by (induction rule: rtrancl_induct) auto

lemma group_eq:
  assumes "wf_input alerts config"
  shows "group P alerts config apart together =
    Inr (map (decision_of P alerts config apart together) (sorted_list_of_set (ea_id ` set alerts)))"
proof -
  let ?E = "kept_pairs P alerts config apart together" and ?I = "ea_id ` set alerts"
  let ?ids = "sorted_list_of_set ?I"
  have dist: "distinct (map ea_id alerts)" using assms by (simp add: wf_input_def)
  have "is_ok (candidate_pairs P alerts config)"
    using assms by (auto simp: candidate_pairs_ok_iff wf_input_def list_all_iff intro: blocking_key_values_ok)
  then obtain S where S: "candidate_pairs P alerts config = Inr S" by (rule is_okE)
  obtain kept1 kept where kept1: "rfold (keep_candidate P config (index_by_id alerts)
      ((\<lambda>(a, b). norm_pair a b) ` set apart)) (sorted_list_of_set S) [] = Inr kept1"
    and kept2: "rfold (force_pair P config (index_by_id alerts) ((\<lambda>(a, b). norm_pair a b) ` set apart))
      (sorted_list_of_set ((\<lambda>(a, b). norm_pair a b) ` set together)) kept1 = Inr kept"
    and kept: "distinct (map fst kept)" "set (map fst kept) = ?E"
      "\<forall>(pr, e) \<in> set kept. e = by_id_edge P config alerts pr"
    using kept_result [OF assms S] by blast
  have E: "?E \<subseteq> {(x, y). x \<le> y}" "?E \<subseteq> ?I \<times> ?I" using kept_pairs_sub [OF assms] by auto
  have finE: "finite ?E" using kept(2) by (metis List.finite_set)
  have ids: "sort (map fst (index_by_id alerts)) = ?ids"
    using dist by (simp add: index_by_id_distinct o_def sorted_list_of_set_sort_remdups distinct_remdups_id
        flip: set_map)
  have "set (sort (map fst kept)) \<subseteq> set ?ids \<times> set ?ids" using E(2) kept(2) by simp
  from uf.unions_partition [of "uf_init ?ids" "sort (map fst kept)"] uf_init_ok [of ?ids] this
  obtain uf where uf: "rfold (\<lambda>(low, high) uf. uf_union uf low high) (sort (map fst kept)) (uf_init ?ids) = Inr uf"
    "uf_invar uf" "dom uf = ?I"
    "\<forall>x \<in> ?I. (x, uf_rep uf x) \<in> linked ?E \<and> (\<forall>y. (x, y) \<in> linked ?E \<longrightarrow> uf_rep uf x \<le> y)"
    using kept(2) by (auto simp: linked_def)
  have "\<forall>((low, high), e) \<in> set kept. low \<in> ?I \<and> high \<in> ?I" using E(2) kept(2) by force
  moreover have "fst ` set (map (\<lambda>x. (x, [])) ?ids) = ?I" by force
  ultimately obtain inc where inc: "rfold add_incident kept (map (\<lambda>x. (x, [])) ?ids) = Inr inc"
    "\<forall>x \<in> ?I. map_of inc x = Some (the (map_of (map (\<lambda>x. (x, [])) ?ids) x) @ incident_of kept x)"
    using incident_fold [of kept ?I "map (\<lambda>x. (x, [])) ?ids"] by blast
  have "getitem inc x = Inr (incident_of kept x)" if "x \<in> ?I" for x
    using bspec [OF inc(2) that] that by (simp add: getitem_def map_of_map_restrict restrict_map_def)
  then have dec: "rbind (getitem inc x) (\<lambda>es. Inr (decide x (uf_rep uf x) es))
      = Inr (decision_of P alerts config apart together x)" if "x \<in> ?I" for x
  proof -
    have "finite {y. (x, y) \<in> linked ?E}"
      by (rule finite_subset [of _ ?I]) (use linked_closed [OF E(2)] that in auto)
    then have "Min {y. (x, y) \<in> linked ?E} = uf_rep uf x" using uf(4) that by (intro Min_eqI) auto
    with that \<open>\<And>x. x \<in> ?I \<Longrightarrow> getitem inc x = Inr (incident_of kept x)\<close> show ?thesis
      by (simp add: decision_of_def Let_def decide_incident [OF kept(2,3) E(1) finE])
  qed
  have "\<exists>p' vs. rfold (decide_next inc) ?ids (uf, []) = Inr (p', [] @ vs)
      \<and> list_all2 (\<lambda>x v. rbind (getitem inc x) (\<lambda>es. Inr (decide x (uf_rep uf x) es)) = Inr v) ?ids vs"
    by (rule uf.finds_rep [OF uf(2)]) (simp_all add: uf(3) decide_next_def rbind_assoc dec)
  then obtain p' vs where "rfold (decide_next inc) ?ids (uf, []) = Inr (p', vs)"
    and vs: "list_all2 (\<lambda>x v. rbind (getitem inc x) (\<lambda>es. Inr (decide x (uf_rep uf x) es)) = Inr v) ?ids vs"
    by auto
  moreover from vs have "vs = map (decision_of P alerts config apart together) ?ids"
    by (rule list_all2_eq_map) (simp add: dec)
  ultimately show ?thesis
    by (simp add: group_def Let_def ids S kept1 kept2 uf(1) inc(1))
qed

section \<open>Consequences\<close>

lemma decision_of_simps [simp]:
  "d_alert_id (decision_of P alerts config apart together x) = x"
  "d_group_key (decision_of P alerts config apart together x)
     = Min {y. (x, y) \<in> linked (kept_pairs P alerts config apart together)}"
  by (simp_all add: decision_of_def decide_def Let_def)

lemma linked_sym: "(x, y) \<in> linked E \<Longrightarrow> (y, x) \<in> linked E"
  unfolding linked_def by (rule symD [OF sym_rtrancl [OF sym_Un_converse]])

lemma linked_trans: "(x, y) \<in> linked E \<Longrightarrow> (y, z) \<in> linked E \<Longrightarrow> (x, z) \<in> linked E"
  unfolding linked_def by (rule rtrancl_trans)

lemma linked_norm: "norm_pair x y \<in> E \<Longrightarrow> (x, y) \<in> linked E"
  unfolding linked_def by (rule r_into_rtrancl) (auto simp: norm_pair_def split: if_splits)

lemma linked_refl: "(x, x) \<in> linked E"
  by (simp add: linked_def)

lemma group_key_props:
  assumes "wf_input alerts config" and "x \<in> ea_id ` set alerts"
    and "E = kept_pairs P alerts config apart together"
  shows "finite {y. (x, y) \<in> linked E}" "(x, Min {y. (x, y) \<in> linked E}) \<in> linked E"
    "(x, y) \<in> linked E \<Longrightarrow> Min {y. (x, y) \<in> linked E} \<le> y"
    "z \<in> ea_id ` set alerts \<Longrightarrow>
      Min {y. (x, y) \<in> linked E} = Min {y. (z, y) \<in> linked E} \<longleftrightarrow> (x, z) \<in> linked E"
proof -
  have fin: "finite {y. (z, y) \<in> linked E}" if "z \<in> ea_id ` set alerts" for z
  proof (rule finite_subset)
    have "E \<subseteq> ea_id ` set alerts \<times> ea_id ` set alerts" using kept_pairs_sub [OF assms(1)] by (auto simp: assms(3))
    from linked_closed [OF this _ that] show "{y. (z, y) \<in> linked E} \<subseteq> ea_id ` set alerts" by blast
  qed simp
  have mem: "(z, Min {y. (z, y) \<in> linked E}) \<in> linked E" if "z \<in> ea_id ` set alerts" for z
    using Min_in [OF fin [OF that]] linked_refl [of z E] by blast
  show "finite {y. (x, y) \<in> linked E}" "(x, Min {y. (x, y) \<in> linked E}) \<in> linked E"
    using fin mem assms(2) by blast+
  show "(x, y) \<in> linked E \<Longrightarrow> Min {y. (x, y) \<in> linked E} \<le> y" using fin [OF assms(2)] by simp
  assume z: "z \<in> ea_id ` set alerts"
  show "Min {y. (x, y) \<in> linked E} = Min {y. (z, y) \<in> linked E} \<longleftrightarrow> (x, z) \<in> linked E"
  proof
    assume "Min {y. (x, y) \<in> linked E} = Min {y. (z, y) \<in> linked E}"
    then show "(x, z) \<in> linked E" using mem [OF assms(2)] mem [OF z] linked_sym linked_trans by metis
  next
    assume "(x, z) \<in> linked E"
    then have "{y. (x, y) \<in> linked E} = {y. (z, y) \<in> linked E}" using linked_sym linked_trans by blast
    then show "Min {y. (x, y) \<in> linked E} = Min {y. (z, y) \<in> linked E}" by simp
  qed
qed

lemma pair_edge_method:
  assumes "pair_edge P config d pr = Inr e"
  shows "e_method e = ''deterministic'' \<and> e_score e = None \<and> e_matched_rule_ids e \<noteq> []
    \<or> e_method e = ''similarity'' \<and> e_score e \<noteq> None \<and> e_matched_rule_ids e = []"
  using assms by (auto simp: pair_edge_def pair_decision_def result_simps split: if_splits)

lemma by_id_edge_method:
  assumes "wf_input alerts config" and "pr \<in> kept_pairs P alerts config apart together"
    and "e = by_id_edge P config alerts pr"
  shows "e_method e = ''deterministic'' \<and> e_score e = None \<and> e_matched_rule_ids e \<noteq> []
    \<or> e_method e = ''similarity'' \<and> e_score e \<noteq> None \<and> e_matched_rule_ids e = []"
proof -
  obtain x y where "pr = (x, y)" by (cases pr)
  with assms kept_pairs_mem [of alerts config x y P apart together] have "pair_edge P config (index_by_id alerts) pr = Inr (by_id_edge P config alerts pr)"
    by (auto intro!: pair_edge_ok)
  from pair_edge_method [OF this] show ?thesis by (simp only: assms(3))
qed

lemma counterpart_edges_set:
  assumes "wf_input alerts config" and "E = kept_pairs P alerts config apart together"
  shows "set (counterpart_edges P alerts config E x)
    = {(y, by_id_edge P config alerts (norm_pair x y)) | y. norm_pair x y \<in> E}"
proof -
  have "{y. norm_pair x y \<in> E} \<subseteq> ea_id ` set alerts"
    using kept_pairs_sub [OF assms(1), of P apart together] unfolding assms(2)
    by (auto simp: norm_pair_def split: if_splits)
  then have "finite {y. norm_pair x y \<in> E}" by (rule finite_subset) simp
  then show ?thesis by (auto simp: counterpart_edges_def)
qed

lemma kept_pairs_cong:
  assumes "wf_input xs config" and "set ys = set xs" and "distinct (map ea_id ys)"
    and "set apart' = set apart" and "set together' = set together"
  shows "decision_of P ys config apart' together' = decision_of P xs config apart together"
proof -
  have "distinct (map ea_id xs)" using assms(1) by (simp add: wf_input_def)
  then have dist: "distinct xs" "distinct ys" using assms(3) by (simp_all add: distinct_map)
  have cand: "(candidate_pairs P ys config = Inr S) = (candidate_pairs P xs config = Inr S)" for S
    using candidate_pairs_set_cong [of P xs config S ys] candidate_pairs_set_cong [of P ys config S xs]
      assms(2) dist by auto
  have "getitem (index_by_id ys) k = getitem (index_by_id xs) k" for k
  proof -
    have "map_of (map (\<lambda>a. (ea_id a, a)) ys) k = map_of (map (\<lambda>a. (ea_id a, a)) xs) k"
      using assms(2,3) \<open>distinct (map ea_id xs)\<close>
      by (intro fun_cong [OF map_of_eqI]) (auto simp: o_def intro!: map_of_is_SomeI [THEN trans] sym [OF map_of_is_SomeI])
    then show ?thesis
      by (simp add: getitem_def index_by_id_distinct assms(3) \<open>distinct (map ea_id xs)\<close>)
  qed
  then have edge: "by_id_edge P config ys = by_id_edge P config xs"
    by (simp add: by_id_edge_def pair_edge_def fun_eq_iff)
  have "kept_pairs P ys config apart' together' = kept_pairs P xs config apart together"
    by (simp add: kept_pairs_def cand edge assms(2,4,5))
  then show ?thesis by (simp add: decision_of_def counterpart_edges_def edge fun_eq_iff)
qed

section \<open>Properties\<close>

text \<open>The texts of a decision come from a fixed list of methods and from the configuration.\<close>

lemma by_id_edge_rules:
  assumes "wf_input alerts config" and "x \<in> ea_id ` set alerts" and "y \<in> ea_id ` set alerts"
  shows "set (e_matched_rule_ids (by_id_edge P config alerts (x, y))) \<subseteq> rule_id ` set (rules config)"
proof -
  from assms(2,3) obtain a b where ab: "a \<in> set alerts" "x = ea_id a" "b \<in> set alerts" "y = ea_id b" by blast
  with assms(1) have det: "deterministic_match a b config = Inr (map rule_id (filter (rule_matches a b) (rules config)))"
    by (intro deterministic_match_eq) (auto simp: wf_input_def)
  have "pair_edge P config (index_by_id alerts) (x, y) = Inr e \<Longrightarrow>
      \<exists>v. pair_decision P a b config = Inr v \<and> e_matched_rule_ids e = pv_rule_ids v" for e
    using ab assms(1) by (auto simp: pair_edge_def getitem_index wf_input_def result_simps)
  from this [OF pair_edge_ok [OF assms]] obtain v where v: "pair_decision P a b config = Inr v"
    "e_matched_rule_ids (by_id_edge P config alerts (x, y)) = pv_rule_ids v" by blast
  then have "set (pv_rule_ids v) \<subseteq> rule_id ` set (rules config)"
    by (auto simp: pair_decision_def det result_simps split: if_splits)
  with v(2) show ?thesis by simp
qed

lemma group_decision_texts:
  assumes "wf_input alerts config" and "group P alerts config apart together = Inr ds" and "d \<in> set ds"
  shows "d_method d \<in> {''singleton'', ''deterministic'', ''similarity''}
    \<and> set (d_matched_rule_ids d) \<subseteq> rule_id ` set (rules config)"
proof -
  from assms(2,3) obtain x where d: "d = decision_of P alerts config apart together x"
    unfolding group_eq [OF assms(1)] by auto
  let ?E = "kept_pairs P alerts config apart together"
  let ?es = "counterpart_edges P alerts config ?E x" and ?e = "\<lambda>y. by_id_edge P config alerts (norm_pair x y)"
  show ?thesis
  proof (cases "?es = []")
    case True
    then show ?thesis by (simp add: d decision_of_def decide_def Let_def)
  next
    case False
    from arg_min_list_in [OF False, of edge_sort_key] obtain z where z: "norm_pair x z \<in> ?E"
      "arg_min_list edge_sort_key ?es = (z, ?e z)" unfolding counterpart_edges_set [OF assms(1) refl] by auto
    then have "d_method d = e_method (?e z)" "d_matched_rule_ids d = e_matched_rule_ids (?e z)"
      using False by (simp_all add: d decision_of_def decide_def Let_def)
    moreover obtain u v where uv: "norm_pair x z = (u, v)" by (cases "norm_pair x z")
    ultimately show ?thesis
      using by_id_edge_method [OF assms(1) z(1) refl] z(1) kept_pairs_mem(2,3) [OF assms(1), of u v P apart together]
        by_id_edge_rules [OF assms(1), of u v P] by auto
  qed
qed

lemma group_result:
  assumes "wf_input alerts config" and "E = kept_pairs P alerts config apart together"
  shows "\<exists>ds. group P alerts config apart together = Inr ds
    \<and> map d_alert_id ds = sorted_list_of_set (ea_id ` set alerts)
    \<and> (\<forall>d \<in> set ds. \<forall>e \<in> set ds.
         d_group_key d = d_group_key e \<longleftrightarrow> (d_alert_id d, d_alert_id e) \<in> linked E)
    \<and> (\<forall>d \<in> set ds. (d_alert_id d, d_group_key d) \<in> linked E
         \<and> (\<forall>y. (d_alert_id d, y) \<in> linked E \<longrightarrow> d_group_key d \<le> y))"
  unfolding group_eq [OF assms(1)]
  using group_key_props [OF assms(1) _ assms(2)] by (auto simp: o_def assms(2) [symmetric])

text \<open>C4: On alerts with distinct ids and non-negative amounts, and a configuration with known keys and
  usable weights, the engine never fails and returns one decision per alert in the order of the ids.
  Two alerts share a group key exactly when kept pairs connect them, and the key is the least id of
  the component.\<close>

theorem group_components:
  assumes "wf_input alerts config" and "E = kept_pairs P alerts config apart together"
  shows "\<exists>ds. group P alerts config apart together = Inr ds
    \<and> map d_alert_id ds = sorted_list_of_set (ea_id ` set alerts)
    \<and> (\<forall>d \<in> set ds. \<forall>e \<in> set ds.
         d_group_key d = d_group_key e \<longleftrightarrow> (d_alert_id d, d_alert_id e) \<in> linked E)
    \<and> (\<forall>d \<in> set ds. (d_alert_id d, d_group_key d) \<in> linked E
         \<and> (\<forall>y. (d_alert_id d, y) \<in> linked E \<longrightarrow> d_group_key d \<le> y))"
  by (rule group_result [OF assms])

text \<open>C14: The decisions do not depend on the order of the alerts, nor on the order or repetition of
  the pins.\<close>

theorem group_order_independent:
  assumes "wf_input xs config" and "set ys = set xs" and "distinct (map ea_id ys)"
    and "set apart' = set apart" and "set together' = set together"
  shows "group P ys config apart' together' = group P xs config apart together"
proof -
  have "wf_input ys config" using assms(1-3) by (simp add: wf_input_def)
  then show ?thesis
    by (simp add: group_eq assms(1,2) kept_pairs_cong [OF assms])
qed

text \<open>An alert reports its strongest edge: it is a singleton exactly when no kept pair contains it,
  deterministic exactly when one of its kept pairs is, and a similarity decision carries the highest
  score among its pairs.\<close>

theorem group_strongest_edge:
  assumes "wf_input alerts config" and "E = kept_pairs P alerts config apart together"
    and "group P alerts config apart together = Inr ds" and "d \<in> set ds"
  shows "(d_method d = ''singleton'' \<longleftrightarrow> (\<forall>y. norm_pair (d_alert_id d) y \<notin> E))
    \<and> (d_method d = ''deterministic'' \<longleftrightarrow> (\<exists>y. norm_pair (d_alert_id d) y \<in> E
         \<and> e_matched_rule_ids (by_id_edge P config alerts (norm_pair (d_alert_id d) y)) \<noteq> []))
    \<and> (d_method d = ''similarity'' \<longrightarrow> (\<exists>s. d_similarity_score d = Some s \<and> (\<forall>y. norm_pair (d_alert_id d) y \<in> E \<longrightarrow>
         (\<exists>t \<le> s. e_score (by_id_edge P config alerts (norm_pair (d_alert_id d) y)) = Some t))))"
proof -
  from assms(3,4) obtain x where d: "d = decision_of P alerts config apart together x"
    unfolding group_eq [OF assms(1)] by auto
  let ?es = "counterpart_edges P alerts config E x" and ?e = "\<lambda>y. by_id_edge P config alerts (norm_pair x y)"
  note es = counterpart_edges_set [OF assms(1,2), of x]
  have meth: "e_method (?e y) = ''deterministic'' \<and> e_score (?e y) = None \<and> e_matched_rule_ids (?e y) \<noteq> []
    \<or> e_method (?e y) = ''similarity'' \<and> e_score (?e y) \<noteq> None \<and> e_matched_rule_ids (?e y) = []"
    if "norm_pair x y \<in> E" for y
    by (rule by_id_edge_method [OF assms(1) that [unfolded assms(2)] refl])
  show ?thesis
  proof (cases "?es = []")
    case True
    then have "\<forall>y. norm_pair x y \<notin> E" using es by auto
    then show ?thesis using True
      by (simp add: d decision_of_def Let_def decide_def assms(2) [symmetric])
  next
    case False
    from arg_min_list_in [OF False, of edge_sort_key] obtain z where z: "norm_pair x z \<in> E"
      "arg_min_list edge_sort_key ?es = (z, ?e z)" unfolding es by auto
    have least: "edge_sort_key (z, ?e z) \<le> edge_sort_key (y, ?e y)" if "norm_pair x y \<in> E" for y
    proof -
      have "(y, ?e y) \<in> set ?es" using that unfolding es by auto
      then have "Min (edge_sort_key ` set ?es) \<le> edge_sort_key (y, ?e y)" by (intro Min_le) auto
      with f_arg_min_list_f [OF False, of edge_sort_key] z(2) show ?thesis by simp
    qed
    have dec: "d_method d = e_method (?e z)" "d_similarity_score d = e_score (?e z)" "d_alert_id d = x"
      using False by (simp_all add: d decision_of_def Let_def decide_def assms(2) [symmetric] z(2))
    have key: "e_method (?e z) = ''deterministic''"
      if "norm_pair x y \<in> E" "e_method (?e y) = ''deterministic''" for y
      using least [OF that(1)] that(2) meth [OF z(1)] by (auto simp: edge_sort_key_def)
    have score: "\<exists>t \<le> s. e_score (?e y) = Some t"
      if y: "norm_pair x y \<in> E" and sim: "e_method (?e z) = ''similarity''" "e_score (?e z) = Some s" for y s
    proof -
      have "e_method (?e y) = ''similarity''" using key [OF y] meth [OF y] sim by auto
      moreover from this have "\<exists>t. e_score (?e y) = Some t" using meth [OF y] by auto
      ultimately show ?thesis using least [OF y] sim by (auto simp: edge_sort_key_def)
    qed
    have "d_method d \<noteq> ''singleton''" using meth [OF z(1)] by (auto simp: dec)
    moreover have "e_method (?e z) = ''deterministic'' \<longleftrightarrow> (\<exists>y. norm_pair x y \<in> E \<and> e_matched_rule_ids (?e y) \<noteq> [])"
    proof
      assume "e_method (?e z) = ''deterministic''"
      with meth [OF z(1)] z(1) show "\<exists>y. norm_pair x y \<in> E \<and> e_matched_rule_ids (?e y) \<noteq> []" by auto
    next
      assume "\<exists>y. norm_pair x y \<in> E \<and> e_matched_rule_ids (?e y) \<noteq> []"
      then obtain y where y: "norm_pair x y \<in> E" "e_matched_rule_ids (?e y) \<noteq> []" by blast
      with meth [OF y(1)] have "e_method (?e y) = ''deterministic''" by simp
      with key y(1) show "e_method (?e z) = ''deterministic''" .
    qed
    moreover have "\<exists>s. e_score (?e z) = Some s \<and> (\<forall>y. norm_pair x y \<in> E \<longrightarrow> (\<exists>t \<le> s. e_score (?e y) = Some t))"
      if "e_method (?e z) = ''similarity''"
      using score [OF _ that] meth [OF z(1)] that by auto
    ultimately show ?thesis unfolding dec using z(1) by blast
  qed
qed

text \<open>Two alerts of the input pinned together share a group key, unless they are also pinned apart.\<close>

theorem group_pinned_together:
  assumes "wf_input alerts config" and "group P alerts config apart together = Inr ds"
    and "d \<in> set ds" and "e \<in> set ds" and "(d_alert_id d, d_alert_id e) \<in> set together"
    and "(d_alert_id d, d_alert_id e) \<notin> set apart" and "(d_alert_id e, d_alert_id d) \<notin> set apart"
  shows "d_group_key d = d_group_key e"
proof -
  let ?E = "kept_pairs P alerts config apart together"
  from assms(2-4) obtain x y where d: "d = decision_of P alerts config apart together x" "x \<in> ea_id ` set alerts"
    and e: "e = decision_of P alerts config apart together y" "y \<in> ea_id ` set alerts"
    unfolding group_eq [OF assms(1)] by auto
  with assms(5-7) have pins: "(x, y) \<in> set together" "(x, y) \<notin> set apart" "(y, x) \<notin> set apart" by auto
  from pins(1) have "norm_pair x y \<in> (\<lambda>(a, b). norm_pair a b) ` set together" by force
  moreover have "norm_pair x y \<notin> (\<lambda>(a, b). norm_pair a b) ` set apart"
    using pins(2,3) by (auto simp: norm_pair_def split: if_splits)
  ultimately have "norm_pair x y \<in> ?E"
    using d(2) e(2) by (auto simp: kept_pairs_def norm_pair_def)
  then have "(x, y) \<in> linked ?E" by (rule linked_norm)
  with group_key_props(4) [OF assms(1) d(2) refl e(2)] show ?thesis by (simp add: d(1) e(1))
qed

text \<open>C37: Pins keep groups apart: when every pair that crosses the border of a set of alerts is pinned
  apart, no alert of the set shares a group key with one outside, whatever the rules say and even if
  such a pair is also pinned together.\<close>

theorem group_pinned_apart:
  assumes "wf_input alerts config" and "group P alerts config apart together = Inr ds"
    and "\<forall>x \<in> A. \<forall>y \<in> ea_id ` set alerts - A. (x, y) \<in> set apart \<or> (y, x) \<in> set apart"
    and "d \<in> set ds" and "e \<in> set ds" and "d_alert_id d \<in> A" and "d_alert_id e \<notin> A"
  shows "d_group_key d \<noteq> d_group_key e"
proof -
  let ?E = "kept_pairs P alerts config apart together" and ?I = "ea_id ` set alerts"
  from assms(2,4,5) obtain x y where d: "d = decision_of P alerts config apart together x" "x \<in> ?I"
    and e: "e = decision_of P alerts config apart together y" "y \<in> ?I"
    unfolding group_eq [OF assms(1)] by auto
  have cross: "u \<in> A \<longleftrightarrow> v \<in> A" if "(u, v) \<in> ?E" for u v
  proof (rule ccontr)
    assume "\<not> (u \<in> A \<longleftrightarrow> v \<in> A)"
    moreover have uv: "u \<le> v" "u \<in> ?I" "v \<in> ?I" using kept_pairs_mem [OF assms(1) that] by blast+
    ultimately have "(u, v) \<in> set apart \<or> (v, u) \<in> set apart" using assms(3) by blast
    then have "norm_pair u v \<in> (\<lambda>(a, b). norm_pair a b) ` set apart"
      by (force simp: norm_pair_def)
    with that uv(1) show False by (simp add: kept_pairs_def norm_pair_le)
  qed
  have "u \<in> A \<longleftrightarrow> v \<in> A" if "(u, v) \<in> linked ?E" for u v
    using that unfolding linked_def by (induction rule: rtrancl_induct) (use cross in auto)
  with assms(6,7) have "(x, y) \<notin> linked ?E" by (auto simp: d(1) e(1))
  with group_key_props(4) [OF assms(1) d(2) refl e(2)] show ?thesis by (simp add: d(1) e(1))
qed

section \<open>A concrete run\<close>

lemma wf_sample: "wf_input sample_alerts shipped_config"
  using distinct_sample_alerts wf_shipped_rules wf_shipped_weights
  by (simp add: wf_input_def) (simp add: sample_alerts_def)

lemma sample_ids: "ea_id ` set sample_alerts = {''a'', ''b'', ''c''}"
  by (auto simp: sample_alerts_def)

lemma sample_decision:
  "x \<in> {''a'', ''b'', ''c''} \<Longrightarrow> \<exists>ds. group sample_platform sample_alerts shipped_config apart together = Inr ds
     \<and> decision_of sample_platform sample_alerts shipped_config apart together x \<in> set ds"
  by (auto simp: group_eq [OF wf_sample] sample_ids)

theorem group_components_witness:
  "\<exists>ds. group sample_platform sample_alerts shipped_config [] [] = Inr ds
     \<and> map d_alert_id ds = [''a'', ''b'', ''c'']"
proof -
  have "sorted_list_of_set (ea_id ` set sample_alerts) = [''a'', ''b'', ''c'']" by (simp add: sample_ids)
  with group_components [OF wf_sample refl, of sample_platform "[]" "[]"] show ?thesis by auto
qed

theorem group_order_independent_witness:
  "group sample_platform (rev sample_alerts) shipped_config [] [(''a'', ''c''), (''a'', ''c'')]
     = group sample_platform sample_alerts shipped_config [] [(''a'', ''c'')]"
  by (rule group_order_independent [OF wf_sample]) (simp_all add: rev_map [symmetric] distinct_sample_alerts)

theorem group_strongest_edge_witness:
  "\<exists>ds. group sample_platform sample_alerts shipped_config [] [] = Inr ds
     \<and> (\<exists>d \<in> set ds. d_alert_id d = ''c'' \<and> d_method d = ''singleton'')"
proof -
  let ?E = "kept_pairs sample_platform sample_alerts shipped_config [] []"
  obtain ds where ds: "group sample_platform sample_alerts shipped_config [] [] = Inr ds"
    "decision_of sample_platform sample_alerts shipped_config [] [] ''c'' \<in> set ds"
    using sample_decision [of "''c''"] by blast
  have "?E \<subseteq> {(''a'', ''b'')}" by (auto simp: kept_pairs_def candidate_pairs_sample)
  then have "norm_pair ''c'' y \<notin> ?E" for y by (auto simp: norm_pair_def split: if_splits)
  with group_strongest_edge [OF wf_sample refl ds]
  have "d_method (decision_of sample_platform sample_alerts shipped_config [] [] ''c'') = ''singleton''" by simp
  with ds show ?thesis by (metis decision_of_simps(1))
qed

theorem group_pinned_together_witness:
  "\<exists>ds. group sample_platform sample_alerts shipped_config [] [(''a'', ''c'')] = Inr ds
     \<and> (\<exists>d \<in> set ds. \<exists>e \<in> set ds. d_alert_id d = ''a'' \<and> d_alert_id e = ''c'' \<and> d_group_key d = d_group_key e)"
proof -
  let ?d = "decision_of sample_platform sample_alerts shipped_config [] [(''a'', ''c'')]"
  obtain ds where ds: "group sample_platform sample_alerts shipped_config [] [(''a'', ''c'')] = Inr ds"
    "?d ''a'' \<in> set ds" "?d ''c'' \<in> set ds"
    using sample_decision [of "''a''"] sample_decision [of "''c''"] by (metis insertCI sum.inject(2))
  from group_pinned_together [OF wf_sample ds] have "d_group_key (?d ''a'') = d_group_key (?d ''c'')"
    by (simp del: decision_of_simps(2))
  with ds show ?thesis by (metis decision_of_simps(1))
qed

theorem group_pinned_apart_witness:
  "\<exists>ds. group sample_platform sample_alerts shipped_config [(''b'', ''a''), (''a'', ''c'')] [(''a'', ''b'')] = Inr ds
     \<and> (\<exists>d \<in> set ds. \<exists>e \<in> set ds. d_alert_id d = ''a'' \<and> d_alert_id e = ''b'' \<and> d_group_key d \<noteq> d_group_key e)"
proof -
  let ?apart = "[(''b'', ''a''), (''a'', ''c'')]"
  let ?d = "decision_of sample_platform sample_alerts shipped_config ?apart [(''a'', ''b'')]"
  obtain ds where ds: "group sample_platform sample_alerts shipped_config ?apart [(''a'', ''b'')] = Inr ds"
    "?d ''a'' \<in> set ds" "?d ''b'' \<in> set ds"
    using sample_decision [of "''a''"] sample_decision [of "''b''"] by (metis insertCI sum.inject(2))
  have "\<forall>x \<in> {''a''}. \<forall>y \<in> ea_id ` set sample_alerts - {''a''}. (x, y) \<in> set ?apart \<or> (y, x) \<in> set ?apart"
    by (auto simp: sample_ids)
  from group_pinned_apart [OF wf_sample ds(1) this ds(2,3)] have "d_group_key (?d ''a'') \<noteq> d_group_key (?d ''b'')"
    by (simp del: decision_of_simps(2))
  with ds show ?thesis by (metis decision_of_simps(1))
qed

end
