(* ===== verification/Store.thy ===== *)
theory Store
  imports Engine
begin

text \<open>
  The database as the backend sees it (\<open>app/models/\<close>): one record per table row, the tables as
  lists of rows, and the SQLAlchemy session as a state that may raise. \<open>in_transaction\<close> is a request
  or job that commits at the end: an exception takes the tables back, but not the sequences, the
  metrics or the clock.

  The environment supplies what the database and the standard library decide: the clock, fresh
  UUIDs, the order in which PostgreSQL returns rows that a query does not order, the correlation id
  and the grouping configuration.
\<close>

section \<open>Rows\<close>

record principal =
  p_user_id :: uuid
  p_email :: string
  p_roles :: "string list"

record user_row =
  u_id :: uuid
  u_email :: string
  u_display_name :: string
  u_password_hash :: string
  u_is_active :: bool
  u_roles :: "string list"

record alert_row =
  a_id :: uuid
  a_data :: normalized_alert
  a_idempotency_key :: "string option"
  a_received_at :: int
  a_case_id :: "uuid option"

record case_row =
  c_id :: uuid
  c_human_ref :: string
  c_status :: string
  c_disposition :: "string option"
  c_assignee_id :: "uuid option"
  c_risk_score :: int
  c_alert_count :: int
  c_closed_at :: "int option"
  c_canonical_from_case_id :: "uuid option"
  c_version :: int
  c_created_at :: int
  c_updated_at :: int

record link_row =
  l_id :: uuid
  l_case_id :: uuid
  l_alert_id :: uuid
  l_grouping_decision_id :: uuid
  l_linked_at :: int
  l_linked_by :: string

record note_row =
  n_id :: uuid
  n_case_id :: uuid
  n_author_id :: uuid
  n_body :: string
  n_retracted :: bool
  n_retraction_reason :: "string option"
  n_created_at :: int

record grouping_row =
  g_id :: uuid
  g_alert_id :: uuid
  g_case_id :: uuid
  g_method :: string
  g_matched_rule_ids :: "string list"
  g_similarity_score :: "rat option"
  g_feature_contributions :: contributions
  g_engine_version :: string
  g_config_hash :: string
  g_created_at :: int

record audit_stream =
  st_stream :: string
  st_last_seq :: nat
  st_last_hash :: string

record audit_event =
  ev_id :: nat
  ev_stream :: string
  ev_seq :: nat
  ev_prev_hash :: string
  ev_hash :: string
  ev_actor_id :: "string option"
  ev_actor_role :: "string option"
  ev_action :: string
  ev_target_type :: string
  ev_target_id :: string
  ev_reason :: "string option"
  ev_before :: "json option"
  ev_after :: "json option"
  ev_correlation_id :: "string option"
  ev_created_at :: int

section \<open>State and environment\<close>

record state =
  users :: "user_row list"
  alerts :: "alert_row list"
  cases :: "case_row list"
  links :: "link_row list"
  case_notes :: "note_row list"
  groupings :: "grouping_row list"
  streams :: "audit_stream list"
  events :: "audit_event list"
  human_ref_seq :: nat
  event_id_seq :: nat
  ticks :: nat
  uuids :: nat
  audit_write_failures :: nat
  ingested_created :: nat
  ingested_duplicate :: nat
  decisions_total :: "string list"

record env =
  env_platform :: platform
  utcnow :: "nat \<Rightarrow> int"
  txn_now :: int
  new_uuid :: "nat \<Rightarrow> uuid"
  scan_rank :: "uuid \<Rightarrow> nat"
  correlation :: "string option"
  env_config :: grouping_config

text \<open>What a rollback restores: the tables. Sequences, metrics, clock and UUIDs go on.\<close>

definition rollback :: "state \<Rightarrow> state \<Rightarrow> state" where
  "rollback s t =
     t\<lparr> users := users s, alerts := alerts s, cases := cases s, links := links s, case_notes := case_notes s,
        groupings := groupings s, streams := streams s, events := events s \<rparr>"

section \<open>Operations on the session\<close>

type_synonym 'a op = "state \<Rightarrow> 'a result \<times> state"

definition ret :: "'a \<Rightarrow> 'a op" where
  "ret x s = (Inr x, s)"

definition raise_exn :: "exn \<Rightarrow> 'a op" where
  "raise_exn e s = (Inl e, s)"

definition bind_op :: "'a op \<Rightarrow> ('a \<Rightarrow> 'b op) \<Rightarrow> 'b op" where
  "bind_op m f s = (case m s of (Inl e, s') \<Rightarrow> (Inl e, s') | (Inr x, s') \<Rightarrow> f x s')"

definition read_state :: "(state \<Rightarrow> 'a) \<Rightarrow> 'a op" where
  "read_state f s = (Inr (f s), s)"

definition modify :: "(state \<Rightarrow> state) \<Rightarrow> unit op" where
  "modify f s = (Inr (), f s)"

definition lift_result :: "'a result \<Rightarrow> 'a op" where
  "lift_result r s = (r, s)"

definition guard :: "bool \<Rightarrow> exn \<Rightarrow> unit op" where
  "guard b e s = (if b then (Inr (), s) else (Inl e, s))"

fun each :: "('a \<Rightarrow> unit op) \<Rightarrow> 'a list \<Rightarrow> unit op" where
  "each f [] = ret ()"
| "each f (x # xs) = bind_op (f x) (\<lambda>_. each f xs)"

definition in_transaction :: "'a op \<Rightarrow> 'a op" where
  "in_transaction m s = (case m s of (Inl e, t) \<Rightarrow> (Inl e, rollback s t) | (Inr x, t) \<Rightarrow> (Inr x, t))"

definition now :: "env \<Rightarrow> int op" where
  "now E s = (Inr (utcnow E (ticks s)), s\<lparr> ticks := Suc (ticks s) \<rparr>)"

definition uuid4 :: "env \<Rightarrow> uuid op" where
  "uuid4 E s = (Inr (new_uuid E (uuids s)), s\<lparr> uuids := Suc (uuids s) \<rparr>)"

text \<open>The rows that a query without \<open>ORDER BY\<close> returns come in the order of \<open>scan_rank\<close>.\<close>

definition scanned :: "env \<Rightarrow> ('r \<Rightarrow> uuid) \<Rightarrow> 'r list \<Rightarrow> 'r list" where
  "scanned E key rows = sort_key (\<lambda>r. scan_rank E (key r)) rows"

definition update_where :: "('r \<Rightarrow> bool) \<Rightarrow> ('r \<Rightarrow> 'r) \<Rightarrow> 'r list \<Rightarrow> 'r list" where
  "update_where p f rows = map (\<lambda>r. if p r then f r else r) rows"

text \<open>A text value fits a \<open>VARCHAR(n)\<close> column; PostgreSQL refuses NUL characters.\<close>

definition fits :: "nat \<Rightarrow> string \<Rightarrow> bool" where
  "fits n s \<longleftrightarrow> length s \<le> n \<and> CHR 0x00 \<notin> set s"

definition fits_opt :: "nat \<Rightarrow> string option \<Rightarrow> bool" where
  "fits_opt n v = (case v of None \<Rightarrow> True | Some s \<Rightarrow> fits n s)"

text \<open>\<open>SELECT ... FROM cases WHERE id = ... FOR UPDATE\<close>, and the flush of a changed row.\<close>

definition find_case :: "state \<Rightarrow> uuid \<Rightarrow> case_row option" where
  "find_case s i = List.find (\<lambda>c. c_id c = i) (cases s)"

definition save_case :: "env \<Rightarrow> case_row \<Rightarrow> unit op" where
  "save_case E c = modify (\<lambda>s. s\<lparr> cases :=
     update_where (\<lambda>r. c_id r = c_id c) (\<lambda>_. c\<lparr> c_updated_at := txn_now E \<rparr>) (cases s) \<rparr>)"

section \<open>Lemmas\<close>

named_theorems op_simps \<open>unfolding of successful operations\<close>

lemma ret_eq [op_simps]: "ret x s = (r, t) \<longleftrightarrow> r = Inr x \<and> t = s"
  by (auto simp: ret_def)

lemma raise_exn_eq [op_simps]: "raise_exn e s = (r, t) \<longleftrightarrow> r = Inl e \<and> t = s"
  by (auto simp: raise_exn_def)

lemma bind_op_Inr [op_simps]: "bind_op m f s = (Inr y, u) \<longleftrightarrow> (\<exists>x t. m s = (Inr x, t) \<and> f x t = (Inr y, u))"
  by (auto simp: bind_op_def split: prod.splits sum.splits)

lemma bind_op_Inl: "bind_op m f s = (Inl e, u) \<longleftrightarrow>
    m s = (Inl e, u) \<or> (\<exists>x t. m s = (Inr x, t) \<and> f x t = (Inl e, u))"
  by (auto simp: bind_op_def split: prod.splits sum.splits)

lemma read_state_eq [op_simps]: "read_state f s = (r, t) \<longleftrightarrow> r = Inr (f s) \<and> t = s"
  by (auto simp: read_state_def)

lemma modify_eq [op_simps]: "modify f s = (r, t) \<longleftrightarrow> r = Inr () \<and> t = f s"
  by (auto simp: modify_def)

lemma lift_result_eq [op_simps]: "lift_result q s = (r, t) \<longleftrightarrow> q = r \<and> t = s"
  by (auto simp: lift_result_def)

lemma guard_Inr [op_simps]: "guard b e s = (Inr x, t) \<longleftrightarrow> b \<and> t = s"
  by (auto simp: guard_def)

lemma guard_Inl [op_simps]: "guard b e s = (Inl e', t) \<longleftrightarrow> \<not> b \<and> e' = e \<and> t = s"
  by (auto simp: guard_def)

lemma now_eq [op_simps]: "now E s = (r, t) \<longleftrightarrow> r = Inr (utcnow E (ticks s)) \<and> t = s\<lparr> ticks := Suc (ticks s) \<rparr>"
  by (auto simp: now_def)

lemma uuid4_eq [op_simps]: "uuid4 E s = (r, t) \<longleftrightarrow> r = Inr (new_uuid E (uuids s)) \<and> t = s\<lparr> uuids := Suc (uuids s) \<rparr>"
  by (auto simp: uuid4_def)

text \<open>Running an operation forwards, for executions that succeed.\<close>

named_theorems run_simps \<open>forward evaluation of operations\<close>

lemma ret_run [run_simps]: "ret x s = (Inr x, s)"
  by (simp add: ret_def)

lemma bind_run [run_simps]: "m s = (Inr x, t) \<Longrightarrow> bind_op m f s = f x t"
  by (simp add: bind_op_def)

lemma bind_run_Inl [run_simps]: "m s = (Inl e, t) \<Longrightarrow> bind_op m f s = (Inl e, t)"
  by (simp add: bind_op_def)

lemma read_run [run_simps]: "read_state f s = (Inr (f s), s)"
  by (simp add: read_state_def)

lemma modify_run [run_simps]: "modify f s = (Inr (), f s)"
  by (simp add: modify_def)

lemma guard_run [run_simps]: "guard b e s = (if b then Inr () else Inl e, s)"
  by (simp add: guard_def)

lemma now_run [run_simps]: "now E s = (Inr (utcnow E (ticks s)), s\<lparr> ticks := Suc (ticks s) \<rparr>)"
  by (simp add: now_def)

lemma uuid4_run [run_simps]: "uuid4 E s = (Inr (new_uuid E (uuids s)), s\<lparr> uuids := Suc (uuids s) \<rparr>)"
  by (simp add: uuid4_def)

lemma in_transaction_Inr [op_simps]: "in_transaction m s = (Inr x, t) \<longleftrightarrow> m s = (Inr x, t)"
  by (auto simp: in_transaction_def split: prod.splits sum.splits)

lemma in_transaction_Inl: "in_transaction m s = (Inl e, t) \<longleftrightarrow> (\<exists>u. m s = (Inl e, u) \<and> t = rollback s u)"
  by (auto simp: in_transaction_def split: prod.splits sum.splits)

lemma ticks_self: "s\<lparr> ticks := ticks s \<rparr> = s"
  by (cases s) simp

lemma rollback_tables [simp]:
  "users (rollback s t) = users s" "alerts (rollback s t) = alerts s" "cases (rollback s t) = cases s"
  "links (rollback s t) = links s" "case_notes (rollback s t) = case_notes s" "groupings (rollback s t) = groupings s"
  "streams (rollback s t) = streams s" "events (rollback s t) = events s"
  by (simp_all add: rollback_def)

definition same_tables :: "state \<Rightarrow> state \<Rightarrow> bool" where
  "same_tables s t \<longleftrightarrow>
     users t = users s \<and> alerts t = alerts s \<and> cases t = cases s \<and> links t = links s
     \<and> case_notes t = case_notes s \<and> groupings t = groupings s \<and> streams t = streams s \<and> events t = events s"

lemma in_transaction_same_tables: "in_transaction m s = (Inl e, t) \<Longrightarrow> same_tables s t"
  by (auto simp: in_transaction_Inl same_tables_def)

lemma set_scanned [simp]: "set (scanned E key rows) = set rows"
  by (simp add: scanned_def)

lemma set_update_where: "r \<in> set (update_where p f rows) \<longleftrightarrow>
    (\<exists>q \<in> set rows. r = (if p q then f q else q))"
  by (auto simp: update_where_def image_iff)

lemma map_update_where: "(\<And>r. p r \<Longrightarrow> k (f r) = k r) \<Longrightarrow> map k (update_where p f rows) = map k rows"
  by (simp add: update_where_def)

lemma find_case_Some: "find_case s i = Some c \<Longrightarrow> c \<in> set (cases s) \<and> c_id c = i"
  by (auto simp: find_case_def find_Some_iff)

lemma find_case_None: "find_case s i = None \<longleftrightarrow> (\<forall>c \<in> set (cases s). c_id c \<noteq> i)"
  by (auto simp: find_case_def find_None_iff)

lemma find_case_unique:
  assumes "distinct (map c_id (cases s))" and "c \<in> set (cases s)"
  shows "find_case s (c_id c) = Some c"
proof -
  have "\<exists>d. find_case s (c_id c) = Some d" using assms(2) find_case_None [of s "c_id c"] by auto
  then obtain d where d: "find_case s (c_id c) = Some d" by blast
  from find_case_Some [OF d] assms have "d = c" by (auto simp: distinct_map inj_on_def)
  with d show ?thesis by simp
qed

text \<open>The empty database and a closed environment, for concrete runs.\<close>

definition empty_state :: state where
  "empty_state =
     \<lparr> users = [], alerts = [], cases = [], links = [], case_notes = [], groupings = [], streams = [],
       events = [], human_ref_seq = 1, event_id_seq = 1, ticks = 0, uuids = 0,
       audit_write_failures = 0, ingested_created = 0, ingested_duplicate = 0, decisions_total = [] \<rparr>"

definition sample_env :: env where
  "sample_env =
     \<lparr> env_platform = sample_platform, utcnow = int, txn_now = 0, new_uuid = nat_text,
       scan_rank = (\<lambda>_. 0), correlation = None, env_config = shipped_config \<rparr>"

end
