(* ===== verification/AuditLog.thy ===== *)
theory AuditLog
  imports Store "HOL-Library.Sublist"
begin

text \<open>
  \<open>app/audit/service.py\<close> and the endpoint \<open>POST /audit:verify\<close> of \<open>app/audit/routes.py\<close>: the
  hash-chained, per-stream event log. \<open>record_audit\<close> is the write path on the caller's session,
  \<open>verify_stream\<close> the chain check and \<open>verify_audit\<close> the whole endpoint with its tip anchors.

  \<open>audit_inv\<close> says that every stream is a chain from the genesis hash whose tip row holds its length
  and last hash. The locale \<open>append_log\<close> is the interface the services rely on: a successful append
  keeps the invariant and adds one event at the end of its stream.
\<close>

section \<open>Definitions\<close>

definition GENESIS_HASH :: string where
  "GENESIS_HASH = replicate 64 (CHR ''0'')"

definition json_opt_str :: "string option \<Rightarrow> json" where
  "json_opt_str v = (case v of None \<Rightarrow> JNull | Some s \<Rightarrow> JStr s)"

definition json_opt :: "json option \<Rightarrow> json" where
  "json_opt v = (case v of None \<Rightarrow> JNull | Some j \<Rightarrow> j)"

definition event_payload :: "platform \<Rightarrow> audit_event \<Rightarrow> json" where
  "event_payload P e =
     JList [JStr (ev_stream e), JInt (int (ev_seq e)), json_opt_str (ev_actor_id e),
       json_opt_str (ev_actor_role e), JStr (ev_action e), JStr (ev_target_type e),
       JStr (ev_target_id e), json_opt_str (ev_reason e), json_opt (ev_before e),
       json_opt (ev_after e), JStr (isoformat P (ev_created_at e)), JStr (ev_prev_hash e)]"

definition event_hash :: "platform \<Rightarrow> audit_event \<Rightarrow> string" where
  "event_hash P e = sha256 P (canonical_json (event_payload P e))"

fun comma_separated :: "string list \<Rightarrow> string" where
  "comma_separated [] = []"
| "comma_separated [x] = x"
| "comma_separated (x # y # xs) = x @ CHR '','' # comma_separated (y # xs)"

definition actor_roles_text :: "principal option \<Rightarrow> string option" where
  "actor_roles_text actor =
     (case actor of None \<Rightarrow> None
      | Some p \<Rightarrow> if p_roles p = [] then None else Some (comma_separated (sort (p_roles p))))"

definition find_stream :: "state \<Rightarrow> string \<Rightarrow> audit_stream option" where
  "find_stream s k = List.find (\<lambda>r. st_stream r = k) (streams s)"

text \<open>\<open>INSERT ... ON CONFLICT (stream) DO NOTHING\<close>.\<close>

definition ensure_stream :: "string \<Rightarrow> unit op" where
  "ensure_stream k =
     bind_op (guard (fits 255 k) DataError) (\<lambda>_.
       modify (\<lambda>s. if find_stream s k \<noteq> None then s
         else s\<lparr> streams := streams s @ [\<lparr> st_stream = k, st_last_seq = 0, st_last_hash = GENESIS_HASH \<rparr>] \<rparr>))"

text \<open>The widths of the text columns. The digests are 64 hexadecimal digits, \<open>before\<close> and \<open>after\<close> JSON that the backend
  makes, and \<open>seq\<close> counts the events of one stream; they are taken to fit.\<close>

definition event_fits :: "audit_event \<Rightarrow> bool" where
  "event_fits e \<longleftrightarrow>
     fits 255 (ev_stream e) \<and> fits_opt 255 (ev_actor_id e) \<and> fits_opt 255 (ev_actor_role e)
     \<and> fits 100 (ev_action e) \<and> fits 100 (ev_target_type e) \<and> fits 255 (ev_target_id e)
     \<and> fits_opt 2000 (ev_reason e) \<and> fits_opt 255 (ev_correlation_id e)"

text \<open>The flush: the event gets its \<open>bigserial\<close> id, \<open>(stream, seq)\<close> must be new, the tip row moves.\<close>

definition flush_event :: "audit_event \<Rightarrow> audit_event op" where
  "flush_event e =
     bind_op (read_state event_id_seq) (\<lambda>i.
     bind_op (modify (\<lambda>s. s\<lparr> event_id_seq := Suc i \<rparr>)) (\<lambda>_.
     bind_op (guard (event_fits e) DataError) (\<lambda>_.
     bind_op (read_state events) (\<lambda>evs.
     bind_op (guard (\<forall>x \<in> set evs. (ev_stream x, ev_seq x) \<noteq> (ev_stream e, ev_seq e)) IntegrityError) (\<lambda>_.
     bind_op (modify (\<lambda>s. s\<lparr> events := events s @ [e\<lparr> ev_id := i \<rparr>],
       streams := update_where (\<lambda>r. st_stream r = ev_stream e)
         (\<lambda>r. r\<lparr> st_last_seq := ev_seq e, st_last_hash := ev_hash e \<rparr>) (streams s) \<rparr>)) (\<lambda>_.
       ret (e\<lparr> ev_id := i \<rparr>)))))))"

definition append_event ::
  "env \<Rightarrow> string \<Rightarrow> principal option \<Rightarrow> string \<Rightarrow> string \<Rightarrow> string \<Rightarrow> string option \<Rightarrow> json option
     \<Rightarrow> json option \<Rightarrow> audit_event op" where
  "append_event E stream actor action target_type target_id reason before after =
     bind_op (ensure_stream stream) (\<lambda>_.
     bind_op (read_state (\<lambda>s. the (find_stream s stream))) (\<lambda>stream_row.
     bind_op (now E) (\<lambda>created_at.
       let e = \<lparr> ev_id = 0, ev_stream = stream, ev_seq = st_last_seq stream_row + 1,
                 ev_prev_hash = st_last_hash stream_row, ev_hash = [],
                 ev_actor_id = map_option p_user_id actor, ev_actor_role = actor_roles_text actor,
                 ev_action = action, ev_target_type = target_type, ev_target_id = target_id,
                 ev_reason = reason, ev_before = before, ev_after = after,
                 ev_correlation_id = correlation E, ev_created_at = created_at \<rparr>
       in flush_event (e\<lparr> ev_hash := event_hash (env_platform E) e \<rparr>))))"

definition record_audit ::
  "env \<Rightarrow> string \<Rightarrow> principal option \<Rightarrow> string \<Rightarrow> string \<Rightarrow> string \<Rightarrow> string option \<Rightarrow> json option
     \<Rightarrow> json option \<Rightarrow> audit_event op" where
  "record_audit E stream actor action target_type target_id reason before after s =
     (case append_event E stream actor action target_type target_id reason before after s of
        (Inl e, t) \<Rightarrow> (Inl e, t\<lparr> audit_write_failures := Suc (audit_write_failures t) \<rparr>)
      | (Inr ev, t) \<Rightarrow> (Inr ev, t))"

fun verify_from :: "platform \<Rightarrow> string \<Rightarrow> audit_event list \<Rightarrow> nat list" where
  "verify_from P expected_prev [] = []"
| "verify_from P expected_prev (e # es) =
     (if ev_prev_hash e \<noteq> expected_prev \<or> event_hash P e \<noteq> ev_hash e
      then ev_seq e # verify_from P (ev_hash e) es
      else verify_from P (ev_hash e) es)"

definition verify_stream :: "platform \<Rightarrow> audit_event list \<Rightarrow> nat list" where
  "verify_stream P es = verify_from P GENESIS_HASH es"

definition stream_events :: "state \<Rightarrow> string \<Rightarrow> audit_event list" where
  "stream_events s k = sort_key ev_seq (filter (\<lambda>e. ev_stream e = k) (events s))"

record broken_stream =
  bs_stream :: string
  bs_seqs :: "nat list"
  bs_reason :: string

definition check_stream :: "platform \<Rightarrow> state \<Rightarrow> audit_stream \<Rightarrow> broken_stream list" where
  "check_stream P s row =
     (let es = stream_events s (st_stream row)
      in if es = [] \<and> st_last_seq row = 0 \<and> st_last_hash row = GENESIS_HASH then []
         else if verify_stream P es \<noteq> [] then
           [\<lparr> bs_stream = st_stream row, bs_seqs = verify_stream P es, bs_reason = ''chain'' \<rparr>]
         else if es = [] \<or> ev_hash (last es) \<noteq> st_last_hash row then
           [\<lparr> bs_stream = st_stream row, bs_seqs = [st_last_seq row], bs_reason = ''tip_mismatch'' \<rparr>]
         else if length es \<noteq> st_last_seq row then
           [\<lparr> bs_stream = st_stream row, bs_seqs = map ev_seq es, bs_reason = ''count_mismatch'' \<rparr>]
         else [])"

definition orphan_streams :: "state \<Rightarrow> string list" where
  "orphan_streams s = sorted_list_of_set (ev_stream ` set (events s) - st_stream ` set (streams s))"

definition verify_audit :: "env \<Rightarrow> state \<Rightarrow> nat \<times> broken_stream list" where
  "verify_audit E s =
     (let rows = scanned E st_stream (streams s); orphans = orphan_streams s
      in (length rows + length orphans,
          concat (map (check_stream (env_platform E) s) rows)
          @ map (\<lambda>k. \<lparr> bs_stream = k, bs_seqs = map ev_seq (stream_events s k),
                       bs_reason = ''orphan_stream'' \<rparr>) orphans))"

section \<open>The chain invariant\<close>

fun chained :: "platform \<Rightarrow> string \<Rightarrow> nat \<Rightarrow> audit_event list \<Rightarrow> bool" where
  "chained P prev n [] \<longleftrightarrow> True"
| "chained P prev n (e # es) \<longleftrightarrow>
     ev_seq e = n \<and> ev_prev_hash e = prev \<and> ev_hash e = event_hash P e \<and> chained P (ev_hash e) (Suc n) es"

definition tip_hash :: "audit_event list \<Rightarrow> string" where
  "tip_hash es = (if es = [] then GENESIS_HASH else ev_hash (last es))"

definition audit_inv :: "platform \<Rightarrow> state \<Rightarrow> bool" where
  "audit_inv P s \<longleftrightarrow>
     distinct (map st_stream (streams s)) \<and> ev_stream ` set (events s) \<subseteq> st_stream ` set (streams s)
     \<and> (\<forall>row \<in> set (streams s). let es = filter (\<lambda>e. ev_stream e = st_stream row) (events s)
          in chained P GENESIS_HASH 1 es \<and> st_last_seq row = length es \<and> st_last_hash row = tip_hash es)"

lemma audit_inv_update [simp]:
  "audit_inv P (s\<lparr> cases := cs \<rparr>) = audit_inv P s" "audit_inv P (s\<lparr> case_notes := ns \<rparr>) = audit_inv P s"
  "audit_inv P (s\<lparr> alerts := as \<rparr>) = audit_inv P s" "audit_inv P (s\<lparr> links := ls \<rparr>) = audit_inv P s"
  "audit_inv P (s\<lparr> groupings := gs \<rparr>) = audit_inv P s" "audit_inv P (s\<lparr> ticks := n \<rparr>) = audit_inv P s"
  "audit_inv P (s\<lparr> uuids := n \<rparr>) = audit_inv P s" "audit_inv P (s\<lparr> human_ref_seq := n \<rparr>) = audit_inv P s"
  "audit_inv P (s\<lparr> decisions_total := ms \<rparr>) = audit_inv P s"
  "audit_inv P (s\<lparr> ingested_created := n \<rparr>) = audit_inv P s"
  "audit_inv P (s\<lparr> ingested_duplicate := n \<rparr>) = audit_inv P s"
  "audit_inv P (s\<lparr> audit_write_failures := n \<rparr>) = audit_inv P s"
  "audit_inv P (rollback s u) = audit_inv P s"
  by (simp_all add: audit_inv_def)

lemma chained_append:
  "chained P prev n (es @ [e]) \<longleftrightarrow> chained P prev n es \<and> ev_seq e = n + length es
     \<and> ev_prev_hash e = (if es = [] then prev else ev_hash (last es)) \<and> ev_hash e = event_hash P e"
  by (induction es arbitrary: prev n) auto

lemma chained_seqs: "chained P prev n es \<Longrightarrow> map ev_seq es = [n..<n + length es]"
  by (induction es arbitrary: prev n) (auto simp: upt_conv_Cons simp del: upt_Suc)

lemma chained_verify: "chained P prev n es \<Longrightarrow> verify_from P prev es = []"
  by (induction es arbitrary: prev n) auto

lemma stream_events_chained:
  assumes "audit_inv P s"
  shows "stream_events s k = filter (\<lambda>e. ev_stream e = k) (events s)"
    "chained P GENESIS_HASH 1 (stream_events s k)"
proof -
  have c: "chained P GENESIS_HASH 1 (filter (\<lambda>e. ev_stream e = k) (events s))"
  proof (cases "k \<in> st_stream ` set (streams s)")
    case True
    then show ?thesis using assms by (auto simp: audit_inv_def Let_def)
  next
    case False
    then have "filter (\<lambda>e. ev_stream e = k) (events s) = []"
      using assms by (auto simp: audit_inv_def filter_empty_conv)
    then show ?thesis by simp
  qed
  from chained_seqs [OF c] have "sorted (map ev_seq (filter (\<lambda>e. ev_stream e = k) (events s)))"
    by (simp del: upt_Suc)
  then show "stream_events s k = filter (\<lambda>e. ev_stream e = k) (events s)"
    by (simp add: stream_events_def sort_key_id_if_sorted)
  with c show "chained P GENESIS_HASH 1 (stream_events s k)" by simp
qed

lemma stream_events_empty:
  assumes "k \<notin> ev_stream ` set (events s)"
  shows "stream_events s k = []"
proof -
  have "filter (\<lambda>e. ev_stream e = k) (events s) = []" using assms by (auto simp: filter_empty_conv)
  then show ?thesis by (simp add: stream_events_def)
qed

lemma find_stream_Some: "find_stream s k = Some r \<Longrightarrow> r \<in> set (streams s) \<and> st_stream r = k"
  by (auto simp: find_stream_def find_Some_iff)

lemma find_stream_None: "find_stream s k = None \<longleftrightarrow> k \<notin> st_stream ` set (streams s)"
  by (auto simp: find_stream_def find_None_iff)

lemma ensure_stream_inv:
  assumes "ensure_stream k s = (Inr u, t)" and "audit_inv P s"
  shows "audit_inv P t \<and> (\<exists>r. find_stream t k = Some r) \<and> fits 255 k
    \<and> t = s\<lparr> streams := streams t \<rparr>"
proof (cases "find_stream s k = None")
  case True
  then have "t = s\<lparr> streams := streams s @ [\<lparr> st_stream = k, st_last_seq = 0, st_last_hash = GENESIS_HASH \<rparr>] \<rparr>"
    and "fits 255 k"
    using assms(1) by (auto simp: ensure_stream_def op_simps)
  moreover from True assms(2) have "filter (\<lambda>e. ev_stream e = k) (events s) = []"
    by (auto simp: find_stream_None audit_inv_def filter_empty_conv)
  ultimately show ?thesis
    using assms(2) True
    by (auto simp: audit_inv_def Let_def tip_hash_def find_stream_def find_None_iff find_Some_iff
        nth_append intro!: exI [of _ "length (streams s)"])
next
  case False
  with assms show ?thesis by (auto simp: ensure_stream_def op_simps)
qed

text \<open>What a successful append does, field by field.\<close>

lemma flush_event_inv:
  assumes "flush_event e s = (Inr e', t)" and "audit_inv P s" and "find_stream s (ev_stream e) = Some row"
    and "ev_seq e = st_last_seq row + 1" and "ev_prev_hash e = st_last_hash row" and "ev_hash e = event_hash P e"
  shows "audit_inv P t \<and> e' = e\<lparr> ev_id := event_id_seq s \<rparr> \<and> events t = events s @ [e'] \<and> event_fits e
    \<and> t = s\<lparr> events := events t, streams := streams t, event_id_seq := event_id_seq t \<rparr>"
proof -
  let ?k = "ev_stream e" and ?move = "\<lambda>r. r\<lparr> st_last_seq := ev_seq e, st_last_hash := ev_hash e \<rparr>"
  from assms(1) have e': "e' = e\<lparr> ev_id := event_id_seq s \<rparr>" and ok: "event_fits e"
    and t: "t = s\<lparr> event_id_seq := Suc (event_id_seq s), events := events s @ [e'],
      streams := update_where (\<lambda>r. st_stream r = ?k) ?move (streams s) \<rparr>"
    by (auto simp: flush_event_def op_simps)
  have [simp]: "ev_stream e' = ?k" "ev_seq e' = ev_seq e" "ev_hash e' = ev_hash e" "ev_prev_hash e' = ev_prev_hash e"
    "event_hash P e' = event_hash P e"
    by (simp_all add: e' event_hash_def event_payload_def)
  have row: "row \<in> set (streams s)" "st_stream row = ?k" using find_stream_Some [OF assms(3)] by auto
  let ?es = "filter (\<lambda>x. ev_stream x = ?k) (events s)"
  have es: "chained P GENESIS_HASH 1 ?es" "st_last_seq row = length ?es" "st_last_hash row = tip_hash ?es"
    using assms(2) row by (auto simp: audit_inv_def Let_def)
  have "chained P GENESIS_HASH 1 (?es @ [e'])"
    using es assms(4-6) by (simp add: chained_append tip_hash_def)
  moreover have "map st_stream (streams t) = map st_stream (streams s)"
    by (simp add: t map_update_where)
  moreover from this have "st_stream ` set (streams t) = st_stream ` set (streams s)"
    by (metis set_map)
  moreover have "?k \<in> st_stream ` set (streams s)" using row by force
  moreover have "ev_seq e = Suc (length ?es)" using assms(4) es(2) by simp
  ultimately have "audit_inv P t"
    using assms(2) unfolding audit_inv_def Let_def
    by (auto simp: t set_update_where tip_hash_def)
  with e' ok t show ?thesis by simp
qed

lemma append_event_inv:
  assumes "append_event E k actor action tt tid reason before after s = (Inr e, t)"
    and "audit_inv (env_platform E) s"
  shows "audit_inv (env_platform E) t \<and> events t = events s @ [e] \<and> ev_stream e = k
    \<and> ev_actor_id e = map_option p_user_id actor \<and> ev_actor_role e = actor_roles_text actor
    \<and> ev_action e = action \<and> ev_target_type e = tt \<and> ev_target_id e = tid \<and> ev_reason e = reason
    \<and> ev_before e = before \<and> ev_after e = after \<and> event_fits e
    \<and> t = s\<lparr> events := events t, streams := streams t, event_id_seq := event_id_seq t, ticks := Suc (ticks s) \<rparr>"
proof -
  from assms(1) obtain s1 u where s1: "ensure_stream k s = (Inr u, s1)"
    and rest: "flush_event e0 (s1\<lparr> ticks := Suc (ticks s1) \<rparr>) = (Inr e, t)"
    if "e0 = (let row = the (find_stream s1 k); e1 = \<lparr> ev_id = 0, ev_stream = k, ev_seq = st_last_seq row + 1,
                 ev_prev_hash = st_last_hash row, ev_hash = [],
                 ev_actor_id = map_option p_user_id actor, ev_actor_role = actor_roles_text actor,
                 ev_action = action, ev_target_type = tt, ev_target_id = tid,
                 ev_reason = reason, ev_before = before, ev_after = after,
                 ev_correlation_id = correlation E, ev_created_at = utcnow E (ticks s1) \<rparr>
            in e1\<lparr> ev_hash := event_hash (env_platform E) e1 \<rparr>)" for e0
    by (auto simp: append_event_def op_simps Let_def)
  from ensure_stream_inv [OF s1 assms(2)] obtain row where inv1: "audit_inv (env_platform E) s1"
    and row: "find_stream s1 k = Some row" and frame: "s1 = s\<lparr> streams := streams s1 \<rparr>" by blast
  define e1 where "e1 = \<lparr> ev_id = 0, ev_stream = k, ev_seq = st_last_seq row + 1,
                 ev_prev_hash = st_last_hash row, ev_hash = [],
                 ev_actor_id = map_option p_user_id actor, ev_actor_role = actor_roles_text actor,
                 ev_action = action, ev_target_type = tt, ev_target_id = tid,
                 ev_reason = reason, ev_before = before, ev_after = after,
                 ev_correlation_id = correlation E, ev_created_at = utcnow E (ticks s1) \<rparr>"
  define e0 where "e0 = e1\<lparr> ev_hash := event_hash (env_platform E) e1 \<rparr>"
  have fl: "flush_event e0 (s1\<lparr> ticks := Suc (ticks s1) \<rparr>) = (Inr e, t)"
    by (rule rest) (simp add: e0_def e1_def row Let_def)
  define s2 where "s2 = s1\<lparr> ticks := Suc (ticks s1) \<rparr>"
  have s2: "s2 = s\<lparr> streams := streams s1, ticks := Suc (ticks s) \<rparr>"
    unfolding s2_def by (subst (1 2) frame) simp
  have "audit_inv (env_platform E) s2" using inv1 by (simp add: audit_inv_def s2_def)
  moreover have "find_stream s2 (ev_stream e0) = Some row"
    using row by (simp add: find_stream_def e0_def e1_def s2_def)
  moreover have "ev_seq e0 = st_last_seq row + 1" "ev_prev_hash e0 = st_last_hash row"
    "ev_hash e0 = event_hash (env_platform E) e0"
    by (simp_all add: e0_def e1_def event_hash_def event_payload_def)
  ultimately have res: "audit_inv (env_platform E) t \<and> e = e0\<lparr> ev_id := event_id_seq s2 \<rparr>
      \<and> events t = events s2 @ [e] \<and> event_fits e0
      \<and> t = s2\<lparr> events := events t, streams := streams t, event_id_seq := event_id_seq t \<rparr>"
    by (rule flush_event_inv [OF fl [folded s2_def]])
  have s1s: "events s2 = events s" by (simp add: s2)
  have "t = s2\<lparr> events := events t, streams := streams t, event_id_seq := event_id_seq t \<rparr>"
    using res by blast
  also have "\<dots> = s\<lparr> events := events t, streams := streams t, event_id_seq := event_id_seq t, ticks := Suc (ticks s) \<rparr>"
    by (simp add: s2)
  finally have "t = s\<lparr> events := events t, streams := streams t, event_id_seq := event_id_seq t, ticks := Suc (ticks s) \<rparr>" .
  moreover have "event_fits e" using res by (auto simp: event_fits_def)
  ultimately show ?thesis using res s1s by (simp add: e0_def e1_def)
qed

lemma record_audit_Inr:
  assumes "record_audit E k actor action tt tid reason before after s = (Inr e, t)"
  shows "append_event E k actor action tt tid reason before after s = (Inr e, t)"
  using assms by (auto simp: record_audit_def split: prod.splits sum.splits)

lemmas record_audit_inv = append_event_inv [OF record_audit_Inr]

lemma record_audit_frame:
  assumes "record_audit E k actor action tt tid reason before after s = (Inr e, t)"
    and "audit_inv (env_platform E) s"
  shows "users t = users s" "alerts t = alerts s" "cases t = cases s" "links t = links s"
    "case_notes t = case_notes s" "groupings t = groupings s" "human_ref_seq t = human_ref_seq s"
    "uuids t = uuids s" "events t = events s @ [e]" "audit_inv (env_platform E) t"
  using record_audit_inv [OF assms]
  by (metis state.surjective state.select_convs state.update_convs)+

lemma record_audit_streams:
  assumes "record_audit E k actor action tt tid reason before after s = (Inr e, t)"
    and "audit_inv (env_platform E) s"
  shows "stream_events t k' = (if k' = k then stream_events s k @ [e] else stream_events s k')"
proof -
  have t: "audit_inv (env_platform E) t" "events t = events s @ [e]" "ev_stream e = k"
    using record_audit_inv [OF assms] by blast+
  show ?thesis
    by (simp add: stream_events_chained(1) [OF t(1)] stream_events_chained(1) [OF assms(2)] t(2,3))
qed

text \<open>An append fails only on a value that does not fit its column.\<close>

lemma record_audit_ok:
  assumes "audit_inv (env_platform E) s" and "fits 255 k" and "fits_opt 255 (map_option p_user_id actor)"
    and "fits_opt 255 (actor_roles_text actor)" and "fits 100 action" and "fits 100 tt" and "fits 255 tid"
    and "fits_opt 2000 reason" and "fits_opt 255 (correlation E)"
  shows "\<exists>e t. record_audit E k actor action tt tid reason before after s = (Inr e, t)"
proof -
  obtain s1 where s1: "ensure_stream k s = (Inr (), s1)"
    using assms(2) by (simp add: ensure_stream_def run_simps)
  from ensure_stream_inv [OF s1 assms(1)] obtain row where inv1: "audit_inv (env_platform E) s1"
    and row: "find_stream s1 k = Some row" by blast
  have "ev_seq x \<noteq> st_last_seq row + 1" if "x \<in> set (events s1)" "ev_stream x = k" for x
  proof -
    let ?es = "filter (\<lambda>e. ev_stream e = k) (events s1)"
    have "ev_seq x \<in> set (map ev_seq ?es)" using that by auto
    moreover have "map ev_seq ?es = [1..<1 + length ?es]"
      using chained_seqs [OF stream_events_chained(2) [OF inv1, of k]] stream_events_chained(1) [OF inv1, of k]
      by (simp only:)
    ultimately have "ev_seq x \<in> {1..<1 + length ?es}" by (simp only: set_upt)
    moreover have "st_last_seq row = length ?es"
      using inv1 find_stream_Some [OF row] by (auto simp: audit_inv_def Let_def)
    ultimately show ?thesis by simp
  qed
  then show ?thesis
    using assms(2-) row
    by (auto simp: record_audit_def append_event_def flush_event_def run_simps s1 event_fits_def Let_def)
qed

section \<open>Append-only logs\<close>

text \<open>What a service may assume of the log it writes to.\<close>

locale append_log =
  fixes invar :: "'s \<Rightarrow> bool"
    and log_of :: "'s \<Rightarrow> 'k \<Rightarrow> 'e list"
    and append :: "'k \<Rightarrow> 'c \<Rightarrow> 's \<Rightarrow> 'e result \<times> 's"
  assumes append_keeps: "invar s \<Longrightarrow> append k c s = (Inr e, t) \<Longrightarrow> invar t"
    and append_adds: "invar s \<Longrightarrow> append k c s = (Inr e, t) \<Longrightarrow>
      log_of t k' = (if k' = k then log_of s k @ [e] else log_of s k')"
begin

inductive appended :: "'s \<Rightarrow> ('k \<times> 'e) list \<Rightarrow> 's \<Rightarrow> bool" where
  none: "appended s [] s"
| one: "appended s kes t \<Longrightarrow> append k c t = (Inr e, u) \<Longrightarrow> appended s (kes @ [(k, e)]) u"

lemma appended_log:
  "appended s kes t \<Longrightarrow> invar s \<Longrightarrow>
     invar t \<and> log_of t k = log_of s k @ map snd (filter (\<lambda>(k', e). k' = k) kes)"
  by (induction rule: appended.induct) (auto dest: append_keeps append_adds [where k' = k])

lemma appended_prefix: "appended s kes t \<Longrightarrow> invar s \<Longrightarrow> prefix (log_of s k) (log_of t k)"
  using appended_log by (simp add: prefix_def)

end

record audit_call =
  ac_actor :: "principal option"
  ac_action :: string
  ac_target_type :: string
  ac_target_id :: string
  ac_reason :: "string option"
  ac_before :: "json option"
  ac_after :: "json option"

definition audit_append :: "env \<Rightarrow> string \<Rightarrow> audit_call \<Rightarrow> audit_event op" where
  "audit_append E k c = record_audit E k (ac_actor c) (ac_action c) (ac_target_type c) (ac_target_id c)
     (ac_reason c) (ac_before c) (ac_after c)"

interpretation audit: append_log "audit_inv (env_platform E)" stream_events "audit_append E" for E :: env
proof unfold_locales
  fix s t k c e assume inv: "audit_inv (env_platform E) s" and ok: "audit_append E k c s = (Inr e, t)"
  show "audit_inv (env_platform E) t"
    using record_audit_inv [OF ok [unfolded audit_append_def] inv] by blast
  show "stream_events t k' = (if k' = k then stream_events s k @ [e] else stream_events s k')" for k'
    by (rule record_audit_streams [OF ok [unfolded audit_append_def] inv])
qed

section \<open>Tampering\<close>

text \<open>The part of an event that its hash covers: all columns but the row id and the correlation id, the
  JSON columns up to the order of their keys.\<close>

definition covered :: "audit_event \<Rightarrow> audit_event" where
  "covered e = e\<lparr> ev_id := 0, ev_correlation_id := None, ev_before := map_option sort_keys (ev_before e),
     ev_after := map_option sort_keys (ev_after e) \<rparr>"

definition wf_event :: "audit_event \<Rightarrow> bool" where
  "wf_event e \<longleftrightarrow> (\<forall>j. ev_before e = Some j \<or> ev_after e = Some j \<longrightarrow> wf_json j \<and> j \<noteq> JNull)"

definition payload_text :: "platform \<Rightarrow> audit_event \<Rightarrow> string" where
  "payload_text P e = canonical_json (event_payload P e)"

lemma sort_keys_JNull [simp]: "sort_keys j = JNull \<longleftrightarrow> j = JNull"
  by (cases j) auto

lemma payload_text_inject:
  assumes "payload_text P e = payload_text P f" and "wf_event e" and "wf_event f" and "inj (isoformat P)"
    and "ev_hash e = ev_hash f"
  shows "covered e = covered f"
proof -
  have wf: "wf_json (event_payload P x)" if "wf_event x" for x
    using that by (auto simp: event_payload_def wf_event_def json_opt_str_def json_opt_def split: option.split)
  have keys: "sort_keys (event_payload P e) = sort_keys (event_payload P f)"
    using assms(1) canonical_json_inject [OF wf [OF assms(2)] wf [OF assms(3)]] by (simp add: payload_text_def)
  have opt_str: "sort_keys (json_opt_str x) = sort_keys (json_opt_str y) \<longleftrightarrow> x = y" for x y
    by (simp add: json_opt_str_def split: option.splits)
  have opt: "map_option sort_keys x = map_option sort_keys y"
    if "sort_keys (json_opt x) = sort_keys (json_opt y)" "x \<noteq> Some JNull" "y \<noteq> Some JNull" for x y
    using that by (cases x; cases y) (simp_all add: json_opt_def sort_keys_JNull [of "the _"] eq_commute [of JNull])
  have "ev_stream e = ev_stream f" "ev_seq e = ev_seq f" "ev_actor_id e = ev_actor_id f"
    "ev_actor_role e = ev_actor_role f" "ev_action e = ev_action f" "ev_target_type e = ev_target_type f"
    "ev_target_id e = ev_target_id f" "ev_reason e = ev_reason f" "ev_prev_hash e = ev_prev_hash f"
    "isoformat P (ev_created_at e) = isoformat P (ev_created_at f)"
    "sort_keys (json_opt (ev_before e)) = sort_keys (json_opt (ev_before f))"
    "sort_keys (json_opt (ev_after e)) = sort_keys (json_opt (ev_after f))"
    using keys by (simp_all add: event_payload_def opt_str)
  moreover have "map_option sort_keys (ev_before e) = map_option sort_keys (ev_before f)"
    "map_option sort_keys (ev_after e) = map_option sort_keys (ev_after f)"
    using calculation(11,12) assms(2,3) by (auto intro!: opt simp: wf_event_def)
  ultimately show ?thesis
    using assms(5) injD [OF assms(4)] by (simp add: covered_def)
qed

lemma verify_from_append:
  "verify_from P prev (es @ [e]) = [] \<longleftrightarrow> verify_from P prev es = []
     \<and> ev_prev_hash e = (if es = [] then prev else ev_hash (last es)) \<and> event_hash P e = ev_hash e"
  by (induction es arbitrary: prev) auto

lemma same_tip_same_chain:
  assumes "verify_stream P xs = []" and "verify_stream P ys = []" and "length xs = length ys"
    and "tip_hash xs = tip_hash ys" and "inj_on (sha256 P) (payload_text P ` (set xs \<union> set ys))"
    and "inj (isoformat P)" and "\<forall>e \<in> set xs \<union> set ys. wf_event e"
  shows "map covered xs = map covered ys"
  using assms
proof (induction xs arbitrary: ys rule: rev_induct)
  case (snoc x xs)
  from snoc.prems(3) obtain ys' y where ys: "ys = ys' @ [y]" by (cases ys rule: rev_cases) auto
  note v = snoc.prems(1,2) [unfolded ys verify_stream_def verify_from_append]
  have hash: "ev_hash x = ev_hash y" using snoc.prems(4) by (simp add: ys tip_hash_def)
  have "sha256 P (payload_text P x) = sha256 P (payload_text P y)"
    using v hash by (simp add: event_hash_def payload_text_def)
  moreover have "payload_text P x \<in> payload_text P ` (set (xs @ [x]) \<union> set ys)"
    "payload_text P y \<in> payload_text P ` (set (xs @ [x]) \<union> set ys)" by (simp_all add: ys)
  ultimately have "payload_text P x = payload_text P y" using snoc.prems(5) by (meson inj_onD)
  then have cov: "covered x = covered y"
    using payload_text_inject [OF _ _ _ snoc.prems(6) hash] snoc.prems(7) by (simp add: ys)
  then have "ev_prev_hash (covered x) = ev_prev_hash (covered y)" by simp
  then have "ev_prev_hash x = ev_prev_hash y" by (simp add: covered_def)
  then have "tip_hash xs = tip_hash ys'" using v by (simp add: tip_hash_def split: if_splits)
  moreover have "inj_on (sha256 P) (payload_text P ` (set xs \<union> set ys'))"
    by (rule inj_on_subset [OF snoc.prems(5)]) (auto simp: ys)
  ultimately have "map covered xs = map covered ys'"
    using snoc.IH [of ys'] v snoc.prems(3,6,7) by (simp add: ys verify_stream_def)
  with cov show ?case by (simp add: ys)
qed simp

lemma verify_clean:
  assumes "snd (verify_audit E t) = []"
  shows "row \<in> set (streams t) \<Longrightarrow> verify_stream (env_platform E) (stream_events t (st_stream row)) = []
      \<and> length (stream_events t (st_stream row)) = st_last_seq row
      \<and> tip_hash (stream_events t (st_stream row)) = st_last_hash row"
    and "k \<notin> st_stream ` set (streams t) \<Longrightarrow> stream_events t k = []"
proof -
  have rows: "\<forall>row \<in> set (streams t). check_stream (env_platform E) t row = []"
    and orphans: "orphan_streams t = []"
    using assms by (auto simp: verify_audit_def Let_def)
  {
    assume "row \<in> set (streams t)"
    with rows have "check_stream (env_platform E) t row = []" by blast
    then show "verify_stream (env_platform E) (stream_events t (st_stream row)) = []
      \<and> length (stream_events t (st_stream row)) = st_last_seq row
      \<and> tip_hash (stream_events t (st_stream row)) = st_last_hash row"
      by (auto simp: check_stream_def Let_def tip_hash_def verify_stream_def split: if_splits)
  }
  assume "k \<notin> st_stream ` set (streams t)"
  moreover have "ev_stream ` set (events t) - st_stream ` set (streams t) = {}"
    using orphans by (simp add: orphan_streams_def)
  ultimately show "stream_events t k = []" by (intro stream_events_empty) auto
qed

lemma audit_inv_verifies:
  assumes "audit_inv (env_platform E) s"
  shows "snd (verify_audit E s) = []"
proof -
  have "check_stream (env_platform E) s row = []" if "row \<in> set (streams s)" for row
  proof -
    let ?es = "stream_events s (st_stream row)"
    have "verify_stream (env_platform E) ?es = []"
      using chained_verify [OF stream_events_chained(2) [OF assms]] by (simp add: verify_stream_def)
    moreover have "st_last_seq row = length ?es" "st_last_hash row = tip_hash ?es"
      using assms that by (auto simp: audit_inv_def Let_def stream_events_chained(1) [OF assms])
    ultimately show ?thesis by (simp add: check_stream_def Let_def tip_hash_def)
  qed
  moreover have "orphan_streams s = []"
  proof -
    have "ev_stream ` set (events s) - st_stream ` set (streams s) = {}"
      using assms by (auto simp: audit_inv_def)
    then show ?thesis by (simp add: orphan_streams_def)
  qed
  ultimately show ?thesis by (simp add: verify_audit_def Let_def)
qed

section \<open>Properties\<close>

text \<open>C13: A successful append keeps every chain intact and puts the event at the end of its stream,
  with the next sequence number, the hash of its predecessor and the role names of the actor sorted;
  the other streams and tables stay as they are.\<close>

theorem record_audit_appends:
  assumes "audit_inv (env_platform E) s"
    and "record_audit E k actor action tt tid reason before after s = (Inr e, t)"
  shows "audit_inv (env_platform E) t
    \<and> stream_events t k = stream_events s k @ [e] \<and> (\<forall>k'. k' \<noteq> k \<longrightarrow> stream_events t k' = stream_events s k')
    \<and> ev_seq e = length (stream_events s k) + 1 \<and> ev_prev_hash e = tip_hash (stream_events s k)
    \<and> ev_actor_id e = map_option p_user_id actor \<and> ev_actor_role e = actor_roles_text actor
    \<and> cases t = cases s \<and> case_notes t = case_notes s \<and> alerts t = alerts s \<and> links t = links s"
proof -
  note inv = record_audit_inv [OF assms(2,1)] and str = record_audit_streams [OF assms(2,1)]
  have "chained (env_platform E) GENESIS_HASH 1 (stream_events s k @ [e])"
    using stream_events_chained(2) [of "env_platform E" t k] inv str [of k] by simp
  then have "ev_seq e = length (stream_events s k) + 1" "ev_prev_hash e = tip_hash (stream_events s k)"
    by (simp_all add: chained_append tip_hash_def)
  then show ?thesis using inv str record_audit_frame [OF assms(2,1)] by simp
qed

text \<open>The verification endpoint reports nothing on a log that only the backend has written.\<close>

theorem verify_audit_accepts:
  assumes "audit_inv (env_platform E) s"
  shows "snd (verify_audit E s) = []"
  using assms by (rule audit_inv_verifies)

text \<open>C5: Tampering shows. Let the rows of \<open>audit_events\<close> be replaced by any others while the tip rows
  stay. If the endpoint then reports nothing, every stream holds the same events as before in every
  column the hash covers: an edit, an insertion, a deletion, a truncation or a reordering is
  reported, unless SHA-256 collides on two payloads of the two logs.\<close>

theorem verify_audit_tamper_evident:
  assumes "audit_inv (env_platform E) s" and "streams t = streams s" and "snd (verify_audit E t) = []"
    and "inj_on (sha256 (env_platform E)) (payload_text (env_platform E) ` (set (events s) \<union> set (events t)))"
    and "inj (isoformat (env_platform E))" and "\<forall>e \<in> set (events s) \<union> set (events t). wf_event e"
  shows "map covered (stream_events t k) = map covered (stream_events s k)"
proof (cases "k \<in> st_stream ` set (streams s)")
  case True
  then obtain row where row: "row \<in> set (streams s)" "st_stream row = k" by auto
  let ?xs = "stream_events t k" and ?ys = "stream_events s k" and ?P = "env_platform E"
  from verify_clean(1) [OF assms(3)] row assms(2)
  have x: "verify_stream ?P ?xs = []" "length ?xs = st_last_seq row" "tip_hash ?xs = st_last_hash row" by auto
  have y: "verify_stream ?P ?ys = []" "st_last_seq row = length ?ys" "st_last_hash row = tip_hash ?ys"
    using chained_verify [OF stream_events_chained(2) [OF assms(1)]] assms(1) row
    by (auto simp: verify_stream_def audit_inv_def Let_def stream_events_chained(1) [OF assms(1)])
  have sub: "set ?xs \<subseteq> set (events t)" "set ?ys \<subseteq> set (events s)" by (auto simp: stream_events_def)
  show ?thesis
  proof (rule same_tip_same_chain)
    show "inj_on (sha256 ?P) (payload_text ?P ` (set ?xs \<union> set ?ys))"
      by (rule inj_on_subset [OF assms(4)]) (use sub in auto)
    show "\<forall>e \<in> set ?xs \<union> set ?ys. wf_event e" using assms(6) sub by blast
  qed (use x y assms(5) in simp_all)
next
  case False
  then have "stream_events t k = []" using verify_clean(2) [OF assms(3)] assms(2) by simp
  moreover have "stream_events s k = []"
    using False assms(1) by (intro stream_events_empty) (auto simp: audit_inv_def)
  ultimately show ?thesis by simp
qed

section \<open>A concrete log\<close>

lemma audit_inv_empty: "audit_inv P empty_state"
  by (simp add: audit_inv_def empty_state_def)

lemma sample_append:
  "\<exists>e s. record_audit sample_env ''case:1'' None ''case.review_flagged'' ''case'' ''1'' None None None empty_state
     = (Inr e, s)"
  using audit_inv_empty
  by (rule record_audit_ok) (simp_all add: fits_def fits_opt_def actor_roles_text_def sample_env_def)

theorem record_audit_appends_witness:
  "\<exists>e s. record_audit sample_env ''case:1'' None ''case.review_flagged'' ''case'' ''1'' None None None empty_state
     = (Inr e, s) \<and> ev_seq e = 1 \<and> ev_prev_hash e = GENESIS_HASH \<and> stream_events s ''case:1'' = [e]"
proof -
  obtain e s where s: "record_audit sample_env ''case:1'' None ''case.review_flagged'' ''case'' ''1'' None None None
      empty_state = (Inr e, s)" using sample_append by blast
  have "stream_events empty_state k = []" for k by (simp add: stream_events_def empty_state_def)
  with record_audit_appends [OF audit_inv_empty s] s show ?thesis by (auto simp: tip_hash_def)
qed

theorem verify_audit_accepts_witness:
  "\<exists>s. events s \<noteq> [] \<and> snd (verify_audit sample_env s) = []"
proof -
  obtain e s where "record_audit sample_env ''case:1'' None ''case.review_flagged'' ''case'' ''1'' None None None
      empty_state = (Inr e, s)" using sample_append by blast
  from record_audit_inv [OF this audit_inv_empty] have "audit_inv (env_platform sample_env) s" "events s \<noteq> []"
    by auto
  with verify_audit_accepts show ?thesis by blast
qed

theorem verify_audit_tamper_evident_witness:
  "\<exists>s t. events t \<noteq> events s \<and> events s \<noteq> [] \<and> snd (verify_audit sample_env t) = []
     \<and> map covered (stream_events t ''case:1'') = map covered (stream_events s ''case:1'')"
proof -
  obtain e s where s: "record_audit sample_env ''case:1'' None ''case.review_flagged'' ''case'' ''1'' None None None
      empty_state = (Inr e, s)" using sample_append by blast
  note inv = record_audit_inv [OF s audit_inv_empty]
  have e: "events s = [e]" "ev_before e = None" "ev_after e = None" and inv_s: "audit_inv (env_platform sample_env) s"
    using inv by (auto simp: empty_state_def)
  define e' where "e' = e\<lparr> ev_id := Suc (ev_id e) \<rparr>"
  define t where "t = s\<lparr> events := [e'] \<rparr>"
  have e': "ev_stream e' = ev_stream e" "ev_seq e' = ev_seq e" "ev_hash e' = ev_hash e" "ev_prev_hash e' = ev_prev_hash e"
    "event_hash P e' = event_hash P e" "ev_before e' = None" "ev_after e' = None" for P
    by (simp_all add: e'_def event_hash_def event_payload_def e(2,3))
  have inv_t: "audit_inv (env_platform sample_env) t"
    using inv_s by (auto simp: audit_inv_def t_def e(1) e' Let_def tip_hash_def split: if_splits)
  have "inj (sha256 (env_platform sample_env))" "inj (isoformat (env_platform sample_env))"
    by (simp_all add: sample_env_def sample_platform_def inj_def int_text_inject)
  moreover have "wf_event e" "wf_event e'" using e(2,3) e'(6,7) by (simp_all add: wf_event_def)
  ultimately have "map covered (stream_events t ''case:1'') = map covered (stream_events s ''case:1'')"
    using audit_inv_verifies [OF inv_t] inv_s
    by (intro verify_audit_tamper_evident [where E = sample_env])
      (simp_all add: t_def e(1) inj_on_def inj_def)
  moreover have "events t \<noteq> events s"
  proof
    assume "events t = events s"
    then have "ev_id e' = ev_id e" by (simp add: t_def e(1))
    then show False by (simp add: e'_def)
  qed
  ultimately show ?thesis using audit_inv_verifies [OF inv_t] e(1) by (intro exI [of _ s] exI [of _ t]) simp
qed

end
