(* ===== verification/CaseService.thy ===== *)
theory CaseService
  imports Lifecycle AuditLog
begin

text \<open>
  \<open>app/cases/service.py\<close> and the case endpoints of \<open>app/cases/routes.py\<close>: the detail view and the
  four mutations, each with its audit event, and the endpoints that commit them or turn the service's
  exceptions into HTTP errors.

  \<open>case_ok\<close> is the well-formedness of a case row. The lemmas ending in \<open>_Inr\<close> give the whole effect of
  a successful mutation on the tables.
\<close>

section \<open>Definitions\<close>

definition case_stream :: "uuid \<Rightarrow> string" where
  "case_stream i = ''case:'' @ i"

definition lock_case :: "uuid \<Rightarrow> case_row op" where
  "lock_case i =
     bind_op (read_state (\<lambda>s. find_case s i)) (\<lambda>r.
       case r of None \<Rightarrow> raise_exn (CaseNotFound i) | Some c \<Rightarrow> ret c)"

definition status_json :: "string \<Rightarrow> string option \<Rightarrow> json" where
  "status_json st disp = JObj [(''status'', JStr st), (''disposition'', json_opt_str disp)]"

definition apply_move :: "env \<Rightarrow> case_row \<Rightarrow> string \<Rightarrow> string option \<Rightarrow> case_row op" where
  "apply_move E c target disposition =
     (if target = ''Closed'' then
        bind_op (now E) (\<lambda>t. ret (c\<lparr> c_status := target, c_disposition := disposition, c_closed_at := Some t \<rparr>))
      else if c_status c = ''Closed'' \<and> target = ''In Progress'' then
        ret (c\<lparr> c_status := target, c_closed_at := None, c_disposition := None \<rparr>)
      else ret (c\<lparr> c_status := target \<rparr>))"

text \<open>The audit statements of \<open>record_audit\<close> flush the changed row first: a disposition that its column cannot hold
  fails there and counts as a failed audit write.\<close>

definition flush_disposition :: "string option \<Rightarrow> unit op" where
  "flush_disposition d s =
     (if fits_opt 64 d then (Inr (), s) else (Inl DataError, s\<lparr> audit_write_failures := Suc (audit_write_failures s) \<rparr>))"

definition transition_case ::
  "env \<Rightarrow> uuid \<Rightarrow> string \<Rightarrow> string option \<Rightarrow> string option \<Rightarrow> principal \<Rightarrow> int option \<Rightarrow> case_row op" where
  "transition_case E case_id target reason disposition actor expected_version =
     bind_op (lock_case case_id) (\<lambda>c.
     bind_op (guard (expected_version = None \<or> expected_version = Some (c_version c)) (StaleCaseVersion case_id)) (\<lambda>_.
     bind_op (lift_result (validate_transition (c_status c) target disposition (dispositions (env_config E)))) (\<lambda>_.
       let reopening = (c_status c = ''Closed'' \<and> target = ''In Progress'')
       in bind_op (guard (\<not> (reopening \<and> reason = None)) (TransitionError ''reopen_requires_reason'')) (\<lambda>_.
       let before = status_json (c_status c) (c_disposition c)
       in bind_op (apply_move E c target disposition) (\<lambda>c1.
          let c2 = c1\<lparr> c_version := c_version c1 + 1 \<rparr>
          in bind_op (save_case E c2) (\<lambda>_.
             bind_op (flush_disposition (if target = ''Closed'' then disposition else None)) (\<lambda>_.
             bind_op (record_audit E (case_stream (c_id c)) (Some actor) ''case.transitioned'' ''case'' (c_id c) reason
                (Some before) (Some (status_json (c_status c2) (c_disposition c2)))) (\<lambda>_.
             ret c2))))))))"

definition assignee_json :: "uuid option \<Rightarrow> json" where
  "assignee_json a = JObj [(''assignee_id'', json_opt_str a)]"

definition assign_case :: "env \<Rightarrow> uuid \<Rightarrow> uuid option \<Rightarrow> principal \<Rightarrow> case_row op" where
  "assign_case E case_id assignee_id actor =
     bind_op (lock_case case_id) (\<lambda>c.
     bind_op (guard (c_status c \<noteq> ''Merged'') (CaseReadOnly case_id)) (\<lambda>_.
     bind_op (case assignee_id of
          None \<Rightarrow> ret ()
        | Some u \<Rightarrow> bind_op (read_state (\<lambda>s. List.find (\<lambda>r. u_id r = u) (users s))) (\<lambda>r.
            guard (case r of None \<Rightarrow> False | Some usr \<Rightarrow> u_is_active usr) (InvalidAssignee u))) (\<lambda>_.
       let before = assignee_json (c_assignee_id c);
           c1 = c\<lparr> c_assignee_id := assignee_id, c_version := c_version c + 1 \<rparr>
       in bind_op (save_case E c1) (\<lambda>_.
          bind_op (record_audit E (case_stream (c_id c)) (Some actor) ''case.assigned'' ''case'' (c_id c) None
            (Some before) (Some (assignee_json assignee_id))) (\<lambda>_.
          ret c1)))))"

definition add_note :: "env \<Rightarrow> uuid \<Rightarrow> string \<Rightarrow> principal \<Rightarrow> note_row op" where
  "add_note E case_id body actor =
     bind_op (lock_case case_id) (\<lambda>c.
     bind_op (guard (c_status c \<noteq> ''Merged'') (CaseReadOnly case_id)) (\<lambda>_.
     bind_op (uuid4 E) (\<lambda>i.
       let n = \<lparr> n_id = i, n_case_id = case_id, n_author_id = p_user_id actor, n_body = body,
                 n_retracted = False, n_retraction_reason = None, n_created_at = txn_now E \<rparr>
       in bind_op (guard (CHR 0x00 \<notin> set body) DataError) (\<lambda>_.
          bind_op (read_state (\<lambda>s. (users s, case_notes s))) (\<lambda>(us, ns).
          bind_op (guard (p_user_id actor \<in> u_id ` set us \<and> i \<notin> n_id ` set ns) IntegrityError) (\<lambda>_.
          bind_op (modify (\<lambda>s. s\<lparr> case_notes := case_notes s @ [n] \<rparr>)) (\<lambda>_.
          bind_op (record_audit E (case_stream case_id) (Some actor) ''case.note_added'' ''note'' i None None
            (Some (JObj [(''note_id'', JStr i), (''excerpt'', JStr (take 120 body))]))) (\<lambda>_.
          ret n))))))))"

definition find_note :: "state \<Rightarrow> uuid \<Rightarrow> note_row option" where
  "find_note s i = List.find (\<lambda>n. n_id n = i) (case_notes s)"

definition save_note :: "note_row \<Rightarrow> unit op" where
  "save_note n = modify (\<lambda>s. s\<lparr> case_notes := update_where (\<lambda>r. n_id r = n_id n) (\<lambda>_. n) (case_notes s) \<rparr>)"

definition retract_note :: "env \<Rightarrow> uuid \<Rightarrow> string \<Rightarrow> principal \<Rightarrow> note_row op" where
  "retract_note E note_id reason actor =
     bind_op (read_state (\<lambda>s. find_note s note_id)) (\<lambda>r.
       case r of
         None \<Rightarrow> raise_exn (NoteNotFound note_id)
       | Some n \<Rightarrow>
           bind_op (guard (p_user_id actor = n_author_id n \<or> ''admin'' \<in> set (p_roles actor))
             (NoteRetractForbidden note_id)) (\<lambda>_.
           if n_retracted n then ret n
           else
             let n1 = n\<lparr> n_retracted := True, n_retraction_reason := Some reason \<rparr>
             in bind_op (save_note n1) (\<lambda>_.
                bind_op (record_audit E (case_stream (n_case_id n)) (Some actor) ''case.note_retracted'' ''note'' (n_id n)
                  (Some reason) (Some (JObj [(''retracted'', JBool False)])) (Some (JObj [(''retracted'', JBool True)]))) (\<lambda>_.
                ret n1))))"

record timeline_entry =
  te_seq :: nat
  te_action :: string
  te_actor_id :: "string option"
  te_actor_role :: "string option"
  te_reason :: "string option"
  te_created_at :: int
  te_before :: "json option"
  te_after :: "json option"

record case_detail =
  cd_case :: case_row
  cd_alerts :: "(alert_row \<times> grouping_row option) list"
  cd_notes :: "note_row list"
  cd_timeline :: "timeline_entry list"

definition case_alert_rows :: "state \<Rightarrow> uuid \<Rightarrow> (alert_row \<times> grouping_row option) list" where
  "case_alert_rows s case_id =
     sort_key (\<lambda>(a, _). (na_event_time (a_data a), a_id a))
       (concat (map (\<lambda>l. map (\<lambda>a. (a, List.find (\<lambda>g. g_id g = l_grouping_decision_id l) (groupings s)))
            (filter (\<lambda>a. a_id a = l_alert_id l) (alerts s)))
          (filter (\<lambda>l. l_case_id l = case_id) (links s))))"

definition timeline_entry_of :: "audit_event \<Rightarrow> timeline_entry" where
  "timeline_entry_of e =
     \<lparr> te_seq = ev_seq e, te_action = ev_action e, te_actor_id = ev_actor_id e, te_actor_role = ev_actor_role e,
       te_reason = ev_reason e, te_created_at = ev_created_at e, te_before = ev_before e, te_after = ev_after e \<rparr>"

definition get_case_detail :: "uuid \<Rightarrow> case_detail op" where
  "get_case_detail case_id =
     bind_op (lock_case case_id) (\<lambda>c.
     bind_op (read_state (\<lambda>s.
       \<lparr> cd_case = c, cd_alerts = case_alert_rows s case_id,
         cd_notes = sort_key (\<lambda>n. (n_created_at n, n_id n)) (filter (\<lambda>n. n_case_id n = case_id) (case_notes s)),
         cd_timeline = map timeline_entry_of (rev (stream_events s (case_stream case_id))) \<rparr>)) ret)"

section \<open>Endpoints\<close>

definition require_role :: "string list \<Rightarrow> principal \<Rightarrow> unit op" where
  "require_role allowed p =
     guard (set allowed \<inter> set (p_roles p) \<noteq> {}) (HTTPException 403 ''insufficient_role'')"

definition catch_op :: "(exn \<Rightarrow> exn) \<Rightarrow> 'a op \<Rightarrow> 'a op" where
  "catch_op h m s = (case m s of (Inl e, t) \<Rightarrow> (Inl (h e), t) | (Inr x, t) \<Rightarrow> (Inr x, t))"

definition reload_case :: "case_row \<Rightarrow> case_row op" where
  "reload_case c = bind_op (read_state (\<lambda>s. find_case s (c_id c))) (\<lambda>r. case r of None \<Rightarrow> ret c | Some d \<Rightarrow> ret d)"

fun transition_http :: "exn \<Rightarrow> exn" where
  "transition_http (CaseNotFound i) = HTTPException 404 ''case_not_found''"
| "transition_http (StaleCaseVersion i) = HTTPException 409 ''stale_case_version''"
| "transition_http (TransitionError code) =
     HTTPException (if code = ''illegal_transition'' then 409 else 422) code"
| "transition_http e = e"

definition transition_case_endpoint ::
  "env \<Rightarrow> uuid \<Rightarrow> string \<Rightarrow> string option \<Rightarrow> string option \<Rightarrow> principal \<Rightarrow> int option \<Rightarrow> case_row op" where
  "transition_case_endpoint E case_id target reason disposition actor if_match =
     in_transaction (bind_op (require_role [''analyst'', ''admin''] actor) (\<lambda>_.
       bind_op (catch_op transition_http (transition_case E case_id target reason disposition actor if_match))
         reload_case))"

fun assign_http :: "exn \<Rightarrow> exn" where
  "assign_http (CaseNotFound i) = HTTPException 404 ''case_not_found''"
| "assign_http (CaseReadOnly i) = HTTPException 409 ''case_read_only''"
| "assign_http (InvalidAssignee i) = HTTPException 422 ''invalid_assignee''"
| "assign_http e = e"

definition assign_case_endpoint :: "env \<Rightarrow> uuid \<Rightarrow> uuid option \<Rightarrow> principal \<Rightarrow> case_row op" where
  "assign_case_endpoint E case_id assignee_id actor =
     in_transaction (bind_op (require_role [''analyst'', ''admin''] actor) (\<lambda>_.
       bind_op (catch_op assign_http (assign_case E case_id assignee_id actor)) reload_case))"

definition add_note_endpoint :: "env \<Rightarrow> uuid \<Rightarrow> string \<Rightarrow> principal \<Rightarrow> note_row op" where
  "add_note_endpoint E case_id body actor =
     in_transaction (bind_op (require_role [''analyst'', ''admin''] actor) (\<lambda>_.
       catch_op assign_http (add_note E case_id body actor)))"

fun retract_http :: "exn \<Rightarrow> exn" where
  "retract_http (NoteNotFound i) = HTTPException 404 ''note_not_found''"
| "retract_http (NoteRetractForbidden i) = HTTPException 403 ''note_retract_forbidden''"
| "retract_http e = e"

definition retract_note_endpoint :: "env \<Rightarrow> uuid \<Rightarrow> uuid \<Rightarrow> string \<Rightarrow> principal \<Rightarrow> note_row op" where
  "retract_note_endpoint E case_id note_id reason actor =
     in_transaction (bind_op (require_role [''analyst'', ''admin''] actor) (\<lambda>_.
       bind_op (read_state (\<lambda>s. find_note s note_id)) (\<lambda>existing.
       bind_op (guard (\<exists>n. existing = Some n \<and> n_case_id n = case_id) (HTTPException 404 ''note_not_found'')) (\<lambda>_.
         catch_op retract_http (retract_note E note_id reason actor)))))"

definition case_detail_endpoint :: "uuid \<Rightarrow> principal \<Rightarrow> case_detail op" where
  "case_detail_endpoint case_id actor =
     in_transaction (bind_op (require_role [''analyst'', ''admin'', ''readonly''] actor) (\<lambda>_.
       catch_op assign_http (get_case_detail case_id)))"

section \<open>The effect of each mutation\<close>

definition moved :: "case_row \<Rightarrow> string \<Rightarrow> string option \<Rightarrow> int \<Rightarrow> case_row" where
  "moved c target disposition t =
     (if target = ''Closed'' then
        c\<lparr> c_status := target, c_disposition := disposition, c_closed_at := Some t, c_version := c_version c + 1 \<rparr>
      else if c_status c = ''Closed'' \<and> target = ''In Progress'' then
        c\<lparr> c_status := target, c_disposition := None, c_closed_at := None, c_version := c_version c + 1 \<rparr>
      else c\<lparr> c_status := target, c_version := c_version c + 1 \<rparr>)"

text \<open>The other tables stay and one event of the given action joins the stream of the case.\<close>

definition logged :: "env \<Rightarrow> state \<Rightarrow> state \<Rightarrow> uuid \<Rightarrow> string \<Rightarrow> json option \<Rightarrow> json option \<Rightarrow> bool" where
  "logged E s t i action before after \<longleftrightarrow>
     users t = users s \<and> alerts t = alerts s \<and> links t = links s \<and> groupings t = groupings s
     \<and> audit_inv (env_platform E) t
     \<and> (\<exists>e. events t = events s @ [e] \<and> ev_stream e = case_stream i \<and> ev_action e = action
          \<and> ev_before e = before \<and> ev_after e = after)"

definition stored :: "env \<Rightarrow> case_row \<Rightarrow> case_row list \<Rightarrow> case_row list" where
  "stored E c rows = update_where (\<lambda>r. c_id r = c_id c) (\<lambda>_. c\<lparr> c_updated_at := txn_now E \<rparr>) rows"

lemma lock_case_Inr [op_simps]: "lock_case i s = (Inr c, t) \<longleftrightarrow> t = s \<and> find_case s i = Some c"
  by (auto simp: lock_case_def op_simps split: option.splits)

lemma flush_disposition_Inr [op_simps]: "flush_disposition d s = (Inr u, t) \<longleftrightarrow> fits_opt 64 d \<and> t = s"
  by (auto simp: flush_disposition_def)

lemma save_case_Inr [op_simps]: "save_case E c s = (Inr u, t) \<longleftrightarrow> t = s\<lparr> cases := stored E c (cases s) \<rparr>"
  by (auto simp: save_case_def op_simps stored_def)

lemma apply_move_Inr:
  assumes "apply_move E c target disposition s = (Inr c1, s1)"
  shows "(\<exists>k. s1 = s\<lparr> ticks := k \<rparr>) \<and> (\<exists>time. c1\<lparr> c_version := c_version c1 + 1 \<rparr> = moved c target disposition time)"
proof (cases "target = ''Closed''")
  case True
  with assms have "c1\<lparr> c_version := c_version c1 + 1 \<rparr> = moved c target disposition (utcnow E (ticks s))"
    "s1 = s\<lparr> ticks := Suc (ticks s) \<rparr>"
    by (auto simp: apply_move_def moved_def op_simps)
  then show ?thesis by blast
next
  case False
  with assms have "c1\<lparr> c_version := c_version c1 + 1 \<rparr> = moved c target disposition 0" "s1 = s\<lparr> ticks := ticks s \<rparr>"
    by (auto simp: apply_move_def moved_def op_simps ticks_self split: if_splits)
  then show ?thesis by blast
qed

lemma transition_case_Inr:
  assumes "transition_case E i target reason disposition actor expected s = (Inr c', t)"
    and "audit_inv (env_platform E) s"
  shows "\<exists>c time. find_case s i = Some c \<and> (expected = None \<or> expected = Some (c_version c))
     \<and> validate_transition (c_status c) target disposition (dispositions (env_config E)) = Inr ()
     \<and> (c_status c = ''Closed'' \<longrightarrow> reason \<noteq> None)
     \<and> c' = moved c target disposition time \<and> cases t = stored E c' (cases s)
     \<and> case_notes t = case_notes s \<and> uuids t = uuids s \<and> logged E s t i ''case.transitioned''
         (Some (status_json (c_status c) (c_disposition c))) (Some (status_json (c_status c') (c_disposition c')))"
proof -
  from assms(1) obtain c c1 s1 e where c: "find_case s i = Some c"
    and pre: "expected = None \<or> expected = Some (c_version c)"
      "validate_transition (c_status c) target disposition (dispositions (env_config E)) = Inr ()"
      "\<not> (c_status c = ''Closed'' \<and> target = ''In Progress'' \<and> reason = None)"
    and move: "apply_move E c target disposition s = (Inr c1, s1)" and c1: "c' = c1\<lparr> c_version := c_version c1 + 1 \<rparr>"
    and audit: "record_audit E (case_stream (c_id c)) (Some actor) ''case.transitioned'' ''case'' (c_id c) reason
        (Some (status_json (c_status c) (c_disposition c))) (Some (status_json (c_status c') (c_disposition c')))
        (s1\<lparr> cases := stored E c' (cases s1) \<rparr>) = (Inr e, t)"
    by (clarsimp simp: transition_case_def Let_def op_simps)
  from apply_move_Inr [OF move] obtain time where s1: "\<exists>k. s1 = s\<lparr> ticks := k \<rparr>" and c': "c' = moved c target disposition time"
    unfolding c1 by blast
  from s1 have "audit_inv (env_platform E) (s1\<lparr> cases := stored E c' (cases s1) \<rparr>)" using assms(2) by auto
  note frame = record_audit_frame [OF audit this] and inv = record_audit_inv [OF audit this]
  have "c_status c = ''Closed'' \<longrightarrow> reason \<noteq> None"
    using pre(2,3) by (auto simp: validate_transition_Inr reachable_from_cases)
  moreover have "c_id c = i" using find_case_Some [OF c] by simp
  moreover have "ev_stream e = case_stream (c_id c)" "ev_action e = ''case.transitioned''"
    "ev_before e = Some (status_json (c_status c) (c_disposition c))"
    "ev_after e = Some (status_json (c_status c') (c_disposition c'))" using inv by blast+
  ultimately show ?thesis using c pre c' s1 frame by (auto simp: logged_def)
qed

lemma assign_case_Inr:
  assumes "assign_case E i a actor s = (Inr c', t)" and "audit_inv (env_platform E) s"
  shows "\<exists>c. find_case s i = Some c \<and> c_status c \<noteq> ''Merged''
     \<and> (a \<noteq> None \<longrightarrow> (\<exists>u \<in> set (users s). Some (u_id u) = a \<and> u_is_active u))
     \<and> c' = c\<lparr> c_assignee_id := a, c_version := c_version c + 1 \<rparr> \<and> cases t = stored E c' (cases s)
     \<and> case_notes t = case_notes s \<and> logged E s t i ''case.assigned''
         (Some (assignee_json (c_assignee_id c))) (Some (assignee_json a))"
proof -
  from assms(1) obtain c e where c: "find_case s i = Some c" "c_status c \<noteq> ''Merged''"
    and a: "a \<noteq> None \<longrightarrow> (\<exists>u. List.find (\<lambda>r. u_id r = the a) (users s) = Some u \<and> u_is_active u)"
    and c': "c' = c\<lparr> c_assignee_id := a, c_version := c_version c + 1 \<rparr>"
    and audit: "record_audit E (case_stream (c_id c)) (Some actor) ''case.assigned'' ''case'' (c_id c) None
        (Some (assignee_json (c_assignee_id c))) (Some (assignee_json a))
        (s\<lparr> cases := stored E c' (cases s) \<rparr>) = (Inr e, t)"
    by (cases a) (auto simp: assign_case_def Let_def op_simps split: option.splits)
  have "audit_inv (env_platform E) (s\<lparr> cases := stored E c' (cases s) \<rparr>)" using assms(2) by simp
  note frame = record_audit_frame [OF audit this] and inv = record_audit_inv [OF audit this]
  have "c_id c = i" using find_case_Some [OF c(1)] by simp
  moreover have "ev_stream e = case_stream (c_id c)" "ev_action e = ''case.assigned''"
    "ev_before e = Some (assignee_json (c_assignee_id c))" "ev_after e = Some (assignee_json a)" using inv by blast+
  moreover have "a \<noteq> None \<longrightarrow> (\<exists>u \<in> set (users s). Some (u_id u) = a \<and> u_is_active u)"
    using a by (auto simp: find_Some_iff)
  ultimately show ?thesis using c c' frame by (auto simp: logged_def)
qed

definition new_note :: "env \<Rightarrow> uuid \<Rightarrow> uuid \<Rightarrow> principal \<Rightarrow> string \<Rightarrow> note_row" where
  "new_note E i case_id actor body =
     \<lparr> n_id = i, n_case_id = case_id, n_author_id = p_user_id actor, n_body = body, n_retracted = False,
       n_retraction_reason = None, n_created_at = txn_now E \<rparr>"

lemma add_note_Inr:
  assumes "add_note E i body actor s = (Inr n, t)" and "audit_inv (env_platform E) s"
  shows "\<exists>c. find_case s i = Some c \<and> c_status c \<noteq> ''Merged'' \<and> n = new_note E (new_uuid E (uuids s)) i actor body
     \<and> n_id n \<notin> n_id ` set (case_notes s) \<and> p_user_id actor \<in> u_id ` set (users s)
     \<and> cases t = cases s \<and> case_notes t = case_notes s @ [n] \<and> uuids t = Suc (uuids s) \<and> logged E s t i ''case.note_added'' None
         (Some (JObj [(''note_id'', JStr (n_id n)), (''excerpt'', JStr (take 120 body))]))"
proof -
  from assms(1) obtain c e where c: "find_case s i = Some c" "c_status c \<noteq> ''Merged''"
    and n: "n = new_note E (new_uuid E (uuids s)) i actor body" "n_id n \<notin> n_id ` set (case_notes s)"
      "p_user_id actor \<in> u_id ` set (users s)"
    and audit: "record_audit E (case_stream i) (Some actor) ''case.note_added'' ''note'' (n_id n) None None
        (Some (JObj [(''note_id'', JStr (n_id n)), (''excerpt'', JStr (take 120 body))]))
        (s\<lparr> uuids := Suc (uuids s), case_notes := case_notes s @ [n] \<rparr>) = (Inr e, t)"
    by (auto simp: add_note_def Let_def op_simps new_note_def)
  have "audit_inv (env_platform E) (s\<lparr> uuids := Suc (uuids s), case_notes := case_notes s @ [n] \<rparr>)"
    using assms(2) by simp
  note frame = record_audit_frame [OF audit this] and inv = record_audit_inv [OF audit this]
  have "ev_stream e = case_stream i" "ev_action e = ''case.note_added''" "ev_before e = None"
    "ev_after e = Some (JObj [(''note_id'', JStr (n_id n)), (''excerpt'', JStr (take 120 body))])" using inv by blast+
  then show ?thesis using c n frame by (auto simp: logged_def)
qed

definition retracted :: "note_row \<Rightarrow> string \<Rightarrow> note_row" where
  "retracted n reason = n\<lparr> n_retracted := True, n_retraction_reason := Some reason \<rparr>"

lemma find_note_Some: "find_note s i = Some n \<Longrightarrow> n \<in> set (case_notes s) \<and> n_id n = i"
  by (auto simp: find_note_def find_Some_iff)

lemma retract_note_Inr:
  assumes "retract_note E i reason actor s = (Inr n', t)" and "audit_inv (env_platform E) s"
  shows "\<exists>n. find_note s i = Some n \<and> (p_user_id actor = n_author_id n \<or> ''admin'' \<in> set (p_roles actor))
     \<and> cases t = cases s
     \<and> (if n_retracted n then t = s \<and> n' = n
        else n' = retracted n reason
          \<and> case_notes t = update_where (\<lambda>r. n_id r = i) (\<lambda>_. n') (case_notes s)
          \<and> logged E s t (n_case_id n) ''case.note_retracted''
               (Some (JObj [(''retracted'', JBool False)])) (Some (JObj [(''retracted'', JBool True)])))"
proof -
  from assms(1) obtain n where n: "find_note s i = Some n"
    and auth: "p_user_id actor = n_author_id n \<or> ''admin'' \<in> set (p_roles actor)"
    by (auto simp: retract_note_def op_simps split: option.splits if_splits)
  show ?thesis
  proof (cases "n_retracted n")
    case True
    with assms(1) n auth show ?thesis by (auto simp: retract_note_def op_simps)
  next
    case False
    have id: "n_id n = i" using find_note_Some [OF n] by simp
    let ?s = "s\<lparr> case_notes := update_where (\<lambda>r. n_id r = i) (\<lambda>_. retracted n reason) (case_notes s) \<rparr>"
    from False assms(1) n obtain e where n': "n' = retracted n reason"
      and audit: "record_audit E (case_stream (n_case_id n)) (Some actor) ''case.note_retracted'' ''note'' i
          (Some reason) (Some (JObj [(''retracted'', JBool False)])) (Some (JObj [(''retracted'', JBool True)])) ?s = (Inr e, t)"
      by (auto simp: retract_note_def save_note_def op_simps Let_def retracted_def id)
    have "audit_inv (env_platform E) ?s" using assms(2) by simp
    note frame = record_audit_frame [OF audit this] and inv = record_audit_inv [OF audit this]
    have "ev_stream e = case_stream (n_case_id n)" "ev_action e = ''case.note_retracted''"
      "ev_before e = Some (JObj [(''retracted'', JBool False)])" "ev_after e = Some (JObj [(''retracted'', JBool True)])"
      using inv by blast+
    then show ?thesis using n n' auth False frame by (auto simp: logged_def)
  qed
qed

section \<open>Well-formed case rows\<close>

definition case_ok :: "string list \<Rightarrow> case_row \<Rightarrow> bool" where
  "case_ok ds c \<longleftrightarrow>
     c_status c \<in> set STATUSES \<and> 1 \<le> c_version c
     \<and> (c_status c = ''Closed'' \<longleftrightarrow> c_closed_at c \<noteq> None)
     \<and> (c_status c = ''Closed'' \<longleftrightarrow> c_disposition c \<noteq> None)
     \<and> (\<forall>d. c_disposition c = Some d \<longrightarrow> d \<in> set ds)
     \<and> (c_status c = ''Merged'' \<longleftrightarrow> c_canonical_from_case_id c \<noteq> None)"

definition cases_inv :: "string list \<Rightarrow> state \<Rightarrow> bool" where
  "cases_inv ds s \<longleftrightarrow> distinct (map c_id (cases s)) \<and> (\<forall>c \<in> set (cases s). case_ok ds c)"

lemma case_ok_updated [simp]: "case_ok ds (c\<lparr> c_updated_at := t \<rparr>) = case_ok ds c"
  by (simp add: case_ok_def)

lemma moved_ok:
  assumes "case_ok ds c" and "validate_transition (c_status c) target d ds = Inr ()"
  shows "case_ok ds (moved c target d time)"
proof -
  have edge: "target \<in> set (reachable_from (c_status c))"
    using assms(2) by (simp add: validate_transition_Inr)
  have mem: "target \<in> set STATUSES" "target \<noteq> ''Merged''" "c_status c \<noteq> ''Merged''"
    using reachable_statuses [OF edge] edge by (simp_all, auto simp: reachable_from_cases)
  show ?thesis
  proof (cases "target = ''Closed''")
    case True
    with assms obtain x where "d = Some x" "x \<in> set ds" by (auto simp: validate_transition_Inr)
    with True assms(1) mem show ?thesis by (simp add: case_ok_def moved_def)
  next
    case False
    show ?thesis
    proof (cases "c_status c = ''Closed''")
      case True
      with edge have "target = ''In Progress''" by (simp add: reachable_from_cases)
      with True False assms(1) mem show ?thesis by (simp add: case_ok_def moved_def)
    next
      case never_closed: False
      with False assms(1) mem show ?thesis by (simp add: case_ok_def moved_def)
    qed
  qed
qed

lemma stored_ids: "map c_id (stored E c rows) = map c_id rows"
  by (simp add: stored_def map_update_where)

lemma stored_cases_inv:
  assumes "cases_inv ds s" and "case_ok ds c" and "cases t = stored E c (cases s)"
  shows "cases_inv ds t"
  using assms stored_ids [of E c "cases s"]
  by (auto simp: cases_inv_def stored_def set_update_where)

lemma stored_find:
  assumes "find_case s (c_id c') = Some c" and "cases t = stored E c' (cases s)" and "distinct (map c_id (cases s))"
  shows "find_case t (c_id c') = Some (c'\<lparr> c_updated_at := txn_now E \<rparr>)"
proof -
  have "c'\<lparr> c_updated_at := txn_now E \<rparr> \<in> set (cases t)"
    using find_case_Some [OF assms(1)] by (auto simp: assms(2) stored_def set_update_where)
  moreover have "distinct (map c_id (cases t))" using assms(2,3) by (simp add: stored_ids)
  ultimately show ?thesis using find_case_unique [of t] by fastforce
qed

lemma stored_find_other:
  assumes "cases t = stored E c' (cases s)" and "i \<noteq> c_id c'"
  shows "find_case t i = find_case s i"
proof -
  have "List.find (\<lambda>c. c_id c = i) (update_where (\<lambda>r. c_id r = c_id c') (\<lambda>_. c'\<lparr> c_updated_at := u \<rparr>) rows)
      = List.find (\<lambda>c. c_id c = i) rows" for u rows
    using assms(2) by (induction rows) (auto simp: update_where_def)
  then show ?thesis by (simp add: find_case_def assms(1) stored_def)
qed

section \<open>Which requests succeed\<close>

text \<open>The texts of an audit event other than its reason fit their columns.\<close>

definition request_fits :: "env \<Rightarrow> uuid \<Rightarrow> principal \<Rightarrow> bool" where
  "request_fits E i actor \<longleftrightarrow>
     fits 255 (case_stream i) \<and> fits 255 (p_user_id actor) \<and> fits_opt 255 (actor_roles_text (Some actor))
     \<and> fits_opt 255 (correlation E)"

lemma fits_stream: "fits 255 (case_stream i) \<Longrightarrow> fits 255 i"
  by (simp add: fits_def case_stream_def)

lemma fits_opt_Some [simp]: "fits_opt n (Some x) = fits n x"
  by (simp add: fits_opt_def)

lemma fits_opt_None [simp]: "fits_opt n None"
  by (simp add: fits_opt_def)

lemma record_audit_reason:
  assumes "audit_inv (env_platform E) s" and "request_fits E i actor" and "fits 100 action" and "fits 100 tt"
    and "fits 255 tid"
  shows "(\<exists>e t. record_audit E (case_stream i) (Some actor) action tt tid reason before after s = (Inr e, t))
      \<and> fits_opt 2000 reason
    \<or> (\<exists>t. record_audit E (case_stream i) (Some actor) action tt tid reason before after s = (Inl DataError, t))
      \<and> \<not> fits_opt 2000 reason"
proof (cases "fits_opt 2000 reason")
  case True
  with assms record_audit_ok [of E s "case_stream i" "Some actor" action tt tid reason before after] show ?thesis
    by (simp add: request_fits_def)
next
  case False
  obtain s1 where "ensure_stream (case_stream i) s = (Inr (), s1)"
    using assms(2) by (simp add: ensure_stream_def run_simps request_fits_def)
  with False show ?thesis
    by (simp add: record_audit_def append_event_def flush_event_def run_simps event_fits_def Let_def)
qed

lemma case_ok_no_NUL: "target \<in> set STATUSES \<Longrightarrow> fits 100 target"
  by (auto simp: STATUSES_def ALLOWED_def fits_def)

definition transition_outcome ::
  "env \<Rightarrow> state \<Rightarrow> uuid \<Rightarrow> string \<Rightarrow> string option \<Rightarrow> string option \<Rightarrow> principal \<Rightarrow> int option \<Rightarrow> case_row result" where
  "transition_outcome E s i target reason disposition actor if_match =
     (if set (p_roles actor) \<inter> {''analyst'', ''admin''} = {} then Inl (HTTPException 403 ''insufficient_role'')
      else case find_case s i of
        None \<Rightarrow> Inl (HTTPException 404 ''case_not_found'')
      | Some c \<Rightarrow>
          if if_match \<noteq> None \<and> if_match \<noteq> Some (c_version c) then Inl (HTTPException 409 ''stale_case_version'')
          else if target \<notin> set (reachable_from (c_status c)) then Inl (HTTPException 409 ''illegal_transition'')
          else if target = ''Closed'' \<and> disposition = None then Inl (HTTPException 422 ''disposition_required'')
          else if target = ''Closed'' \<and> the disposition \<notin> set (dispositions (env_config E))
            then Inl (HTTPException 422 ''unknown_disposition'')
          else if c_status c = ''Closed'' \<and> reason = None then Inl (HTTPException 422 ''reopen_requires_reason'')
          else if \<not> fits_opt 2000 reason \<or> target = ''Closed'' \<and> \<not> fits_opt 64 disposition then Inl DataError
          else Inr ((moved c target disposition (utcnow E (ticks s)))\<lparr> c_updated_at := txn_now E \<rparr>))"

lemma catch_op_fst: "fst (catch_op h m s) = (case fst (m s) of Inl e \<Rightarrow> Inl (h e) | Inr x \<Rightarrow> Inr x)"
  by (auto simp: catch_op_def split: prod.split sum.split)

lemma catch_op_Inr [op_simps]: "catch_op h m s = (Inr x, t) \<longleftrightarrow> m s = (Inr x, t)"
  by (auto simp: catch_op_def split: prod.split sum.split)

lemma in_transaction_fst: "fst (in_transaction m s) = fst (m s)"
  by (auto simp: in_transaction_def split: prod.split sum.split)

lemma require_role_run [run_simps]:
  "require_role allowed p s =
     (if set allowed \<inter> set (p_roles p) \<noteq> {} then Inr () else Inl (HTTPException 403 ''insufficient_role''), s)"
  by (simp add: require_role_def guard_def)

lemma bind_op_apply: "bind_op m f s = (case m s of (Inl e, t) \<Rightarrow> (Inl e, t) | (Inr x, t) \<Rightarrow> f x t)"
  by (simp add: bind_op_def)

lemma lock_case_run [run_simps]:
  "lock_case i s = (case find_case s i of None \<Rightarrow> (Inl (CaseNotFound i), s) | Some c \<Rightarrow> (Inr c, s))"
  by (simp add: lock_case_def bind_op_def read_state_def raise_exn_def ret_def split: option.split)

lemma apply_move_run:
  "\<exists>c1 s1. apply_move E c target d s = (Inr c1, s1) \<and> (\<exists>k. s1 = s\<lparr> ticks := k \<rparr>)
     \<and> c1\<lparr> c_version := c_version c1 + 1 \<rparr> = moved c target d (utcnow E (ticks s))"
proof (cases "target = ''Closed''")
  case True
  let ?t = "utcnow E (ticks s)"
  have "apply_move E c target d s =
      (Inr (c\<lparr> c_status := target, c_disposition := d, c_closed_at := Some ?t \<rparr>), s\<lparr> ticks := Suc (ticks s) \<rparr>)"
    using True by (simp add: apply_move_def run_simps)
  with True show ?thesis by (intro exI conjI) (assumption, rule refl, simp add: moved_def)
next
  case False
  have "apply_move E c target d s = (Inr (if c_status c = ''Closed'' \<and> target = ''In Progress''
      then c\<lparr> c_status := target, c_closed_at := None, c_disposition := None \<rparr> else c\<lparr> c_status := target \<rparr>), s)"
    using False by (simp add: apply_move_def run_simps)
  with False show ?thesis
    by (intro exI conjI) (assumption, rule ticks_self [symmetric], simp add: moved_def)
qed

text \<open>From the validated request on: the row is stored and the event written, or a text is too long.\<close>

lemma transition_tail:
  assumes "audit_inv (env_platform E) s" and "request_fits E i actor" and "c_id c = i"
    and "distinct (map c_id (cases s))" and "find_case s i = Some c"
    and m: "m = (\<lambda>c1. let c2 = c1\<lparr> c_version := c_version c1 + 1 \<rparr>
          in bind_op (save_case E c2) (\<lambda>_.
             bind_op (flush_disposition disp) (\<lambda>_.
             bind_op (record_audit E (case_stream (c_id c)) (Some actor) ''case.transitioned'' ''case'' (c_id c) reason
                before (Some (status_json (c_status c2) (c_disposition c2)))) (\<lambda>_. ret c2))))"
  shows "fst (bind_op (bind_op (apply_move E c target d) m) reload_case s)
    = (if fits_opt 2000 reason \<and> fits_opt 64 disp then Inr ((moved c target d (utcnow E (ticks s)))\<lparr> c_updated_at := txn_now E \<rparr>)
       else Inl DataError)"
proof -
  obtain c1 s1 where move: "apply_move E c target d s = (Inr c1, s1)" and s1: "\<exists>k. s1 = s\<lparr> ticks := k \<rparr>"
    and c2: "c1\<lparr> c_version := c_version c1 + 1 \<rparr> = moved c target d (utcnow E (ticks s))"
    using apply_move_run by blast
  define c2 where "c2 = moved c target d (utcnow E (ticks s))"
  define s2 where "s2 = s1\<lparr> cases := stored E c2 (cases s1) \<rparr>"
  have id: "c_id c2 = i" using assms(3) by (simp add: c2_def moved_def)
  have c12: "c_status c1 = c_status c2" "c_disposition c1 = c_disposition c2"
    using arg_cong [OF c2 [folded c2_def], of c_status] arg_cong [OF c2 [folded c2_def], of c_disposition] by simp_all
  have save: "save_case E c2 s1 = (Inr (), s2)" by (simp add: save_case_def s2_def stored_def modify_def)
  have "audit_inv (env_platform E) s2" using assms(1) s1 by (auto simp: s2_def)
  moreover have "fits 100 ''case.transitioned''" "fits 100 ''case''" by (simp_all add: fits_def)
  moreover have "fits 255 i" using assms(2) by (simp add: request_fits_def fits_stream)
  ultimately consider (ok) e t where "record_audit E (case_stream i) (Some actor) ''case.transitioned'' ''case'' i reason
        before (Some (status_json (c_status c2) (c_disposition c2))) s2 = (Inr e, t)" "fits_opt 2000 reason"
    | (bad) t where "record_audit E (case_stream i) (Some actor) ''case.transitioned'' ''case'' i reason
        before (Some (status_json (c_status c2) (c_disposition c2))) s2 = (Inl DataError, t)" "\<not> fits_opt 2000 reason"
    using record_audit_reason [OF _ assms(2), of s2] by blast
  then show ?thesis
  proof cases
    case ok
    have short: ?thesis if "\<not> fits_opt 64 disp"
      using that save by (simp add: m bind_op_apply move c2 [folded c2_def] Let_def flush_disposition_def)
    have "cases t = cases s2" using record_audit_frame(3) [OF ok(1) \<open>audit_inv (env_platform E) s2\<close>] .
    then have "cases t = stored E c2 (cases s)" using s1 by (auto simp: s2_def)
    from stored_find [OF _ this assms(4), of c] assms(5) id
    have "find_case t i = Some (c2\<lparr> c_updated_at := txn_now E \<rparr>)" by simp
    with ok save short show ?thesis
      by (cases "fits_opt 64 disp")
        (simp_all add: flush_disposition_def m bind_op_apply move c2 [folded c2_def] Let_def assms(3) ret_def reload_case_def read_state_def id c12
          c2_def [symmetric])
  next
    case bad
    with save show ?thesis
      by (simp add: m bind_op_apply move c2 [folded c2_def] Let_def assms(3) c12 flush_disposition_def)
  qed
qed

lemma bind_op_assoc: "bind_op (bind_op m f) g = bind_op m (\<lambda>x. bind_op (f x) g)"
  by (auto simp: bind_op_def fun_eq_iff split: prod.split sum.split)

lemma catch_reload_fst:
  "fst (bind_op (catch_op h m) reload_case s) = (case fst (bind_op m reload_case s) of Inl e \<Rightarrow> Inl (h e) | Inr x \<Rightarrow> Inr x)"
  by (auto simp: bind_op_def catch_op_def reload_case_def read_state_def ret_def split: prod.splits sum.splits option.splits)

lemma transition_endpoint_result:
  assumes "audit_inv (env_platform E) s" and "distinct (map c_id (cases s))" and "request_fits E i actor"
  shows "fst (transition_case_endpoint E i target reason disposition actor if_match s)
    = transition_outcome E s i target reason disposition actor if_match"
proof (cases "find_case s i")
  case None
  then show ?thesis
    by (auto simp: transition_case_endpoint_def transition_outcome_def in_transaction_fst bind_op_apply run_simps
        catch_op_def transition_case_def)
next
  case (Some c)
  have id: "c_id c = i" using find_case_Some [OF Some] by simp
  note tail = transition_tail [OF assms(1,3) id assms(2) Some refl]
  have "fst (bind_op (transition_case E i target reason disposition actor if_match) reload_case s) =
     (if if_match \<noteq> None \<and> if_match \<noteq> Some (c_version c) then Inl (StaleCaseVersion i)
      else case validate_transition (c_status c) target disposition (dispositions (env_config E)) of
        Inl e \<Rightarrow> Inl e
      | Inr _ \<Rightarrow> if c_status c = ''Closed'' \<and> reason = None then Inl (TransitionError ''reopen_requires_reason'')
          else if \<not> fits_opt 2000 reason \<or> target = ''Closed'' \<and> \<not> fits_opt 64 disposition then Inl DataError
          else Inr ((moved c target disposition (utcnow E (ticks s)))\<lparr> c_updated_at := txn_now E \<rparr>))"
  proof (cases "if_match \<noteq> None \<and> if_match \<noteq> Some (c_version c)")
    case True
    then obtain v where "if_match = Some v" "v \<noteq> c_version c" by auto
    then show ?thesis by (simp add: transition_case_def bind_op_apply run_simps Some)
  next
    case version: False
    show ?thesis
    proof (cases "validate_transition (c_status c) target disposition (dispositions (env_config E))")
      case (Inl e)
      with version show ?thesis
        by (auto simp: transition_case_def bind_op_apply run_simps Some lift_result_def)
    next
      case (Inr u)
      then have "c_status c = ''Closed'' \<Longrightarrow> target = ''In Progress''"
        by (simp add: validate_transition_Inr reachable_from_cases)
      with version Inr show ?thesis
        using tail [of target disposition "if target = ''Closed'' then disposition else None" reason
            "Some (status_json (c_status c) (c_disposition c))"]
        by (auto simp: transition_case_def bind_op_assoc bind_op_apply [of "lock_case i"] run_simps Some
            bind_op_apply [of "guard _ _"] bind_op_apply [of "lift_result _"] lift_result_def Let_def)
    qed
  qed
  then have "fst (bind_op (catch_op transition_http (transition_case E i target reason disposition actor if_match))
      reload_case s) = (case transition_outcome E s i target reason disposition (actor\<lparr> p_roles := [''admin''] \<rparr>) if_match
        of x \<Rightarrow> x)"
    unfolding catch_reload_fst
    by (auto simp: transition_outcome_def Some validate_transition_def split: option.split sum.split)
  then show ?thesis
    by (auto simp: transition_case_endpoint_def transition_outcome_def in_transaction_fst bind_op_apply [of "require_role _ _"] run_simps)
qed

section \<open>Properties\<close>

text \<open>C8: The transition endpoint, request by request. The checks come in a fixed order with their status
  codes: role, existence, version, edge, disposition, reason of a re-open. A request that passes them
  moves the case, keeps \<open>closed_at\<close> and the disposition for closed cases only, counts the version up,
  and fails only when the reason does not fit the 2000 characters of the audit column, or a configured disposition
  the 64 characters of its own.\<close>

theorem transition_endpoint_outcome:
  assumes "audit_inv (env_platform E) s" and "distinct (map c_id (cases s))" and "request_fits E i actor"
  shows "fst (transition_case_endpoint E i target reason disposition actor if_match s)
    = transition_outcome E s i target reason disposition actor if_match"
  using assms by (rule transition_endpoint_result)

lemma reload_case_Inr: "reload_case c s = (Inr c', t) \<Longrightarrow> t = s \<and> c' = (case find_case s (c_id c) of None \<Rightarrow> c | Some d \<Rightarrow> d)"
  by (auto simp: reload_case_def op_simps split: option.splits)

lemma transition_endpoint_Inr:
  assumes "transition_case_endpoint E i target reason d actor if_match s = (Inr c, t)"
  shows "\<exists>c1. transition_case E i target reason d actor if_match s = (Inr c1, t) \<and> reload_case c1 t = (Inr c, t)"
  using assms by (auto simp: transition_case_endpoint_def op_simps require_role_def dest!: reload_case_Inr)
    (auto simp: reload_case_def op_simps split: option.split)

text \<open>C22: No lost update. After a transition accepted with \<open>If-Match: v\<close> the case has version \<open>v + 1\<close>, and
  any further transition of it that still presents \<open>v\<close> is refused (stale version, or insufficient
  role) and changes no table.\<close>

theorem transition_no_lost_update:
  assumes "transition_case_endpoint E i target reason d actor (Some v) s = (Inr c, t)"
    and "audit_inv (env_platform E) s" and "distinct (map c_id (cases s))"
  shows "c_version c = v + 1 \<and> find_case t i = Some c
    \<and> (\<forall>E' target' reason' d' actor'. \<exists>u.
         (transition_case_endpoint E' i target' reason' d' actor' (Some v) t = (Inl (HTTPException 409 ''stale_case_version''), u)
          \<or> transition_case_endpoint E' i target' reason' d' actor' (Some v) t = (Inl (HTTPException 403 ''insufficient_role''), u))
         \<and> same_tables t u)"
proof -
  obtain c1 where c1: "transition_case E i target reason d actor (Some v) s = (Inr c1, t)" "reload_case c1 t = (Inr c, t)"
    using transition_endpoint_Inr [OF assms(1)] by blast
  obtain c0 time where c0: "find_case s i = Some c0" "v = c_version c0" "c1 = moved c0 target d time"
    "cases t = stored E c1 (cases s)"
    using transition_case_Inr [OF c1(1) assms(2)] by auto
  have id: "c_id c1 = i" using c0(3) find_case_Some [OF c0(1)] by (simp add: moved_def)
  have "find_case t i = Some (c1\<lparr> c_updated_at := txn_now E \<rparr>)"
    using stored_find [OF _ c0(4) assms(3), of c0] c0(1) id by simp
  moreover from this c1(2) id have c: "c = c1\<lparr> c_updated_at := txn_now E \<rparr>" by (auto dest: reload_case_Inr)
  moreover have "c_version c = v + 1" using c c0(2,3) by (simp add: moved_def)
  ultimately have found: "find_case t i = Some c" "c_version c = v + 1" "c_version c \<noteq> v" by simp_all
  have "\<exists>u. (transition_case_endpoint E' i target' reason' d' actor' (Some v) t = (Inl (HTTPException 409 ''stale_case_version''), u)
          \<or> transition_case_endpoint E' i target' reason' d' actor' (Some v) t = (Inl (HTTPException 403 ''insufficient_role''), u))
         \<and> same_tables t u" for E' target' reason' d' actor'
    using found by (auto simp: transition_case_endpoint_def transition_case_def bind_op_apply run_simps catch_op_def
        in_transaction_def same_tables_def)
  with found show ?thesis by blast
qed

text \<open>A merged case is read-only: whoever asks, a transition, an assignment or a note is refused with
  409 and changes no table.\<close>

theorem merged_case_read_only:
  assumes "find_case s i = Some c" and "c_status c = ''Merged''" and "set (p_roles actor) \<inter> {''analyst'', ''admin''} \<noteq> {}"
  shows "(\<exists>t. transition_case_endpoint E i target reason d actor None s = (Inl (HTTPException 409 ''illegal_transition''), t)
        \<and> same_tables s t)
    \<and> (\<exists>t. assign_case_endpoint E i a actor s = (Inl (HTTPException 409 ''case_read_only''), t) \<and> same_tables s t)
    \<and> (\<exists>t. add_note_endpoint E i body actor s = (Inl (HTTPException 409 ''case_read_only''), t) \<and> same_tables s t)"
proof -
  have "validate_transition ''Merged'' target d ds = Inl (TransitionError ''illegal_transition'')" for ds
    by (simp add: validate_transition_def reachable_from_cases)
  with assms show ?thesis
    by (simp add: transition_case_endpoint_def assign_case_endpoint_def add_note_endpoint_def transition_case_def
        assign_case_def add_note_def bind_op_apply run_simps catch_op_def in_transaction_def lift_result_def
        same_tables_def)
qed

lemma find_note_update:
  assumes "n_id n' = i"
  shows "find_note (s\<lparr> case_notes := update_where (\<lambda>r. n_id r = i) (\<lambda>_. n') ns \<rparr>) i
    = (if \<exists>n \<in> set ns. n_id n = i then Some n' else None)"
  using assms by (induction ns) (auto simp: find_note_def update_where_def)

text \<open>Retracting is idempotent and final. After a note is retracted its body, author and case are as
  before; any later retraction by an authorised person returns the note with the first reason,
  whatever reason it gives, and leaves the state as it is, with no second event.\<close>

theorem retract_note_idempotent:
  assumes "retract_note E i reason actor s = (Inr n', t)" and "audit_inv (env_platform E) s"
    and "p_user_id actor' = n_author_id n' \<or> ''admin'' \<in> set (p_roles actor')"
  shows "n_retracted n' \<and> retract_note E' i reason' actor' t = (Inr n', t)
    \<and> (\<exists>n. find_note s i = Some n \<and> n_body n' = n_body n \<and> n_author_id n' = n_author_id n \<and> n_case_id n' = n_case_id n
         \<and> (\<not> n_retracted n \<longrightarrow> n_retraction_reason n' = Some reason))"
proof -
  obtain n where n: "find_note s i = Some n" and res: "if n_retracted n then t = s \<and> n' = n
        else n' = retracted n reason
          \<and> case_notes t = update_where (\<lambda>r. n_id r = i) (\<lambda>_. n') (case_notes s)
          \<and> logged E s t (n_case_id n) ''case.note_retracted''
               (Some (JObj [(''retracted'', JBool False)])) (Some (JObj [(''retracted'', JBool True)]))"
    using retract_note_Inr [OF assms(1,2)] by blast
  have id: "n_id n = i" "n \<in> set (case_notes s)" using find_note_Some [OF n] by auto
  have "find_note t i = Some n' \<and> n_retracted n'"
  proof (cases "n_retracted n")
    case True
    with res n show ?thesis by simp
  next
    case False
    with res id find_note_update [of n' i "case_notes s" s] show ?thesis
      by (auto simp: retracted_def find_note_def)
  qed
  then show ?thesis using assms(3) n res
    by (auto simp: retract_note_def bind_op_apply run_simps retracted_def split: if_splits)
qed

section \<open>A concrete case\<close>

definition sample_actor :: principal where
  "sample_actor = \<lparr> p_user_id = ''u'', p_email = ''a@b'', p_roles = [''analyst''] \<rparr>"

definition sample_case :: "string \<Rightarrow> case_row" where
  "sample_case st =
     \<lparr> c_id = ''1'', c_human_ref = ''CASE-1'', c_status = st, c_disposition = None, c_assignee_id = None,
       c_risk_score = 0, c_alert_count = 0, c_closed_at = None, c_canonical_from_case_id = None, c_version = 1,
       c_created_at = 0, c_updated_at = 0 \<rparr>"

definition sample_note :: note_row where
  "sample_note =
     \<lparr> n_id = ''n'', n_case_id = ''1'', n_author_id = ''u'', n_body = ''seen'', n_retracted = False,
       n_retraction_reason = None, n_created_at = 0 \<rparr>"

definition sample_state :: "string \<Rightarrow> state" where
  "sample_state st = empty_state\<lparr> cases := [sample_case st], case_notes := [sample_note] \<rparr>"

lemma sample_state_simps [simp]:
  "audit_inv P (sample_state st)" "cases (sample_state st) = [sample_case st]"
  "find_case (sample_state st) ''1'' = Some (sample_case st)"
  "find_note (sample_state st) ''n'' = Some sample_note" "c_id (sample_case st) = ''1''"
  "c_status (sample_case st) = st" "c_version (sample_case st) = 1"
  by (simp_all add: sample_state_def audit_inv_empty find_case_def find_note_def sample_case_def sample_note_def)

lemma sample_request_fits: "request_fits sample_env ''1'' sample_actor"
  by (simp add: request_fits_def fits_def case_stream_def sample_actor_def actor_roles_text_def sample_env_def)

lemma sample_outcome:
  "transition_outcome sample_env (sample_state ''Open'') ''1'' ''In Progress'' None None sample_actor (Some 1)
     = Inr ((moved (sample_case ''Open'') ''In Progress'' None (utcnow sample_env (ticks (sample_state ''Open''))))
         \<lparr> c_updated_at := txn_now sample_env \<rparr>)"
  by (simp add: transition_outcome_def sample_actor_def reachable_from_cases)

theorem transition_endpoint_outcome_witness:
  "\<exists>c. fst (transition_case_endpoint sample_env ''1'' ''In Progress'' None None sample_actor (Some 1)
      (sample_state ''Open'')) = Inr c \<and> c_status c = ''In Progress'' \<and> c_version c = 2"
proof -
  have "distinct (map c_id (cases (sample_state ''Open'')))" by simp
  from transition_endpoint_outcome [OF _ this sample_request_fits] show ?thesis
    by (simp add: sample_outcome moved_def)
qed

theorem transition_no_lost_update_witness:
  "\<exists>c t. transition_case_endpoint sample_env ''1'' ''In Progress'' None None sample_actor (Some 1) (sample_state ''Open'')
       = (Inr c, t) \<and> c_version c = 2"
proof -
  have "distinct (map c_id (cases (sample_state ''Open'')))" by simp
  from transition_endpoint_result [OF _ this sample_request_fits] sample_outcome
  obtain c t where "transition_case_endpoint sample_env ''1'' ''In Progress'' None None sample_actor (Some 1)
      (sample_state ''Open'') = (Inr c, t)" by (metis prod.collapse sample_state_simps(1))
  with transition_no_lost_update [OF this] show ?thesis by auto
qed

theorem merged_case_read_only_witness:
  "\<exists>t. add_note_endpoint sample_env ''1'' ''x'' sample_actor (sample_state ''Merged'')
     = (Inl (HTTPException 409 ''case_read_only''), t)"
proof -
  have "set (p_roles sample_actor) \<inter> {''analyst'', ''admin''} \<noteq> {}" by (simp add: sample_actor_def)
  from merged_case_read_only [OF sample_state_simps(3) sample_state_simps(6) this] show ?thesis by blast
qed

theorem retract_note_idempotent_witness:
  "\<exists>n t. retract_note sample_env ''n'' ''typo'' sample_actor (sample_state ''Open'') = (Inr n, t)
     \<and> retract_note sample_env ''n'' ''again'' sample_actor t = (Inr n, t) \<and> n_retraction_reason n = Some ''typo''"
proof -
  let ?s = "(sample_state ''Open'')\<lparr> case_notes := update_where (\<lambda>r. n_id r = ''n'')
      (\<lambda>_. retracted sample_note ''typo'') (case_notes (sample_state ''Open'')) \<rparr>"
  have "audit_inv (env_platform sample_env) ?s" by simp
  from record_audit_reason [OF this sample_request_fits, of "''case.note_retracted''" "''note''" "''n''" "Some ''typo''"
      "Some (JObj [(''retracted'', JBool False)])" "Some (JObj [(''retracted'', JBool True)])"]
  obtain e t where "record_audit sample_env (case_stream ''1'') (Some sample_actor) ''case.note_retracted'' ''note'' ''n''
      (Some ''typo'') (Some (JObj [(''retracted'', JBool False)])) (Some (JObj [(''retracted'', JBool True)])) ?s = (Inr e, t)"
    by (auto simp: fits_def)
  then have r: "retract_note sample_env ''n'' ''typo'' sample_actor (sample_state ''Open'')
      = (Inr (retracted sample_note ''typo''), t)"
    by (simp add: retract_note_def bind_op_apply run_simps save_note_def retracted_def sample_note_def sample_actor_def Let_def)
  have "p_user_id sample_actor = n_author_id (retracted sample_note ''typo'')"
    by (simp add: sample_actor_def sample_note_def retracted_def)
  with retract_note_idempotent [OF r, of sample_actor sample_env "''again''"] r show ?thesis
    by (simp add: retracted_def)
qed

end
