(* ===== verification/Persistence.thy ===== *)
theory Persistence
  imports CaseService "HOL-Library.Multiset"
begin

text \<open>
  \<open>app/grouping/persistence.py\<close> and \<open>config_hash\<close> of \<open>app/grouping/config.py\<close>: an ingested alert is
  grouped with the already cased alerts that the candidate query returns, the open cases of its group
  are merged into the earliest one, and the alert is linked to that case, or to a new one.

  The definitions follow \<open>_apply_grouping_for_alert\<close> step by step; the lemmas ending in \<open>_Inr\<close> give
  what a step that succeeds does to the tables. The timing metric around it is left out. The code takes no lock on
  the alerts and cases that it reads; a run is one step of the model, so what two overlapping runs may do to each
  other's aggregates is outside it.
\<close>

section \<open>Pure helpers\<close>

text \<open>\<open>_base36\<close>: the \<open>while n\<close> loop pushes the digits from the least significant on.\<close>

definition base36_digit :: "nat \<Rightarrow> char" where
  "base36_digit r = ''0123456789ABCDEFGHIJKLMNOPQRSTUVWXYZ'' ! r"

fun base36_loop :: "nat \<Rightarrow> string \<Rightarrow> string" where
  "base36_loop n out = (if n = 0 then out else base36_loop (n div 36) (out @ [base36_digit (n mod 36)]))"

declare base36_loop.simps [simp del]

definition base36 :: "nat \<Rightarrow> string" where
  "base36 n = (if n = 0 then ''0'' else rev (base36_loop n []))"

definition engine_alert_of :: "alert_row \<Rightarrow> engine_alert" where
  "engine_alert_of a =
     (let d = a_data a
      in \<lparr> ea_id = a_id a, ea_event_time = na_event_time d, ea_amount = na_amount d, ea_currency = na_currency d,
           ea_customer_ref = na_customer_ref d, ea_account_ref = na_account_ref d,
           ea_counterparty_ref = na_counterparty_ref d,
           ea_merchant_name_normalised = na_merchant_name_normalised d, ea_mcc = na_mcc d,
           ea_device_id = na_device_id d, ea_ip_address = na_ip_address d, ea_session_id = na_session_id d,
           ea_typologies = set (na_typologies d) \<rparr>)"

fun max_list :: "int \<Rightarrow> int list \<Rightarrow> int" where
  "max_list m [] = m"
| "max_list m (x # xs) = max_list (max m x) xs"

text \<open>\<open>_aggregate_risk\<close>; the weighted mode computes in floats and rounds half to even.\<close>

fun aggregate_risk :: "int list \<Rightarrow> string \<Rightarrow> int" where
  "aggregate_risk [] mode = 0"
| "aggregate_risk (s # ss) mode =
     (let dominant = max_list s ss; total = sum_list (s # ss)
      in if mode = ''sum_capped'' then min 100 total
         else if mode = ''weighted'' then
           min 100 (round_half_even (fl (fl (of_int dominant) + fl (fl (1 / 10) * fl (of_int (total - dominant))))))
         else dominant)"

section \<open>The candidate query\<close>

definition BLOCKING_FIELDS :: "(normalized_alert \<Rightarrow> string option) list" where
  "BLOCKING_FIELDS =
     [na_customer_ref, na_account_ref, na_counterparty_ref, na_device_id, na_ip_address, na_session_id,
      na_merchant_name_normalised]"

definition key_filters :: "alert_row \<Rightarrow> (normalized_alert \<Rightarrow> string option) list" where
  "key_filters a = filter (\<lambda>f. f (a_data a) \<noteq> None) BLOCKING_FIELDS"

definition query_span :: "grouping_config \<Rightarrow> int" where
  "query_span config =
     (case map time_window_seconds (filter enabled (rules config)) of [] \<Rightarrow> 0
      | w # ws \<Rightarrow> 10 ^ 6 * max_list w ws)"

definition is_candidate :: "grouping_config \<Rightarrow> alert_row \<Rightarrow> alert_row \<Rightarrow> bool" where
  "is_candidate config a c \<longleftrightarrow>
     a_case_id c \<noteq> None \<and> a_id c \<noteq> a_id a
     \<and> na_event_time (a_data a) - query_span config \<le> na_event_time (a_data c)
     \<and> na_event_time (a_data c) \<le> na_event_time (a_data a) + query_span config
     \<and> list_ex (\<lambda>f. f (a_data c) = f (a_data a)) (key_filters a)"

text \<open>\<open>ORDER BY event_time DESC LIMIT candidate_cap\<close>: equal times come as the database likes.\<close>

definition candidate_rows :: "env \<Rightarrow> alert_row \<Rightarrow> state \<Rightarrow> alert_row list" where
  "candidate_rows E a s =
     (if key_filters a = [] then []
      else take (nat (candidate_cap (env_config E)))
        (sort_key (\<lambda>c. - na_event_time (a_data c))
          (scanned E a_id (filter (is_candidate (env_config E) a) (alerts s)))))"

definition candidate_query :: "env \<Rightarrow> alert_row \<Rightarrow> alert_row list op" where
  "candidate_query E a =
     bind_op (guard (key_filters a = [] \<or> 0 \<le> candidate_cap (env_config E)) DataError) (\<lambda>_.
       read_state (candidate_rows E a))"

definition index_decisions :: "decision list \<Rightarrow> (string \<times> decision) list" where
  "index_decisions ds = fold (\<lambda>d. AList.update (d_alert_id d) d) ds []"

fun matched_case_ids :: "(string \<times> decision) list \<Rightarrow> string \<Rightarrow> alert_row list \<Rightarrow> uuid list \<Rightarrow> uuid list result" where
  "matched_case_ids by_alert key [] seen = Inr seen"
| "matched_case_ids by_alert key (c # cs) seen =
     (case a_case_id c of
        None \<Rightarrow> matched_case_ids by_alert key cs seen
      | Some i \<Rightarrow>
          if i \<in> set seen then matched_case_ids by_alert key cs seen
          else rbind (getitem by_alert (a_id c)) (\<lambda>d.
            matched_case_ids by_alert key cs (if d_group_key d = key then seen @ [i] else seen)))"

section \<open>The configuration hash\<close>

definition rule_json :: "platform \<Rightarrow> rule \<Rightarrow> json" where
  "rule_json P r =
     JObj [(''id'', JStr (rule_id r)), (''enabled'', JBool (enabled r)),
       (''blocking_keys'', JList (map JStr (blocking_keys r))), (''time_window_seconds'', JInt (time_window_seconds r)),
       (''amount_tolerance'', JFloat (float_repr P (fl (amount_tolerance r)))),
       (''match_keys'', JList (map JStr (match_keys r))), (''weight'', JFloat (float_repr P (weight r)))]"

definition config_json :: "platform \<Rightarrow> grouping_config \<Rightarrow> json" where
  "config_json P c =
     JObj [(''rules'', JList (map (rule_json P) (rules c))),
       (''weights'', JObj [(''time'', JFloat (float_repr P (w_time (weights c)))),
          (''amount'', JFloat (float_repr P (w_amount (weights c)))), (''name'', JFloat (float_repr P (w_name (weights c)))),
          (''device'', JFloat (float_repr P (w_device (weights c)))), (''ip'', JFloat (float_repr P (w_ip (weights c)))),
          (''typology'', JFloat (float_repr P (w_typology (weights c))))]),
       (''similarity_threshold'', JFloat (float_repr P (similarity_threshold c))),
       (''candidate_cap'', JInt (candidate_cap c)), (''time_tau_seconds'', JInt (time_tau_seconds c)),
       (''dispositions'', JList (map JStr (dispositions c))), (''risk_aggregation'', JStr (risk_aggregation c))]"

definition config_hash :: "platform \<Rightarrow> grouping_config \<Rightarrow> string" where
  "config_hash P c = sha256 P (canonical_json (config_json P c))"

section \<open>The steps of the transaction\<close>

definition flag_closed :: "env \<Rightarrow> alert_row \<Rightarrow> case_row \<Rightarrow> unit op" where
  "flag_closed E a c =
     bind_op (record_audit E (case_stream (c_id c)) None ''case.review_flagged'' ''case'' (c_id c)
       (Some (''new alert '' @ a_id a @ '' matched a closed case'')) None None) (\<lambda>_. ret ())"

definition opt_score :: "int option \<Rightarrow> int" where
  "opt_score r = (case r of None \<Rightarrow> 0 | Some n \<Rightarrow> n)"

definition human_ref :: "nat \<Rightarrow> string" where
  "human_ref n = ''CASE-'' @ base36 n"

definition fresh_case :: "env \<Rightarrow> uuid \<Rightarrow> nat \<Rightarrow> alert_row \<Rightarrow> case_row" where
  "fresh_case E i n a =
     \<lparr> c_id = i, c_human_ref = human_ref n, c_status = ''Open'', c_disposition = None, c_assignee_id = None,
       c_risk_score = opt_score (na_risk_score (a_data a)), c_alert_count = 0, c_closed_at = None,
       c_canonical_from_case_id = None, c_version = 1, c_created_at = txn_now E, c_updated_at = txn_now E \<rparr>"

definition create_case :: "env \<Rightarrow> alert_row \<Rightarrow> case_row op" where
  "create_case E a =
     bind_op (read_state human_ref_seq) (\<lambda>n.
     bind_op (modify (\<lambda>s. s\<lparr> human_ref_seq := Suc n \<rparr>)) (\<lambda>_.
     bind_op (uuid4 E) (\<lambda>i.
       let c = fresh_case E i n a
       in bind_op (guard (fits 64 (c_human_ref c)) DataError) (\<lambda>_.
          bind_op (read_state cases) (\<lambda>cs.
          bind_op (guard (i \<notin> c_id ` set cs \<and> c_human_ref c \<notin> c_human_ref ` set cs) IntegrityError) (\<lambda>_.
          bind_op (modify (\<lambda>s. s\<lparr> cases := cases s @ [c] \<rparr>)) (\<lambda>_. ret c)))))))"

text \<open>The four bulk updates that move everything of one case to another.\<close>

definition move_contents :: "uuid \<Rightarrow> uuid \<Rightarrow> state \<Rightarrow> state" where
  "move_contents from_id to_id s =
     s\<lparr> alerts := update_where (\<lambda>r. a_case_id r = Some from_id) (\<lambda>r. r\<lparr> a_case_id := Some to_id \<rparr>) (alerts s),
        links := update_where (\<lambda>r. l_case_id r = from_id) (\<lambda>r. r\<lparr> l_case_id := to_id \<rparr>) (links s),
        case_notes := update_where (\<lambda>r. n_case_id r = from_id) (\<lambda>r. r\<lparr> n_case_id := to_id \<rparr>) (case_notes s),
        groupings := update_where (\<lambda>r. g_case_id r = from_id) (\<lambda>r. r\<lparr> g_case_id := to_id \<rparr>) (groupings s) \<rparr>"

definition merge_case :: "env \<Rightarrow> case_row \<Rightarrow> case_row \<Rightarrow> unit op" where
  "merge_case E survivor loser =
     bind_op (modify (move_contents (c_id loser) (c_id survivor))) (\<lambda>_.
     bind_op (save_case E (loser\<lparr> c_status := ''Merged'', c_canonical_from_case_id := Some (c_id survivor) \<rparr>)) (\<lambda>_.
     bind_op (record_audit E (case_stream (c_id loser)) None ''case.merged'' ''case'' (c_id loser) None
       (Some (JObj [(''status'', JStr (c_status loser))]))
       (Some (JObj [(''status'', JStr ''Merged''), (''canonical_from_case_id'', JStr (c_id survivor))]))) (\<lambda>_.
     ret ())))"

definition case_age :: "case_row \<Rightarrow> int \<times> uuid" where
  "case_age c = (c_created_at c, c_id c)"

fun earliest :: "case_row \<Rightarrow> case_row list \<Rightarrow> case_row" where
  "earliest c [] = c"
| "earliest c (d # ds) = earliest (if case_age d < case_age c then d else c) ds"

definition choose_target :: "env \<Rightarrow> alert_row \<Rightarrow> case_row list \<Rightarrow> (case_row \<times> bool) op" where
  "choose_target E a open_cases =
     (case open_cases of
        [] \<Rightarrow> bind_op (create_case E a) (\<lambda>c. ret (c, True))
      | c # cs \<Rightarrow>
          if cs = [] then ret (c, False)
          else
            let survivor = earliest c cs
            in bind_op (each (merge_case E survivor) (filter (\<lambda>l. c_id l \<noteq> c_id survivor) (c # cs))) (\<lambda>_.
               ret (survivor, False)))"

definition new_grouping :: "env \<Rightarrow> uuid \<Rightarrow> uuid \<Rightarrow> uuid \<Rightarrow> decision \<Rightarrow> int \<Rightarrow> grouping_row" where
  "new_grouping E i alert_id case_id d t =
     \<lparr> g_id = i, g_alert_id = alert_id, g_case_id = case_id, g_method = d_method d,
       g_matched_rule_ids = d_matched_rule_ids d, g_similarity_score = d_similarity_score d,
       g_feature_contributions = d_contributions d, g_engine_version = ENGINE_VERSION,
       g_config_hash = config_hash (env_platform E) (env_config E), g_created_at = t \<rparr>"

definition grouping_fits :: "grouping_row \<Rightarrow> bool" where
  "grouping_fits g \<longleftrightarrow>
     fits 32 (g_method g) \<and> fits 64 (g_config_hash g) \<and> list_all (\<lambda>r. CHR 0x00 \<notin> set r) (g_matched_rule_ids g)"

definition attach_alert :: "env \<Rightarrow> alert_row \<Rightarrow> case_row \<Rightarrow> decision \<Rightarrow> int \<Rightarrow> string \<Rightarrow> grouping_row op" where
  "attach_alert E a target d t actor_label =
     bind_op (modify (\<lambda>s. s\<lparr> alerts := update_where (\<lambda>r. a_id r = a_id a) (\<lambda>r. r\<lparr> a_case_id := Some (c_id target) \<rparr>) (alerts s) \<rparr>)) (\<lambda>_.
     bind_op (uuid4 E) (\<lambda>i.
       let g = new_grouping E i (a_id a) (c_id target) d t
       in bind_op (guard (grouping_fits g) DataError) (\<lambda>_.
          bind_op (read_state (\<lambda>s. a_id a \<in> a_id ` set (alerts s) \<and> i \<notin> g_id ` set (groupings s))) (\<lambda>ok.
          bind_op (guard ok IntegrityError) (\<lambda>_.
          bind_op (modify (\<lambda>s. s\<lparr> groupings := groupings s @ [g] \<rparr>)) (\<lambda>_.
          bind_op (uuid4 E) (\<lambda>j.
          bind_op (guard (fits 255 actor_label) DataError) (\<lambda>_.
          bind_op (read_state (\<lambda>s. a_id a \<notin> l_alert_id ` set (links s) \<and> j \<notin> l_id ` set (links s))) (\<lambda>ok.
          bind_op (guard ok IntegrityError) (\<lambda>_.
          bind_op (modify (\<lambda>s. s\<lparr> links := links s @
            [\<lparr> l_id = j, l_case_id = c_id target, l_alert_id = a_id a, l_grouping_decision_id = i, l_linked_at = t,
               l_linked_by = actor_label \<rparr>] \<rparr>)) (\<lambda>_.
          ret g)))))))))))"

text \<open>The aggregates of a case, as the two queries compute them.\<close>

definition member_scores :: "state \<Rightarrow> uuid \<Rightarrow> int list" where
  "member_scores s i =
     map (\<lambda>a. opt_score (na_risk_score (a_data a))) (filter (\<lambda>a. a_case_id a = Some i) (alerts s))"

definition link_count :: "state \<Rightarrow> uuid \<Rightarrow> nat" where
  "link_count s i = length (filter (\<lambda>l. l_case_id l = i) (links s))"

definition refresh_case :: "env \<Rightarrow> bool \<Rightarrow> case_row \<Rightarrow> case_row op" where
  "refresh_case E created_new target =
     bind_op (read_state (\<lambda>s. (member_scores s (c_id target), link_count s (c_id target)))) (\<lambda>(scores, n).
       let t1 = target\<lparr> c_risk_score := aggregate_risk scores (risk_aggregation (env_config E)),
                        c_alert_count := int n \<rparr>;
           t2 = (if created_new then t1 else t1\<lparr> c_version := c_version t1 + 1 \<rparr>)
       in bind_op (save_case E t2) (\<lambda>_. ret t2))"

definition apply_grouping :: "env \<Rightarrow> alert_row \<Rightarrow> string \<Rightarrow> (case_row \<times> grouping_row) op" where
  "apply_grouping E a actor_label =
     bind_op (now E) (\<lambda>t.
     bind_op (candidate_query E a) (\<lambda>candidates.
     bind_op (lift_result (group (env_platform E) (engine_alert_of a # map engine_alert_of candidates) (env_config E) [] []))
      (\<lambda>ds.
     bind_op (lift_result (getitem (index_decisions ds) (a_id a))) (\<lambda>d.
     bind_op (modify (\<lambda>s. s\<lparr> decisions_total := decisions_total s @ [d_method d] \<rparr>)) (\<lambda>_.
     bind_op (lift_result (matched_case_ids (index_decisions ds) (d_group_key d) candidates [])) (\<lambda>ids.
     bind_op (read_state (\<lambda>s. scanned E c_id (filter (\<lambda>c. c_id c \<in> set ids) (cases s)))) (\<lambda>cs.
     bind_op (each (flag_closed E a) (filter (\<lambda>c. c_status c = ''Closed'') cs)) (\<lambda>_.
     bind_op (choose_target E a (filter (\<lambda>c. c_status c \<notin> {''Merged'', ''Closed''}) cs)) (\<lambda>(target, created_new).
     bind_op (attach_alert E a target d t actor_label) (\<lambda>g.
     bind_op (refresh_case E created_new target) (\<lambda>target1.
     bind_op (record_audit E (case_stream (c_id target1)) None ''case.alert_linked'' ''case'' (c_id target1) None None
       (Some (JObj [(''alert_id'', JStr (a_id a)), (''method'', JStr (d_method d))]))) (\<lambda>_.
     ret (target1, g)))))))))))))"

section \<open>Human references\<close>

text \<open>Reading a reference back: Python's \<open>int(text, 36)\<close> on upper-case digits.\<close>

definition digit36 :: "char \<Rightarrow> nat" where
  "digit36 c = (if of_char c < (58 :: nat) then of_char c - 48 else of_char c - 55)"

fun value36 :: "nat \<Rightarrow> string \<Rightarrow> nat" where
  "value36 v [] = v"
| "value36 v (c # cs) = value36 (36 * v + digit36 c) cs"

lemma value36_append: "value36 v (s @ t) = value36 (value36 v s) t"
  by (induction s arbitrary: v) auto

lemma less36_cases: "(r :: nat) < 36 \<Longrightarrow> r \<in> set [0..<36]"
  by simp

lemma digit36_base36_digit: "r < 36 \<Longrightarrow> digit36 (base36_digit r) = r"
  by (drule less36_cases) (auto simp: upt_conv_Cons base36_digit_def digit36_def)

lemma base36_digit_char: "r < 36 \<Longrightarrow> base36_digit r \<noteq> CHR 0x00 \<and> (base36_digit r = CHR ''0'' \<longleftrightarrow> r = 0)"
  by (drule less36_cases) (auto simp: upt_conv_Cons base36_digit_def)

lemma base36_loop_append: "base36_loop n (u @ out) = u @ base36_loop n out"
proof (induction n arbitrary: out rule: less_induct)
  case (less n)
  show ?case
  proof (cases "n = 0")
    case False
    then have "base36_loop (n div 36) (u @ out @ [d]) = u @ base36_loop (n div 36) (out @ [d])" for d
      by (intro less.IH) simp
    with False show ?thesis by (simp add: base36_loop.simps [of n])
  qed (simp add: base36_loop.simps)
qed

lemma base36_loop_step: "0 < n \<Longrightarrow> base36_loop n [] = base36_digit (n mod 36) # base36_loop (n div 36) []"
  using base36_loop_append [of "n div 36" "[base36_digit (n mod 36)]" "[]"] by (simp add: base36_loop.simps [of n])

lemma base36_step: "0 < n \<Longrightarrow> base36 n = (if n < 36 then [] else base36 (n div 36)) @ [base36_digit (n mod 36)]"
  by (auto simp: base36_def base36_loop_step base36_loop.simps [of 0])

lemma base36_induct [case_names digit step]:
  assumes "\<And>n. n < 36 \<Longrightarrow> base36 n = [base36_digit n] \<Longrightarrow> P n"
    and "\<And>n. 36 \<le> n \<Longrightarrow> P (n div 36) \<Longrightarrow> base36 n = base36 (n div 36) @ [base36_digit (n mod 36)] \<Longrightarrow> P n"
  shows "P n"
proof (induction n rule: less_induct)
  case (less n)
  show ?case
  proof (cases "n < 36")
    case True
    have "base36 n = [base36_digit n]"
      using True by (cases "n = 0") (simp_all add: base36_step [of n], simp add: base36_def base36_digit_def)
    with True show ?thesis by (rule assms(1))
  next
    case False
    then have "base36 n = base36 (n div 36) @ [base36_digit (n mod 36)]" by (simp add: base36_step [of n])
    moreover from False have "P (n div 36)" by (intro less.IH) simp
    ultimately show ?thesis using assms(2) [of n] False by simp
  qed
qed

lemma value36_base36: "value36 0 (base36 n) = n"
  by (induction n rule: base36_induct) (simp_all add: value36_append digit36_base36_digit)

lemma base36_inject: "base36 m = base36 n \<longleftrightarrow> m = n"
  by (metis value36_base36)

lemma length_base36: "n < 36 ^ Suc k \<Longrightarrow> length (base36 n) \<le> Suc k"
proof (induction n arbitrary: k rule: base36_induct)
  case (step n)
  show ?case
  proof (cases k)
    case 0
    with step.prems step.hyps(1) show ?thesis by simp
  next
    case (Suc j)
    with step.prems have "n div 36 < 36 ^ Suc j" by (simp add: less_mult_imp_div_less mult.commute)
    from step.IH [OF this] have "length (base36 (n div 36)) \<le> k" by (simp only: Suc)
    then show ?thesis by (simp only: step.hyps(2) length_append list.size)
  qed
qed simp

lemma base36_no_NUL: "CHR 0x00 \<notin> set (base36 n)"
  by (induction n rule: base36_induct) (auto simp: base36_digit_char [THEN conjunct1, THEN not_sym])

lemma base36_leading: "0 < n \<Longrightarrow> hd (base36 n) \<noteq> CHR ''0''"
proof (induction n rule: base36_induct)
  case (step n)
  from step.hyps have "base36 (n div 36) \<noteq> []" by (induction "n div 36" rule: base36_induct) auto
  with step show ?case by simp
qed (simp add: base36_digit_char)

lemma fits_human_ref: "n < 2 ^ 63 \<Longrightarrow> fits 64 (human_ref n)"
  using length_base36 [of n 12] base36_no_NUL [of n] by (simp add: fits_def human_ref_def)

text \<open>The reference text of a case determines the sequence number: reading it in base 36 gives
  the number back, so no two cases share a reference. It has no leading zero, and every value of the
  sequence (a 64-bit integer) gives at most thirteen digits, which fit the column.\<close>

theorem human_ref_roundtrip:
  "value36 0 (base36 n) = n \<and> (human_ref m = human_ref n \<longleftrightarrow> m = n)
   \<and> (hd (base36 n) = CHR ''0'' \<longleftrightarrow> n = 0) \<and> (36 ^ 13 \<le> n \<or> length (base36 n) \<le> 13)"
proof -
  have "hd (base36 0) = CHR ''0''" by (simp add: base36_def)
  then show ?thesis
    using base36_leading [of n] length_base36 [of n 12]
    by (cases "n = 0"; cases "n < 36 ^ 13") (simp_all add: value36_base36 human_ref_def base36_inject)
qed

section \<open>Risk aggregation\<close>

lemma max_list_fold: "max_list m xs = fold max xs m"
  by (induction xs arbitrary: m) (auto simp: max.commute)

lemma max_list_Max: "max_list m xs = Max (set (m # xs))"
  by (simp only: max_list_fold Max.set_eq_fold)

definition combine_risk :: "string \<Rightarrow> int \<Rightarrow> int \<Rightarrow> int" where
  "combine_risk mode dominant rest =
     (if mode = ''sum_capped'' then min 100 (dominant + rest)
      else if mode = ''weighted'' then
        min 100 (round_half_even (fl (fl (of_int dominant) + fl (fl (1 / 10) * fl (of_int rest)))))
      else dominant)"

lemma aggregate_risk_eq:
  "aggregate_risk xs mode = (if xs = [] then 0 else combine_risk mode (Max (set xs)) (sum_list xs - Max (set xs)))"
  by (cases xs) (simp_all add: combine_risk_def Let_def max_list_Max del: list.set(2))

lemma aggregate_risk_nonempty:
  "xs \<noteq> [] \<Longrightarrow> aggregate_risk xs mode = combine_risk mode (Max (set xs)) (sum_list xs - Max (set xs))"
  by (simp add: aggregate_risk_eq)

lemma aggregate_risk_perm: "mset xs = mset ys \<Longrightarrow> aggregate_risk xs mode = aggregate_risk ys mode"
  using mset_eq_setD [of xs ys] sum_mset_sum_list [of xs] sum_mset_sum_list [of ys]
  by (auto simp: aggregate_risk_eq)

lemma combine_risk_mono:
  assumes "d \<le> d'" and "r \<le> r'"
  shows "combine_risk mode d r \<le> combine_risk mode d' r'"
proof -
  have "0 \<le> fl (1 / 10)" by (rule fl_nonneg) simp
  then have "fl (fl (of_int d) + fl (fl (1 / 10) * fl (of_int r)))
      \<le> fl (fl (of_int d') + fl (fl (1 / 10) * fl (of_int r')))"
    using assms by (intro fl_mono add_mono mult_left_mono) (auto intro: fl_mono)
  from round_half_even_mono [OF this] assms show ?thesis by (auto simp: combine_risk_def)
qed

lemma combine_risk_bounds:
  assumes "0 \<le> d" and "d \<le> 100" and "0 \<le> r"
  shows "d \<le> combine_risk mode d r" and "combine_risk mode d r \<le> 100"
proof -
  have "combine_risk mode d 0 = d"
    using assms by (simp add: combine_risk_def fl_of_int)
  then show "d \<le> combine_risk mode d r" using combine_risk_mono [OF order_refl assms(3), of mode d] by simp
  show "combine_risk mode d r \<le> 100" using assms(2) by (simp add: combine_risk_def)
qed

lemma Max_le_sum_list:
  fixes xs :: "int list"
  assumes "\<forall>x \<in> set xs. 0 \<le> x" and "xs \<noteq> []"
  shows "Max (set xs) \<le> sum_list xs"
proof -
  have "x \<le> sum_list ys" if "\<forall>y \<in> set ys. 0 \<le> y" "x \<in> set ys" for x :: int and ys
    using that
  proof (induction ys)
    case (Cons y ys)
    moreover have "0 \<le> sum_list ys" using Cons.prems(1) by (auto intro: sum_list_nonneg)
    ultimately show ?case by fastforce
  qed simp
  with assms show ?thesis by simp
qed

text \<open>The aggregated risk of a case with alerts scored from 0 to 100 is at least the score of each of its
  alerts and at most 100; one more alert never lowers it, and it does not depend on the order in which
  the database returns the alerts. This holds in all three modes, the float arithmetic of the weighted
  one included.\<close>

theorem aggregate_risk_bounds:
  assumes "\<forall>x \<in> set (y # xs). 0 \<le> x \<and> x \<le> 100"
  shows "aggregate_risk xs mode \<le> aggregate_risk (y # xs) mode
    \<and> (\<forall>x \<in> set (y # xs). x \<le> aggregate_risk (y # xs) mode) \<and> aggregate_risk (y # xs) mode \<le> 100
    \<and> (mset zs = mset xs \<longrightarrow> aggregate_risk zs mode = aggregate_risk xs mode)"
proof (intro conjI)
  let ?m = "Max (set (y # xs))"
  have m: "0 \<le> ?m" "?m \<le> 100" using assms by (auto simp: Max_ge_iff)
  have rest: "0 \<le> sum_list (y # xs) - ?m" using Max_le_sum_list [of "y # xs"] assms by simp
  note bounds = combine_risk_bounds [OF m rest, of mode]
  show "aggregate_risk (y # xs) mode \<le> 100" using bounds(2) by (simp add: aggregate_risk_eq)
  show "\<forall>x \<in> set (y # xs). x \<le> aggregate_risk (y # xs) mode"
    using bounds(1) by (auto simp: aggregate_risk_eq intro: order_trans [OF Max_ge])
  show "aggregate_risk xs mode \<le> aggregate_risk (y # xs) mode"
  proof (cases "xs = []")
    case True
    then show ?thesis using bounds(1) m by (simp add: aggregate_risk_eq)
  next
    case False
    have m0: "0 \<le> Max (set xs)" using False assms by (auto simp: Max_ge_iff ex_in_conv)
    have le: "Max (set xs) \<le> ?m" using False by (simp add: Max_mono)
    have "?m = y \<or> ?m = Max (set xs)" using False by (auto simp: max_def)
    moreover have "0 \<le> y" "sum_list (y # xs) = y + sum_list xs" using assms by auto
    ultimately have "sum_list xs - Max (set xs) \<le> sum_list (y # xs) - ?m" using m0 by linarith
    then show ?thesis
      unfolding aggregate_risk_nonempty [OF False] aggregate_risk_nonempty [OF list.distinct(2)]
      by (rule combine_risk_mono [OF le])
  qed
  show "mset zs = mset xs \<longrightarrow> aggregate_risk zs mode = aggregate_risk xs mode"
    by (blast intro: aggregate_risk_perm)
qed

theorem aggregate_risk_bounds_witness:
  "aggregate_risk [80, 30] ''weighted'' \<le> aggregate_risk [55, 80, 30] ''weighted''
   \<and> aggregate_risk [55, 80, 30] ''weighted'' \<le> 100"
  using aggregate_risk_bounds [of 55 "[80, 30]" "''weighted''" "[30, 80]"] by (simp del: aggregate_risk.simps)

end
