(* ===== verification/CaseBook.thy ===== *)
theory CaseBook
  imports Persistence
begin

text \<open>
  What the tables of cases, alerts, links, notes and grouping decisions promise together, and that
  \<open>apply_grouping\<close> keeps the promise.

  \<open>book_upto cfg T s\<close> is the invariant in which the aggregates of the cases in \<open>T\<close> may be stale;
  \<open>book_inv\<close> is the case \<open>T = {}\<close>. Creating, merging and attaching put a case into \<open>T\<close>, and
  \<open>refresh_case\<close> takes it out. \<open>membership\<close> abstracts the tables to a partial map from alerts to cases,
  on which merging and attaching are plain updates.
\<close>

section \<open>The invariant\<close>

definition live :: "state \<Rightarrow> uuid \<Rightarrow> bool" where
  "live s i \<longleftrightarrow> (\<exists>c \<in> set (cases s). c_id c = i \<and> c_status c \<noteq> ''Merged'')"

definition keys_ok :: "state \<Rightarrow> bool" where
  "keys_ok s \<longleftrightarrow>
     distinct (map a_id (alerts s)) \<and> distinct (map c_id (cases s)) \<and> distinct (map c_human_ref (cases s))
     \<and> distinct (map l_alert_id (links s)) \<and> distinct (map g_id (groupings s))"

text \<open>An alert is in a case exactly when a link says so, and only live cases hold anything.\<close>

definition attached_ok :: "state \<Rightarrow> bool" where
  "attached_ok s \<longleftrightarrow>
     (\<forall>a \<in> set (alerts s). \<forall>i. a_case_id a = Some i \<longleftrightarrow> (\<exists>l \<in> set (links s). l_alert_id l = a_id a \<and> l_case_id l = i))
     \<and> (\<forall>l \<in> set (links s). l_alert_id l \<in> a_id ` set (alerts s) \<and> live s (l_case_id l))
     \<and> (\<forall>g \<in> set (groupings s). live s (g_case_id g))
     \<and> (\<forall>l \<in> set (links s). \<exists>g \<in> set (groupings s). g_id g = l_grouping_decision_id l
          \<and> g_alert_id g = l_alert_id l \<and> g_case_id g = l_case_id l)
     \<and> (\<forall>n \<in> set (case_notes s). live s (n_case_id n))"

definition aggregates_ok :: "grouping_config \<Rightarrow> state \<Rightarrow> case_row \<Rightarrow> bool" where
  "aggregates_ok cfg s c \<longleftrightarrow>
     c_alert_count c = int (link_count s (c_id c))
     \<and> c_risk_score c = aggregate_risk (member_scores s (c_id c)) (risk_aggregation cfg)"

text \<open>A merged case points at an older one.\<close>

definition merges_ok :: "state \<Rightarrow> bool" where
  "merges_ok s \<longleftrightarrow>
     (\<forall>c \<in> set (cases s). c_status c = ''Merged'' \<longrightarrow>
        (\<exists>d \<in> set (cases s). c_canonical_from_case_id c = Some (c_id d) \<and> case_age d < case_age c))"

definition book_upto :: "grouping_config \<Rightarrow> uuid set \<Rightarrow> state \<Rightarrow> bool" where
  "book_upto cfg T s \<longleftrightarrow>
     keys_ok s \<and> attached_ok s \<and> merges_ok s \<and> cases_inv (dispositions cfg) s
     \<and> (\<forall>c \<in> set (cases s). c_status c \<noteq> ''Merged'' \<and> c_id c \<notin> T \<longrightarrow> aggregates_ok cfg s c)"

abbreviation book_inv :: "grouping_config \<Rightarrow> state \<Rightarrow> bool" where
  "book_inv cfg \<equiv> book_upto cfg {}"

definition same_book :: "state \<Rightarrow> state \<Rightarrow> bool" where
  "same_book s t \<longleftrightarrow>
     alerts t = alerts s \<and> cases t = cases s \<and> links t = links s \<and> case_notes t = case_notes s
     \<and> groupings t = groupings s"

definition membership :: "state \<Rightarrow> uuid \<rightharpoonup> uuid" where
  "membership s x = (case List.find (\<lambda>a. a_id a = x) (alerts s) of None \<Rightarrow> None | Some a \<Rightarrow> a_case_id a)"

lemmas book_defs = book_upto_def keys_ok_def attached_ok_def merges_ok_def aggregates_ok_def live_def
  link_count_def member_scores_def

lemma same_book_inv: "same_book s t \<Longrightarrow> book_upto cfg T t = book_upto cfg T s"
  by (simp add: same_book_def book_defs cases_inv_def)

lemma same_book_membership: "same_book s t \<Longrightarrow> membership t = membership s"
  by (simp add: same_book_def membership_def fun_eq_iff)

lemma same_book_trans: "same_book s t \<Longrightarrow> same_book t u \<Longrightarrow> same_book s u"
  by (simp add: same_book_def)

lemma same_book_refl [simp]: "same_book s s"
  by (simp add: same_book_def)

lemma record_audit_same_book:
  assumes "record_audit E k actor action tt tid reason before after s = (Inr e, t)" and "audit_inv (env_platform E) s"
  shows "same_book s t"
  using record_audit_frame [OF assms] by (simp add: same_book_def)

lemma book_mono: "book_upto cfg T s \<Longrightarrow> T \<subseteq> U \<Longrightarrow> book_upto cfg U s"
  by (auto simp: book_upto_def)

lemma book_inv_empty [simp]: "book_inv cfg empty_state"
  by (simp add: book_defs empty_state_def cases_inv_def)

section \<open>Creating a case\<close>

lemma fresh_case_simps [simp]:
  "c_id (fresh_case E i n a) = i" "c_human_ref (fresh_case E i n a) = human_ref n"
  "c_status (fresh_case E i n a) = ''Open''" "c_created_at (fresh_case E i n a) = txn_now E"
  by (simp_all add: fresh_case_def)

lemma create_case_Inr:
  assumes "create_case E a s = (Inr c, t)"
  shows "c = fresh_case E (new_uuid E (uuids s)) (human_ref_seq s) a \<and> c_id c \<notin> c_id ` set (cases s)
    \<and> c_human_ref c \<notin> c_human_ref ` set (cases s)
    \<and> t = s\<lparr> cases := cases s @ [c], human_ref_seq := Suc (human_ref_seq s), uuids := Suc (uuids s) \<rparr>"
  using assms by (auto simp: create_case_def op_simps Let_def)

lemma dead_empty:
  assumes "attached_ok s" and "\<not> live s i"
  shows "filter (\<lambda>l. l_case_id l = i) (links s) = []" "filter (\<lambda>a. a_case_id a = Some i) (alerts s) = []"
  using assms by (force simp: attached_ok_def filter_empty_conv)+

lemma create_case_book:
  assumes "create_case E a s = (Inr c, t)" and "book_upto cfg T s"
  shows "book_upto cfg (insert (c_id c) T) t" and "membership t = membership s"
    and "c \<in> set (cases t)" and "c_status c = ''Open''"
proof -
  from create_case_Inr [OF assms(1)] have c: "c = fresh_case E (new_uuid E (uuids s)) (human_ref_seq s) a"
    and new: "c_id c \<notin> c_id ` set (cases s)" "c_human_ref c \<notin> c_human_ref ` set (cases s)"
    and t: "t = s\<lparr> cases := cases s @ [c], human_ref_seq := Suc (human_ref_seq s), uuids := Suc (uuids s) \<rparr>"
    by blast+
  have live: "live s i \<Longrightarrow> live t i" for i by (auto simp: t live_def)
  have "keys_ok t" using assms(2) new by (simp add: book_upto_def keys_ok_def t)
  moreover have "attached_ok t"
    using assms(2) live by (simp add: book_upto_def attached_ok_def t)
  moreover have "merges_ok t"
    using assms(2) by (auto simp: book_upto_def merges_ok_def t c fresh_case_def)
  moreover have "\<forall>d \<in> set (cases s). c_status d \<noteq> ''Merged'' \<and> c_id d \<notin> T \<longrightarrow> aggregates_ok cfg t d"
    using assms(2) by (simp add: book_upto_def aggregates_ok_def t link_count_def member_scores_def)
  moreover have "cases_inv (dispositions cfg) t"
    using assms(2) new(1) by (auto simp: book_upto_def cases_inv_def t c fresh_case_def case_ok_def STATUSES_def ALLOWED_def)
  ultimately show "book_upto cfg (insert (c_id c) T) t" by (auto simp: book_upto_def t)
  show "membership t = membership s" by (simp add: membership_def t fun_eq_iff)
  show "c \<in> set (cases t)" "c_status c = ''Open''" by (simp_all add: t, simp add: c fresh_case_def)
qed

section \<open>Merging\<close>

definition merged_row :: "case_row \<Rightarrow> case_row \<Rightarrow> case_row" where
  "merged_row survivor loser = loser\<lparr> c_status := ''Merged'', c_canonical_from_case_id := Some (c_id survivor) \<rparr>"

definition absorb :: "env \<Rightarrow> case_row \<Rightarrow> case_row \<Rightarrow> state \<Rightarrow> state" where
  "absorb E survivor loser s =
     (move_contents (c_id loser) (c_id survivor) s)\<lparr> cases := stored E (merged_row survivor loser) (cases s) \<rparr>"

definition alert_data :: "state \<Rightarrow> (uuid \<times> normalized_alert \<times> string option \<times> int) list" where
  "alert_data s = map (\<lambda>a. (a_id a, a_data a, a_idempotency_key a, a_received_at a)) (alerts s)"

lemma merged_row_simps [simp]:
  "c_id (merged_row v l) = c_id l" "c_status (merged_row v l) = ''Merged''" "case_age (merged_row v l) = case_age l"
  "c_canonical_from_case_id (merged_row v l) = Some (c_id v)" "c_human_ref (merged_row v l) = c_human_ref l"
  by (simp_all add: merged_row_def case_age_def)

lemma audit_inv_move [simp]: "audit_inv P (move_contents i j s) = audit_inv P s"
  by (simp add: move_contents_def)

lemma merge_case_Inr:
  assumes "merge_case E survivor loser s = (Inr u, t)" and "audit_inv (env_platform E) s"
  shows "audit_inv (env_platform E) t \<and> same_book (absorb E survivor loser s) t
    \<and> (\<exists>e. events t = events s @ [e] \<and> ev_stream e = case_stream (c_id loser) \<and> ev_action e = ''case.merged'')"
proof -
  from assms(1) obtain e where audit: "record_audit E (case_stream (c_id loser)) None ''case.merged'' ''case'' (c_id loser) None
       (Some (JObj [(''status'', JStr (c_status loser))]))
       (Some (JObj [(''status'', JStr ''Merged''), (''canonical_from_case_id'', JStr (c_id survivor))]))
       (absorb E survivor loser s) = (Inr e, t)"
    by (auto simp: merge_case_def op_simps absorb_def merged_row_def move_contents_def)
  have inv: "audit_inv (env_platform E) (absorb E survivor loser s)" using assms(2) by (simp add: absorb_def)
  have "events (absorb E survivor loser s) = events s" by (simp add: absorb_def move_contents_def)
  then show ?thesis
    using record_audit_same_book [OF audit inv] record_audit_frame(9,10) [OF audit inv] record_audit_inv [OF audit inv]
    by auto
qed

lemma filter_update_where_other:
  "(\<And>r. p r \<Longrightarrow> \<not> q r \<and> \<not> q (f r)) \<Longrightarrow> filter q (update_where p f rows) = filter q rows"
  by (induction rows) (auto simp: update_where_def)

lemma find_key_Some: "List.find (\<lambda>r. k r = x) rows = Some r \<Longrightarrow> r \<in> set rows \<and> k r = x"
  by (auto simp: find_Some_iff)

lemma find_update_where:
  assumes "\<And>r. k (f r) = k r"
  shows "List.find (\<lambda>r. k r = x) (update_where p f rows) = map_option (\<lambda>r. if p r then f r else r) (List.find (\<lambda>r. k r = x) rows)"
  using assms by (induction rows) (auto simp: update_where_def)

lemma absorb_tables [simp]:
  "alerts (absorb E v l s) = update_where (\<lambda>r. a_case_id r = Some (c_id l)) (\<lambda>r. r\<lparr> a_case_id := Some (c_id v) \<rparr>) (alerts s)"
  "links (absorb E v l s) = update_where (\<lambda>r. l_case_id r = c_id l) (\<lambda>r. r\<lparr> l_case_id := c_id v \<rparr>) (links s)"
  "case_notes (absorb E v l s) = update_where (\<lambda>r. n_case_id r = c_id l) (\<lambda>r. r\<lparr> n_case_id := c_id v \<rparr>) (case_notes s)"
  "groupings (absorb E v l s) = update_where (\<lambda>r. g_case_id r = c_id l) (\<lambda>r. r\<lparr> g_case_id := c_id v \<rparr>) (groupings s)"
  "cases (absorb E v l s) = stored E (merged_row v l) (cases s)"
  by (simp_all add: absorb_def move_contents_def)

lemma absorb_membership:
  "membership (absorb E v l s) = (\<lambda>x. if membership s x = Some (c_id l) then Some (c_id v) else membership s x)"
  by (auto simp: fun_eq_iff membership_def find_update_where split: option.splits)

lemma absorb_data: "alert_data (absorb E v l s) = alert_data s"
  by (simp add: alert_data_def update_where_def)

lemma absorb_cases:
  assumes "distinct (map c_id (cases s))" and "l \<in> set (cases s)"
  shows "c \<in> set (cases (absorb E v l s)) \<longleftrightarrow>
    c = (merged_row v l)\<lparr> c_updated_at := txn_now E \<rparr> \<or> c \<in> set (cases s) \<and> c \<noteq> l"
proof -
  have "d = l" if "d \<in> set (cases s)" "c_id d = c_id l" for d
    using that assms by (auto simp: distinct_map inj_on_def)
  then show ?thesis using assms(2) by (auto simp: stored_def set_update_where)
qed

lemma stored_map:
  assumes "distinct (map c_id rows)" and "l \<in> set rows" and "c_id c = c_id l" and "k (c\<lparr> c_updated_at := txn_now E \<rparr>) = k l"
  shows "map k (stored E c rows) = map k rows"
proof -
  have "r = l" if "r \<in> set rows" "c_id r = c_id l" for r
    using that assms(1,2) by (auto simp: distinct_map inj_on_def)
  then show ?thesis using assms(3,4) by (auto simp: stored_def update_where_def)
qed

lemma absorb_live:
  assumes "distinct (map c_id (cases s))" and "l \<in> set (cases s)"
  shows "live (absorb E v l s) i \<longleftrightarrow> live s i \<and> i \<noteq> c_id l"
proof -
  have "d = l" if "d \<in> set (cases s)" "c_id d = c_id l" for d
    using that assms by (auto simp: distinct_map inj_on_def)
  then show ?thesis unfolding live_def Bex_def by (auto simp: absorb_cases [OF assms] simp del: absorb_tables)
qed

lemma absorb_keys:
  assumes "keys_ok s" and "l \<in> set (cases s)"
  shows "keys_ok (absorb E v l s)"
proof -
  have "distinct (map c_id (cases s))" using assms(1) by (simp add: keys_ok_def)
  note st = stored_map [OF this assms(2), of "merged_row v l" _ E]
  show ?thesis using assms(1) by (simp add: keys_ok_def map_update_where st stored_ids)
qed

text \<open>The bulk updates as plain maps over the tables.\<close>

definition redirect :: "uuid \<Rightarrow> uuid \<Rightarrow> uuid \<Rightarrow> uuid" where
  "redirect from_id to_id i = (if i = from_id then to_id else i)"

lemma update_where_map: "(\<And>r. (if p r then f r else r) = g r) \<Longrightarrow> update_where p f rows = map g rows"
  by (simp add: update_where_def)

lemma absorb_maps:
  "alerts (absorb E v l s) = map (\<lambda>a. a\<lparr> a_case_id := map_option (redirect (c_id l) (c_id v)) (a_case_id a) \<rparr>) (alerts s)"
  "links (absorb E v l s) = map (\<lambda>k. k\<lparr> l_case_id := redirect (c_id l) (c_id v) (l_case_id k) \<rparr>) (links s)"
  "case_notes (absorb E v l s) = map (\<lambda>n. n\<lparr> n_case_id := redirect (c_id l) (c_id v) (n_case_id n) \<rparr>) (case_notes s)"
  "groupings (absorb E v l s) = map (\<lambda>g. g\<lparr> g_case_id := redirect (c_id l) (c_id v) (g_case_id g) \<rparr>) (groupings s)"
proof -
  have "(if a_case_id a = Some i then a\<lparr> a_case_id := Some j \<rparr> else a) = a\<lparr> a_case_id := map_option (redirect i j) (a_case_id a) \<rparr>" for a i j
    by (cases a; cases "a_case_id a") (auto simp: redirect_def)
  then show "alerts (absorb E v l s) = map (\<lambda>a. a\<lparr> a_case_id := map_option (redirect (c_id l) (c_id v)) (a_case_id a) \<rparr>) (alerts s)"
    unfolding absorb_tables by (intro update_where_map)
  have "(if l_case_id a = i then a\<lparr> l_case_id := j \<rparr> else a) = a\<lparr> l_case_id := redirect i j (l_case_id a) \<rparr>" for a i j
    by (cases a) (simp add: redirect_def)
  then show "links (absorb E v l s) = map (\<lambda>k. k\<lparr> l_case_id := redirect (c_id l) (c_id v) (l_case_id k) \<rparr>) (links s)"
    unfolding absorb_tables by (intro update_where_map)
  have "(if n_case_id a = i then a\<lparr> n_case_id := j \<rparr> else a) = a\<lparr> n_case_id := redirect i j (n_case_id a) \<rparr>" for a i j
    by (cases a) (simp add: redirect_def)
  then show "case_notes (absorb E v l s) = map (\<lambda>n. n\<lparr> n_case_id := redirect (c_id l) (c_id v) (n_case_id n) \<rparr>) (case_notes s)"
    unfolding absorb_tables by (intro update_where_map)
  have "(if g_case_id a = i then a\<lparr> g_case_id := j \<rparr> else a) = a\<lparr> g_case_id := redirect i j (g_case_id a) \<rparr>" for a i j
    by (cases a) (simp add: redirect_def)
  then show "groupings (absorb E v l s) = map (\<lambda>g. g\<lparr> g_case_id := redirect (c_id l) (c_id v) (g_case_id g) \<rparr>) (groupings s)"
    unfolding absorb_tables by (intro update_where_map)
qed

lemma absorb_attached:
  assumes att: "attached_ok s" and ids: "distinct (map c_id (cases s))" and l: "l \<in> set (cases s)"
    and v: "live s (c_id v)" "c_id v \<noteq> c_id l"
  shows "attached_ok (absorb E v l s)"
proof -
  let ?to = "redirect (c_id l) (c_id v)"
  have to: "live (absorb E v l s) (?to i)" if "live s i" for i
    using that v by (simp add: absorb_live [OF ids l] redirect_def)
  have "map_option ?to (a_case_id a) = Some i \<longleftrightarrow> (\<exists>k \<in> set (links s). l_alert_id k = a_id a \<and> ?to (l_case_id k) = i)"
    if "a \<in> set (alerts s)" for a i
  proof -
    have "map_option ?to (a_case_id a) = Some i \<longleftrightarrow> (\<exists>j. a_case_id a = Some j \<and> ?to j = i)" by auto
    moreover have "a_case_id a = Some j \<longleftrightarrow> (\<exists>k \<in> set (links s). l_alert_id k = a_id a \<and> l_case_id k = j)" for j
      using att that unfolding attached_ok_def by blast
    ultimately show ?thesis by auto
  qed
  moreover have "\<exists>g \<in> set (groupings s). g_id g = l_grouping_decision_id k \<and> g_alert_id g = l_alert_id k
      \<and> ?to (g_case_id g) = ?to (l_case_id k)" if "k \<in> set (links s)" for k
    using att that unfolding attached_ok_def by metis
  ultimately show ?thesis using att to by (simp add: attached_ok_def absorb_maps image_image del: absorb_tables)
qed

lemma absorb_counts:
  assumes "i \<noteq> c_id l" and "i \<noteq> c_id v"
  shows "link_count (absorb E v l s) i = link_count s i" and "member_scores (absorb E v l s) i = member_scores s i"
proof -
  have "redirect (c_id l) (c_id v) j = i \<longleftrightarrow> j = i" for j using assms by (auto simp: redirect_def)
  then show "link_count (absorb E v l s) i = link_count s i" "member_scores (absorb E v l s) i = member_scores s i"
    by (simp_all add: link_count_def member_scores_def absorb_maps filter_map o_def map_option_eq_Some del: absorb_tables)
qed

lemma absorb_book:
  assumes book: "book_upto cfg T s" and v: "v \<in> set (cases s)" "c_status v \<noteq> ''Merged''"
    and l: "l \<in> set (cases s)" "c_status l \<noteq> ''Closed''" and older: "case_age v < case_age l"
  shows "book_upto cfg (insert (c_id v) T) (absorb E v l s)"
proof -
  have ids: "distinct (map c_id (cases s))" and keys: "keys_ok s" and att: "attached_ok s"
    using book by (simp_all add: book_upto_def keys_ok_def)
  have ne: "v \<noteq> l" using older by auto
  then have "c_id v \<noteq> c_id l" using ids v(1) l(1) by (auto simp: distinct_map inj_on_def)
  moreover have "live s (c_id v)" using v by (auto simp: live_def)
  ultimately have "attached_ok (absorb E v l s)" by (intro absorb_attached [OF att ids l(1)])
  moreover have "merges_ok (absorb E v l s)"
  proof -
    have mem: "c \<in> set (cases (absorb E v l s)) \<longleftrightarrow> c = (merged_row v l)\<lparr> c_updated_at := txn_now E \<rparr>
        \<or> c \<in> set (cases s) \<and> c \<noteq> l" for c by (rule absorb_cases [OF ids l(1)])
    have age: "case_age ((merged_row v l)\<lparr> c_updated_at := txn_now E \<rparr>) = case_age l" by (simp add: case_age_def merged_row_def)
    have old: "\<exists>d \<in> set (cases (absorb E v l s)). c_id d = c_id e \<and> case_age d = case_age e" if "e \<in> set (cases s)" for e
    proof (cases "e = l")
      case True
      have "(merged_row v l)\<lparr> c_updated_at := txn_now E \<rparr> \<in> set (cases (absorb E v l s))" by (simp only: mem) simp
      then show ?thesis by (rule bexI [rotated]) (simp add: True age)
    next
      case False
      with that mem show ?thesis by blast
    qed
    show ?thesis
      unfolding merges_ok_def
    proof (intro ballI impI)
      fix c assume c: "c \<in> set (cases (absorb E v l s))" "c_status c = ''Merged''"
      show "\<exists>d \<in> set (cases (absorb E v l s)). c_canonical_from_case_id c = Some (c_id d) \<and> case_age d < case_age c"
      proof (cases "c = (merged_row v l)\<lparr> c_updated_at := txn_now E \<rparr>")
        case True
        then show ?thesis using v(1) ne mem age older by (auto simp del: absorb_tables intro!: bexI [of _ v])
      next
        case False
        then have "c \<in> set (cases s)" using c(1) mem by blast
        then obtain e where "e \<in> set (cases s)" "c_canonical_from_case_id c = Some (c_id e)" "case_age e < case_age c"
          using book c(2) by (auto simp: book_upto_def merges_ok_def)
        with old [of e] show ?thesis by metis
      qed
    qed
  qed
  moreover have "\<forall>c \<in> set (cases (absorb E v l s)). c_status c \<noteq> ''Merged'' \<and> c_id c \<notin> insert (c_id v) T \<longrightarrow>
      aggregates_ok cfg (absorb E v l s) c"
  proof (intro ballI impI)
    fix c assume c: "c \<in> set (cases (absorb E v l s))" "c_status c \<noteq> ''Merged'' \<and> c_id c \<notin> insert (c_id v) T"
    have "c \<noteq> (merged_row v l)\<lparr> c_updated_at := txn_now E \<rparr>" using c(2) by auto
    then have "c \<in> set (cases s)" "c \<noteq> l" using c(1) unfolding absorb_cases [OF ids l(1)] by blast+
    moreover from this have "c_id c \<noteq> c_id l" using l(1) ids by (auto simp: distinct_map inj_on_def)
    ultimately show "aggregates_ok cfg (absorb E v l s) c"
      using c(2) book by (simp add: book_upto_def aggregates_ok_def absorb_counts)
  qed
  moreover have "cases_inv (dispositions cfg) (absorb E v l s)"
  proof -
    have "case_ok (dispositions cfg) l" using book l(1) by (simp add: book_upto_def cases_inv_def)
    then have "case_ok (dispositions cfg) (merged_row v l)"
      using l(2) by (simp add: case_ok_def merged_row_def STATUSES_def ALLOWED_def)
    moreover have "cases_inv (dispositions cfg) s" using book by (simp add: book_upto_def)
    ultimately show ?thesis by (intro stored_cases_inv [OF _ _ absorb_tables(5)])
  qed
  ultimately show ?thesis
    unfolding book_upto_def using absorb_keys [OF keys l(1), of E v] by blast
qed

definition merged_in :: "env \<Rightarrow> case_row \<Rightarrow> case_row \<Rightarrow> state \<Rightarrow> bool" where
  "merged_in E v l t \<longleftrightarrow> (merged_row v l)\<lparr> c_updated_at := txn_now E \<rparr> \<in> set (cases t)"

lemma merge_all_book:
  assumes "each (merge_case E v) ls s = (Inr u, t)" and "audit_inv (env_platform E) s" and "book_upto cfg T s"
    and "v \<in> set (cases s)" and "c_status v \<noteq> ''Merged''"
    and "\<forall>l \<in> set ls. l \<in> set (cases s) \<and> c_status l \<noteq> ''Closed'' \<and> case_age v < case_age l" and "distinct ls"
  shows "audit_inv (env_platform E) t \<and> book_upto cfg (insert (c_id v) T) t \<and> v \<in> set (cases t)
    \<and> alert_data t = alert_data s
    \<and> (\<forall>c \<in> set (cases s). c \<notin> set ls \<longrightarrow> c \<in> set (cases t))
    \<and> (\<forall>l \<in> set ls. merged_in E v l t)
    \<and> membership t = (\<lambda>x. if membership s x \<in> (Some \<circ> c_id) ` set ls then Some (c_id v) else membership s x)"
  using assms
proof (induction ls arbitrary: s T)
  case Nil
  then have "t = s" by (simp add: op_simps)
  with Nil show ?case by (simp add: book_mono [OF Nil.prems(3) subset_insertI])
next
  case (Cons l ls)
  from Cons.prems(1) obtain s1 where m: "merge_case E v l s = (Inr (), s1)"
    and rest: "each (merge_case E v) ls s1 = (Inr u, t)" by (auto simp: op_simps)
  let ?a = "absorb E v l s"
  have inv: "audit_inv (env_platform E) s1" and same: "same_book ?a s1"
    using merge_case_Inr [OF m Cons.prems(2)] by blast+
  have l: "l \<in> set (cases s)" "c_status l \<noteq> ''Closed''" "case_age v < case_age l" using Cons.prems(6) by auto
  have ids: "distinct (map c_id (cases s))" using Cons.prems(3) by (simp add: book_upto_def keys_ok_def)
  have in_s1: "c \<in> set (cases s1)" if "c \<in> set (cases s)" "c \<noteq> l" for c
    using same that absorb_cases [OF ids l(1), of c E v] by (simp add: same_book_def)
  have "book_upto cfg (insert (c_id v) T) s1"
    using absorb_book [OF Cons.prems(3-5) l] same_book_inv [OF same] by simp
  moreover have "v \<in> set (cases s1)" using l(3) by (intro in_s1 Cons.prems(4)) auto
  moreover have "\<forall>k \<in> set ls. k \<in> set (cases s1) \<and> c_status k \<noteq> ''Closed'' \<and> case_age v < case_age k"
    using Cons.prems(6,7) in_s1 by auto
  ultimately have IH: "audit_inv (env_platform E) t \<and> book_upto cfg (insert (c_id v) (insert (c_id v) T)) t \<and> v \<in> set (cases t)
    \<and> alert_data t = alert_data s1 \<and> (\<forall>c \<in> set (cases s1). c \<notin> set ls \<longrightarrow> c \<in> set (cases t))
    \<and> (\<forall>k \<in> set ls. merged_in E v k t) \<and> membership t = (\<lambda>x. if membership s1 x \<in> (Some \<circ> c_id) ` set ls then Some (c_id v) else membership s1 x)"
    using Cons.prems(7) by (intro Cons.IH [OF rest inv _ _ Cons.prems(5)]) simp_all
  have m1: "membership s1 = (\<lambda>x. if membership s x = Some (c_id l) then Some (c_id v) else membership s x)"
    by (simp add: same_book_membership [OF same] absorb_membership)
  have "alert_data s1 = alert_data s"
    using same absorb_data [of E v l s] by (simp add: same_book_def alert_data_def del: absorb_tables)
  moreover have "membership t = (\<lambda>x. if membership s x \<in> (Some \<circ> c_id) ` set (l # ls) then Some (c_id v) else membership s x)"
    using IH m1 by (auto simp: fun_eq_iff)
  moreover have "merged_in E v l t"
  proof -
    let ?m = "(merged_row v l)\<lparr> c_updated_at := txn_now E \<rparr>"
    have "?m \<notin> set ls"
    proof
      assume m: "?m \<in> set ls"
      then have "?m \<in> set (cases s)" using Cons.prems(6) by auto
      then have "?m = l" using ids l(1) by (auto simp: distinct_map inj_on_def)
      with m Cons.prems(7) show False by simp
    qed
    moreover have "?m \<in> set (cases s1)" using same absorb_cases [OF ids l(1), of ?m E v] by (simp add: same_book_def)
    ultimately show ?thesis using IH by (simp add: merged_in_def)
  qed
  ultimately show ?case using IH in_s1 by auto
qed

section \<open>Attaching an alert\<close>

definition attached :: "env \<Rightarrow> alert_row \<Rightarrow> uuid \<Rightarrow> uuid \<Rightarrow> uuid \<Rightarrow> decision \<Rightarrow> int \<Rightarrow> string \<Rightarrow> state \<Rightarrow> state" where
  "attached E a target i j d t label s =
     s\<lparr> alerts := update_where (\<lambda>r. a_id r = a_id a) (\<lambda>r. r\<lparr> a_case_id := Some target \<rparr>) (alerts s),
        groupings := groupings s @ [new_grouping E i (a_id a) target d t],
        links := links s @ [\<lparr> l_id = j, l_case_id = target, l_alert_id = a_id a, l_grouping_decision_id = i,
          l_linked_at = t, l_linked_by = label \<rparr>] \<rparr>"

lemma new_grouping_simps [simp]:
  "g_id (new_grouping E i x c d t) = i" "g_alert_id (new_grouping E i x c d t) = x" "g_case_id (new_grouping E i x c d t) = c"
  "g_method (new_grouping E i x c d t) = d_method d"
  by (simp_all add: new_grouping_def)

lemma attach_alert_Inr:
  assumes "attach_alert E a target d t label s = (Inr g, u)"
  shows "g = new_grouping E (new_uuid E (uuids s)) (a_id a) (c_id target) d t \<and> a_id a \<in> a_id ` set (alerts s)
    \<and> g_id g \<notin> g_id ` set (groupings s) \<and> a_id a \<notin> l_alert_id ` set (links s)
    \<and> u = (attached E a (c_id target) (g_id g) (new_uuid E (Suc (uuids s))) d t label s)\<lparr> uuids := Suc (Suc (uuids s)) \<rparr>"
proof -
  have "a_id ` set (update_where (\<lambda>r. a_id r = a_id a) (\<lambda>r. r\<lparr> a_case_id := c \<rparr>) (alerts s)) = a_id ` set (alerts s)" for c
    by (metis (no_types, lifting) alert_row.select_convs(1) alert_row.surjective alert_row.update_convs(5) map_update_where set_map)
  then show ?thesis
    using assms by (auto simp: attach_alert_def op_simps Let_def attached_def)
qed

lemma attached_book:
  assumes book: "book_upto cfg T s" and c: "live s c" and a: "a_id a \<in> a_id ` set (alerts s)"
    and new: "a_id a \<notin> l_alert_id ` set (links s)" "i \<notin> g_id ` set (groupings s)"
  shows "book_upto cfg (insert c T) (attached E a c i j d t label s)"
    and "membership (attached E a c i j d t label s) = (membership s)(a_id a \<mapsto> c)"
    and "alert_data (attached E a c i j d t label s) = alert_data s"
proof -
  let ?s = "attached E a c i j d t label s"
  have att: "attached_ok s" and keys: "keys_ok s" using book by (simp_all add: book_upto_def)
  have free: "a_case_id r = None" if "r \<in> set (alerts s)" "a_id r = a_id a" for r
    using att that new(1) unfolding attached_ok_def by (metis image_eqI not_Some_eq)
  have live: "live ?s k \<longleftrightarrow> live s k" for k by (simp add: live_def attached_def)
  have "keys_ok ?s" using keys new by (simp add: keys_ok_def attached_def map_update_where)
  moreover have "merges_ok ?s" using book by (simp add: book_upto_def merges_ok_def attached_def)
  moreover have "attached_ok ?s"
    unfolding attached_ok_def live
  proof (intro conjI ballI allI)
    fix r k assume "r \<in> set (alerts ?s)"
    then obtain q where q: "q \<in> set (alerts s)" "r = (if a_id q = a_id a then q\<lparr> a_case_id := Some c \<rparr> else q)"
      by (auto simp: attached_def set_update_where)
    show "a_case_id r = Some k \<longleftrightarrow> (\<exists>l \<in> set (links ?s). l_alert_id l = a_id r \<and> l_case_id l = k)"
    proof (cases "a_id q = a_id a")
      case True
      moreover have "l_alert_id l \<noteq> a_id a" if "l \<in> set (links s)" for l using that new(1) by force
      ultimately show ?thesis using q by (auto simp: attached_def)
    next
      case False
      with q att show ?thesis by (auto simp: attached_def attached_ok_def)
    qed
  next
    have ids: "a_id ` set (alerts ?s) = a_id ` set (alerts s)"
      unfolding image_set by (simp add: attached_def map_update_where)
    fix l assume "l \<in> set (links ?s)"
    then consider "l \<in> set (links s)" | "l_alert_id l = a_id a" "l_case_id l = c" "l_grouping_decision_id l = i"
      by (auto simp: attached_def)
    then have "l_alert_id l \<in> a_id ` set (alerts s) \<and> live s (l_case_id l) \<and> (\<exists>g \<in> set (groupings ?s).
        g_id g = l_grouping_decision_id l \<and> g_alert_id g = l_alert_id l \<and> g_case_id g = l_case_id l)"
    proof cases
      case 1
      then show ?thesis using att by (auto simp: attached_ok_def attached_def)
    next
      case 2
      then show ?thesis using a c by (simp add: attached_def)
    qed
    then show "l_alert_id l \<in> a_id ` set (alerts ?s)" "live s (l_case_id l)" "\<exists>g \<in> set (groupings ?s).
        g_id g = l_grouping_decision_id l \<and> g_alert_id g = l_alert_id l \<and> g_case_id g = l_case_id l"
      using ids by blast+
  next
    show "live s (g_case_id g)" if "g \<in> set (groupings ?s)" for g
      using that att c by (auto simp: attached_def attached_ok_def)
    show "live s (n_case_id n)" if "n \<in> set (case_notes ?s)" for n
      using that att by (simp add: attached_def attached_ok_def)
  qed
  moreover have "link_count ?s k = link_count s k" "member_scores ?s k = member_scores s k" if "k \<noteq> c" for k
    using that free by (auto simp: link_count_def member_scores_def attached_def update_where_def filter_map o_def
        intro!: arg_cong [of _ _ "map _"] filter_cong map_cong)
  ultimately show "book_upto cfg (insert c T) ?s"
    using book by (simp add: book_upto_def aggregates_ok_def cases_inv_def) (simp add: attached_def)
  show "membership ?s = (membership s)(a_id a \<mapsto> c)"
  proof
    fix x
    have "List.find (\<lambda>r. a_id r = a_id a) (alerts s) \<noteq> None" using a by (auto simp: find_None_iff)
    then obtain q where "List.find (\<lambda>r. a_id r = a_id a) (alerts s) = Some q" by blast
    then show "membership ?s x = ((membership s)(a_id a \<mapsto> c)) x"
      by (cases "x = a_id a")
        (auto simp: membership_def attached_def find_update_where split: option.split dest!: find_key_Some)
  qed
  show "alert_data ?s = alert_data s" by (simp add: alert_data_def attached_def update_where_def)
qed

section \<open>Refreshing the aggregates\<close>

lemma aggregates_cong:
  "links t = links s \<Longrightarrow> alerts t = alerts s \<Longrightarrow> aggregates_ok cfg t c = aggregates_ok cfg s c"
  by (simp add: aggregates_ok_def link_count_def member_scores_def)

lemma stored_live_book:
  assumes book: "book_upto cfg T s" and c: "c \<in> set (cases s)" and id: "c_id c' = c_id c"
    and keep: "c_human_ref c' = c_human_ref c" "c_created_at c' = c_created_at c"
      "c_status c \<noteq> ''Merged''" "c_status c' \<noteq> ''Merged''"
    and t: "cases t = stored E c' (cases s)" "links t = links s" "alerts t = alerts s" "groupings t = groupings s"
    and nts: "\<forall>n \<in> set (case_notes t). live s (n_case_id n)"
    and ok: "case_ok (dispositions cfg) c'"
    and agg: "c_id c \<in> T \<or> c_alert_count c' = c_alert_count c \<and> c_risk_score c' = c_risk_score c"
  shows "book_upto cfg T t"
    and "aggregates_ok cfg s c' \<Longrightarrow> book_upto cfg (T - {c_id c}) t"
proof -
  let ?c = "c'\<lparr> c_updated_at := txn_now E \<rparr>"
  have ids: "distinct (map c_id (cases s))" using book by (simp add: book_upto_def keys_ok_def)
  have only: "r = c" if "r \<in> set (cases s)" "c_id r = c_id c" for r
    using that ids c by (auto simp: distinct_map inj_on_def)
  then have mem: "r \<in> set (cases t) \<longleftrightarrow> r = ?c \<or> r \<in> set (cases s) \<and> r \<noteq> c" for r
    using c id by (auto simp: t stored_def set_update_where)
  have live: "live t i \<longleftrightarrow> live s i" for i
  proof -
    have "live t i \<longleftrightarrow> (c_id ?c = i \<and> c_status ?c \<noteq> ''Merged'') \<or> (\<exists>r \<in> set (cases s). r \<noteq> c \<and> c_id r = i \<and> c_status r \<noteq> ''Merged'')"
      by (simp add: live_def Bex_def mem conj_disj_distribR ex_disj_distrib conj_assoc)
    also have "\<dots> \<longleftrightarrow> (c_id c = i \<and> c_status c \<noteq> ''Merged'') \<or> (\<exists>r \<in> set (cases s). r \<noteq> c \<and> c_id r = i \<and> c_status r \<noteq> ''Merged'')"
      using id keep(3,4) by simp
    also have "\<dots> \<longleftrightarrow> live s i" unfolding live_def using c by auto
    finally show ?thesis .
  qed
  have "keys_ok t" using book t stored_map [OF ids c id, of c_human_ref E] keep(1)
    by (simp add: book_upto_def keys_ok_def stored_ids)
  moreover have "attached_ok t" using book nts live by (simp add: book_upto_def attached_ok_def t)
  moreover have "merges_ok t"
    unfolding merges_ok_def
  proof (intro ballI impI)
    fix r assume "r \<in> set (cases t)" "c_status r = ''Merged''"
    then have r: "r \<in> set (cases s)" using mem keep(4) by auto
    obtain d where d: "d \<in> set (cases s)" "c_canonical_from_case_id r = Some (c_id d)" "case_age d < case_age r"
      using book r \<open>c_status r = ''Merged''\<close> by (auto simp: book_upto_def merges_ok_def)
    show "\<exists>d \<in> set (cases t). c_canonical_from_case_id r = Some (c_id d) \<and> case_age d < case_age r"
    proof (cases "d = c")
      case True
      have "case_age ?c = case_age c" using id keep(2) by (simp add: case_age_def)
      with True d id mem show ?thesis by (intro bexI [of _ ?c]) simp_all
    next
      case False
      with d mem show ?thesis by blast
    qed
  qed
  moreover have "cases_inv (dispositions cfg) s" using book by (simp add: book_upto_def)
  from stored_cases_inv [OF this ok t(1)] have "cases_inv (dispositions cfg) t" .
  ultimately have rest: "keys_ok t \<and> attached_ok t \<and> merges_ok t \<and> cases_inv (dispositions cfg) t" by blast
  have agg_t: "aggregates_ok cfg t r \<longleftrightarrow> aggregates_ok cfg s r" for r
    using t by (intro aggregates_cong)
  have agg_c: "aggregates_ok cfg s ?c \<longleftrightarrow> aggregates_ok cfg s c'" by (simp add: aggregates_ok_def)
  have old: "aggregates_ok cfg s r" if "r \<in> set (cases s)" "c_status r \<noteq> ''Merged''" "c_id r \<notin> T" for r
    using that book by (simp add: book_upto_def)
  have same: "aggregates_ok cfg s c'" if "c_id c \<notin> T"
  proof -
    from that agg have "c_alert_count c' = c_alert_count c" "c_risk_score c' = c_risk_score c" by blast+
    with old [OF c keep(3) that] id show ?thesis unfolding aggregates_ok_def by (simp only:)
  qed
  show "book_upto cfg T t"
    unfolding book_upto_def
  proof (intro conjI ballI impI)
    fix r assume r: "r \<in> set (cases t)" "c_status r \<noteq> ''Merged'' \<and> c_id r \<notin> T"
    then consider "r = ?c" | "r \<in> set (cases s)" using mem by blast
    then show "aggregates_ok cfg t r"
    proof cases
      case 1
      with r(2) same id show ?thesis by (simp add: agg_t agg_c)
    next
      case 2
      with r(2) old show ?thesis by (simp add: agg_t)
    qed
  qed (use rest in blast)+
  assume new: "aggregates_ok cfg s c'"
  show "book_upto cfg (T - {c_id c}) t"
    unfolding book_upto_def
  proof (intro conjI ballI impI)
    fix r assume r: "r \<in> set (cases t)" "c_status r \<noteq> ''Merged'' \<and> c_id r \<notin> T - {c_id c}"
    then consider "r = ?c" | "r \<in> set (cases s)" "r \<noteq> c" using mem by blast
    then show "aggregates_ok cfg t r"
    proof cases
      case 1
      with new show ?thesis by (simp add: agg_t agg_c)
    next
      case 2
      with only have "c_id r \<noteq> c_id c" by blast
      with 2 r(2) old show ?thesis by (simp add: agg_t)
    qed
  qed (use rest in blast)+
qed

definition refreshed :: "env \<Rightarrow> state \<Rightarrow> bool \<Rightarrow> case_row \<Rightarrow> case_row" where
  "refreshed E s created v =
     v\<lparr> c_risk_score := aggregate_risk (member_scores s (c_id v)) (risk_aggregation (env_config E)),
        c_alert_count := int (link_count s (c_id v)),
        c_version := c_version v + (if created then 0 else 1) \<rparr>"

lemma refreshed_simps [simp]:
  "c_id (refreshed E s b v) = c_id v" "c_human_ref (refreshed E s b v) = c_human_ref v"
  "c_status (refreshed E s b v) = c_status v" "c_created_at (refreshed E s b v) = c_created_at v"
  "c_alert_count (refreshed E s b v) = int (link_count s (c_id v))"
  "c_risk_score (refreshed E s b v) = aggregate_risk (member_scores s (c_id v)) (risk_aggregation (env_config E))"
  by (simp_all add: refreshed_def)

lemma refresh_case_Inr:
  assumes "refresh_case E created v s = (Inr w, t)"
  shows "w = refreshed E s created v \<and> t = s\<lparr> cases := stored E w (cases s) \<rparr>"
  using assms by (auto simp: refresh_case_def op_simps Let_def refreshed_def split: if_splits)

lemma refresh_case_book:
  assumes "refresh_case E created v s = (Inr w, t)" and "book_upto (env_config E) (insert (c_id v) T) s"
    and "v \<in> set (cases s)" and "c_status v \<noteq> ''Merged''"
  shows "book_upto (env_config E) (T - {c_id v}) t" and "membership t = membership s" and "alert_data t = alert_data s"
    and "c_id w = c_id v" and "c_status w = c_status v"
proof -
  from refresh_case_Inr [OF assms(1)] have t: "t = s\<lparr> cases := stored E w (cases s) \<rparr>"
    and w: "w = refreshed E s created v" by blast+
  have "case_ok (dispositions (env_config E)) v" using assms(2,3) by (simp add: book_upto_def cases_inv_def)
  then have ok: "case_ok (dispositions (env_config E)) (refreshed E s created v)" by (auto simp: case_ok_def refreshed_def)
  have nts: "\<forall>n \<in> set (case_notes t). live s (n_case_id n)"
    using assms(2) by (simp add: t book_upto_def attached_ok_def)
  have "book_upto (env_config E) (insert (c_id v) T - {c_id v}) t"
    using assms(4) ok by (intro stored_live_book(2) [OF assms(2,3) _ _ _ _ _ _ _ _ _ nts, of w E])
      (simp_all add: t w aggregates_ok_def)
  then show "book_upto (env_config E) (T - {c_id v}) t" by simp
  show "membership t = membership s" "alert_data t = alert_data s" by (simp_all add: t membership_def alert_data_def fun_eq_iff)
  show "c_id w = c_id v" "c_status w = c_status v" by (simp_all add: w)
qed

section \<open>Choosing the target\<close>

lemma earliest_least: "earliest c cs \<in> set (c # cs) \<and> (\<forall>d \<in> set (c # cs). case_age (earliest c cs) \<le> case_age d)"
proof (induction cs arbitrary: c)
  case (Cons d ds)
  let ?e = "if case_age d < case_age c then d else c"
  have "case_age ?e \<le> case_age c" "case_age ?e \<le> case_age d" by auto
  moreover have "case_age (earliest ?e ds) \<le> case_age ?e" "\<forall>x \<in> set ds. case_age (earliest ?e ds) \<le> case_age x"
    "earliest ?e ds \<in> {c, d} \<union> set ds"
    using Cons.IH [of ?e] by auto
  ultimately show ?case by (auto dest: order_trans)
qed simp

definition open_case :: "case_row \<Rightarrow> bool" where
  "open_case c \<longleftrightarrow> c_status c \<notin> {''Merged'', ''Closed''}"

lemma choose_target_book:
  assumes "choose_target E a os s = (Inr (v, created), t)" and "audit_inv (env_platform E) s" and "book_upto cfg T s"
    and os: "\<forall>c \<in> set os. c \<in> set (cases s) \<and> open_case c" "distinct os"
  shows "audit_inv (env_platform E) t \<and> book_upto cfg (insert (c_id v) T) t \<and> v \<in> set (cases t) \<and> open_case v
    \<and> alert_data t = alert_data s \<and> (created \<longleftrightarrow> os = [])
    \<and> (if os = [] then c_id v \<notin> c_id ` set (cases s) else v \<in> set os \<and> (\<forall>c \<in> set os. case_age v \<le> case_age c))
    \<and> (\<forall>c \<in> set (cases s). c \<notin> set os \<longrightarrow> c \<in> set (cases t))
    \<and> (\<forall>c \<in> set os. c_id c \<noteq> c_id v \<longrightarrow> merged_in E v c t)
    \<and> membership t = (\<lambda>x. if membership s x \<in> (Some \<circ> c_id) ` set os then Some (c_id v) else membership s x)"
proof (cases os)
  case Nil
  with assms(1) have cr: "create_case E a s = (Inr v, t)" "created" by (auto simp: choose_target_def op_simps)
  from create_case_Inr [OF cr(1)] have t: "t = s\<lparr> cases := cases s @ [v], human_ref_seq := Suc (human_ref_seq s), uuids := Suc (uuids s) \<rparr>"
    and "c_id v \<notin> c_id ` set (cases s)" by blast+
  moreover have "audit_inv (env_platform E) t" "alert_data t = alert_data s" using assms(2) by (simp_all add: t alert_data_def)
  ultimately show ?thesis
    using create_case_book [OF cr(1) assms(3)] Nil cr(2) by (auto simp: open_case_def t)
next
  case os_eq: (Cons c cs)
  show ?thesis
  proof (cases "cs = []")
    case True
    with os_eq assms(1) have "t = s" "v = c" "\<not> created" by (auto simp: choose_target_def op_simps)
    then show ?thesis
      using True os_eq assms(2-4) by (auto simp: fun_eq_iff intro: book_mono)
  next
    case False
    let ?ls = "filter (\<lambda>l. c_id l \<noteq> c_id v) os"
    from False os_eq assms(1) have v: "v = earliest c cs" and created: "\<not> created"
      and m: "each (merge_case E v) ?ls s = (Inr (), t)"
      by (auto simp: choose_target_def op_simps Let_def split: if_splits)
    have mem: "v \<in> set os" and least: "\<forall>d \<in> set os. case_age v \<le> case_age d"
      using earliest_least [of c cs] unfolding v os_eq by blast+
    have "case_age v < case_age l" if "l \<in> set ?ls" for l
      using least that by (auto simp: case_age_def order_le_less)
    then have "\<forall>l \<in> set ?ls. l \<in> set (cases s) \<and> c_status l \<noteq> ''Closed'' \<and> case_age v < case_age l"
      using os(1) by (auto simp: open_case_def)
    moreover have "v \<in> set (cases s)" "open_case v" using os(1) mem by auto
    moreover have "c_status v \<noteq> ''Merged''" using \<open>open_case v\<close> by (simp add: open_case_def)
    moreover have "distinct ?ls" using os(2) by simp
    ultimately have res: "audit_inv (env_platform E) t \<and> book_upto cfg (insert (c_id v) T) t \<and> v \<in> set (cases t)
      \<and> alert_data t = alert_data s \<and> (\<forall>c \<in> set (cases s). c \<notin> set ?ls \<longrightarrow> c \<in> set (cases t))
      \<and> (\<forall>l \<in> set ?ls. merged_in E v l t)
      \<and> membership t = (\<lambda>x. if membership s x \<in> (Some \<circ> c_id) ` set ?ls then Some (c_id v) else membership s x)"
      using merge_all_book [OF m assms(2,3)] by blast
    have "(Some \<circ> c_id) ` set os = insert (Some (c_id v)) ((Some \<circ> c_id) ` set ?ls)" using mem by auto
    then have "membership t = (\<lambda>x. if membership s x \<in> (Some \<circ> c_id) ` set os then Some (c_id v) else membership s x)"
      using res by (auto simp: fun_eq_iff)
    then show ?thesis using res mem least created os_eq \<open>open_case v\<close> by (auto simp del: o_apply)
  qed
qed

section \<open>Grouping an alert\<close>

lemma flag_closed_Inr:
  assumes "flag_closed E a c s = (Inr u, t)" and "audit_inv (env_platform E) s"
  shows "audit_inv (env_platform E) t \<and> same_book s t"
proof -
  from assms(1) obtain e where r: "record_audit E (case_stream (c_id c)) None ''case.review_flagged'' ''case'' (c_id c)
       (Some (''new alert '' @ a_id a @ '' matched a closed case'')) None None s = (Inr e, t)"
    by (auto simp: op_simps flag_closed_def)
  from record_audit_frame(10) [OF r assms(2)] record_audit_same_book [OF r assms(2)] show ?thesis by blast
qed

lemma flag_closed_all:
  assumes "each (flag_closed E a) cs s = (Inr u, t)" and "audit_inv (env_platform E) s"
  shows "audit_inv (env_platform E) t \<and> same_book s t"
  using assms
proof (induction cs arbitrary: s)
  case (Cons c cs)
  from Cons.prems(1) obtain s1 where r: "flag_closed E a c s = (Inr (), s1)"
    and rest: "each (flag_closed E a) cs s1 = (Inr u, t)" by (auto simp: op_simps)
  from flag_closed_Inr [OF r Cons.prems(2)] Cons.IH [OF rest] show ?case by (blast intro: same_book_trans)
qed (simp add: op_simps)

text \<open>The decisions the engine takes on the alert and its candidates, and the ids of the cases that match.\<close>

definition engine_input :: "env \<Rightarrow> alert_row \<Rightarrow> state \<Rightarrow> engine_alert list" where
  "engine_input E a s = engine_alert_of a # map engine_alert_of (candidate_rows E a s)"

definition matched_open :: "env \<Rightarrow> state \<Rightarrow> uuid list \<Rightarrow> case_row list" where
  "matched_open E s ids = filter open_case (scanned E c_id (filter (\<lambda>c. c_id c \<in> set ids) (cases s)))"

lemma apply_grouping_Inr:
  assumes "apply_grouping E a label s = (Inr (w, g), t)" and "audit_inv (env_platform E) s"
    and "book_inv (env_config E) s"
  shows "\<exists>ds d ids v. group (env_platform E) (engine_input E a s) (env_config E) [] [] = Inr ds
    \<and> getitem (index_decisions ds) (a_id a) = Inr d
    \<and> matched_case_ids (index_decisions ds) (d_group_key d) (candidate_rows E a s) [] = Inr ids
    \<and> audit_inv (env_platform E) t \<and> book_inv (env_config E) t \<and> alert_data t = alert_data s
    \<and> c_id w = c_id v \<and> g_alert_id g = a_id a \<and> g_case_id g = c_id w \<and> g_method g = d_method d
    \<and> (let os = matched_open E s ids
       in (if os = [] then c_id v \<notin> c_id ` set (cases s) else v \<in> set os \<and> (\<forall>c \<in> set os. case_age v \<le> case_age c))
          \<and> (\<forall>c \<in> set (cases s). c \<notin> set os \<longrightarrow> c \<in> set (cases t))
          \<and> (\<forall>c \<in> set os. c_id c \<noteq> c_id v \<longrightarrow> merged_in E v c t)
          \<and> membership t = (\<lambda>x. if membership s x \<in> (Some \<circ> c_id) ` set os then Some (c_id v) else membership s x)
              (a_id a \<mapsto> c_id v))
    \<and> (\<exists>e. last (events t) = e \<and> ev_stream e = case_stream (c_id w) \<and> ev_action e = ''case.alert_linked'')"
proof -
  let ?s0 = "s\<lparr> ticks := Suc (ticks s) \<rparr>"
  have cand: "candidate_rows E a ?s0 = candidate_rows E a s" by (simp add: candidate_rows_def)
  from assms(1) obtain ds d ids s1 created v s2 s3 e
    where ds: "group (env_platform E) (engine_input E a s) (env_config E) [] [] = Inr ds"
      and d: "getitem (index_decisions ds) (a_id a) = Inr d"
      and ids: "matched_case_ids (index_decisions ds) (d_group_key d) (candidate_rows E a s) [] = Inr ids"
      and fl: "each (flag_closed E a) (filter (\<lambda>c. c_status c = ''Closed'') (scanned E c_id (filter (\<lambda>c. c_id c \<in> set ids) (cases s))))
        (?s0\<lparr> decisions_total := decisions_total s @ [d_method d] \<rparr>) = (Inr (), s1)"
      and ch: "choose_target E a (matched_open E s ids) s1 = (Inr (v, created), s2)"
      and at: "attach_alert E a v d (utcnow E (ticks s)) label s2 = (Inr g, s3)"
      and re: "\<exists>s4. refresh_case E created v s3 = (Inr w, s4)
        \<and> record_audit E (case_stream (c_id w)) None ''case.alert_linked'' ''case'' (c_id w) None None
            (Some (JObj [(''alert_id'', JStr (a_id a)), (''method'', JStr (d_method d))])) s4 = (Inr e, t)"
    unfolding apply_grouping_def
    by (clarsimp simp: op_simps candidate_query_def cand engine_input_def matched_open_def open_case_def [abs_def] Let_def)
  obtain s4 where re4: "refresh_case E created v s3 = (Inr w, s4)"
    and au: "record_audit E (case_stream (c_id w)) None ''case.alert_linked'' ''case'' (c_id w) None None
            (Some (JObj [(''alert_id'', JStr (a_id a)), (''method'', JStr (d_method d))])) s4 = (Inr e, t)"
    using re by blast
  let ?os = "matched_open E s ids"
  have s1: "audit_inv (env_platform E) s1" "same_book s s1"
    using flag_closed_all [OF fl] assms(2) by (simp_all add: same_book_def)
  have b1: "book_upto (env_config E) {} s1" using same_book_inv [OF s1(2)] assms(3) by simp
  have os: "\<forall>c \<in> set ?os. c \<in> set (cases s1) \<and> open_case c" "distinct ?os"
    using s1(2) assms(3) by (auto simp: matched_open_def same_book_def scanned_def book_upto_def keys_ok_def distinct_map)
  note ch2 = choose_target_book [OF ch s1(1) b1 os]
  have v: "v \<in> set (cases s2)" "c_status v \<noteq> ''Merged''" "live s2 (c_id v)"
    using ch2 by (auto simp: open_case_def live_def)
  from attach_alert_Inr [OF at] have g: "g_alert_id g = a_id a" "g_case_id g = c_id v" "g_method g = d_method d"
    and pre: "a_id a \<in> a_id ` set (alerts s2)" "a_id a \<notin> l_alert_id ` set (links s2)" "g_id g \<notin> g_id ` set (groupings s2)"
    and s3: "same_book (attached E a (c_id v) (g_id g) (new_uuid E (Suc (uuids s2))) d (utcnow E (ticks s)) label s2) s3"
      "audit_inv (env_platform E) s3"
    using ch2 by (auto simp: same_book_def attached_def)
  have b2: "book_upto (env_config E) {c_id v} s2" using ch2 by blast
  note att = attached_book [OF b2 v(3) pre]
  have b3: "book_upto (env_config E) (insert (c_id v) {}) s3"
    using att(1) by (simp add: same_book_inv [OF s3(1)])
  have "v \<in> set (cases s3)" using v(1) s3(1) by (simp add: same_book_def attached_def)
  note re5 = refresh_case_book [OF re4 b3 this v(2)]
  have inv4: "audit_inv (env_platform E) s4" using refresh_case_Inr [OF re4] s3(2) by simp
  note fin = record_audit_same_book [OF au inv4]
  have "audit_inv (env_platform E) t" using record_audit_frame(10) [OF au inv4] .
  moreover have "book_inv (env_config E) t" using re5(1) by (simp add: same_book_inv [OF fin])
  moreover have "alert_data t = alert_data s"
  proof -
    have "alert_data t = alert_data s4" using fin by (simp add: alert_data_def same_book_def)
    also have "\<dots> = alert_data s3" by (rule re5(3))
    also have "\<dots> = alert_data s2" using att(3) s3(1) by (simp add: alert_data_def same_book_def)
    also have "\<dots> = alert_data s1" using ch2 by blast
    also have "\<dots> = alert_data s" using s1(2) by (simp add: alert_data_def same_book_def)
    finally show ?thesis .
  qed
  moreover have "membership t = (\<lambda>x. if membership s x \<in> (Some \<circ> c_id) ` set ?os then Some (c_id v) else membership s x)
      (a_id a \<mapsto> c_id v)"
  proof -
    have "membership t = membership s3" by (simp only: same_book_membership [OF fin] re5(2))
    also have "\<dots> = (membership s2)(a_id a \<mapsto> c_id v)" by (simp only: same_book_membership [OF s3(1)] att(2))
    also have "membership s2 = (\<lambda>x. if membership s1 x \<in> (Some \<circ> c_id) ` set ?os then Some (c_id v) else membership s1 x)"
      using ch2 by blast
    finally show ?thesis by (simp only: same_book_membership [OF s1(2)])
  qed
  moreover have outcome: "if ?os = [] then c_id v \<notin> c_id ` set (cases s) else v \<in> set ?os \<and> (\<forall>c \<in> set ?os. case_age v \<le> case_age c)"
  proof -
    have "cases s1 = cases s" using s1(2) by (simp add: same_book_def)
    moreover have "if ?os = [] then c_id v \<notin> c_id ` set (cases s1) else v \<in> set ?os \<and> (\<forall>c \<in> set ?os. case_age v \<le> case_age c)"
      using ch2 by blast
    ultimately show ?thesis by (simp only:)
  qed
  moreover have kept: "c \<in> set (cases t)" if "c \<in> set (cases s2)" "c_id c \<noteq> c_id v" for c
  proof -
    have "cases t = stored E w (cases s2)"
      using refresh_case_Inr [OF re4] fin s3(1) by (simp add: same_book_def attached_def)
    then show ?thesis using that re5(4) by (auto simp: stored_def set_update_where intro!: bexI [of _ c])
  qed
  have "\<forall>c \<in> set ?os. c_id c \<noteq> c_id v \<longrightarrow> merged_in E v c t"
    using ch2 kept by (simp add: merged_in_def)
  moreover have "\<forall>c \<in> set (cases s). c \<notin> set ?os \<longrightarrow> c \<in> set (cases t)"
  proof (intro ballI impI)
    fix c assume c: "c \<in> set (cases s)" "c \<notin> set ?os"
    have "c_id c \<noteq> c_id v"
    proof (cases "?os = []")
      case True
      with outcome have "c_id v \<notin> c_id ` set (cases s)" by simp
      with c(1) show ?thesis by (metis imageI)
    next
      case False
      then have "v \<in> set ?os" "v \<in> set (cases s)" using outcome by (auto simp: matched_open_def)
      with c assms(3) show ?thesis by (auto simp: book_upto_def keys_ok_def distinct_map inj_on_def)
    qed
    moreover have "c \<in> set (cases s2)" using ch2 c s1(2) by (simp add: same_book_def)
    ultimately show "c \<in> set (cases t)" by (intro kept)
  qed
  moreover have "ev_stream (last (events t)) = case_stream (c_id w)" "ev_action (last (events t)) = ''case.alert_linked''"
    using record_audit_inv [OF au inv4] by auto
  ultimately show ?thesis
    using ds d ids re5(4) g unfolding Let_def by (intro exI [of _ ds] exI [of _ d] exI [of _ ids] exI [of _ v]) auto
qed

section \<open>Which cases match\<close>

lemma matched_case_ids_set:
  assumes "\<And>c. c \<in> set cs \<Longrightarrow> \<exists>d. map_of by_alert (a_id c) = Some d \<and> d = dc c"
  shows "\<exists>ids. matched_case_ids by_alert key cs seen = Inr ids
    \<and> set ids = set seen \<union> {i. \<exists>c \<in> set cs. a_case_id c = Some i \<and> d_group_key (dc c) = key}"
  using assms
proof (induction cs arbitrary: seen)
  case (Cons c cs)
  from Cons.prems [of c] have d: "getitem by_alert (a_id c) = Inr (dc c)" by (auto simp: getitem_def)
  note IH = Cons.IH [OF Cons.prems, simplified]
  show ?case
  proof (cases "a_case_id c")
    case None
    then show ?thesis using IH [of seen] by auto
  next
    case (Some i)
    consider "i \<in> set seen" | "i \<notin> set seen" "d_group_key (dc c) = key" | "i \<notin> set seen" "d_group_key (dc c) \<noteq> key" by blast
    then show ?thesis
    proof cases
      case 1
      then show ?thesis using IH [of seen] Some by auto
    next
      case 2
      then show ?thesis using IH [of "seen @ [i]"] Some d by auto
    next
      case 3
      then show ?thesis using IH [of seen] Some d by auto
    qed
  qed
qed simp

lemma index_decisions_distinct:
  assumes "distinct (map d_alert_id ds)"
  shows "index_decisions ds = map (\<lambda>d. (d_alert_id d, d)) ds"
proof -
  have "fold (\<lambda>d. AList.update (d_alert_id d) d) xs d = d @ map (\<lambda>d. (d_alert_id d, d)) xs"
    if "distinct (map fst d @ map d_alert_id xs)" for xs d
    using that
  proof (induction xs arbitrary: d)
    case (Cons x xs)
    then have "AList.update (d_alert_id x) x d = d @ [(d_alert_id x, x)]" by (intro update_new) auto
    with Cons.IH [of "d @ [(d_alert_id x, x)]"] Cons.prems show ?case by auto
  qed simp
  from this [of "[]" ds] assms show ?thesis by (simp add: index_decisions_def)
qed

definition grouping_ok :: "grouping_config \<Rightarrow> bool" where
  "grouping_ok cfg \<longleftrightarrow> list_all wf_rule (rules cfg) \<and> wf_weights (weights cfg) \<and> time_tau_seconds cfg \<noteq> 0 \<and> 0 \<le> candidate_cap cfg"

definition amounts_ok :: "state \<Rightarrow> bool" where
  "amounts_ok s \<longleftrightarrow> (\<forall>a \<in> set (alerts s). 0 \<le> na_amount (a_data a))"

lemma engine_alert_of_simps [simp]:
  "ea_id (engine_alert_of a) = a_id a" "ea_amount (engine_alert_of a) = na_amount (a_data a)"
  by (simp_all add: engine_alert_of_def Let_def)

lemma candidate_rows_sub: "c \<in> set (candidate_rows E a s) \<Longrightarrow> c \<in> set (alerts s) \<and> is_candidate (env_config E) a c"
  by (auto simp: candidate_rows_def dest: in_set_takeD split: if_splits)

lemma candidate_rows_distinct:
  assumes "distinct (map a_id (alerts s))"
  shows "distinct (map a_id (candidate_rows E a s))"
proof -
  have "distinct (candidate_rows E a s)" using assms by (simp add: candidate_rows_def scanned_def distinct_map)
  moreover have "inj_on a_id (set (alerts s))" using assms by (simp add: distinct_map)
  ultimately show ?thesis using candidate_rows_sub by (auto simp: distinct_map intro: inj_on_subset)
qed

lemma engine_input_wf:
  assumes "grouping_ok (env_config E)" and "amounts_ok s" and "a \<in> set (alerts s)" and "distinct (map a_id (alerts s))"
  shows "wf_input (engine_input E a s) (env_config E)"
proof -
  have "a_id c \<noteq> a_id a" "0 \<le> na_amount (a_data c)" if "c \<in> set (candidate_rows E a s)" for c
    using candidate_rows_sub [OF that] assms(2) by (auto simp: is_candidate_def amounts_ok_def)
  moreover from this have "a_id a \<notin> a_id ` set (candidate_rows E a s)" by (metis imageE)
  ultimately show ?thesis
    using assms(1-3) candidate_rows_distinct [OF assms(4)]
    by (auto simp: wf_input_def engine_input_def grouping_ok_def amounts_ok_def o_def)
qed

lemma matched_ids_linked:
  assumes "wf_input (engine_input E a s) (env_config E)"
    and "K = kept_pairs (env_platform E) (engine_input E a s) (env_config E) [] []"
  shows "\<exists>ds d ids. group (env_platform E) (engine_input E a s) (env_config E) [] [] = Inr ds
    \<and> d \<in> set ds \<and> d_alert_id d = a_id a \<and> getitem (index_decisions ds) (a_id a) = Inr d
    \<and> matched_case_ids (index_decisions ds) (d_group_key d) (candidate_rows E a s) [] = Inr ids
    \<and> set ids = {i. \<exists>c \<in> set (candidate_rows E a s). a_case_id c = Some i \<and> (a_id a, a_id c) \<in> linked K}"
proof -
  let ?in = "engine_input E a s"
  from group_result [OF assms] obtain ds where ds: "group (env_platform E) ?in (env_config E) [] [] = Inr ds"
    "map d_alert_id ds = sorted_list_of_set (ea_id ` set ?in)"
    "\<forall>d \<in> set ds. \<forall>e \<in> set ds. d_group_key d = d_group_key e \<longleftrightarrow> (d_alert_id d, d_alert_id e) \<in> linked K"
    by blast
  have dist: "distinct (map d_alert_id ds)" by (simp add: ds(2))
  then have ind: "index_decisions ds = map (\<lambda>d. (d_alert_id d, d)) ds" by (rule index_decisions_distinct)
  have dom: "d_alert_id ` set ds = ea_id ` set ?in"
    using ds(2) by (metis List.finite_set finite_imageI list.set_map set_sorted_list_of_set)
  define dc where "dc c = the (map_of (index_decisions ds) (a_id c))" for c :: alert_row
  have dc: "map_of (index_decisions ds) (a_id c) = Some (dc c) \<and> dc c \<in> set ds \<and> d_alert_id (dc c) = a_id c"
    if "c \<in> insert a (set (candidate_rows E a s))" for c
  proof -
    have "a_id c \<in> ea_id ` set ?in" using that by (auto simp: engine_input_def image_image)
    then obtain d where d: "d \<in> set ds" "d_alert_id d = a_id c" using dom by (metis imageE)
    moreover have "map_of (index_decisions ds) (d_alert_id d) = Some d"
      using d(1) dist unfolding ind by (intro map_of_is_SomeI) (auto simp: o_def)
    ultimately show ?thesis by (simp add: dc_def)
  qed
  obtain ids where ids: "matched_case_ids (index_decisions ds) (d_group_key (dc a)) (candidate_rows E a s) [] = Inr ids"
    "set ids = {i. \<exists>c \<in> set (candidate_rows E a s). a_case_id c = Some i \<and> d_group_key (dc c) = d_group_key (dc a)}"
    using matched_case_ids_set [of "candidate_rows E a s" "index_decisions ds" dc "d_group_key (dc a)" "[]"] dc by auto
  have "d_group_key (dc c) = d_group_key (dc a) \<longleftrightarrow> (a_id a, a_id c) \<in> linked K" if "c \<in> set (candidate_rows E a s)" for c
    using ds(3) dc [of a] dc [of c] that by (metis insertCI)
  then have "set ids = {i. \<exists>c \<in> set (candidate_rows E a s). a_case_id c = Some i \<and> (a_id a, a_id c) \<in> linked K}"
    using ids(2) by auto
  then show ?thesis using ds(1) dc [of a] ids(1) by (auto simp: getitem_def)
qed

end
