(* ===== verification/GroupingOutcome.thy ===== *)
theory GroupingOutcome
  imports CaseBook
begin

text \<open>
  The properties of \<open>apply_grouping\<close>: it succeeds on well-formed input, keeps the books, and puts every
  alert where the engine's decision says. A merged case leads to a live one along its canonical
  pointers.
\<close>

section \<open>Grouping succeeds\<close>

text \<open>What the database and the clock must supply: fresh ids, an unused reference, texts that fit.\<close>

definition supplies_ok :: "env \<Rightarrow> state \<Rightarrow> bool" where
  "supplies_ok E s \<longleftrightarrow>
     (\<forall>k \<in> set [uuids s..<uuids s + 3]. fits 36 (new_uuid E k) \<and> new_uuid E k \<notin> c_id ` set (cases s)
        \<and> new_uuid E k \<notin> g_id ` set (groupings s) \<and> new_uuid E k \<notin> l_id ` set (links s))
     \<and> human_ref_seq s < 2 ^ 63 \<and> human_ref (human_ref_seq s) \<notin> c_human_ref ` set (cases s)
     \<and> (\<forall>c \<in> set (cases s). fits 36 (c_id c)) \<and> (\<forall>a \<in> set (alerts s). fits 36 (a_id a))
     \<and> fits_opt 255 (correlation E) \<and> fits 64 (config_hash (env_platform E) (env_config E))
     \<and> (\<forall>r \<in> set (rules (env_config E)). CHR 0x00 \<notin> set (rule_id r))"

definition id_lists :: "state \<Rightarrow> uuid list \<times> uuid list \<times> uuid list \<times> uuid list \<times> nat \<times> nat" where
  "id_lists s = (map a_id (alerts s), map l_id (links s), map l_alert_id (links s), map g_id (groupings s), uuids s, human_ref_seq s)"

lemma audit_case_ok:
  assumes "audit_inv (env_platform E) s" and "fits 36 i" and "fits_opt 255 (correlation E)" and "fits 100 action"
    and "fits_opt 2000 reason"
  shows "\<exists>e t. record_audit E (case_stream i) None action ''case'' i reason before after s = (Inr e, t)"
  using assms by (intro record_audit_ok) (auto simp: fits_def actor_roles_text_def case_stream_def)

lemma fits_actions: "fits 100 ''case.review_flagged''" "fits 100 ''case.merged''" "fits 100 ''case.alert_linked''"
  by (simp_all add: fits_def)

lemma record_audit_ids:
  assumes "record_audit E k actor action tt tid reason before after s = (Inr e, t)" and "audit_inv (env_platform E) s"
  shows "id_lists t = id_lists s"
  using record_audit_frame [OF assms] by (simp add: id_lists_def)

lemma flag_closed_run:
  assumes "audit_inv (env_platform E) s" and "\<forall>c \<in> set cs. fits 36 (c_id c)" and "fits 36 (a_id a)"
    and "fits_opt 255 (correlation E)"
  shows "\<exists>t. each (flag_closed E a) cs s = (Inr (), t) \<and> id_lists t = id_lists s"
  using assms(1,2)
proof (induction cs arbitrary: s)
  case Nil
  then show ?case by (simp add: run_simps)
next
  case (Cons c cs)
  have id: "fits 36 (c_id c)" using Cons.prems(2) by simp
  have reason: "fits_opt 2000 (Some (''new alert '' @ a_id a @ '' matched a closed case''))" using assms(3) by (simp add: fits_def)
  then obtain e s1 where r: "record_audit E (case_stream (c_id c)) None ''case.review_flagged'' ''case'' (c_id c)
       (Some (''new alert '' @ a_id a @ '' matched a closed case'')) None None s = (Inr e, s1)"
    using audit_case_ok [OF Cons.prems(1) id assms(4) fits_actions(1) reason] by blast
  from record_audit_frame(10) [OF r Cons.prems(1)] have "audit_inv (env_platform E) s1" .
  with Cons.IH [of s1] Cons.prems(2) obtain t where "each (flag_closed E a) cs s1 = (Inr (), t)" "id_lists t = id_lists s1"
    by auto
  moreover have "flag_closed E a c s = (Inr (), s1)" using r by (simp add: flag_closed_def run_simps)
  ultimately show ?case using record_audit_ids [OF r Cons.prems(1)] by (simp add: run_simps)
qed

lemma absorb_ids: "id_lists (absorb E v l s) = id_lists s"
proof -
  have "uuids (absorb E v l s) = uuids s" "human_ref_seq (absorb E v l s) = human_ref_seq s"
    by (simp_all add: absorb_def move_contents_def)
  then show ?thesis by (simp add: id_lists_def map_update_where)
qed

lemma merge_all_run:
  assumes "audit_inv (env_platform E) s" and "\<forall>l \<in> set ls. fits 36 (c_id l)" and "fits_opt 255 (correlation E)"
  shows "\<exists>t. each (merge_case E v) ls s = (Inr (), t) \<and> id_lists t = id_lists s"
  using assms(1,2)
proof (induction ls arbitrary: s)
  case Nil
  then show ?case by (simp add: run_simps)
next
  case (Cons l ls)
  let ?a = "absorb E v l s"
  have inv: "audit_inv (env_platform E) ?a" using Cons.prems(1) by (simp add: absorb_def)
  have id: "fits 36 (c_id l)" using Cons.prems(2) by simp
  obtain e s1 where r: "record_audit E (case_stream (c_id l)) None ''case.merged'' ''case'' (c_id l) None
       (Some (JObj [(''status'', JStr (c_status l))]))
       (Some (JObj [(''status'', JStr ''Merged''), (''canonical_from_case_id'', JStr (c_id v))])) ?a = (Inr e, s1)"
    using audit_case_ok [OF inv id assms(3) fits_actions(2) fits_opt_None] by blast
  then have m: "merge_case E v l s = (Inr (), s1)"
    by (simp add: merge_case_def run_simps save_case_def absorb_def merged_row_def move_contents_def stored_def)
  from record_audit_frame(10) [OF r inv] have "audit_inv (env_platform E) s1" .
  with Cons.IH [of s1] Cons.prems(2) obtain t where "each (merge_case E v) ls s1 = (Inr (), t)" "id_lists t = id_lists s1"
    by auto
  with m record_audit_ids [OF r inv] absorb_ids [of E v l s] show ?case by (simp add: run_simps)
qed

lemma create_case_run:
  assumes "fits 64 (human_ref (human_ref_seq s))" and "new_uuid E (uuids s) \<notin> c_id ` set (cases s)"
    and "human_ref (human_ref_seq s) \<notin> c_human_ref ` set (cases s)"
  shows "\<exists>c t. create_case E a s = (Inr c, t) \<and> links t = links s \<and> groupings t = groupings s \<and> alerts t = alerts s
    \<and> uuids t = Suc (uuids s)"
  using assms by (simp add: create_case_def run_simps Let_def)

text \<open>Every step from the state in which the target is chosen on.\<close>

lemma attach_alert_run:
  assumes "a_id a \<in> a_id ` set (alerts s)" and "a_id a \<notin> l_alert_id ` set (links s)"
    and "new_uuid E (uuids s) \<notin> g_id ` set (groupings s)" and "new_uuid E (Suc (uuids s)) \<notin> l_id ` set (links s)"
    and "grouping_fits (new_grouping E (new_uuid E (uuids s)) (a_id a) (c_id v) d t)" and "fits 255 label"
  shows "\<exists>g u. attach_alert E a v d t label s = (Inr g, u)"
proof -
  have "a_id ` set (update_where (\<lambda>r. a_id r = a_id a) (\<lambda>r. r\<lparr> a_case_id := c \<rparr>) (alerts s)) = a_id ` set (alerts s)" for c
    unfolding image_set by (simp add: map_update_where)
  then show ?thesis
    using assms by (simp add: attach_alert_def run_simps Let_def)
qed

lemma refresh_case_run: "\<exists>w t. refresh_case E created v s = (Inr w, t)"
  by (simp add: refresh_case_def run_simps save_case_def Let_def)

lemma choose_target_run:
  assumes "audit_inv (env_platform E) s" and "\<forall>c \<in> set os. fits 36 (c_id c)" and "fits_opt 255 (correlation E)"
    and "fits 64 (human_ref (human_ref_seq s))" and "new_uuid E (uuids s) \<notin> c_id ` set (cases s)"
    and "human_ref (human_ref_seq s) \<notin> c_human_ref ` set (cases s)"
  shows "\<exists>v created t. choose_target E a os s = (Inr (v, created), t)
    \<and> map a_id (alerts t) = map a_id (alerts s) \<and> map l_id (links t) = map l_id (links s)
    \<and> map l_alert_id (links t) = map l_alert_id (links s) \<and> map g_id (groupings t) = map g_id (groupings s)
    \<and> uuids s \<le> uuids t \<and> uuids t \<le> Suc (uuids s)"
proof (cases os)
  case Nil
  from create_case_run [OF assms(4-6)] obtain c t where "create_case E a s = (Inr c, t)" "links t = links s"
    "groupings t = groupings s" "alerts t = alerts s" "uuids t = Suc (uuids s)" by blast
  then show ?thesis using Nil by (auto simp: choose_target_def run_simps)
next
  case (Cons c cs)
  show ?thesis
  proof (cases "cs = []")
    case True
    with Cons show ?thesis by (auto simp: choose_target_def run_simps)
  next
    case False
    let ?v = "earliest c cs"
    have "\<forall>l \<in> set (filter (\<lambda>l. c_id l \<noteq> c_id ?v) (c # cs)). fits 36 (c_id l)" using assms(2) Cons by auto
    from merge_all_run [OF assms(1) this assms(3), of ?v] obtain t
      where "each (merge_case E ?v) (filter (\<lambda>l. c_id l \<noteq> c_id ?v) (c # cs)) s = (Inr (), t)" "id_lists t = id_lists s"
      by blast
    with Cons False show ?thesis by (auto simp: choose_target_def run_simps Let_def id_lists_def simp del: filter.simps)
  qed
qed

lemma apply_grouping_runs:
  assumes "audit_inv (env_platform E) s" and "book_inv (env_config E) s" and "grouping_ok (env_config E)"
    and "amounts_ok s" and "a \<in> set (alerts s)" and "a_case_id a = None" and "supplies_ok E s" and "fits 255 label"
  shows "\<exists>w g t. apply_grouping E a label s = (Inr (w, g), t)"
proof -
  have keys: "distinct (map a_id (alerts s))" and att: "attached_ok s" using assms(2) by (simp_all add: book_upto_def keys_ok_def)
  have free: "a_id a \<notin> l_alert_id ` set (links s)"
    using att assms(5,6) unfolding attached_ok_def by fastforce
  note wf = engine_input_wf [OF assms(3-5) keys]
  from matched_ids_linked [OF wf refl] obtain ds d ids
    where ds: "group (env_platform E) (engine_input E a s) (env_config E) [] [] = Inr ds" "d \<in> set ds"
      "getitem (index_decisions ds) (a_id a) = Inr d"
      "matched_case_ids (index_decisions ds) (d_group_key d) (candidate_rows E a s) [] = Inr ids" by blast
  define s0 where "s0 = s\<lparr> ticks := Suc (ticks s), decisions_total := decisions_total s @ [d_method d] \<rparr>"
  define cs where "cs = scanned E c_id (filter (\<lambda>c. c_id c \<in> set ids) (cases s))"
  have short: "\<forall>c \<in> set cs. fits 36 (c_id c)" "fits 36 (a_id a)" and corr: "fits_opt 255 (correlation E)"
    using assms(5,7) by (auto simp: supplies_ok_def cs_def)
  have inv0: "audit_inv (env_platform E) s0" using assms(1) by (simp add: s0_def)
  obtain s1 where fl: "each (flag_closed E a) (filter (\<lambda>c. c_status c = ''Closed'') cs) s0 = (Inr (), s1)"
    and l1: "id_lists s1 = id_lists s0"
    using flag_closed_run [OF inv0 _ short(2) corr, of "filter (\<lambda>c. c_status c = ''Closed'') cs"] short(1) by auto
  have s1: "audit_inv (env_platform E) s1" "same_book s s1"
    using flag_closed_all [OF fl inv0] by (simp_all add: s0_def same_book_def)
  have ids1: "map a_id (alerts s1) = map a_id (alerts s)" "map l_id (links s1) = map l_id (links s)"
    "map l_alert_id (links s1) = map l_alert_id (links s)" "map g_id (groupings s1) = map g_id (groupings s)"
    "uuids s1 = uuids s" "human_ref_seq s1 = human_ref_seq s" "cases s1 = cases s"
    using l1 s1(2) by (simp_all add: id_lists_def s0_def same_book_def)
  have "\<forall>c \<in> set (filter open_case cs). fits 36 (c_id c)" using short(1) by simp
  moreover have "fits 64 (human_ref (human_ref_seq s1))" "new_uuid E (uuids s1) \<notin> c_id ` set (cases s1)"
    "human_ref (human_ref_seq s1) \<notin> c_human_ref ` set (cases s1)"
    using assms(7) by (simp_all add: ids1 supplies_ok_def fits_human_ref)
  ultimately obtain v created s2 where ch: "choose_target E a (filter open_case cs) s1 = (Inr (v, created), s2)"
    and l2: "map a_id (alerts s2) = map a_id (alerts s1) \<and> map l_id (links s2) = map l_id (links s1)
    \<and> map l_alert_id (links s2) = map l_alert_id (links s1) \<and> map g_id (groupings s2) = map g_id (groupings s1)
    \<and> uuids s1 \<le> uuids s2 \<and> uuids s2 \<le> Suc (uuids s1)"
    using choose_target_run [OF s1(1) _ corr, of "filter open_case cs" a] by blast
  have as: "a_id ` set (alerts s2) = a_id ` set (alerts s)" "l_id ` set (links s2) = l_id ` set (links s)"
    "l_alert_id ` set (links s2) = l_alert_id ` set (links s)" "g_id ` set (groupings s2) = g_id ` set (groupings s)"
    unfolding image_set using l2 ids1 by simp_all
  have fresh: "uuids s \<le> k \<and> k < uuids s + 3 \<Longrightarrow> new_uuid E k \<notin> g_id ` set (groupings s) \<and> new_uuid E k \<notin> l_id ` set (links s)" for k
    using assms(7) by (simp add: supplies_ok_def)
  have le: "uuids s \<le> uuids s2 \<and> uuids s2 < uuids s + 3" "uuids s \<le> Suc (uuids s2) \<and> Suc (uuids s2) < uuids s + 3"
    using l2 ids1(5) by auto
  have texts: "d_method d \<in> {''singleton'', ''deterministic'', ''similarity''}"
    "set (d_matched_rule_ids d) \<subseteq> rule_id ` set (rules (env_config E))"
    using group_decision_texts [OF wf ds(1,2)] by blast+
  have "grouping_fits (new_grouping E i (a_id a) (c_id v) d t)" for i t
    using texts assms(7) by (auto simp: grouping_fits_def new_grouping_def supplies_ok_def fits_def list_all_iff)
  then obtain g s3 where at: "attach_alert E a v d (utcnow E (ticks s)) label s2 = (Inr g, s3)"
    using attach_alert_run [of a s2 E v d "utcnow E (ticks s)" label] assms(5,8) free fresh [OF le(1)] fresh [OF le(2)] as
    by auto
  obtain w s4 where re: "refresh_case E created v s3 = (Inr w, s4)" using refresh_case_run by blast
  have "\<forall>c \<in> set (filter open_case cs). c \<in> set (cases s1) \<and> open_case c" "distinct (filter open_case cs)"
    using assms(2) by (auto simp: ids1 cs_def scanned_def book_upto_def keys_ok_def distinct_map)
  note ch2 = choose_target_book [OF ch s1(1) same_book_inv [OF s1(2), THEN iffD2, OF assms(2)] this]
  have "audit_inv (env_platform E) s2" using ch2 by blast
  then have "audit_inv (env_platform E) s3" using attach_alert_Inr [OF at] by (auto simp: attached_def)
  then have inv4: "audit_inv (env_platform E) s4" using refresh_case_Inr [OF re] by simp
  have wv: "c_id w = c_id v" using refresh_case_Inr [OF re] by simp
  have "fits 36 (c_id v)"
  proof (cases "filter open_case cs = []")
    case True
    then have "create_case E a s1 = (Inr v, s2)" using ch by (auto simp: choose_target_def op_simps)
    from create_case_Inr [OF this] have "c_id v = new_uuid E (uuids s)" by (simp add: ids1)
    then show ?thesis using assms(7) by (simp add: supplies_ok_def)
  next
    case False
    then have "v \<in> set (filter open_case cs)" using ch2 by auto
    then show ?thesis using short(1) by simp
  qed
  then have "fits 36 (c_id w)" by (simp only: wv)
  then obtain e t where au: "record_audit E (case_stream (c_id w)) None ''case.alert_linked'' ''case'' (c_id w) None None
            (Some (JObj [(''alert_id'', JStr (a_id a)), (''method'', JStr (d_method d))])) s4 = (Inr e, t)"
    using audit_case_ok [OF inv4 _ corr fits_actions(3) fits_opt_None, of "c_id w"] by blast
  have cand: "candidate_rows E a (s\<lparr> ticks := k \<rparr>) = candidate_rows E a s" for k by (simp add: candidate_rows_def)
  have fl': "each (flag_closed E a) (filter (\<lambda>c. c_status c = ''Closed'') (scanned E c_id (filter (\<lambda>c. c_id c \<in> set ids) (cases s))))
     (s\<lparr> ticks := Suc (ticks s), decisions_total := decisions_total s @ [d_method d] \<rparr>) = (Inr (), s1)"
    using fl by (simp add: cs_def s0_def)
  have ch': "choose_target E a (filter (\<lambda>c. c_status c \<notin> {''Merged'', ''Closed''}) (scanned E c_id (filter (\<lambda>c. c_id c \<in> set ids) (cases s)))) s1
      = (Inr (v, created), s2)" using ch by (simp add: cs_def open_case_def [abs_def])
  have "0 \<le> candidate_cap (env_config E)" using assms(3) by (simp add: grouping_ok_def)
  then have "apply_grouping E a label s = (Inr (w, g), t)"
    unfolding apply_grouping_def
    using ds(1,3,4) fl' ch' at re au
    by (simp add: run_simps candidate_query_def cand engine_input_def lift_result_def)
  then show ?thesis by blast
qed


section \<open>Properties\<close>

text \<open>Grouping an alert keeps the books. If the alert is grouped without an error, the tables agree
  again afterwards: an alert is in a case exactly when a link says so and the grouping decision of the
  link names both, only live cases hold alerts, links, notes or decisions, every live case shows its
  number of links and the aggregated risk of its alerts, merged cases point at an older case, case rows
  are well formed, and the audit chains are intact.\<close>

theorem apply_grouping_keeps_book:
  assumes "apply_grouping E a label s = (Inr (w, g), t)" and "audit_inv (env_platform E) s" and "book_inv (env_config E) s"
  shows "book_inv (env_config E) t \<and> audit_inv (env_platform E) t"
  using apply_grouping_Inr [OF assms] by blast

definition matches :: "env \<Rightarrow> alert_row \<Rightarrow> state \<Rightarrow> case_row set" where
  "matches E a s =
     {c \<in> set (cases s). open_case c \<and> (\<exists>b \<in> set (candidate_rows E a s). a_case_id b = Some (c_id c)
        \<and> (a_id a, a_id b) \<in> linked (kept_pairs (env_platform E) (engine_input E a s) (env_config E) [] []))}"

text \<open>C3: Where a grouped alert goes. \<open>matches\<close> are the open cases holding a candidate that the engine
  links to the alert. The alert ends in the earliest of them (by creation time, then id), or in a new
  case if there is none; every alert of another match moves there too and that match becomes a merged
  case pointing to the target; every other alert stays in its case, and every other case row, in
  particular every closed one, is untouched.\<close>

theorem apply_grouping_outcome:
  assumes "apply_grouping E a label s = (Inr (w, g), t)" and "audit_inv (env_platform E) s" and "book_inv (env_config E) s"
    and "grouping_ok (env_config E)" and "amounts_ok s" and "a \<in> set (alerts s)"
  shows "(if matches E a s = {} then c_id w \<notin> c_id ` set (cases s)
      else \<exists>v \<in> matches E a s. c_id w = c_id v \<and> (\<forall>c \<in> matches E a s. case_age v \<le> case_age c))
    \<and> membership t (a_id a) = Some (c_id w)
    \<and> (\<forall>x. x \<noteq> a_id a \<longrightarrow> membership t x =
         (if membership s x \<in> (Some \<circ> c_id) ` matches E a s then Some (c_id w) else membership s x))
    \<and> (\<forall>c \<in> matches E a s. c_id c \<noteq> c_id w \<longrightarrow> (\<exists>d \<in> set (cases t). c_id d = c_id c
         \<and> c_status d = ''Merged'' \<and> c_canonical_from_case_id d = Some (c_id w)))
    \<and> (\<forall>c \<in> set (cases s). c \<notin> matches E a s \<longrightarrow> c \<in> set (cases t))"
proof -
  from apply_grouping_Inr [OF assms(1-3)] obtain ds d ids v
    where run: "group (env_platform E) (engine_input E a s) (env_config E) [] [] = Inr ds"
      "getitem (index_decisions ds) (a_id a) = Inr d"
      "matched_case_ids (index_decisions ds) (d_group_key d) (candidate_rows E a s) [] = Inr ids"
      and w: "c_id w = c_id v"
      and res: "let os = matched_open E s ids
       in (if os = [] then c_id v \<notin> c_id ` set (cases s) else v \<in> set os \<and> (\<forall>c \<in> set os. case_age v \<le> case_age c))
          \<and> (\<forall>c \<in> set (cases s). c \<notin> set os \<longrightarrow> c \<in> set (cases t))
          \<and> (\<forall>c \<in> set os. c_id c \<noteq> c_id v \<longrightarrow> merged_in E v c t)
          \<and> membership t = (\<lambda>x. if membership s x \<in> (Some \<circ> c_id) ` set os then Some (c_id v) else membership s x)
              (a_id a \<mapsto> c_id v)" by blast
  have "distinct (map a_id (alerts s))" using assms(3) by (simp add: book_upto_def keys_ok_def)
  from matched_ids_linked [OF engine_input_wf [OF assms(4-6) this] refl] run
  have "set ids = {i. \<exists>c \<in> set (candidate_rows E a s). a_case_id c = Some i
      \<and> (a_id a, a_id c) \<in> linked (kept_pairs (env_platform E) (engine_input E a s) (env_config E) [] [])}"
    by auto
  then have M: "set (matched_open E s ids) = matches E a s" by (auto simp: matched_open_def matches_def)
  have "\<exists>x \<in> set (cases t). c_id x = c_id c \<and> c_status x = ''Merged'' \<and> c_canonical_from_case_id x = Some (c_id w)"
    if "merged_in E v c t" for c
    using that w by (intro bexI [of _ "(merged_row v c)\<lparr> c_updated_at := txn_now E \<rparr>"]) (simp_all add: merged_in_def)
  then have merged: "\<forall>c \<in> matches E a s. c_id c \<noteq> c_id w \<longrightarrow> (\<exists>d \<in> set (cases t). c_id d = c_id c
         \<and> c_status d = ''Merged'' \<and> c_canonical_from_case_id d = Some (c_id w))"
    using res w unfolding Let_def M by auto
  have empty: "matched_open E s ids = [] \<longleftrightarrow> matches E a s = {}" using M by auto
  then have target: "if matches E a s = {} then c_id w \<notin> c_id ` set (cases s)
      else \<exists>v \<in> matches E a s. c_id w = c_id v \<and> (\<forall>c \<in> matches E a s. case_age v \<le> case_age c)"
    using res w unfolding Let_def M empty by (cases "matches E a s = {}") auto
  have "membership t = (\<lambda>x. if membership s x \<in> (Some \<circ> c_id) ` matches E a s then Some (c_id w) else membership s x)
      (a_id a \<mapsto> c_id w)" and "\<forall>c \<in> set (cases s). c \<notin> matches E a s \<longrightarrow> c \<in> set (cases t)"
    using res unfolding Let_def M w by blast+
  then show ?thesis using target merged by simp
qed

section \<open>Merged cases lead to a live case\<close>

definition canonical_edges :: "state \<Rightarrow> (uuid \<times> uuid) set" where
  "canonical_edges s = {(c_id c, i) | c i. c \<in> set (cases s) \<and> c_canonical_from_case_id c = Some i}"

definition age_of :: "state \<Rightarrow> uuid \<Rightarrow> int \<times> uuid" where
  "age_of s i = case_age (the (find_case s i))"

lemma book_ids: "book_upto cfg T s \<Longrightarrow> distinct (map c_id (cases s))"
  by (simp add: book_upto_def keys_ok_def)

lemma canonical_older:
  assumes "book_inv cfg s" and "(i, j) \<in> canonical_edges s"
  shows "age_of s j < age_of s i" and "\<exists>d \<in> set (cases s). c_id d = j"
proof -
  from assms(2) obtain c where c: "c \<in> set (cases s)" "c_id c = i" "c_canonical_from_case_id c = Some j"
    by (auto simp: canonical_edges_def)
  then have "c_status c = ''Merged''" using assms(1) by (auto simp: book_upto_def cases_inv_def case_ok_def)
  with assms(1) c(1) obtain d where d: "d \<in> set (cases s)" "c_canonical_from_case_id c = Some (c_id d)" "case_age d < case_age c"
    by (auto simp: book_upto_def merges_ok_def)
  with c find_case_unique [OF book_ids [OF assms(1)]] show "age_of s j < age_of s i" by (auto simp: age_of_def)
  from c(3) d show "\<exists>d \<in> set (cases s). c_id d = j" by auto
qed

lemma canonical_older_trancl:
  assumes "book_inv cfg s" and "(i, j) \<in> (canonical_edges s)\<^sup>+"
  shows "age_of s j < age_of s i"
  using assms(2) by (induction rule: trancl_induct) (auto dest: canonical_older(1) [OF assms(1)])

lemma canonical_live:
  assumes "book_inv cfg s" and "c \<in> set (cases s)"
  shows "(\<exists>d \<in> set (cases s). c_status d \<noteq> ''Merged'' \<and> (c_id c, c_id d) \<in> (canonical_edges s)\<^sup>*)
    \<and> (c_id c, c_id c) \<notin> (canonical_edges s)\<^sup>+"
proof
  show "(c_id c, c_id c) \<notin> (canonical_edges s)\<^sup>+" using canonical_older_trancl [OF assms(1)] by blast
  show "\<exists>d \<in> set (cases s). c_status d \<noteq> ''Merged'' \<and> (c_id c, c_id d) \<in> (canonical_edges s)\<^sup>*"
    using assms(2)
  proof (induction "card {d \<in> set (cases s). case_age d < case_age c}" arbitrary: c rule: less_induct)
    case less
    show ?case
    proof (cases "c_status c = ''Merged''")
      case True
      with assms(1) less.prems obtain d where d: "d \<in> set (cases s)" "c_canonical_from_case_id c = Some (c_id d)"
        "case_age d < case_age c" by (auto simp: book_upto_def merges_ok_def)
      then have "card {x \<in> set (cases s). case_age x < case_age d} < card {x \<in> set (cases s). case_age x < case_age c}"
        by (intro psubset_card_mono) auto
      from less.hyps [OF this d(1)] obtain e where e: "e \<in> set (cases s)" "c_status e \<noteq> ''Merged''"
        "(c_id d, c_id e) \<in> (canonical_edges s)\<^sup>*" by blast
      moreover have "(c_id c, c_id d) \<in> canonical_edges s" using less.prems d(2) by (auto simp: canonical_edges_def)
      ultimately show ?thesis by (blast intro: converse_rtrancl_into_rtrancl)
    next
      case False
      with less.prems show ?thesis by blast
    qed
  qed
qed

text \<open>Following \<open>canonical_from_case_id\<close> from any case ends at a case that is not merged: the pointers
  never dangle and never form a cycle, because each leads to an older case.\<close>

theorem canonical_case_exists:
  assumes "book_inv cfg s" and "c \<in> set (cases s)"
  shows "(\<exists>d \<in> set (cases s). c_status d \<noteq> ''Merged'' \<and> (c_id c, c_id d) \<in> (canonical_edges s)\<^sup>*)
    \<and> (c_id c, c_id c) \<notin> (canonical_edges s)\<^sup>+"
  by (rule canonical_live [OF assms])

section \<open>A concrete database\<close>

definition sample_data :: normalized_alert where
  "sample_data =
     \<lparr> na_external_alert_id = ''e1'', na_source_system = ''tm'', na_event_time = 0, na_amount = 250,
       na_currency = ''USD'', na_direction = ''inbound'', na_customer_ref = None, na_account_ref = Some ''acct-1'',
       na_counterparty_ref = Some ''cp'', na_merchant_name = None, na_merchant_name_normalised = None, na_mcc = None,
       na_device_id = None, na_session_id = None, na_ip_address = None, na_risk_score = Some 40, na_rule_codes = [],
       na_typologies = [], na_raw_payload = JObj [], na_ground_truth_group_id = None \<rparr>"

definition sample_row :: "uuid \<Rightarrow> string \<Rightarrow> uuid option \<Rightarrow> alert_row" where
  "sample_row i ext c =
     \<lparr> a_id = i, a_data = sample_data\<lparr> na_external_alert_id := ext \<rparr>, a_idempotency_key = None, a_received_at = 0,
       a_case_id = c \<rparr>"

definition sample_book :: state where
  "sample_book = empty_state\<lparr> human_ref_seq := 2,
     alerts := [sample_row ''x'' ''e1'' (Some ''1''), sample_row ''y'' ''e2'' None],
     cases := [(sample_case ''Open'')\<lparr> c_alert_count := 1, c_risk_score := 40 \<rparr>],
     groupings := [\<lparr> g_id = ''g'', g_alert_id = ''x'', g_case_id = ''1'', g_method = ''singleton'', g_matched_rule_ids = [],
       g_similarity_score = None, g_feature_contributions = [], g_engine_version = ENGINE_VERSION, g_config_hash = [],
       g_created_at = 0 \<rparr>],
     links := [\<lparr> l_id = ''l'', l_case_id = ''1'', l_alert_id = ''x'', l_grouping_decision_id = ''g'', l_linked_at = 0,
       l_linked_by = ''worker'' \<rparr>] \<rparr>"

definition book_env :: env where
  "book_env = sample_env\<lparr> env_platform := sample_platform\<lparr> sha256 := (\<lambda>s. GENESIS_HASH) \<rparr>,
     new_uuid := (\<lambda>k. CHR ''u'' # nat_text k) \<rparr>"

lemma book_env_simps [simp]: "env_config book_env = shipped_config" "correlation book_env = None"
  "new_uuid book_env k = CHR ''u'' # nat_text k"
  by (simp_all add: book_env_def sample_env_def)

lemma sample_book_inv: "book_inv shipped_config sample_book" "audit_inv P sample_book"
proof -
  show "book_inv shipped_config sample_book"
    by (simp add: book_defs sample_book_def empty_state_def cases_inv_def case_ok_def STATUSES_def ALLOWED_def
        sample_case_def sample_row_def sample_data_def opt_score_def shipped_config_def)
  show "audit_inv P sample_book" by (simp add: sample_book_def audit_inv_empty)
qed

lemma sample_uuid_fits: "k < 10 \<Longrightarrow> fits 36 (CHR ''u'' # nat_text k)"
proof -
  assume "k < 10"
  then have "length (nat_text k) = 1" by (simp add: nat_text.simps [of k])
  moreover have "CHR 0x00 \<notin> set (nat_text k)" using digits_nat_text [of "CHR 0x00" k] by (auto simp: is_digit_def)
  ultimately show ?thesis by (simp add: fits_def)
qed

lemma sample_book_ok: "grouping_ok (env_config book_env)" "amounts_ok sample_book" "supplies_ok book_env sample_book"
  "sample_row ''y'' ''e2'' None \<in> set (alerts sample_book)"
proof -
  show "grouping_ok (env_config book_env)"
    using wf_shipped_rules wf_shipped_weights by (simp add: grouping_ok_def shipped_config_def)
  show "amounts_ok sample_book" by (simp add: amounts_ok_def sample_book_def sample_row_def sample_data_def)
  show "sample_row ''y'' ''e2'' None \<in> set (alerts sample_book)" by (simp add: sample_book_def)
  show "supplies_ok book_env sample_book"
    by (simp add: supplies_ok_def sample_book_def empty_state_def upt_conv_Cons sample_uuid_fits sample_case_def sample_row_def
        config_hash_def book_env_def sample_env_def GENESIS_HASH_def human_ref_def base36_def base36_loop.simps base36_digit_def
        shipped_config_def shipped_rules_def) (simp add: fits_def)
qed

lemma a_case_id_sample: "a_case_id (sample_row i e c) = c" "a_id (sample_row i e c) = i"
  by (simp_all add: sample_row_def)


lemma sample_book_run:
  "\<exists>w g t. apply_grouping book_env (sample_row ''y'' ''e2'' None) ''worker'' sample_book = (Inr (w, g), t)"
  using apply_grouping_runs [OF sample_book_inv(2) _ sample_book_ok(1,2,4) a_case_id_sample(1) sample_book_ok(3)]
    sample_book_inv(1) by (simp add: fits_def)

theorem apply_grouping_keeps_book_witness:
  "\<exists>w g t. apply_grouping book_env (sample_row ''y'' ''e2'' None) ''worker'' sample_book = (Inr (w, g), t)
     \<and> book_inv shipped_config t"
  using sample_book_run apply_grouping_keeps_book [OF _ sample_book_inv(2), of book_env] sample_book_inv(1)
  by (metis book_env_simps(1))

theorem apply_grouping_outcome_witness:
  "\<exists>w g t. apply_grouping book_env (sample_row ''y'' ''e2'' None) ''worker'' sample_book = (Inr (w, g), t)
     \<and> membership t ''y'' = Some (c_id w)"
proof -
  obtain w g t where run: "apply_grouping book_env (sample_row ''y'' ''e2'' None) ''worker'' sample_book = (Inr (w, g), t)"
    using sample_book_run by blast
  have "book_inv (env_config book_env) sample_book" using sample_book_inv(1) by simp
  from apply_grouping_outcome [OF run sample_book_inv(2) this sample_book_ok(1,2,4)] run show ?thesis
    by (auto simp: a_case_id_sample(2))
qed

theorem canonical_case_exists_witness:
  "\<exists>d \<in> set (cases sample_book). c_status d \<noteq> ''Merged'' \<and> (''1'', c_id d) \<in> (canonical_edges sample_book)\<^sup>*"
proof -
  have "(sample_case ''Open'')\<lparr> c_alert_count := 1, c_risk_score := 40 \<rparr> \<in> set (cases sample_book)"
    by (simp add: sample_book_def)
  from canonical_case_exists [OF sample_book_inv(1) this] show ?thesis by (simp add: sample_case_def)
qed

end
