(* ===== verification/Ingestion.thy ===== *)
theory Ingestion
  imports GroupingOutcome "HOL-Library.Sublist"
begin

text \<open>
  \<open>app/ingestion/\<close> and \<open>app/worker.py\<close>: one alert with its grouping and audit event in a transaction, the
  batch route that commits every 500 items and leaves the grouping to a worker job, and the job, which
  gives every alert its own transaction.

  Redis is a map from keys to stored responses that may be out of reach at any call. What is not in
  the repository comes in as arguments: the JSON parser, pydantic's construction of an \<open>AlertIn\<close> and its
  serialised text, and the ARQ queue.
\<close>

section \<open>Persisting an alert\<close>

fun jsonb_ok :: "json \<Rightarrow> bool" where
  "jsonb_ok (JStr s) = (CHR 0x00 \<notin> set s)"
| "jsonb_ok (JList xs) = list_all jsonb_ok xs"
| "jsonb_ok (JObj kvs) = list_all (\<lambda>(k, v). CHR 0x00 \<notin> set k \<and> jsonb_ok v) kvs"
| "jsonb_ok _ = True"

text \<open>The column types of \<open>alerts\<close>; the schema \<open>AlertIn\<close> does not bound these texts.\<close>

definition alert_fits :: "alert_row \<Rightarrow> bool" where
  "alert_fits a \<longleftrightarrow>
     (let n = a_data a
      in fits 200 (na_external_alert_id n) \<and> fits 100 (na_source_system n) \<and> fits_opt 255 (a_idempotency_key a)
         \<and> \<bar>na_amount n\<bar> < 10 ^ 14 \<and> fits 3 (na_currency n) \<and> fits 16 (na_direction n)
         \<and> fits_opt 200 (na_customer_ref n) \<and> fits_opt 200 (na_account_ref n) \<and> fits_opt 200 (na_counterparty_ref n)
         \<and> fits_opt 255 (na_merchant_name n) \<and> fits_opt 255 (na_merchant_name_normalised n) \<and> fits_opt 8 (na_mcc n)
         \<and> fits_opt 200 (na_device_id n) \<and> fits_opt 200 (na_session_id n) \<and> fits_opt 45 (na_ip_address n)
         \<and> list_all (\<lambda>s. CHR 0x00 \<notin> set s) (na_rule_codes n) \<and> list_all (\<lambda>s. CHR 0x00 \<notin> set s) (na_typologies n)
         \<and> jsonb_ok (na_raw_payload n) \<and> fits_opt 200 (na_ground_truth_group_id n))"

definition identity :: "normalized_alert \<Rightarrow> string \<times> string" where
  "identity n = (na_source_system n, na_external_alert_id n)"

definition find_identity :: "string \<times> string \<Rightarrow> alert_row list \<Rightarrow> alert_row option" where
  "find_identity k rows = List.find (\<lambda>a. identity (a_data a) = k) rows"

text \<open>The insert runs in a savepoint: on a constraint violation only the insert is undone and the row that
  owns the identity is selected (\<open>scalar_one\<close> raises if there is none).\<close>

definition insert_alert_or_existing :: "env \<Rightarrow> alert_in \<Rightarrow> string \<Rightarrow> (alert_row \<times> bool) op" where
  "insert_alert_or_existing E payload idem_key =
     bind_op (lift_result (normalize_alert payload)) (\<lambda>n.
     bind_op (uuid4 E) (\<lambda>i.
       let a = \<lparr> a_id = i, a_data = n, a_idempotency_key = Some idem_key, a_received_at = txn_now E, a_case_id = None \<rparr>
       in bind_op (guard (alert_fits a) DataError) (\<lambda>_.
          bind_op (read_state alerts) (\<lambda>as.
            if i \<in> a_id ` set as \<or> identity n \<in> (\<lambda>x. identity (a_data x)) ` set as then
              (case find_identity (identity n) as of
                 None \<Rightarrow> raise_exn (LookupError ''NoResultFound'')
               | Some x \<Rightarrow> ret (x, False))
            else bind_op (modify (\<lambda>s. s\<lparr> alerts := alerts s @ [a] \<rparr>)) (\<lambda>_. ret (a, True))))))"

definition ingest_actor :: "uuid option \<Rightarrow> string \<Rightarrow> principal option" where
  "ingest_actor api_key_id actor_label =
     (case api_key_id of None \<Rightarrow> None
      | Some i \<Rightarrow> Some \<lparr> p_user_id = i, p_email = ''api_key:'' @ actor_label, p_roles = [] \<rparr>)"

record grouping_info =
  gi_method :: string
  gi_matched_rule_ids :: "string list"
  gi_similarity_score :: "rat option"
  gi_feature_contributions :: contributions
  gi_engine_version :: string
  gi_config_hash :: string

definition grouping_info_of :: "grouping_row \<Rightarrow> grouping_info" where
  "grouping_info_of g =
     \<lparr> gi_method = g_method g, gi_matched_rule_ids = g_matched_rule_ids g, gi_similarity_score = g_similarity_score g,
       gi_feature_contributions = g_feature_contributions g, gi_engine_version = g_engine_version g,
       gi_config_hash = g_config_hash g \<rparr>"

text \<open>\<open>AlertOut\<close> repeats the fields of \<open>AlertIn\<close>; \<open>ao_fields\<close> holds them.\<close>

record alert_out =
  ao_id :: uuid
  ao_received_at :: int
  ao_case_id :: "uuid option"
  ao_grouping :: "grouping_info option"
  ao_fields :: alert_in

definition out_fields :: "normalized_alert \<Rightarrow> alert_in" where
  "out_fields n =
     \<lparr> in_external_alert_id = na_external_alert_id n, in_source_system = na_source_system n,
       in_event_time = \<lparr> dt_wall = na_event_time n, dt_offset = Some 0 \<rparr>, in_amount = na_amount n,
       in_currency = na_currency n, in_direction = na_direction n, in_customer_ref = na_customer_ref n,
       in_account_ref = na_account_ref n, in_counterparty_ref = na_counterparty_ref n,
       in_merchant_name = na_merchant_name n, in_mcc = na_mcc n, in_device_id = na_device_id n,
       in_ip_address = na_ip_address n, in_session_id = na_session_id n, in_risk_score = na_risk_score n,
       in_rule_codes = na_rule_codes n, in_typologies = na_typologies n, in_raw_payload = na_raw_payload n,
       in_ground_truth_group_id = na_ground_truth_group_id n \<rparr>"

definition to_alert_out :: "alert_row \<Rightarrow> alert_out" where
  "to_alert_out a =
     \<lparr> ao_id = a_id a, ao_received_at = a_received_at a, ao_case_id = a_case_id a, ao_grouping = None,
       ao_fields = out_fields (a_data a) \<rparr>"

definition audit_after :: "platform \<Rightarrow> alert_row \<Rightarrow> json" where
  "audit_after P a =
     (let n = a_data a
      in JObj [(''id'', JStr (a_id a)), (''external_alert_id'', JStr (na_external_alert_id n)),
           (''source_system'', JStr (na_source_system n)), (''event_time'', JStr (isoformat P (na_event_time n))),
           (''received_at'', JStr (isoformat P (a_received_at a))), (''amount'', JStr (py_str P (PyDecimal (na_amount n)))),
           (''currency'', JStr (na_currency n)), (''direction'', JStr (na_direction n)),
           (''case_id'', json_opt_str (a_case_id a))])"

definition audit_ingested :: "env \<Rightarrow> alert_row \<Rightarrow> uuid option \<Rightarrow> string \<Rightarrow> unit op" where
  "audit_ingested E a api_key_id actor_label =
     bind_op (record_audit E (''alert:'' @ a_id a) (ingest_actor api_key_id actor_label) ''alert.ingested'' ''alert'' (a_id a)
       (Some (''api_key:'' @ actor_label)) None (Some (audit_after (env_platform E) a))) (\<lambda>_. ret ())"

definition ingest_one :: "env \<Rightarrow> alert_in \<Rightarrow> string \<Rightarrow> string \<Rightarrow> uuid option \<Rightarrow> (alert_out \<times> bool) op" where
  "ingest_one E payload idem_key actor_label api_key_id =
     bind_op (insert_alert_or_existing E payload idem_key) (\<lambda>(a, created).
       if \<not> created then
         bind_op (modify (\<lambda>s. s\<lparr> ingested_duplicate := Suc (ingested_duplicate s) \<rparr>)) (\<lambda>_. ret (to_alert_out a, False))
       else
         bind_op (apply_grouping E a actor_label) (\<lambda>(c, g).
         let a1 = a\<lparr> a_case_id := Some (c_id c) \<rparr>
         in bind_op (audit_ingested E a1 api_key_id actor_label) (\<lambda>_.
            bind_op (modify (\<lambda>s. s\<lparr> ingested_created := Suc (ingested_created s) \<rparr>)) (\<lambda>_.
            ret ((to_alert_out a1)\<lparr> ao_case_id := Some (c_id c), ao_grouping := Some (grouping_info_of g) \<rparr>, True)))))"

definition persist_alert_only :: "env \<Rightarrow> alert_in \<Rightarrow> string \<Rightarrow> string \<Rightarrow> uuid option \<Rightarrow> (uuid \<times> bool) op" where
  "persist_alert_only E payload idem_key actor_label api_key_id =
     bind_op (insert_alert_or_existing E payload idem_key) (\<lambda>(a, created).
       if \<not> created then
         bind_op (modify (\<lambda>s. s\<lparr> ingested_duplicate := Suc (ingested_duplicate s) \<rparr>)) (\<lambda>_. ret (a_id a, False))
       else
         bind_op (audit_ingested E a api_key_id actor_label) (\<lambda>_.
         bind_op (modify (\<lambda>s. s\<lparr> ingested_created := Suc (ingested_created s) \<rparr>)) (\<lambda>_.
         ret (a_id a, True))))"

section \<open>Idempotency keys\<close>

text \<open>A stored value: the envelope (its response may be no object, its fingerprint no text), or the bare body
  of an old entry.\<close>

datatype stored_value =
    Envelope "alert_out option" "string option"
  | Legacy alert_out

type_synonym cache = "string \<rightharpoonup> stored_value"

definition compute_key :: "string option \<Rightarrow> alert_in \<Rightarrow> uuid \<Rightarrow> string" where
  "compute_key header payload api_key_id =
     (case header of
        Some (c # cs) \<Rightarrow> api_key_id @ '':'' @ (c # cs)
      | _ \<Rightarrow> in_source_system payload @ '':'' @ in_external_alert_id payload)"

definition request_fingerprint :: "platform \<Rightarrow> (alert_in \<Rightarrow> string) \<Rightarrow> alert_in \<Rightarrow> string" where
  "request_fingerprint P dump payload = sha256 P (dump payload)"

definition idem_check :: "bool \<Rightarrow> cache \<Rightarrow> string \<Rightarrow> (alert_out option \<times> string option) option" where
  "idem_check up cache key =
     (if \<not> up then None
      else case cache (''idem:'' @ key) of
        None \<Rightarrow> None
      | Some (Envelope body fp) \<Rightarrow> Some (body, fp)
      | Some (Legacy body) \<Rightarrow> Some (Some body, None))"

text \<open>The stored JSON of a body is read back as the body: the cache holds the value and not its text.\<close>

definition idem_store :: "bool \<Rightarrow> cache \<Rightarrow> string \<Rightarrow> alert_out \<Rightarrow> string \<Rightarrow> cache" where
  "idem_store up cache key body fp =
     (if up then cache(''idem:'' @ key \<mapsto> Envelope (Some body) (Some fp)) else cache)"

record api_key =
  k_id :: uuid
  k_label :: string
  k_hashed_key :: string
  k_scope :: string
  k_is_active :: bool

text \<open>\<open>POST /alerts\<close>: the status and body, and what becomes of Redis and the database. \<open>get_up\<close> and \<open>set_up\<close>
  say whether Redis answers the two calls. A cached body that is no object fails validation.\<close>

definition ingest_alert ::
  "env \<Rightarrow> (alert_in \<Rightarrow> string) \<Rightarrow> bool \<Rightarrow> bool \<Rightarrow> alert_in \<Rightarrow> string option \<Rightarrow> api_key \<Rightarrow> cache \<times> state
     \<Rightarrow> (nat \<times> alert_out) result \<times> cache \<times> state" where
  "ingest_alert E dump get_up set_up payload header api_key = (\<lambda>(cache, s).
     let key = compute_key header payload (k_id api_key);
         fingerprint = request_fingerprint (env_platform E) dump payload
     in case idem_check get_up cache key of
          Some (body, fp) \<Rightarrow>
            if fp \<noteq> None \<and> fp \<noteq> Some fingerprint then (Inl (HTTPException 409 ''idempotency_key_reuse''), cache, s)
            else (case body of None \<Rightarrow> Inl (ValueError ''AlertOut'') | Some b \<Rightarrow> Inr (200, b), cache, s)
        | None \<Rightarrow>
            (case in_transaction (ingest_one E payload key (k_label api_key) (Some (k_id api_key))) s of
               (Inl e, t) \<Rightarrow> (Inl e, cache, t)
             | (Inr (out, created), t) \<Rightarrow>
                 if created then (Inr (201, out), idem_store set_up cache key out fingerprint, t)
                 else (Inr (200, out), cache, t)))"

section \<open>The batch route\<close>

datatype raw_item =
    NotObject
  | Rejected "json list"
  | Accepted alert_in

definition classify :: "(json \<Rightarrow> json list + alert_in) \<Rightarrow> json \<Rightarrow> raw_item" where
  "classify validate item =
     (case item of JObj _ \<Rightarrow> (case validate item of Inl errors \<Rightarrow> Rejected errors | Inr p \<Rightarrow> Accepted p) | _ \<Rightarrow> NotObject)"

definition not_object_error :: json where
  "not_object_error =
     JObj [(''loc'', JList []), (''msg'', JStr ''item must be a JSON object''), (''type'', JStr ''type'')]"

fun split_items :: "nat \<Rightarrow> raw_item list \<Rightarrow> (nat \<times> json list) list \<times> alert_in list" where
  "split_items i [] = ([], [])"
| "split_items i (x # xs) =
     (let (rejected, valid) = split_items (Suc i) xs
      in case x of
           NotObject \<Rightarrow> ((i, [not_object_error]) # rejected, valid)
         | Rejected errors \<Rightarrow> ((i, errors) # rejected, valid)
         | Accepted p \<Rightarrow> (rejected, p # valid))"

text \<open>\<open>_parse_batch_items\<close>: a JSON array, or one object per line. \<open>loads\<close> is the JSON parser, with its message
  on malformed text.\<close>

fun unix_newlines :: "string \<Rightarrow> string" where
  "unix_newlines [] = []"
| "unix_newlines (c # cs) =
     (if c = CHR 0x0D then (if take 1 cs = [CHR 0x0A] then unix_newlines cs else CHR 0x0A # unix_newlines cs)
      else c # unix_newlines cs)"

fun split_lines :: "string \<Rightarrow> string \<Rightarrow> string list" where
  "split_lines cur [] = (if cur = [] then [] else [cur])"
| "split_lines cur (c # cs) = (if c = CHR 0x0A then cur # split_lines [] cs else split_lines (cur @ [c]) cs)"

definition ascii_space :: "char \<Rightarrow> bool" where
  "ascii_space c \<longleftrightarrow> c = CHR 0x20 \<or> 9 \<le> (of_char c :: nat) \<and> (of_char c :: nat) \<le> 13"

definition strip_bytes :: "string \<Rightarrow> string" where
  "strip_bytes s = rev (dropWhile ascii_space (rev (dropWhile ascii_space s)))"

definition parse_batch_items :: "(string \<Rightarrow> string + json) \<Rightarrow> string \<Rightarrow> string \<Rightarrow> json list result" where
  "parse_batch_items loads content_type body =
     (let load = (\<lambda>t. case loads t of Inl m \<Rightarrow> Inl (HTTPException 422 (''malformed JSON body: '' @ m)) | Inr v \<Rightarrow> Inr v)
      in if sublist ''ndjson'' (py_lower content_type) then
           rmap load (filter (\<lambda>t. t \<noteq> []) (map strip_bytes (split_lines [] (unix_newlines body))))
         else if strip_bytes body = [] then
           Inl (HTTPException 422 ''body must be a JSON array or application/x-ndjson'')
         else rbind (load body) (\<lambda>v. case v of
             JList xs \<Rightarrow> Inr xs
           | _ \<Rightarrow> Inl (HTTPException 422 ''body must be a JSON array or application/x-ndjson'')))"

definition BATCH_COMMIT_CHUNK :: nat where
  "BATCH_COMMIT_CHUNK = 500"

text \<open>\<open>base\<close> is the database as last committed: an exception takes the tables back to it.\<close>

fun persist_batch ::
  "env \<Rightarrow> api_key \<Rightarrow> nat \<Rightarrow> alert_in list \<Rightarrow> uuid list \<Rightarrow> nat \<Rightarrow> state \<Rightarrow> (uuid list \<times> nat) op" where
  "persist_batch E k processed [] new_ids duplicates base s = (Inr (new_ids, duplicates), s)"
| "persist_batch E k processed (p # ps) new_ids duplicates base s =
     (case persist_alert_only E p (compute_key None p (k_id k)) (k_label k) (Some (k_id k)) s of
        (Inl e, t) \<Rightarrow> (Inl e, rollback base t)
      | (Inr (i, created), t) \<Rightarrow>
          persist_batch E k (Suc processed) ps (if created then new_ids @ [i] else new_ids)
            (if created then duplicates else Suc duplicates)
            (if Suc processed mod BATCH_COMMIT_CHUNK = 0 then t else base) t)"

record batch_response =
  br_accepted :: nat
  br_duplicates :: nat
  br_rejected :: "(nat \<times> json list) list"
  br_job_id :: "string option"
  br_grouping_enqueued :: bool

definition batch_request ::
  "env \<Rightarrow> (json \<Rightarrow> json list + alert_in) \<Rightarrow> (uuid list \<Rightarrow> string option) \<Rightarrow> nat \<Rightarrow> api_key \<Rightarrow> json list
     \<Rightarrow> batch_response op" where
  "batch_request E validate enqueue batch_max_items k items =
     bind_op (guard (length items \<le> batch_max_items) (HTTPException 413 ''batch_too_large'')) (\<lambda>_ s.
       let (rejected, valid) = split_items 0 (map (classify validate) items)
       in case persist_batch E k 0 valid [] 0 s s of
            (Inl e, t) \<Rightarrow> (Inl e, t)
          | (Inr (new_ids, duplicates), t) \<Rightarrow>
              (Inr \<lparr> br_accepted = length new_ids, br_duplicates = duplicates, br_rejected = rejected,
                     br_job_id = enqueue new_ids, br_grouping_enqueued = (enqueue new_ids \<noteq> None) \<rparr>, t))"

definition ingest_alerts_batch ::
  "env \<Rightarrow> (string \<Rightarrow> string + json) \<Rightarrow> (json \<Rightarrow> json list + alert_in) \<Rightarrow> (uuid list \<Rightarrow> string option) \<Rightarrow> nat
     \<Rightarrow> api_key \<Rightarrow> string \<Rightarrow> string \<Rightarrow> batch_response op" where
  "ingest_alerts_batch E loads validate enqueue batch_max_items k content_type body =
     bind_op (lift_result (parse_batch_items loads content_type body))
       (batch_request E validate enqueue batch_max_items k)"

section \<open>The worker job\<close>

definition find_alert :: "state \<Rightarrow> uuid \<Rightarrow> alert_row option" where
  "find_alert s i = List.find (\<lambda>a. a_id a = i) (alerts s)"

text \<open>One alert in its own session: \<open>False\<close> means it was in a case already.\<close>

definition group_one :: "env \<Rightarrow> uuid \<Rightarrow> bool op" where
  "group_one E i =
     in_transaction (bind_op (read_state (\<lambda>s. find_alert s i)) (\<lambda>r.
       case r of
         None \<Rightarrow> raise_exn (LookupError (''alert '' @ i @ '' not found''))
       | Some a \<Rightarrow>
           if a_case_id a \<noteq> None then ret False
           else bind_op (apply_grouping E a ''worker'') (\<lambda>_. ret True)))"

fun group_alerts_job :: "env \<Rightarrow> uuid list \<Rightarrow> state \<Rightarrow> (nat \<times> (uuid \<times> exn) list) \<times> state" where
  "group_alerts_job E [] s = ((0, []), s)"
| "group_alerts_job E (i # is) s =
     (case group_one E i s of
        (Inl e, t) \<Rightarrow> (let ((grouped, failed), u) = group_alerts_job E is t in ((grouped, (i, e) # failed), u))
      | (Inr done, t) \<Rightarrow>
          (let ((grouped, failed), u) = group_alerts_job E is t in (((if done then Suc grouped else grouped), failed), u)))"

end
