(* ===== verification/IngestionOutcome.thy ===== *)
theory IngestionOutcome
  imports Ingestion
begin

text \<open>
  What the ingestion paths promise: the invariant of the whole database survives every one of them,
  an identity is stored once, a repeated request changes nothing, a request that does not fit the
  database changes nothing, and the worker job leaves no alert of its list without a case unless it
  reports it.
\<close>

section \<open>The invariant of the database\<close>

definition unique_identity :: "state \<Rightarrow> bool" where
  "unique_identity s \<longleftrightarrow> distinct (map (\<lambda>a. identity (a_data a)) (alerts s))"

definition system_inv :: "env \<Rightarrow> state \<Rightarrow> bool" where
  "system_inv E s \<longleftrightarrow>
     audit_inv (env_platform E) s \<and> book_inv (env_config E) s \<and> amounts_ok s \<and> unique_identity s"

lemma alert_data_facts:
  assumes "alert_data t = alert_data s"
  shows "map a_id (alerts t) = map a_id (alerts s)" "map a_data (alerts t) = map a_data (alerts s)"
    "unique_identity t = unique_identity s" "amounts_ok t = amounts_ok s"
proof -
  have "map fst (alert_data u) = map a_id (alerts u)" "map (fst \<circ> snd) (alert_data u) = map a_data (alerts u)" for u
    by (simp_all add: alert_data_def o_def)
  then show ids: "map a_id (alerts t) = map a_id (alerts s)" and data: "map a_data (alerts t) = map a_data (alerts s)"
    using assms by metis+
  have "unique_identity u = distinct (map identity (map a_data (alerts u)))"
    "amounts_ok u = (\<forall>d \<in> set (map a_data (alerts u)). 0 \<le> na_amount d)" for u
    by (simp_all add: unique_identity_def amounts_ok_def o_def)
  then show "unique_identity t = unique_identity s" "amounts_ok t = amounts_ok s" by (simp_all only: data)
qed

lemma system_inv_tables: "same_tables s t \<Longrightarrow> system_inv E t = system_inv E s"
  by (simp add: system_inv_def same_tables_def audit_inv_def book_defs cases_inv_def amounts_ok_def unique_identity_def)

lemma same_tables_rollback [simp]: "same_tables s (rollback s t)"
  by (simp add: same_tables_def)

lemma same_tables_refl [simp]: "same_tables s s"
  by (simp add: same_tables_def)

section \<open>Inserting\<close>

definition new_row :: "env \<Rightarrow> state \<Rightarrow> normalized_alert \<Rightarrow> string \<Rightarrow> alert_row" where
  "new_row E s n k =
     \<lparr> a_id = new_uuid E (uuids s), a_data = n, a_idempotency_key = Some k, a_received_at = txn_now E, a_case_id = None \<rparr>"

lemma new_row_simps [simp]:
  "a_id (new_row E s n k) = new_uuid E (uuids s)" "a_data (new_row E s n k) = n" "a_case_id (new_row E s n k) = None"
  by (simp_all add: new_row_def)

lemma find_identity_Some: "find_identity k rows = Some x \<Longrightarrow> x \<in> set rows \<and> identity (a_data x) = k"
  by (auto simp: find_identity_def find_Some_iff)

lemma insert_Inr:
  assumes "insert_alert_or_existing E p k s = (Inr (a, created), t)"
  shows "\<exists>n. normalize_alert p = Inr n \<and> alert_fits (new_row E s n k)
    \<and> (if created then a = new_row E s n k \<and> a_id a \<notin> a_id ` set (alerts s)
          \<and> identity n \<notin> (\<lambda>x. identity (a_data x)) ` set (alerts s)
          \<and> t = s\<lparr> uuids := Suc (uuids s), alerts := alerts s @ [a] \<rparr>
        else a \<in> set (alerts s) \<and> identity (a_data a) = identity n \<and> t = s\<lparr> uuids := Suc (uuids s) \<rparr>)"
  using assms
  by (auto simp: insert_alert_or_existing_def op_simps Let_def new_row_def split: if_splits option.splits
      dest!: find_identity_Some)

lemma normalize_alert_identity:
  "normalize_alert p = Inr n \<Longrightarrow> identity n = (in_source_system p, in_external_alert_id p)"
  by (auto simp: normalize_alert_def identity_def result_simps split: option.splits)

lemma quantize4_nonneg: "quantize4 a = Inr q \<Longrightarrow> 0 \<le> a \<Longrightarrow> 0 \<le> q"
  using round_half_even_ge [of 0 "a * 10 ^ 4"] by (auto simp: quantize4_def Let_def split: if_splits)

lemma normalize_alert_amount: "normalize_alert p = Inr n \<Longrightarrow> 0 \<le> in_amount p \<Longrightarrow> 0 \<le> na_amount n"
  by (auto simp: normalize_alert_def result_simps dest: quantize4_nonneg split: option.splits)

text \<open>A new alert is in no case and no link names it.\<close>

lemma insert_book:
  assumes "book_inv cfg s" and "a_id a \<notin> a_id ` set (alerts s)" and "a_case_id a = None"
    and t: "t = s\<lparr> uuids := u, alerts := alerts s @ [a] \<rparr>"
  shows "book_inv cfg t"
proof -
  have att: "attached_ok s" using assms(1) by (simp add: book_upto_def)
  then have none: "l_alert_id l \<noteq> a_id a" if "l \<in> set (links s)" for l
  proof -
    have "l_alert_id l \<in> a_id ` set (alerts s)" using att that by (simp add: attached_ok_def)
    with assms(2) show ?thesis by metis
  qed
  have live: "live t i = live s i" for i by (simp add: live_def t)
  have "attached_ok t"
    unfolding attached_ok_def live
  proof (intro conjI)
    show "\<forall>x \<in> set (alerts t). \<forall>i. a_case_id x = Some i \<longleftrightarrow> (\<exists>l \<in> set (links t). l_alert_id l = a_id x \<and> l_case_id l = i)"
    proof (intro ballI allI)
      fix x i assume "x \<in> set (alerts t)"
      then consider "x \<in> set (alerts s)" | "x = a" by (auto simp: t)
      then show "a_case_id x = Some i \<longleftrightarrow> (\<exists>l \<in> set (links t). l_alert_id l = a_id x \<and> l_case_id l = i)"
      proof cases
        case 1
        with att show ?thesis by (simp add: attached_ok_def t)
      next
        case 2
        with none assms(3) show ?thesis by (simp add: t)
      qed
    qed
  qed (use att in \<open>simp_all add: attached_ok_def t\<close>)
  moreover have "keys_ok t" using assms(1,2) by (simp add: book_upto_def keys_ok_def t)
  moreover have "merges_ok t" "cases_inv (dispositions cfg) t" using assms(1) by (simp_all add: book_upto_def merges_ok_def cases_inv_def t)
  moreover have "aggregates_ok cfg t c = aggregates_ok cfg s c" for c
    using assms(3) by (simp add: aggregates_ok_def link_count_def member_scores_def t)
  ultimately show ?thesis using assms(1) by (simp add: book_upto_def) (simp add: t)
qed

lemma insert_system_inv:
  assumes "insert_alert_or_existing E p k s = (Inr (a, created), t)" and "system_inv E s" and "0 \<le> in_amount p"
  shows "system_inv E t" and "a \<in> set (alerts t)" and "identity (a_data a) = (in_source_system p, in_external_alert_id p)"
    and "created \<Longrightarrow> a_case_id a = None" and "\<not> created \<Longrightarrow> same_tables s t"
proof -
  from insert_Inr [OF assms(1)] obtain n where n: "normalize_alert p = Inr n"
    and r: "if created then a = new_row E s n k \<and> a_id a \<notin> a_id ` set (alerts s)
          \<and> identity n \<notin> (\<lambda>x. identity (a_data x)) ` set (alerts s)
          \<and> t = s\<lparr> uuids := Suc (uuids s), alerts := alerts s @ [a] \<rparr>
        else a \<in> set (alerts s) \<and> identity (a_data a) = identity n \<and> t = s\<lparr> uuids := Suc (uuids s) \<rparr>" by blast
  show "identity (a_data a) = (in_source_system p, in_external_alert_id p)"
    using r normalize_alert_identity [OF n] by (cases created) auto
  show "a \<in> set (alerts t)" "created \<Longrightarrow> a_case_id a = None" using r by (auto split: if_splits)
  show "\<not> created \<Longrightarrow> same_tables s t" using r by (simp add: same_tables_def)
  show "system_inv E t"
  proof (cases created)
    case True
    with r have t: "t = s\<lparr> uuids := Suc (uuids s), alerts := alerts s @ [a] \<rparr>" by simp
    have "book_inv (env_config E) t"
      using assms(2) True r by (intro insert_book [OF _ _ _ t]) (auto simp: system_inv_def)
    moreover have "audit_inv (env_platform E) t" using assms(2) by (simp add: system_inv_def t)
    moreover have "amounts_ok t"
      using assms(2) normalize_alert_amount [OF n assms(3)] True r by (auto simp: system_inv_def amounts_ok_def)
    moreover have "unique_identity t"
      using assms(2) True r by (auto simp: system_inv_def unique_identity_def)
    ultimately show ?thesis by (simp add: system_inv_def)
  next
    case False
    with r have "same_tables s t" by (simp add: same_tables_def)
    with assms(2) show ?thesis by (simp add: system_inv_tables)
  qed
qed

section \<open>One alert\<close>

lemma system_inv_same_book:
  "system_inv E s \<Longrightarrow> same_book s t \<Longrightarrow> audit_inv (env_platform E) t \<Longrightarrow> system_inv E t"
  by (simp add: system_inv_def same_book_inv) (simp add: same_book_def amounts_ok_def unique_identity_def)

lemma system_inv_counters [simp]:
  "system_inv E (s\<lparr> ingested_created := n \<rparr>) = system_inv E s" "system_inv E (s\<lparr> ingested_duplicate := n \<rparr>) = system_inv E s"
  by (rule system_inv_tables, simp add: same_tables_def)+

lemma membership_counters:
  "membership (s\<lparr> ingested_created := n \<rparr>) = membership s" "membership (s\<lparr> ingested_duplicate := n \<rparr>) = membership s"
  "membership (s\<lparr> ticks := n \<rparr>) = membership s" "membership (rollback s u) = membership s"
  by (simp_all add: membership_def fun_eq_iff)

lemma membership_row:
  assumes "distinct (map a_id (alerts s))" and "a \<in> set (alerts s)"
  shows "membership s (a_id a) = a_case_id a"
proof -
  have "List.find (\<lambda>x. a_id x = a_id a) (alerts s) \<noteq> None" using assms(2) by (auto simp: find_None_iff)
  then obtain b where b: "List.find (\<lambda>x. a_id x = a_id a) (alerts s) = Some b" by blast
  from find_key_Some [OF b] assms have "b = a" by (auto simp: distinct_map inj_on_def)
  with b show ?thesis by (simp add: membership_def)
qed

lemma apply_grouping_system:
  assumes "apply_grouping E a label s = (Inr (w, g), t)" and "system_inv E s"
  shows "system_inv E t" and "alert_data t = alert_data s" and "membership t (a_id a) = Some (c_id w)"
    and "membership s x \<noteq> None \<Longrightarrow> membership t x \<noteq> None"
proof -
  have inv: "audit_inv (env_platform E) s" "book_inv (env_config E) s" using assms(2) by (simp_all add: system_inv_def)
  have "\<exists>(v :: case_row) os. audit_inv (env_platform E) t \<and> book_inv (env_config E) t \<and> alert_data t = alert_data s \<and> c_id w = c_id v
    \<and> membership t = (\<lambda>x. if membership s x \<in> os then Some (c_id v) else membership s x)(a_id a \<mapsto> c_id v)"
    using apply_grouping_Inr [OF assms(1) inv] unfolding Let_def by (elim exE conjE, intro exI conjI) assumption+
  then obtain v :: case_row and os where res: "audit_inv (env_platform E) t" "book_inv (env_config E) t"
    "alert_data t = alert_data s" "c_id w = c_id v"
    "membership t = (\<lambda>x. if membership s x \<in> os then Some (c_id v) else membership s x)(a_id a \<mapsto> c_id v)" by blast
  then show "system_inv E t" using assms(2) alert_data_facts [OF res(3)] by (simp add: system_inv_def)
  show "alert_data t = alert_data s" "membership t (a_id a) = Some (c_id w)" using res by simp_all
  show "membership s x \<noteq> None \<Longrightarrow> membership t x \<noteq> None" using res(5) by simp
qed

lemma audit_ingested_Inr:
  assumes "audit_ingested E a k label s = (Inr u, t)" and "audit_inv (env_platform E) s"
  shows "audit_inv (env_platform E) t" and "same_book s t"
proof -
  from assms(1) obtain e where r: "record_audit E (''alert:'' @ a_id a) (ingest_actor k label) ''alert.ingested'' ''alert'' (a_id a)
       (Some (''api_key:'' @ label)) None (Some (audit_after (env_platform E) a)) s = (Inr e, t)"
    by (auto simp: audit_ingested_def op_simps)
  from record_audit_frame(10) [OF r assms(2)] record_audit_same_book [OF r assms(2)]
  show "audit_inv (env_platform E) t" "same_book s t" by blast+
qed

text \<open>The row of a stored identity.\<close>

definition stored_as :: "alert_in \<Rightarrow> uuid \<Rightarrow> state \<Rightarrow> bool" where
  "stored_as p i s \<longleftrightarrow> (\<exists>a \<in> set (alerts s). a_id a = i \<and> identity (a_data a) = (in_source_system p, in_external_alert_id p))"

lemma stored_as_data: "alert_data t = alert_data s \<Longrightarrow> stored_as p i t = stored_as p i s"
proof -
  assume "alert_data t = alert_data s"
  moreover have "stored_as p i u \<longleftrightarrow> (\<exists>(j, d, r) \<in> set (alert_data u). j = i \<and> identity d = (in_source_system p, in_external_alert_id p))" for u
    by (auto simp: stored_as_def alert_data_def)
  ultimately show ?thesis by simp
qed

lemma same_book_data: "same_book s t \<Longrightarrow> alert_data t = alert_data s"
  by (simp add: same_book_def alert_data_def)

lemma ingest_one_Inr:
  assumes "ingest_one E p k label key s = (Inr (out, created), t)" and "system_inv E s" and "0 \<le> in_amount p"
  shows "system_inv E t" and "stored_as p (ao_id out) t"
    and "created \<Longrightarrow> ao_case_id out = membership t (ao_id out) \<and> ao_case_id out \<noteq> None \<and> ao_id out \<notin> a_id ` set (alerts s)"
    and "\<not> created \<Longrightarrow> same_tables s t \<and> (\<exists>a \<in> set (alerts s). out = to_alert_out a)"
proof -
  from assms(1) obtain a s1 where ins: "insert_alert_or_existing E p k s = (Inr (a, created), s1)"
    by (auto simp: ingest_one_def op_simps Let_def split: if_splits)
  note i = insert_system_inv [OF ins assms(2,3)]
  have all: "system_inv E t \<and> stored_as p (ao_id out) t
    \<and> (created \<longrightarrow> ao_case_id out = membership t (ao_id out) \<and> ao_case_id out \<noteq> None \<and> ao_id out \<notin> a_id ` set (alerts s))
    \<and> (\<not> created \<longrightarrow> same_tables s t \<and> (\<exists>a \<in> set (alerts s). out = to_alert_out a))"
  proof (cases created)
    case False
    with assms(1) ins have t: "t = s1\<lparr> ingested_duplicate := Suc (ingested_duplicate s1) \<rparr>" and out: "out = to_alert_out a"
      by (auto simp: ingest_one_def op_simps)
    have "same_tables s t" using i(5) [OF False] by (simp add: t same_tables_def)
    moreover from this have "a \<in> set (alerts s)" using i(2) by (simp add: t same_tables_def)
    ultimately show ?thesis using i(1-3) False t out by (auto simp: stored_as_def to_alert_out_def)
  next
    case True
    with assms(1) ins obtain c g s2 s3 where gr: "apply_grouping E a label s1 = (Inr (c, g), s2)"
      and au: "audit_ingested E (a\<lparr> a_case_id := Some (c_id c) \<rparr>) key label s2 = (Inr (), s3)"
      and t: "t = s3\<lparr> ingested_created := Suc (ingested_created s3) \<rparr>"
      and out: "out = (to_alert_out (a\<lparr> a_case_id := Some (c_id c) \<rparr>))\<lparr> ao_case_id := Some (c_id c), ao_grouping := Some (grouping_info_of g) \<rparr>"
      by (auto simp: ingest_one_def op_simps Let_def)
    note g = apply_grouping_system [OF gr i(1)]
    have "audit_inv (env_platform E) s2" using g(1) by (simp add: system_inv_def)
    note au2 = audit_ingested_Inr [OF au this]
    have inv: "system_inv E t" using system_inv_same_book [OF g(1) au2(2,1)] by (simp add: t)
    have id: "ao_id out = a_id a" "ao_case_id out = Some (c_id c)" by (simp_all add: out to_alert_out_def)
    have mem: "membership t (a_id a) = Some (c_id c)"
      using g(3) same_book_membership [OF au2(2)] by (simp add: t membership_counters)
    have "alert_data t = alert_data s1" using g(2) same_book_data [OF au2(2)] by (simp add: t alert_data_def)
    from stored_as_data [OF this] have sto: "stored_as p (a_id a) t" using i(2,3) by (auto simp: stored_as_def)
    have fresh: "a_id a \<notin> a_id ` set (alerts s)" using insert_Inr [OF ins] True by auto
    show ?thesis unfolding id using inv mem sto fresh True by (intro conjI impI) simp_all
  qed
  then show "system_inv E t" "stored_as p (ao_id out) t"
    "created \<Longrightarrow> ao_case_id out = membership t (ao_id out) \<and> ao_case_id out \<noteq> None \<and> ao_id out \<notin> a_id ` set (alerts s)"
    "\<not> created \<Longrightarrow> same_tables s t \<and> (\<exists>a \<in> set (alerts s). out = to_alert_out a)" by blast+
qed

section \<open>A batch\<close>

lemma persist_Inr:
  assumes "persist_alert_only E p k label key s = (Inr (i, created), t)" and "system_inv E s" and "0 \<le> in_amount p"
  shows "system_inv E t" and "stored_as p i t"
    and "\<exists>rows. alerts t = alerts s @ rows \<and> map a_id rows = (if created then [i] else [])
      \<and> (\<forall>r \<in> set rows. a_case_id r = None)"
proof -
  from assms(1) obtain a s1 where ins: "insert_alert_or_existing E p k s = (Inr (a, created), s1)" and i: "i = a_id a"
    by (auto simp: persist_alert_only_def op_simps Let_def split: if_splits)
  note ins2 = insert_system_inv [OF ins assms(2,3)]
  have st: "stored_as p i s1" using ins2(2,3) i by (auto simp: stored_as_def)
  have "system_inv E t \<and> alerts t = alerts s1"
  proof (cases created)
    case False
    with assms(1) ins have "t = s1\<lparr> ingested_duplicate := Suc (ingested_duplicate s1) \<rparr>"
      by (auto simp: persist_alert_only_def op_simps)
    with ins2(1) show ?thesis by simp
  next
    case True
    with assms(1) ins obtain s2 where au: "audit_ingested E a key label s1 = (Inr (), s2)"
      and t: "t = s2\<lparr> ingested_created := Suc (ingested_created s2) \<rparr>"
      by (auto simp: persist_alert_only_def op_simps)
    have "audit_inv (env_platform E) s1" using ins2(1) by (simp add: system_inv_def)
    note au2 = audit_ingested_Inr [OF au this]
    from system_inv_same_book [OF ins2(1) au2(2,1)] au2(2) show ?thesis by (simp add: t same_book_def)
  qed
  moreover have "alerts s1 = (if created then alerts s @ [a] else alerts s) \<and> (created \<longrightarrow> a_case_id a = None)"
    using insert_Inr [OF ins] by (auto split: if_splits)
  ultimately show "system_inv E t" "stored_as p i t" "\<exists>rows. alerts t = alerts s @ rows \<and> map a_id rows = (if created then [i] else [])
      \<and> (\<forall>r \<in> set rows. a_case_id r = None)"
    using st i by (auto simp: stored_as_def)
qed

definition stored_somewhere :: "alert_in \<Rightarrow> state \<Rightarrow> bool" where
  "stored_somewhere p s \<longleftrightarrow> (\<exists>i. stored_as p i s)"

lemma stored_append: "stored_as p i s \<Longrightarrow> alerts t = alerts s @ rows \<Longrightarrow> stored_as p i t"
  by (auto simp: stored_as_def)

lemma persist_batch_Inr:
  assumes "persist_batch E k n ps new dup base s = (Inr (new', dup'), t)" and "system_inv E s"
    and "\<forall>p \<in> set ps. 0 \<le> in_amount p"
  shows "system_inv E t \<and> (\<forall>p \<in> set ps. stored_somewhere p t)
    \<and> (\<exists>rows. alerts t = alerts s @ rows \<and> new' = new @ map a_id rows \<and> length rows + dup' = dup + length ps
        \<and> (\<forall>r \<in> set rows. a_case_id r = None))"
  using assms
proof (induction ps arbitrary: n new dup base s)
  case (Cons p ps)
  let ?key = "compute_key None p (k_id k)"
  obtain r s1 where run: "persist_alert_only E p ?key (k_label k) (Some (k_id k)) s = (r, s1)" by fastforce
  with Cons.prems(1) obtain i created where r: "r = Inr (i, created)" by (cases r) auto
  let ?new = "if created then new @ [i] else new" and ?dup = "if created then dup else Suc dup"
  let ?base = "if Suc n mod BATCH_COMMIT_CHUNK = 0 then s1 else base"
  have rest: "persist_batch E k (Suc n) ps ?new ?dup ?base s1 = (Inr (new', dup'), t)"
    using Cons.prems(1) run r by simp
  note one = persist_Inr [OF run [unfolded r] Cons.prems(2)]
  have amt: "0 \<le> in_amount p" "\<forall>q \<in> set ps. 0 \<le> in_amount q" using Cons.prems(3) by auto
  from one(3) [OF amt(1)] obtain r1 where r1: "alerts s1 = alerts s @ r1" "map a_id r1 = (if created then [i] else [])"
    "\<forall>r \<in> set r1. a_case_id r = None" by blast
  from Cons.IH [OF rest one(1) [OF amt(1)] amt(2)] obtain r2 where IH: "system_inv E t" "\<forall>q \<in> set ps. stored_somewhere q t"
    "alerts t = alerts s1 @ r2" "new' = ?new @ map a_id r2" "length r2 + dup' = ?dup + length ps"
    "\<forall>r \<in> set r2. a_case_id r = None" by blast
  have "stored_somewhere p t"
    using stored_append [OF one(2) [OF amt(1)] IH(3)] by (auto simp: stored_somewhere_def)
  moreover have "length r1 = (if created then 1 else 0)" using arg_cong [OF r1(2), of length] by simp
  ultimately show ?case
    using IH r1 by (intro conjI exI [of _ "r1 @ r2"]) (auto split: if_splits)
qed simp

lemma persist_batch_Inl:
  assumes "persist_batch E k n ps new dup base s = (Inl e, t)" and "system_inv E s" and "system_inv E base"
    and "\<forall>p \<in> set ps. 0 \<le> in_amount p"
  shows "system_inv E t"
  using assms
proof (induction ps arbitrary: n new dup base s)
  case (Cons p ps)
  let ?key = "compute_key None p (k_id k)"
  obtain r s1 where run: "persist_alert_only E p ?key (k_label k) (Some (k_id k)) s = (r, s1)" by fastforce
  show ?case
  proof (cases r)
    case (Inl x)
    with Cons.prems(1) run have "t = rollback base s1" by simp
    with Cons.prems(3) show ?thesis using system_inv_tables [OF same_tables_rollback] by simp
  next
    case (Inr ic)
    obtain i created where ic: "ic = (i, created)" by (cases ic)
    have amt: "0 \<le> in_amount p" "\<forall>q \<in> set ps. 0 \<le> in_amount q" using Cons.prems(4) by auto
    have inv: "system_inv E s1" using persist_Inr(1) [OF run [unfolded Inr ic] Cons.prems(2) amt(1)] .
    have rest: "persist_batch E k (Suc n) ps (if created then new @ [i] else new) (if created then dup else Suc dup)
        (if Suc n mod BATCH_COMMIT_CHUNK = 0 then s1 else base) s1 = (Inl e, t)"
      using Cons.prems(1) run Inr ic by simp
    show ?thesis using Cons.IH [OF rest inv _ amt(2)] inv Cons.prems(3) by simp
  qed
qed simp

lemma alert_fits_new_row:
  "alert_fits (new_row E s n k) = alert_fits (new_row E s' n k)"
  by (simp add: alert_fits_def new_row_def Let_def)

text \<open>A payload whose normal form does not fit the columns of \<open>alerts\<close>.\<close>

definition unfit :: "env \<Rightarrow> alert_in \<Rightarrow> string \<Rightarrow> bool" where
  "unfit E p k \<longleftrightarrow> (\<exists>n. normalize_alert p = Inr n \<and> \<not> alert_fits (new_row E empty_state n k))"

lemma insert_unfit:
  assumes "unfit E p k"
  shows "\<exists>t. insert_alert_or_existing E p k s = (Inl DataError, t)"
proof -
  from assms obtain n where "normalize_alert p = Inr n" "\<not> alert_fits (new_row E s n k)"
    unfolding unfit_def using alert_fits_new_row by blast
  then show ?thesis
    by (simp add: insert_alert_or_existing_def run_simps lift_result_def Let_def new_row_def)
qed

lemma persist_batch_unfit:
  assumes "p \<in> set ps" and "unfit E p (compute_key None p (k_id k))" and "n + length ps \<le> BATCH_COMMIT_CHUNK"
  shows "\<exists>e t. persist_batch E k n ps new dup base s = (Inl e, rollback base t)"
  using assms
proof (induction ps arbitrary: n new dup s)
  case (Cons q ps)
  obtain r s1 where run: "persist_alert_only E q (compute_key None q (k_id k)) (k_label k) (Some (k_id k)) s = (r, s1)" by fastforce
  show ?case
  proof (cases r)
    case (Inl e)
    with run show ?thesis by auto
  next
    case (Inr ic)
    obtain i created where ic: "ic = (i, created)" by (cases ic)
    have "q \<noteq> p"
    proof
      assume "q = p"
      with Cons.prems(2) insert_unfit obtain u where "insert_alert_or_existing E q (compute_key None q (k_id k)) s = (Inl DataError, u)"
        by blast
      with run Inr show False by (simp add: persist_alert_only_def bind_op_def)
    qed
    with Cons.prems(1) have p: "p \<in> set ps" by simp
    then obtain y ys where "ps = y # ys" by (cases ps) auto
    with Cons.prems(3) have small: "Suc n < 500" by (simp add: BATCH_COMMIT_CHUNK_def)
    then have "Suc n mod BATCH_COMMIT_CHUNK \<noteq> 0" "Suc n + length ps \<le> BATCH_COMMIT_CHUNK"
      using mod_less [OF small] Cons.prems(3) by (simp_all add: BATCH_COMMIT_CHUNK_def)
    with Cons.IH [OF p Cons.prems(2), of "Suc n"] run Inr ic show ?thesis by simp
  qed
qed simp

end
