(* ===== verification/IngestionRoutes.thy ===== *)
theory IngestionRoutes
  imports IngestionOutcome
begin

text \<open>
  The contracts of the ingestion routes and of the worker job, on top of the lemmas of
  \<open>IngestionOutcome\<close>: what a retry returns, when two requests collide on an idempotency key, what a
  payload that the schema accepts but the columns do not does to a request and to a batch, the
  accounting of a batch, and the job that attaches what a batch left without a case.
\<close>

section \<open>One alert\<close>

lemma insert_existing:
  assumes "normalize_alert p = Inr n" and "alert_fits (new_row E s n k)"
    and "unique_identity s" and "a \<in> set (alerts s)" and "identity (a_data a) = identity n"
  shows "insert_alert_or_existing E p k s = (Inr (a, False), s\<lparr> uuids := Suc (uuids s) \<rparr>)"
proof -
  have "List.find (\<lambda>a. identity (a_data a) = identity n) (alerts s) \<noteq> None"
    using assms(4,5) by (auto simp: find_None_iff)
  then obtain x where x: "find_identity (identity n) (alerts s) = Some x" by (auto simp: find_identity_def)
  from find_identity_Some [OF x] assms(3-5) have "x = a"
    by (auto simp: unique_identity_def distinct_map inj_on_def)
  moreover have "identity n \<in> (\<lambda>x. identity (a_data x)) ` set (alerts s)" using assms(4,5) by force
  ultimately show ?thesis
    using assms(1,2) x
    by (simp add: insert_alert_or_existing_def run_simps lift_result_def Let_def new_row_def)
qed

lemma ingest_one_existing:
  assumes "normalize_alert p = Inr n" and "alert_fits (new_row E s n k)" and "unique_identity s"
    and "stored_as p i s"
  shows "\<exists>a t. ingest_one E p k label key s = (Inr (to_alert_out a, False), t) \<and> a \<in> set (alerts s) \<and> a_id a = i \<and> same_tables s t"
proof -
  from assms(4) obtain a where a: "a \<in> set (alerts s)" "a_id a = i"
    "identity (a_data a) = identity n" by (auto simp: stored_as_def normalize_alert_identity [OF assms(1)])
  note ins = insert_existing [OF assms(1-3) a(1,3)]
  have "\<exists>t. ingest_one E p k label key s = (Inr (to_alert_out a, False), t) \<and> same_tables s t" for label key
    by (simp add: ingest_one_def ins run_simps) (simp add: same_tables_def)
  with a show ?thesis by blast
qed

lemma ingest_alert_Inr:
  assumes "ingest_alert E dump up set_up p header k (cache, s) = (Inr (201, out), cache', t)"
  shows "ingest_one E p (compute_key header p (k_id k)) (k_label k) (Some (k_id k)) s = (Inr (out, True), t)"
    and "cache' = idem_store set_up cache (compute_key header p (k_id k)) out (request_fingerprint (env_platform E) dump p)"
  using assms
  by (auto simp: ingest_alert_def Let_def op_simps split: option.splits prod.splits sum.splits if_splits)

text \<open>What a new alert needs besides: an id that is not taken, supplies for its grouping, and an API key whose
  texts fit the audit columns.\<close>

definition ingest_ready :: "env \<Rightarrow> api_key \<Rightarrow> state \<Rightarrow> bool" where
  "ingest_ready E k s \<longleftrightarrow>
     new_uuid E (uuids s) \<notin> a_id ` set (alerts s) \<and> fits 36 (new_uuid E (uuids s))
     \<and> supplies_ok E (s\<lparr> uuids := Suc (uuids s) \<rparr>) \<and> grouping_ok (env_config E)
     \<and> fits 36 (k_id k) \<and> fits 200 (k_label k)"

lemma insert_runs:
  assumes "normalize_alert p = Inr n" and "alert_fits (new_row E s n key)"
    and "identity n \<notin> (\<lambda>x. identity (a_data x)) ` set (alerts s)" and "ingest_ready E k s"
  shows "insert_alert_or_existing E p key s
    = (Inr (new_row E s n key, True), s\<lparr> uuids := Suc (uuids s), alerts := alerts s @ [new_row E s n key] \<rparr>)"
  using assms
  by (simp add: insert_alert_or_existing_def run_simps lift_result_def Let_def ingest_ready_def)
    (simp add: new_row_def run_simps)

lemma audit_ingested_runs:
  assumes "audit_inv (env_platform E) u" and "ingest_ready E k s" and "who \<in> {None, Some (k_id k)}" and "fits 36 (a_id a)"
  shows "\<exists>t. audit_ingested E a who (k_label k) u = (Inr (), t)"
proof -
  have "\<exists>e t. record_audit E (''alert:'' @ a_id a) (ingest_actor who (k_label k)) ''alert.ingested'' ''alert''
      (a_id a) (Some (''api_key:'' @ k_label k)) None (Some (audit_after (env_platform E) a)) u = (Inr e, t)"
    by (rule record_audit_ok [OF assms(1)])
      (use assms(2-4) in \<open>auto simp: ingest_ready_def supplies_ok_def fits_def ingest_actor_def actor_roles_text_def\<close>)
  then obtain e t where "record_audit E (''alert:'' @ a_id a) (ingest_actor who (k_label k)) ''alert.ingested'' ''alert''
      (a_id a) (Some (''api_key:'' @ k_label k)) None (Some (audit_after (env_platform E) a)) u = (Inr e, t)" by blast
  then show ?thesis by (simp add: audit_ingested_def run_simps)
qed

text \<open>A caller with a key, or one without that only has a label.\<close>

lemma ingest_one_runs:
  assumes "system_inv E s" and "normalize_alert p = Inr n" and "alert_fits (new_row E s n key)"
    and "identity n \<notin> (\<lambda>x. identity (a_data x)) ` set (alerts s)" and "0 \<le> in_amount p" and "ingest_ready E k s"
    and "who \<in> {None, Some (k_id k)}"
  shows "\<exists>out t. ingest_one E p key (k_label k) who s = (Inr (out, True), t)"
proof -
  let ?a = "new_row E s n key"
  let ?s = "s\<lparr> uuids := Suc (uuids s), alerts := alerts s @ [?a] \<rparr>"
  note ins = insert_runs [OF assms(2,3,4,6)]
  note inv = insert_system_inv [OF ins assms(1,5)]
  have "supplies_ok E ?s" using assms(6) by (simp add: ingest_ready_def supplies_ok_def)
  moreover have "fits 255 (k_label k)" "grouping_ok (env_config E)" and id: "fits 36 (a_id ?a)"
    using assms(6) by (simp_all add: ingest_ready_def fits_def)
  ultimately obtain w g t where gr: "apply_grouping E ?a (k_label k) ?s = (Inr (w, g), t)"
    using apply_grouping_runs [of E ?s ?a "k_label k"] inv(1) by (auto simp: system_inv_def)
  have "audit_inv (env_platform E) t" using apply_grouping_system(1) [OF gr inv(1)] by (simp add: system_inv_def)
  from audit_ingested_runs [OF this assms(6,7), of "?a\<lparr> a_case_id := Some (c_id w) \<rparr>"] id
  obtain u where "audit_ingested E (?a\<lparr> a_case_id := Some (c_id w) \<rparr>) who (k_label k) t = (Inr (), u)" by auto
  then show ?thesis by (simp add: ingest_one_def ins gr run_simps Let_def)
qed

lemma persist_runs:
  assumes "audit_inv (env_platform E) s" and "normalize_alert p = Inr n" and "alert_fits (new_row E s n key)"
    and "identity n \<notin> (\<lambda>x. identity (a_data x)) ` set (alerts s)" and "ingest_ready E k s"
  shows "\<exists>t. persist_alert_only E p key (k_label k) (Some (k_id k)) s = (Inr (a_id (new_row E s n key), True), t)"
proof -
  note ins = insert_runs [OF assms(2-5)]
  have "audit_inv (env_platform E) (s\<lparr> uuids := Suc (uuids s), alerts := alerts s @ [new_row E s n key] \<rparr>)"
    using assms(1) by simp
  from audit_ingested_runs [OF this assms(5), of "Some (k_id k)" "new_row E s n key"] assms(5)
  obtain u where "audit_ingested E (new_row E s n key) (Some (k_id k)) (k_label k)
      (s\<lparr> uuids := Suc (uuids s), alerts := alerts s @ [new_row E s n key] \<rparr>) = (Inr (), u)"
    by (auto simp: ingest_ready_def)
  then show ?thesis by (simp add: persist_alert_only_def ins run_simps)
qed


text \<open>C6: a retry of an alert that was ingested. While Redis holds the entry, the same request gets 200 with
  the very body of the first answer and changes neither Redis nor the database, whatever happened to the
  database meanwhile. Without Redis it gets 200 with the row of the same id, as long as that row is there,
  and changes no table. The first request leaves the invariant intact and its alert in a case.\<close>

theorem ingest_alert_idempotent:
  assumes "ingest_alert E dump up True p header k (cache, s) = (Inr (201, out), cache', t)"
    and "system_inv E s" and "0 \<le> in_amount p" and "env_platform E' = env_platform E"
  shows "ingest_alert E' dump True up' p header k (cache', u) = (Inr (200, out), cache', u)
    \<and> (unique_identity u \<longrightarrow> stored_as p (ao_id out) u \<longrightarrow>
        (\<exists>a v. ingest_alert E' dump False up' p header k (cache', u) = (Inr (200, to_alert_out a), cache', v)
           \<and> a \<in> set (alerts u) \<and> a_id a = ao_id out \<and> same_tables u v))
    \<and> system_inv E t \<and> stored_as p (ao_id out) t \<and> membership t (ao_id out) = ao_case_id out \<and> ao_case_id out \<noteq> None"
proof -
  let ?key = "compute_key header p (k_id k)"
  note run = ingest_alert_Inr [OF assms(1)]
  from run(1) have "\<exists>a s1. insert_alert_or_existing E p ?key s = (Inr (a, True), s1)"
    by (auto simp: ingest_one_def op_simps Let_def split: if_splits)
  then obtain a s1 where ins: "insert_alert_or_existing E p ?key s = (Inr (a, True), s1)" by blast
  from insert_Inr [OF ins] obtain n where n: "normalize_alert p = Inr n" "alert_fits (new_row E s n ?key)" by blast
  have fits: "alert_fits (new_row E' u n ?key)" using n(2) by (simp add: alert_fits_def new_row_def Let_def)
  have hit: "idem_check True cache' ?key = Some (Some out, Some (request_fingerprint (env_platform E) dump p))"
    by (simp add: run(2) idem_check_def idem_store_def)
  then have cached: "ingest_alert E' dump True up' p header k (cache', u) = (Inr (200, out), cache', u)"
    by (simp add: ingest_alert_def assms(4))
  have missed: "\<exists>a v. ingest_alert E' dump False up' p header k (cache', u) = (Inr (200, to_alert_out a), cache', v)
      \<and> a \<in> set (alerts u) \<and> a_id a = ao_id out \<and> same_tables u v"
    if "unique_identity u" "stored_as p (ao_id out) u"
    using ingest_one_existing [OF n(1) fits that, of "k_label k" "Some (k_id k)"]
    by (auto simp: ingest_alert_def idem_check_def in_transaction_def)
  note one = ingest_one_Inr [OF run(1) assms(2,3)]
  have "membership t (ao_id out) = ao_case_id out" "ao_case_id out \<noteq> None"
    using one(3) [OF TrueI] by (blast intro: sym)+
  with cached missed one(1,2) show ?thesis by (intro conjI impI)
qed

text \<open>C27: the natural key joins the two parts of an identity with a colon that either part may hold. An alert
  whose identity only agrees with a stored one after joining is refused as a reuse of its key, although no
  row has its identity.\<close>

theorem natural_key_collision:
  assumes "ingest_alert E dump up True p None k (cache, s) = (Inr (201, out), cache', t)"
    and "in_source_system p = x @ '':'' @ y" and "in_external_alert_id p = z"
    and "in_source_system q = x" and "in_external_alert_id q = y @ '':'' @ z"
    and "request_fingerprint (env_platform E') dump q \<noteq> request_fingerprint (env_platform E) dump p"
  shows "ingest_alert E' dump True up' q None k (cache', u) = (Inl (HTTPException 409 ''idempotency_key_reuse''), cache', u)
    \<and> (in_source_system q, in_external_alert_id q) \<noteq> (in_source_system p, in_external_alert_id p)"
proof -
  have key: "compute_key None q (k_id k) = compute_key None p (k_id k)"
    using assms(2-5) by (simp add: compute_key_def)
  have "idem_check True cache' (compute_key None q (k_id k))
      = Some (Some out, Some (request_fingerprint (env_platform E) dump p))"
    by (simp add: ingest_alert_Inr(2) [OF assms(1)] key idem_check_def idem_store_def)
  then have "ingest_alert E' dump True up' q None k (cache', u) = (Inl (HTTPException 409 ''idempotency_key_reuse''), cache', u)"
    using assms(6) by (simp add: ingest_alert_def)
  moreover have "length (in_source_system q) \<noteq> length (in_source_system p)" using assms(2,4) by simp
  ultimately show ?thesis by auto
qed

lemma ingest_one_unfit: "unfit E p k \<Longrightarrow> \<exists>t. ingest_one E p k label key s = (Inl DataError, t)"
proof -
  assume "unfit E p k"
  then obtain t where "insert_alert_or_existing E p k s = (Inl DataError, t)" using insert_unfit by blast
  then show ?thesis by (simp add: ingest_one_def bind_run_Inl)
qed

lemma long_key_unfit:
  assumes "normalize_alert p = Inr n" and "255 < length k"
  shows "unfit E p k"
proof -
  have "\<not> alert_fits (new_row E empty_state n k)"
    using assms(2) by (simp add: alert_fits_def new_row_def Let_def fits_opt_def fits_def)
  with assms(1) show ?thesis by (auto simp: unfit_def)
qed

text \<open>The schema bounds neither the identity of an alert nor the key that is made of it. A payload that
  the schema accepts and whose source and external id have 255 characters or more together dies in the
  database: no answer is stored and no table changes.\<close>

theorem long_identity_fails:
  assumes "valid_alert_in p" and "255 \<le> length (in_source_system p) + length (in_external_alert_id p)"
    and "idem_check up cache (compute_key None p (k_id k)) = None"
  shows "\<exists>t. ingest_alert E dump up up' p None k (cache, s) = (Inl DataError, cache, t) \<and> same_tables s t"
proof -
  have "\<exists>n. normalize_alert p = Inr n" by (rule normalize_alert_total [OF assms(1)])
  then obtain n where n: "normalize_alert p = Inr n" ..
  have "255 < length (compute_key None p (k_id k))" using assms(2) by (simp add: compute_key_def)
  from ingest_one_unfit [OF long_key_unfit [OF n this, of E]]
  obtain u where "ingest_one E p (compute_key None p (k_id k)) (k_label k) (Some (k_id k)) s = (Inl DataError, u)" by blast
  then show ?thesis using assms(3) by (simp add: ingest_alert_def in_transaction_def)
qed

section \<open>A batch\<close>

fun accepted_of :: "raw_item list \<Rightarrow> alert_in list" where
  "accepted_of [] = []"
| "accepted_of (x # xs) = (case x of Accepted p \<Rightarrow> [p] | _ \<Rightarrow> []) @ accepted_of xs"

lemma accepted_of_set: "p \<in> set (accepted_of xs) \<longleftrightarrow> Accepted p \<in> set xs"
  by (induction xs) (auto split: raw_item.splits)

definition refusal :: "raw_item \<Rightarrow> json list option" where
  "refusal x = (case x of NotObject \<Rightarrow> Some [not_object_error] | Rejected es \<Rightarrow> Some es | Accepted _ \<Rightarrow> None)"

lemma split_items_spec:
  "snd (split_items i xs) = accepted_of xs
   \<and> (\<forall>j es. (j, es) \<in> set (fst (split_items i xs)) \<longleftrightarrow> i \<le> j \<and> j < i + length xs \<and> refusal (xs ! (j - i)) = Some es)
   \<and> length (fst (split_items i xs)) + length (accepted_of xs) = length xs"
proof (induction xs arbitrary: i)
  case (Cons x xs)
  obtain r v where rv: "split_items (Suc i) xs = (r, v)" by fastforce
  note IH = Cons.IH [of "Suc i", unfolded rv fst_conv snd_conv]
  have shift: "i \<le> j \<and> j < i + length (x # xs) \<and> refusal ((x # xs) ! (j - i)) = Some es
      \<longleftrightarrow> j = i \<and> refusal x = Some es \<or> Suc i \<le> j \<and> j < Suc i + length xs \<and> refusal (xs ! (j - Suc i)) = Some es" for j es
  proof (cases "j = i")
    case False
    then have "i \<le> j \<longleftrightarrow> Suc i \<le> j" by arith
    moreover have "(x # xs) ! (j - i) = xs ! (j - Suc i)" if "Suc i \<le> j"
      using that by (cases "j - i") (simp_all add: Suc_diff_Suc [symmetric] Suc_le_eq)
    ultimately show ?thesis using False by auto
  qed auto
  show ?case unfolding shift using IH
    by (cases x) (simp_all add: rv refusal_def, blast+)
qed (simp add: refusal_def)

text \<open>C25: a batch that is answered with 202. Every item is accounted for: the accepted ones are new rows, in
  no case yet, and exactly their ids are handed to the queue; every valid item is stored, new or not; a
  refused item is reported under its index with its errors. The invariant of the database holds.\<close>

theorem batch_outcome:
  assumes "ingest_alerts_batch E loads validate enqueue m k ct body s = (Inr r, t)" and "system_inv E s"
    and "parse_batch_items loads ct body = Inr items"
    and "\<forall>x \<in> set items. \<forall>p. validate x = Inr p \<longrightarrow> 0 \<le> in_amount p"
  shows "length items \<le> m \<and> br_accepted r + br_duplicates r + length (br_rejected r) = length items
    \<and> (\<exists>rows. alerts t = alerts s @ rows \<and> br_accepted r = length rows \<and> br_job_id r = enqueue (map a_id rows)
         \<and> br_grouping_enqueued r = (br_job_id r \<noteq> None) \<and> (\<forall>a \<in> set rows. a_case_id a = None))
    \<and> (\<forall>x \<in> set items. \<forall>p. classify validate x = Accepted p \<longrightarrow> stored_somewhere p t)
    \<and> (\<forall>j es. (j, es) \<in> set (br_rejected r) \<longleftrightarrow> j < length items \<and> refusal (classify validate (items ! j)) = Some es)
    \<and> system_inv E t"
proof -
  let ?xs = "map (classify validate) items"
  obtain rej valid where sp: "split_items 0 ?xs = (rej, valid)" by fastforce
  note spec = split_items_spec [of 0 ?xs, unfolded sp fst_conv snd_conv]
  from assms(1,3) sp obtain new dup where m: "length items \<le> m"
    and pb: "persist_batch E k 0 valid [] 0 s s = (Inr (new, dup), t)"
    and r: "r = \<lparr> br_accepted = length new, br_duplicates = dup, br_rejected = rej, br_job_id = enqueue new,
       br_grouping_enqueued = (enqueue new \<noteq> None) \<rparr>"
    by (auto simp: ingest_alerts_batch_def batch_request_def op_simps Let_def split: prod.splits sum.splits)
  have amt: "\<forall>p \<in> set valid. 0 \<le> in_amount p"
  proof
    fix p assume "p \<in> set valid"
    then have "Accepted p \<in> set ?xs" using spec accepted_of_set by simp
    then obtain x where x: "x \<in> set items" "classify validate x = Accepted p" by auto
    then have "validate x = Inr p" by (auto simp: classify_def split: json.splits sum.splits)
    with x(1) assms(4) show "0 \<le> in_amount p" by blast
  qed
  from persist_batch_Inr [OF pb assms(2) amt] obtain rows where res: "system_inv E t"
    "\<forall>p \<in> set valid. stored_somewhere p t" "alerts t = alerts s @ rows" "new = map a_id rows"
    "length rows + dup = length valid" "\<forall>a \<in> set rows. a_case_id a = None" by auto
  have "stored_somewhere p t" if "x \<in> set items" "classify validate x = Accepted p" for x p
  proof -
    have "Accepted p \<in> set ?xs" using that by force
    then show ?thesis using res(2) spec accepted_of_set by simp
  qed
  moreover have "length new + dup + length rej = length items" using res(4,5) spec by simp
  moreover have "(j, es) \<in> set rej \<longleftrightarrow> j < length items \<and> refusal (classify validate (items ! j)) = Some es" for j es
    using spec by auto
  ultimately show ?thesis using m r res by auto
qed

text \<open>C26: an item that passes the schema and not the columns makes a batch of up to 500 valid items fail as a
  whole: no item is stored, and no answer tells which one it was.\<close>

theorem batch_poisoned:
  assumes "parse_batch_items loads ct body = Inr items" and "length items \<le> m" and "length items \<le> 500"
    and "x \<in> set items" and "classify validate x = Accepted p" and "unfit E p (compute_key None p (k_id k))"
  shows "\<exists>e t. ingest_alerts_batch E loads validate enqueue m k ct body s = (Inl e, t) \<and> same_tables s t"
proof -
  let ?xs = "map (classify validate) items"
  obtain rej valid where sp: "split_items 0 ?xs = (rej, valid)" by fastforce
  note spec = split_items_spec [of 0 ?xs, unfolded sp fst_conv snd_conv]
  have "Accepted p \<in> set ?xs" using assms(4,5) by force
  then have p: "p \<in> set valid" using spec accepted_of_set by simp
  have "0 + length valid \<le> BATCH_COMMIT_CHUNK" using spec assms(3) by (simp add: BATCH_COMMIT_CHUNK_def)
  from persist_batch_unfit [OF p assms(6) this] obtain e t
    where "persist_batch E k 0 valid [] 0 s s = (Inl e, rollback s t)" by blast
  then show ?thesis using assms(1,2) sp
    by (simp add: ingest_alerts_batch_def batch_request_def bind_op_def guard_def lift_result_def Let_def)
qed

section \<open>The worker job\<close>

lemma membership_find: "membership s i = (case find_alert s i of None \<Rightarrow> None | Some a \<Rightarrow> a_case_id a)"
  by (simp add: membership_def find_alert_def)

lemma group_one_cases:
  assumes "group_one E i s = (r, t)" and "system_inv E s"
  shows "system_inv E t \<and> alert_data t = alert_data s \<and> (\<forall>x. membership s x \<noteq> None \<longrightarrow> membership t x \<noteq> None)
    \<and> (\<forall>b. r = Inr b \<longrightarrow> membership t i \<noteq> None \<and> (b \<longleftrightarrow> membership s i = None))"
proof (cases r)
  case (Inl e)
  with assms(1) have "same_tables s t" by (auto simp: group_one_def dest: in_transaction_same_tables)
  moreover from this have "membership t = membership s" "alert_data t = alert_data s"
    by (simp_all add: same_tables_def membership_def alert_data_def fun_eq_iff)
  ultimately show ?thesis using assms(2) Inl by (simp add: system_inv_tables)
next
  case (Inr b)
  with assms(1) obtain a where a: "find_alert s i = Some a"
    and c: "if a_case_id a \<noteq> None then b = False \<and> t = s else b = True \<and> (\<exists>w g. apply_grouping E a ''worker'' s = (Inr (w, g), t))"
    by (auto simp: group_one_def op_simps split: option.splits if_splits)
  have id: "a_id a = i" using find_key_Some [OF a [unfolded find_alert_def]] by simp
  have mem: "membership s i = a_case_id a" by (simp add: membership_find a)
  show ?thesis
  proof (cases "a_case_id a")
    case None
    with c obtain w g where b: b and g: "apply_grouping E a ''worker'' s = (Inr (w, g), t)" by auto
    note sys = apply_grouping_system [OF g assms(2)]
    show ?thesis using sys(1,2,3) sys(4) Inr b id mem None by auto
  next
    case (Some j)
    with c mem Inr assms(2) show ?thesis by simp
  qed
qed

lemma group_alerts_job_run:
  assumes "group_alerts_job E ids s = ((n, failed), t)" and "system_inv E s"
  shows "system_inv E t \<and> alert_data t = alert_data s \<and> (\<forall>x. membership s x \<noteq> None \<longrightarrow> membership t x \<noteq> None)
    \<and> (\<forall>i \<in> set ids. membership t i \<noteq> None \<or> i \<in> fst ` set failed) \<and> n + length failed \<le> length ids"
  using assms
proof (induction ids arbitrary: n failed s)
  case (Cons i ids)
  obtain r u where one: "group_one E i s = (r, u)" by fastforce
  obtain m fs where rest: "group_alerts_job E ids u = ((m, fs), t)"
    using Cons.prems(1) one by (cases r) (auto split: prod.splits)
  note g = group_one_cases [OF one Cons.prems(2)]
  note IH = Cons.IH [OF rest conjunct1 [OF g]]
  show ?case
  proof (cases r)
    case (Inl e)
    with Cons.prems(1) one rest have "n = m" "failed = (i, e) # fs" by auto
    with g IH show ?thesis by auto
  next
    case (Inr b)
    with Cons.prems(1) one rest have "n = (if b then Suc m else m)" "failed = fs" by (auto split: if_splits)
    with g IH Inr show ?thesis by auto
  qed
qed simp

lemma group_alerts_job_idle:
  assumes "\<forall>i \<in> set ids. membership s i \<noteq> None"
  shows "group_alerts_job E ids s = ((0, []), s)"
  using assms
proof (induction ids)
  case (Cons i ids)
  then obtain a where "find_alert s i = Some a" "a_case_id a \<noteq> None"
    by (auto simp: membership_find split: option.splits)
  then have "group_one E i s = (Inr False, s)" by (simp add: group_one_def in_transaction_def run_simps)
  with Cons show ?case by simp
qed simp

text \<open>C16: the job on any list of ids keeps the invariant, loses no alert's case and changes no alert's data, and
  leaves every alert of the list in a case unless it reports the failure. When it reports none, running it
  again with the same list, as ARQ may do, finds nothing to do and changes nothing.\<close>

theorem group_alerts_job_outcome:
  assumes "group_alerts_job E ids s = ((n, failed), t)" and "system_inv E s"
  shows "system_inv E t \<and> alert_data t = alert_data s \<and> (\<forall>x. membership s x \<noteq> None \<longrightarrow> membership t x \<noteq> None)
    \<and> (\<forall>i \<in> set ids. membership t i \<noteq> None \<or> i \<in> fst ` set failed) \<and> n + length failed \<le> length ids
    \<and> (failed = [] \<longrightarrow> group_alerts_job E' ids t = ((0, []), t))"
  using group_alerts_job_run [OF assms] group_alerts_job_idle [of ids t E'] by auto

section \<open>Concrete requests\<close>

definition sample_payload :: "string \<Rightarrow> string \<Rightarrow> alert_in" where
  "sample_payload source external =
     sample_alert_in\<lparr> in_source_system := source, in_external_alert_id := external, in_merchant_name := None \<rparr>"

definition sample_key :: api_key where
  "sample_key = \<lparr> k_id = ''k'', k_label = ''core'', k_hashed_key = ''h'', k_scope = ''ingest'', k_is_active = True \<rparr>"

definition hash_env :: "(string \<Rightarrow> string) \<Rightarrow> env" where
  "hash_env h = book_env\<lparr> env_platform := sample_platform\<lparr> sha256 := h \<rparr> \<rparr>"

lemma valid_sample_payload: "valid_alert_in (sample_payload x y)"
  using valid_sample_alert_in by (simp add: valid_alert_in_def sample_payload_def)

lemma sample_payload_simps [simp]:
  "in_source_system (sample_payload x y) = x" "in_external_alert_id (sample_payload x y) = y"
  by (simp_all add: sample_payload_def)

lemma sample_amount: "0 \<le> in_amount (sample_payload x y)"
  using valid_sample_payload by (simp add: valid_alert_in_def valid_amount_def)

lemma sample_payload_fits:
  assumes "fits 100 x" and "fits 200 y" and "fits 255 k"
  shows "\<not> unfit E (sample_payload x y) k"
proof
  assume "unfit E (sample_payload x y) k"
  then obtain n where "normalize_alert (sample_payload x y) = Inr n" "\<not> alert_fits (new_row E empty_state n k)"
    by (auto simp: unfit_def)
  with assms quantize4_exact [of "in_amount sample_alert_in"] valid_currency_upper [of "in_currency sample_alert_in"]
    valid_sample_alert_in show False
    by (auto simp: normalize_alert_def sample_payload_def valid_alert_in_def)
      (simp add: alert_fits_def new_row_def Let_def sample_alert_in_def fits_def)
qed

lemma sample_ready:
  assumes "\<And>x. fits 64 (h x)"
  shows "ingest_ready (hash_env h) sample_key empty_state"
proof -
  have "grouping_ok (env_config (hash_env h))" using sample_book_ok(1) by (simp add: hash_env_def)
  moreover have "supplies_ok (hash_env h) (empty_state\<lparr> uuids := Suc 0 \<rparr>)"
    using assms
    by (simp add: supplies_ok_def empty_state_def upt_conv_Cons sample_uuid_fits hash_env_def config_hash_def
        shipped_config_def shipped_rules_def fits_opt_def book_env_def sample_env_def)
  moreover have "fits 36 (new_uuid (hash_env h) 0)" using sample_uuid_fits [of 0] by (simp add: hash_env_def)
  ultimately show ?thesis
    by (simp add: ingest_ready_def empty_state_def sample_key_def) (simp add: fits_def)
qed

lemma system_inv_empty: "system_inv E empty_state"
  unfolding system_inv_def
  by (intro conjI) (rule audit_inv_empty book_inv_empty | simp add: amounts_ok_def unique_identity_def empty_state_def)+



lemma genesis_fits: "fits 64 GENESIS_HASH"
  by (simp add: fits_def GENESIS_HASH_def)

lemma sample_created:
  assumes "\<And>x. fits 64 (h x)" and "fits 100 x" and "fits 200 y" and "length x + length y < 255"
  shows "\<exists>out cache' t. ingest_alert (hash_env h) in_external_alert_id True True (sample_payload x y) None sample_key
     (Map.empty, empty_state) = (Inr (201, out), cache', t)"
proof -
  obtain n where n: "normalize_alert (sample_payload x y) = Inr n"
    using normalize_alert_total [OF valid_sample_payload] by blast
  let ?k = "compute_key None (sample_payload x y) (k_id sample_key)"
  have "fits 255 ?k" using assms(2-4) by (simp add: compute_key_def fits_def)
  then have fit: "alert_fits (new_row (hash_env h) empty_state n ?k)"
    using sample_payload_fits [OF assms(2,3)] n by (auto simp: unfit_def)
  from ingest_one_runs [OF system_inv_empty n fit _ sample_amount sample_ready [OF assms(1)], of "Some (k_id sample_key)"]
  obtain out t where "ingest_one (hash_env h) (sample_payload x y) ?k (k_label sample_key) (Some (k_id sample_key)) empty_state
      = (Inr (out, True), t)" by (auto simp: empty_state_def)
  then show ?thesis by (simp add: ingest_alert_def in_transaction_def idem_check_def Let_def)
qed

theorem ingest_alert_idempotent_witness:
  "\<exists>E dump p out cache' t. ingest_alert E dump True True p None sample_key (Map.empty, empty_state) = (Inr (201, out), cache', t)
     \<and> ingest_alert E dump True True p None sample_key (cache', t) = (Inr (200, out), cache', t)
     \<and> (\<exists>a v. ingest_alert E dump False True p None sample_key (cache', t) = (Inr (200, to_alert_out a), cache', v)
          \<and> a_id a = ao_id out)"
proof -
  let ?E = "hash_env (\<lambda>_. GENESIS_HASH)"
  obtain out cache' t where run: "ingest_alert ?E in_external_alert_id True True (sample_payload ''tm'' ''e1'') None sample_key
     (Map.empty, empty_state) = (Inr (201, out), cache', t)"
    using sample_created [OF genesis_fits, of "''tm''" "''e1''"] by (auto simp: fits_def)
  note idem = ingest_alert_idempotent [OF run system_inv_empty sample_amount refl]
  have "system_inv ?E t" using idem [of True t] by (elim conjE)
  then have "unique_identity t" by (simp add: system_inv_def)
  with run idem [of True t] show ?thesis by blast
qed

theorem natural_key_collision_witness:
  "\<exists>E dump p q out cache' t. ingest_alert E dump True True p None sample_key (Map.empty, empty_state) = (Inr (201, out), cache', t)
     \<and> ingest_alert E dump True True q None sample_key (cache', t) = (Inl (HTTPException 409 ''idempotency_key_reuse''), cache', t)"
proof -
  let ?h = "\<lambda>s. if s = ''c'' then GENESIS_HASH else ''1''" and ?p = "sample_payload ''a:b'' ''c''" and ?q = "sample_payload ''a'' ''b:c''"
  let ?E = "hash_env ?h"
  have "fits 64 (?h x)" for x using genesis_fits by (simp add: fits_def)
  then obtain out cache' t where run: "ingest_alert ?E in_external_alert_id True True ?p None sample_key
     (Map.empty, empty_state) = (Inr (201, out), cache', t)"
    using sample_created [of ?h "''a:b''" "''c''"] by (auto simp: fits_def)
  have "''1'' \<noteq> GENESIS_HASH"
  proof
    assume "''1'' = GENESIS_HASH"
    then have "length ''1'' = length GENESIS_HASH" by (rule arg_cong)
    then show False by (simp add: GENESIS_HASH_def)
  qed
  then have "request_fingerprint (env_platform ?E) in_external_alert_id ?q \<noteq> request_fingerprint (env_platform ?E) in_external_alert_id ?p"
    by (auto simp: request_fingerprint_def hash_env_def)
  with natural_key_collision [OF run, of "''a''" "''b''" "''c''" ?q ?E True t]
  have "ingest_alert ?E in_external_alert_id True True ?q None sample_key (cache', t)
      = (Inl (HTTPException 409 ''idempotency_key_reuse''), cache', t)" by simp
  with run show ?thesis by blast
qed

theorem long_identity_fails_witness:
  "\<exists>p t. valid_alert_in p \<and> ingest_alert book_env in_external_alert_id True True p None sample_key (Map.empty, empty_state)
     = (Inl DataError, Map.empty, t)"
proof -
  have long: "255 \<le> length (in_source_system (sample_payload ''tm'' (replicate 254 CHR ''x'')))
      + length (in_external_alert_id (sample_payload ''tm'' (replicate 254 CHR ''x'')))" by simp
  from long_identity_fails [OF valid_sample_payload long, of True Map.empty sample_key book_env in_external_alert_id True empty_state]
  show ?thesis using valid_sample_payload by (auto simp: idem_check_def)
qed

theorem batch_poisoned_witness:
  "\<exists>e t. ingest_alerts_batch book_env (\<lambda>_. Inr (JList [JObj [], JObj []])) (\<lambda>_. Inr (sample_payload ''tm'' (replicate 254 CHR ''x'')))
     (\<lambda>_. None) 1000 sample_key [] ''[{},{}]'' empty_state = (Inl e, t) \<and> same_tables empty_state t"
proof -
  let ?p = "sample_payload ''tm'' (replicate 254 CHR ''x'')" and ?v = "\<lambda>_ :: json. Inr (sample_payload ''tm'' (replicate 254 CHR ''x'')) :: json list + alert_in"
  have parse: "parse_batch_items (\<lambda>_. Inr (JList [JObj [], JObj []])) [] ''[{},{}]'' = Inr [JObj [], JObj []]"
    by (simp add: parse_batch_items_def py_lower_def strip_bytes_def ascii_space_def of_char_def)
  obtain n where "normalize_alert ?p = Inr n" using normalize_alert_total [OF valid_sample_payload] by blast
  then have "unfit book_env ?p (compute_key None ?p (k_id sample_key))"
    by (rule long_key_unfit) (simp add: compute_key_def)
  from batch_poisoned [OF parse _ _ _ _ this, of 1000 "JObj []" ?v "\<lambda>_. None" empty_state] show ?thesis
    by (simp add: classify_def)
qed

theorem batch_outcome_witness:
  "\<exists>r t. ingest_alerts_batch book_env (\<lambda>_. Inr (JList [JNull, JObj []])) (\<lambda>_. Inr (sample_payload ''tm'' ''e1'')) (\<lambda>_. None) 1000
      sample_key [] ''[null, {}]'' empty_state = (Inr r, t)
     \<and> br_accepted r = 1 \<and> br_rejected r = [(0, [not_object_error])]"
proof -
  let ?p = "sample_payload ''tm'' ''e1''" and ?E = "hash_env (\<lambda>_. GENESIS_HASH)"
  have E: "?E = book_env" by (simp add: hash_env_def book_env_def)
  have parse: "parse_batch_items (\<lambda>_. Inr (JList [JNull, JObj []])) [] ''[null, {}]'' = Inr [JNull, JObj []]"
    by (simp add: parse_batch_items_def py_lower_def strip_bytes_def ascii_space_def of_char_def)
  obtain n where n: "normalize_alert ?p = Inr n" using normalize_alert_total [OF valid_sample_payload] by blast
  let ?k = "compute_key None ?p (k_id sample_key)"
  have fit: "alert_fits (new_row book_env empty_state n ?k)"
    using sample_payload_fits [of "''tm''" "''e1''" ?k book_env] n by (auto simp: unfit_def fits_def compute_key_def)
  from persist_runs [OF audit_inv_empty n fit _ sample_ready [OF genesis_fits, unfolded E]] obtain i t
    where run1: "persist_alert_only book_env ?p ?k (k_label sample_key) (Some (k_id sample_key)) empty_state = (Inr (i, True), t)"
    by (auto simp: empty_state_def)
  obtain r u where run: "ingest_alerts_batch book_env (\<lambda>_. Inr (JList [JNull, JObj []])) (\<lambda>_. Inr ?p) (\<lambda>_. None) 1000
      sample_key [] ''[null, {}]'' empty_state = (Inr r, u)" and r: "br_rejected r = [(0, [not_object_error])]" "br_duplicates r = 0"
    by (simp add: ingest_alerts_batch_def batch_request_def parse run_simps lift_result_def classify_def bind_op_def guard_def run1
        BATCH_COMMIT_CHUNK_def)
  from batch_outcome [OF run system_inv_empty parse] sample_amount
  have "br_accepted r + br_duplicates r + length (br_rejected r) = 2" by simp
  with run r show ?thesis by auto
qed

lemma sample_book_system: "system_inv book_env sample_book"
  using sample_book_inv sample_book_ok(2) by (simp add: system_inv_def)
    (simp add: unique_identity_def sample_book_def sample_row_def sample_data_def identity_def)

theorem group_alerts_job_outcome_witness:
  "\<exists>t. group_alerts_job book_env [''x''] sample_book = ((0, []), t) \<and> membership t ''x'' \<noteq> None \<and> system_inv book_env t"
proof -
  have run: "group_alerts_job book_env [''x''] sample_book = ((0, []), sample_book)"
    by (rule group_alerts_job_idle) (simp add: membership_def sample_book_def sample_row_def)
  from group_alerts_job_outcome [OF run sample_book_system] run show ?thesis by auto
qed

end
