(* ===== verification/History.thy ===== *)
theory History
  imports IngestionOutcome
begin

text \<open>
  What no operation undoes: audit events, the data of alerts, the text and author of notes, retractions.
  \<open>grows\<close> is that preorder on states. The locale \<open>op_relation\<close> is the interface of a preorder on
  states to the operations: an operation is \<open>safe\<close> if all of its runs are in the relation, and
  \<open>safe\<close> is closed under the operations' combinators. Its interpretation on \<open>grows\<close> carries
  the proofs for the audit log, the grouping transaction, ingestion and the case mutations.
\<close>

section \<open>Relations that operations respect\<close>

locale op_relation =
  fixes R :: "state \<Rightarrow> state \<Rightarrow> bool"
  assumes R_refl: "R s s"
    and R_trans: "R s t \<Longrightarrow> R t u \<Longrightarrow> R s u"
begin

definition safe :: "'a op \<Rightarrow> bool" where
  "safe m \<longleftrightarrow> (\<forall>s. R s (snd (m s)))"

lemma safeD: "safe m \<Longrightarrow> m s = (r, t) \<Longrightarrow> R s t"
  unfolding safe_def by (metis snd_conv)

lemma safe_ret: "safe (ret x)"
  by (simp add: safe_def ret_def R_refl)

lemma safe_raise: "safe (raise_exn e)"
  by (simp add: safe_def raise_exn_def R_refl)

lemma safe_read: "safe (read_state f)"
  by (simp add: safe_def read_state_def R_refl)

lemma safe_lift: "safe (lift_result r)"
  by (simp add: safe_def lift_result_def R_refl)

lemma safe_guard: "safe (guard b e)"
  by (simp add: safe_def guard_def R_refl)

lemma safe_modify: "(\<And>s. R s (f s)) \<Longrightarrow> safe (modify f)"
  by (simp add: safe_def modify_def)

lemma safe_bind: "safe m \<Longrightarrow> (\<And>x. safe (f x)) \<Longrightarrow> safe (bind_op m f)"
  unfolding safe_def bind_op_def
  by (auto split: prod.split sum.split) (metis R_trans snd_conv)+

lemma safe_each: "(\<And>x. safe (f x)) \<Longrightarrow> safe (each f xs)"
  by (induction xs) (auto intro: safe_ret safe_bind)

lemma safe_catch: "safe m \<Longrightarrow> safe (catch_op h m)"
  by (auto simp: safe_def catch_op_def split: prod.split sum.split) (metis snd_conv)+

lemma safe_if: "safe m \<Longrightarrow> safe n \<Longrightarrow> safe (if b then m else n)"
  by simp

lemma safe_option: "safe m \<Longrightarrow> (\<And>x. safe (f x)) \<Longrightarrow> safe (case v of None \<Rightarrow> m | Some x \<Rightarrow> f x)"
  by (cases v) auto

lemma safe_pair: "(\<And>x y. safe (f x y)) \<Longrightarrow> safe (case p of (x, y) \<Rightarrow> f x y)"
  by (cases p) auto

lemma safe_Let: "(\<And>x. safe (f x)) \<Longrightarrow> safe (let x = v in f x)"
  by simp

lemmas safe_intros = safe_bind safe_if safe_option safe_pair safe_Let safe_each safe_catch
  safe_ret safe_raise safe_read safe_lift safe_guard

text \<open>A failed transaction goes back to the tables it found.\<close>

lemma safe_transaction:
  assumes "\<And>s t. same_tables s t \<Longrightarrow> R s t" and "safe m"
  shows "safe (in_transaction m)"
  unfolding safe_def
proof
  fix s
  obtain r t where m: "m s = (r, t)" by fastforce
  show "R s (snd (in_transaction m s))"
    using safeD [OF assms(2) m] assms(1) [of s "rollback s t"]
    by (cases r) (simp_all add: in_transaction_def m same_tables_def)
qed

end

section \<open>What is never undone\<close>

definition keeps_note :: "note_row \<Rightarrow> note_row \<Rightarrow> bool" where
  "keeps_note n m \<longleftrightarrow>
     n_id m = n_id n \<and> n_author_id m = n_author_id n \<and> n_body m = n_body n \<and> n_created_at m = n_created_at n
     \<and> (n_retracted n \<longrightarrow> n_retracted m \<and> n_retraction_reason m = n_retraction_reason n)"

definition notes_kept :: "state \<Rightarrow> state \<Rightarrow> bool" where
  "notes_kept s t \<longleftrightarrow> (\<forall>n \<in> set (case_notes s). \<exists>m \<in> set (case_notes t). keeps_note n m)"

definition grows :: "state \<Rightarrow> state \<Rightarrow> bool" where
  "grows s t \<longleftrightarrow>
     users t = users s \<and> prefix (events s) (events t) \<and> prefix (alert_data s) (alert_data t) \<and> notes_kept s t"

lemma keeps_note_refl [simp]: "keeps_note n n"
  by (simp add: keeps_note_def)

lemma keeps_note_trans: "keeps_note n m \<Longrightarrow> keeps_note m k \<Longrightarrow> keeps_note n k"
  by (simp add: keeps_note_def)

lemma notes_kept_same: "set (case_notes s) \<subseteq> set (case_notes t) \<Longrightarrow> notes_kept s t"
  by (auto simp: notes_kept_def intro: keeps_note_refl)

lemma grows_refl: "grows s s"
  by (simp add: grows_def notes_kept_same)

lemma grows_trans:
  assumes "grows s t" and "grows t u"
  shows "grows s u"
proof -
  have "notes_kept s u"
    unfolding notes_kept_def
  proof
    fix n assume "n \<in> set (case_notes s)"
    then obtain m where m: "m \<in> set (case_notes t)" "keeps_note n m"
      using assms(1) by (auto simp: grows_def notes_kept_def)
    then obtain k where "k \<in> set (case_notes u)" "keeps_note m k"
      using assms(2) by (auto simp: grows_def notes_kept_def)
    with m keeps_note_trans show "\<exists>k \<in> set (case_notes u). keeps_note n k" by blast
  qed
  with assms show ?thesis by (auto simp: grows_def intro: prefix_order.trans)
qed

interpretation history: op_relation grows
  by unfold_locales (rule grows_refl, rule grows_trans)

lemma grows_same_tables: "same_tables s t \<Longrightarrow> grows s t"
  by (simp add: same_tables_def grows_def notes_kept_same alert_data_def)

lemma history_transaction: "history.safe m \<Longrightarrow> history.safe (in_transaction m)"
  by (rule history.safe_transaction) (rule grows_same_tables)

lemma history_uuid: "history.safe (uuid4 E)"
  by (simp add: history.safe_def uuid4_def grows_def notes_kept_same alert_data_def)

lemma history_now: "history.safe (now E)"
  by (simp add: history.safe_def now_def grows_def notes_kept_same alert_data_def)

lemma history_save_case: "history.safe (save_case E c)"
  by (simp add: history.safe_def save_case_def modify_def grows_def notes_kept_same alert_data_def)

lemma grows_simple:
  "grows s (s\<lparr> human_ref_seq := n \<rparr>)" "grows s (s\<lparr> decisions_total := ds \<rparr>)" "grows s (s\<lparr> cases := cs \<rparr>)"
  "grows s (s\<lparr> groupings := gs \<rparr>)" "grows s (s\<lparr> links := ls \<rparr>)" "grows s (s\<lparr> event_id_seq := n \<rparr>)"
  "grows s (s\<lparr> ingested_created := n \<rparr>)" "grows s (s\<lparr> ingested_duplicate := n \<rparr>)" "grows s (s\<lparr> streams := sts \<rparr>)"
  "grows s (s\<lparr> events := events s @ es, streams := sts \<rparr>)" "grows s (s\<lparr> alerts := alerts s @ as \<rparr>)"
  "grows s (s\<lparr> audit_write_failures := n \<rparr>)" "grows s (s\<lparr> case_notes := case_notes s @ nts \<rparr>)"
  by (simp_all add: grows_def notes_kept_same alert_data_def)

lemmas history_steps = history.safe_intros history_uuid history_now history_save_case
  history.safe_modify [OF grows_simple(1)] history.safe_modify [OF grows_simple(2)]

section \<open>The operations\<close>

lemma alert_data_update:
  "(\<And>r. a_id (f r) = a_id r \<and> a_data (f r) = a_data r \<and> a_idempotency_key (f r) = a_idempotency_key r
      \<and> a_received_at (f r) = a_received_at r) \<Longrightarrow>
    alert_data (s\<lparr> alerts := update_where p f (alerts s) \<rparr>) = alert_data s"
  by (simp add: alert_data_def update_where_def)

lemma history_record_audit: "history.safe (record_audit E k actor action tt tid reason before after)"
proof -
  have "history.safe (append_event E k actor action tt tid reason before after)"
    unfolding append_event_def ensure_stream_def flush_event_def
    by (intro history_steps history.safe_modify) (auto simp: grows_simple grows_refl)
  then show ?thesis
    unfolding history.safe_def record_audit_def
    by (auto split: prod.split sum.split) (metis grows_simple(12) grows_trans snd_conv)+
qed

lemma grows_move_contents: "grows s (move_contents i j s)"
proof -
  have "notes_kept s (move_contents i j s)"
    unfolding notes_kept_def
  proof
    fix n assume "n \<in> set (case_notes s)"
    then have "(if n_case_id n = i then n\<lparr> n_case_id := j \<rparr> else n) \<in> set (case_notes (move_contents i j s))"
      by (auto simp: move_contents_def set_update_where)
    moreover have "keeps_note n (if n_case_id n = i then n\<lparr> n_case_id := j \<rparr> else n)" by (simp add: keeps_note_def)
    ultimately show "\<exists>m \<in> set (case_notes (move_contents i j s)). keeps_note n m" by blast
  qed
  moreover have "alert_data (move_contents i j s) = alert_data s"
    by (simp add: move_contents_def alert_data_def update_where_def)
  ultimately show ?thesis by (simp add: grows_def) (simp add: move_contents_def)
qed

lemma grows_set_case: "grows s (s\<lparr> alerts := update_where p (\<lambda>r. r\<lparr> a_case_id := c \<rparr>) (alerts s) \<rparr>)"
proof -
  have "alert_data (s\<lparr> alerts := update_where p (\<lambda>r. r\<lparr> a_case_id := c \<rparr>) (alerts s) \<rparr>) = alert_data s"
    by (rule alert_data_update) simp
  then show ?thesis by (simp add: grows_def notes_kept_same)
qed

lemmas grouping_ops = apply_grouping_def candidate_query_def flag_closed_def choose_target_def create_case_def merge_case_def
  attach_alert_def refresh_case_def list.case_eq_if

lemmas ingestion_ops = insert_alert_or_existing_def audit_ingested_def ingest_one_def persist_alert_only_def

lemma history_apply_grouping: "history.safe (apply_grouping E a label)"
  unfolding grouping_ops
  by (intro history_steps history_record_audit history.safe_modify [OF grows_move_contents]
      history.safe_modify [OF grows_set_case] history.safe_modify) (rule grows_simple)+

lemma history_ingestion:
  "history.safe (ingest_one E p key label k)" "history.safe (persist_alert_only E p key label k)"
  unfolding ingestion_ops
  by (intro history_steps history_record_audit history_apply_grouping history.safe_modify; rule grows_simple)+

lemma history_group_one: "history.safe (group_one E i)"
  unfolding group_one_def
  by (intro history_transaction history_steps history_apply_grouping)

lemma history_flush: "history.safe (flush_disposition d)"
  by (auto simp: history.safe_def flush_disposition_def grows_simple grows_refl)

lemma history_mutations:
  "history.safe (transition_case_endpoint E i target reason d actor v)"
  "history.safe (assign_case_endpoint E i u actor)" "history.safe (add_note_endpoint E i body actor)"
  unfolding transition_case_endpoint_def transition_case_def apply_move_def assign_case_endpoint_def assign_case_def
    add_note_endpoint_def add_note_def lock_case_def reload_case_def require_role_def
  by (intro history_transaction history_steps history_flush history_record_audit history.safe_modify; rule grows_simple)+

section \<open>The ids of notes\<close>

definition same_note_ids :: "state \<Rightarrow> state \<Rightarrow> bool" where
  "same_note_ids s t \<longleftrightarrow> map n_id (case_notes t) = map n_id (case_notes s)"

interpretation note_ids: op_relation same_note_ids
  by unfold_locales (simp_all add: same_note_ids_def)

lemma note_ids_steps:
  "note_ids.safe (uuid4 E)" "note_ids.safe (now E)" "note_ids.safe (save_case E c)" "note_ids.safe (flush_disposition d)"
  by (simp_all add: note_ids.safe_def same_note_ids_def uuid4_def now_def save_case_def modify_def flush_disposition_def)

lemma note_ids_record_audit: "note_ids.safe (record_audit E k actor action tt tid reason before after)"
proof -
  have "note_ids.safe (append_event E k actor action tt tid reason before after)"
    unfolding append_event_def ensure_stream_def flush_event_def
    by (intro note_ids.safe_intros note_ids_steps note_ids.safe_modify) (auto simp: same_note_ids_def)
  then show ?thesis
    by (auto simp: note_ids.safe_def record_audit_def same_note_ids_def split: prod.split sum.split) (metis snd_conv)+
qed

lemma note_ids_move: "same_note_ids s (move_contents i j s)"
  by (simp add: same_note_ids_def move_contents_def update_where_def)

lemma note_ids_apply_grouping: "note_ids.safe (apply_grouping E a label)"
  unfolding grouping_ops
  by (intro note_ids.safe_intros note_ids_steps note_ids_record_audit note_ids.safe_modify [OF note_ids_move]
      note_ids.safe_modify) (simp_all add: same_note_ids_def)

lemma note_ids_ingestion:
  "note_ids.safe (ingest_one E p key label k)" "note_ids.safe (persist_alert_only E p key label k)"
  unfolding ingestion_ops
  by (intro note_ids.safe_intros note_ids_steps note_ids_record_audit note_ids_apply_grouping note_ids.safe_modify;
      simp add: same_note_ids_def)+

lemma note_ids_same_tables: "same_tables s t \<Longrightarrow> same_note_ids s t"
  by (simp add: same_tables_def same_note_ids_def)

lemma note_ids_transaction: "note_ids.safe m \<Longrightarrow> note_ids.safe (in_transaction m)"
  by (rule note_ids.safe_transaction) (rule note_ids_same_tables)

lemma note_ids_group_one: "note_ids.safe (group_one E i)"
  unfolding group_one_def
  by (intro note_ids_transaction note_ids.safe_intros note_ids_apply_grouping)

lemma note_ids_mutations:
  "note_ids.safe (transition_case_endpoint E i target reason d actor v)" "note_ids.safe (assign_case_endpoint E i u actor)"
  unfolding transition_case_endpoint_def transition_case_def apply_move_def assign_case_endpoint_def assign_case_def
    lock_case_def reload_case_def require_role_def
  by (intro note_ids_transaction note_ids.safe_intros note_ids_steps note_ids_record_audit)+

end
