(* ===== verification/Cursor.thy ===== *)
theory Cursor
  imports CaseService
begin

text \<open>
  The keyset cursors of \<open>GET /cases\<close> (\<open>_encode_cursor\<close> and \<open>_decode_cursor\<close> of \<open>app/cases/search.py\<close>):
  URL-safe base64 over a JSON object with the sort value and the id of the last row. Base64 is Python's,
  decoder included, with what it ignores and what it refuses. The JSON parser, \<open>datetime.fromisoformat\<close>
  and \<open>uuid.UUID\<close> come in as a \<open>codec\<close>. The main results are that decoding inverts encoding and that
  any text decodes or is refused.
\<close>

section \<open>Base64\<close>

definition b64_char :: "nat \<Rightarrow> char" where
  "b64_char n =
     (if n < 26 then char_of (65 + n) else if n < 52 then char_of (71 + n) else if n < 62 then char_of (n - 4)
      else if n = 62 then CHR ''-'' else CHR ''_'')"

definition b64_value :: "char \<Rightarrow> nat option" where
  "b64_value c =
     (let n = of_char c :: nat
      in if 65 \<le> n \<and> n \<le> 90 then Some (n - 65) else if 97 \<le> n \<and> n \<le> 122 then Some (n - 71)
         else if 48 \<le> n \<and> n \<le> 57 then Some (n + 4) else if c \<in> set ''+-'' then Some 62
         else if c \<in> set ''/_'' then Some 63 else None)"

fun b64encode :: "string \<Rightarrow> string" where
  "b64encode [] = []"
| "b64encode [x] = (let a = of_char x in [b64_char (a div 4), b64_char (a mod 4 * 16), CHR ''='', CHR ''=''])"
| "b64encode [x, y] =
     (let a = of_char x; b = of_char y
      in [b64_char (a div 4), b64_char (a mod 4 * 16 + b div 16), b64_char (b mod 16 * 4), CHR ''=''])"
| "b64encode (x # y # z # s) =
     (let a = of_char x; b = of_char y; c = of_char z
      in b64_char (a div 4) # b64_char (a mod 4 * 16 + b div 16) # b64_char (b mod 16 * 4 + c div 64)
         # b64_char (c mod 64) # b64encode s)"

text \<open>The loop of \<open>binascii.a2b_base64\<close>: \<open>q\<close> counts the characters of the current group, \<open>left\<close> holds the bits
  not yet written, \<open>pads\<close> the padding seen. Characters outside the alphabet are skipped; the first complete
  padding ends the input; an incomplete group is an error.\<close>

fun a2b_base64 :: "nat \<Rightarrow> nat \<Rightarrow> nat \<Rightarrow> string \<Rightarrow> string option" where
  "a2b_base64 q left pads [] = (if q = 0 then Some [] else None)"
| "a2b_base64 q left pads (c # cs) =
     (if c = CHR ''='' then
        (if 2 \<le> q \<and> 4 \<le> q + pads + 1 then Some [] else a2b_base64 q left (if 2 \<le> q then pads + 1 else pads) cs)
      else case b64_value c of
        None \<Rightarrow> a2b_base64 q left pads cs
      | Some v \<Rightarrow>
          if q = 0 then a2b_base64 1 v 0 cs
          else if q = 1 then map_option (Cons (char_of (left * 4 + v div 16))) (a2b_base64 2 (v mod 16) 0 cs)
          else if q = 2 then map_option (Cons (char_of (left * 16 + v div 4))) (a2b_base64 3 (v mod 4) 0 cs)
          else map_option (Cons (char_of (left * 64 + v))) (a2b_base64 0 0 0 cs))"

definition b64decode :: "string \<Rightarrow> string option" where
  "b64decode s = a2b_base64 0 0 0 s"

lemma b64_table:
  assumes "n < 64"
  shows "b64_value (b64_char n) = Some n \<and> b64_char n \<noteq> CHR ''=''"
proof -
  have val: "b64_value (b64_char n) = Some n"
    using assms by (auto simp: b64_value_def b64_char_def Let_def)
  moreover have "b64_value (CHR ''='') = None" by (simp add: b64_value_def Let_def)
  ultimately show ?thesis by auto
qed

lemma b64_char_ascii: "n < 64 \<Longrightarrow> (of_char (b64_char n) :: nat) < 128"
  by (auto simp: b64_char_def)

lemma of_char_less: "(of_char c :: nat) < 256"
proof -
  have "(of_char c :: nat) \<in> range of_char" by (rule rangeI)
  then show ?thesis by (simp add: range_nat_of_char)
qed

lemma char_quotients [simp]:
  "(of_char c :: nat) div 16 div 16 = 0" "(of_char c :: nat) div 16 mod 16 = of_char c div 16"
  "(of_char c :: nat) div 64 div 4 = 0" "(of_char c :: nat) div 64 mod 4 = of_char c div 64"
  using of_char_less [of c] by (simp_all add: div_mult2_eq [symmetric] less_mult_imp_div_less)

lemma char_groups:
  "(of_char x :: nat) div 4 < 64" "(of_char x :: nat) mod 4 * 16 < 64" "(of_char x :: nat) mod 4 * 16 + of_char y div 16 < 64"
  "(of_char x :: nat) mod 16 * 4 < 64" "(of_char x :: nat) mod 16 * 4 + of_char y div 64 < 64"
proof -
  have "(of_char y :: nat) div 16 < 16" "(of_char y :: nat) div 64 < 4"
    using of_char_less [of y] by (simp_all add: less_mult_imp_div_less)
  moreover have "(of_char x :: nat) mod 4 < 4" "(of_char x :: nat) mod 16 < 16" by simp_all
  ultimately show "(of_char x :: nat) mod 4 * 16 < 64" "(of_char x :: nat) mod 4 * 16 + of_char y div 16 < 64"
    "(of_char x :: nat) mod 16 * 4 < 64" "(of_char x :: nat) mod 16 * 4 + of_char y div 64 < 64" by linarith+
  show "(of_char x :: nat) div 4 < 64" using of_char_less [of x] by (simp add: less_mult_imp_div_less)
qed

lemma b64decode_encode [simp]: "b64decode (b64encode s) = Some s"
  unfolding b64decode_def
  by (induction s rule: b64encode.induct) (simp_all add: Let_def char_groups b64_table)

lemma b64encode_ascii: "c \<in> set (b64encode s) \<Longrightarrow> (of_char c :: nat) < 128"
  by (induction s rule: b64encode.induct) (auto simp: Let_def char_groups b64_char_ascii)

section \<open>Cursors\<close>

text \<open>\<open>json.dumps\<close> with its default separators.\<close>

fun dumps_join :: "string list \<Rightarrow> string" where
  "dumps_join [] = []"
| "dumps_join [t] = t"
| "dumps_join (t # u # ts) = t @ '', '' @ dumps_join (u # ts)"

fun json_dumps :: "json \<Rightarrow> string" where
  "json_dumps (JList xs) = ''['' @ dumps_join (map json_dumps xs) @ '']''"
| "json_dumps (JObj kvs) = ''{'' @ dumps_join (map (\<lambda>(k, v). string_text k @ '': '' @ json_dumps v) kvs) @ ''}''"
| "json_dumps x = render x"

text \<open>\<open>json.loads\<close> on bytes (its object members as a dict has them), \<open>datetime.fromisoformat\<close> and \<open>uuid.UUID\<close>;
  a text that is no timestamp or no UUID is \<open>None\<close>.\<close>

record codec =
  json_loads :: "string \<Rightarrow> json result"
  from_isoformat :: "string \<Rightarrow> int option"
  parse_uuid :: "string \<Rightarrow> uuid option"

datatype sort_order = ByRisk | ByCreated | ByOldest

text \<open>The sort value and the id of a row. \<open>None\<close> is the missing time of a case without alerts.\<close>

definition cursor_json :: "platform \<Rightarrow> sort_order \<Rightarrow> int option \<Rightarrow> uuid \<Rightarrow> json" where
  "cursor_json P so v i =
     JObj [(''v'', case v of None \<Rightarrow> JNull | Some n \<Rightarrow> if so = ByRisk then JInt n else JStr (isoformat P n)),
       (''id'', JStr i)]"

definition encode_cursor :: "platform \<Rightarrow> sort_order \<Rightarrow> int option \<Rightarrow> uuid \<Rightarrow> string" where
  "encode_cursor P so v i = b64encode (json_dumps (cursor_json P so v i))"

text \<open>\<open>uuid.UUID(str(x))\<close>: of the JSON values only a text or the decimal digits of a number can be a UUID.\<close>

definition cursor_id :: "codec \<Rightarrow> json \<Rightarrow> uuid result" where
  "cursor_id C x =
     (case (case x of JStr t \<Rightarrow> parse_uuid C t | JInt n \<Rightarrow> parse_uuid C (int_text n) | _ \<Rightarrow> None) of
        None \<Rightarrow> Inl (ValueError ''badly formed hexadecimal UUID string'')
      | Some i \<Rightarrow> Inr i)"

definition cursor_time :: "codec \<Rightarrow> json \<Rightarrow> int result" where
  "cursor_time C x =
     (case x of
        JStr t \<Rightarrow> (case from_isoformat C t of None \<Rightarrow> Inl (ValueError ''Invalid isoformat string'') | Some n \<Rightarrow> Inr n)
      | _ \<Rightarrow> Inl (ValueError ''cursor must be an ISO string''))"

definition cursor_value :: "codec \<Rightarrow> sort_order \<Rightarrow> json \<Rightarrow> int option result" where
  "cursor_value C so x =
     (case so of
        ByRisk \<Rightarrow> (case x of JInt n \<Rightarrow> Inr (Some n) | _ \<Rightarrow> Inl (ValueError ''risk_score cursor must be an int''))
      | ByCreated \<Rightarrow> rbind (cursor_time C x) (\<lambda>n. Inr (Some n))
      | ByOldest \<Rightarrow> if x = JNull then Inr None else rbind (cursor_time C x) (\<lambda>n. Inr (Some n)))"

definition member :: "json \<Rightarrow> string \<Rightarrow> json result" where
  "member x k =
     (case x of
        JObj kvs \<Rightarrow> (case map_of kvs k of None \<Rightarrow> Inl KeyError | Some v \<Rightarrow> Inr v)
      | _ \<Rightarrow> Inl (ValueError ''not subscriptable by a text''))"

definition ascii_text :: "string \<Rightarrow> bool" where
  "ascii_text s \<longleftrightarrow> list_all (\<lambda>c. (of_char c :: nat) < 128) s"

text \<open>The body of the \<open>try\<close>, and the handler: \<open>ValueError\<close> (with its subclasses for bad base64, bad JSON and bad
  UTF-8), \<open>KeyError\<close> and \<open>TypeError\<close> become \<open>InvalidCursor\<close>.\<close>

definition read_cursor :: "codec \<Rightarrow> sort_order \<Rightarrow> string \<Rightarrow> (int option \<times> uuid) result" where
  "read_cursor C so cursor =
     (if \<not> ascii_text cursor then Inl (ValueError ''ascii'')
      else case b64decode cursor of
        None \<Rightarrow> Inl (ValueError ''Incorrect padding'')
      | Some t \<Rightarrow>
          rbind (json_loads C t) (\<lambda>payload.
          rbind (member payload ''id'') (\<lambda>x.
          rbind (cursor_id C x) (\<lambda>last_id.
          rbind (member payload ''v'') (\<lambda>raw.
          rbind (cursor_value C so raw) (\<lambda>v. Inr (v, last_id)))))))"

fun cursor_error :: "exn \<Rightarrow> exn" where
  "cursor_error (ValueError m) = InvalidCursor"
| "cursor_error KeyError = InvalidCursor"
| "cursor_error e = e"

definition decode_cursor :: "codec \<Rightarrow> sort_order \<Rightarrow> string \<Rightarrow> (int option \<times> uuid) result" where
  "decode_cursor C so cursor =
     (case read_cursor C so cursor of Inl e \<Rightarrow> Inl (cursor_error e) | Inr x \<Rightarrow> Inr x)"

text \<open>The codec reads back what the backend wrote for a sort value and an id.\<close>

definition codec_reads :: "codec \<Rightarrow> platform \<Rightarrow> sort_order \<Rightarrow> int option \<Rightarrow> uuid \<Rightarrow> bool" where
  "codec_reads C P so v i \<longleftrightarrow>
     json_loads C (json_dumps (cursor_json P so v i)) = Inr (cursor_json P so v i)
     \<and> parse_uuid C i = Some i
     \<and> (so = ByRisk \<or> (case v of None \<Rightarrow> True | Some t \<Rightarrow> from_isoformat C (isoformat P t) = Some t))"

lemma decode_encode:
  assumes "codec_reads C P so v i" and "so = ByOldest \<or> v \<noteq> None"
  shows "decode_cursor C so (encode_cursor P so v i) = Inr (v, i)"
proof -
  have "ascii_text (encode_cursor P so v i)"
    by (auto simp: ascii_text_def list_all_iff encode_cursor_def dest: b64encode_ascii)
  moreover have "member (cursor_json P so v i) ''id'' = Inr (JStr i)" by (simp add: member_def cursor_json_def)
  moreover have "\<exists>x. member (cursor_json P so v i) ''v'' = Inr x \<and> cursor_value C so x = Inr v"
    using assms
    by (cases so; cases v) (auto simp: member_def cursor_json_def cursor_value_def cursor_time_def codec_reads_def rbind_def)
  ultimately show ?thesis
    using assms(1)
    by (auto simp: decode_cursor_def read_cursor_def encode_cursor_def cursor_id_def codec_reads_def rbind_def)
qed

end
