(* ===== verification/AuditHtml.thy ===== *)
theory AuditHtml
  imports Cursor
begin

text \<open>
  \<open>render_html\<close> of \<open>app/audit/export.py\<close>: the HTML document of a case's audit bundle, line by line, with
  \<open>html.escape\<close> and the indented \<open>json.dumps\<close> that it uses. A bundle is the JSON value that
  \<open>build_case_audit_bundle\<close> makes; a missing key is a \<open>KeyError\<close>, as in the code. Python's text of a
  container, which no field of a bundle needs, is the parameter \<open>R\<close>.

  The result: the tags of the document are fixed by how many events, alerts and notes there are and by
  three flags. Whatever the texts contain, they cannot add, remove or change a tag.
\<close>

section \<open>Texts\<close>

definition html_escape_char :: "char \<Rightarrow> string" where
  "html_escape_char c =
     (if c = CHR ''&'' then ''&amp;'' else if c = CHR ''<'' then ''&lt;'' else if c = CHR ''>'' then ''&gt;''
      else if c = CHR 0x22 then ''&quot;'' else if c = CHR 0x27 then ''&#x27;'' else [c])"

definition html_escape :: "string \<Rightarrow> string" where
  "html_escape s = concat (map html_escape_char s)"

fun str_of :: "(json \<Rightarrow> string) \<Rightarrow> json \<Rightarrow> string" where
  "str_of R JNull = ''None''"
| "str_of R (JBool b) = (if b then ''True'' else ''False'')"
| "str_of R (JInt i) = int_text i"
| "str_of R (JFloat t) = t"
| "str_of R (JStr s) = s"
| "str_of R v = R v"

definition esc :: "(json \<Rightarrow> string) \<Rightarrow> json \<Rightarrow> string" where
  "esc R v = html_escape (if v = JNull then [] else str_of R v)"

fun join_with :: "string \<Rightarrow> string list \<Rightarrow> string" where
  "join_with sep [] = []"
| "join_with sep [t] = t"
| "join_with sep (t # u # ts) = t @ sep @ join_with sep (u # ts)"

definition newline :: "nat \<Rightarrow> string" where
  "newline n = CHR 0x0A # replicate n (CHR '' '')"

text \<open>\<open>json.dumps(value, indent=2, sort_keys=True)\<close>.\<close>

fun dumps_indent :: "nat \<Rightarrow> json \<Rightarrow> string" where
  "dumps_indent n (JList xs) =
     (if xs = [] then ''[]''
      else ''['' @ newline (n + 2) @ join_with ('','' @ newline (n + 2)) (map (dumps_indent (n + 2)) xs) @ newline n @ '']'')"
| "dumps_indent n (JObj kvs) =
     (if kvs = [] then ''{}''
      else ''{'' @ newline (n + 2)
        @ join_with ('','' @ newline (n + 2)) (map (\<lambda>(k, v). string_text k @ '': '' @ dumps_indent (n + 2) v) kvs)
        @ newline n @ ''}'')"
| "dumps_indent n v = render v"

definition json_block :: "(json \<Rightarrow> string) \<Rightarrow> json \<Rightarrow> string" where
  "json_block R v = esc R (JStr (dumps_indent 0 (sort_keys v)))"

text \<open>\<open>d.get(k)\<close> of a dict, the truth value of an object and the loop over a list.\<close>

definition get :: "json \<Rightarrow> string \<Rightarrow> json" where
  "get d k = (case member d k of Inl e \<Rightarrow> JNull | Inr v \<Rightarrow> v)"

fun truthy :: "json \<Rightarrow> bool" where
  "truthy JNull = False"
| "truthy (JBool b) = b"
| "truthy (JInt i) = (i \<noteq> 0)"
| "truthy (JFloat t) = (t \<noteq> ''0.0'' \<and> t \<noteq> ''-0.0'')"
| "truthy (JStr s) = (s \<noteq> [])"
| "truthy (JList xs) = (xs \<noteq> [])"
| "truthy (JObj kvs) = (kvs \<noteq> [])"

definition elements :: "json \<Rightarrow> json list result" where
  "elements v = (case v of JList xs \<Rightarrow> Inr xs | _ \<Rightarrow> Inl (ValueError ''not a list''))"

section \<open>The document\<close>

definition CSS :: string where
  "CSS = join_with [CHR 0x0A][
      ''* { box-sizing: border-box; }'',
      ''body { font-family: -apple-system, BlinkMacSystemFont, '' @ CHR 0x22 # ''Segoe UI'' @ CHR 0x22 # '', Roboto, Helvetica, Arial,'',
      ''       sans-serif; margin: 0; padding: 2rem; color: #1a1a1a; background: #fafafa; }'',
      ''h1, h2, h3 { margin: 0.6rem 0; }'',
      ''header { border-bottom: 2px solid #dddddd; padding-bottom: 1rem; margin-bottom: 1.5rem; }'',
      ''.badge { display: inline-block; padding: 0.2rem 0.6rem; border-radius: 0.3rem; font-weight: 700;'',
      ''         font-size: 0.85rem; letter-spacing: 0.02em; }'',
      ''.badge.ok { background: #0a7b34; color: #ffffff; }'',
      ''.badge.bad { background: #b21f2d; color: #ffffff; }'',
      ''dl { display: grid; grid-template-columns: max-content 1fr; gap: 0.2rem 1rem; margin: 0.6rem 0; }'',
      ''dt { font-weight: 600; }'',
      ''dd { margin: 0; }'',
      ''table { border-collapse: collapse; width: 100%; font-size: 0.85rem; }'',
      ''th, td { border: 1px solid #cccccc; padding: 0.4rem 0.5rem; text-align: left; vertical-align: top; }'',
      ''th { background: #eeeeee; }'',
      ''pre { white-space: pre-wrap; word-break: break-word; margin: 0; font-family: ui-monospace,'',
      ''      SFMono-Regular, Menlo, Consolas, monospace; font-size: 0.8rem; }'',
      ''section.alert, section.note { border: 1px solid #dddddd; border-radius: 0.4rem;'',
      ''      padding: 0.8rem 1rem; margin: 0.8rem 0; background: #ffffff; }'',
      ''section.note.retracted { opacity: 0.6; }'',
      ''section.note.retracted .body { text-decoration: line-through; }'',
      ''.role, .meta { color: #666666; font-size: 0.78rem; }'']"

definition quoted :: "string \<Rightarrow> string" where
  "quoted s = CHR 0x22 # s @ [CHR 0x22]"

definition term_html :: "(json \<Rightarrow> string) \<Rightarrow> string \<Rightarrow> json \<Rightarrow> string" where
  "term_html R label v = ''<dt>'' @ esc R (JStr label) @ ''</dt><dd>'' @ esc R v @ ''</dd>''"

definition head_html :: "(json \<Rightarrow> string) \<Rightarrow> bool \<Rightarrow> json \<Rightarrow> json \<Rightarrow> string list" where
  "head_html R verified hdr bundle =
     [''<!DOCTYPE html>'',
      ''<html lang='' @ quoted ''en'' @ ''>'',
      ''<head>'',
      ''<meta charset='' @ quoted ''utf-8'' @ ''>'',
      ''<meta name='' @ quoted ''viewport'' @ '' content='' @ quoted ''width=device-width, initial-scale=1'' @ ''>'',
      ''<title>Audit trail '' @ esc R (get hdr ''human_ref'') @ ''</title>'',
      ''<style>'' @ CSS @ ''</style>'',
      ''</head>'',
      ''<body>'',
      ''<header>'',
      ''<h1>Case '' @ esc R (get hdr ''human_ref'') @ ''</h1>'',
      ''<span class='' @ quoted (''badge '' @ (if verified then ''ok'' else ''bad'')) @ ''>''
        @ esc R (JStr (if verified then ''chain verified'' else ''CHAIN BROKEN'')) @ ''</span>'',
      ''<dl>'',
      term_html R ''Status'' (get hdr ''status''),
      term_html R ''Disposition'' (get hdr ''disposition''),
      term_html R ''Risk score'' (get hdr ''risk_score''),
      term_html R ''Alert count'' (get hdr ''alert_count''),
      term_html R ''Generated'' (get bundle ''generated_at''),
      ''</dl>'',
      ''</header>'']"

definition event_html :: "(json \<Rightarrow> string) \<Rightarrow> json \<Rightarrow> string list result" where
  "event_html R e =
     rbind (member e ''seq'') (\<lambda>seq. rbind (member e ''created_at'') (\<lambda>created_at.
     rbind (member e ''actor_id'') (\<lambda>actor_id. rbind (member e ''actor_role'') (\<lambda>actor_role.
     rbind (member e ''action'') (\<lambda>action. rbind (member e ''reason'') (\<lambda>reason.
     rbind (member e ''before'') (\<lambda>before. rbind (member e ''after'') (\<lambda>after.
       Inr [''<tr><td>'' @ esc R seq @ ''</td><td>'' @ esc R created_at @ ''</td><td>'' @ esc R actor_id
            @ ''<br><span class='' @ quoted ''role'' @ ''>'' @ esc R actor_role @ ''</span></td><td>'' @ esc R action
            @ ''</td><td>'' @ esc R reason @ ''</td><td><pre>'' @ json_block R before
            @ CHR 0x0A # ''&rarr;'' @ CHR 0x0A # json_block R after @ ''</pre></td></tr>'']))))))))"

definition alert_html :: "(json \<Rightarrow> string) \<Rightarrow> json \<Rightarrow> string list result" where
  "alert_html R a =
     Inr ([''<section class='' @ quoted ''alert'' @ ''>'',
           ''<h3>'' @ esc R (get a ''external_alert_id'') @ '' &mdash; '' @ esc R (get a ''source_system'') @ ''</h3>'',
           ''<dl>'']
          @ map (\<lambda>(label, key). term_html R label (get a key))
              [(''Amount'', ''amount''), (''Currency'', ''currency''), (''Direction'', ''direction''),
               (''Event time'', ''event_time''), (''Merchant'', ''merchant_name''),
               (''Customer ref'', ''customer_ref''), (''Risk score'', ''risk_score'')]
          @ [''</dl>'']
          @ (let grouping = get a ''grouping''
             in if grouping = JNull then [''<p class='' @ quoted ''meta'' @ ''>No grouping decision recorded.</p>'']
                else [''<p class='' @ quoted ''meta'' @ ''>Grouping rationale</p>'',
                      ''<pre>'' @ json_block R grouping @ ''</pre>''])
          @ [''</section>''])"

definition note_html :: "(json \<Rightarrow> string) \<Rightarrow> json \<Rightarrow> string list result" where
  "note_html R n =
     rbind (member n ''retracted'') (\<lambda>flag. rbind (member n ''created_at'') (\<lambda>created_at.
     rbind (member n ''author_id'') (\<lambda>author_id. rbind (member n ''body'') (\<lambda>body.
     rbind (if truthy flag then member n ''retraction_reason'' else Inr JNull) (\<lambda>reason.
       Inr ([''<section class='' @ quoted (if truthy flag then ''note retracted'' else ''note'') @ ''>'',
             ''<p class='' @ quoted ''meta'' @ ''>'' @ esc R created_at @ '' &mdash; '' @ esc R author_id
               @ (if truthy flag then '' (retracted)'' else []) @ ''</p>'',
             ''<p class='' @ quoted ''body'' @ ''>'' @ esc R body @ ''</p>'']
            @ (if truthy flag
               then [''<p class='' @ quoted ''meta'' @ ''>Retraction reason: '' @ esc R reason @ ''</p>''] else [])
            @ [''</section>'']))))))"

definition lines_of :: "(json \<Rightarrow> string list result) \<Rightarrow> json list \<Rightarrow> string list result" where
  "lines_of f xs = rbind (rmap f xs) (\<lambda>ls. Inr (concat ls))"

definition page_html ::
  "(json \<Rightarrow> string) \<Rightarrow> bool \<Rightarrow> json \<Rightarrow> json \<Rightarrow> string list \<Rightarrow> bool \<Rightarrow> string list \<Rightarrow> bool \<Rightarrow> string list \<Rightarrow> string list" where
  "page_html R verified hdr bundle event_lines no_alerts alert_lines no_notes note_lines =
     head_html R verified hdr bundle
     @ [''<h2>Audit events</h2>'', ''<table>'',
        ''<thead><tr><th>Seq</th><th>Time</th><th>Actor</th><th>Action</th>''
          @ ''<th>Reason</th><th>Before &rarr; After</th></tr></thead>'',
        ''<tbody>'']
     @ event_lines
     @ [''</tbody></table>'', ''<h2>Alerts</h2>'']
     @ (if no_alerts then [''<p>No alerts linked.</p>''] else [])
     @ alert_lines
     @ [''<h2>Notes</h2>'']
     @ (if no_notes then [''<p>No notes.</p>''] else [])
     @ note_lines
     @ [''</body></html>'']"

definition render_html :: "(json \<Rightarrow> string) \<Rightarrow> json \<Rightarrow> string result" where
  "render_html R bundle =
     rbind (member bundle ''case'') (\<lambda>hdr. rbind (member bundle ''chain_verified'') (\<lambda>flag.
     rbind (rbind (member bundle ''audit_events'') elements) (\<lambda>events.
     rbind (lines_of (event_html R) events) (\<lambda>event_lines.
     rbind (rbind (member bundle ''alerts'') elements) (\<lambda>alerts.
     rbind (lines_of (alert_html R) alerts) (\<lambda>alert_lines.
     rbind (rbind (member bundle ''notes'') elements) (\<lambda>notes.
     rbind (lines_of (note_html R) notes) (\<lambda>note_lines.
       Inr (join_with [CHR 0x0A]
         (page_html R (truthy flag) hdr bundle event_lines (alerts = []) alert_lines (notes = []) note_lines))))))))))"

section \<open>Escaped text\<close>

text \<open>The text of an HTML character reference, read back: the reference for \<open>html_escape\<close>.\<close>

fun html_unescape :: "string \<Rightarrow> string" where
  "html_unescape [] = []"
| "html_unescape (c # s) =
     (if c \<noteq> CHR ''&'' then c # html_unescape s
      else if take 4 s = ''amp;'' then CHR ''&'' # html_unescape (drop 4 s)
      else if take 3 s = ''lt;'' then CHR ''<'' # html_unescape (drop 3 s)
      else if take 3 s = ''gt;'' then CHR ''>'' # html_unescape (drop 3 s)
      else if take 5 s = ''quot;'' then CHR 0x22 # html_unescape (drop 5 s)
      else if take 5 s = ''#x27;'' then CHR 0x27 # html_unescape (drop 5 s)
      else c # html_unescape s)"

lemma html_escape_simps [simp]:
  "html_escape [] = []" "html_escape (c # s) = html_escape_char c @ html_escape s"
  by (simp_all add: html_escape_def)

lemma html_unescape_char: "html_unescape (html_escape_char c @ t) = c # html_unescape t"
  by (auto simp: html_escape_char_def)

lemma html_unescape_escape [simp]: "html_unescape (html_escape s) = s"
  by (induction s) (simp_all add: html_unescape_char)

lemma html_escape_chars: "set (html_escape s) \<inter> {CHR ''<'', CHR ''>'', CHR 0x22, CHR 0x27} = {}"
  by (induction s) (auto simp: html_escape_char_def)

section \<open>Tags\<close>

text \<open>The characters of a document between \<open><\<close> and \<open>>\<close>, read from inside (\<open>True\<close>) or outside a tag, and
  where the reading ends.\<close>

fun tags :: "bool \<Rightarrow> string \<Rightarrow> string" where
  "tags i [] = []"
| "tags False (c # s) = (if c = CHR ''<'' then c # tags True s else tags False s)"
| "tags True (c # s) = c # tags (c \<noteq> CHR ''>'') s"

fun inside :: "bool \<Rightarrow> string \<Rightarrow> bool" where
  "inside i [] = i"
| "inside False (c # s) = inside (c = CHR ''<'') s"
| "inside True (c # s) = inside (c \<noteq> CHR ''>'') s"

lemma tags_append: "tags i (s @ t) = tags i s @ tags (inside i s) t"
  by (induction i s rule: tags.induct) auto

lemma inside_append: "inside i (s @ t) = inside (inside i s) t"
proof (induction s arbitrary: i)
  case (Cons c s)
  then show ?case by (cases i) simp_all
qed simp

text \<open>A text outside the tags adds nothing.\<close>

definition inert :: "string \<Rightarrow> bool" where
  "inert s \<longleftrightarrow> CHR ''<'' \<notin> set s"

lemma inert_tags: "inert s \<Longrightarrow> tags False s = [] \<and> \<not> inside False s"
  by (induction s) (auto simp: inert_def)

lemma inert_append [simp]:
  "inert s \<Longrightarrow> tags False (s @ t) = tags False t" "inert s \<Longrightarrow> inside False (s @ t) = inside False t"
  by (simp_all add: tags_append inside_append inert_tags)

lemma inert_esc [simp]: "inert (esc R v)"
  using html_escape_chars by (auto simp: inert_def esc_def)

lemma inert_json_block [simp]: "inert (json_block R v)"
  by (simp add: json_block_def)

lemma inert_CSS [simp]: "inert CSS"
  by (simp add: inert_def CSS_def)

text \<open>Lines that end outside the tags.\<close>

definition closed :: "string \<Rightarrow> bool" where
  "closed s \<longleftrightarrow> \<not> inside False s"

lemma closed_join:
  assumes "list_all closed ls"
  shows "tags False (join_with [CHR 0x0A] ls) = concat (map (tags False) ls)"
  using assms
proof (induction "[CHR 0x0A]" ls rule: join_with.induct)
  case (3 t u ts)
  then show ?case by (simp add: tags_append closed_def)
qed simp_all

definition same_tags :: "string list \<Rightarrow> string list \<Rightarrow> bool" where
  "same_tags ls ms \<longleftrightarrow> list_all closed ls \<and> list_all closed ms \<and> map (tags False) ls = map (tags False) ms"

lemma same_tags_append [intro]: "same_tags ls ms \<Longrightarrow> same_tags ls' ms' \<Longrightarrow> same_tags (ls @ ls') (ms @ ms')"
  by (simp add: same_tags_def)

lemma same_tags_join:
  assumes "same_tags ls ms"
  shows "tags False (join_with [CHR 0x0A] ls) = tags False (join_with [CHR 0x0A] ms)"
  using assms by (simp add: same_tags_def closed_join)

lemma same_tags_concat: "list_all2 same_tags lss mss \<Longrightarrow> same_tags (concat lss) (concat mss)"
  by (induction lss mss rule: list_all2_induct) (auto simp: same_tags_def)

lemma same_tags_head: "same_tags (head_html R v h b) (head_html R v h' b')"
  by (simp add: same_tags_def head_html_def closed_def quoted_def term_html_def)

lemma same_tags_event: "event_html R e = Inr ls \<Longrightarrow> event_html R e' = Inr ms \<Longrightarrow> same_tags ls ms"
  by (auto simp: event_html_def result_simps same_tags_def closed_def quoted_def)

lemma same_tags_alert:
  assumes "alert_html R a = Inr ls" and "alert_html R a' = Inr ms" and "(get a ''grouping'' = JNull) = (get a' ''grouping'' = JNull)"
  shows "same_tags ls ms"
  using assms(1,2) [symmetric] assms(3) by (auto simp: alert_html_def same_tags_def closed_def quoted_def term_html_def)

lemma same_tags_note:
  assumes "note_html R n = Inr ls" and "note_html R n' = Inr ms" and "truthy (get n ''retracted'') = truthy (get n' ''retracted'')"
  shows "same_tags ls ms"
  using assms by (auto simp: note_html_def result_simps get_def same_tags_def closed_def quoted_def split: if_splits)

lemma same_tags_lines:
  assumes "lines_of f xs = Inr ls" and "lines_of f ys = Inr ms" and "map k xs = map k ys"
    and "\<And>x y lx ly. f x = Inr lx \<Longrightarrow> f y = Inr ly \<Longrightarrow> k x = k y \<Longrightarrow> same_tags lx ly"
  shows "same_tags ls ms"
proof -
  from assms(1,2) obtain lss mss where l: "list_all2 (\<lambda>x l. f x = Inr l) xs lss" "ls = concat lss"
    and m: "list_all2 (\<lambda>x l. f x = Inr l) ys mss" "ms = concat mss"
    by (auto simp: lines_of_def result_simps)
  have "list_all2 same_tags lss mss"
    unfolding list_all2_conv_all_nth
  proof (intro conjI allI impI)
    show len: "length lss = length mss"
      using l(1) m(1) map_eq_imp_length_eq [OF assms(3)] by (simp add: list_all2_lengthD [symmetric])
    fix i assume i: "i < length lss"
    have "k (xs ! i) = k (ys ! i)"
      using i l(1) m(1) len assms(3) by (metis list_all2_lengthD nth_map)
    with i l(1) m(1) len show "same_tags (lss ! i) (mss ! i)"
      by (intro assms(4) [of "xs ! i" _ "ys ! i"]) (simp_all add: list_all2_conv_all_nth)
  qed
  with l(2) m(2) same_tags_concat show ?thesis by simp
qed

text \<open>What the tags may depend on.\<close>

definition html_shape :: "json \<Rightarrow> bool \<times> nat \<times> bool list \<times> bool list" where
  "html_shape b =
     (let list_of = (\<lambda>k. case elements (get b k) of Inl e \<Rightarrow> [] | Inr xs \<Rightarrow> xs)
      in (truthy (get b ''chain_verified''), length (list_of ''audit_events''),
          map (\<lambda>a. get a ''grouping'' = JNull) (list_of ''alerts''), map (\<lambda>n. truthy (get n ''retracted'')) (list_of ''notes'')))"

lemma render_html_parts:
  assumes "render_html R b = Inr d"
  obtains h ev al no le la lo
  where "html_shape b = (truthy (get b ''chain_verified''), length ev, map (\<lambda>a. get a ''grouping'' = JNull) al,
      map (\<lambda>n. truthy (get n ''retracted'')) no)"
    and "lines_of (event_html R) ev = Inr le" "lines_of (alert_html R) al = Inr la" "lines_of (note_html R) no = Inr lo"
    and "d = join_with [CHR 0x0A] (page_html R (truthy (get b ''chain_verified'')) h b le (al = []) la (no = []) lo)"
  using assms by (auto simp: render_html_def result_simps html_shape_def get_def Let_def)

lemma same_tags_page:
  assumes "same_tags le le'" and "same_tags la la'" and "same_tags lo lo'"
  shows "same_tags (page_html R v h b le na la nn lo) (page_html R v h' b' le' na la' nn lo')"
  unfolding page_html_def
  by (intro same_tags_append same_tags_head assms) (simp_all add: same_tags_def closed_def)

section \<open>Property\<close>

text \<open>C20: whatever texts the database holds, they only appear between the tags of the exported document: two
  bundles that agree in the verdict, the number of events, which alerts have a grouping decision and which
  notes are retracted give documents with the same tags, character by character; and an escaped text reads
  back as the text itself.\<close>

theorem html_tags_fixed:
  assumes "render_html R b = Inr d" and "render_html R b' = Inr d'" and "html_shape b = html_shape b'"
  shows "tags False d = tags False d' \<and> html_unescape (esc R (JStr s)) = s"
proof
  from render_html_parts [OF assms(1)] obtain h ev al no le la lo
    where 1: "html_shape b = (truthy (get b ''chain_verified''), length ev, map (\<lambda>a. get a ''grouping'' = JNull) al,
        map (\<lambda>n. truthy (get n ''retracted'')) no)"
      "lines_of (event_html R) ev = Inr le" "lines_of (alert_html R) al = Inr la" "lines_of (note_html R) no = Inr lo"
      "d = join_with [CHR 0x0A] (page_html R (truthy (get b ''chain_verified'')) h b le (al = []) la (no = []) lo)" .
  from render_html_parts [OF assms(2)] obtain h' ev' al' no' le' la' lo'
    where 2: "html_shape b' = (truthy (get b' ''chain_verified''), length ev', map (\<lambda>a. get a ''grouping'' = JNull) al',
        map (\<lambda>n. truthy (get n ''retracted'')) no')"
      "lines_of (event_html R) ev' = Inr le'" "lines_of (alert_html R) al' = Inr la'" "lines_of (note_html R) no' = Inr lo'"
      "d' = join_with [CHR 0x0A] (page_html R (truthy (get b' ''chain_verified'')) h' b' le' (al' = []) la' (no' = []) lo')" .
  have eq: "truthy (get b ''chain_verified'') = truthy (get b' ''chain_verified'')" "map (\<lambda>_. ()) ev = map (\<lambda>_. ()) ev'"
    "map (\<lambda>a. get a ''grouping'' = JNull) al = map (\<lambda>a. get a ''grouping'' = JNull) al'"
    "map (\<lambda>n. truthy (get n ''retracted'')) no = map (\<lambda>n. truthy (get n ''retracted'')) no'"
    using assms(3) unfolding 1(1) 2(1) by (simp_all add: map_replicate_const)
  have empty: "(al = []) = (al' = [])" "(no = []) = (no' = [])"
    using arg_cong [OF eq(3), of length] arg_cong [OF eq(4), of length] by auto
  have "same_tags le le'" by (rule same_tags_lines [OF 1(2) 2(2) eq(2)]) (rule same_tags_event)
  moreover have "same_tags la la'" by (rule same_tags_lines [OF 1(3) 2(3) eq(3)]) (rule same_tags_alert)
  moreover have "same_tags lo lo'" by (rule same_tags_lines [OF 1(4) 2(4) eq(4)]) (rule same_tags_note)
  ultimately show "tags False d = tags False d'"
    unfolding 1(5) 2(5) eq(1) empty by (intro same_tags_join same_tags_page)
  show "html_unescape (esc R (JStr s)) = s" by (simp add: esc_def)
qed

definition sample_bundle :: "string \<Rightarrow> json" where
  "sample_bundle body =
     JObj [(''case'', JObj [(''human_ref'', JStr ''C-1'')]), (''alerts'', JList []),
       (''notes'', JList [JObj [(''author_id'', JStr ''u''), (''body'', JStr body), (''retracted'', JBool False),
          (''created_at'', JStr ''t'')]]),
       (''audit_events'', JList []), (''chain_verified'', JBool True)]"

lemma sample_bundle_renders: "\<exists>d. render_html R (sample_bundle body) = Inr d"
  by (simp add: render_html_def sample_bundle_def member_def elements_def lines_of_def note_html_def)

theorem html_tags_fixed_witness:
  "\<exists>d d'. render_html (\<lambda>_. []) (sample_bundle ''<script>alert(1)</script>'') = Inr d
     \<and> render_html (\<lambda>_. []) (sample_bundle []) = Inr d' \<and> tags False d = tags False d'"
proof -
  obtain d d' where d: "render_html (\<lambda>_. []) (sample_bundle ''<script>alert(1)</script>'') = Inr d"
    and d': "render_html (\<lambda>_. []) (sample_bundle []) = Inr d'" using sample_bundle_renders by metis
  have "html_shape (sample_bundle ''<script>alert(1)</script>'') = html_shape (sample_bundle [])"
    by (simp add: html_shape_def sample_bundle_def get_def member_def elements_def Let_def)
  from html_tags_fixed [OF d d' this] d d' show ?thesis by blast
qed

end
