(* ===== verification/AuditExport.thy ===== *)
theory AuditExport
  imports AuditHtml CaseService
begin

text \<open>
  \<open>build_case_audit_bundle\<close> of \<open>app/audit/export.py\<close> and the endpoint \<open>POST /cases/{id}/audit:export\<close>: the
  columns of a case, its alerts with their decisions, its notes and its audit stream as one JSON value, with
  a verdict on the chain; the export is an event of the stream itself, appended after the bundle was built.

  The results: the whole outcome of the endpoint, and exactly when its verdict agrees with
  \<open>/audit:verify\<close>.
\<close>

section \<open>Column values\<close>

text \<open>What an attribute of a mapped row can hold. A JSONB column is a Python container of scalars.\<close>

datatype column =
    CTime int
  | CUuid uuid
  | CDecimal rat
  | CDict "(string \<times> column) list"
  | CList "column list"
  | CScalar json

fun jsonable :: "platform \<Rightarrow> column \<Rightarrow> json" where
  "jsonable P (CTime t) = JStr (isoformat P t)"
| "jsonable P (CUuid u) = JStr u"
| "jsonable P (CDecimal q) = JStr (py_str P (PyDecimal q))"
| "jsonable P (CDict kvs) = JObj (map (\<lambda>(k, v). (k, jsonable P v)) kvs)"
| "jsonable P (CList vs) = JList (map (jsonable P) vs)"
| "jsonable P (CScalar j) = j"

fun jsonb :: "json \<Rightarrow> column" where
  "jsonb (JObj kvs) = CDict (map (\<lambda>(k, v). (k, jsonb v)) kvs)"
| "jsonb (JList xs) = CList (map jsonb xs)"
| "jsonb j = CScalar j"

definition nullable :: "('a \<Rightarrow> column) \<Rightarrow> 'a option \<Rightarrow> column" where
  "nullable f v = (case v of None \<Rightarrow> CScalar JNull | Some x \<Rightarrow> f x)"

abbreviation "text_col s \<equiv> CScalar (JStr s)"
abbreviation "int_col i \<equiv> CScalar (JInt i)"

definition row_json :: "platform \<Rightarrow> (string \<times> column) list \<Rightarrow> json" where
  "row_json P cols = JObj (map (\<lambda>(name, v). (name, jsonable P v)) cols)"

section \<open>The exported columns\<close>

definition CASE_FIELDS :: "case_row \<Rightarrow> (string \<times> column) list" where
  "CASE_FIELDS c =
     [(''id'', CUuid (c_id c)), (''human_ref'', text_col (c_human_ref c)), (''status'', text_col (c_status c)),
      (''disposition'', nullable text_col (c_disposition c)), (''assignee_id'', nullable CUuid (c_assignee_id c)),
      (''risk_score'', int_col (c_risk_score c)), (''alert_count'', int_col (c_alert_count c)),
      (''closed_at'', nullable CTime (c_closed_at c)),
      (''canonical_from_case_id'', nullable CUuid (c_canonical_from_case_id c)), (''version'', int_col (c_version c)),
      (''created_at'', CTime (c_created_at c)), (''updated_at'', CTime (c_updated_at c))]"

definition ALERT_FIELDS :: "alert_row \<Rightarrow> (string \<times> column) list" where
  "ALERT_FIELDS a =
     (let n = a_data a
      in [(''id'', CUuid (a_id a)), (''external_alert_id'', text_col (na_external_alert_id n)),
          (''source_system'', text_col (na_source_system n)), (''event_time'', CTime (na_event_time n)),
          (''received_at'', CTime (a_received_at a)), (''amount'', CDecimal (na_amount n)),
          (''currency'', text_col (na_currency n)), (''direction'', text_col (na_direction n)),
          (''customer_ref'', nullable text_col (na_customer_ref n)), (''account_ref'', nullable text_col (na_account_ref n)),
          (''counterparty_ref'', nullable text_col (na_counterparty_ref n)),
          (''merchant_name'', nullable text_col (na_merchant_name n)),
          (''merchant_name_normalised'', nullable text_col (na_merchant_name_normalised n)),
          (''mcc'', nullable text_col (na_mcc n)), (''device_id'', nullable text_col (na_device_id n)),
          (''session_id'', nullable text_col (na_session_id n)), (''ip_address'', nullable text_col (na_ip_address n)),
          (''risk_score'', nullable int_col (na_risk_score n)), (''rule_codes'', CList (map text_col (na_rule_codes n))),
          (''typologies'', CList (map text_col (na_typologies n))), (''case_id'', nullable CUuid (a_case_id a))])"

definition float_col :: "platform \<Rightarrow> rat \<Rightarrow> column" where
  "float_col P x = CScalar (JFloat (float_repr P x))"

definition GROUPING_FIELDS :: "platform \<Rightarrow> grouping_row \<Rightarrow> (string \<times> column) list" where
  "GROUPING_FIELDS P g =
     [(''method'', text_col (g_method g)), (''matched_rule_ids'', CList (map text_col (g_matched_rule_ids g))),
      (''similarity_score'', nullable (float_col P) (g_similarity_score g)),
      (''feature_contributions'', CDict (map (\<lambda>(k, x). (k, float_col P x)) (g_feature_contributions g))),
      (''engine_version'', text_col (g_engine_version g)), (''config_hash'', text_col (g_config_hash g))]"

definition NOTE_FIELDS :: "note_row \<Rightarrow> (string \<times> column) list" where
  "NOTE_FIELDS n =
     [(''id'', CUuid (n_id n)), (''author_id'', CUuid (n_author_id n)), (''body'', text_col (n_body n)),
      (''retracted'', CScalar (JBool (n_retracted n))),
      (''retraction_reason'', nullable text_col (n_retraction_reason n)), (''created_at'', CTime (n_created_at n))]"

definition EVENT_FIELDS :: "audit_event \<Rightarrow> (string \<times> column) list" where
  "EVENT_FIELDS e =
     [(''id'', int_col (int (ev_id e))), (''stream'', text_col (ev_stream e)), (''seq'', int_col (int (ev_seq e))),
      (''prev_hash'', text_col (ev_prev_hash e)), (''hash'', text_col (ev_hash e)),
      (''actor_id'', nullable text_col (ev_actor_id e)), (''actor_role'', nullable text_col (ev_actor_role e)),
      (''action'', text_col (ev_action e)), (''target_type'', text_col (ev_target_type e)),
      (''target_id'', text_col (ev_target_id e)), (''reason'', nullable text_col (ev_reason e)),
      (''before'', nullable jsonb (ev_before e)), (''after'', nullable jsonb (ev_after e)),
      (''correlation_id'', nullable text_col (ev_correlation_id e)), (''created_at'', CTime (ev_created_at e))]"

definition alert_entry :: "platform \<Rightarrow> alert_row \<times> grouping_row option \<Rightarrow> json" where
  "alert_entry P ad =
     (case ad of (alert, decision) \<Rightarrow>
        (case row_json P (ALERT_FIELDS alert) of
           JObj kvs \<Rightarrow> JObj (AList.update ''grouping''
             (case decision of None \<Rightarrow> JNull | Some g \<Rightarrow> row_json P (GROUPING_FIELDS P g)) kvs)
         | j \<Rightarrow> j))"

section \<open>The bundle\<close>

definition chain_verified :: "platform \<Rightarrow> state \<Rightarrow> string \<Rightarrow> bool" where
  "chain_verified P s stream =
     (let es = stream_events s stream; ok = (verify_stream P es = [])
      in if es = [] then ok
         else case find_stream s stream of
           None \<Rightarrow> ok
         | Some row \<Rightarrow> ok \<and> ev_hash (last es) = st_last_hash row \<and> length es = st_last_seq row)"

definition case_bundle :: "platform \<Rightarrow> state \<Rightarrow> case_row \<Rightarrow> int \<Rightarrow> json" where
  "case_bundle P s c generated_at =
     (let stream = case_stream (c_id c)
      in JObj
       [(''case'', row_json P (CASE_FIELDS c)),
        (''alerts'', JList (map (alert_entry P) (case_alert_rows s (c_id c)))),
        (''notes'', JList (map (\<lambda>n. row_json P (NOTE_FIELDS n))
           (sort_key (\<lambda>n. (n_created_at n, n_id n)) (filter (\<lambda>n. n_case_id n = c_id c) (case_notes s))))),
        (''audit_events'', JList (map (\<lambda>e. row_json P (EVENT_FIELDS e)) (stream_events s stream))),
        (''chain_verified'', JBool (chain_verified P s stream)),
        (''generated_at'', JStr (isoformat P generated_at))])"

definition build_case_audit_bundle :: "env \<Rightarrow> uuid \<Rightarrow> json op" where
  "build_case_audit_bundle E case_id =
     bind_op (lock_case case_id) (\<lambda>c.
     bind_op (now E) (\<lambda>t.
     read_state (\<lambda>s. case_bundle (env_platform E) s c t)))"

datatype export_response = JSONResponse json | HTMLResponse string

text \<open>The event is committed before the answer is rendered.\<close>

definition export_case_audit ::
  "env \<Rightarrow> (json \<Rightarrow> string) \<Rightarrow> uuid \<Rightarrow> string \<Rightarrow> principal \<Rightarrow> export_response op" where
  "export_case_audit E R case_id format actor =
     bind_op (in_transaction (bind_op (require_role [''analyst'', ''admin'', ''readonly''] actor) (\<lambda>_.
       bind_op (guard (format \<in> {''json'', ''html''}) (HTTPException 422 ''validation'')) (\<lambda>_.
       bind_op (catch_op assign_http (build_case_audit_bundle E case_id)) (\<lambda>bundle.
       bind_op (record_audit E (case_stream case_id) (Some actor) ''case.audit_exported'' ''case'' case_id None None
         (Some (JObj [(''format'', JStr format)]))) (\<lambda>_.
       ret bundle)))))) (\<lambda>bundle.
     if format = ''json'' then ret (JSONResponse bundle)
     else bind_op (lift_result (render_html R bundle)) (\<lambda>t. ret (HTMLResponse t)))"

section \<open>Every bundle renders\<close>

lemma jsonable_jsonb [simp]: "jsonable P (jsonb j) = j"
proof (induction j)
  case (JObj kvs)
  have "map (\<lambda>x. (fst x, jsonable P (jsonb (snd x)))) kvs = kvs"
    by (rule map_idI) (use JObj in \<open>force simp: snds.simps\<close>)
  then show ?case by (simp add: o_def case_prod_beta)
qed (simp_all add: map_idI)

lemma event_renders: "is_ok (event_html R (row_json P (EVENT_FIELDS e)))"
  by (simp add: event_html_def row_json_def EVENT_FIELDS_def member_def)

lemma note_renders: "is_ok (note_html R (row_json P (NOTE_FIELDS n)))"
  by (simp add: note_html_def row_json_def NOTE_FIELDS_def member_def)

lemma alert_renders: "is_ok (alert_html R a)"
  by (simp add: alert_html_def)

lemma lines_ok: "(\<And>x. x \<in> set xs \<Longrightarrow> is_ok (f x)) \<Longrightarrow> is_ok (lines_of f xs)"
  unfolding lines_of_def by (intro is_ok_rbind rmap_ok) simp_all

lemma bundle_renders: "is_ok (render_html R (case_bundle P s c t))"
proof -
  let ?b = "case_bundle P s c t"
  have keys: "is_ok (member ?b k)" if "k \<in> {''case'', ''chain_verified''}" for k
    using that by (auto simp: case_bundle_def member_def Let_def)
  have m: "rbind (member ?b ''audit_events'') elements = Inr (map (\<lambda>e. row_json P (EVENT_FIELDS e)) (stream_events s (case_stream (c_id c))))"
    "rbind (member ?b ''alerts'') elements = Inr (map (alert_entry P) (case_alert_rows s (c_id c)))"
    "rbind (member ?b ''notes'') elements = Inr (map (\<lambda>n. row_json P (NOTE_FIELDS n))
           (sort_key (\<lambda>n. (n_created_at n, n_id n)) (filter (\<lambda>n. n_case_id n = c_id c) (case_notes s))))"
    by (simp_all add: case_bundle_def member_def elements_def Let_def)
  show ?thesis
    unfolding render_html_def m
    by (intro is_ok_rbind keys lines_ok) (auto intro: event_renders note_renders alert_renders)
qed

section \<open>The outcome of an export\<close>

lemma case_bundle_ticks [simp]: "case_bundle P (s\<lparr> ticks := n \<rparr>) c t = case_bundle P s c t"
  by (simp add: case_bundle_def case_alert_rows_def stream_events_def chain_verified_def find_stream_def Let_def)

lemma build_bundle_run:
  "build_case_audit_bundle E i s =
     (case find_case s i of
        None \<Rightarrow> (Inl (CaseNotFound i), s)
      | Some c \<Rightarrow> (Inr (case_bundle (env_platform E) s c (utcnow E (ticks s))), s\<lparr> ticks := Suc (ticks s) \<rparr>))"
  by (simp add: build_case_audit_bundle_def bind_op_def lock_case_run now_def read_state_def split: option.split)

lemma chain_verified_written: "audit_inv P s \<Longrightarrow> chain_verified P s k"
proof -
  assume inv: "audit_inv P s"
  have ok: "verify_stream P (stream_events s k) = []"
    using chained_verify [OF stream_events_chained(2) [OF inv]] by (simp add: verify_stream_def)
  have "ev_hash (last (stream_events s k)) = st_last_hash row \<and> length (stream_events s k) = st_last_seq row"
    if "find_stream s k = Some row" "stream_events s k \<noteq> []" for row
    using find_stream_Some [OF that(1)] that(2) inv stream_events_chained(1) [OF inv, of k]
    by (auto simp: audit_inv_def Let_def tip_hash_def)
  with ok show ?thesis by (simp add: chain_verified_def split: option.split)
qed

lemma get_verdict: "get (case_bundle P s c t) ''chain_verified'' = JBool (chain_verified P s (case_stream (c_id c)))"
  by (simp add: get_def member_def case_bundle_def Let_def)

text \<open>C18: an export by anyone with a reading role answers 404 for an unknown case and changes no table.
  Otherwise it always answers, with the rows as they were: the bundle is that of the state before, its verdict
  is positive on a log only the backend has written, and the one change is an event
  \<open>case.audit_exported\<close> at the end of the stream, after the events of the bundle.\<close>

theorem export_outcome:
  assumes "audit_inv (env_platform E) s" and "request_fits E i actor"
    and "set (p_roles actor) \<inter> {''analyst'', ''admin'', ''readonly''} \<noteq> {}" and "format \<in> {''json'', ''html''}"
  shows "case find_case s i of
      None \<Rightarrow> \<exists>t. export_case_audit E R i format actor s = (Inl (HTTPException 404 ''case_not_found''), t) \<and> same_tables s t
    | Some c \<Rightarrow> \<exists>t e d. let b = case_bundle (env_platform E) s c (utcnow E (ticks s)) in
        render_html R b = Inr d
        \<and> export_case_audit E R i format actor s = (Inr (if format = ''json'' then JSONResponse b else HTMLResponse d), t)
        \<and> get b ''chain_verified'' = JBool True
        \<and> events t = events s @ [e] \<and> stream_events t (case_stream i) = stream_events s (case_stream i) @ [e]
        \<and> ev_action e = ''case.audit_exported'' \<and> ev_actor_id e = Some (p_user_id actor)
        \<and> ev_after e = Some (JObj [(''format'', JStr format)])
        \<and> cases t = cases s \<and> case_notes t = case_notes s \<and> alerts t = alerts s \<and> links t = links s
        \<and> audit_inv (env_platform E) t"
proof (cases "find_case s i")
  case None
  then show ?thesis using assms(3,4)
    by (auto simp: export_case_audit_def bind_op_def in_transaction_def run_simps catch_op_def build_bundle_run
        same_tables_def Int_commute)
next
  case (Some c)
  let ?P = "env_platform E" and ?s = "s\<lparr> ticks := Suc (ticks s) \<rparr>"
  define b where "b = case_bundle ?P s c (utcnow E (ticks s))"
  let ?audit = "record_audit E (case_stream i) (Some actor) ''case.audit_exported'' ''case'' i None None
      (Some (JObj [(''format'', JStr format)])) ?s"
  have inv: "audit_inv ?P ?s" using assms(1) by simp
  have "fits 100 ''case.audit_exported''" "fits 100 ''case''" "fits 255 i"
    using assms(2) by (simp_all add: fits_def request_fits_def case_stream_def)
  with record_audit_reason [OF inv assms(2), of "''case.audit_exported''" "''case''" i None None "Some (JObj [(''format'', JStr format)])"]
  obtain e t where audit: "?audit = (Inr e, t)" by auto
  note frame = record_audit_frame [OF audit inv] and res = record_audit_inv [OF audit inv]
    and str = record_audit_streams [OF audit inv, of "case_stream i"]
  obtain d where d: "render_html R b = Inr d" unfolding b_def by (rule is_okE [OF bundle_renders])
  have "export_case_audit E R i format actor s = (Inr (if format = ''json'' then JSONResponse b else HTMLResponse d), t)"
    using assms(3,4) Some audit d
    by (auto simp: export_case_audit_def bind_op_def in_transaction_def run_simps catch_op_def build_bundle_run
        lift_result_def b_def Int_commute)
  moreover have "get b ''chain_verified'' = JBool True" by (simp add: b_def get_verdict chain_verified_written [OF assms(1)])
  moreover have "stream_events t (case_stream i) = stream_events s (case_stream i) @ [e]"
    using str by (simp add: stream_events_def)
  moreover have "events t = events s @ [e]" "cases t = cases s" "case_notes t = case_notes s" "alerts t = alerts s" "links t = links s"
    "audit_inv ?P t" using frame by simp_all
  moreover have "ev_action e = ''case.audit_exported''" "ev_actor_id e = Some (p_user_id actor)"
    "ev_after e = Some (JObj [(''format'', JStr format)])" using res by simp_all
  ultimately show ?thesis
    unfolding Some option.case Let_def b_def [symmetric] using d by blast
qed

text \<open>What an export may change, whoever asks and whatever comes out.\<close>

lemma export_frame:
  assumes "export_case_audit E R i format actor s = (r, t)" and "audit_inv (env_platform E) s"
  shows "users t = users s" "alerts t = alerts s" "cases t = cases s" "links t = links s" "case_notes t = case_notes s"
    "groupings t = groupings s" "prefix (events s) (events t)" "audit_inv (env_platform E) t"
proof -
  let ?m = "in_transaction (bind_op (require_role [''analyst'', ''admin'', ''readonly''] actor) (\<lambda>_.
       bind_op (guard (format \<in> {''json'', ''html''}) (HTTPException 422 ''validation'')) (\<lambda>_.
       bind_op (catch_op assign_http (build_case_audit_bundle E i)) (\<lambda>bundle.
       bind_op (record_audit E (case_stream i) (Some actor) ''case.audit_exported'' ''case'' i None None
         (Some (JObj [(''format'', JStr format)]))) (\<lambda>_.
       ret bundle)))))"
  obtain q where m: "?m s = (q, t)"
    using assms(1) by (auto simp: export_case_audit_def bind_op_apply lift_result_def ret_def split: prod.splits sum.splits if_splits)
  have frame: "users t = users s \<and> alerts t = alerts s \<and> cases t = cases s \<and> links t = links s \<and> case_notes t = case_notes s
      \<and> groupings t = groupings s \<and> prefix (events s) (events t) \<and> audit_inv (env_platform E) t"
  proof (cases q)
    case (Inl x)
    with m in_transaction_same_tables have "same_tables s t" by blast
    with assms(2) show ?thesis by (simp add: same_tables_def audit_inv_def)
  next
    case (Inr b)
    with m obtain u e where b: "build_case_audit_bundle E i s = (Inr b, u)"
      and audit: "record_audit E (case_stream i) (Some actor) ''case.audit_exported'' ''case'' i None None
         (Some (JObj [(''format'', JStr format)])) u = (Inr e, t)"
      by (auto simp: op_simps require_role_def)
    from b have u: "u = s\<lparr> ticks := Suc (ticks s) \<rparr>" by (auto simp: build_bundle_run split: option.splits)
    with assms(2) have "audit_inv (env_platform E) u" by simp
    from record_audit_frame [OF audit this] show ?thesis by (simp add: u)
  qed
  then show "users t = users s" "alerts t = alerts s" "cases t = cases s" "links t = links s" "case_notes t = case_notes s"
    "groupings t = groupings s" "prefix (events s) (events t)" "audit_inv (env_platform E) t" by blast+
qed

section \<open>The verdict\<close>

definition reported :: "env \<Rightarrow> state \<Rightarrow> string \<Rightarrow> bool" where
  "reported E s k \<longleftrightarrow> k \<in> bs_stream ` set (snd (verify_audit E s))"

lemma check_stream_names: "bs_stream ` set (check_stream P s row) = (if check_stream P s row = [] then {} else {st_stream row})"
  by (simp add: check_stream_def Let_def)

lemma stream_events_Nil: "stream_events s k = [] \<longleftrightarrow> k \<notin> ev_stream ` set (events s)"
proof
  assume none: "stream_events s k = []"
  have "set (stream_events s k) = {e \<in> set (events s). ev_stream e = k}" by (auto simp: stream_events_def)
  then have "{e \<in> set (events s). ev_stream e = k} = {}" unfolding none by simp
  then show "k \<notin> ev_stream ` set (events s)" by blast
qed (rule stream_events_empty)

lemma reported_iff:
  assumes "distinct (map st_stream (streams s))"
  shows "reported E s k \<longleftrightarrow>
    (case find_stream s k of Some row \<Rightarrow> check_stream (env_platform E) s row \<noteq> [] | None \<Rightarrow> stream_events s k \<noteq> [])"
proof -
  have orphan: "k \<in> set (orphan_streams s) \<longleftrightarrow> find_stream s k = None \<and> stream_events s k \<noteq> []"
    by (auto simp: orphan_streams_def find_stream_None stream_events_Nil)
  have "reported E s k \<longleftrightarrow> (\<exists>row \<in> set (streams s). st_stream row = k \<and> check_stream (env_platform E) s row \<noteq> [])
      \<or> k \<in> set (orphan_streams s)"
    by (auto simp: reported_def verify_audit_def Let_def image_Un image_UN image_image check_stream_names split: if_splits)
  moreover have "(\<exists>row \<in> set (streams s). st_stream row = k \<and> check_stream (env_platform E) s row \<noteq> [])
      \<longleftrightarrow> (\<exists>row. find_stream s k = Some row \<and> check_stream (env_platform E) s row \<noteq> [])"
  proof -
    have "row = row'" if "row \<in> set (streams s)" "st_stream row = k" "find_stream s k = Some row'" for row row'
      using that find_stream_Some [OF that(3)] assms by (auto simp: distinct_map inj_on_def)
    then show ?thesis
      using find_stream_Some [of s k] find_stream_None [of s k] by (metis imageI option.exhaust)
  qed
  ultimately show ?thesis using orphan by (auto split: option.split)
qed

text \<open>C19: the verdict of an export and \<open>/audit:verify\<close> agree on a stream except in two cases, where the export
  says that the chain is verified although the endpoint reports the stream: all its events are gone, or its tip
  row is gone and the events chain from the genesis hash.\<close>

theorem export_verdict:
  assumes "distinct (map st_stream (streams s))"
  shows "chain_verified (env_platform E) s k = (\<not> reported E s k
    \<or> stream_events s k = []
    \<or> find_stream s k = None \<and> verify_stream (env_platform E) (stream_events s k) = [])"
proof (cases "find_stream s k")
  case None
  then show ?thesis by (auto simp: reported_iff [OF assms] chain_verified_def Let_def verify_stream_def)
next
  case (Some row)
  then show ?thesis using find_stream_Some [OF Some]
    by (auto simp: reported_iff [OF assms] chain_verified_def check_stream_def Let_def verify_stream_def)
qed

text \<open>A stream of one event, and the same database after the event was deleted.\<close>

theorem export_verdict_witness:
  "\<exists>s. chain_verified (env_platform sample_env) s ''case:1'' \<and> reported sample_env s ''case:1''"
proof -
  define s where "s = empty_state\<lparr> streams := [\<lparr> st_stream = ''case:1'', st_last_seq = 1, st_last_hash = ''h'' \<rparr>] \<rparr>"
  have d: "distinct (map st_stream (streams s))" by (simp add: s_def)
  have empty: "stream_events s ''case:1'' = []" by (simp add: s_def stream_events_def empty_state_def)
  have "find_stream s ''case:1'' = Some \<lparr> st_stream = ''case:1'', st_last_seq = 1, st_last_hash = ''h'' \<rparr>"
    by (simp add: s_def find_stream_def)
  then have "reported sample_env s ''case:1''" by (simp add: reported_iff [OF d] check_stream_def empty verify_stream_def)
  moreover have "chain_verified (env_platform sample_env) s ''case:1''" using export_verdict [OF d] empty by blast
  ultimately show ?thesis by blast
qed

theorem export_outcome_witness:
  "\<exists>c t b. export_case_audit sample_env (\<lambda>_. []) ''c'' ''json'' \<lparr> p_user_id = ''u'', p_email = ''e'', p_roles = [''readonly''] \<rparr>
     (empty_state\<lparr> cases := [c] \<rparr>) = (Inr (JSONResponse b), t) \<and> length (events t) = 1"
proof -
  define c where "c = \<lparr> c_id = ''c'', c_human_ref = ''C-1'', c_status = ''Open'', c_disposition = None, c_assignee_id = None,
    c_risk_score = 0, c_alert_count = 0, c_closed_at = None, c_canonical_from_case_id = None, c_version = 1,
    c_created_at = 0, c_updated_at = 0 \<rparr>"
  let ?s = "empty_state\<lparr> cases := [c] \<rparr>" and ?a = "\<lparr> p_user_id = ''u'', p_email = ''e'', p_roles = [''readonly''] \<rparr>"
  have find: "find_case ?s ''c'' = Some c" by (simp add: find_case_def c_def)
  have inv: "audit_inv (env_platform sample_env) ?s" using audit_inv_empty by simp
  have ok: "request_fits sample_env ''c'' ?a" "set (p_roles ?a) \<inter> {''analyst'', ''admin'', ''readonly''} \<noteq> {}" "''json'' \<in> {''json'', ''html''}"
    by (simp_all add: request_fits_def fits_def case_stream_def actor_roles_text_def sample_env_def)
  have "events ?s = []" by (simp add: empty_state_def)
  with export_outcome [OF inv ok, of "\<lambda>_. []"] obtain t e b where
    "export_case_audit sample_env (\<lambda>_. []) ''c'' ''json'' ?a ?s = (Inr (JSONResponse b), t)" "events t = [e]"
    by (auto simp: find Let_def)
  then show ?thesis by (intro exI [of _ c] exI [of _ t] exI [of _ b]) simp
qed

end
