(* ===== verification/Service.thy ===== *)
theory Service
  imports IngestionRoutes History AuditExport
begin

text \<open>
  The backend as a state machine: one step is one served request or one run of the worker job, with its
  own clock, transaction time, UUIDs and Redis. The locale \<open>service\<close> states what a sequence of steps
  needs of a single one, and its interpretation on \<open>served\<close> is where the contracts of the endpoints
  come together: an invariant of the whole database, and a preorder of what is never lost. Histories are serial.
\<close>

section \<open>Case mutations and the books\<close>

lemma live_book:
  assumes "book_inv cfg s" and "cases t = cases s" and "links t = links s" and "alerts t = alerts s" and "groupings t = groupings s"
    and "\<forall>n \<in> set (case_notes t). live s (n_case_id n)"
  shows "book_inv cfg t"
  using assms by (simp add: book_defs cases_inv_def)

lemma logged_system_inv:
  assumes "logged E s t i action before after" and "system_inv E s" and "book_inv (env_config E) t"
  shows "system_inv E t"
  using assms by (simp add: logged_def system_inv_def amounts_ok_def unique_identity_def)

lemma stored_system_inv:
  assumes log: "logged E s t i action before after" and inv: "system_inv E s" and c: "find_case s i = Some c"
    and keep: "c_id c' = c_id c" "c_human_ref c' = c_human_ref c" "c_created_at c' = c_created_at c"
      "c_alert_count c' = c_alert_count c" "c_risk_score c' = c_risk_score c"
    and st: "c_status c \<noteq> ''Merged''" "c_status c' \<noteq> ''Merged''"
    and ok: "case_ok (dispositions (env_config E)) c'"
    and t: "cases t = stored E c' (cases s)" "case_notes t = case_notes s"
  shows "system_inv E t"
proof -
  have book: "book_inv (env_config E) s" using inv by (simp add: system_inv_def)
  have mem: "c \<in> set (cases s)" using find_case_Some [OF c] by simp
  have nts: "\<forall>n \<in> set (case_notes t). live s (n_case_id n)" using book t(2) by (simp add: book_upto_def attached_ok_def)
  have frame: "links t = links s" "alerts t = alerts s" "groupings t = groupings s" using log by (simp_all add: logged_def)
  have agg: "c_id c \<in> {} \<or> c_alert_count c' = c_alert_count c \<and> c_risk_score c' = c_risk_score c" using keep by simp
  from stored_live_book(1) [OF book mem keep(1-3) st t(1) frame nts ok agg] show ?thesis
    by (rule logged_system_inv [OF log inv])
qed

text \<open>What a case mutation leaves of the case rows: every id, and every merged row as it is.\<close>

definition cases_kept :: "state \<Rightarrow> state \<Rightarrow> bool" where
  "cases_kept s t \<longleftrightarrow>
     (\<forall>c \<in> set (cases s). c_id c \<in> c_id ` set (cases t) \<and> (c_status c = ''Merged'' \<longrightarrow> c \<in> set (cases t)))"

lemma cases_kept_same: "cases t = cases s \<Longrightarrow> cases_kept s t"
  by (simp add: cases_kept_def)

lemma cases_kept_trans: "cases_kept s t \<Longrightarrow> cases_kept t u \<Longrightarrow> cases_kept s u"
  unfolding cases_kept_def by (metis imageE)

lemma cases_kept_stored:
  assumes "find_case s i = Some c" and "c_status c \<noteq> ''Merged''" and "c_id c' = c_id c" and "distinct (map c_id (cases s))"
    and "cases t = stored E c' (cases s)"
  shows "cases_kept s t"
  unfolding cases_kept_def
proof (intro ballI conjI impI)
  fix d assume d: "d \<in> set (cases s)"
  have "map c_id (cases t) = map c_id (cases s)" by (simp add: assms(5) stored_ids)
  then have "c_id ` set (cases t) = c_id ` set (cases s)" by (metis set_map)
  with d show "c_id d \<in> c_id ` set (cases t)" by blast
  assume "c_status d = ''Merged''"
  with assms(2) have "d \<noteq> c" by auto
  then have "c_id d \<noteq> c_id c'"
    using d find_case_Some [OF assms(1)] assms(3,4) by (auto simp: distinct_map inj_on_def)
  with d show "d \<in> set (cases t)" unfolding assms(5) stored_def set_update_where by (intro bexI [of _ d]) simp_all
qed

lemma transition_step:
  assumes "transition_case_endpoint E i target reason d actor v s = (r, t)" and "system_inv E s"
  shows "system_inv E t \<and> cases_kept s t \<and> membership t = membership s"
proof (cases r)
  case (Inl e)
  with assms(1) have "same_tables s t" by (auto simp: transition_case_endpoint_def dest: in_transaction_same_tables)
  with assms(2) show ?thesis by (simp add: system_inv_tables) (simp add: same_tables_def cases_kept_same membership_def fun_eq_iff)
next
  case (Inr x)
  have inv: "audit_inv (env_platform E) s" "cases_inv (dispositions (env_config E)) s"
    using assms(2) by (simp_all add: system_inv_def book_upto_def)
  from transition_endpoint_Inr [OF assms(1) [unfolded Inr]] obtain c1 t1
    where "transition_case E i target reason d actor v s = (Inr c1, t1)" "reload_case c1 t1 = (Inr x, t)"
    by blast
  then have run: "transition_case E i target reason d actor v s = (Inr c1, t)" using reload_case_Inr by blast
  from transition_case_Inr [OF run inv(1)] obtain c time where c: "find_case s i = Some c"
    and val: "validate_transition (c_status c) target d (dispositions (env_config E)) = Inr ()"
    and c1: "c1 = moved c target d time" and t: "cases t = stored E c1 (cases s)" "case_notes t = case_notes s"
    and log: "logged E s t i ''case.transitioned''
         (Some (status_json (c_status c) (c_disposition c))) (Some (status_json (c_status c1) (c_disposition c1)))"
    by blast
  have "target \<in> set (reachable_from (c_status c))" using val by (simp add: validate_transition_Inr)
  then have st: "c_status c \<noteq> ''Merged''" "c_status c1 \<noteq> ''Merged''"
    by (auto simp: reachable_from_cases c1 moved_def)
  have ok: "case_ok (dispositions (env_config E)) c"
    using inv(2) find_case_Some [OF c] by (simp add: cases_inv_def)
  have keep: "c_id c1 = c_id c" "c_human_ref c1 = c_human_ref c" "c_created_at c1 = c_created_at c"
    "c_alert_count c1 = c_alert_count c" "c_risk_score c1 = c_risk_score c"
    by (simp_all add: c1 moved_def)
  from stored_system_inv [OF log assms(2) c keep st moved_ok [OF ok val, of time, folded c1] t]
    cases_kept_stored [OF c st(1) keep(1) _ t(1)] inv(2)
  show ?thesis using log by (simp add: cases_inv_def logged_def membership_def fun_eq_iff)
qed

lemma endpoint_Inr:
  assumes "in_transaction (bind_op (require_role rs actor) (\<lambda>_. bind_op (catch_op h m) reload_case)) s = (Inr x, t)"
  shows "\<exists>c. m s = (Inr c, t)"
  using assms by (auto simp: op_simps require_role_def dest!: reload_case_Inr)

lemma assign_step:
  assumes "assign_case_endpoint E i u actor s = (r, t)" and "system_inv E s"
  shows "system_inv E t \<and> cases_kept s t \<and> membership t = membership s"
proof (cases r)
  case (Inl e)
  with assms(1) have "same_tables s t" by (auto simp: assign_case_endpoint_def dest: in_transaction_same_tables)
  with assms(2) show ?thesis by (simp add: system_inv_tables) (simp add: same_tables_def cases_kept_same membership_def fun_eq_iff)
next
  case (Inr x)
  have inv: "audit_inv (env_platform E) s" "cases_inv (dispositions (env_config E)) s"
    using assms(2) by (simp_all add: system_inv_def book_upto_def)
  from endpoint_Inr [OF assms(1) [unfolded assign_case_endpoint_def Inr]] obtain c1
    where run: "assign_case E i u actor s = (Inr c1, t)" by blast
  from assign_case_Inr [OF run inv(1)] obtain c where c: "find_case s i = Some c" "c_status c \<noteq> ''Merged''"
    and c1: "c1 = c\<lparr> c_assignee_id := u, c_version := c_version c + 1 \<rparr>"
    and t: "cases t = stored E c1 (cases s)" "case_notes t = case_notes s"
    and log: "logged E s t i ''case.assigned'' (Some (assignee_json (c_assignee_id c))) (Some (assignee_json u))" by blast
  have ok: "case_ok (dispositions (env_config E)) c1"
    using inv(2) find_case_Some [OF c(1)] by (auto simp: cases_inv_def case_ok_def c1)
  have keep: "c_id c1 = c_id c" "c_human_ref c1 = c_human_ref c" "c_created_at c1 = c_created_at c"
    "c_alert_count c1 = c_alert_count c" "c_risk_score c1 = c_risk_score c" "c_status c1 \<noteq> ''Merged''"
    using c(2) by (simp_all add: c1)
  from stored_system_inv [OF log assms(2) c(1) keep(1-5) c(2) keep(6) ok t]
    cases_kept_stored [OF c keep(1) _ t(1)] inv(2)
  show ?thesis using log by (simp add: cases_inv_def logged_def membership_def fun_eq_iff)
qed

lemma add_note_step:
  assumes "add_note_endpoint E i body actor s = (r, t)" and "system_inv E s"
  shows "system_inv E t \<and> cases_kept s t \<and> membership t = membership s
    \<and> (distinct (map n_id (case_notes s)) \<longrightarrow> distinct (map n_id (case_notes t)))"
proof (cases r)
  case (Inl e)
  with assms(1) have "same_tables s t" by (auto simp: add_note_endpoint_def dest: in_transaction_same_tables)
  with assms(2) show ?thesis by (simp add: system_inv_tables) (simp add: same_tables_def cases_kept_same membership_def fun_eq_iff)
next
  case (Inr n)
  have inv: "audit_inv (env_platform E) s" "book_inv (env_config E) s" using assms(2) by (simp_all add: system_inv_def)
  from assms(1) Inr have run: "add_note E i body actor s = (Inr n, t)"
    by (auto simp: add_note_endpoint_def op_simps require_role_def)
  from add_note_Inr [OF run inv(1)] obtain c where c: "find_case s i = Some c" "c_status c \<noteq> ''Merged''"
    and n: "n = new_note E (new_uuid E (uuids s)) i actor body" "n_id n \<notin> n_id ` set (case_notes s)"
    and t: "cases t = cases s" "case_notes t = case_notes s @ [n]"
    and log: "logged E s t i ''case.note_added'' None (Some (JObj [(''note_id'', JStr (n_id n)), (''excerpt'', JStr (take 120 body))]))"
    by blast
  have "live s (n_case_id n)" using find_case_Some [OF c(1)] c(2) by (auto simp: live_def n(1) new_note_def)
  then have nts: "\<forall>m \<in> set (case_notes t). live s (n_case_id m)"
    using inv(2) by (auto simp: t book_upto_def attached_ok_def)
  have frame: "links t = links s" "alerts t = alerts s" "groupings t = groupings s" using log by (simp_all add: logged_def)
  from logged_system_inv [OF log assms(2) live_book [OF inv(2) t(1) frame nts]] n(2) frame t
  show ?thesis by (simp add: cases_kept_same membership_def fun_eq_iff)
qed

lemma retract_note_step:
  assumes "retract_note_endpoint E i n_id' reason actor s = (r, t)" and "system_inv E s" and "distinct (map n_id (case_notes s))"
  shows "system_inv E t \<and> cases_kept s t \<and> membership t = membership s \<and> grows s t \<and> distinct (map n_id (case_notes t))"
proof (cases r)
  case (Inl e)
  with assms(1) have st: "same_tables s t" by (auto simp: retract_note_endpoint_def dest: in_transaction_same_tables)
  with assms(2,3) grows_same_tables [OF st] show ?thesis
    by (simp add: system_inv_tables) (simp add: same_tables_def cases_kept_same membership_def fun_eq_iff)
next
  case (Inr n')
  have inv: "audit_inv (env_platform E) s" "book_inv (env_config E) s" using assms(2) by (simp_all add: system_inv_def)
  from assms(1) Inr have run: "retract_note E n_id' reason actor s = (Inr n', t)"
    by (auto simp: retract_note_endpoint_def op_simps require_role_def)
  from retract_note_Inr [OF run inv(1)] obtain n where n: "find_note s n_id' = Some n" and t: "cases t = cases s"
    and res: "if n_retracted n then t = s \<and> n' = n
        else n' = retracted n reason
          \<and> case_notes t = update_where (\<lambda>r. n_id r = n_id') (\<lambda>_. n') (case_notes s)
          \<and> logged E s t (n_case_id n) ''case.note_retracted''
               (Some (JObj [(''retracted'', JBool False)])) (Some (JObj [(''retracted'', JBool True)]))" by blast
  show ?thesis
  proof (cases "n_retracted n")
    case True
    with res assms(2,3) show ?thesis by (simp add: cases_kept_same grows_refl)
  next
    case False
    with res have n': "n' = retracted n reason"
      and nt: "case_notes t = update_where (\<lambda>r. n_id r = n_id') (\<lambda>_. n') (case_notes s)"
      and log: "logged E s t (n_case_id n) ''case.note_retracted''
               (Some (JObj [(''retracted'', JBool False)])) (Some (JObj [(''retracted'', JBool True)]))" by simp_all
    note mem = find_note_Some [OF n]
    have only: "m = n" if "m \<in> set (case_notes s)" "n_id m = n_id'" for m
      using that mem assms(3) by (auto simp: distinct_map inj_on_def)
    have frame: "links t = links s" "alerts t = alerts s" "groupings t = groupings s" "users t = users s"
      "prefix (events s) (events t)" using log by (auto simp: logged_def)
    have "live s (n_case_id n')" using inv(2) mem by (simp add: book_upto_def attached_ok_def n' retracted_def)
    then have nts: "\<forall>m \<in> set (case_notes t). live s (n_case_id m)"
      using inv(2) by (auto simp: nt set_update_where book_upto_def attached_ok_def)
    have "notes_kept s t"
      unfolding notes_kept_def
    proof
      fix m assume m: "m \<in> set (case_notes s)"
      show "\<exists>k \<in> set (case_notes t). keeps_note m k"
      proof (cases "n_id m = n_id'")
        case True
        have "keeps_note m n'" using only [OF m True] False by (simp add: keeps_note_def n' retracted_def)
        moreover have "n' \<in> set (case_notes t)" using m True by (auto simp: nt set_update_where)
        ultimately show ?thesis by blast
      next
        case other: False
        then have "m \<in> set (case_notes t)" using m by (auto simp: nt set_update_where)
        then show ?thesis by (blast intro: keeps_note_refl)
      qed
    qed
    moreover have "alert_data t = alert_data s" using frame by (simp add: alert_data_def)
    moreover have "map n_id (case_notes t) = map n_id (case_notes s)"
      using mem by (simp add: nt n' retracted_def map_update_where)
    ultimately show ?thesis
      using logged_system_inv [OF log assms(2) live_book [OF inv(2) t frame(1-3) nts]] frame t assms(3)
      by (simp add: cases_kept_same membership_def grows_def fun_eq_iff)
  qed
qed

section \<open>Grouping and ingestion\<close>

lemma grouping_cases_kept:
  assumes "apply_grouping E a label s = (Inr (w, g), t)" and "system_inv E s"
  shows "cases_kept s t"
proof -
  have inv: "audit_inv (env_platform E) s" "book_inv (env_config E) s" using assms(2) by (simp_all add: system_inv_def)
  from apply_grouping_Inr [OF assms(1) inv] obtain ids v
    where book: "book_inv (env_config E) t" and w: "c_id w = c_id v"
      and res: "let os = matched_open E s ids
       in (if os = [] then c_id v \<notin> c_id ` set (cases s) else v \<in> set os \<and> (\<forall>c \<in> set os. case_age v \<le> case_age c))
          \<and> (\<forall>c \<in> set (cases s). c \<notin> set os \<longrightarrow> c \<in> set (cases t))
          \<and> (\<forall>c \<in> set os. c_id c \<noteq> c_id v \<longrightarrow> merged_in E v c t)
          \<and> membership t = (\<lambda>x. if membership s x \<in> (Some \<circ> c_id) ` set os then Some (c_id v) else membership s x)
              (a_id a \<mapsto> c_id v)" by blast
  let ?os = "matched_open E s ids"
  have stay: "\<forall>c \<in> set (cases s). c \<notin> set ?os \<longrightarrow> c \<in> set (cases t)"
    and gone: "\<forall>c \<in> set ?os. c_id c \<noteq> c_id v \<longrightarrow> merged_in E v c t"
    and mem: "membership t (a_id a) = Some (c_id v)" using res by (simp_all add: Let_def)
  obtain b where b: "b \<in> set (alerts t)" "a_id b = a_id a" "a_case_id b = Some (c_id v)"
    using mem by (auto simp: membership_def split: option.splits dest: find_key_Some)
  have "live t (c_id v)" using book b by (auto simp: book_upto_def attached_ok_def)
  then have v: "c_id v \<in> c_id ` set (cases t)" unfolding live_def by (metis imageI)
  show ?thesis
    unfolding cases_kept_def
  proof (intro ballI conjI impI)
    fix c assume c: "c \<in> set (cases s)"
    show "c_id c \<in> c_id ` set (cases t)"
    proof (cases "c \<in> set ?os \<and> c_id c \<noteq> c_id v")
      case True
      with gone have "(merged_row v c)\<lparr> c_updated_at := txn_now E \<rparr> \<in> set (cases t)" by (simp add: merged_in_def)
      then show ?thesis by (rule rev_image_eqI) simp
    next
      case False
      with c stay v show ?thesis by (cases "c \<in> set ?os") auto
    qed
    assume "c_status c = ''Merged''"
    then have "c \<notin> set ?os" by (simp add: matched_open_def open_case_def)
    with c stay show "c \<in> set (cases t)" by blast
  qed
qed

definition past_kept :: "state \<Rightarrow> state \<Rightarrow> bool" where
  "past_kept s t \<longleftrightarrow> grows s t \<and> cases_kept s t \<and> (\<forall>x. membership s x \<noteq> None \<longrightarrow> membership t x \<noteq> None)"

definition service_inv :: "platform \<Rightarrow> grouping_config \<Rightarrow> state \<Rightarrow> bool" where
  "service_inv P cfg s \<longleftrightarrow>
     audit_inv P s \<and> book_inv cfg s \<and> amounts_ok s \<and> unique_identity s \<and> distinct (map n_id (case_notes s))"

lemma service_inv_system:
  "env_platform E = P \<Longrightarrow> env_config E = cfg \<Longrightarrow>
    service_inv P cfg s \<longleftrightarrow> system_inv E s \<and> distinct (map n_id (case_notes s))"
  by (auto simp: service_inv_def system_inv_def)

lemma past_refl: "past_kept s s"
  by (simp add: past_kept_def grows_refl cases_kept_same)

lemma past_trans: "past_kept s t \<Longrightarrow> past_kept t u \<Longrightarrow> past_kept s u"
  unfolding past_kept_def by (blast intro: grows_trans cases_kept_trans)

lemma past_same_tables: "same_tables s t \<Longrightarrow> past_kept s t"
  using grows_same_tables [of s t] by (simp add: past_kept_def same_tables_def cases_kept_same membership_def)

lemma service_inv_same_tables: "same_tables s t \<Longrightarrow> service_inv P cfg t = service_inv P cfg s"
  by (simp add: service_inv_def same_tables_def audit_inv_def book_defs cases_inv_def amounts_ok_def unique_identity_def)

lemma find_appended: "List.find p xs \<noteq> None \<Longrightarrow> List.find p (xs @ ys) = List.find p xs"
  by (induction xs) auto

lemma insert_kept:
  assumes "insert_alert_or_existing E p k s = (Inr (a, created), t)"
  shows "cases_kept s t \<and> (\<forall>x. membership s x \<noteq> None \<longrightarrow> membership t x \<noteq> None)"
proof -
  from insert_Inr [OF assms] obtain rows where t: "cases t = cases s" "alerts t = alerts s @ rows"
    by (cases created) auto
  have "membership t x = membership s x" if "membership s x \<noteq> None" for x
    using that find_appended [of "\<lambda>a. a_id a = x" "alerts s" rows]
    by (auto simp: membership_def t split: option.splits)
  then show ?thesis using t by (simp add: cases_kept_same)
qed

lemma audit_ingested_kept:
  assumes "audit_ingested E a k label s = (Inr u, t)" and "audit_inv (env_platform E) s"
  shows "cases_kept s t" and "membership t = membership s"
proof -
  note same = audit_ingested_Inr(2) [OF assms]
  show "cases_kept s t" using same by (intro cases_kept_same) (simp add: same_book_def)
  show "membership t = membership s" using same by (rule same_book_membership)
qed

lemma ingest_one_kept:
  assumes "ingest_one E p k label key s = (Inr (out, created), t)" and "system_inv E s" and "0 \<le> in_amount p"
  shows "past_kept s t"
proof -
  from assms(1) obtain a s1 where ins: "insert_alert_or_existing E p k s = (Inr (a, created), s1)"
    by (auto simp: ingest_one_def op_simps Let_def split: if_splits)
  note inv1 = insert_system_inv(1) [OF ins assms(2,3)] and k1 = insert_kept [OF ins]
  have "cases_kept s1 t \<and> (\<forall>x. membership s1 x \<noteq> None \<longrightarrow> membership t x \<noteq> None)"
  proof (cases created)
    case False
    with assms(1) ins have "t = s1\<lparr> ingested_duplicate := Suc (ingested_duplicate s1) \<rparr>"
      by (auto simp: ingest_one_def op_simps)
    then show ?thesis by (simp add: cases_kept_same membership_counters)
  next
    case True
    with assms(1) ins obtain c g s2 s3 where gr: "apply_grouping E a label s1 = (Inr (c, g), s2)"
      and au: "audit_ingested E (a\<lparr> a_case_id := Some (c_id c) \<rparr>) key label s2 = (Inr (), s3)"
      and t: "t = s3\<lparr> ingested_created := Suc (ingested_created s3) \<rparr>"
      by (auto simp: ingest_one_def op_simps Let_def)
    have "audit_inv (env_platform E) s2" using apply_grouping_system(1) [OF gr inv1] by (simp add: system_inv_def)
    note k3 = audit_ingested_kept [OF au this]
    have "cases_kept s3 t" by (simp add: t cases_kept_same)
    then have "cases_kept s1 t" using cases_kept_trans [OF grouping_cases_kept [OF gr inv1] cases_kept_trans [OF k3(1)]] by blast
    moreover have "membership t = membership s2" by (simp add: t membership_counters k3(2))
    ultimately show ?thesis using apply_grouping_system(4) [OF gr inv1] by simp
  qed
  with k1 have "cases_kept s t" "\<forall>x. membership s x \<noteq> None \<longrightarrow> membership t x \<noteq> None"
    using cases_kept_trans by blast+
  then show ?thesis using history.safeD [OF history_ingestion(1) assms(1)] by (simp add: past_kept_def)
qed

lemma persist_kept:
  assumes "persist_alert_only E p k label key s = (Inr (i, created), t)" and "system_inv E s" and "0 \<le> in_amount p"
  shows "past_kept s t"
proof -
  from assms(1) obtain a s1 where ins: "insert_alert_or_existing E p k s = (Inr (a, created), s1)"
    by (auto simp: persist_alert_only_def op_simps Let_def split: if_splits)
  note inv1 = insert_system_inv(1) [OF ins assms(2,3)] and k1 = insert_kept [OF ins]
  have "cases t = cases s1 \<and> membership t = membership s1"
  proof (cases created)
    case False
    with assms(1) ins show ?thesis by (auto simp: persist_alert_only_def op_simps membership_counters)
  next
    case True
    with assms(1) ins obtain s2 where au: "audit_ingested E a key label s1 = (Inr (), s2)"
      and t: "t = s2\<lparr> ingested_created := Suc (ingested_created s2) \<rparr>"
      by (auto simp: persist_alert_only_def op_simps)
    have "audit_inv (env_platform E) s1" using inv1 by (simp add: system_inv_def)
    from audit_ingested_Inr(2) [OF au this] show ?thesis
      by (simp add: t membership_counters same_book_membership) (simp add: same_book_def)
  qed
  with k1 have "cases_kept s t" "\<forall>x. membership s x \<noteq> None \<longrightarrow> membership t x \<noteq> None"
    by (auto simp: cases_kept_def)
  then show ?thesis using history.safeD [OF history_ingestion(2) assms(1)] by (simp add: past_kept_def)
qed

section \<open>One step of the service\<close>

definition good_step :: "env \<Rightarrow> state \<Rightarrow> state \<Rightarrow> bool" where
  "good_step E s t \<longleftrightarrow>
     (service_inv (env_platform E) (env_config E) s \<longrightarrow>
        service_inv (env_platform E) (env_config E) t \<and> past_kept s t)"

lemma good_same_tables: "same_tables s t \<Longrightarrow> good_step E s t"
  by (simp add: good_step_def service_inv_same_tables past_same_tables)

lemma good_trans: "good_step E s t \<Longrightarrow> good_step E t u \<Longrightarrow> good_step E s u"
  unfolding good_step_def by (blast intro: past_trans)

lemma good_stepI:
  assumes "system_inv E s \<Longrightarrow> system_inv E t \<and> past_kept s t" and "same_note_ids s t"
  shows "good_step E s t"
  using assms by (auto simp: good_step_def service_inv_system [OF refl refl] same_note_ids_def)

lemma mutation_good:
  assumes "system_inv E s \<Longrightarrow> system_inv E t \<and> cases_kept s t \<and> membership t = membership s"
    and "grows s t" and "same_note_ids s t"
  shows "good_step E s t"
  by (rule good_stepI [OF _ assms(3)]) (use assms(1,2) in \<open>auto simp: past_kept_def\<close>)

lemma transition_good:
  assumes "transition_case_endpoint E i target reason d actor v s = (r, t)"
  shows "good_step E s t"
  by (rule mutation_good [OF transition_step [OF assms] history.safeD [OF history_mutations(1) assms]
      note_ids.safeD [OF note_ids_mutations(1) assms]])

lemma assign_good:
  assumes "assign_case_endpoint E i u actor s = (r, t)"
  shows "good_step E s t"
  by (rule mutation_good [OF assign_step [OF assms] history.safeD [OF history_mutations(2) assms]
      note_ids.safeD [OF note_ids_mutations(2) assms]])

lemma add_note_good: "add_note_endpoint E i body actor s = (r, t) \<Longrightarrow> good_step E s t"
  using add_note_step history.safeD [OF history_mutations(3)]
  by (fastforce simp: good_step_def service_inv_system [OF refl refl] past_kept_def)

lemma retract_note_good: "retract_note_endpoint E i j reason actor s = (r, t) \<Longrightarrow> good_step E s t"
  using retract_note_step by (fastforce simp: good_step_def service_inv_system [OF refl refl] past_kept_def)

lemma export_good:
  assumes "export_case_audit E R i format actor s = (r, t)"
  shows "good_step E s t"
  unfolding good_step_def
proof
  assume "service_inv (env_platform E) (env_config E) s"
  then have inv: "system_inv E s" "distinct (map n_id (case_notes s))" by (simp_all add: service_inv_system [OF refl refl])
  then have audit: "audit_inv (env_platform E) s" and book: "book_inv (env_config E) s" by (simp_all add: system_inv_def)
  note frame = export_frame [OF assms audit]
  have "\<forall>n \<in> set (case_notes t). live s (n_case_id n)" using book frame(5) by (simp add: book_upto_def attached_ok_def)
  then have "book_inv (env_config E) t" using live_book [OF book frame(3,4,2,6)] by blast
  then have "system_inv E t" using inv(1) frame by (simp add: system_inv_def amounts_ok_def unique_identity_def)
  moreover have "past_kept s t"
    using frame by (simp add: past_kept_def grows_def notes_kept_same cases_kept_same membership_def alert_data_def)
  ultimately show "service_inv (env_platform E) (env_config E) t \<and> past_kept s t"
    using inv(2) frame(5) by (simp add: service_inv_system [OF refl refl])
qed

lemma ingest_one_good:
  assumes "in_transaction (ingest_one E p key label k) s = (r, t)" and "0 \<le> in_amount p"
  shows "good_step E s t"
proof (cases r)
  case (Inl e)
  with assms(1) show ?thesis using in_transaction_same_tables good_same_tables by blast
next
  case (Inr oc)
  obtain out created where "oc = (out, created)" by (cases oc)
  with assms(1) Inr have run: "ingest_one E p key label k s = (Inr (out, created), t)" by (simp add: in_transaction_Inr)
  show ?thesis
    using ingest_one_Inr(1) [OF run _ assms(2)] ingest_one_kept [OF run _ assms(2)] note_ids.safeD [OF note_ids_ingestion(1) run]
    by (intro good_stepI) simp_all
qed

lemma ingest_alert_good:
  assumes "ingest_alert E dump up up' p header k (cache, s) = (r, cache', t)" and "0 \<le> in_amount p"
  shows "good_step E s t"
proof (cases "idem_check up cache (compute_key header p (k_id k))")
  case None
  obtain q u where run: "in_transaction (ingest_one E p (compute_key header p (k_id k)) (k_label k) (Some (k_id k))) s = (q, u)"
    by fastforce
  with assms(1) None have "t = u" by (auto simp: ingest_alert_def Let_def split: sum.splits prod.splits if_splits)
  with ingest_one_good [OF run assms(2)] show ?thesis by simp
next
  case (Some c)
  with assms(1) have "t = s" by (auto simp: ingest_alert_def Let_def split: prod.splits if_splits)
  then show ?thesis by (simp add: good_same_tables)
qed

lemma persist_good:
  assumes "persist_alert_only E p key label k s = (Inr (i, created), t)" and "0 \<le> in_amount p"
  shows "good_step E s t"
  using persist_Inr(1) [OF assms(1) _ assms(2)] persist_kept [OF assms(1) _ assms(2)]
    note_ids.safeD [OF note_ids_ingestion(2) assms(1)]
  by (intro good_stepI) simp_all

lemma persist_batch_good:
  assumes "persist_batch E k n ps new dup base s = (r, t)" and "good_step E z base" and "good_step E z s"
    and "\<forall>p \<in> set ps. 0 \<le> in_amount p"
  shows "good_step E z t"
  using assms
proof (induction ps arbitrary: n new dup base s)
  case (Cons p ps)
  let ?key = "compute_key None p (k_id k)"
  obtain q s1 where run: "persist_alert_only E p ?key (k_label k) (Some (k_id k)) s = (q, s1)" by fastforce
  show ?case
  proof (cases q)
    case (Inl x)
    with Cons.prems(1) run have "t = rollback base s1" by simp
    with good_trans [OF Cons.prems(2) good_same_tables [OF same_tables_rollback]] show ?thesis by simp
  next
    case (Inr ic)
    obtain i created where ic: "ic = (i, created)" by (cases ic)
    have amt: "0 \<le> in_amount p" "\<forall>q \<in> set ps. 0 \<le> in_amount q" using Cons.prems(4) by auto
    have s1: "good_step E z s1" using good_trans [OF Cons.prems(3) persist_good [OF run [unfolded Inr ic] amt(1)]] .
    have rest: "persist_batch E k (Suc n) ps (if created then new @ [i] else new) (if created then dup else Suc dup)
        (if Suc n mod BATCH_COMMIT_CHUNK = 0 then s1 else base) s1 = (r, t)"
      using Cons.prems(1) run Inr ic by simp
    show ?thesis using Cons.IH [OF rest _ s1 amt(2)] s1 Cons.prems(2) by simp
  qed
qed simp

lemma classify_accepted: "classify validate x = Accepted p \<Longrightarrow> validate x = Inr p"
  by (auto simp: classify_def split: json.splits sum.splits)

lemma batch_good:
  assumes "ingest_alerts_batch E loads validate enqueue m k ct body s = (r, t)"
    and "\<forall>x p. validate x = Inr p \<longrightarrow> valid_alert_in p"
  shows "good_step E s t"
proof (cases "parse_batch_items loads ct body")
  case (Inl e)
  with assms(1) show ?thesis
    by (simp add: ingest_alerts_batch_def bind_op_def lift_result_def good_same_tables)
next
  case (Inr items)
  show ?thesis
  proof (cases "length items \<le> m")
    case False
    with assms(1) Inr show ?thesis
      by (simp add: ingest_alerts_batch_def batch_request_def bind_op_def lift_result_def guard_def good_same_tables)
  next
    case True
    obtain rej valid where sp: "split_items 0 (map (classify validate) items) = (rej, valid)" by fastforce
    obtain q u where pb: "persist_batch E k 0 valid [] 0 s s = (q, u)" by fastforce
    have "t = u" using assms(1) Inr True sp pb
      by (cases q) (auto simp: ingest_alerts_batch_def batch_request_def bind_op_def lift_result_def guard_def split: prod.splits)
    moreover have "0 \<le> in_amount p" if "p \<in> set valid" for p
    proof -
      have "Accepted p \<in> set (map (classify validate) items)"
        using that split_items_spec [of 0 "map (classify validate) items", unfolded sp] accepted_of_set by simp
      then have "\<exists>x. validate x = Inr p" by (auto dest: classify_accepted [OF sym])
      then show ?thesis using assms(2) by (auto simp: valid_alert_in_def valid_amount_def)
    qed
    moreover have "good_step E s s" by (simp add: good_same_tables)
    ultimately show ?thesis using persist_batch_good [OF pb, of s] by blast
  qed
qed

lemma group_one_good:
  assumes "group_one E i s = (r, t)"
  shows "good_step E s t"
proof (cases r)
  case (Inl e)
  with assms show ?thesis using in_transaction_same_tables good_same_tables unfolding group_one_def by blast
next
  case (Inr b)
  have kept: "cases_kept s t" if inv: "system_inv E s"
  proof -
    from assms Inr have "t = s \<or> (\<exists>a w g. apply_grouping E a ''worker'' s = (Inr (w, g), t))"
      by (auto simp: group_one_def op_simps split: option.splits if_splits)
    then show ?thesis using grouping_cases_kept inv by (auto simp: cases_kept_same)
  qed
  show ?thesis
    using kept group_one_cases [OF assms] history.safeD [OF history_group_one assms] note_ids.safeD [OF note_ids_group_one assms]
    by (intro good_stepI) (simp_all add: past_kept_def)
qed

lemma job_good: "group_alerts_job E ids s = (r, t) \<Longrightarrow> good_step E s t"
proof (induction ids arbitrary: s r)
  case (Cons i ids)
  obtain q u where one: "group_one E i s = (q, u)" by fastforce
  obtain r' where rest: "group_alerts_job E ids u = (r', t)"
    using Cons.prems one by (cases q) (auto split: prod.splits)
  from good_trans [OF group_one_good [OF one] Cons.IH [OF rest]] show ?case .
qed (simp add: good_same_tables)

section \<open>The service\<close>

inductive served :: "platform \<Rightarrow> grouping_config \<Rightarrow> state \<Rightarrow> state \<Rightarrow> bool" for P cfg where
  transition: "env_platform E = P \<Longrightarrow> env_config E = cfg \<Longrightarrow>
    transition_case_endpoint E i target reason d actor v s = (r, t) \<Longrightarrow> served P cfg s t"
| assign: "env_platform E = P \<Longrightarrow> env_config E = cfg \<Longrightarrow>
    assign_case_endpoint E i u actor s = (r, t) \<Longrightarrow> served P cfg s t"
| note_added: "env_platform E = P \<Longrightarrow> env_config E = cfg \<Longrightarrow>
    add_note_endpoint E i body actor s = (rn, t) \<Longrightarrow> served P cfg s t"
| retraction: "env_platform E = P \<Longrightarrow> env_config E = cfg \<Longrightarrow>
    retract_note_endpoint E i j why actor s = (rn, t) \<Longrightarrow> served P cfg s t"
| export: "env_platform E = P \<Longrightarrow> env_config E = cfg \<Longrightarrow>
    export_case_audit E R i fmt actor s = (re, t) \<Longrightarrow> served P cfg s t"
| ingest: "env_platform E = P \<Longrightarrow> env_config E = cfg \<Longrightarrow> valid_alert_in p \<Longrightarrow>
    ingest_alert E dump up up' p header k (cache, s) = (ri, cache', t) \<Longrightarrow> served P cfg s t"
| batch: "env_platform E = P \<Longrightarrow> env_config E = cfg \<Longrightarrow> \<forall>x p. validate x = Inr p \<longrightarrow> valid_alert_in p \<Longrightarrow>
    ingest_alerts_batch E loads validate enqueue m k ct body s = (rb, t) \<Longrightarrow> served P cfg s t"
| job: "env_platform E = P \<Longrightarrow> env_config E = cfg \<Longrightarrow> group_alerts_job E ids s = (rj, t) \<Longrightarrow> served P cfg s t"

inductive_cases served_elim: "served P cfg s t"

lemma served_good_step:
  assumes "served P cfg s t"
  shows "\<exists>E. env_platform E = P \<and> env_config E = cfg \<and> good_step E s t"
  using assms
proof (cases rule: served.cases)
  case (ingest E p)
  then have "0 \<le> in_amount p" by (simp add: valid_alert_in_def valid_amount_def)
  with ingest ingest_alert_good show ?thesis by blast
next
  case transition then show ?thesis using transition_good by blast
next
  case assign then show ?thesis using assign_good by blast
next
  case note_added then show ?thesis using add_note_good by blast
next
  case retraction then show ?thesis using retract_note_good by blast
next
  case export then show ?thesis using export_good by blast
next
  case batch then show ?thesis using batch_good by blast
next
  case job then show ?thesis using job_good by blast
qed

lemma served_good: "served P cfg s t \<Longrightarrow> service_inv P cfg s \<Longrightarrow> service_inv P cfg t \<and> past_kept s t"
  using served_good_step [of P cfg s t] by (auto simp: good_step_def)

text \<open>What a history of steps needs of one step.\<close>

locale service =
  fixes inv :: "'s \<Rightarrow> bool" and kept :: "'s \<Rightarrow> 's \<Rightarrow> bool" and step :: "'s \<Rightarrow> 's \<Rightarrow> bool"
  assumes kept_refl: "kept s s"
    and kept_trans: "kept s t \<Longrightarrow> kept t u \<Longrightarrow> kept s u"
    and step_good: "step s t \<Longrightarrow> inv s \<Longrightarrow> inv t \<and> kept s t"
begin

lemma run_good:
  assumes "step\<^sup>*\<^sup>* s t" and "inv s"
  shows "inv t \<and> kept s t"
  using assms by (induction rule: rtranclp_induct) (use kept_refl kept_trans step_good in blast)+

lemma run_between:
  assumes "step\<^sup>*\<^sup>* s t" and "step\<^sup>*\<^sup>* t u" and "inv s"
  shows "kept s t \<and> kept t u"
  using run_good assms by blast

end

interpretation backend: service "service_inv P cfg" past_kept "served P cfg" for P cfg
  by unfold_locales (rule past_refl, erule (1) past_trans, erule (1) served_good)

section \<open>Properties\<close>

definition fresh_database :: "state \<Rightarrow> bool" where
  "fresh_database s \<longleftrightarrow>
     alerts s = [] \<and> cases s = [] \<and> links s = [] \<and> case_notes s = [] \<and> groupings s = [] \<and> streams s = [] \<and> events s = []"

lemma fresh_service_inv: "fresh_database s \<Longrightarrow> service_inv P cfg s"
  by (simp add: fresh_database_def service_inv_def audit_inv_def book_defs cases_inv_def amounts_ok_def unique_identity_def)

text \<open>C1: Whatever requests the backend has served and whatever jobs it has run since its database was
  created, in any order and including the ones that failed: no identity is stored twice, an alert is in a
  case exactly when one link says so, only live cases hold alerts, links, decisions or notes, the counts and
  risk scores of live cases are those of their alerts, merged cases point at older ones, closed cases have a
  configured disposition, and \<open>POST /audit:verify\<close> finds nothing to report.\<close>

theorem service_invariant:
  assumes "(served P cfg)\<^sup>*\<^sup>* s t" and "fresh_database s"
  shows "service_inv P cfg t \<and> (\<forall>E. env_platform E = P \<longrightarrow> snd (verify_audit E t) = [])"
proof -
  have "service_inv P cfg t" using backend.run_good [OF assms(1) fresh_service_inv [OF assms(2)]] by blast
  moreover from this have "snd (verify_audit E t) = []" if "env_platform E = P" for E
    using audit_inv_verifies [of E t] that by (simp add: service_inv_def)
  ultimately show ?thesis by blast
qed

text \<open>C2: Nothing that was recorded is lost or rewritten by any history of requests and jobs: the audit log
  only grows at its end, stored alerts keep their data and, once in a case, stay in one; every note keeps its
  author and text, a retraction stays with its reason; a merged case never changes again; and the id of every
  case that ever existed still leads, along the merge pointers, to a case that is not merged.\<close>

theorem service_history:
  assumes "(served P cfg)\<^sup>*\<^sup>* s t" and "service_inv P cfg s"
  shows "prefix (events s) (events t) \<and> prefix (alert_data s) (alert_data t)
    \<and> (\<forall>x. membership s x \<noteq> None \<longrightarrow> membership t x \<noteq> None)
    \<and> (\<forall>n \<in> set (case_notes s). \<exists>m \<in> set (case_notes t). keeps_note n m)
    \<and> (\<forall>c \<in> set (cases s). c_status c = ''Merged'' \<longrightarrow> c \<in> set (cases t))
    \<and> (\<forall>c \<in> set (cases s). \<exists>d \<in> set (cases t). c_status d \<noteq> ''Merged'' \<and> (c_id c, c_id d) \<in> (canonical_edges t)\<^sup>*)"
proof -
  have res: "service_inv P cfg t" "past_kept s t" using backend.run_good [OF assms] by blast+
  have "\<exists>d \<in> set (cases t). c_status d \<noteq> ''Merged'' \<and> (c_id c, c_id d) \<in> (canonical_edges t)\<^sup>*" if "c \<in> set (cases s)" for c
  proof -
    have "c_id c \<in> c_id ` set (cases t)" using that res(2) by (simp add: past_kept_def cases_kept_def)
    then obtain c' where c': "c' \<in> set (cases t)" "c_id c' = c_id c" by (elim imageE) simp
    have "book_inv cfg t" using res(1) by (simp add: service_inv_def)
    from canonical_live [OF this c'(1)] show ?thesis unfolding c'(2) by blast
  qed
  with res(2) show ?thesis unfolding past_kept_def grows_def notes_kept_def cases_kept_def by blast
qed

lemma sample_book_service: "service_inv P shipped_config sample_book"
proof -
  have "distinct (map n_id (case_notes sample_book))" by (simp add: sample_book_def empty_state_def)
  moreover have "amounts_ok sample_book" "unique_identity sample_book"
    using sample_book_system unfolding system_inv_def by blast+
  ultimately show ?thesis using sample_book_inv unfolding service_inv_def by blast
qed

lemma sample_job:
  "\<exists>t. group_alerts_job book_env [''y''] sample_book = ((1, []), t)"
proof -
  obtain w g t where run: "apply_grouping book_env (sample_row ''y'' ''e2'' None) ''worker'' sample_book = (Inr (w, g), t)"
    using sample_book_run by blast
  have "find_alert sample_book ''y'' = Some (sample_row ''y'' ''e2'' None)"
    by (simp add: find_alert_def sample_book_def sample_row_def)
  then have "group_one book_env ''y'' sample_book = (Inr True, t)"
    by (simp add: group_one_def in_transaction_def run_simps run a_case_id_sample)
  then show ?thesis by simp
qed

theorem service_invariant_witness:
  "\<exists>E s t. (served (env_platform E) (env_config E))\<^sup>*\<^sup>* s t \<and> fresh_database s \<and> alerts t \<noteq> [] \<and> snd (verify_audit E t) = []"
proof -
  let ?E = "hash_env (\<lambda>_. GENESIS_HASH)"
  obtain out cache' t where run: "ingest_alert ?E in_external_alert_id True True (sample_payload ''tm'' ''e1'') None sample_key
     (Map.empty, empty_state) = (Inr (201, out), cache', t)"
    using sample_created [OF genesis_fits, of "''tm''" "''e1''"] by (auto simp: fits_def)
  then have "served (env_platform ?E) (env_config ?E) empty_state t"
    by (rule served.ingest [OF refl refl valid_sample_payload])
  then have steps: "(served (env_platform ?E) (env_config ?E))\<^sup>*\<^sup>* empty_state t" by blast
  have "fresh_database empty_state" by (simp add: fresh_database_def empty_state_def)
  moreover have "alerts t \<noteq> []"
    using ingest_one_Inr(2) [OF ingest_alert_Inr(1) [OF run] system_inv_empty sample_amount] by (auto simp: stored_as_def)
  ultimately show ?thesis using service_invariant [OF steps] steps by blast
qed

theorem service_history_witness:
  "\<exists>t. (served (env_platform book_env) shipped_config)\<^sup>*\<^sup>* sample_book t \<and> membership t ''x'' \<noteq> None \<and> membership t ''y'' \<noteq> None"
proof -
  obtain t where run: "group_alerts_job book_env [''y''] sample_book = ((1, []), t)" using sample_job by blast
  have "served (env_platform book_env) shipped_config sample_book t"
    by (rule served.job [OF refl _ run]) simp
  then have steps: "(served (env_platform book_env) shipped_config)\<^sup>*\<^sup>* sample_book t" by blast
  from group_alerts_job_run [OF run sample_book_system] have "membership t ''y'' \<noteq> None" by simp
  moreover have "membership sample_book ''x'' \<noteq> None" by (simp add: membership_def sample_book_def sample_row_def)
  ultimately show ?thesis using service_history [OF steps sample_book_service] steps by blast
qed

end
