(* ===== verification/ConfigHash.thy ===== *)
theory ConfigHash
  imports Persistence
begin

text \<open>
  \<open>config_hash\<close> of \<open>app/grouping/config.py\<close> identifies a configuration: the canonical JSON of two
  configurations differs if they do.
\<close>

section \<open>The configuration hash\<close>

text \<open>What \<open>repr\<close> promises of floats: a numeral with a point or an exponent, and distinct for distinct floats.\<close>

definition repr_laws :: "platform \<Rightarrow> bool" where
  "repr_laws P \<longleftrightarrow> inj (float_repr P) \<and> (\<forall>q. float_token (float_repr P q))"

lemma wf_rule_json: "repr_laws P \<Longrightarrow> wf_json (rule_json P r)"
  by (simp add: rule_json_def repr_laws_def list_all_iff)

lemma wf_config_json: "repr_laws P \<Longrightarrow> wf_json (config_json P c)"
  by (simp add: config_json_def repr_laws_def list_all_iff wf_rule_json)

text \<open>The float the rule carries is the one whose text was parsed.\<close>

definition float_rule :: "rule \<Rightarrow> rule" where
  "float_rule r = r\<lparr> amount_tolerance := fl (amount_tolerance r) \<rparr>"

definition float_config :: "grouping_config \<Rightarrow> grouping_config" where
  "float_config c = c\<lparr> rules := map float_rule (rules c) \<rparr>"

lemma map_JStr_inject: "map JStr xs = map JStr ys \<longleftrightarrow> xs = ys"
  by (simp add: inj_map_eq_map inj_def)

lemma sort_keys_rule_json:
  "sort_keys (rule_json P r) =
     JObj [(''amount_tolerance'', JFloat (float_repr P (fl (amount_tolerance r)))),
       (''blocking_keys'', JList (map JStr (blocking_keys r))), (''enabled'', JBool (enabled r)), (''id'', JStr (rule_id r)),
       (''match_keys'', JList (map JStr (match_keys r))), (''time_window_seconds'', JInt (time_window_seconds r)),
       (''weight'', JFloat (float_repr P (weight r)))]"
  by (simp add: rule_json_def o_def)

lemma sort_keys_config_json:
  "sort_keys (config_json P c) =
     JObj [(''candidate_cap'', JInt (candidate_cap c)), (''dispositions'', JList (map JStr (dispositions c))),
       (''risk_aggregation'', JStr (risk_aggregation c)), (''rules'', JList (map (sort_keys \<circ> rule_json P) (rules c))),
       (''similarity_threshold'', JFloat (float_repr P (similarity_threshold c))),
       (''time_tau_seconds'', JInt (time_tau_seconds c)),
       (''weights'', JObj [(''amount'', JFloat (float_repr P (w_amount (weights c)))),
          (''device'', JFloat (float_repr P (w_device (weights c)))), (''ip'', JFloat (float_repr P (w_ip (weights c)))),
          (''name'', JFloat (float_repr P (w_name (weights c)))), (''time'', JFloat (float_repr P (w_time (weights c)))),
          (''typology'', JFloat (float_repr P (w_typology (weights c))))])]"
  by (simp add: config_json_def o_def)

lemma sort_keys_rule_inject:
  assumes "repr_laws P" and "sort_keys (rule_json P r) = sort_keys (rule_json P q)"
  shows "float_rule r = float_rule q"
proof -
  have "float_repr P x = float_repr P y \<longleftrightarrow> x = y" for x y
    using assms(1) by (simp add: repr_laws_def inj_eq)
  with assms(2) show ?thesis
    by (cases r; cases q) (simp add: sort_keys_rule_json map_JStr_inject float_rule_def)
qed

text \<open>The hash stored with every grouping decision identifies the configuration that made it: unless
  their two canonical texts collide under SHA-256, two configurations with the same hash agree in every
  rule, weight, threshold and list (tolerances as the floats they were parsed to).\<close>

theorem config_hash_identifies:
  assumes "repr_laws P" and "config_hash P c = config_hash P d"
    and "inj_on (sha256 P) {canonical_json (config_json P c), canonical_json (config_json P d)}"
  shows "float_config c = float_config d"
proof -
  have "canonical_json (config_json P c) = canonical_json (config_json P d)"
    by (rule inj_onD [OF assms(3)]) (use assms(2) in \<open>simp_all add: config_hash_def\<close>)
  then have keys: "sort_keys (config_json P c) = sort_keys (config_json P d)"
    using canonical_json_inject wf_config_json [OF assms(1)] by blast
  have repr: "float_repr P x = float_repr P y \<longleftrightarrow> x = y" for x y
    using assms(1) by (simp add: repr_laws_def inj_eq)
  have "map (sort_keys \<circ> rule_json P) (rules c) = map (sort_keys \<circ> rule_json P) (rules d)"
    using keys by (simp add: sort_keys_config_json)
  then have "list_all2 (\<lambda>r q. sort_keys (rule_json P r) = sort_keys (rule_json P q)) (rules c) (rules d)"
    by (simp add: list_all2_conv_all_nth list_eq_iff_nth_eq)
  then have "list_all2 (\<lambda>r q. float_rule r = float_rule q) (rules c) (rules d)"
    by (rule list_all2_mono) (rule sort_keys_rule_inject [OF assms(1)])
  then have "map float_rule (rules c) = map float_rule (rules d)"
    by (simp add: list_all2_conv_all_nth list_eq_iff_nth_eq)
  moreover have "weights c = weights d"
    using keys by (cases "weights c"; cases "weights d") (simp add: sort_keys_config_json repr)
  ultimately show ?thesis
    using keys by (cases c; cases d) (simp add: sort_keys_config_json repr map_JStr_inject float_config_def)
qed

text \<open>A \<open>repr\<close> for closed examples: the fraction in lowest terms, written with digits, a sign and an \<open>e\<close>.\<close>

definition fraction_text :: "rat \<Rightarrow> string" where
  "fraction_text q = (case quotient_of q of (n, d) \<Rightarrow> int_text n @ CHR ''e'' # int_text d)"

lemma takeWhile_sep: "c \<notin> set z \<Longrightarrow> takeWhile (\<lambda>a. a \<noteq> c) (z @ c # w) = z"
  by (induction z) auto

lemma append_sep_inject: "c \<notin> set x \<Longrightarrow> c \<notin> set y \<Longrightarrow> x @ c # u = y @ c # v \<Longrightarrow> x = y \<and> u = v"
  using takeWhile_sep [of c x u] takeWhile_sep [of c y v] by (metis append_same_eq list.inject same_append_eq)

lemma fraction_text_laws: "inj fraction_text" "float_token (fraction_text q)"
proof -
  have no_e: "CHR ''e'' \<notin> set (int_text i)" for i using set_int_text [of "CHR ''e''" i] by (auto simp: is_digit_def)
  show "inj fraction_text"
  proof (rule injI)
    fix p q assume "fraction_text p = fraction_text q"
    then have "quotient_of p = quotient_of q"
      by (cases "quotient_of p"; cases "quotient_of q")
        (auto simp: fraction_text_def int_text_inject dest!: append_sep_inject [OF no_e no_e])
    then show "p = q" by (simp add: quotient_of_inject_eq)
  qed
  show "float_token (fraction_text q)"
    by (cases "quotient_of q") (auto simp: fraction_text_def float_token_def list_all_iff dest: set_int_text)
qed

definition hash_platform :: platform where
  "hash_platform = sample_platform\<lparr> float_repr := fraction_text \<rparr>"

theorem config_hash_identifies_witness:
  "config_hash hash_platform shipped_config \<noteq> config_hash hash_platform (shipped_config\<lparr> candidate_cap := 100 \<rparr>)"
proof
  assume eq: "config_hash hash_platform shipped_config = config_hash hash_platform (shipped_config\<lparr> candidate_cap := 100 \<rparr>)"
  have "repr_laws hash_platform" using fraction_text_laws by (simp add: repr_laws_def hash_platform_def)
  moreover have "inj_on (sha256 hash_platform) A" for A by (simp add: hash_platform_def sample_platform_def inj_on_def)
  ultimately have "float_config shipped_config = float_config (shipped_config\<lparr> candidate_cap := 100 \<rparr>)"
    using eq by (intro config_hash_identifies)
  then have "candidate_cap (float_config shipped_config) = candidate_cap (float_config (shipped_config\<lparr> candidate_cap := 100 \<rparr>))"
    by simp
  then show False by (simp add: float_config_def shipped_config_def)
qed

end
