(* ===== verification/Keyset.thy ===== *)
theory Keyset
  imports Prelude "HOL-Library.Multiset"
begin

text \<open>
  Keyset pagination, shared by the case list and the audit log: a query ordered by a key, a condition
  that selects what follows the last row of the previous page, and one row more than the page to see
  whether there is a next one. The locale \<open>keyset_paging\<close> is the interface between the key and the
  condition; under it, following the pages lists every row once, in order.
\<close>

section \<open>Directed columns\<close>

text \<open>A column of \<open>ORDER BY\<close> with its direction; \<open>linorder\<close> makes tuples of them sort keys.\<close>

datatype 'a directed = Asc 'a | Desc 'a

instantiation directed :: (linorder) linorder
begin

fun less_eq_directed :: "'a directed \<Rightarrow> 'a directed \<Rightarrow> bool" where
  "less_eq_directed (Asc x) (Asc y) = (x \<le> y)"
| "less_eq_directed (Desc x) (Desc y) = (y \<le> x)"
| "less_eq_directed (Asc x) (Desc y) = True"
| "less_eq_directed (Desc x) (Asc y) = False"

definition less_directed :: "'a directed \<Rightarrow> 'a directed \<Rightarrow> bool" where
  "less_directed x y \<longleftrightarrow> x \<le> y \<and> \<not> y \<le> x"

instance
proof
  fix x y z :: "'a directed"
  show "x < y \<longleftrightarrow> x \<le> y \<and> \<not> y \<le> x" by (rule less_directed_def)
  show "x \<le> x" by (cases x) simp_all
  show "x \<le> y \<Longrightarrow> y \<le> z \<Longrightarrow> x \<le> z" by (cases x; cases y; cases z) auto
  show "x \<le> y \<Longrightarrow> y \<le> x \<Longrightarrow> x = y" by (cases x; cases y) auto
  show "x \<le> y \<or> y \<le> x" by (cases x; cases y) auto
qed

end

lemma less_directed_simps [simp]: "Asc x < Asc y \<longleftrightarrow> x < y" "Desc x < Desc y \<longleftrightarrow> y < x"
  by (auto simp: less_directed_def)

section \<open>Pages\<close>

definition after_row :: "('r \<Rightarrow> 'r \<Rightarrow> bool) \<Rightarrow> 'r option \<Rightarrow> 'r list \<Rightarrow> 'r list" where
  "after_row after l rows = (case l of None \<Rightarrow> rows | Some r \<Rightarrow> filter (after r) rows)"

text \<open>A page and the row it ends with, if there is more.\<close>

definition page_of ::
  "('r \<Rightarrow> 'k :: linorder) \<Rightarrow> ('r \<Rightarrow> 'r \<Rightarrow> bool) \<Rightarrow> nat \<Rightarrow> 'r list \<Rightarrow> 'r option \<Rightarrow> 'r list \<times> 'r option" where
  "page_of key after k rows l =
     (let zs = sort_key key (after_row after l rows)
      in (take k zs, if k < length zs then Some (zs ! (k - 1)) else None))"

fun listing ::
  "nat \<Rightarrow> ('r \<Rightarrow> 'k :: linorder) \<Rightarrow> ('r \<Rightarrow> 'r \<Rightarrow> bool) \<Rightarrow> nat \<Rightarrow> 'r list \<Rightarrow> 'r option \<Rightarrow> 'r list list" where
  "listing 0 key after k rows l = []"
| "listing (Suc n) key after k rows l =
     (case page_of key after k rows l of
        (p, None) \<Rightarrow> [p]
      | (p, Some r) \<Rightarrow> p # listing n key after k rows (Some r))"

lemma set_after_row: "set (after_row after l rows) \<subseteq> set rows"
  by (auto simp: after_row_def split: option.split)

lemma page_of_mem: "page_of key after k rows l = (p, Some r) \<Longrightarrow> r \<in> set rows"
proof -
  let ?zs = "sort_key key (after_row after l rows)"
  assume "page_of key after k rows l = (p, Some r)"
  then have "k < length ?zs" "r = ?zs ! (k - 1)" by (auto simp: page_of_def Let_def split: if_splits)
  then have "r \<in> set ?zs" by (metis less_imp_diff_less nth_mem)
  then show "r \<in> set rows" using set_after_row [of after l rows] by auto
qed

text \<open>The two ways the code reads a page off \<open>limit + 1\<close> rows agree with \<open>page_of\<close>.\<close>

lemma page_of_take:
  assumes "0 < k" and "rows' = take (k + 1) (sort_key key (after_row after l rows))"
  shows "page_of key after k rows l = (take k rows', if k < length rows' \<and> take k rows' \<noteq> [] then Some (last (take k rows')) else None)"
proof -
  define zs where "zs = sort_key key (after_row after l rows)"
  have "last (take k zs) = zs ! (k - 1)" if "k < length zs"
    using that assms(1) by (cases k) (simp_all add: take_Suc_conv_app_nth)
  moreover have "take k zs \<noteq> []" if "k < length zs" using that assms(1) by auto
  moreover have "take k rows' = take k zs" "k < length rows' \<longleftrightarrow> k < length zs"
    using assms(2) by (auto simp: zs_def min_def)
  ultimately show ?thesis by (simp add: page_of_def zs_def [symmetric] Let_def)
qed

section \<open>The interface\<close>

locale keyset_paging =
  fixes key :: "'r \<Rightarrow> 'k :: linorder" and after :: "'r \<Rightarrow> 'r \<Rightarrow> bool"
  assumes after_iff: "after l r \<longleftrightarrow> key l < key r"
begin

lemma sorted_strict:
  assumes "distinct (map key rows)"
  shows "sorted_wrt (<) (map key (sort_key key rows))"
proof -
  have "mset (map key (sort_key key rows)) = mset (map key rows)" by simp
  then have "distinct (map key (sort_key key rows))" using assms mset_eq_imp_distinct_iff by blast
  then show ?thesis by (simp add: strict_sorted_iff)
qed

text \<open>The condition of a cursor selects exactly what follows its row.\<close>

lemma after_suffix:
  assumes "distinct (map key rows)" and "sort_key key rows = ys @ l # zs"
  shows "sort_key key (after_row after (Some l) rows) = zs"
proof -
  have sorted: "sorted_wrt (<) (map key (ys @ l # zs))" using sorted_strict [OF assms(1)] assms(2) by simp
  have "filter (after l) ys = []" "\<not> after l l"
    using sorted by (auto simp: after_iff sorted_wrt_append filter_empty_conv dest: less_imp_not_less)
  moreover have "filter (after l) zs = zs"
    using sorted by (auto simp: after_iff sorted_wrt_append intro: filter_True)
  ultimately have "filter (after l) (sort_key key rows) = zs" by (simp add: assms(2))
  then show ?thesis by (simp add: filter_sort after_row_def)
qed

lemma listing_from:
  assumes "distinct (map key rows)" and "0 < k"
    and "sort_key key rows = ys @ zs" and "sort_key key (after_row after l rows) = zs" and "length zs < n"
  shows "concat (listing n key after k rows l) = zs
    \<and> (\<forall>p \<in> set (listing n key after k rows l). length p \<le> k)
    \<and> (\<forall>p \<in> set (butlast (listing n key after k rows l)). length p = k)"
  using assms(3-)
proof (induction n arbitrary: l ys zs)
  case (Suc n)
  have page: "page_of key after k rows l = (take k zs, if k < length zs then Some (zs ! (k - 1)) else None)"
    by (simp add: page_of_def Suc.prems(2))
  show ?case
  proof (cases "k < length zs")
    case False
    then show ?thesis by (simp add: page)
  next
    case True
    define r where "r = zs ! (k - 1)"
    have split: "zs = take (k - 1) zs @ r # drop k zs"
      using True assms(2) id_take_nth_drop [of "k - 1" zs] by (simp add: r_def)
    have sorted: "sort_key key rows = (ys @ take (k - 1) zs) @ r # drop k zs"
      using Suc.prems(1) split by simp
    have sorted2: "sort_key key rows = (ys @ take (k - 1) zs @ [r]) @ drop k zs" using sorted by simp
    have len: "length (drop k zs) < n" using Suc.prems(3) True assms(2) by simp
    from Suc.IH [OF sorted2 after_suffix [OF assms(1) sorted] len] True
    show ?thesis by (auto simp: page r_def)
  qed
qed simp

theorem listing_complete:
  assumes "distinct (map key rows)" and "0 < k" and "length rows < n"
  shows "concat (listing n key after k rows None) = sort_key key rows
    \<and> (\<forall>p \<in> set (listing n key after k rows None). length p \<le> k)
    \<and> (\<forall>p \<in> set (butlast (listing n key after k rows None)). length p = k)"
  using listing_from [OF assms(1,2), of "[]" "sort_key key rows" None n] assms(3) by (simp add: after_row_def)

end

end
