(* ===== verification/Search.thy ===== *)
theory Search
  imports Cursor Keyset
begin

text \<open>
  \<open>app/cases/search.py\<close> and its two endpoints: the filters of \<open>GET /cases\<close>, the keyset-paginated fetch and
  the statistics over the same filters. A SQL condition on a null is not true. The full-text match of
  PostgreSQL and its average are parameters. The locale \<open>keyset_paging\<close> is the interface between the order
  of the rows and the condition that a cursor adds; its interpretation on the code's three sorts gives the
  main result, that following the cursors lists every matching case once, in order.
\<close>

section \<open>Filters\<close>

datatype assignee_filter = AnyAssignee | Unassigned | AssignedTo uuid

record case_filters =
  f_status :: "string list"
  f_disposition :: "string list"
  f_assignee :: assignee_filter
  f_created_from :: "int option"
  f_created_to :: "int option"
  f_closed_from :: "int option"
  f_closed_to :: "int option"
  f_risk_min :: "int option"
  f_risk_max :: "int option"
  f_source_system :: "string option"
  f_typology :: "string option"
  f_q :: "string option"
  f_sort :: sort_order
  f_limit :: int
  f_cursor :: "string option"

definition MAX_LIMIT :: int where
  "MAX_LIMIT = 200"

definition HIGH_RISK_THRESHOLD :: int where
  "HIGH_RISK_THRESHOLD = 90"

definition linked_alerts :: "state \<Rightarrow> uuid \<Rightarrow> alert_row list" where
  "linked_alerts s i = filter (\<lambda>a. \<exists>l \<in> set (links s). l_case_id l = i \<and> l_alert_id l = a_id a) (alerts s)"

definition alert_exists :: "(alert_row \<Rightarrow> bool) \<Rightarrow> state \<Rightarrow> case_row \<Rightarrow> bool" where
  "alert_exists predicate s c = list_ex predicate (linked_alerts s (c_id c))"

definition oldest_alert :: "state \<Rightarrow> case_row \<Rightarrow> int option" where
  "oldest_alert s c =
     (case map (\<lambda>a. na_event_time (a_data a)) (linked_alerts s (c_id c)) of
        [] \<Rightarrow> None
      | t # ts \<Rightarrow> Some (fold min ts t))"

definition coalesce :: "string option \<Rightarrow> string" where
  "coalesce v = (case v of None \<Rightarrow> [] | Some t \<Rightarrow> t)"

text \<open>\<open>matches document query\<close> is \<open>to_tsvector('simple', document) @@ plainto_tsquery('simple', query)\<close>.\<close>

definition fts_case_ids :: "(string \<Rightarrow> string \<Rightarrow> bool) \<Rightarrow> string \<Rightarrow> state \<Rightarrow> uuid set" where
  "fts_case_ids tsmatch q s =
     c_id ` set (filter (\<lambda>c. tsmatch (c_human_ref c) q) (cases s))
     \<union> l_case_id ` set (filter (\<lambda>l. list_ex (\<lambda>a. a_id a = l_alert_id l
          \<and> (let n = a_data a
             in tsmatch (na_external_alert_id n) q \<or> tsmatch (coalesce (na_merchant_name_normalised n)) q
                \<or> tsmatch (coalesce (na_customer_ref n)) q \<or> tsmatch (coalesce (na_account_ref n)) q)) (alerts s)) (links s))
     \<union> n_case_id ` set (filter (\<lambda>n. tsmatch (n_body n) q) (case_notes s))"

definition at_least :: "int option \<Rightarrow> int option \<Rightarrow> bool" where
  "at_least bound v = (case bound of None \<Rightarrow> True | Some b \<Rightarrow> (case v of None \<Rightarrow> False | Some x \<Rightarrow> b \<le> x))"

definition at_most :: "int option \<Rightarrow> int option \<Rightarrow> bool" where
  "at_most bound v = (case bound of None \<Rightarrow> True | Some b \<Rightarrow> (case v of None \<Rightarrow> False | Some x \<Rightarrow> x \<le> b))"

definition conditions :: "(string \<Rightarrow> string \<Rightarrow> bool) \<Rightarrow> case_filters \<Rightarrow> state \<Rightarrow> case_row \<Rightarrow> bool" where
  "conditions tsmatch f s c \<longleftrightarrow>
     (f_status f = [] \<or> c_status c \<in> set (f_status f))
     \<and> (f_disposition f = [] \<or> (\<exists>d \<in> set (f_disposition f). c_disposition c = Some d))
     \<and> (case f_assignee f of AnyAssignee \<Rightarrow> True | Unassigned \<Rightarrow> c_assignee_id c = None
        | AssignedTo u \<Rightarrow> c_assignee_id c = Some u)
     \<and> at_least (f_created_from f) (Some (c_created_at c)) \<and> at_most (f_created_to f) (Some (c_created_at c))
     \<and> at_least (f_closed_from f) (c_closed_at c) \<and> at_most (f_closed_to f) (c_closed_at c)
     \<and> at_least (f_risk_min f) (Some (c_risk_score c)) \<and> at_most (f_risk_max f) (Some (c_risk_score c))
     \<and> (case f_source_system f of None \<Rightarrow> True
        | Some x \<Rightarrow> alert_exists (\<lambda>a. na_source_system (a_data a) = x) s c)
     \<and> (case f_typology f of None \<Rightarrow> True | Some x \<Rightarrow> alert_exists (\<lambda>a. x \<in> set (na_typologies (a_data a))) s c)
     \<and> (case f_q f of None \<Rightarrow> True | Some q \<Rightarrow> py_strip q = [] \<or> c_id c \<in> fts_case_ids tsmatch q s)"

text \<open>The driver and PostgreSQL refuse a text with a NUL and an integer beyond 32 bits.\<close>

definition int4 :: "int \<Rightarrow> bool" where
  "int4 n \<longleftrightarrow> - (2 ^ 31) \<le> n \<and> n < 2 ^ 31"

definition binds_ok :: "case_filters \<Rightarrow> bool" where
  "binds_ok f \<longleftrightarrow>
     list_all (\<lambda>t. CHR 0x00 \<notin> set t) (f_status f @ f_disposition f)
     \<and> list_all (\<lambda>v. CHR 0x00 \<notin> set (coalesce v)) [f_source_system f, f_typology f, f_q f]
     \<and> pred_option int4 (f_risk_min f) \<and> pred_option int4 (f_risk_max f)"

section \<open>Rows and pages\<close>

record list_row =
  r_case :: case_row
  r_email :: "string option"
  r_oldest :: "int option"

definition build_case_query :: "(string \<Rightarrow> string \<Rightarrow> bool) \<Rightarrow> case_filters \<Rightarrow> state \<Rightarrow> list_row list" where
  "build_case_query tsmatch f s =
     map (\<lambda>c. \<lparr> r_case = c,
         r_email = Option.bind (c_assignee_id c) (\<lambda>u. map_option u_email (List.find (\<lambda>r. u_id r = u) (users s))),
         r_oldest = oldest_alert s c \<rparr>)
       (filter (conditions tsmatch f s) (cases s))"

text \<open>\<open>ORDER BY\<close>: nulls come last in an ascending order.\<close>

definition order_by :: "sort_order \<Rightarrow> list_row \<Rightarrow> bool \<times> int directed \<times> uuid directed" where
  "order_by so r =
     (let c = r_case r
      in case so of
           ByCreated \<Rightarrow> (False, Desc (c_created_at c), Desc (c_id c))
         | ByOldest \<Rightarrow> (case r_oldest r of None \<Rightarrow> (True, Asc 0, Asc (c_id c)) | Some t \<Rightarrow> (False, Asc t, Asc (c_id c)))
         | ByRisk \<Rightarrow> (False, Desc (c_risk_score c), Desc (c_id c)))"

text \<open>Only \<open>ByOldest\<close> has a cursor without a value.\<close>

definition keyset :: "sort_order \<Rightarrow> int option \<Rightarrow> uuid \<Rightarrow> list_row \<Rightarrow> bool" where
  "keyset so v last_id r =
     (let c = r_case r
      in case so of
           ByCreated \<Rightarrow> c_created_at c < the v \<or> c_created_at c = the v \<and> c_id c < last_id
         | ByOldest \<Rightarrow>
             (case (v, r_oldest r) of
                (None, None) \<Rightarrow> last_id < c_id c
              | (None, Some t) \<Rightarrow> False
              | (Some x, None) \<Rightarrow> True
              | (Some x, Some t) \<Rightarrow> x < t \<or> t = x \<and> last_id < c_id c)
         | ByRisk \<Rightarrow> c_risk_score c < the v \<or> c_risk_score c = the v \<and> c_id c < last_id)"

definition row_value :: "sort_order \<Rightarrow> list_row \<Rightarrow> int option" where
  "row_value so r =
     (case so of ByCreated \<Rightarrow> Some (c_created_at (r_case r)) | ByOldest \<Rightarrow> r_oldest r
      | ByRisk \<Rightarrow> Some (c_risk_score (r_case r)))"

definition row_cursor :: "platform \<Rightarrow> sort_order \<Rightarrow> list_row \<Rightarrow> string" where
  "row_cursor P so r = encode_cursor P so (row_value so r) (c_id (r_case r))"

record case_list_item =
  ci_id :: uuid
  ci_human_ref :: string
  ci_status :: string
  ci_disposition :: "string option"
  ci_assignee_email :: "string option"
  ci_risk_score :: int
  ci_alert_count :: int
  ci_created_at :: int
  ci_updated_at :: int
  ci_oldest_alert_event_time :: "int option"

definition list_item :: "list_row \<Rightarrow> case_list_item" where
  "list_item r =
     (let c = r_case r
      in \<lparr> ci_id = c_id c, ci_human_ref = c_human_ref c, ci_status = c_status c, ci_disposition = c_disposition c,
           ci_assignee_email = r_email r, ci_risk_score = c_risk_score c, ci_alert_count = c_alert_count c,
           ci_created_at = c_created_at c, ci_updated_at = c_updated_at c, ci_oldest_alert_event_time = r_oldest r \<rparr>)"

definition page_size :: "case_filters \<Rightarrow> nat" where
  "page_size f = nat (max 1 (min (f_limit f) MAX_LIMIT))"

definition paginate ::
  "codec \<Rightarrow> platform \<Rightarrow> (string \<Rightarrow> string \<Rightarrow> bool) \<Rightarrow> case_filters \<Rightarrow> state
     \<Rightarrow> (case_list_item list \<times> string option) result" where
  "paginate C P tsmatch f s =
     (let limit = page_size f; so = f_sort f; stmt = build_case_query tsmatch f s
      in rbind (case f_cursor f of
                  None \<Rightarrow> Inr (True, stmt)
                | Some t \<Rightarrow> rbind (decode_cursor C so t) (\<lambda>(v, last_id).
                    Inr (so = ByRisk \<longrightarrow> pred_option int4 v, filter (keyset so v last_id) stmt))) (\<lambda>(bind_ok, selected).
         if \<not> (binds_ok f \<and> bind_ok) then Inl DataError
         else
           let rows = take (limit + 1) (sort_key (order_by so) selected);
               has_more = limit < length rows;
               page = take limit rows
           in Inr (map list_item page,
                   if has_more \<and> page \<noteq> [] then Some (row_cursor P so (last page)) else None)))"

section \<open>Statistics\<close>

record case_stats =
  cs_total :: nat
  cs_by_status :: "(string \<times> nat) list"
  cs_unassigned :: nat
  cs_high_risk :: nat
  cs_high_risk_threshold :: int
  cs_avg_risk :: rat

definition count_where :: "('a \<Rightarrow> bool) \<Rightarrow> 'a list \<Rightarrow> nat" where
  "count_where p xs = length (filter p xs)"

text \<open>\<open>round(float(x), 1)\<close>. \<open>pg_avg\<close> is PostgreSQL's \<open>avg\<close> of a non-empty column.\<close>

definition round1 :: "rat \<Rightarrow> rat" where
  "round1 x = fl (of_int (round_half_even (10 * fl x)) / 10)"

definition case_stats_of ::
  "(int list \<Rightarrow> rat) \<Rightarrow> (string \<Rightarrow> string \<Rightarrow> bool) \<Rightarrow> case_filters \<Rightarrow> state \<Rightarrow> case_stats result" where
  "case_stats_of pg_avg tsmatch f s =
     (if \<not> binds_ok f then Inl DataError
      else
        let cs = filter (conditions tsmatch f s) (cases s); statuses = map c_status cs
        in Inr \<lparr> cs_total = length cs,
                 cs_by_status = map (\<lambda>st. (st, count_where ((=) st) statuses)) (remdups statuses),
                 cs_unassigned = count_where (\<lambda>c. c_assignee_id c = None) cs,
                 cs_high_risk = count_where (\<lambda>c. HIGH_RISK_THRESHOLD \<le> c_risk_score c) cs,
                 cs_high_risk_threshold = HIGH_RISK_THRESHOLD,
                 cs_avg_risk = round1 (if cs = [] then 0 else pg_avg (map c_risk_score cs)) \<rparr>)"

section \<open>The endpoints\<close>

text \<open>The query string: FastAPI has checked the bounds of \<open>Query\<close>; the assignee is read here.\<close>

definition query_bounds :: "case_filters \<Rightarrow> bool" where
  "query_bounds f \<longleftrightarrow>
     pred_option (\<lambda>n. 0 \<le> n \<and> n \<le> 100) (f_risk_min f) \<and> pred_option (\<lambda>n. 0 \<le> n \<and> n \<le> 100) (f_risk_max f)
     \<and> 1 \<le> f_limit f \<and> f_limit f \<le> 200"

definition case_filters_of :: "codec \<Rightarrow> string option \<Rightarrow> case_filters \<Rightarrow> case_filters result" where
  "case_filters_of C assignee_id f =
     (if \<not> query_bounds f then Inl (HTTPException 422 ''validation'')
      else case assignee_id of
        None \<Rightarrow> Inr (f\<lparr> f_assignee := AnyAssignee \<rparr>)
      | Some t \<Rightarrow>
          if t = [] then Inr (f\<lparr> f_assignee := AnyAssignee \<rparr>)
          else if t = ''unassigned'' then Inr (f\<lparr> f_assignee := Unassigned \<rparr>)
          else (case parse_uuid C t of
                  None \<Rightarrow> Inl (HTTPException 422 ''invalid_assignee_id'')
                | Some u \<Rightarrow> Inr (f\<lparr> f_assignee := AssignedTo u \<rparr>)))"

fun list_http :: "exn \<Rightarrow> exn" where
  "list_http InvalidCursor = HTTPException 400 ''invalid_cursor''"
| "list_http e = e"

definition list_cases ::
  "codec \<Rightarrow> env \<Rightarrow> (string \<Rightarrow> string \<Rightarrow> bool) \<Rightarrow> string option \<Rightarrow> case_filters \<Rightarrow> principal
     \<Rightarrow> (case_list_item list \<times> string option) op" where
  "list_cases C E tsmatch assignee_id f actor =
     in_transaction (bind_op (require_role [''analyst'', ''admin'', ''readonly''] actor) (\<lambda>_.
       bind_op (lift_result (case_filters_of C assignee_id f)) (\<lambda>g.
       bind_op (read_state (paginate C (env_platform E) tsmatch g)) (\<lambda>r.
       catch_op list_http (lift_result r)))))"

definition case_stats_endpoint ::
  "codec \<Rightarrow> (int list \<Rightarrow> rat) \<Rightarrow> (string \<Rightarrow> string \<Rightarrow> bool) \<Rightarrow> string option \<Rightarrow> case_filters \<Rightarrow> principal
     \<Rightarrow> case_stats op" where
  "case_stats_endpoint C pg_avg tsmatch assignee_id f actor =
     in_transaction (bind_op (require_role [''analyst'', ''admin'', ''readonly''] actor) (\<lambda>_.
       bind_op (lift_result (case_filters_of C assignee_id f)) (\<lambda>g.
       bind_op (read_state (case_stats_of pg_avg tsmatch g)) lift_result)))"

end
