(* ===== verification/Paging.thy ===== *)
theory Paging
  imports Search
begin

text \<open>
  What the case list promises: on an unchanged database, a client that follows \<open>next_cursor\<close> sees every
  matching case exactly once and in the order it asked for; the statistics count the same cases; a
  cursor the endpoint did not issue is refused, except for the ones named at the end.
\<close>

section \<open>Following the cursors\<close>

interpretation case_list: keyset_paging "order_by so" "\<lambda>l. keyset so (row_value so l) (c_id (r_case l))" for so
  by unfold_locales
    (auto simp: keyset_def order_by_def row_value_def Let_def split: sort_order.split option.split)

fun pages ::
  "nat \<Rightarrow> codec \<Rightarrow> platform \<Rightarrow> (string \<Rightarrow> string \<Rightarrow> bool) \<Rightarrow> case_filters \<Rightarrow> string option \<Rightarrow> state
     \<Rightarrow> case_list_item list list result" where
  "pages 0 C P tsmatch f cursor s = Inr []"
| "pages (Suc n) C P tsmatch f cursor s =
     rbind (paginate C P tsmatch (f\<lparr> f_cursor := cursor \<rparr>) s) (\<lambda>(items, next_cursor).
       case next_cursor of
         None \<Rightarrow> Inr [items]
       | Some c \<Rightarrow> rbind (pages n C P tsmatch f (Some c) s) (\<lambda>ps. Inr (items # ps)))"

text \<open>What a page needs of the rows: distinct ids, a codec that reads their cursors, scores of the column's
  32 bits.\<close>

definition listable :: "codec \<Rightarrow> platform \<Rightarrow> sort_order \<Rightarrow> list_row list \<Rightarrow> bool" where
  "listable C P so rows \<longleftrightarrow>
     distinct (map (\<lambda>r. c_id (r_case r)) rows)
     \<and> (\<forall>r \<in> set rows. codec_reads C P so (row_value so r) (c_id (r_case r)) \<and> int4 (c_risk_score (r_case r)))"

lemma order_by_id: "order_by so q = order_by so r \<Longrightarrow> c_id (r_case q) = c_id (r_case r)"
  by (auto simp: order_by_def Let_def split: sort_order.splits option.splits)

lemma listable_keys: "listable C P so rows \<Longrightarrow> distinct (map (order_by so) rows)"
  by (induction rows) (auto simp: listable_def dest: order_by_id)

abbreviation row_after :: "sort_order \<Rightarrow> list_row \<Rightarrow> list_row \<Rightarrow> bool" where
  "row_after so l \<equiv> keyset so (row_value so l) (c_id (r_case l))"

lemma paginate_page:
  assumes "listable C P (f_sort f) (build_case_query tsmatch f s)" and "binds_ok f"
    and "case l of None \<Rightarrow> True | Some r \<Rightarrow> r \<in> set (build_case_query tsmatch f s)"
  shows "paginate C P tsmatch (f\<lparr> f_cursor := map_option (row_cursor P (f_sort f)) l \<rparr>) s =
    (let (page, more) = page_of (order_by (f_sort f)) (row_after (f_sort f)) (page_size f) (build_case_query tsmatch f s) l
     in Inr (map list_item page, map_option (row_cursor P (f_sort f)) more))"
proof -
  let ?rows = "build_case_query tsmatch f s" and ?n = "page_size f"
  have n: "0 < ?n" by (simp add: page_size_def)
  have query: "build_case_query tsmatch (f\<lparr> f_cursor := x \<rparr>) s = ?rows" for x
    by (simp add: build_case_query_def conditions_def [abs_def])
  have other: "binds_ok (f\<lparr> f_cursor := x \<rparr>) = binds_ok f" "page_size (f\<lparr> f_cursor := x \<rparr>) = ?n" for x
    by (simp_all add: binds_ok_def page_size_def)
  note page = page_of_take [OF n refl, where key = "order_by (f_sort f)" and after = "row_after (f_sort f)" and l = l and rows = ?rows]
  show ?thesis
  proof (cases l)
    case None
    then show ?thesis
      by (simp add: page [unfolded None] paginate_def Let_def query other assms(2) after_row_def)
  next
    case (Some r)
    with assms(1,3) have "codec_reads C P (f_sort f) (row_value (f_sort f) r) (c_id (r_case r))" "int4 (c_risk_score (r_case r))"
      by (auto simp: listable_def)
    moreover have "f_sort f = ByOldest \<or> row_value (f_sort f) r \<noteq> None" by (cases "f_sort f") (simp_all add: row_value_def)
    ultimately have "decode_cursor C (f_sort f) (row_cursor P (f_sort f) r) = Inr (row_value (f_sort f) r, c_id (r_case r))"
      and "f_sort f = ByRisk \<longrightarrow> pred_option int4 (row_value (f_sort f) r)"
      using decode_encode by (auto simp: row_cursor_def row_value_def)
    then show ?thesis
      by (simp add: page [unfolded Some] Some paginate_def Let_def query other assms(2) after_row_def)
  qed
qed

text \<open>The client sees the pages of \<open>listing\<close>.\<close>

lemma pages_listing:
  assumes "listable C P (f_sort f) (build_case_query tsmatch f s)" and "binds_ok f"
    and "case l of None \<Rightarrow> True | Some r \<Rightarrow> r \<in> set (build_case_query tsmatch f s)"
  shows "pages n C P tsmatch f (map_option (row_cursor P (f_sort f)) l) s = Inr (map (map list_item)
    (listing n (order_by (f_sort f)) (row_after (f_sort f)) (page_size f) (build_case_query tsmatch f s) l))"
  using assms(3)
proof (induction n arbitrary: l)
  case (Suc n)
  let ?so = "f_sort f" and ?rows = "build_case_query tsmatch f s"
  obtain p more where pg: "page_of (order_by ?so) (row_after ?so) (page_size f) ?rows l = (p, more)" by fastforce
  show ?case
  proof (cases more)
    case None
    then show ?thesis by (simp add: paginate_page [OF assms(1,2) Suc.prems] pg)
  next
    case (Some r)
    with pg have "r \<in> set ?rows" using page_of_mem by metis
    then show ?thesis using Suc.IH [of "Some r"] by (simp add: paginate_page [OF assms(1,2) Suc.prems] pg Some)
  qed
qed simp

lemma pages_complete:
  assumes "listable C P (f_sort f) (build_case_query tsmatch f s)" and "binds_ok f"
    and "length (build_case_query tsmatch f s) < n"
  shows "\<exists>ps. pages n C P tsmatch f None s = Inr ps
    \<and> concat ps = map list_item (sort_key (order_by (f_sort f)) (build_case_query tsmatch f s))
    \<and> (\<forall>p \<in> set ps. length p \<le> page_size f) \<and> (\<forall>p \<in> set (butlast ps). length p = page_size f)"
proof -
  let ?ls = "listing n (order_by (f_sort f)) (row_after (f_sort f)) (page_size f) (build_case_query tsmatch f s) None"
  have k: "0 < page_size f" by (simp add: page_size_def)
  have "pages n C P tsmatch f None s = Inr (map (map list_item) ?ls)" using pages_listing [OF assms(1,2), of None n] by simp
  with case_list.listing_complete [OF listable_keys [OF assms(1)] k assms(3)] show ?thesis
    by (simp flip: map_concat map_butlast)
qed

section \<open>Properties\<close>

text \<open>C7: following the cursors from the first page lists every case that passes the filters exactly once and in
  the requested order, in full pages up to the last, and ends: one request more than there are cases is
  always enough.\<close>

theorem pagination_complete:
  assumes "listable C P (f_sort f) (build_case_query tsmatch f s)" and "binds_ok f"
    and "length (build_case_query tsmatch f s) < n"
  shows "\<exists>ps. pages n C P tsmatch f None s = Inr ps
    \<and> concat ps = map list_item (sort_key (order_by (f_sort f)) (build_case_query tsmatch f s))
    \<and> distinct (map ci_id (concat ps))
    \<and> set (map ci_id (concat ps)) = c_id ` {c \<in> set (cases s). conditions tsmatch f s c}
    \<and> (\<forall>p \<in> set ps. length p \<le> page_size f) \<and> (\<forall>p \<in> set (butlast ps). length p = page_size f)"
proof -
  let ?rows = "build_case_query tsmatch f s"
  let ?xs = "sort_key (order_by (f_sort f)) ?rows"
  from pages_complete [OF assms] obtain ps
    where ps: "pages n C P tsmatch f None s = Inr ps" "concat ps = map list_item ?xs"
      "\<forall>p \<in> set ps. length p \<le> page_size f" "\<forall>p \<in> set (butlast ps). length p = page_size f" by blast
  have ids: "ci_id \<circ> list_item = (\<lambda>r. c_id (r_case r))" by (auto simp: list_item_def Let_def)
  have "mset (map (\<lambda>r. c_id (r_case r)) ?xs) = mset (map (\<lambda>r. c_id (r_case r)) ?rows)" by simp
  then have "distinct (map (\<lambda>r. c_id (r_case r)) ?xs)"
    using assms(1) mset_eq_imp_distinct_iff unfolding listable_def by blast
  then have "distinct (map ci_id (concat ps))" by (simp add: ps(2) ids)
  moreover have "set (map ci_id (concat ps)) = c_id ` {c \<in> set (cases s). conditions tsmatch f s c}"
    by (auto simp: ps(2) image_image list_item_def Let_def build_case_query_def)
  ultimately show ?thesis using ps by blast
qed

text \<open>C28: the statistics describe the listed cases: the total is the number of items over all pages, the
  counts by status add up to it, no status is listed twice or with a zero, and with the same filters on the
  status the count of a status is that of the listed cases.\<close>

theorem case_stats_match_list:
  assumes "case_stats_of avg tsmatch f s = Inr st"
    and "listable C P (f_sort f) (build_case_query tsmatch f s)" and "length (build_case_query tsmatch f s) < n"
  shows "\<exists>ps. pages n C P tsmatch f None s = Inr ps \<and> cs_total st = length (concat ps)
    \<and> sum_list (map snd (cs_by_status st)) = cs_total st \<and> distinct (map fst (cs_by_status st))
    \<and> (\<forall>(x, k) \<in> set (cs_by_status st). 0 < k \<and> k = length (filter (\<lambda>i. ci_status i = x) (concat ps)))
    \<and> cs_high_risk st = length (filter (\<lambda>i. HIGH_RISK_THRESHOLD \<le> ci_risk_score i) (concat ps))"
proof -
  let ?cs = "filter (conditions tsmatch f s) (cases s)"
  have binds: "binds_ok f" using assms(1) by (auto simp: case_stats_of_def split: if_splits)
  have st: "cs_total st = length ?cs" "cs_high_risk st = count_where (\<lambda>c. HIGH_RISK_THRESHOLD \<le> c_risk_score c) ?cs"
    "cs_by_status st = map (\<lambda>x. (x, count_where ((=) x) (map c_status ?cs))) (remdups (map c_status ?cs))"
    using assms(1) by (auto simp: case_stats_of_def Let_def split: if_splits)
  let ?rows = "build_case_query tsmatch f s"
  let ?xs = "sort_key (order_by (f_sort f)) ?rows"
  from pages_complete [OF assms(2) binds assms(3)] obtain ps
    where ps: "pages n C P tsmatch f None s = Inr ps" "concat ps = map list_item ?xs" by blast
  have rows: "map r_case ?rows = ?cs" by (simp add: build_case_query_def o_def)
  have count: "length (filter (\<lambda>i. q (ci_status i) (ci_risk_score i)) (concat ps)) = length (filter (\<lambda>c. q (c_status c) (c_risk_score c)) ?cs)"
    for q
  proof -
    have "length (filter (\<lambda>i. q (ci_status i) (ci_risk_score i)) (concat ps))
        = size (filter_mset (\<lambda>i. q (ci_status i) (ci_risk_score i)) (mset (map list_item ?xs)))"
      unfolding ps(2) by (metis mset_filter size_mset)
    also have "\<dots> = size (filter_mset (\<lambda>i. q (ci_status i) (ci_risk_score i)) (mset (map list_item ?rows)))" by simp
    also have "\<dots> = length (filter (\<lambda>r. q (c_status (r_case r)) (c_risk_score (r_case r))) ?rows)"
      unfolding mset_filter [symmetric] size_mset by (simp add: filter_map o_def list_item_def Let_def)
    also have "\<dots> = length (filter (\<lambda>c. q (c_status c) (c_risk_score c)) (map r_case ?rows))" by (simp add: filter_map o_def)
    finally show ?thesis by (simp only: rows)
  qed
  have total: "sum_list (map (\<lambda>x. count_where ((=) x) xs) (remdups xs)) = length xs" for xs :: "string list"
  proof -
    have "sum_list (map (\<lambda>x. count_where ((=) x) xs) (remdups xs)) = (\<Sum>x \<in> set xs. count_list xs x)"
      by (simp add: sum_list_distinct_conv_sum_set count_where_def count_list_eq_length_filter)
    then show ?thesis by (simp add: sum_count_set)
  qed
  have "sum_list (map snd (cs_by_status st)) = cs_total st"
    using total [of "map c_status ?cs"] by (simp add: st o_def)
  moreover have "distinct (map fst (cs_by_status st))" by (simp add: st o_def)
  moreover have "0 < k \<and> k = length (filter (\<lambda>i. ci_status i = x) (concat ps))" if "(x, k) \<in> set (cs_by_status st)" for x k
  proof -
    have x: "x \<in> c_status ` set ?cs" and k: "k = length (filter ((=) x) (map c_status ?cs))"
      using that by (auto simp: st count_where_def)
    have "k = length (filter (\<lambda>c. c_status c = x) ?cs)" by (simp add: k filter_map o_def eq_commute)
    moreover have "0 < length (filter (\<lambda>c. c_status c = x) ?cs)" using x by (auto simp: filter_empty_conv)
    ultimately show ?thesis using count [of "\<lambda>t n. t = x"] by simp
  qed
  moreover have "cs_high_risk st = length (filter (\<lambda>i. HIGH_RISK_THRESHOLD \<le> ci_risk_score i) (concat ps))"
    using count [of "\<lambda>t n. HIGH_RISK_THRESHOLD \<le> n"] by (simp add: st count_where_def)
  moreover have "cs_total st = length (concat ps)" using count [of "\<lambda>t n. True"] by (simp add: st)
  ultimately show ?thesis using ps(1) by blast
qed

section \<open>Cursors of other origin\<close>

lemma decode_sort_change:
  assumes "codec_reads C P so v i" and "(so = ByRisk) \<noteq> (so' = ByRisk)"
  shows "decode_cursor C so' (encode_cursor P so v i) = Inl InvalidCursor
    \<or> so' \<noteq> ByRisk \<and> so = ByRisk \<and> v = None"
proof -
  have "ascii_text (encode_cursor P so v i)"
    by (auto simp: ascii_text_def list_all_iff encode_cursor_def dest: b64encode_ascii)
  moreover have "member (cursor_json P so v i) ''id'' = Inr (JStr i)" by (simp add: member_def cursor_json_def)
  moreover have "\<exists>x. member (cursor_json P so v i) ''v'' = Inr x \<and> ((\<exists>m. cursor_value C so' x = Inl (ValueError m)) \<or> so' \<noteq> ByRisk \<and> so = ByRisk \<and> v = None)"
    using assms(2)
    by (cases so; cases so'; cases v) (auto simp: member_def cursor_json_def cursor_value_def cursor_time_def rbind_def)
  ultimately show ?thesis
    using assms(1)
    by (auto simp: decode_cursor_def read_cursor_def encode_cursor_def cursor_id_def codec_reads_def rbind_def)
qed

lemma list_cases_run:
  assumes "set (p_roles actor) \<inter> {''analyst'', ''admin'', ''readonly''} \<noteq> {}" and "query_bounds f"
  shows "list_cases C E tsmatch None f actor s =
    (case paginate C (env_platform E) tsmatch (f\<lparr> f_assignee := AnyAssignee \<rparr>) s of
       Inl e \<Rightarrow> (Inl (list_http e), rollback s s) | Inr x \<Rightarrow> (Inr x, s))"
proof -
  have "set [''analyst'', ''admin'', ''readonly''] \<inter> set (p_roles actor) \<noteq> {}" using assms(1) by auto
  then show ?thesis using assms(2)
    by (simp add: list_cases_def case_filters_of_def in_transaction_def bind_op_def require_role_def guard_def
        lift_result_def read_state_def catch_op_def split: sum.split)
qed

text \<open>A cursor that the endpoint issued for a row decodes to the value and id of that row under the same
  sort. Sent back after the sort changed between scores and times it is answered with 400 and nothing
  else happens.\<close>

theorem cursor_sort_change:
  assumes "codec_reads C (env_platform E) so (row_value so r) (c_id (r_case r))"
    and "f_cursor f = Some (row_cursor (env_platform E) so r)" and "(so = ByRisk) \<noteq> (f_sort f = ByRisk)"
    and "set (p_roles actor) \<inter> {''analyst'', ''admin'', ''readonly''} \<noteq> {}" and "query_bounds f"
  shows "decode_cursor C so (row_cursor (env_platform E) so r) = Inr (row_value so r, c_id (r_case r))
    \<and> (\<exists>t. list_cases C E tsmatch None f actor s = (Inl (HTTPException 400 ''invalid_cursor''), t) \<and> same_tables s t)"
proof
  have v: "so = ByOldest \<or> row_value so r \<noteq> None" by (cases so) (simp_all add: row_value_def)
  with decode_encode [OF assms(1)] show "decode_cursor C so (row_cursor (env_platform E) so r) = Inr (row_value so r, c_id (r_case r))"
    by (simp add: row_cursor_def)
  have "decode_cursor C (f_sort f) (row_cursor (env_platform E) so r) = Inl InvalidCursor"
    using decode_sort_change [OF assms(1,3)] v by (auto simp: row_cursor_def)
  then have "paginate C (env_platform E) tsmatch (f\<lparr> f_assignee := AnyAssignee \<rparr>) s = Inl InvalidCursor"
    using assms(2) by (simp add: paginate_def Let_def rbind_def)
  then show "\<exists>t. list_cases C E tsmatch None f actor s = (Inl (HTTPException 400 ''invalid_cursor''), t) \<and> same_tables s t"
    by (simp add: list_cases_run [OF assms(4,5)] same_tables_def)
qed

text \<open>A cursor of the right shape whose score has more than 32 bits passes every check of
  \<open>_decode_cursor\<close> and then fails in the database instead of being refused.\<close>

theorem oversized_cursor_fails:
  assumes "codec_reads C (env_platform E) ByRisk (Some n) i" and "f_cursor f = Some (encode_cursor (env_platform E) ByRisk (Some n) i)"
    and "f_sort f = ByRisk" and "\<not> int4 n"
    and "set (p_roles actor) \<inter> {''analyst'', ''admin'', ''readonly''} \<noteq> {}" and "query_bounds f"
  shows "decode_cursor C ByRisk (encode_cursor (env_platform E) ByRisk (Some n) i) = Inr (Some n, i)
    \<and> fst (list_cases C E tsmatch None f actor s) = Inl DataError"
proof
  show dec: "decode_cursor C ByRisk (encode_cursor (env_platform E) ByRisk (Some n) i) = Inr (Some n, i)"
    by (rule decode_encode [OF assms(1)]) simp
  then have "paginate C (env_platform E) tsmatch (f\<lparr> f_assignee := AnyAssignee \<rparr>) s = Inl DataError"
    using assms(2-4) by (simp add: paginate_def Let_def rbind_def)
  then show "fst (list_cases C E tsmatch None f actor s) = Inl DataError"
    by (simp add: list_cases_run [OF assms(5,6)])
qed

section \<open>A concrete list\<close>

text \<open>A codec that reads the cursors of given values and ids, and a table of two cases.\<close>

definition sample_codec :: "(int option \<times> uuid) list \<Rightarrow> codec" where
  "sample_codec vis =
     \<lparr> json_loads = (\<lambda>t. case List.find (\<lambda>(v, i). json_dumps (cursor_json sample_platform ByRisk v i) = t) vis of
         None \<Rightarrow> Inl (ValueError ''JSON'') | Some (v, i) \<Rightarrow> Inr (cursor_json sample_platform ByRisk v i)),
       from_isoformat = (\<lambda>_. None), parse_uuid = Some \<rparr>"

definition sample_filters :: case_filters where
  "sample_filters =
     \<lparr> f_status = [], f_disposition = [], f_assignee = AnyAssignee, f_created_from = None, f_created_to = None,
       f_closed_from = None, f_closed_to = None, f_risk_min = None, f_risk_max = None, f_source_system = None,
       f_typology = None, f_q = None, f_sort = ByRisk, f_limit = 1, f_cursor = None \<rparr>"

definition sample_list :: state where
  "sample_list = empty_state\<lparr> cases := [(sample_case ''Open'')\<lparr> c_risk_score := 40 \<rparr>,
     (sample_case ''Open'')\<lparr> c_id := ''2'', c_human_ref := ''CASE-2'', c_risk_score := 95 \<rparr>] \<rparr>"

lemma sample_texts:
  "json_dumps (cursor_json sample_platform ByRisk (Some 40) ''1'') = ''{\"v\": 40, \"id\": \"1\"}''"
  "json_dumps (cursor_json sample_platform ByRisk (Some 95) ''2'') = ''{\"v\": 95, \"id\": \"2\"}''"
  by (simp add: cursor_json_def string_text_def escape_char_def named_escapes_def Let_def int_text_def nat_text.simps;
      simp add: char_of_def bit_iff_odd)+

lemma sample_query:
  "build_case_query tsmatch sample_filters sample_list =
     map (\<lambda>c. \<lparr> r_case = c, r_email = None, r_oldest = None \<rparr>) (cases sample_list)"
  by (simp add: build_case_query_def sample_filters_def sample_list_def conditions_def at_least_def at_most_def
      sample_case_def empty_state_def oldest_alert_def linked_alerts_def)

lemma sample_listable:
  "listable (sample_codec [(Some 40, ''1''), (Some 95, ''2'')]) sample_platform ByRisk (build_case_query tsmatch sample_filters sample_list)"
  by (simp add: sample_query) (simp add: listable_def sample_list_def sample_case_def codec_reads_def sample_codec_def row_value_def sample_texts int4_def)

lemma sample_binds: "binds_ok sample_filters" "query_bounds sample_filters" "f_sort sample_filters = ByRisk"
  by (simp_all add: binds_ok_def query_bounds_def sample_filters_def coalesce_def)

theorem pagination_complete_witness:
  "\<exists>ps. pages 3 (sample_codec [(Some 40, ''1''), (Some 95, ''2'')]) sample_platform (\<lambda>_ _. False) sample_filters None sample_list = Inr ps
     \<and> map ci_id (concat ps) = [''2'', ''1''] \<and> (\<forall>p \<in> set ps. length p \<le> 1)"
proof -
  have "length (build_case_query (\<lambda>_ _. False) sample_filters sample_list) < 3" by (simp add: sample_query) (simp add: sample_list_def)
  from pagination_complete [OF sample_listable [folded sample_binds(3)] sample_binds(1) this]
  obtain ps where ps: "pages 3 (sample_codec [(Some 40, ''1''), (Some 95, ''2'')]) sample_platform (\<lambda>_ _. False) sample_filters None sample_list = Inr ps"
    "concat ps = map list_item (sort_key (order_by ByRisk) (build_case_query (\<lambda>_ _. False) sample_filters sample_list))"
    "\<forall>p \<in> set ps. length p \<le> page_size sample_filters" unfolding sample_binds(3) by blast
  moreover have "page_size sample_filters = 1" by (simp add: page_size_def sample_filters_def MAX_LIMIT_def)
  moreover have "map ci_id (concat ps) = [''2'', ''1'']"
    by (simp add: ps(2) sample_query) (simp add: sample_list_def sample_case_def order_by_def list_item_def Let_def)
  ultimately show ?thesis by auto
qed

theorem case_stats_match_list_witness:
  "\<exists>st. case_stats_of (\<lambda>_. 0) (\<lambda>_ _. False) sample_filters sample_list = Inr st \<and> cs_total st = 2 \<and> cs_by_status st = [(''Open'', 2)]
     \<and> sum_list (map snd (cs_by_status st)) = cs_total st"
proof -
  obtain st where st: "case_stats_of (\<lambda>_. 0) (\<lambda>_ _. False) sample_filters sample_list = Inr st"
    using sample_binds(1) by (simp add: case_stats_of_def Let_def)
  have "length (build_case_query (\<lambda>_ _. False) sample_filters sample_list) < 3" by (simp add: sample_query) (simp add: sample_list_def)
  note m = case_stats_match_list [OF st sample_listable [folded sample_binds(3)] this]
  have "filter (conditions (\<lambda>_ _. False) sample_filters sample_list) (cases sample_list) = cases sample_list"
    using arg_cong [OF sample_query [of "\<lambda>_ _. False"], of "map r_case"] by (simp add: build_case_query_def o_def)
  then have "cs_total st = 2" "cs_by_status st = [(''Open'', 2)]"
    using st sample_binds(1) by (auto simp: case_stats_of_def Let_def sample_list_def sample_case_def count_where_def)
  with st m show ?thesis by blast
qed

theorem cursor_sort_change_witness:
  "\<exists>t. list_cases (sample_codec [(Some 95, ''2'')]) sample_env (\<lambda>_ _. False) None
     (sample_filters\<lparr> f_sort := ByCreated, f_cursor := Some (encode_cursor sample_platform ByRisk (Some 95) ''2'') \<rparr>) sample_actor sample_list
     = (Inl (HTTPException 400 ''invalid_cursor''), t)"
proof -
  let ?r = "\<lparr> r_case = (sample_case ''Open'')\<lparr> c_id := ''2'', c_human_ref := ''CASE-2'', c_risk_score := 95 \<rparr>, r_email = None, r_oldest = None \<rparr>"
  let ?f = "sample_filters\<lparr> f_sort := ByCreated, f_cursor := Some (encode_cursor sample_platform ByRisk (Some 95) ''2'') \<rparr>"
  have E: "env_platform sample_env = sample_platform" by (simp add: sample_env_def)
  have "codec_reads (sample_codec [(Some 95, ''2'')]) (env_platform sample_env) ByRisk (row_value ByRisk ?r) (c_id (r_case ?r))"
    by (simp add: E codec_reads_def sample_codec_def row_value_def)
  moreover have "f_cursor ?f = Some (row_cursor (env_platform sample_env) ByRisk ?r)" by (simp add: E row_cursor_def row_value_def)
  moreover have "(ByRisk = ByRisk) \<noteq> (f_sort ?f = ByRisk)" by simp
  moreover have "set (p_roles sample_actor) \<inter> {''analyst'', ''admin'', ''readonly''} \<noteq> {}" by (simp add: sample_actor_def)
  moreover have "query_bounds ?f" using sample_binds(2) by (simp add: query_bounds_def)
  ultimately have "\<exists>t. list_cases (sample_codec [(Some 95, ''2'')]) sample_env (\<lambda>_ _. False) None ?f sample_actor sample_list
      = (Inl (HTTPException 400 ''invalid_cursor''), t) \<and> same_tables sample_list t"
    using cursor_sort_change by blast
  then show ?thesis by blast
qed

theorem oversized_cursor_fails_witness:
  "fst (list_cases (sample_codec [(Some (2 ^ 31), ''2'')]) sample_env (\<lambda>_ _. False) None
     (sample_filters\<lparr> f_cursor := Some (encode_cursor sample_platform ByRisk (Some (2 ^ 31)) ''2'') \<rparr>) sample_actor sample_list) = Inl DataError"
proof -
  let ?f = "sample_filters\<lparr> f_cursor := Some (encode_cursor sample_platform ByRisk (Some (2 ^ 31)) ''2'') \<rparr>"
  have E: "env_platform sample_env = sample_platform" by (simp add: sample_env_def)
  have "codec_reads (sample_codec [(Some (2 ^ 31), ''2'')]) (env_platform sample_env) ByRisk (Some (2 ^ 31)) ''2''"
    unfolding E codec_reads_def sample_codec_def by simp
  moreover have "f_cursor ?f = Some (encode_cursor (env_platform sample_env) ByRisk (Some (2 ^ 31)) ''2'')" by (simp add: E)
  moreover have "f_sort ?f = ByRisk" "\<not> int4 (2 ^ 31)" using sample_binds(3) by (simp_all add: int4_def)
  moreover have "set (p_roles sample_actor) \<inter> {''analyst'', ''admin'', ''readonly''} \<noteq> {}" by (simp add: sample_actor_def)
  moreover have "query_bounds ?f" using sample_binds(2) by (simp add: query_bounds_def)
  ultimately show ?thesis using oversized_cursor_fails by blast
qed

end
