(* ===== verification/AuditQuery.thy ===== *)
theory AuditQuery
  imports CaseService Keyset
begin

text \<open>
  The reading endpoints of \<open>app/audit/routes.py\<close>: \<open>GET /audit\<close>, the filtered log with its keyset cursor, and
  \<open>GET /cases/{id}/audit\<close>, one stream. \<open>AuditEventOut\<close> (\<open>app/schemas/audit.py\<close>) has the columns of
  \<open>audit_events\<close>, so an event stands for its own projection. The cursor of the log is an id, and the
  interpretation of \<open>keyset_paging\<close> on the descending ids shows that the pages are the whole filtered log.
\<close>

section \<open>Definitions\<close>

record event_filters =
  q_actor_id :: "string option"
  q_action :: "string option"
  q_target_type :: "string option"
  q_target_id :: "string option"
  q_from :: "int option"
  q_to :: "int option"
  q_cursor :: "int option"
  q_limit :: int

definition equals :: "string option \<Rightarrow> string option \<Rightarrow> bool" where
  "equals wanted v = (case wanted of None \<Rightarrow> True | Some x \<Rightarrow> v = Some x)"

definition event_matches :: "event_filters \<Rightarrow> audit_event \<Rightarrow> bool" where
  "event_matches f e \<longleftrightarrow>
     equals (q_actor_id f) (ev_actor_id e) \<and> equals (q_action f) (Some (ev_action e))
     \<and> equals (q_target_type f) (Some (ev_target_type e)) \<and> equals (q_target_id f) (Some (ev_target_id e))
     \<and> pred_option (\<lambda>t. t \<le> ev_created_at e) (q_from f) \<and> pred_option (\<lambda>t. ev_created_at e \<le> t) (q_to f)"

definition before_cursor :: "int option \<Rightarrow> audit_event \<Rightarrow> bool" where
  "before_cursor c e = pred_option (\<lambda>n. int (ev_id e) < n) c"

text \<open>What the driver can bind: texts without NUL, an id of 64 bits.\<close>

definition int8 :: "int \<Rightarrow> bool" where
  "int8 n \<longleftrightarrow> - (2 ^ 63) \<le> n \<and> n < 2 ^ 63"

definition event_binds_ok :: "event_filters \<Rightarrow> bool" where
  "event_binds_ok f \<longleftrightarrow>
     list_all (pred_option (\<lambda>t. CHR 0x00 \<notin> set t)) [q_actor_id f, q_action f, q_target_type f, q_target_id f]
     \<and> pred_option int8 (q_cursor f)"

definition audit_page :: "event_filters \<Rightarrow> state \<Rightarrow> audit_event list \<times> int option" where
  "audit_page f s =
     (let limit = nat (q_limit f);
          stmt = filter (\<lambda>e. event_matches f e \<and> before_cursor (q_cursor f) e) (events s);
          rows = take (limit + 1) (sort_key (\<lambda>e. Desc (ev_id e)) stmt);
          has_more = limit < length rows;
          page = take limit rows
      in (page, if has_more \<and> page \<noteq> [] then Some (int (ev_id (last page))) else None))"

definition query_audit :: "event_filters \<Rightarrow> principal \<Rightarrow> (audit_event list \<times> int option) op" where
  "query_audit f actor =
     in_transaction (bind_op (require_role [''admin'', ''readonly''] actor) (\<lambda>_.
       bind_op (guard (1 \<le> q_limit f \<and> q_limit f \<le> 200) (HTTPException 422 ''validation'')) (\<lambda>_.
       bind_op (guard (event_binds_ok f) DataError) (\<lambda>_.
       read_state (audit_page f)))))"

definition case_audit :: "string \<Rightarrow> principal \<Rightarrow> audit_event list op" where
  "case_audit case_id actor =
     in_transaction (bind_op (require_role [''analyst'', ''admin'', ''readonly''] actor) (\<lambda>_.
       bind_op (guard (CHR 0x00 \<notin> set case_id) DataError) (\<lambda>_.
       read_state (\<lambda>s. stream_events s (case_stream case_id)))))"

section \<open>Following the cursors\<close>

interpretation audit_log: keyset_paging "\<lambda>e. Desc (ev_id e)" "\<lambda>l e. before_cursor (Some (int (ev_id l))) e"
  by unfold_locales (simp add: before_cursor_def)

fun audit_pages :: "nat \<Rightarrow> event_filters \<Rightarrow> int option \<Rightarrow> principal \<Rightarrow> audit_event list list op" where
  "audit_pages 0 f c actor = ret []"
| "audit_pages (Suc n) f c actor =
     bind_op (query_audit (f\<lparr> q_cursor := c \<rparr>) actor) (\<lambda>(page, next_cursor).
       case next_cursor of
         None \<Rightarrow> ret [page]
       | Some i \<Rightarrow> bind_op (audit_pages n f (Some i) actor) (\<lambda>ps. ret (page # ps)))"

abbreviation id_after :: "audit_event \<Rightarrow> audit_event \<Rightarrow> bool" where
  "id_after l e \<equiv> before_cursor (Some (int (ev_id l))) e"

definition matching :: "event_filters \<Rightarrow> state \<Rightarrow> audit_event list" where
  "matching f s = filter (event_matches f) (events s)"

lemma audit_page_of:
  assumes "1 \<le> q_limit f"
  shows "audit_page (f\<lparr> q_cursor := map_option (\<lambda>l. int (ev_id l)) l \<rparr>) s =
    (let (page, more) = page_of (\<lambda>e. Desc (ev_id e)) id_after (nat (q_limit f)) (matching f s) l
     in (page, map_option (\<lambda>r. int (ev_id r)) more))"
proof -
  have k: "0 < nat (q_limit f)" using assms by simp
  have same: "event_matches (f\<lparr> q_cursor := x \<rparr>) e = event_matches f e" for x e by (simp add: event_matches_def)
  have sel: "filter (\<lambda>e. event_matches f e \<and> before_cursor (map_option (\<lambda>l. int (ev_id l)) l) e) (events s)
      = after_row id_after l (matching f s)"
    by (cases l) (simp_all add: after_row_def matching_def before_cursor_def conj_commute)
  show ?thesis
    by (simp add: page_of_take [OF k refl] audit_page_def same sel Let_def del: take_eq_Nil)
qed

lemma query_audit_run:
  assumes "set (p_roles actor) \<inter> {''admin'', ''readonly''} \<noteq> {}" and "1 \<le> q_limit f" "q_limit f \<le> 200" and "event_binds_ok f"
  shows "query_audit f actor s = (Inr (audit_page f s), s)"
  using assms by (simp add: query_audit_def in_transaction_def require_role_def run_simps Int_commute bind_op_def)

lemma audit_pages_listing:
  assumes "set (p_roles actor) \<inter> {''admin'', ''readonly''} \<noteq> {}" and "1 \<le> q_limit f" "q_limit f \<le> 200"
    and "event_binds_ok (f\<lparr> q_cursor := None \<rparr>)" and "\<forall>e \<in> set (events s). int8 (int (ev_id e))"
    and "case l of None \<Rightarrow> True | Some r \<Rightarrow> r \<in> set (matching f s)"
  shows "audit_pages n f (map_option (\<lambda>r. int (ev_id r)) l) actor s =
    (Inr (listing n (\<lambda>e. Desc (ev_id e)) id_after (nat (q_limit f)) (matching f s) l), s)"
  using assms(6)
proof (induction n arbitrary: l)
  case (Suc n)
  let ?c = "\<lambda>l. map_option (\<lambda>r. int (ev_id r)) l"
  have "pred_option int8 (?c l)"
    using Suc.prems assms(5) by (cases l) (auto simp: matching_def)
  then have binds: "event_binds_ok (f\<lparr> q_cursor := ?c l \<rparr>)" using assms(4) by (simp add: event_binds_ok_def)
  obtain p more where pg: "page_of (\<lambda>e. Desc (ev_id e)) id_after (nat (q_limit f)) (matching f s) l = (p, more)" by fastforce
  have page: "query_audit (f\<lparr> q_cursor := ?c l \<rparr>) actor s = (Inr (p, ?c more), s)"
    using query_audit_run [OF assms(1) _ _ binds] audit_page_of [OF assms(2), of l s] assms(2,3) by (simp add: pg)
  show ?case
  proof (cases more)
    case None
    then show ?thesis by (simp add: bind_op_def page pg ret_def)
  next
    case (Some r)
    with pg have "r \<in> set (matching f s)" using page_of_mem by metis
    then show ?thesis using Suc.IH [of "Some r"] by (simp add: bind_op_def page pg Some ret_def)
  qed
qed (simp add: ret_def)

section \<open>Properties\<close>

text \<open>C21: reading the log page by page, newest first, gives every event that passes the filters exactly once,
  and one request more than there are such events is always enough.\<close>

theorem audit_log_complete:
  assumes "set (p_roles actor) \<inter> {''admin'', ''readonly''} \<noteq> {}" and "1 \<le> q_limit f" "q_limit f \<le> 200"
    and "event_binds_ok (f\<lparr> q_cursor := None \<rparr>)" and "\<forall>e \<in> set (events s). int8 (int (ev_id e))"
    and "distinct (map ev_id (events s))" and "length (filter (event_matches f) (events s)) < n"
  shows "\<exists>ps. audit_pages n f None actor s = (Inr ps, s)
    \<and> sorted_wrt (\<lambda>d e. ev_id e < ev_id d) (concat ps)
    \<and> set (concat ps) = {e \<in> set (events s). event_matches f e}
    \<and> (\<forall>p \<in> set (butlast ps). int (length p) = q_limit f) \<and> (\<forall>p \<in> set ps. int (length p) \<le> q_limit f)"
proof -
  let ?key = "\<lambda>e. Desc (ev_id e)" and ?k = "nat (q_limit f)"
  let ?ps = "listing n ?key id_after ?k (matching f s) None"
  have d: "distinct (map ?key (matching f s))"
    using assms(6) by (auto simp: matching_def distinct_map inj_on_def)
  have k: "0 < ?k" using assms(2) by simp
  have n: "length (matching f s) < n" using assms(7) by (simp add: matching_def)
  note res = audit_log.listing_complete [OF d k n]
  have "audit_pages n f None actor s = (Inr ?ps, s)"
    using audit_pages_listing [OF assms(1-5), of None n] by simp
  moreover have "sorted_wrt (\<lambda>d e. ev_id e < ev_id d) (concat ?ps)"
    using audit_log.sorted_strict [OF d] res by (simp add: sorted_wrt_map)
  moreover have "set (concat ?ps) = {e \<in> set (events s). event_matches f e}"
    using res by (simp add: matching_def del: set_concat)
  ultimately show ?thesis using res assms(2) by (intro exI [of _ ?ps]) auto
qed

definition sample_query :: event_filters where
  "sample_query =
     \<lparr> q_actor_id = None, q_action = Some ''case.assigned'', q_target_type = None, q_target_id = None,
       q_from = Some 0, q_to = None, q_cursor = None, q_limit = 1 \<rparr>"

definition sample_logged :: "nat \<Rightarrow> audit_event" where
  "sample_logged n =
     \<lparr> ev_id = n, ev_stream = ''case:c'', ev_seq = n, ev_prev_hash = [], ev_hash = [], ev_actor_id = Some ''u'',
       ev_actor_role = None, ev_action = ''case.assigned'', ev_target_type = ''case'', ev_target_id = ''c'',
       ev_reason = None, ev_before = None, ev_after = None, ev_correlation_id = None, ev_created_at = int n \<rparr>"

theorem audit_log_complete_witness:
  "\<exists>ps. audit_pages 3 sample_query None \<lparr> p_user_id = ''u'', p_email = ''e'', p_roles = [''admin''] \<rparr>
      (empty_state\<lparr> events := [sample_logged 1, sample_logged 2] \<rparr>)
      = (Inr ps, empty_state\<lparr> events := [sample_logged 1, sample_logged 2] \<rparr>)
    \<and> set (concat ps) = {sample_logged 1, sample_logged 2}"
proof -
  let ?s = "empty_state\<lparr> events := [sample_logged 1, sample_logged 2] \<rparr>"
  let ?a = "\<lparr> p_user_id = ''u'', p_email = ''e'', p_roles = [''admin''] \<rparr>"
  have m: "event_matches sample_query (sample_logged n)" for n
    by (simp add: event_matches_def sample_query_def sample_logged_def equals_def)
  have roles: "set (p_roles ?a) \<inter> {''admin'', ''readonly''} \<noteq> {}" by simp
  have limit: "1 \<le> q_limit sample_query" "q_limit sample_query \<le> 200" by (simp_all add: sample_query_def)
  have binds: "event_binds_ok (sample_query\<lparr> q_cursor := None \<rparr>)" by (simp add: event_binds_ok_def sample_query_def)
  have ids: "\<forall>e \<in> set (events ?s). int8 (int (ev_id e))" "distinct (map ev_id (events ?s))"
    by (simp_all add: sample_logged_def int8_def)
  have "length (filter (event_matches sample_query) (events ?s)) < 3" by (simp add: m)
  from audit_log_complete [OF roles limit binds ids this] obtain ps where
    ps: "audit_pages 3 sample_query None ?a ?s = (Inr ps, ?s)" "set (concat ps) = {e \<in> set (events ?s). event_matches sample_query e}"
    by (elim exE conjE)
  have "{e \<in> set (events ?s). event_matches sample_query e} = {sample_logged 1, sample_logged 2}" using m by auto
  with ps show ?thesis by (intro exI [of _ ps] conjI) (simp_all only:)
qed

end
