(* ===== verification/RateLimit.thy ===== *)
theory RateLimit
  imports Prelude
begin

text \<open>
  \<open>app/ratelimit.py\<close>: the fixed-window limiter on Redis, with \<open>INCR\<close>, \<open>EXPIRE\<close> and \<open>TTL\<close> as three calls that
  can each be answered, refused, or carried out with the answer lost. A key that has run out is as good as
  absent. Times are in seconds.

  The results: how many requests pass in any window's length of time, that a broken Redis lets everything
  pass, and that a broken \<open>EXPIRE\<close> on the first hit can shut a key out for good.
\<close>

section \<open>Redis\<close>

datatype reply = Answered | Refused | Lost

record bucket =
  b_count :: int
  b_expires :: "int option"

type_synonym counters = "string \<Rightarrow> bucket option"

definition live_bucket :: "int \<Rightarrow> counters \<Rightarrow> string \<Rightarrow> bucket option" where
  "live_bucket t m k =
     (case m k of
        None \<Rightarrow> None
      | Some b \<Rightarrow> if pred_option (\<lambda>x. t < x) (b_expires b) then Some b else None)"

definition redis_incr :: "int \<Rightarrow> string \<Rightarrow> counters \<Rightarrow> int \<times> counters" where
  "redis_incr t k m =
     (case live_bucket t m k of
        None \<Rightarrow> (1, m(k \<mapsto> \<lparr> b_count = 1, b_expires = None \<rparr>))
      | Some b \<Rightarrow> (b_count b + 1, m(k \<mapsto> b\<lparr> b_count := b_count b + 1 \<rparr>)))"

definition redis_expire :: "int \<Rightarrow> string \<Rightarrow> int \<Rightarrow> counters \<Rightarrow> counters" where
  "redis_expire t k seconds m =
     (case live_bucket t m k of None \<Rightarrow> m | Some b \<Rightarrow> m(k \<mapsto> b\<lparr> b_expires := Some (t + seconds) \<rparr>))"

text \<open>\<open>-2\<close> for a missing key, \<open>-1\<close> for one that never expires.\<close>

definition redis_ttl :: "int \<Rightarrow> string \<Rightarrow> counters \<Rightarrow> int" where
  "redis_ttl t k m =
     (case live_bucket t m k of
        None \<Rightarrow> -2
      | Some b \<Rightarrow> (case b_expires b of None \<Rightarrow> -1 | Some x \<Rightarrow> x - t))"

section \<open>The limiter\<close>

text \<open>\<open>Limited n\<close> is the 429 with \<open>Retry-After: n\<close>.\<close>

datatype verdict = Allowed | Limited int

definition PREFIX :: string where
  "PREFIX = ''ratelimit:''"

definition effect :: "reply \<Rightarrow> 's \<Rightarrow> 's \<Rightarrow> 's" where
  "effect r done_state old = (if r = Refused then old else done_state)"

definition rate_limit ::
  "reply \<times> reply \<times> reply \<Rightarrow> int \<Rightarrow> string \<Rightarrow> int \<Rightarrow> int \<Rightarrow> counters \<Rightarrow> verdict \<times> counters" where
  "rate_limit net t bucket_key limit window_seconds m =
     (case net of (r_incr, r_expire, r_ttl) \<Rightarrow>
        let key = PREFIX @ bucket_key;
            (count, incremented) = redis_incr t key m;
            m1 = effect r_incr incremented m
        in if r_incr \<noteq> Answered then (Allowed, m1)
           else
             let m2 = (if count = 1 then effect r_expire (redis_expire t key window_seconds m1) m1 else m1)
             in if count = 1 \<and> r_expire \<noteq> Answered then (Allowed, m2)
                else if limit < count \<and> r_ttl \<noteq> Answered then (Allowed, m2)
                else if limit < count then
                  let ttl = redis_ttl t key m2
                  in (Limited (if ttl \<noteq> 0 \<and> 0 < ttl then ttl else window_seconds), m2)
                else (Allowed, m2))"

abbreviation healthy :: "reply \<times> reply \<times> reply" where
  "healthy \<equiv> (Answered, Answered, Answered)"

section \<open>Histories of one key\<close>

fun hits :: "string \<Rightarrow> int \<Rightarrow> int \<Rightarrow> int list \<Rightarrow> counters \<Rightarrow> verdict list \<times> counters" where
  "hits k limit w [] m = ([], m)"
| "hits k limit w (t # ts) m =
     (let (v, m1) = rate_limit healthy t k limit w m; (vs, m2) = hits k limit w ts m1 in (v # vs, m2))"

text \<open>The abstract limiter: the start of the current window and the hits in it.\<close>

fun window_step :: "int \<Rightarrow> int \<Rightarrow> (int \<times> int) option \<Rightarrow> (int \<times> int)" where
  "window_step w t None = (t, 1)"
| "window_step w t (Some (start, n)) = (if t < start + w then (start, n + 1) else (t, 1))"

fun window_run :: "int \<Rightarrow> int \<Rightarrow> int list \<Rightarrow> (int \<times> int) option \<Rightarrow> bool list" where
  "window_run w limit [] q = []"
| "window_run w limit (t # ts) q =
     (let q' = window_step w t q in (snd q' \<le> limit) # window_run w limit ts (Some q'))"

definition window_of :: "int \<Rightarrow> (int \<times> int) option \<Rightarrow> bucket option" where
  "window_of w q = (case q of None \<Rightarrow> None | Some (start, n) \<Rightarrow> Some \<lparr> b_count = n, b_expires = Some (start + w) \<rparr>)"

lemma rate_limit_step:
  assumes "m (PREFIX @ k) = window_of w q" and "0 < w" and "case q of None \<Rightarrow> True | Some (start, n) \<Rightarrow> 1 \<le> n"
  shows "\<exists>r m'. rate_limit healthy t k limit w m = (if snd (window_step w t q) \<le> limit then Allowed else Limited r, m')
    \<and> m' (PREFIX @ k) = window_of w (Some (window_step w t q))
    \<and> (limit < snd (window_step w t q) \<longrightarrow> r = fst (window_step w t q) + w - t)"
proof (cases q)
  case None
  with assms show ?thesis
    by (simp add: rate_limit_def redis_incr_def redis_expire_def redis_ttl_def live_bucket_def window_of_def effect_def Let_def)
next
  case (Some sn)
  obtain start n where sn: "sn = (start, n)" by fastforce
  with Some assms have n: "1 \<le> n" and b: "m (PREFIX @ k) = Some \<lparr> b_count = n, b_expires = Some (start + w) \<rparr>"
    by (simp_all add: window_of_def)
  show ?thesis
  proof (cases "t < start + w")
    case True
    with n b Some sn assms(2) show ?thesis
      by (simp add: rate_limit_def redis_incr_def redis_ttl_def live_bucket_def window_of_def effect_def Let_def)
  next
    case False
    with b Some sn assms(2) show ?thesis
      by (simp add: rate_limit_def redis_incr_def redis_expire_def redis_ttl_def live_bucket_def window_of_def effect_def Let_def)
  qed
qed

lemma window_step_pos: "case q of None \<Rightarrow> True | Some (start, n) \<Rightarrow> 1 \<le> n \<Longrightarrow> 1 \<le> snd (window_step w t q)"
  by (cases q) (auto split: if_splits prod.splits)

text \<open>The limiter refines the abstract one.\<close>

lemma hits_window_run:
  assumes "m (PREFIX @ k) = window_of w q" and "0 < w" and "case q of None \<Rightarrow> True | Some (start, n) \<Rightarrow> 1 \<le> n"
  shows "map (\<lambda>v. v = Allowed) (fst (hits k limit w ts m)) = window_run w limit ts q"
  using assms(1,3)
proof (induction ts arbitrary: m q)
  case (Cons t ts)
  let ?q = "window_step w t q"
  from rate_limit_step [of m k w q t limit, OF Cons.prems(1) assms(2) Cons.prems(2)]
  obtain r m' where step: "rate_limit healthy t k limit w m = (if snd ?q \<le> limit then Allowed else Limited r, m')"
    and m': "m' (PREFIX @ k) = window_of w (Some ?q)" by blast
  have "case Some ?q of None \<Rightarrow> True | Some (start, n) \<Rightarrow> 1 \<le> n"
    using window_step_pos [OF Cons.prems(2), of w t] by (simp add: case_prod_beta)
  from Cons.IH [of m' "Some ?q", OF m' this] show ?case by (simp add: step case_prod_beta Let_def)
qed simp

section \<open>How many pass\<close>

definition passed :: "(int \<Rightarrow> bool) \<Rightarrow> int list \<Rightarrow> bool list \<Rightarrow> nat" where
  "passed p ts vs = length (filter (\<lambda>(t, v). p t \<and> v) (zip ts vs))"

lemma passed_Cons [simp]: "passed p (t # ts) (v # vs) = (if p t \<and> v then Suc (passed p ts vs) else passed p ts vs)"
  by (simp add: passed_def)

lemma passed_Nil [simp]: "passed p [] vs = 0" "passed p ts [] = 0"
  by (simp_all add: passed_def)

lemma passed_none: "\<forall>t \<in> set ts. \<not> p t \<Longrightarrow> passed p ts vs = 0"
  by (auto simp: passed_def filter_empty_conv dest: set_zip_leftD)

text \<open>Inside the current window.\<close>

lemma passed_current:
  assumes "sorted ts" and "b \<le> start + w"
  shows "int (passed (\<lambda>t. t < b) ts (window_run w limit ts (Some (start, n)))) \<le> max 0 (limit - n)"
  using assms(1)
proof (induction ts arbitrary: n)
  case (Cons t ts)
  show ?case
  proof (cases "t < start + w")
    case True
    with Cons.IH [of "n + 1"] Cons.prems show ?thesis by (auto simp: Let_def)
  next
    case False
    then have "\<forall>u \<in> set (t # ts). \<not> u < b" using Cons.prems assms(2) by force
    then show ?thesis by (simp only: passed_none)
  qed
qed simp

text \<open>A stretch of a window's length that starts after the current window did.\<close>

lemma passed_stretch:
  assumes "sorted ts" and "\<forall>t \<in> set ts. a \<le> t" and "0 \<le> limit" and "0 < w" and "case q of None \<Rightarrow> True | Some (start, n) \<Rightarrow> 1 \<le> n"
  shows "int (passed (\<lambda>t. t < a + w) ts (window_run w limit ts q)) \<le> 2 * limit"
  using assms(1,2,5)
proof (induction ts arbitrary: q)
  case (Cons t ts)
  have at: "a \<le> t" and s: "sorted ts" using Cons.prems by auto
  have fresh: "int (passed (\<lambda>t. t < a + w) ts (window_run w limit ts (Some (t, 1)))) \<le> max 0 (limit - 1)"
    using passed_current [OF s, of "a + w" t w limit 1] at by simp
  have open_window: "int (passed (\<lambda>t. t < a + w) (t # ts) (window_run w limit (t # ts) q)) \<le> limit"
    if "window_step w t q = (t, 1)" using fresh that assms(3) by (auto simp: Let_def)
  show ?case
  proof (cases q)
    case None
    with open_window assms(3) show ?thesis by force
  next
    case (Some sn)
    obtain start n where sn: "sn = (start, n)" by fastforce
    show ?thesis
    proof (cases "t < start + w")
      case False
      with open_window Some sn assms(3) show ?thesis by force
    next
      case True
      \<comment> \<open>the hits of the current window, then a window of their own\<close>
      have two: "int (passed (\<lambda>t. t < a + w) us (window_run w limit us (Some (start, k)))) \<le> max 0 (limit - k) + limit"
        if "sorted us" "\<forall>u \<in> set us. a \<le> u" for us k
        using that
      proof (induction us arbitrary: k)
        case (Cons u us)
        show ?case
        proof (cases "u < start + w")
          case True
          with Cons.IH [of "k + 1"] Cons.prems show ?thesis by (auto simp: Let_def)
        next
          case False
          have "int (passed (\<lambda>t. t < a + w) us (window_run w limit us (Some (u, 1)))) \<le> max 0 (limit - 1)"
            using passed_current [of us "a + w" u w limit 1] Cons.prems by simp
          with False assms(3) show ?thesis by (auto simp: Let_def)
        qed
      qed (use assms(3) in simp)
      have "1 \<le> n" using Cons.prems(3) Some sn by simp
      with two [of "t # ts" n] Cons.prems(1,2) Some sn assms(3) show ?thesis by simp
    qed
  qed
qed (use assms(3) in simp)

lemma window_run_append:
  "window_run w limit (ts @ us) q = window_run w limit ts q @ window_run w limit us (fold (\<lambda>t q. Some (window_step w t q)) ts q)"
  by (induction ts arbitrary: q) (simp_all add: Let_def)

lemma length_window_run [simp]: "length (window_run w limit ts q) = length ts"
  by (induction ts arbitrary: q) (simp_all add: Let_def)

lemma fold_window_pos:
  "case q of None \<Rightarrow> True | Some (start, n) \<Rightarrow> 1 \<le> n \<Longrightarrow>
    case fold (\<lambda>t q. Some (window_step w t q)) ts q of None \<Rightarrow> True | Some (start, n) \<Rightarrow> 1 \<le> n"
proof (induction ts arbitrary: q)
  case (Cons t ts)
  then show ?case using window_step_pos [OF Cons.prems, of w t] by (simp add: case_prod_beta)
qed simp

section \<open>Properties\<close>

text \<open>C35: as long as Redis answers, at most twice the limit passes in any stretch of a window's length,
  wherever it starts.\<close>

theorem rate_limit_bound:
  assumes "sorted ts" and "m (PREFIX @ k) = None" and "0 \<le> limit" and "0 < w"
  shows "int (passed (\<lambda>t. a \<le> t \<and> t < a + w) ts (map (\<lambda>v. v = Allowed) (fst (hits k limit w ts m)))) \<le> 2 * limit"
proof -
  define us where "us = takeWhile (\<lambda>t. t < a) ts"
  define vs where "vs = dropWhile (\<lambda>t. t < a) ts"
  define q where "q = fold (\<lambda>t q. Some (window_step w t q)) us None"
  have ts: "ts = us @ vs" by (simp add: us_def vs_def)
  have before: "\<forall>t \<in> set us. t < a" by (auto simp: us_def dest: set_takeWhileD)
  have "sorted vs" using assms(1) by (simp add: ts sorted_append)
  moreover have "\<forall>t \<in> set vs. a \<le> t"
  proof (cases vs)
    case (Cons v rest)
    then have "\<not> v < a" using hd_dropWhile [of "\<lambda>t. t < a" ts] unfolding vs_def by (metis list.sel(1) list.distinct(1))
    then show ?thesis using \<open>sorted vs\<close> Cons by force
  qed simp
  moreover have "case q of None \<Rightarrow> True | Some (start, n) \<Rightarrow> 1 \<le> n" unfolding q_def by (rule fold_window_pos) simp
  ultimately have late: "int (passed (\<lambda>t. t < a + w) vs (window_run w limit vs q)) \<le> 2 * limit"
    using passed_stretch assms(3,4) by blast
  have split: "zip ts (window_run w limit ts None) = zip us (window_run w limit us None) @ zip vs (window_run w limit vs q)"
    by (simp add: ts window_run_append q_def)
  have "filter (\<lambda>(t, v). (a \<le> t \<and> t < a + w) \<and> v) (zip us (window_run w limit us None)) = []"
    using before by (fastforce simp: filter_empty_conv dest: set_zip_leftD)
  moreover have "filter (\<lambda>(t, v). (a \<le> t \<and> t < a + w) \<and> v) (zip vs (window_run w limit vs q))
      = filter (\<lambda>(t, v). t < a + w \<and> v) (zip vs (window_run w limit vs q))"
    using \<open>\<forall>t \<in> set vs. a \<le> t\<close> by (intro filter_cong) (auto dest: set_zip_leftD)
  ultimately have "passed (\<lambda>t. a \<le> t \<and> t < a + w) ts (window_run w limit ts None) = passed (\<lambda>t. t < a + w) vs (window_run w limit vs q)"
    unfolding passed_def split by (simp only: filter_append append_Nil)
  moreover have "map (\<lambda>v. v = Allowed) (fst (hits k limit w ts m)) = window_run w limit ts None"
    by (rule hits_window_run) (simp_all add: assms(2,4) window_of_def)
  ultimately show ?thesis using late by simp
qed

text \<open>Whenever a call to Redis that the limiter makes fails, the request passes.\<close>

theorem rate_limit_fails_open:
  assumes "r_incr \<noteq> Answered \<or> r_expire \<noteq> Answered \<and> live_bucket t m (PREFIX @ k) = None \<or> r_ttl \<noteq> Answered"
  shows "fst (rate_limit (r_incr, r_expire, r_ttl) t k limit w m) = Allowed"
  using assms by (auto simp: rate_limit_def redis_incr_def Let_def split: prod.split)

text \<open>C36: after a first hit whose \<open>EXPIRE\<close> did not reach Redis the counter never runs out: once the limit is
  used up every later request is refused, however much time has passed.\<close>

theorem rate_limit_stuck:
  assumes "live_bucket t m (PREFIX @ k) = None" and "length ts = nat limit - 1" and "1 \<le> limit"
    and "rate_limit (Answered, Refused, r) t k limit w m = (v, m1)"
  shows "v = Allowed \<and> (\<forall>us u. fst (rate_limit healthy u k limit w (snd (hits k limit w us (snd (hits k limit w ts m1))))) = Limited w)"
proof
  show "v = Allowed" using assms(1,4) by (auto simp: rate_limit_def redis_incr_def Let_def)
  have m1: "m1 (PREFIX @ k) = Some \<lparr> b_count = 1, b_expires = None \<rparr>"
    using assms(1,4) by (auto simp: rate_limit_def redis_incr_def effect_def Let_def)
  have step: "\<exists>v m'. rate_limit healthy u k limit w m = (v, m') \<and> m' (PREFIX @ k) = Some \<lparr> b_count = n + 1, b_expires = None \<rparr>
      \<and> (limit < n + 1 \<longrightarrow> v = Limited w)"
    if "m (PREFIX @ k) = Some \<lparr> b_count = n, b_expires = None \<rparr>" "1 \<le> n" for u m n
    using that by (simp add: rate_limit_def redis_incr_def redis_ttl_def live_bucket_def effect_def Let_def)
  have run: "snd (hits k limit w us m) (PREFIX @ k) = Some \<lparr> b_count = n + int (length us), b_expires = None \<rparr>"
    if "m (PREFIX @ k) = Some \<lparr> b_count = n, b_expires = None \<rparr>" "1 \<le> n" for us m n
    using that
  proof (induction us arbitrary: m n)
    case (Cons u us)
    from step [of m n u, OF Cons.prems] obtain v m' where "rate_limit healthy u k limit w m = (v, m')"
      "m' (PREFIX @ k) = Some \<lparr> b_count = n + 1, b_expires = None \<rparr>" by blast
    with Cons.IH [of m' "n + 1"] Cons.prems(2) show ?case by (simp add: case_prod_beta Let_def algebra_simps)
  qed simp
  show "\<forall>us u. fst (rate_limit healthy u k limit w (snd (hits k limit w us (snd (hits k limit w ts m1))))) = Limited w"
  proof (intro allI)
    fix us u
    have "snd (hits k limit w ts m1) (PREFIX @ k) = Some \<lparr> b_count = limit, b_expires = None \<rparr>"
      using run [of m1 1 ts, OF m1] assms(2,3) by simp
    from run [of "snd (hits k limit w ts m1)" limit us, OF this assms(3)] have "snd (hits k limit w us (snd (hits k limit w ts m1))) (PREFIX @ k)
        = Some \<lparr> b_count = limit + int (length us), b_expires = None \<rparr>" .
    from step [of "snd (hits k limit w us (snd (hits k limit w ts m1)))" "limit + int (length us)" u, OF this] assms(3) show "fst (rate_limit healthy u k limit w (snd (hits k limit w us (snd (hits k limit w ts m1))))) = Limited w"
      by auto
  qed
qed

text \<open>Twice the limit in one stretch of 60 seconds, at the seam of two windows.\<close>

theorem rate_limit_bound_witness:
  "int (passed (\<lambda>t. 50 \<le> t \<and> t < 50 + 60) [0, 59, 60, 61, 62]
     (map (\<lambda>v. v = Allowed) (fst (hits ''auth:ip'' 2 60 [0, 59, 60, 61, 62] Map.empty)))) \<le> 2 * 2"
  by (rule rate_limit_bound) simp_all

theorem rate_limit_fails_open_witness:
  "fst (rate_limit (Refused, Answered, Answered) 0 ''auth:ip'' 10 60
     [''ratelimit:auth:ip'' \<mapsto> \<lparr> b_count = 99, b_expires = Some 60 \<rparr>]) = Allowed"
  by (rule rate_limit_fails_open) simp

theorem rate_limit_stuck_witness:
  "\<exists>m1. rate_limit (Answered, Refused, Answered) 0 ''auth:ip'' 2 60 Map.empty = (Allowed, m1)
     \<and> fst (rate_limit healthy 1000000 ''auth:ip'' 2 60 (snd (hits ''auth:ip'' 2 60 [] (snd (hits ''auth:ip'' 2 60 [1] m1))))) = Limited 60"
proof -
  obtain v m1 where run: "rate_limit (Answered, Refused, Answered) 0 ''auth:ip'' 2 60 Map.empty = (v, m1)" by fastforce
  have len: "length [1::int] = nat 2 - 1" by simp
  have "live_bucket 0 Map.empty (PREFIX @ ''auth:ip'') = None" by (simp add: live_bucket_def)
  from rate_limit_stuck [OF this len one_le_numeral run] have stuck: "v = Allowed \<and> (\<forall>us u. fst (rate_limit healthy u ''auth:ip'' 2 60
      (snd (hits ''auth:ip'' 2 60 us (snd (hits ''auth:ip'' 2 60 [1] m1))))) = Limited 60)" .
  then have "v = Allowed"
    "fst (rate_limit healthy 1000000 ''auth:ip'' 2 60 (snd (hits ''auth:ip'' 2 60 [] (snd (hits ''auth:ip'' 2 60 [1] m1))))) = Limited 60"
    by blast+
  with run show ?thesis by blast
qed

end
