(* ===== verification/Auth.thy ===== *)
theory Auth
  imports AuditHtml CaseService Ingestion RateLimit
begin

text \<open>
  \<open>app/auth/security.py\<close>, \<open>app/auth/deps.py\<close> and \<open>app/auth/routes.py\<close>: login, token refresh, the principal behind a
  bearer token and the key behind \<open>X-API-Key\<close>, with the rate limits in front of them. JWT and argon2 are the
  parameter \<open>auth_lib\<close>; what PyJWT documents of a token is the hypothesis \<open>jwt_ok\<close>. The table \<open>api_keys\<close>, which
  no request writes, is an argument.
\<close>

section \<open>Tokens and passwords\<close>

text \<open>\<open>jwt_decode\<close> has the time in seconds, the token, the secret and the algorithm, and gives \<open>None\<close> where PyJWT
  raises. \<open>argon2_verify\<close> gives \<open>None\<close> for each of the three exceptions that \<open>verify_password\<close> catches.\<close>

record auth_lib =
  jwt_encode :: "json \<Rightarrow> string \<Rightarrow> string \<Rightarrow> string"
  jwt_decode :: "int \<Rightarrow> string \<Rightarrow> string \<Rightarrow> string \<Rightarrow> json option"
  argon2_verify :: "string \<Rightarrow> string \<Rightarrow> bool option"
  DECOY_HASH :: string

record settings =
  jwt_secret :: string
  jwt_algorithm :: string
  access_token_ttl_seconds :: int
  refresh_token_ttl_seconds :: int
  auth_rate_limit_per_minute :: int
  ingest_rate_limit_per_minute :: int
  environment :: string

text \<open>\<open>_reject_placeholder_jwt_secret\<close>, which runs when the settings are loaded.\<close>

definition check_settings :: "settings \<Rightarrow> settings result" where
  "check_settings S =
     (if environment S \<noteq> ''local''
         \<and> (jwt_secret S = ''change-me-in-real-deployments'' \<or> length (jwt_secret S) < 32)
      then Inl (ValueError ''jwt_secret'') else Inr S)"

definition verify_password :: "auth_lib \<Rightarrow> string \<Rightarrow> string \<Rightarrow> bool" where
  "verify_password L pw hashed = (case argon2_verify L hashed pw of None \<Rightarrow> False | Some b \<Rightarrow> b)"

text \<open>The answer, and the hashes that argon2 was run on.\<close>

definition verify_password_or_dummy :: "auth_lib \<Rightarrow> string \<Rightarrow> string option \<Rightarrow> bool \<times> string list" where
  "verify_password_or_dummy L pw hashed =
     (case hashed of None \<Rightarrow> (False, [DECOY_HASH L]) | Some h \<Rightarrow> (verify_password L pw h, [h]))"

definition unix_time :: "env \<Rightarrow> int op" where
  "unix_time E = bind_op (now E) (\<lambda>t. ret (t div 10 ^ 6))"

definition encode_token :: "auth_lib \<Rightarrow> settings \<Rightarrow> env \<Rightarrow> (string \<times> json) list \<Rightarrow> int \<Rightarrow> string op" where
  "encode_token L S E payload ttl =
     bind_op (unix_time E) (\<lambda>t.
       ret (jwt_encode L (JObj (payload @ [(''iat'', JInt t), (''exp'', JInt (t + ttl))])) (jwt_secret S) (jwt_algorithm S)))"

definition create_access_token :: "auth_lib \<Rightarrow> settings \<Rightarrow> env \<Rightarrow> string \<Rightarrow> string list \<Rightarrow> string op" where
  "create_access_token L S E sub roles =
     encode_token L S E [(''sub'', JStr sub), (''roles'', JList (map JStr roles)), (''type'', JStr ''access'')]
       (access_token_ttl_seconds S)"

definition create_refresh_token :: "auth_lib \<Rightarrow> settings \<Rightarrow> env \<Rightarrow> string \<Rightarrow> string op" where
  "create_refresh_token L S E sub =
     encode_token L S E [(''sub'', JStr sub), (''type'', JStr ''refresh'')] (refresh_token_ttl_seconds S)"

definition decode_token :: "auth_lib \<Rightarrow> settings \<Rightarrow> env \<Rightarrow> string \<Rightarrow> json op" where
  "decode_token L S E token =
     bind_op (unix_time E) (\<lambda>t.
       case jwt_decode L t token (jwt_secret S) (jwt_algorithm S) of None \<Rightarrow> raise_exn TokenError | Some claims \<Rightarrow> ret claims)"

definition hash_api_key :: "platform \<Rightarrow> string \<Rightarrow> string" where
  "hash_api_key P raw = sha256 P raw"

section \<open>Dependencies\<close>

definition find_user :: "state \<Rightarrow> uuid \<Rightarrow> user_row option" where
  "find_user s i = List.find (\<lambda>u. u_id u = i) (users s)"

definition roles_for :: "user_row \<Rightarrow> string list" where
  "roles_for u = sort (u_roles u)"

abbreviation "unauthenticated \<equiv> HTTPException 401 ''invalid_token''"

definition bearer_token :: "string option \<Rightarrow> string option" where
  "bearer_token authorization =
     (case authorization of
        None \<Rightarrow> None
      | Some h \<Rightarrow> if take 7 (py_lower h) = ''bearer '' then Some (py_strip (drop 7 h)) else None)"

definition principal_of :: "user_row option \<Rightarrow> principal result" where
  "principal_of user =
     (case user of
        None \<Rightarrow> Inl unauthenticated
      | Some u \<Rightarrow>
          if \<not> u_is_active u then Inl (HTTPException 403 ''inactive_user'')
          else Inr \<lparr> p_user_id = u_id u, p_email = u_email u, p_roles = roles_for u \<rparr>)"

text \<open>\<open>uuid.UUID(str(claims.get("sub")))\<close> is the reading of \<open>cursor_id\<close>.\<close>

definition get_current_principal :: "auth_lib \<Rightarrow> codec \<Rightarrow> settings \<Rightarrow> env \<Rightarrow> string option \<Rightarrow> principal op" where
  "get_current_principal L C S E authorization =
     (case bearer_token authorization of
        None \<Rightarrow> raise_exn unauthenticated
      | Some token \<Rightarrow>
          bind_op (catch_op (\<lambda>e. if e = TokenError then unauthenticated else e) (decode_token L S E token)) (\<lambda>claims.
          bind_op (guard (get claims ''type'' = JStr ''access'') unauthenticated) (\<lambda>_.
          case cursor_id C (get claims ''sub'') of
            Inl e \<Rightarrow> raise_exn unauthenticated
          | Inr user_id \<Rightarrow> bind_op (read_state (\<lambda>s. find_user s user_id)) (\<lambda>u. lift_result (principal_of u)))))"

definition require_ingest_key :: "platform \<Rightarrow> api_key list \<Rightarrow> string option \<Rightarrow> api_key result" where
  "require_ingest_key P api_keys x_api_key =
     (if x_api_key = None \<or> x_api_key = Some [] then Inl (HTTPException 401 ''invalid_api_key'')
      else case filter (\<lambda>k. k_hashed_key k = hash_api_key P (the x_api_key) \<and> k_scope k = ''ingest'' \<and> k_is_active k) api_keys of
        [] \<Rightarrow> Inl (HTTPException 401 ''invalid_api_key'')
      | [k] \<Rightarrow> Inr k
      | _ \<Rightarrow> Inl MultipleResultsFound)"

section \<open>Endpoints\<close>

record token_response =
  access_token :: string
  refresh_token :: string

abbreviation "invalid_credentials \<equiv> HTTPException 401 ''invalid credentials''"

text \<open>The user, whether the password is right, and the hashes argon2 was run on.\<close>

definition password_check ::
  "auth_lib \<Rightarrow> string \<Rightarrow> string \<Rightarrow> state \<Rightarrow> (user_row option \<times> bool \<times> string list) result" where
  "password_check L email password s =
     (let check = (\<lambda>user.
        let hashed = (case user of Some u \<Rightarrow> if u_is_active u then Some (u_password_hash u) else None | None \<Rightarrow> None)
        in (user, verify_password_or_dummy L password hashed))
      in case filter (\<lambda>u. u_email u = email) (users s) of
           [] \<Rightarrow> Inr (check None)
         | [u] \<Rightarrow> Inr (check (Some u))
         | _ \<Rightarrow> Inl MultipleResultsFound)"

definition issue_token :: "auth_lib \<Rightarrow> settings \<Rightarrow> env \<Rightarrow> string \<Rightarrow> string \<Rightarrow> token_response op" where
  "issue_token L S E email password =
     in_transaction (bind_op (read_state (password_check L email password)) (\<lambda>r.
       bind_op (lift_result r) (\<lambda>(user, password_ok, hashes).
         case user of
           None \<Rightarrow> raise_exn invalid_credentials
         | Some u \<Rightarrow>
             bind_op (guard password_ok invalid_credentials) (\<lambda>_.
             bind_op (create_access_token L S E (u_id u) (roles_for u)) (\<lambda>a.
             bind_op (create_refresh_token L S E (u_id u)) (\<lambda>r.
             ret \<lparr> access_token = a, refresh_token = r \<rparr>))))))"

definition refresh :: "auth_lib \<Rightarrow> codec \<Rightarrow> settings \<Rightarrow> env \<Rightarrow> string \<Rightarrow> string op" where
  "refresh L C S E token =
     in_transaction (bind_op (catch_op (\<lambda>e. if e = TokenError then HTTPException 401 ''invalid refresh token'' else e)
         (decode_token L S E token)) (\<lambda>claims.
       bind_op (guard (get claims ''type'' = JStr ''refresh'') (HTTPException 401 ''not a refresh token'')) (\<lambda>_.
       case cursor_id C (get claims ''sub'') of
         Inl e \<Rightarrow> raise_exn (HTTPException 401 ''invalid subject'')
       | Inr user_id \<Rightarrow> bind_op (read_state (\<lambda>s. find_user s user_id)) (\<lambda>user.
           case user of
             None \<Rightarrow> raise_exn (HTTPException 401 ''unknown or inactive user'')
           | Some u \<Rightarrow>
               bind_op (guard (u_is_active u) (HTTPException 401 ''unknown or inactive user'')) (\<lambda>_.
               create_access_token L S E (u_id u) (roles_for u))))))"

text \<open>The limits: the first dependency of the credential endpoints, and of the ingest routes after the key.\<close>

definition limited :: "reply \<times> reply \<times> reply \<Rightarrow> int \<Rightarrow> string \<Rightarrow> int \<Rightarrow> 'a op \<Rightarrow> counters \<times> state
    \<Rightarrow> 'a result \<times> counters \<times> state" where
  "limited net t bucket_key limit handler = (\<lambda>(m, s).
     case rate_limit net t bucket_key limit 60 m of
       (Limited n, m') \<Rightarrow> (Inl (HTTPException 429 ''rate_limited''), m', s)
     | (Allowed, m') \<Rightarrow> (case handler s of (r, s') \<Rightarrow> (r, m', s')))"

definition auth_rate_limit ::
  "settings \<Rightarrow> reply \<times> reply \<times> reply \<Rightarrow> int \<Rightarrow> string option \<Rightarrow> 'a op \<Rightarrow> counters \<times> state \<Rightarrow> 'a result \<times> counters \<times> state" where
  "auth_rate_limit S net t client =
     limited net t (''auth:'' @ (case client of None \<Rightarrow> ''unknown'' | Some ip \<Rightarrow> ip)) (auth_rate_limit_per_minute S)"

definition ingest_rate_limit ::
  "settings \<Rightarrow> reply \<times> reply \<times> reply \<Rightarrow> int \<Rightarrow> api_key \<Rightarrow> 'a op \<Rightarrow> counters \<times> state \<Rightarrow> 'a result \<times> counters \<times> state" where
  "ingest_rate_limit S net t k = limited net t (''ingest:'' @ k_id k) (ingest_rate_limit_per_minute S)"

definition with_ingest_key ::
  "platform \<Rightarrow> settings \<Rightarrow> api_key list \<Rightarrow> string option \<Rightarrow> reply \<times> reply \<times> reply \<Rightarrow> int \<Rightarrow> (api_key \<Rightarrow> 'a op)
     \<Rightarrow> counters \<times> state \<Rightarrow> 'a result \<times> counters \<times> state" where
  "with_ingest_key P S api_keys x_api_key net t handler ms =
     (case require_ingest_key P api_keys x_api_key of
        Inl e \<Rightarrow> (Inl e, ms)
      | Inr k \<Rightarrow> ingest_rate_limit S net t k (handler k) ms)"

text \<open>A route with \<open>Depends(get_current_principal)\<close>.\<close>

definition authenticated ::
  "auth_lib \<Rightarrow> codec \<Rightarrow> settings \<Rightarrow> env \<Rightarrow> string option \<Rightarrow> (principal \<Rightarrow> 'a op) \<Rightarrow> 'a op" where
  "authenticated L C S E authorization handler = bind_op (get_current_principal L C S E authorization) handler"

section \<open>Running the parts\<close>

definition seconds :: "env \<Rightarrow> nat \<Rightarrow> int" where
  "seconds E n = utcnow E n div 10 ^ 6"

lemma unix_time_run [run_simps]: "unix_time E s = (Inr (seconds E (ticks s)), s\<lparr> ticks := Suc (ticks s) \<rparr>)"
  by (simp add: unix_time_def bind_op_def now_def ret_def seconds_def)

lemma decode_token_run [run_simps]:
  "decode_token L S E token s =
     (case jwt_decode L (seconds E (ticks s)) token (jwt_secret S) (jwt_algorithm S) of
        None \<Rightarrow> Inl TokenError | Some claims \<Rightarrow> Inr claims, s\<lparr> ticks := Suc (ticks s) \<rparr>)"
  by (simp add: decode_token_def bind_op_def unix_time_run raise_exn_def ret_def split: option.split)

definition access_claims :: "settings \<Rightarrow> user_row \<Rightarrow> int \<Rightarrow> json" where
  "access_claims S u t =
     JObj [(''sub'', JStr (u_id u)), (''roles'', JList (map JStr (roles_for u))), (''type'', JStr ''access''),
       (''iat'', JInt t), (''exp'', JInt (t + access_token_ttl_seconds S))]"

definition refresh_claims :: "settings \<Rightarrow> user_row \<Rightarrow> int \<Rightarrow> json" where
  "refresh_claims S u t =
     JObj [(''sub'', JStr (u_id u)), (''type'', JStr ''refresh''), (''iat'', JInt t),
       (''exp'', JInt (t + refresh_token_ttl_seconds S))]"

definition token_text :: "auth_lib \<Rightarrow> settings \<Rightarrow> json \<Rightarrow> string" where
  "token_text L S claims = jwt_encode L claims (jwt_secret S) (jwt_algorithm S)"

lemma create_access_run [run_simps]:
  "create_access_token L S E (u_id u) (roles_for u) s =
     (Inr (token_text L S (access_claims S u (seconds E (ticks s)))), s\<lparr> ticks := Suc (ticks s) \<rparr>)"
  by (simp add: create_access_token_def encode_token_def bind_op_def unix_time_run ret_def access_claims_def token_text_def)

lemma create_refresh_run [run_simps]:
  "create_refresh_token L S E (u_id u) s =
     (Inr (token_text L S (refresh_claims S u (seconds E (ticks s)))), s\<lparr> ticks := Suc (ticks s) \<rparr>)"
  by (simp add: create_refresh_token_def encode_token_def bind_op_def unix_time_run ret_def refresh_claims_def token_text_def)

text \<open>PyJWT reads a token back while it is valid and raises before and after; it has no space at its ends.\<close>

definition jwt_reads :: "auth_lib \<Rightarrow> settings \<Rightarrow> json \<Rightarrow> int \<Rightarrow> int \<Rightarrow> bool" where
  "jwt_reads L S claims iat ex \<longleftrightarrow>
     py_strip (token_text L S claims) = token_text L S claims
     \<and> (\<forall>t. jwt_decode L t (token_text L S claims) (jwt_secret S) (jwt_algorithm S)
          = (if iat \<le> t \<and> t < ex then Some claims else None))"

lemma claims_get [simp]:
  "get (access_claims S u t) ''type'' = JStr ''access''" "get (access_claims S u t) ''sub'' = JStr (u_id u)"
  "get (refresh_claims S u t) ''type'' = JStr ''refresh''" "get (refresh_claims S u t) ''sub'' = JStr (u_id u)"
  by (simp_all add: get_def member_def access_claims_def refresh_claims_def)

lemma bearer_token_of: "bearer_token (Some (''Bearer '' @ t)) = Some (py_strip t)"
  by (simp add: bearer_token_def py_lower_def lower_char_def char_of_def bit_iff_odd)

lemma find_user_ticks [simp]: "find_user (s\<lparr> ticks := n \<rparr>) i = find_user s i"
  by (simp add: find_user_def)

lemma bearer_access:
  assumes "jwt_reads L S (access_claims S u a) a ex" and "parse_uuid C (u_id u) = Some (u_id u)"
  shows "fst (get_current_principal L C S E (Some (''Bearer '' @ token_text L S (access_claims S u a))) s) =
    (if a \<le> seconds E (ticks s) \<and> seconds E (ticks s) < ex then principal_of (find_user s (u_id u)) else Inl unauthenticated)"
  unfolding get_current_principal_def bearer_token_of using assms
  by (simp add: jwt_reads_def bind_op_def catch_op_def run_simps cursor_id_def lift_result_def)

lemma bearer_refresh:
  assumes "jwt_reads L S (refresh_claims S u a) a ex"
  shows "fst (get_current_principal L C S E (Some (''Bearer '' @ token_text L S (refresh_claims S u a))) s) = Inl unauthenticated"
  unfolding get_current_principal_def bearer_token_of using assms
  by (simp add: jwt_reads_def bind_op_def catch_op_def run_simps)

lemma refresh_access:
  assumes "jwt_reads L S (access_claims S u a) a ex"
  shows "fst (refresh L C S E (token_text L S (access_claims S u a)) s) = Inl (HTTPException 401
    (if a \<le> seconds E (ticks s) \<and> seconds E (ticks s) < ex then ''not a refresh token'' else ''invalid refresh token''))"
  using assms by (simp add: refresh_def jwt_reads_def in_transaction_fst bind_op_def catch_op_def run_simps)

lemma refresh_refresh:
  assumes "jwt_reads L S (refresh_claims S u a) a ex" and "parse_uuid C (u_id u) = Some (u_id u)"
  shows "is_ok (fst (refresh L C S E (token_text L S (refresh_claims S u a)) s)) \<longleftrightarrow>
    a \<le> seconds E (ticks s) \<and> seconds E (ticks s) < ex \<and> (\<exists>v. find_user s (u_id u) = Some v \<and> u_is_active v)"
proof (cases "find_user s (u_id u)")
  case None
  with assms show ?thesis
    by (simp add: refresh_def jwt_reads_def in_transaction_fst bind_op_def catch_op_def run_simps cursor_id_def raise_exn_def)
next
  case (Some v)
  with assms show ?thesis
    by (auto simp: refresh_def jwt_reads_def in_transaction_fst bind_op_def catch_op_def run_simps cursor_id_def)
qed

lemma find_filter: "List.find p xs = (case filter p xs of [] \<Rightarrow> None | x # _ \<Rightarrow> Some x)"
  by (induction xs) auto

lemma filter_distinct_key:
  assumes "distinct (map k xs)"
  shows "filter (\<lambda>x. k x = a) xs = (case List.find (\<lambda>x. k x = a) xs of None \<Rightarrow> [] | Some x \<Rightarrow> [x])"
  using assms by (induction xs) (auto simp: filter_empty_conv find_Some_iff split: option.splits)

lemma password_check_run:
  assumes "distinct (map u_email (users s))"
  shows "password_check L email pw s =
    (case List.find (\<lambda>u. u_email u = email) (users s) of
       None \<Rightarrow> Inr (None, False, [DECOY_HASH L])
     | Some u \<Rightarrow> if u_is_active u then Inr (Some u, verify_password L pw (u_password_hash u), [u_password_hash u])
         else Inr (Some u, False, [DECOY_HASH L]))"
  by (simp add: password_check_def filter_distinct_key [OF assms] verify_password_or_dummy_def split: option.split)

lemma issue_token_run:
  assumes "distinct (map u_email (users s))"
  shows "issue_token L S E email pw s =
      (case List.find (\<lambda>u. u_email u = email) (users s) of
         None \<Rightarrow> (Inl invalid_credentials, rollback s s)
       | Some u \<Rightarrow>
           if u_is_active u \<and> verify_password L pw (u_password_hash u)
           then (Inr \<lparr> access_token = token_text L S (access_claims S u (seconds E (ticks s))),
                      refresh_token = token_text L S (refresh_claims S u (seconds E (Suc (ticks s)))) \<rparr>,
                 s\<lparr> ticks := Suc (Suc (ticks s)) \<rparr>)
           else (Inl invalid_credentials, rollback s s))"
  by (simp add: issue_token_def password_check_run [OF assms] in_transaction_def bind_op_def run_simps lift_result_def raise_exn_def
      split: option.split)

section \<open>Properties\<close>

text \<open>A login is answered with tokens exactly for the password of an active account, and every other
  attempt with the same 401; argon2 runs exactly once either way, so that an unknown or inactive account
  is not told by the time it takes; no table changes.\<close>

theorem login_outcome:
  assumes "distinct (map u_email (users s))"
  shows "fst (issue_token L S E email pw s) =
      (case List.find (\<lambda>u. u_email u = email) (users s) of
         None \<Rightarrow> Inl invalid_credentials
       | Some u \<Rightarrow>
           if u_is_active u \<and> verify_password L pw (u_password_hash u)
           then Inr \<lparr> access_token = token_text L S (access_claims S u (seconds E (ticks s))),
                      refresh_token = token_text L S (refresh_claims S u (seconds E (Suc (ticks s)))) \<rparr>
           else Inl invalid_credentials)
    \<and> (\<exists>user ok h. password_check L email pw s = Inr (user, ok, [h]))
    \<and> same_tables s (snd (issue_token L S E email pw s))"
  by (auto simp: issue_token_run [OF assms] password_check_run [OF assms] same_tables_def split: option.split)

text \<open>C9: what the two tokens of a login are good for. The access token, as a bearer token and while it is valid,
  gives the account as the database has it at that moment, with the roles of that moment, or 403 once it is
  inactive; afterwards it is refused. The refresh token is never a bearer token, the access token never
  refreshes, and the refresh token does so exactly while it is valid and the account active.\<close>

theorem token_lifecycle:
  assumes "issue_token L S E email pw s = (Inr tok, t)"
    and "\<forall>u \<in> set (users s). parse_uuid C (u_id u) = Some (u_id u)
      \<and> jwt_reads L S (access_claims S u (seconds E (ticks s))) (seconds E (ticks s)) (seconds E (ticks s) + access_token_ttl_seconds S)
      \<and> jwt_reads L S (refresh_claims S u (seconds E (Suc (ticks s)))) (seconds E (Suc (ticks s)))
          (seconds E (Suc (ticks s)) + refresh_token_ttl_seconds S)"
  shows "\<exists>u \<in> set (users s). u_email u = email \<and> u_is_active u \<and> verify_password L pw (u_password_hash u)
    \<and> (\<forall>E' s'. let n = seconds E' (ticks s'); a = seconds E (ticks s); b = seconds E (Suc (ticks s));
          valid = (a \<le> n \<and> n < a + access_token_ttl_seconds S) in
        fst (get_current_principal L C S E' (Some (''Bearer '' @ access_token tok)) s')
          = (if valid then principal_of (find_user s' (u_id u)) else Inl unauthenticated)
        \<and> fst (get_current_principal L C S E' (Some (''Bearer '' @ refresh_token tok)) s') = Inl unauthenticated
        \<and> fst (refresh L C S E' (access_token tok) s')
            = Inl (HTTPException 401 (if valid then ''not a refresh token'' else ''invalid refresh token''))
        \<and> (is_ok (fst (refresh L C S E' (refresh_token tok) s')) \<longleftrightarrow>
            b \<le> n \<and> n < b + refresh_token_ttl_seconds S \<and> (\<exists>v. find_user s' (u_id u) = Some v \<and> u_is_active v)))"
proof -
  obtain u where f: "filter (\<lambda>u. u_email u = email) (users s) = [u]" and ok: "u_is_active u" "verify_password L pw (u_password_hash u)"
    and tok: "access_token tok = token_text L S (access_claims S u (seconds E (ticks s)))"
      "refresh_token tok = token_text L S (refresh_claims S u (seconds E (Suc (ticks s))))"
    using assms(1)
    by (auto simp: issue_token_def password_check_def verify_password_or_dummy_def op_simps create_access_run create_refresh_run
        split: list.splits option.splits if_splits)
  have "u \<in> set (filter (\<lambda>u. u_email u = email) (users s))" by (simp add: f)
  then have u: "u \<in> set (users s)" "u_email u = email" by auto
  note reads = bspec [OF assms(2) u(1)]
  have C: "parse_uuid C (u_id u) = Some (u_id u)" using reads by blast
  have ra: "jwt_reads L S (access_claims S u (seconds E (ticks s))) (seconds E (ticks s)) (seconds E (ticks s) + access_token_ttl_seconds S)"
    and rr: "jwt_reads L S (refresh_claims S u (seconds E (Suc (ticks s)))) (seconds E (Suc (ticks s)))
          (seconds E (Suc (ticks s)) + refresh_token_ttl_seconds S)" using reads by blast+
  show ?thesis
    using u ok
    by (intro bexI [of _ u] conjI allI)
      (simp_all only: Let_def tok bearer_access [OF ra C] bearer_refresh [OF rr] refresh_access [OF ra] refresh_refresh [OF rr C])
qed

text \<open>C10: the status contract of a protected route: a request is let in only as an active account with its current
  roles; everything else is 401, or 403 for an inactive account; and a caller without the role analyst or admin
  gets 403 from every route that changes a case, with all tables as they were.\<close>

theorem access_control:
  assumes "get_current_principal L C S E authorization s = (r, t)"
  shows "(case r of
      Inr p \<Rightarrow> \<exists>u \<in> set (users s). u_is_active u \<and> p = \<lparr> p_user_id = u_id u, p_email = u_email u, p_roles = sort (u_roles u) \<rparr>
    | Inl e \<Rightarrow> e = unauthenticated \<or> e = HTTPException 403 ''inactive_user'' \<and> (\<exists>u \<in> set (users s). \<not> u_is_active u))
    \<and> same_tables s t
    \<and> (\<forall>h \<in> {(\<lambda>p. bind_op (transition_case_endpoint E i target reason d p v) (\<lambda>_. ret ())),
              (\<lambda>p. bind_op (assign_case_endpoint E i assignee p) (\<lambda>_. ret ())),
              (\<lambda>p. bind_op (add_note_endpoint E i body p) (\<lambda>_. ret ())),
              (\<lambda>p. bind_op (retract_note_endpoint E i j why p) (\<lambda>_. ret ()))}.
          case r of Inr p \<Rightarrow> set (p_roles p) \<inter> {''analyst'', ''admin''} = {} \<longrightarrow>
              fst (authenticated L C S E authorization h s) = Inl (HTTPException 403 ''insufficient_role'')
              \<and> same_tables s (snd (authenticated L C S E authorization h s))
          | Inl e \<Rightarrow> authenticated L C S E authorization h s = (Inl e, t))"
proof -
  have mem: "v \<in> set (users s)" if "find_user s k = Some v" for k v using that by (auto simp: find_user_def find_Some_iff)
  have tables: "same_tables s t"
    using assms by (auto simp: get_current_principal_def bind_op_def catch_op_def run_simps raise_exn_def lift_result_def same_tables_def
        split: option.splits if_splits sum.splits)
  have "case r of
      Inr p \<Rightarrow> \<exists>u \<in> set (users s). u_is_active u \<and> p = \<lparr> p_user_id = u_id u, p_email = u_email u, p_roles = sort (u_roles u) \<rparr>
    | Inl e \<Rightarrow> e = unauthenticated \<or> e = HTTPException 403 ''inactive_user'' \<and> (\<exists>u \<in> set (users s). \<not> u_is_active u)"
    using assms mem
    by (fastforce simp: get_current_principal_def bind_op_def catch_op_def run_simps raise_exn_def lift_result_def principal_of_def
        roles_for_def split: option.splits if_splits sum.splits)
  moreover have "fst (authenticated L C S E authorization h s) = Inl (HTTPException 403 ''insufficient_role'')
      \<and> same_tables s (snd (authenticated L C S E authorization h s))"
    if "r = Inr p" "set (p_roles p) \<inter> {''analyst'', ''admin''} = {}"
      "h \<in> {(\<lambda>p. bind_op (transition_case_endpoint E i target reason d p v) (\<lambda>_. ret ())),
              (\<lambda>p. bind_op (assign_case_endpoint E i assignee p) (\<lambda>_. ret ())),
              (\<lambda>p. bind_op (add_note_endpoint E i body p) (\<lambda>_. ret ())),
              (\<lambda>p. bind_op (retract_note_endpoint E i j why p) (\<lambda>_. ret ()))}" for p h
  proof -
    have role: "require_role [''analyst'', ''admin''] p t' = (Inl (HTTPException 403 ''insufficient_role''), t')" for t'
      using that(2) by (simp add: require_role_run Int_commute)
    have roll: "same_tables s (rollback t t)" using tables by (simp add: same_tables_def)
    show ?thesis
      using that(1,3) assms roll
      by (auto simp: authenticated_def bind_op_def transition_case_endpoint_def assign_case_endpoint_def add_note_endpoint_def
          retract_note_endpoint_def in_transaction_def role)
  qed
  moreover have "authenticated L C S E authorization h s = (Inl e, t)" if "r = Inl e" for e and h :: "principal \<Rightarrow> unit op"
    using assms that by (simp add: authenticated_def bind_op_def)
  ultimately show ?thesis using tables by (cases r) (simp_all only: sum.case, blast+)
qed

text \<open>An ingest request is served for the key row whose digest it presents if that row is active and of scope
  \<open>ingest\<close>; otherwise it is refused with 401 before anything is counted or changed.\<close>

theorem ingest_key_gate:
  assumes "distinct (map k_hashed_key api_keys)"
  shows "with_ingest_key P S api_keys header net t handler ms =
    (case header of
       None \<Rightarrow> (Inl (HTTPException 401 ''invalid_api_key''), ms)
     | Some raw \<Rightarrow>
         (case List.find (\<lambda>k. k_hashed_key k = sha256 P raw) api_keys of
            None \<Rightarrow> (Inl (HTTPException 401 ''invalid_api_key''), ms)
          | Some k \<Rightarrow>
              if raw \<noteq> [] \<and> k_scope k = ''ingest'' \<and> k_is_active k then ingest_rate_limit S net t k (handler k) ms
              else (Inl (HTTPException 401 ''invalid_api_key''), ms)))"
proof (cases header)
  case (Some raw)
  let ?p = "\<lambda>k. k_hashed_key k = sha256 P raw"
  have "filter (\<lambda>k. ?p k \<and> k_scope k = ''ingest'' \<and> k_is_active k) api_keys
      = filter (\<lambda>k. k_scope k = ''ingest'' \<and> k_is_active k) (filter ?p api_keys)" by (simp add: conj_commute conj_left_commute)
  also have "\<dots> = (case List.find ?p api_keys of None \<Rightarrow> []
      | Some k \<Rightarrow> if k_scope k = ''ingest'' \<and> k_is_active k then [k] else [])"
    unfolding filter_distinct_key [OF assms] by (simp split: option.split)
  finally show ?thesis
    using Some by (auto simp: with_ingest_key_def require_ingest_key_def hash_api_key_def split: option.splits if_splits)
qed (simp add: with_ingest_key_def require_ingest_key_def)

section \<open>A concrete account\<close>

definition sample_settings :: settings where
  "sample_settings =
     \<lparr> jwt_secret = ''s'', jwt_algorithm = ''HS256'', access_token_ttl_seconds = 900, refresh_token_ttl_seconds = 86400,
       auth_rate_limit_per_minute = 10, ingest_rate_limit_per_minute = 120, environment = ''local'' \<rparr>"

definition sample_user :: "string list \<Rightarrow> user_row" where
  "sample_user roles =
     \<lparr> u_id = ''u'', u_email = ''e'', u_display_name = ''d'', u_password_hash = ''h'', u_is_active = True, u_roles = roles \<rparr>"

definition sample_lib :: "user_row \<Rightarrow> auth_lib" where
  "sample_lib u =
     \<lparr> jwt_encode = (\<lambda>c secret alg. if get c ''type'' = JStr ''access'' then ''A'' else ''R''),
       jwt_decode = (\<lambda>t token secret alg.
         if token = ''A'' \<and> 0 \<le> t \<and> t < 900 then Some (access_claims sample_settings u 0)
         else if token = ''R'' \<and> 0 \<le> t \<and> t < 86400 then Some (refresh_claims sample_settings u 0) else None),
       argon2_verify = (\<lambda>hashed pw. Some (hashed = pw)), DECOY_HASH = ''x'' \<rparr>"

definition plain_codec :: codec where
  "plain_codec = \<lparr> json_loads = (\<lambda>t. Inr JNull), from_isoformat = (\<lambda>t. None), parse_uuid = Some \<rparr>"

definition sample_account :: "string list \<Rightarrow> state" where
  "sample_account roles = empty_state\<lparr> users := [sample_user roles] \<rparr>"

lemma sample_seconds [simp]: "seconds sample_env (ticks (sample_account roles)) = 0"
    "seconds sample_env (Suc (ticks (sample_account roles))) = 0"
  by (simp_all add: seconds_def sample_env_def sample_account_def empty_state_def)

lemma sample_tokens [simp]:
  "token_text (sample_lib u) sample_settings (access_claims sample_settings v t) = ''A''"
  "token_text (sample_lib u) sample_settings (refresh_claims sample_settings v t) = ''R''"
  by (simp_all add: token_text_def sample_lib_def)

lemma strip_letters: "py_strip ''A'' = ''A''" "py_strip ''R'' = ''R''"
  by (simp_all add: py_strip_def is_space_def)

lemma sample_reads:
  "jwt_reads (sample_lib u) sample_settings (access_claims sample_settings u 0) 0 (0 + access_token_ttl_seconds sample_settings)"
  "jwt_reads (sample_lib u) sample_settings (refresh_claims sample_settings u 0) 0 (0 + refresh_token_ttl_seconds sample_settings)"
  unfolding jwt_reads_def sample_tokens strip_letters by (simp_all add: sample_lib_def sample_settings_def)

lemma sample_login:
  "fst (issue_token (sample_lib u) sample_settings sample_env ''e'' ''h'' (sample_account roles))
    = Inr \<lparr> access_token = ''A'', refresh_token = ''R'' \<rparr>"
proof -
  have "distinct (map u_email (users (sample_account roles)))" by (simp add: sample_account_def)
  moreover have "List.find (\<lambda>v. u_email v = ''e'') (users (sample_account roles)) = Some (sample_user roles)"
    by (simp add: sample_account_def sample_user_def)
  moreover have "u_is_active (sample_user roles)" "verify_password (sample_lib u) ''h'' (u_password_hash (sample_user roles))"
    by (simp_all add: sample_user_def verify_password_def sample_lib_def)
  ultimately show ?thesis by (simp add: issue_token_run)
qed

lemma sample_ttl: "access_token_ttl_seconds sample_settings = 900"
  by (simp add: sample_settings_def)

lemma bearer_sample:
  "fst (get_current_principal (sample_lib (sample_user roles)) plain_codec sample_settings sample_env (Some (''Bearer '' @ ''A'')) (sample_account roles))
    = principal_of (Some (sample_user roles))"
proof -
  have "parse_uuid plain_codec (u_id (sample_user roles)) = Some (u_id (sample_user roles))" by (simp add: plain_codec_def)
  from bearer_access [OF sample_reads(1) this, of sample_env "sample_account roles"] show ?thesis
    unfolding sample_tokens sample_seconds by (simp add: sample_ttl find_user_def) (simp add: sample_account_def)
qed

theorem login_outcome_witness:
  "fst (issue_token (sample_lib (sample_user [])) sample_settings sample_env ''e'' ''wrong'' (sample_account [])) = Inl invalid_credentials"
proof -
  have "distinct (map u_email (users (sample_account [])))" by (simp add: sample_account_def)
  from login_outcome [OF this, of "sample_lib (sample_user [])" sample_settings sample_env "''e''" "''wrong''"]
  show ?thesis by (simp add: sample_account_def sample_user_def verify_password_def sample_lib_def)
qed

theorem token_lifecycle_witness:
  "\<exists>tok t. issue_token (sample_lib (sample_user [''readonly''])) sample_settings sample_env ''e'' ''h'' (sample_account [''readonly'']) = (Inr tok, t)
     \<and> fst (get_current_principal (sample_lib (sample_user [''readonly''])) plain_codec sample_settings sample_env
          (Some (''Bearer '' @ access_token tok)) (sample_account [''readonly'']))
       = Inr \<lparr> p_user_id = ''u'', p_email = ''e'', p_roles = [''readonly''] \<rparr>"
proof -
  let ?u = "sample_user [''readonly'']" and ?s = "sample_account [''readonly'']"
  let ?L = "sample_lib ?u"
  obtain t where run: "issue_token ?L sample_settings sample_env ''e'' ''h'' ?s = (Inr \<lparr> access_token = ''A'', refresh_token = ''R'' \<rparr>, t)"
    using sample_login [of ?u "[''readonly'']"] by (metis prod.collapse)
  have users: "users ?s = [?u]" by (simp add: sample_account_def)
  have "\<forall>u \<in> set (users ?s). parse_uuid plain_codec (u_id u) = Some (u_id u)
      \<and> jwt_reads ?L sample_settings (access_claims sample_settings u (seconds sample_env (ticks ?s))) (seconds sample_env (ticks ?s))
          (seconds sample_env (ticks ?s) + access_token_ttl_seconds sample_settings)
      \<and> jwt_reads ?L sample_settings (refresh_claims sample_settings u (seconds sample_env (Suc (ticks ?s)))) (seconds sample_env (Suc (ticks ?s)))
          (seconds sample_env (Suc (ticks ?s)) + refresh_token_ttl_seconds sample_settings)"
    unfolding users sample_seconds using sample_reads by (simp add: plain_codec_def)
  from token_lifecycle [OF run this] obtain u where u: "u \<in> set (users ?s)" and
    all: "\<forall>E' s'. let n = seconds E' (ticks s'); a = seconds sample_env (ticks ?s); b = seconds sample_env (Suc (ticks ?s));
          valid = (a \<le> n \<and> n < a + access_token_ttl_seconds sample_settings) in
        fst (get_current_principal ?L plain_codec sample_settings E' (Some (''Bearer '' @ access_token \<lparr> access_token = ''A'', refresh_token = ''R'' \<rparr>)) s')
          = (if valid then principal_of (find_user s' (u_id u)) else Inl unauthenticated)
        \<and> fst (get_current_principal ?L plain_codec sample_settings E' (Some (''Bearer '' @ refresh_token \<lparr> access_token = ''A'', refresh_token = ''R'' \<rparr>)) s')
          = Inl unauthenticated
        \<and> fst (refresh ?L plain_codec sample_settings E' (access_token \<lparr> access_token = ''A'', refresh_token = ''R'' \<rparr>) s')
            = Inl (HTTPException 401 (if valid then ''not a refresh token'' else ''invalid refresh token''))
        \<and> (is_ok (fst (refresh ?L plain_codec sample_settings E' (refresh_token \<lparr> access_token = ''A'', refresh_token = ''R'' \<rparr>) s')) \<longleftrightarrow>
            b \<le> n \<and> n < b + refresh_token_ttl_seconds sample_settings \<and> (\<exists>v. find_user s' (u_id u) = Some v \<and> u_is_active v))"
    by blast
  have "principal_of (find_user ?s (u_id u)) = Inr \<lparr> p_user_id = ''u'', p_email = ''e'', p_roles = [''readonly''] \<rparr>"
    using u by (simp add: users find_user_def principal_of_def roles_for_def) (simp add: sample_user_def)
  with all [rule_format, of sample_env ?s] have "fst (get_current_principal ?L plain_codec sample_settings sample_env
      (Some (''Bearer '' @ access_token \<lparr> access_token = ''A'', refresh_token = ''R'' \<rparr>)) ?s)
      = Inr \<lparr> p_user_id = ''u'', p_email = ''e'', p_roles = [''readonly''] \<rparr>"
    unfolding Let_def sample_seconds by (simp add: sample_settings_def)
  with run show ?thesis by blast
qed

theorem access_control_witness:
  "\<exists>t. get_current_principal (sample_lib (sample_user [''readonly''])) plain_codec sample_settings sample_env (Some ''Bearer A'')
      (sample_account [''readonly'']) = (Inr \<lparr> p_user_id = ''u'', p_email = ''e'', p_roles = [''readonly''] \<rparr>, t)
    \<and> same_tables (sample_account [''readonly'']) t"
proof -
  let ?u = "sample_user [''readonly'']" and ?s = "sample_account [''readonly'']"
  have "fst (get_current_principal (sample_lib ?u) plain_codec sample_settings sample_env (Some ''Bearer A'') ?s)
      = Inr \<lparr> p_user_id = ''u'', p_email = ''e'', p_roles = [''readonly''] \<rparr>"
    using bearer_sample [of "[''readonly'']"] by (simp add: principal_of_def roles_for_def) (simp add: sample_user_def)
  then obtain t where run: "get_current_principal (sample_lib ?u) plain_codec sample_settings sample_env (Some ''Bearer A'') ?s
      = (Inr \<lparr> p_user_id = ''u'', p_email = ''e'', p_roles = [''readonly''] \<rparr>, t)" by (metis prod.collapse)
  from access_control [OF run] have "same_tables ?s t" by blast
  with run show ?thesis by blast
qed

theorem ingest_key_gate_witness:
  "with_ingest_key sample_platform sample_settings
     [\<lparr> k_id = ''k'', k_label = ''core'', k_hashed_key = ''hraw'', k_scope = ''ingest'', k_is_active = False \<rparr>] (Some ''raw'') healthy 0
     (\<lambda>k. ret ()) (Map.empty, empty_state) = (Inl (HTTPException 401 ''invalid_api_key''), (Map.empty, empty_state))"
proof -
  have "distinct (map k_hashed_key [\<lparr> k_id = ''k'', k_label = ''core'', k_hashed_key = ''hraw'', k_scope = ''ingest'', k_is_active = False \<rparr>])"
    by simp
  from ingest_key_gate [OF this, of sample_platform sample_settings "Some ''raw''" healthy 0 "\<lambda>k. ret ()" "(Map.empty, empty_state)"]
  show ?thesis by (simp add: sample_platform_def)
qed

end
