(* ===== verification/Operations.thy ===== *)
theory Operations
  imports Search
begin

text \<open>
  The small endpoints and the middleware around all of them: \<open>app/users/routes.py\<close> (the directory that the
  assignee picker shows), \<open>app/ops/routes.py\<close> (probes and the gauge of open cases) and
  \<open>CorrelationIdMiddleware\<close> of \<open>app/logging.py\<close>.

  The properties say what these parts are for: the directory lists exactly the users that a case can be
  assigned to, and the id a client sends is the one in the audit events of its request; if that id
  is too long for its column, the request fails.
\<close>

section \<open>Definitions\<close>

record user_out =
  uo_id :: uuid
  uo_email :: string
  uo_display_name :: string

text \<open>\<open>collation\<close> ranks texts as \<open>ORDER BY\<close> does; e-mail addresses are unique.\<close>

definition list_users :: "(string \<Rightarrow> nat) \<Rightarrow> principal \<Rightarrow> user_out list op" where
  "list_users collation actor =
     in_transaction (bind_op (require_role [''analyst'', ''admin'', ''readonly''] actor) (\<lambda>_.
       bind_op (read_state (\<lambda>s. sort_key (\<lambda>u. collation (u_email u)) (filter u_is_active (users s)))) (\<lambda>rows.
         ret (map (\<lambda>u. \<lparr> uo_id = u_id u, uo_email = u_email u, uo_display_name = u_display_name u \<rparr>) rows))))"

definition healthz :: "(string \<times> string) list" where
  "healthz = [(''status'', ''ok'')]"

text \<open>A check that fails is given by the name of its exception's type.\<close>

record readiness =
  rd_status_code :: nat
  rd_status :: string
  rd_checks :: "(string \<times> string) list"

definition readyz :: "string option \<Rightarrow> string option \<Rightarrow> readiness" where
  "readyz database_error redis_error =
     (let check = (\<lambda>e. case e of None \<Rightarrow> ''ok'' | Some t \<Rightarrow> ''error: '' @ t);
          ok = (database_error = None \<and> redis_error = None)
      in \<lparr> rd_status_code = (if ok then 200 else 503), rd_status = (if ok then ''ready'' else ''not_ready''),
           rd_checks = [(''database'', check database_error), (''redis'', check redis_error)] \<rparr>)"

definition TERMINAL_STATUSES :: "string list" where
  "TERMINAL_STATUSES = [''Closed'', ''Merged'']"

text \<open>The gauge after a scrape; a database error leaves it as it was.\<close>

definition refresh_cases_open :: "bool \<Rightarrow> state \<Rightarrow> nat \<Rightarrow> nat" where
  "refresh_cases_open database_fails s gauge =
     (if database_fails then gauge
      else length (filter (\<lambda>c. c_status c \<notin> set TERMINAL_STATUSES) (cases s)))"

text \<open>\<open>dispatch\<close>: the header of the request or a fresh UUID is bound for the request, and sent back. The
  response is there only if the rest of the stack returns one.\<close>

definition dispatch :: "string option \<Rightarrow> uuid \<Rightarrow> env \<Rightarrow> (env \<Rightarrow> 'a op) \<Rightarrow> ('a \<times> string) op" where
  "dispatch header fresh E call_next =
     (let cid = (case header of None \<Rightarrow> fresh | Some h \<Rightarrow> h)
      in bind_op (call_next (E\<lparr> correlation := Some cid \<rparr>)) (\<lambda>response. ret (response, cid)))"

section \<open>The directory and the assignment\<close>

lemma list_users_run:
  assumes "set (p_roles actor) \<inter> {''analyst'', ''admin'', ''readonly''} \<noteq> {}"
  shows "list_users collation actor s = (Inr (map (\<lambda>u. \<lparr> uo_id = u_id u, uo_email = u_email u, uo_display_name = u_display_name u \<rparr>)
      (sort_key (\<lambda>u. collation (u_email u)) (filter u_is_active (users s)))), s)"
  using assms by (auto simp: list_users_def in_transaction_def run_simps Int_commute)

text \<open>Users by id, as the table's primary key gives them.\<close>

definition assignable :: "state \<Rightarrow> uuid \<Rightarrow> bool" where
  "assignable s u \<longleftrightarrow> (case List.find (\<lambda>r. u_id r = u) (users s) of None \<Rightarrow> False | Some usr \<Rightarrow> u_is_active usr)"

lemma assignable_iff:
  assumes "distinct (map u_id (users s))"
  shows "assignable s u \<longleftrightarrow> u \<in> u_id ` set (filter u_is_active (users s))"
proof (cases "List.find (\<lambda>r. u_id r = u) (users s)")
  case None
  then show ?thesis by (simp add: assignable_def) (auto simp: find_None_iff)
next
  case (Some v)
  then have v: "v \<in> set (users s)" "u_id v = u" by (auto simp: find_Some_iff)
  have "u_is_active v" if "u \<in> u_id ` set (filter u_is_active (users s))"
  proof -
    from that obtain w where w: "w \<in> set (users s)" "u_id w = u" "u_is_active w" by auto
    have "w = v" using assms inj_onD [of u_id "set (users s)" w v] v w by (simp add: distinct_map)
    with w show ?thesis by simp
  qed
  moreover have "u \<in> u_id ` set (filter u_is_active (users s))" if "u_is_active v"
    using that v by (intro image_eqI [of _ _ v]) simp_all
  ultimately have "u \<in> u_id ` set (filter u_is_active (users s)) \<longleftrightarrow> u_is_active v" by blast
  with Some show ?thesis by (simp add: assignable_def)
qed

lemma assign_case_run:
  assumes "find_case s i = Some c" and "c_status c \<noteq> ''Merged''"
  shows "assign_case E i (Some u) actor s =
    (if \<not> assignable s u then (Inl (InvalidAssignee u), s)
     else let c1 = c\<lparr> c_assignee_id := Some u, c_version := c_version c + 1 \<rparr>
       in case record_audit E (case_stream i) (Some actor) ''case.assigned'' ''case'' i None
            (Some (assignee_json (c_assignee_id c))) (Some (assignee_json (Some u)))
            (s\<lparr> cases := stored E c1 (cases s) \<rparr>) of
          (Inl e, t) \<Rightarrow> (Inl e, t) | (Inr e, t) \<Rightarrow> (Inr c1, t))"
proof (cases "assignable s u")
  case False
  then show ?thesis using assms
    by (simp add: assign_case_def bind_op_apply lock_case_run read_state_def guard_def raise_exn_def assignable_def [symmetric])
next
  case True
  have "c_id c = i" using find_case_Some [OF assms(1)] by simp
  with True assms show ?thesis
    by (simp add: assign_case_def bind_op_apply lock_case_run read_state_def guard_def ret_def assignable_def [symmetric]
        save_case_def modify_def stored_def [symmetric] Let_def split: prod.split sum.split)
qed

text \<open>The directory and the assignment agree: for a case that may be changed, the assignment to a user is
  refused with 422 exactly for the ids that are not in the directory, and goes through for all that are. The
  directory itself is in order of e-mail address, shows each active account once and changes nothing.\<close>

theorem directory_assignable:
  assumes "audit_inv (env_platform E) s" and "distinct (map u_id (users s))" and "request_fits E i actor"
    and "find_case s i = Some c" and "c_status c \<noteq> ''Merged''" and "''analyst'' \<in> set (p_roles actor)"
    and "distinct (map c_id (cases s))"
  shows "\<exists>us. list_users collation actor s = (Inr us, s)
    \<and> sorted (map (\<lambda>u. collation (uo_email u)) us) \<and> distinct (map uo_id us)
    \<and> (u \<notin> uo_id ` set us \<longrightarrow>
         (\<exists>t. assign_case_endpoint E i (Some u) actor s = (Inl (HTTPException 422 ''invalid_assignee''), t) \<and> same_tables s t))
    \<and> (u \<in> uo_id ` set us \<longrightarrow>
         (\<exists>c' t. assign_case_endpoint E i (Some u) actor s = (Inr c', t) \<and> find_case t i = Some c'
            \<and> c_assignee_id c' = Some u \<and> c_version c' = c_version c + 1))"
proof -
  let ?rows = "sort_key (\<lambda>u. collation (u_email u)) (filter u_is_active (users s))"
  let ?us = "map (\<lambda>u. \<lparr> uo_id = u_id u, uo_email = u_email u, uo_display_name = u_display_name u \<rparr>) ?rows"
  have run: "list_users collation actor s = (Inr ?us, s)" using assms(6) by (intro list_users_run) auto
  have order: "sorted (map (\<lambda>u. collation (uo_email u)) ?us)" by (simp add: o_def)
  have once: "distinct (map uo_id ?us)" using assms(2) by (auto simp: o_def distinct_map inj_on_def)
  have ids: "uo_id ` set ?us = u_id ` set (filter u_is_active (users s))" by (simp add: image_image)
  have role: "set [''analyst'', ''admin''] \<inter> set (p_roles actor) \<noteq> {}" using assms(6) by auto
  have refused: "\<exists>t. assign_case_endpoint E i (Some u) actor s = (Inl (HTTPException 422 ''invalid_assignee''), t) \<and> same_tables s t"
    if "u \<notin> uo_id ` set ?us"
  proof -
    have "\<not> assignable s u" using that assignable_iff [OF assms(2)] by (simp only: ids not_False_eq_True)
    then have "assign_case E i (Some u) actor s = (Inl (InvalidAssignee u), s)"
      by (simp add: assign_case_run [OF assms(4,5)])
    with role have "fst (assign_case_endpoint E i (Some u) actor s) = Inl (HTTPException 422 ''invalid_assignee'')"
      by (simp only: assign_case_endpoint_def in_transaction_fst bind_op_apply require_role_run if_True not_False_eq_True prod.case sum.case
          catch_op_def assign_http.simps fst_conv)
    then show ?thesis using in_transaction_same_tables by (metis assign_case_endpoint_def prod.collapse)
  qed
  have accepted: "\<exists>c' t. assign_case_endpoint E i (Some u) actor s = (Inr c', t) \<and> find_case t i = Some c'
      \<and> c_assignee_id c' = Some u \<and> c_version c' = c_version c + 1" if "u \<in> uo_id ` set ?us"
  proof -
    let ?c = "c\<lparr> c_assignee_id := Some u, c_version := c_version c + 1 \<rparr>"
    let ?s = "s\<lparr> cases := stored E ?c (cases s) \<rparr>"
    have inv: "audit_inv (env_platform E) ?s" using assms(1) by simp
    have cid: "c_id c = i" using find_case_Some [OF assms(4)] by simp
    have action: "fits 100 ''case.assigned''" and target: "fits 100 ''case''" by (simp_all add: fits_def)
    have id_fits: "fits 255 i" using assms(3) fits_stream by (simp add: request_fits_def)
    obtain e t where audit: "record_audit E (case_stream i) (Some actor) ''case.assigned'' ''case'' i None
        (Some (assignee_json (c_assignee_id c))) (Some (assignee_json (Some u))) ?s = (Inr e, t)"
      using record_audit_reason [OF inv assms(3) action target id_fits, of None] by (simp only: fits_opt_None) blast
    have "assignable s u" using that assignable_iff [OF assms(2)] by (simp only: ids)
    with audit have run': "assign_case E i (Some u) actor s = (Inr ?c, t)"
      by (simp add: assign_case_run [OF assms(4,5)] Let_def)
    have "cases t = stored E ?c (cases s)" using record_audit_frame(3) [OF audit inv] by simp
    then have "find_case t i = Some (?c\<lparr> c_updated_at := txn_now E \<rparr>)"
      using stored_find [of s ?c c t E] assms(4,7) cid by simp
    with run' role cid show ?thesis
      by (simp add: assign_case_endpoint_def in_transaction_def bind_op_apply require_role_run catch_op_def
          reload_case_def run_simps)
  qed
  show ?thesis using run order once refused accepted by blast
qed

section \<open>The correlation id\<close>

lemma record_audit_long_correlation:
  assumes "request_fits (E\<lparr> correlation := None \<rparr>) i actor" and "\<not> fits_opt 255 (correlation E)"
  shows "\<exists>t. record_audit E (case_stream i) (Some actor) action tt tid reason before after s = (Inl DataError, t)"
proof -
  obtain s1 where "ensure_stream (case_stream i) s = (Inr (), s1)"
    using assms(1) by (simp add: ensure_stream_def run_simps request_fits_def)
  with assms(2) show ?thesis
    by (simp add: record_audit_def append_event_def flush_event_def run_simps event_fits_def Let_def)
qed

lemma record_audit_correlation:
  assumes "record_audit E k actor action tt tid reason before after s = (Inr e, t)"
  shows "ev_correlation_id e = correlation E"
  using assms
  by (auto simp: record_audit_def append_event_def flush_event_def Let_def op_simps split: prod.splits sum.splits)

text \<open>C34: The id in \<open>X-Correlation-ID\<close> follows its request. For an assignment that is otherwise in order: with an
  id that fits its column the response repeats the id, and the one event that the request appends carries it;
  with a longer one (nothing checks the header) the request fails inside the database and changes no table.\<close>

theorem correlation_follows:
  assumes "audit_inv (env_platform E) s" and "request_fits (E\<lparr> correlation := None \<rparr>) i actor"
    and "find_case s i = Some c" and "c_status c \<noteq> ''Merged''" and "''analyst'' \<in> set (p_roles actor)"
    and "distinct (map c_id (cases s))" and "assignable s u"
  shows "(fits 255 h \<longrightarrow> (\<exists>c' t e. dispatch (Some h) fresh E (\<lambda>E. assign_case_endpoint E i (Some u) actor) s = (Inr (c', h), t)
        \<and> events t = events s @ [e] \<and> ev_correlation_id e = Some h))
    \<and> (255 < length h \<longrightarrow> (\<exists>t. dispatch (Some h) fresh E (\<lambda>E. assign_case_endpoint E i (Some u) actor) s = (Inl DataError, t)
        \<and> same_tables s t))"
proof -
  let ?E = "E\<lparr> correlation := Some h \<rparr>" and ?c = "c\<lparr> c_assignee_id := Some u, c_version := c_version c + 1 \<rparr>"
  let ?s = "s\<lparr> cases := stored ?E ?c (cases s) \<rparr>"
  let ?audit = "record_audit ?E (case_stream i) (Some actor) ''case.assigned'' ''case'' i None
    (Some (assignee_json (c_assignee_id c))) (Some (assignee_json (Some u))) ?s"
  have inv: "audit_inv (env_platform ?E) ?s" using assms(1) by simp
  have cid: "c_id c = i" using find_case_Some [OF assms(3)] by simp
  have role: "set [''analyst'', ''admin''] \<inter> set (p_roles actor) \<noteq> {}" using assms(5) by auto
  note run = assign_case_run [OF assms(3,4), of ?E u actor, simplified assms(7) Let_def not_True_eq_False if_False]
  have short: "\<exists>c' t e. assign_case_endpoint ?E i (Some u) actor s = (Inr c', t)
      \<and> events t = events s @ [e] \<and> ev_correlation_id e = Some h" if "fits 255 h"
  proof -
    have fits: "request_fits ?E i actor" using assms(2) that by (simp add: request_fits_def)
    have action: "fits 100 ''case.assigned''" and target: "fits 100 ''case''" by (simp_all add: fits_def)
    have id_fits: "fits 255 i" using assms(2) fits_stream by (simp add: request_fits_def)
    obtain e t where audit: "?audit = (Inr e, t)"
      using record_audit_reason [OF inv fits action target id_fits, of None] by (simp only: fits_opt_None) blast
    have "cases t = stored ?E ?c (cases s)" "events t = events s @ [e]" "ev_correlation_id e = Some h"
      using record_audit_frame(3,9) [OF audit inv] record_audit_correlation [OF audit] by simp_all
    moreover from this have "find_case t i = Some (?c\<lparr> c_updated_at := txn_now E \<rparr>)"
      using stored_find [of s ?c c t ?E] assms(3,6) cid by simp
    moreover have "assign_case ?E i (Some u) actor s = (Inr ?c, t)" using run audit by simp
    ultimately show ?thesis using role cid
      by (simp add: assign_case_endpoint_def in_transaction_def bind_op_apply require_role_run catch_op_def
          reload_case_def run_simps)
  qed
  have long: "\<exists>t. assign_case_endpoint ?E i (Some u) actor s = (Inl DataError, t)" if "255 < length h"
  proof -
    have "request_fits (?E\<lparr> correlation := None \<rparr>) i actor" "\<not> fits_opt 255 (correlation ?E)"
      using assms(2) that by (simp_all add: fits_def)
    from record_audit_long_correlation [OF this] obtain t where "?audit = (Inl DataError, t)" by blast
    then have "assign_case ?E i (Some u) actor s = (Inl DataError, t)" using run by simp
    with role show ?thesis
      by (simp add: assign_case_endpoint_def in_transaction_def bind_op_apply require_role_run catch_op_def)
  qed
  have "same_tables s t" if "assign_case_endpoint ?E i (Some u) actor s = (Inl DataError, t)" for t
    using that by (simp add: assign_case_endpoint_def in_transaction_same_tables)
  with short long show ?thesis by (fastforce simp: dispatch_def bind_op_apply ret_def)
qed

section \<open>Witnesses\<close>

definition staffed :: state where
  "staffed = (sample_state ''Open'')\<lparr> users :=
     [\<lparr> u_id = ''u'', u_email = ''ana@x'', u_display_name = ''Ana'', u_password_hash = ''h'', u_is_active = True,
        u_roles = [''analyst''] \<rparr>,
      \<lparr> u_id = ''v'', u_email = ''bob@x'', u_display_name = ''Bob'', u_password_hash = ''h'', u_is_active = False,
        u_roles = [''analyst''] \<rparr>] \<rparr>"

lemma staffed_ok:
  "audit_inv P staffed" "distinct (map u_id (users staffed))" "find_case staffed ''1'' = Some (sample_case ''Open'')"
  "distinct (map c_id (cases staffed))" "assignable staffed ''u''" "\<not> assignable staffed ''v''"
  "c_status (sample_case ''Open'') \<noteq> ''Merged''" "''analyst'' \<in> set (p_roles sample_actor)"
  using sample_state_simps(1) [of P "''Open''"] sample_state_simps(3) [of "''Open''"]
  by (simp_all add: staffed_def assignable_def find_case_def sample_actor_def audit_inv_def)

theorem directory_assignable_witness:
  "\<exists>c' t. assign_case_endpoint sample_env ''1'' (Some ''u'') sample_actor staffed = (Inr c', t) \<and> c_assignee_id c' = Some ''u''"
proof -
  obtain us where us: "list_users length sample_actor staffed = (Inr us, staffed)"
    "''u'' \<in> uo_id ` set us \<longrightarrow> (\<exists>c' t. assign_case_endpoint sample_env ''1'' (Some ''u'') sample_actor staffed = (Inr c', t)
       \<and> c_assignee_id c' = Some ''u'')"
    using directory_assignable [OF staffed_ok(1,2) sample_request_fits staffed_ok(3,7,8,4), of length "''u''"] by blast
  have "us = [\<lparr> uo_id = ''u'', uo_email = ''ana@x'', uo_display_name = ''Ana'' \<rparr>]"
    using us(1) list_users_run [of sample_actor length staffed] by (simp add: sample_actor_def staffed_def)
  with us(2) show ?thesis by simp
qed

theorem correlation_follows_witness:
  "(\<exists>c' t e. dispatch (Some ''r-1'') ''f'' sample_env (\<lambda>E. assign_case_endpoint E ''1'' (Some ''u'') sample_actor) staffed
      = (Inr (c', ''r-1''), t) \<and> events t = [e] \<and> ev_correlation_id e = Some ''r-1'')
   \<and> (\<exists>t. dispatch (Some (replicate 256 (CHR ''x''))) ''f'' sample_env (\<lambda>E. assign_case_endpoint E ''1'' (Some ''u'') sample_actor) staffed
      = (Inl DataError, t) \<and> same_tables staffed t)"
proof -
  have fits: "request_fits (sample_env\<lparr> correlation := None \<rparr>) ''1'' sample_actor"
    using sample_request_fits by (simp add: request_fits_def sample_env_def)
  note f = correlation_follows [OF staffed_ok(1) fits staffed_ok(3,7,8,4,5)]
  have "events staffed = []" by (simp add: staffed_def sample_state_def empty_state_def)
  moreover have "fits 255 ''r-1''" "255 < length (replicate 256 (CHR ''x''))" by (simp_all add: fits_def)
  ultimately show ?thesis using f [of "''r-1''"] f [of "replicate 256 (CHR ''x'')"] by (metis append_Nil)
qed

end
