(* ===== verification/Sampling.thy ===== *)
theory Sampling
  imports Numerics "HOL-Library.Multiset"
begin

text \<open>
  Python's \<open>random.Random\<close> as \<open>scripts/generate_synthetic.py\<close> uses it: the generator is a state, each
  draw returns a value and the next state, or raises. Two methods are parameters, \<open>random()\<close> and the
  integer draw \<open>_randbelow(n)\<close>; \<open>randrange\<close>, \<open>randint\<close>, \<open>uniform\<close>, \<open>choice\<close> and \<open>shuffle\<close> are written
  over them as the library has them. \<open>rng_laws\<close> is what the two promise.

  \<open>yields m Q\<close> is total correctness: from every state \<open>m\<close> returns, with a value in \<open>Q\<close>. The rules for
  sequencing, loops and each method reduce a program of draws to its values.
\<close>

section \<open>Draws\<close>

record 'g rng =
  random_unit :: "'g \<Rightarrow> rat \<times> 'g"
  randbelow :: "nat \<Rightarrow> 'g \<Rightarrow> nat \<times> 'g"

type_synonym ('g, 'a) draw = "'g \<Rightarrow> ('a \<times> 'g) result"

definition draw_ret :: "'a \<Rightarrow> ('g, 'a) draw" where
  "draw_ret x g = Inr (x, g)"

definition draw_lift :: "'a result \<Rightarrow> ('g, 'a) draw" where
  "draw_lift r g = rbind r (\<lambda>x. Inr (x, g))"

definition draw_bind :: "('g, 'a) draw \<Rightarrow> ('a \<Rightarrow> ('g, 'b) draw) \<Rightarrow> ('g, 'b) draw" where
  "draw_bind m f g = rbind (m g) (\<lambda>(x, g'). f x g')"

fun draw_fold :: "('x \<Rightarrow> 's \<Rightarrow> ('g, 's) draw) \<Rightarrow> 'x list \<Rightarrow> 's \<Rightarrow> ('g, 's) draw" where
  "draw_fold f [] s = draw_ret s"
| "draw_fold f (x # xs) s = draw_bind (f x s) (draw_fold f xs)"

definition random :: "'g rng \<Rightarrow> ('g, rat) draw" where
  "random R g = Inr (random_unit R g)"

definition randrange :: "'g rng \<Rightarrow> int \<Rightarrow> int \<Rightarrow> ('g, int) draw" where
  "randrange R start stop g =
     (if 0 < stop - start
      then let (j, g') = randbelow R (nat (stop - start)) g in Inr (start + int j, g')
      else Inl (ValueError ''empty range for randrange()''))"

definition randint :: "'g rng \<Rightarrow> int \<Rightarrow> int \<Rightarrow> ('g, int) draw" where
  "randint R a b = randrange R a (b + 1)"

definition uniform :: "'g rng \<Rightarrow> rat \<Rightarrow> rat \<Rightarrow> ('g, rat) draw" where
  "uniform R a b = draw_bind (random R) (\<lambda>u. draw_ret (fl (a + fl (fl (b - a) * u))))"

definition choice :: "'g rng \<Rightarrow> 'a list \<Rightarrow> ('g, 'a) draw" where
  "choice R xs g =
     (if xs = [] then Inl IndexError else let (j, g') = randbelow R (length xs) g in Inr (xs ! j, g'))"

definition swap_at :: "'g rng \<Rightarrow> nat \<Rightarrow> 'a list \<Rightarrow> ('g, 'a list) draw" where
  "swap_at R i xs g = (let (j, g') = randbelow R (i + 1) g in Inr (xs[i := xs ! j, j := xs ! i], g'))"

definition shuffle :: "'g rng \<Rightarrow> 'a list \<Rightarrow> ('g, 'a list) draw" where
  "shuffle R xs = draw_fold (swap_at R) (rev [1..<length xs]) xs"

section \<open>Total correctness\<close>

definition rng_laws :: "'g rng \<Rightarrow> bool" where
  "rng_laws R \<longleftrightarrow>
     (\<forall>g. 0 \<le> fst (random_unit R g) \<and> fst (random_unit R g) < 1)
     \<and> (\<forall>g n. 0 < n \<longrightarrow> fst (randbelow R n g) < n)"

definition yields :: "('g, 'a) draw \<Rightarrow> ('a \<Rightarrow> bool) \<Rightarrow> bool" where
  "yields m Q \<longleftrightarrow> (\<forall>g. \<exists>x g'. m g = Inr (x, g') \<and> Q x)"

lemma yieldsD: "yields m Q \<Longrightarrow> \<exists>x g'. m g = Inr (x, g') \<and> Q x" for g
  by (simp add: yields_def)

lemma yields_ret: "Q x \<Longrightarrow> yields (draw_ret x) Q"
  by (simp add: yields_def draw_ret_def)

lemma yields_lift: "r = Inr x \<Longrightarrow> Q x \<Longrightarrow> yields (draw_lift r) Q"
  by (simp add: yields_def draw_lift_def)

lemma yields_bind:
  assumes "yields m Q" and "\<And>x. Q x \<Longrightarrow> yields (f x) S"
  shows "yields (draw_bind m f) S"
  unfolding yields_def
proof
  fix g
  from yieldsD [OF assms(1), of g] obtain x g' where "m g = Inr (x, g')" "Q x" by blast
  with yieldsD [OF assms(2), of x g'] show "\<exists>y g'. draw_bind m f g = Inr (y, g') \<and> S y"
    by (auto simp: draw_bind_def)
qed

lemma yields_mono: "yields m Q \<Longrightarrow> (\<And>x. Q x \<Longrightarrow> S x) \<Longrightarrow> yields m S"
  by (metis yields_def)

lemma yields_fold:
  assumes "I 0 s" and "\<And>i s. i < length xs \<Longrightarrow> I i s \<Longrightarrow> yields (f (xs ! i) s) (I (Suc i))"
  shows "yields (draw_fold f xs s) (I (length xs))"
  using assms
proof (induction xs arbitrary: s I)
  case Nil
  then show ?case by (simp add: yields_ret)
next
  case (Cons x xs)
  have "yields (draw_fold f xs t) (I (Suc (length xs)))" if "I (Suc 0) t" for t
    using Cons.IH [of "\<lambda>i. I (Suc i)" t] Cons.prems(2) that by fastforce
  moreover from Cons.prems(2) [of 0 s] Cons.prems(1) have "yields (f x s) (I (Suc 0))" by simp
  ultimately show ?case by (simp add: yields_bind)
qed

text \<open>The same for a loop over a range, whose items are its positions.\<close>

lemma yields_range:
  assumes "I 0 s" and "\<And>i s. i < n \<Longrightarrow> I i s \<Longrightarrow> yields (f i s) (I (Suc i))"
  shows "yields (draw_fold f [0..<n] s) (I n)"
  using yields_fold [of I s "[0..<n]" f] assms by simp

section \<open>What each method yields\<close>

named_theorems draw_rules \<open>a draw and what follows it\<close>

lemma yields_random: "rng_laws R \<Longrightarrow> yields (random R) (\<lambda>u. 0 \<le> u \<and> u < 1)"
  by (simp add: yields_def random_def rng_laws_def) (metis prod.collapse)

lemma yields_randrange: "rng_laws R \<Longrightarrow> a < b \<Longrightarrow> yields (randrange R a b) (\<lambda>n. a \<le> n \<and> n < b)"
proof -
  assume R: "rng_laws R" and ab: "a < b"
  have "int (fst (randbelow R (nat (b - a)) g)) < b - a" for g
    using R ab unfolding rng_laws_def by (metis diff_gt_0_iff_gt zless_nat_eq_int_zless zero_less_nat_eq)
  with ab show ?thesis by (auto simp: yields_def randrange_def split_beta algebra_simps)
qed

lemma yields_randint: "rng_laws R \<Longrightarrow> a \<le> b \<Longrightarrow> yields (randint R a b) (\<lambda>n. a \<le> n \<and> n \<le> b)"
  using yields_randrange [of R a "b + 1"] by (auto simp: randint_def elim: yields_mono)

lemma yields_choice: "rng_laws R \<Longrightarrow> xs \<noteq> [] \<Longrightarrow> yields (choice R xs) (\<lambda>x. x \<in> set xs)"
  by (auto simp: yields_def choice_def split_beta rng_laws_def)

lemma yields_uniform:
  assumes "rng_laws R" and "a \<le> b"
  shows "yields (uniform R a b) (\<lambda>x. fl a \<le> x \<and> x \<le> fl (a + fl (b - a)) \<and> is_float x)"
  unfolding uniform_def
proof (rule yields_bind [OF yields_random [OF assms(1)]], rule yields_ret, elim conjE)
  fix u :: rat assume u: "0 \<le> u" "u < 1"
  have w: "0 \<le> fl (b - a)" using assms(2) by (simp add: fl_nonneg)
  have "0 \<le> fl (fl (b - a) * u)" using u w by (simp add: fl_nonneg)
  moreover have "fl (b - a) * u \<le> fl (b - a)" using u w by (simp add: mult_left_le)
  from fl_mono [OF this] have "fl (fl (b - a) * u) \<le> fl (b - a)" by simp
  ultimately show "fl a \<le> fl (a + fl (fl (b - a) * u)) \<and> fl (a + fl (fl (b - a) * u)) \<le> fl (a + fl (b - a))
      \<and> is_float (fl (a + fl (fl (b - a) * u)))"
    by (simp add: fl_mono is_float_def)
qed

lemma yields_shuffle:
  assumes "rng_laws R"
  shows "yields (shuffle R xs) (\<lambda>ys. mset ys = mset xs)"
proof -
  have swap: "mset (xs[i := xs ! j, j := xs ! i]) = mset xs" if "i < length xs" "j < length xs"
    for i j and xs :: "'b list" using that by (simp add: mset_update nth_list_update)
  have step: "yields (swap_at R i ys) (\<lambda>zs. mset zs = mset xs \<and> length zs = length xs)"
    if "i < length xs" "mset ys = mset xs" "length ys = length xs" for i ys
  proof -
    have "fst (randbelow R (i + 1) g) < i + 1" for g using assms by (simp add: rng_laws_def)
    then have "fst (randbelow R (i + 1) g) < length ys" for g
      using that by (metis Suc_eq_plus1 Suc_leI order_less_le_trans)
    then show ?thesis using that
      by (auto simp: yields_def swap_at_def split_beta swap simp del: mset_swap)
  qed
  have "yields (draw_fold (swap_at R) (rev [1..<length xs]) xs) (\<lambda>ys. mset ys = mset xs \<and> length ys = length xs)"
    by (rule yields_fold [where I = "\<lambda>_ ys. mset ys = mset xs \<and> length ys = length xs", simplified])
      (auto intro!: step simp: rev_nth)
  then show ?thesis by (auto simp: shuffle_def elim: yields_mono)
qed

text \<open>Stepping through a sequence of draws.\<close>

lemma bind_random [draw_rules]:
  "rng_laws R \<Longrightarrow> (\<And>u. 0 \<le> u \<Longrightarrow> u < 1 \<Longrightarrow> yields (f u) S) \<Longrightarrow> yields (draw_bind (random R) f) S"
  by (rule yields_bind [OF yields_random]) auto

lemma bind_randrange [draw_rules]:
  "rng_laws R \<Longrightarrow> a < b \<Longrightarrow> (\<And>n. a \<le> n \<Longrightarrow> n < b \<Longrightarrow> yields (f n) S) \<Longrightarrow> yields (draw_bind (randrange R a b) f) S"
  by (rule yields_bind [OF yields_randrange]) auto

lemma bind_randint [draw_rules]:
  "rng_laws R \<Longrightarrow> a \<le> b \<Longrightarrow> (\<And>n. a \<le> n \<Longrightarrow> n \<le> b \<Longrightarrow> yields (f n) S) \<Longrightarrow> yields (draw_bind (randint R a b) f) S"
  by (rule yields_bind [OF yields_randint]) auto

lemma bind_choice [draw_rules]:
  "rng_laws R \<Longrightarrow> xs \<noteq> [] \<Longrightarrow> (\<And>x. x \<in> set xs \<Longrightarrow> yields (f x) S) \<Longrightarrow> yields (draw_bind (choice R xs) f) S"
  by (rule yields_bind [OF yields_choice]) auto

lemma bind_uniform [draw_rules]:
  "rng_laws R \<Longrightarrow> a \<le> b \<Longrightarrow>
     (\<And>x. fl a \<le> x \<Longrightarrow> x \<le> fl (a + fl (b - a)) \<Longrightarrow> is_float x \<Longrightarrow> yields (f x) S) \<Longrightarrow>
     yields (draw_bind (uniform R a b) f) S"
  by (rule yields_bind [OF yields_uniform]) auto

lemma bind_ret [simp]: "draw_bind (draw_ret x) f = f x"
  by (simp add: draw_bind_def draw_ret_def fun_eq_iff)

lemma bind_lift_Inr [simp]: "draw_bind (draw_lift (Inr x)) f = f x"
  by (simp add: draw_bind_def draw_lift_def fun_eq_iff)

lemma bind_assoc [simp]: "draw_bind (draw_bind m f) h = draw_bind m (\<lambda>x. draw_bind (f x) h)"
  by (auto simp: draw_bind_def rbind_def fun_eq_iff split: sum.splits prod.splits)

end
