(* ===== verification/Synthetic.thy ===== *)
theory Synthetic
  imports Sampling Engine
begin

text \<open>
  \<open>scripts/generate_synthetic.py\<close>: the labelled data set that the benchmark and the seed run on. A row
  is the dict the script writes as one JSON object; a cell is what such a dict can hold. The draws are
  those of \<open>Sampling\<close>, in the order of the code; \<open>isoformat\<close> and \<open>str\<close> of a float are the platform's, and
  \<open>reader\<close> is \<open>Decimal(text)\<close> and \<open>datetime.fromisoformat(text)\<close> of the library (for a text that carries
  an offset, the instant) and \<open>str\<close> of a list.

  The lemmas follow the module's own description: rows of one cluster share what they should, rows of
  different groups share no key that a rule could block on, and every row is one that the alert schema
  accepts.
\<close>

section \<open>Rows\<close>

datatype cell =
    Null
  | Text string
  | Num int
  | Texts "string list"

type_synonym row = "(string \<times> cell) list"

record reader =
  to_decimal :: "string \<Rightarrow> rat option"
  from_iso :: "string \<Rightarrow> int option"
  str_list :: "string list \<Rightarrow> string"

definition BASE_TIME :: int where
  "BASE_TIME = 1767690000 * 10 ^ 6"
  \<comment> \<open>2026-01-06T09:00:00Z in microseconds\<close>

definition SOURCE_SYSTEMS :: "string list" where
  "SOURCE_SYSTEMS = [''acme-fraud'', ''txmon-core'', ''sanctions-screen'']"

definition CURRENCIES :: "string list" where
  "CURRENCIES = [''USD'', ''EUR'', ''GBP'']"

definition DIRECTIONS :: "string list" where
  "DIRECTIONS = [''inbound'', ''outbound'', ''internal'']"

definition MERCHANTS :: "string list" where
  "MERCHANTS = [''Quick Cash LLC'', ''Blue Harbor Retail'', ''Nova Telecom'', ''Riverbank Supplies'',
     ''Apex Digital Goods'', ''Meridian Travel'', ''Coastline Foods'', ''Ironwood Hardware'']"

definition MCCS :: "string list" where
  "MCCS = [''6011'', ''5411'', ''4829'', ''5999'', ''7995'']"

definition TYPOLOGIES :: "string list" where
  "TYPOLOGIES = [''structuring'', ''layering'', ''card-testing'', ''account-takeover'', ''mule-network'']"

definition EXACT_AMOUNT_RATE :: rat where "EXACT_AMOUNT_RATE = fl (8 / 10)"
definition SHARE_DEVICE_RATE :: rat where "SHARE_DEVICE_RATE = fl (4 / 10)"
definition SHARE_IP_SESSION_RATE :: rat where "SHARE_IP_SESSION_RATE = fl (3 / 10)"
definition AMBIG_TIME_SECONDS :: "rat \<times> rat" where "AMBIG_TIME_SECONDS = (7200, 36000)"
definition AMBIG_AMOUNT_DRIFT :: "rat \<times> rat" where "AMBIG_AMOUNT_DRIFT = (fl (5 / 100), fl (22 / 100))"
definition CLUSTER_TIME_WINDOW_HOURS :: "rat \<times> rat" where "CLUSTER_TIME_WINDOW_HOURS = (6, 12)"
definition DECOY_TIME_SECONDS :: rat where "DECOY_TIME_SECONDS = 72000"

text \<open>\<open>(n >> 16) & 0xFF\<close> and so on.\<close>

definition octet :: "nat \<Rightarrow> nat \<Rightarrow> string" where
  "octet k n = nat_text (n div 2 ^ k mod 256)"

definition ipv4 :: "nat \<Rightarrow> string" where
  "ipv4 n = ''10.'' @ octet 16 n @ ''.'' @ octet 8 n @ ''.'' @ octet 0 n"

text \<open>\<open>str\<close> of a decimal with two places, and its quantisation half away from zero.\<close>

definition cents_text :: "nat \<Rightarrow> string" where
  "cents_text n = nat_text (n div 100) @ ''.'' @ [char_of (48 + n div 10 mod 10), char_of (48 + n mod 10)]"

definition amount_str :: "rat \<Rightarrow> string result" where
  "amount_str v =
     (let n = nat \<lfloor>\<bar>v\<bar> * 100 + 1 / 2\<rfloor>
      in if n < 10 ^ 28 then Inr ((if v < 0 then ''-'' else []) @ cents_text n) else Inl InvalidOperation)"

definition prune :: "row \<Rightarrow> row" where
  "prune r = filter (\<lambda>(k, v). v \<noteq> Null) r"

text \<open>The dict literal that the four kinds of rows share.\<close>

definition alert_dict ::
  "string \<Rightarrow> string \<Rightarrow> string \<Rightarrow> string \<Rightarrow> string \<Rightarrow> string \<Rightarrow> string \<times> string \<times> string \<Rightarrow> string \<Rightarrow> string
     \<Rightarrow> string \<times> string \<times> string \<Rightarrow> int \<Rightarrow> string list \<Rightarrow> string \<Rightarrow> row" where
  "alert_dict ext source time amount currency direction = (\<lambda>(customer, account, counterparty) merchant mcc
     (device, ip, session) risk typologies gid.
     prune
       [(''external_alert_id'', Text ext), (''source_system'', Text source), (''event_time'', Text time),
        (''amount'', Text amount), (''currency'', Text currency), (''direction'', Text direction),
        (''customer_ref'', Text customer), (''account_ref'', Text account), (''counterparty_ref'', Text counterparty),
        (''merchant_name'', Text merchant), (''mcc'', Text mcc), (''device_id'', Text device),
        (''ip_address'', Text ip), (''session_id'', Text session), (''risk_score'', Num risk),
        (''typologies'', Texts typologies), (''ground_truth_group_id'', Text gid)])"

section \<open>The generator\<close>

record gen =
  g_rows :: "row list"
  g_ip_counter :: nat
  g_starts :: "int list"
  g_accounts :: "string list"

record cluster =
  cl_gid :: string
  cl_size :: int
  cl_start :: int
  cl_window :: rat
  cl_account :: string
  cl_counterparty :: string
  cl_customer :: string
  cl_merchant :: string
  cl_mcc :: string
  cl_currency :: string
  cl_source :: string
  cl_typologies :: "string list"
  cl_amount :: rat
  cl_device :: string
  cl_session :: string
  cl_ip :: string

definition int_of_float :: "rat \<Rightarrow> int" where
  "int_of_float x = (if 0 \<le> x then \<lfloor>x\<rfloor> else \<lceil>x\<rceil>)"

definition secs :: "int \<Rightarrow> int" where "secs n = n * 10 ^ 6"
definition minutes :: "int \<Rightarrow> int" where "minutes n = n * (60 * 10 ^ 6)"
definition days :: "int \<Rightarrow> int" where "days n = n * (86400 * 10 ^ 6)"

text \<open>\<open>Decimal(str(x))\<close> of a float.\<close>

definition decimal_of_float :: "platform \<Rightarrow> reader \<Rightarrow> rat \<Rightarrow> rat result" where
  "decimal_of_float P L x = (case to_decimal L (float_repr P x) of None \<Rightarrow> Inl InvalidOperation | Some d \<Rightarrow> Inr d)"

definition random_sign :: "'g rng \<Rightarrow> ('g, rat) draw" where
  "random_sign R = draw_bind (random R) (\<lambda>u. draw_ret (if u < 1 / 2 then 1 else - 1))"

definition drifted :: "rat \<Rightarrow> rat \<Rightarrow> rat \<Rightarrow> rat" where
  "drifted base sign drift = dec (base * dec (1 + dec (sign * drift)))"

definition new_cluster :: "'g rng \<Rightarrow> int \<Rightarrow> int \<Rightarrow> nat \<Rightarrow> nat \<Rightarrow> ('g, cluster) draw" where
  "new_cluster R lo hi i ip_counter =
     draw_bind (randint R lo hi) (\<lambda>size.
     draw_bind (randint R 0 240) (\<lambda>d.
     draw_bind (randint R 0 600) (\<lambda>m.
     draw_bind (uniform R (fst CLUSTER_TIME_WINDOW_HOURS) (snd CLUSTER_TIME_WINDOW_HOURS)) (\<lambda>hours.
     draw_bind (choice R MERCHANTS) (\<lambda>merchant.
     draw_bind (choice R MCCS) (\<lambda>mcc.
     draw_bind (choice R CURRENCIES) (\<lambda>currency.
     draw_bind (choice R SOURCE_SYSTEMS) (\<lambda>source.
     draw_bind (choice R TYPOLOGIES) (\<lambda>typology.
     draw_bind (randrange R 1000 900000) (\<lambda>cents.
       draw_ret \<lparr> cl_gid = ''grp-'' @ nat_text i, cl_size = size, cl_start = BASE_TIME + (days d + minutes m),
          cl_window = fl (hours * 3600), cl_account = ''acct-c'' @ nat_text i, cl_counterparty = ''cp-c'' @ nat_text i,
          cl_customer = ''cust-c'' @ nat_text i, cl_merchant = merchant @ '' #'' @ nat_text i, cl_mcc = mcc,
          cl_currency = currency, cl_source = source, cl_typologies = [typology],
          cl_amount = dec (of_int cents / 100), cl_device = ''dev-c'' @ nat_text i,
          cl_session = ''sess-c'' @ nat_text i, cl_ip = ipv4 ip_counter \<rparr>))))))))))"

definition member_amount :: "'g rng \<Rightarrow> platform \<Rightarrow> reader \<Rightarrow> rat \<Rightarrow> nat \<Rightarrow> ('g, rat) draw" where
  "member_amount R P L base k =
     draw_bind (if k = 0 then draw_ret True
                else draw_bind (random R) (\<lambda>u. draw_ret (u \<ge> fl (1 - EXACT_AMOUNT_RATE)))) (\<lambda>exact.
       if exact then draw_ret base
       else
         draw_bind (uniform R 1 3) (\<lambda>x.
         draw_bind (draw_lift (decimal_of_float P L x)) (\<lambda>d.
         draw_bind (random_sign R) (\<lambda>sign.
           draw_ret (drifted base sign (dec (d / 100)))))))"

definition member :: "'g rng \<Rightarrow> platform \<Rightarrow> reader \<Rightarrow> nat \<Rightarrow> cluster \<Rightarrow> nat \<Rightarrow> gen \<Rightarrow> ('g, gen) draw" where
  "member R P L i cl k s =
     draw_bind (if k = 0 then draw_ret 0 else uniform R 0 (cl_window cl)) (\<lambda>offset.
     draw_bind (member_amount R P L (cl_amount cl) k) (\<lambda>amount.
     draw_bind (random R) (\<lambda>u.
     let device = if u < SHARE_DEVICE_RATE then cl_device cl else ''dev-c'' @ nat_text i @ ''-m'' @ nat_text k in
     draw_bind (random R) (\<lambda>v.
     let shared = v < SHARE_IP_SESSION_RATE;
         ip = if shared then cl_ip cl else ipv4 (g_ip_counter s);
         session = if shared then cl_session cl else ''sess-c'' @ nat_text i @ ''-m'' @ nat_text k;
         ip_counter = if shared then g_ip_counter s else g_ip_counter s + 1 in
     draw_bind (draw_lift (amount_str amount)) (\<lambda>amount_text.
     draw_bind (choice R DIRECTIONS) (\<lambda>direction.
     draw_bind (randint R 30 95) (\<lambda>risk.
       draw_ret (s\<lparr> g_ip_counter := ip_counter, g_rows := g_rows s @
         [alert_dict (cl_gid cl @ ''-a'' @ nat_text k) (cl_source cl)
            (isoformat P (cl_start cl + secs (int_of_float offset))) amount_text (cl_currency cl) direction
            (cl_customer cl, cl_account cl, cl_counterparty cl) (cl_merchant cl) (cl_mcc cl)
            (device, ip, session) risk (cl_typologies cl) (cl_gid cl)] \<rparr>))))))))"

definition hard_member :: "'g rng \<Rightarrow> platform \<Rightarrow> reader \<Rightarrow> nat \<Rightarrow> cluster \<Rightarrow> nat \<Rightarrow> gen \<Rightarrow> ('g, gen) draw" where
  "hard_member R P L i cl m s =
     draw_bind (uniform R (fst AMBIG_TIME_SECONDS) (snd AMBIG_TIME_SECONDS)) (\<lambda>dt.
     draw_bind (uniform R (fst AMBIG_AMOUNT_DRIFT) (snd AMBIG_AMOUNT_DRIFT)) (\<lambda>x.
     draw_bind (draw_lift (decimal_of_float P L x)) (\<lambda>drift.
     draw_bind (random_sign R) (\<lambda>sign.
     draw_bind (draw_lift (amount_str (drifted (cl_amount cl) sign drift))) (\<lambda>amount_text.
     draw_bind (choice R DIRECTIONS) (\<lambda>direction.
     draw_bind (randint R 30 95) (\<lambda>risk.
       draw_ret (s\<lparr> g_ip_counter := g_ip_counter s + 1, g_rows := g_rows s @
         [alert_dict (cl_gid cl @ ''-x'' @ nat_text m) (cl_source cl)
            (isoformat P (cl_start cl + secs (int_of_float dt))) amount_text (cl_currency cl) direction
            (''cust-c'' @ nat_text i @ ''-x'' @ nat_text m, cl_account cl, ''cp-c'' @ nat_text i @ ''-x'' @ nat_text m)
            (cl_merchant cl) (cl_mcc cl)
            (cl_device cl, ipv4 (g_ip_counter s), ''sess-c'' @ nat_text i @ ''-x'' @ nat_text m) risk
            (cl_typologies cl) (cl_gid cl)] \<rparr>))))))))"

text \<open>\<open>rows[-size:]\<close> starts here; the slice shares its dicts with \<open>rows\<close>, so the assignment to its first
  element changes the row itself.\<close>

definition core_from :: "int \<Rightarrow> row list \<Rightarrow> nat" where
  "core_from n rows =
     min (length rows) (nat (if - n < 0 then max 0 (int (length rows) - n) else - n))"

definition share_device :: "cluster \<Rightarrow> row list \<Rightarrow> row list result" where
  "share_device cl rows =
     (let from = core_from (cl_size cl) rows; core = drop from rows
      in if list_ex (\<lambda>r. map_of r ''device_id'' = Some (Text (cl_device cl))) core then Inr rows
         else if core = [] then Inl IndexError
         else Inr (rows[from := AList.update ''device_id'' (Text (cl_device cl)) (rows ! from)]))"

definition n_ambig :: "rat \<Rightarrow> int \<Rightarrow> int" where
  "n_ambig ambiguity n = (if ambiguity > 0 then round_half_even (fl (ambiguity * of_int n)) else 0)"

definition add_cluster ::
  "'g rng \<Rightarrow> platform \<Rightarrow> reader \<Rightarrow> int \<times> int \<Rightarrow> rat \<Rightarrow> nat \<Rightarrow> gen \<Rightarrow> ('g, gen) draw" where
  "add_cluster R P L sizes ambiguity i s =
     draw_bind (new_cluster R (fst sizes) (snd sizes) i (g_ip_counter s)) (\<lambda>cl.
     draw_bind (draw_fold (member R P L i cl) [0..<nat (cl_size cl)]
       (s\<lparr> g_ip_counter := g_ip_counter s + 1, g_starts := g_starts s @ [cl_start cl],
           g_accounts := g_accounts s @ [cl_account cl] \<rparr>)) (\<lambda>s1.
     let n = n_ambig ambiguity (cl_size cl)
     in if n = 0 then draw_ret s1
        else
          draw_bind (draw_lift (share_device cl (g_rows s1))) (\<lambda>rows.
            draw_fold (hard_member R P L i cl) [0..<nat n] (s1\<lparr> g_rows := rows \<rparr>))))"

definition add_decoy :: "'g rng \<Rightarrow> platform \<Rightarrow> int \<Rightarrow> nat \<Rightarrow> gen \<Rightarrow> ('g, gen) draw" where
  "add_decoy R P n_clusters d s =
     (let target = d mod nat n_clusters in
     draw_bind (uniform R 0 DECOY_TIME_SECONDS) (\<lambda>x.
     draw_bind (randrange R 500 950000) (\<lambda>cents.
     draw_bind (choice R SOURCE_SYSTEMS) (\<lambda>source.
     draw_bind (draw_lift (amount_str (dec (of_int cents / 100)))) (\<lambda>amount_text.
     draw_bind (choice R CURRENCIES) (\<lambda>currency.
     draw_bind (choice R DIRECTIONS) (\<lambda>direction.
     draw_bind (choice R MERCHANTS) (\<lambda>merchant.
     draw_bind (choice R MCCS) (\<lambda>mcc.
     draw_bind (randint R 20 85) (\<lambda>risk.
     draw_bind (choice R TYPOLOGIES) (\<lambda>typology.
       draw_ret (s\<lparr> g_ip_counter := g_ip_counter s + 1, g_rows := g_rows s @
         [alert_dict (''dcy-'' @ nat_text d @ ''-a0'') source
            (isoformat P (g_starts s ! target + secs (int_of_float x))) amount_text currency direction
            (''cust-dcy-'' @ nat_text d, g_accounts s ! target, ''cp-dcy-'' @ nat_text d)
            (merchant @ '' decoy '' @ nat_text d) mcc
            (''dev-dcy-'' @ nat_text d, ipv4 (g_ip_counter s), ''sess-dcy-'' @ nat_text d) risk
            [typology] (''dcy-'' @ nat_text d)] \<rparr>))))))))))))"

definition add_singleton :: "'g rng \<Rightarrow> platform \<Rightarrow> nat \<Rightarrow> gen \<Rightarrow> ('g, gen) draw" where
  "add_singleton R P j s =
     draw_bind (randint R 0 240) (\<lambda>d.
     draw_bind (randint R 0 1440) (\<lambda>m.
     draw_bind (randrange R 500 950000) (\<lambda>cents.
     draw_bind (choice R SOURCE_SYSTEMS) (\<lambda>source.
     draw_bind (draw_lift (amount_str (dec (of_int cents / 100)))) (\<lambda>amount_text.
     draw_bind (choice R CURRENCIES) (\<lambda>currency.
     draw_bind (choice R DIRECTIONS) (\<lambda>direction.
     draw_bind (choice R MERCHANTS) (\<lambda>merchant.
     draw_bind (choice R MCCS) (\<lambda>mcc.
     draw_bind (randint R 10 80) (\<lambda>risk.
     draw_bind (choice R TYPOLOGIES) (\<lambda>typology.
       draw_ret (s\<lparr> g_ip_counter := g_ip_counter s + 1, g_rows := g_rows s @
         [alert_dict (''sng-'' @ nat_text j @ ''-a0'') source (isoformat P (BASE_TIME + (days d + minutes m)))
            amount_text currency direction
            (''cust-s'' @ nat_text j, ''acct-s'' @ nat_text j, ''cp-s'' @ nat_text j)
            (merchant @ '' solo '' @ nat_text j) mcc
            (''dev-s'' @ nat_text j, ipv4 (g_ip_counter s), ''sess-s'' @ nat_text j) risk
            [typology] (''sng-'' @ nat_text j)] \<rparr>))))))))))))"

definition generate ::
  "'g rng \<Rightarrow> platform \<Rightarrow> reader \<Rightarrow> int \<Rightarrow> int \<times> int \<Rightarrow> int \<Rightarrow> rat \<Rightarrow> ('g, row list) draw" where
  "generate R P L n_clusters sizes singleton_count ambiguity =
     draw_bind (draw_fold (add_cluster R P L sizes ambiguity) [0..<nat n_clusters]
       \<lparr> g_rows = [], g_ip_counter = 1, g_starts = [], g_accounts = [] \<rparr>) (\<lambda>s1.
     draw_bind (draw_fold (add_decoy R P n_clusters) [0..<nat (n_ambig ambiguity n_clusters)] s1) (\<lambda>s2.
     draw_bind (draw_fold (add_singleton R P) [0..<nat singleton_count] s2) (\<lambda>s3.
       shuffle R (g_rows s3))))"

section \<open>Numbers\<close>

text \<open>What the library promises of the texts the generator writes and reads.\<close>

definition reader_laws :: "platform \<Rightarrow> reader \<Rightarrow> bool" where
  "reader_laws P L \<longleftrightarrow>
     (\<forall>x. 0 \<le> x \<and> is_float x \<longrightarrow> (\<exists>d. to_decimal L (float_repr P x) = Some d \<and> fl d = x))
     \<and> (\<forall>n. to_decimal L (cents_text n) = Some (of_nat n / 100))
     \<and> (\<forall>t. from_iso L (isoformat P t) = Some t)"

lemma dec_of_int: "\<bar>m\<bar> < 10 ^ 28 \<Longrightarrow> dec (of_int m) = of_int m"
  using dec_exact [of m 0] by simp

lemma dec_between: "of_int a \<le> q \<Longrightarrow> q \<le> of_int b \<Longrightarrow> \<bar>a\<bar> < 10 ^ 28 \<Longrightarrow> \<bar>b\<bar> < 10 ^ 28 \<Longrightarrow>
    of_int a \<le> dec q \<and> dec q \<le> of_int b"
  using dec_mono [of "of_int a" q] dec_mono [of q "of_int b"] by (simp add: dec_of_int)

lemma dec_unit: "0 \<le> q \<Longrightarrow> q \<le> 1 \<Longrightarrow> 0 \<le> dec q \<and> dec q \<le> 1"
  using dec_between [of 0 q 1] by simp

lemma drifted_bounds:
  assumes "0 \<le> base" and "base \<le> 10 ^ 6" and "sign = 1 \<or> sign = - 1" and "0 \<le> drift" and "drift \<le> 1"
  shows "0 \<le> drifted base sign drift \<and> drifted base sign drift \<le> 10 ^ 7"
proof -
  have "- 1 \<le> dec (sign * drift) \<and> dec (sign * drift) \<le> 1"
    using dec_between [of "- 1" "sign * drift" 1] assms(3-5) by auto
  then have f: "0 \<le> dec (1 + dec (sign * drift)) \<and> dec (1 + dec (sign * drift)) \<le> 2"
    using dec_between [of 0 "1 + dec (sign * drift)" 2] by simp
  then have "base * dec (1 + dec (sign * drift)) \<le> 10 ^ 6 * 2"
    using assms(1,2) by (intro mult_mono) auto
  with f assms(1) show ?thesis
    using dec_between [of 0 "base * dec (1 + dec (sign * drift))" "10 ^ 7"] by (simp add: drifted_def)
qed

lemma amount_str_ok:
  assumes "0 \<le> v" and "v \<le> 10 ^ 7"
  shows "\<exists>n. amount_str v = Inr (cents_text n) \<and> n < 10 ^ 10"
proof -
  let ?n = "nat \<lfloor>\<bar>v\<bar> * 100 + 1 / 2\<rfloor>"
  have "\<bar>v\<bar> * 100 + 1 / 2 < 10 ^ 10" using assms by simp
  then have "\<lfloor>\<bar>v\<bar> * 100 + 1 / 2\<rfloor> < 10 ^ 10" by (simp add: floor_less_iff)
  moreover have "0 \<le> \<lfloor>\<bar>v\<bar> * 100 + 1 / 2\<rfloor>" using assms by simp
  ultimately have "?n < 10 ^ 10" by (simp add: nat_less_iff)
  with assms show ?thesis by (auto simp: amount_str_def Let_def)
qed

lemma dec_cents: "0 \<le> c \<Longrightarrow> c < 10 ^ 6 \<Longrightarrow> 0 \<le> dec (of_int c / 100) \<and> dec (of_int c / 100) \<le> 10 ^ 4"
  using dec_between [of 0 "of_int c / 100" "10 ^ 4"] by simp

lemma decimal_of_float_ok:
  assumes "reader_laws P L" and "is_float x" and "0 \<le> x" and "x < of_int m" and "\<bar>m\<bar> < 2 ^ 53"
  shows "\<exists>d. decimal_of_float P L x = Inr d \<and> 0 \<le> d \<and> d < of_int m"
proof -
  from assms(1-3) obtain d where d: "to_decimal L (float_repr P x) = Some d" "fl d = x"
    by (auto simp: reader_laws_def)
  have "d < of_int m"
  proof (rule ccontr)
    assume "\<not> d < of_int m"
    then have "of_int m \<le> fl d" using assms(5) by (intro fl_ge_of_int) auto
    with d(2) assms(4) show False by simp
  qed
  moreover have "0 \<le> d"
  proof (rule ccontr)
    assume "\<not> 0 \<le> d"
    then have "0 < fl (- d)" by (intro fl_positive) simp
    with d(2) assms(3) show False by (simp add: fl_minus)
  qed
  ultimately show ?thesis using d(1) by (simp add: decimal_of_float_def)
qed

lemma int_of_float_bounds: "0 \<le> x \<Longrightarrow> x \<le> of_int m \<Longrightarrow> 0 \<le> int_of_float x \<and> int_of_float x \<le> m"
  by (simp add: int_of_float_def floor_le_iff)

lemma yields_sign [draw_rules]:
  assumes "rng_laws R" and "\<And>x. x = 1 \<or> x = - 1 \<Longrightarrow> yields (f x) S"
  shows "yields (draw_bind (random_sign R) f) S"
  unfolding random_sign_def bind_assoc by (intro draw_rules assms) (simp add: assms(2))

lemma bind_decimal [draw_rules]:
  assumes "reader_laws P L" and "is_float x" and "0 \<le> x" and "x < of_int m" and "\<bar>m\<bar> < 2 ^ 53"
    and "\<And>d. 0 \<le> d \<Longrightarrow> d < of_int m \<Longrightarrow> yields (f d) S"
  shows "yields (draw_bind (draw_lift (decimal_of_float P L x)) f) S"
  using decimal_of_float_ok [OF assms(1-5)] assms(6) by auto

lemma bind_amount_str [draw_rules]:
  assumes "0 \<le> v" and "v \<le> 10 ^ 7" and "\<And>n. n < 10 ^ 10 \<Longrightarrow> yields (f (cents_text n)) S"
  shows "yields (draw_bind (draw_lift (amount_str v)) f) S"
  using amount_str_ok [OF assms(1,2)] assms(3) by auto

lemma member_amount_yields:
  assumes "rng_laws R" and "reader_laws P L" and "0 \<le> base" and "base \<le> 10 ^ 6"
  shows "yields (member_amount R P L base k) (\<lambda>v. 0 \<le> v \<and> v \<le> 10 ^ 7)"
proof -
  have drift: "yields
      (draw_bind (uniform R 1 3) (\<lambda>x. draw_bind (draw_lift (decimal_of_float P L x)) (\<lambda>d.
         draw_bind (random_sign R) (\<lambda>sign. draw_ret (drifted base sign (dec (d / 100)))))))
      (\<lambda>v. 0 \<le> v \<and> v \<le> 10 ^ 7)"
  proof (rule bind_uniform [OF assms(1)])
    fix x :: rat assume x: "fl 1 \<le> x" "x \<le> fl (1 + fl (3 - 1))" "is_float x"
    then have "0 \<le> x" "x < of_int 4" by (simp_all add: fl_numeral)
    then show "yields (draw_bind (draw_lift (decimal_of_float P L x)) (\<lambda>d.
         draw_bind (random_sign R) (\<lambda>sign. draw_ret (drifted base sign (dec (d / 100))))))
      (\<lambda>v. 0 \<le> v \<and> v \<le> 10 ^ 7)"
      by (intro bind_decimal [OF assms(2) x(3), where m = 4] draw_rules assms yields_ret drifted_bounds)
        (simp_all add: dec_unit)
  qed simp
  have base: "yields (draw_ret base :: ('a, rat) draw) (\<lambda>v. 0 \<le> v \<and> v \<le> 10 ^ 7)"
    using assms(3,4) by (intro yields_ret) simp
  show ?thesis
  proof (cases "k = 0")
    case True
    then show ?thesis unfolding member_amount_def by (simp only: simp_thms if_True bind_ret base)
  next
    case False
    then show ?thesis
      unfolding member_amount_def
      by (simp only: if_False bind_assoc bind_ret) (intro bind_random assms(1), simp only: drift base split: if_split, blast)
  qed
qed

section \<open>One row\<close>

text \<open>A row with the given identity, instant, keys and group; the other members are of the allowed values.\<close>

definition row_with ::
  "platform \<Rightarrow> string \<Rightarrow> int \<Rightarrow> string \<times> string \<times> string \<Rightarrow> string \<Rightarrow> nat \<Rightarrow> string \<Rightarrow> row \<Rightarrow> bool" where
  "row_with P ext t refs device n gid r \<longleftrightarrow>
     (\<exists>source cents currency direction merchant mcc session risk typologies.
        r = alert_dict ext source (isoformat P t) (cents_text cents) currency direction refs merchant mcc
              (device, ipv4 n, session) risk typologies gid
        \<and> source \<in> set SOURCE_SYSTEMS \<and> cents < 10 ^ 10 \<and> currency \<in> set CURRENCIES
        \<and> direction \<in> set DIRECTIONS \<and> 0 \<le> risk \<and> risk \<le> 100)"

lemma row_withI:
  assumes "source \<in> set SOURCE_SYSTEMS" and "cents < 10 ^ 10" and "currency \<in> set CURRENCIES"
    and "direction \<in> set DIRECTIONS" and "0 \<le> risk" and "risk \<le> 100"
  shows "row_with P ext t refs device n gid
    (alert_dict ext source (isoformat P t) (cents_text cents) currency direction refs merchant mcc
       (device, ipv4 n, session) risk typologies gid)"
  unfolding row_with_def using assms by blast

lemma row_with_share:
  "row_with P ext t refs device n gid r \<Longrightarrow>
     row_with P ext t refs d n gid (AList.update ''device_id'' (Text d) r)"
  unfolding row_with_def
  by (elim exE conjE, cases refs) (force simp: alert_dict_def prune_def)

definition cluster_of :: "nat \<Rightarrow> nat \<Rightarrow> cluster \<Rightarrow> bool" where
  "cluster_of i c cl \<longleftrightarrow>
     cl_gid cl = ''grp-'' @ nat_text i \<and> cl_account cl = ''acct-c'' @ nat_text i
     \<and> cl_counterparty cl = ''cp-c'' @ nat_text i \<and> cl_customer cl = ''cust-c'' @ nat_text i
     \<and> cl_device cl = ''dev-c'' @ nat_text i \<and> cl_ip cl = ipv4 c
     \<and> cl_source cl \<in> set SOURCE_SYSTEMS \<and> cl_currency cl \<in> set CURRENCIES
     \<and> 0 \<le> cl_amount cl \<and> cl_amount cl \<le> 10 ^ 6
     \<and> 0 \<le> cl_window cl \<and> cl_window cl \<le> 43200 \<and> is_float (cl_window cl)"

lemma new_cluster_yields:
  assumes "rng_laws R" and "lo \<le> hi"
  shows "yields (new_cluster R lo hi i c) (\<lambda>cl. cluster_of i c cl \<and> lo \<le> cl_size cl \<and> cl_size cl \<le> hi)"
proof -
  have win: "0 \<le> fl (h * 3600) \<and> fl (h * 3600) \<le> 43200 \<and> is_float (fl (h * 3600))"
    if "fl 6 \<le> h" "h \<le> fl (6 + fl (12 - 6))" for h
    using that fl_le_of_int [of "h * 3600" 43200] by (simp add: fl_numeral fl_nonneg is_float_def)
  have am: "0 \<le> dec (of_int c / 100) \<and> dec (of_int c / 100) \<le> 1000000" if "1000 \<le> c" "c < 900000" for c
    using dec_cents [of c] that by simp
  show ?thesis
    unfolding new_cluster_def CLUSTER_TIME_WINDOW_HOURS_def fst_conv snd_conv
    by (intro draw_rules assms yields_ret)
      (simp_all add: MERCHANTS_def MCCS_def CURRENCIES_def SOURCE_SYSTEMS_def TYPOLOGIES_def cluster_of_def win am)
qed

text \<open>What the members of cluster \<open>i\<close> look like when the counter stood at \<open>c\<close> before it.\<close>

definition core_row :: "platform \<Rightarrow> nat \<Rightarrow> int \<Rightarrow> nat \<Rightarrow> nat \<Rightarrow> nat \<Rightarrow> row \<Rightarrow> bool" where
  "core_row P i start c c' k r \<longleftrightarrow>
     (\<exists>t device n. row_with P (''grp-'' @ nat_text i @ ''-a'' @ nat_text k) t
          (''cust-c'' @ nat_text i, ''acct-c'' @ nat_text i, ''cp-c'' @ nat_text i) device n (''grp-'' @ nat_text i) r
        \<and> start \<le> t \<and> t \<le> start + secs 43200 \<and> c \<le> n \<and> n < c'
        \<and> (device = ''dev-c'' @ nat_text i \<or> device = ''dev-c'' @ nat_text i @ ''-m'' @ nat_text k))"

definition hard_row :: "platform \<Rightarrow> nat \<Rightarrow> nat \<Rightarrow> row \<Rightarrow> bool" where
  "hard_row P i m r \<longleftrightarrow>
     (\<exists>t refs n. row_with P (''grp-'' @ nat_text i @ ''-x'' @ nat_text m) t refs (''dev-c'' @ nat_text i) n
        (''grp-'' @ nat_text i) r)"

lemma core_row_mono: "core_row P i start c c1 k r \<Longrightarrow> c1 \<le> c2 \<Longrightarrow> core_row P i start c c2 k r"
  unfolding core_row_def by (elim exE conjE, intro exI conjI) (assumption | erule order_less_le_trans)+

lemma member_yields:
  assumes "rng_laws R" and "reader_laws P L" and "cluster_of i c cl" and "c < g_ip_counter s"
  shows "yields (member R P L i cl k s) (\<lambda>s'. \<exists>r c'. g_ip_counter s \<le> c' \<and> c' \<le> g_ip_counter s + 1
    \<and> s' = s\<lparr> g_ip_counter := c', g_rows := g_rows s @ [r] \<rparr> \<and> core_row P i (cl_start cl) c c' k r)"
    (is "yields _ ?Q")
proof -
  note cl = assms(3) [unfolded cluster_of_def]
  have offset: "yields (if k = 0 then draw_ret 0 else uniform R 0 (cl_window cl)) (\<lambda>x. 0 \<le> x \<and> x \<le> 43200)"
    using cl yields_uniform [OF assms(1), of 0 "cl_window cl"]
    by (auto intro!: yields_ret elim!: yields_mono simp: is_float_def)
  have row: "?Q (s\<lparr> g_ip_counter := if sh then g_ip_counter s else g_ip_counter s + 1, g_rows := g_rows s @
         [alert_dict (cl_gid cl @ ''-a'' @ nat_text k) (cl_source cl)
            (isoformat P (cl_start cl + secs (int_of_float x))) (cents_text cents) (cl_currency cl) direction
            (cl_customer cl, cl_account cl, cl_counterparty cl) (cl_merchant cl) (cl_mcc cl)
            (device, if sh then cl_ip cl else ipv4 (g_ip_counter s), session) risk (cl_typologies cl) (cl_gid cl)] \<rparr>)"
    if x: "0 \<le> x" "x \<le> 43200" and c: "cents < 10 ^ 10" "direction \<in> set DIRECTIONS" "30 \<le> risk" "risk \<le> 95"
      and d: "device = ''dev-c'' @ nat_text i \<or> device = ''dev-c'' @ nat_text i @ ''-m'' @ nat_text k"
    for x cents direction risk device session sh
  proof -
    let ?t = "cl_start cl + secs (int_of_float x)" and ?n = "if sh then c else g_ip_counter s"
    let ?c = "if sh then g_ip_counter s else g_ip_counter s + 1"
    let ?r = "alert_dict (cl_gid cl @ ''-a'' @ nat_text k) (cl_source cl) (isoformat P ?t) (cents_text cents)
      (cl_currency cl) direction (cl_customer cl, cl_account cl, cl_counterparty cl) (cl_merchant cl) (cl_mcc cl)
      (device, ipv4 ?n, session) risk (cl_typologies cl) (cl_gid cl)"
    have eqs: "cl_gid cl = ''grp-'' @ nat_text i" "cl_customer cl = ''cust-c'' @ nat_text i"
      "cl_account cl = ''acct-c'' @ nat_text i" "cl_counterparty cl = ''cp-c'' @ nat_text i"
      using cl by blast+
    have "row_with P (cl_gid cl @ ''-a'' @ nat_text k) ?t (cl_customer cl, cl_account cl, cl_counterparty cl)
        device ?n (cl_gid cl) ?r"
      using cl c by (intro row_withI) auto
    then have "row_with P (''grp-'' @ nat_text i @ ''-a'' @ nat_text k) ?t
        (''cust-c'' @ nat_text i, ''acct-c'' @ nat_text i, ''cp-c'' @ nat_text i) device ?n (''grp-'' @ nat_text i) ?r"
      by (simp only: eqs append_assoc)
    moreover have "cl_start cl \<le> ?t" "?t \<le> cl_start cl + secs 43200"
      using int_of_float_bounds [of x 43200] x by (simp_all add: secs_def)
    moreover have bounds: "c \<le> ?n" "?n < ?c" "g_ip_counter s \<le> ?c" "?c \<le> g_ip_counter s + 1"
      using assms(4) by auto
    ultimately have "core_row P i (cl_start cl) c ?c k ?r" unfolding core_row_def using d by blast
    moreover have "(if sh then cl_ip cl else ipv4 (g_ip_counter s)) = ipv4 ?n" using cl by simp
    ultimately show ?thesis using bounds(3,4) by (simp only:) blast
  qed
  have "yields (draw_bind (random R) (\<lambda>u. f u)) S" if "\<And>u. yields (f u) S" for f :: "rat \<Rightarrow> ('a, gen) draw" and S
    using that by (intro draw_rules assms)
  note any = this
  show ?thesis
    unfolding member_def Let_def
  proof (rule yields_bind [OF offset], rule yields_bind [OF member_amount_yields [OF assms(1,2)]])
    show "0 \<le> cl_amount cl" "cl_amount cl \<le> 10 ^ 6" using cl by auto
  qed (intro any draw_rules assms yields_ret row; use cl in \<open>auto simp: DIRECTIONS_def\<close>)
qed

lemma hard_member_yields:
  assumes "rng_laws R" and "reader_laws P L" and "cluster_of i c cl"
  shows "yields (hard_member R P L i cl m s) (\<lambda>s'. \<exists>r.
    s' = s\<lparr> g_ip_counter := g_ip_counter s + 1, g_rows := g_rows s @ [r] \<rparr> \<and> hard_row P i m r)"
proof -
  note cl = assms(3) [unfolded cluster_of_def]
  have a: "fl (5 / 100) \<le> 1 / 16" "fl (22 / 100) \<le> 1 / 4"
    using fl_mono [of "5 / 100" "1 / 16"] fl_mono [of "22 / 100" "1 / 4"]
      round_sig_exact [of 2 53 1 "- 4"] round_sig_exact [of 2 53 1 "- 2"]
    by (simp_all add: fl_def power_int_minus)
  have "fl (fl (22 / 100) - fl (5 / 100)) \<le> fl (22 / 100)"
    using fl_mono [of "fl (22 / 100) - fl (5 / 100)" "fl (22 / 100)"] by (simp add: fl_nonneg)
  with a have "fl (5 / 100) + fl (fl (22 / 100) - fl (5 / 100)) \<le> 5 / 16" by simp
  from fl_mono [OF this] have "fl (fl (5 / 100) + fl (fl (22 / 100) - fl (5 / 100))) \<le> 5 / 16"
    using round_sig_exact [of 2 53 5 "- 4"] by (simp only: fl_def) (simp add: power_int_minus)
  then have drift: "x < of_int 1" if "x \<le> fl (fl (5 / 100) + fl (fl (22 / 100) - fl (5 / 100)))" for x
    using that by simp
  have drift0: "0 \<le> x" if "fl (fl (5 / 100)) \<le> x" for x using that fl_nonneg [of "5 / 100"] by simp
  have le: "fl (5 / 100) \<le> fl (22 / 100)" by (rule fl_mono) simp
  have dirs: "DIRECTIONS \<noteq> []" by (simp add: DIRECTIONS_def)
  have row: "\<exists>r. s\<lparr> g_ip_counter := g_ip_counter s + 1, g_rows := g_rows s @
         [alert_dict (cl_gid cl @ ''-x'' @ nat_text m) (cl_source cl) (isoformat P t) (cents_text cents)
            (cl_currency cl) direction refs merchant mcc (cl_device cl, ipv4 (g_ip_counter s), session) risk
            typologies (cl_gid cl)] \<rparr>
      = s\<lparr> g_ip_counter := g_ip_counter s + 1, g_rows := g_rows s @ [r] \<rparr> \<and> hard_row P i m r"
    if c: "cents < 10 ^ 10" "direction \<in> set DIRECTIONS" "30 \<le> risk" "risk \<le> 95"
    for t cents direction refs merchant mcc session risk typologies
  proof -
    let ?r = "alert_dict (cl_gid cl @ ''-x'' @ nat_text m) (cl_source cl) (isoformat P t) (cents_text cents)
            (cl_currency cl) direction refs merchant mcc (cl_device cl, ipv4 (g_ip_counter s), session) risk
            typologies (cl_gid cl)"
    have eqs: "cl_gid cl = ''grp-'' @ nat_text i" "cl_device cl = ''dev-c'' @ nat_text i" using cl by blast+
    have "row_with P (cl_gid cl @ ''-x'' @ nat_text m) t refs (cl_device cl) (g_ip_counter s) (cl_gid cl) ?r"
      using cl c by (intro row_withI) auto
    then have "hard_row P i m ?r" unfolding hard_row_def eqs append_assoc by blast
    then show ?thesis by blast
  qed
  show ?thesis
    unfolding hard_member_def AMBIG_TIME_SECONDS_def AMBIG_AMOUNT_DRIFT_def fst_conv snd_conv
    by (intro bind_uniform [OF assms(1)] bind_decimal [OF assms(2), where m = 1] draw_rules assms yields_ret row dirs)
      (use cl in \<open>simp_all add: le [simplified] drift [simplified] drift0 [simplified] drifted_bounds [simplified]\<close>)
qed

text \<open>The device is shared by a core member: the first one, unless one has it already.\<close>

lemma share_device_ok:
  assumes "\<forall>k < length core. core_row P i start c c' k (core ! k)" and "core \<noteq> []" and "cluster_of i c cl"
    and "cl_size cl = int (length core)"
  shows "\<exists>core'. share_device cl (pre @ core) = Inr (pre @ core') \<and> length core' = length core
    \<and> (\<forall>k < length core'. core_row P i start c c' k (core' ! k))"
proof -
  have pos: "core_from (cl_size cl) (pre @ core) = length pre"
    using assms(2,4) by (simp add: core_from_def)
  have cl: "cl_device cl = ''dev-c'' @ nat_text i" using assms(3) by (simp add: cluster_of_def)
  show ?thesis
  proof (cases "list_ex (\<lambda>r. map_of r ''device_id'' = Some (Text (cl_device cl))) core")
    case True
    then show ?thesis using assms(1) by (intro exI [of _ core]) (simp add: share_device_def pos)
  next
    case False
    let ?r = "AList.update ''device_id'' (Text (cl_device cl)) (core ! 0)"
    have "core_row P i start c c' 0 (core ! 0)" using assms(1,2) by simp
    then have "core_row P i start c c' 0 ?r"
      unfolding core_row_def cl using row_with_share by blast
    then have "\<forall>k < length (core[0 := ?r]). core_row P i start c c' k (core[0 := ?r] ! k)"
      using assms(1,2) by (auto simp: nth_list_update)
    moreover have "share_device cl (pre @ core) = Inr (pre @ core[0 := ?r])"
      using False assms(2)
      by (simp add: share_device_def pos nth_append list_update_append Let_def)
    ultimately show ?thesis by (intro exI [of _ "core[0 := ?r]"]) simp
  qed
qed

definition cluster_rows :: "platform \<Rightarrow> int \<times> int \<Rightarrow> rat \<Rightarrow> nat \<Rightarrow> gen \<Rightarrow> gen \<Rightarrow> bool" where
  "cluster_rows P sizes ambiguity i s s' \<longleftrightarrow>
     (\<exists>start core hard. g_rows s' = g_rows s @ core @ hard
        \<and> fst sizes \<le> int (length core) \<and> int (length core) \<le> snd sizes
        \<and> (\<forall>k < length core. core_row P i start (g_ip_counter s) (g_ip_counter s') k (core ! k))
        \<and> (\<forall>m < length hard. hard_row P i m (hard ! m))
        \<and> (ambiguity \<le> 0 \<longrightarrow> hard = [] \<and> g_ip_counter s' \<le> g_ip_counter s + 1 + length core))
     \<and> g_ip_counter s < g_ip_counter s'"

lemma round_half_even_0: "round_half_even 0 = 0"
  using round_half_even_of_int [of 0] by simp

lemma add_cluster_yields:
  assumes R: "rng_laws R" and L: "reader_laws P L" and lo: "0 \<le> fst sizes" "fst sizes \<le> snd sizes"
  shows "yields (add_cluster R P L sizes ambiguity i s) (cluster_rows P sizes ambiguity i s)"
  unfolding add_cluster_def
proof (rule yields_bind [OF new_cluster_yields [OF R lo(2)]])
  fix cl assume cl: "cluster_of i (g_ip_counter s) cl \<and> fst sizes \<le> cl_size cl \<and> cl_size cl \<le> snd sizes"
  define s0 where "s0 = s\<lparr> g_ip_counter := g_ip_counter s + 1, g_starts := g_starts s @ [cl_start cl],
      g_accounts := g_accounts s @ [cl_account cl] \<rparr>"
  define I :: "nat \<Rightarrow> gen \<Rightarrow> bool" where "I = (\<lambda>n s1. \<exists>core. g_rows s1 = g_rows s @ core \<and> length core = n
      \<and> (\<forall>k < n. core_row P i (cl_start cl) (g_ip_counter s) (g_ip_counter s1) k (core ! k))
      \<and> g_ip_counter s < g_ip_counter s1 \<and> g_ip_counter s1 \<le> g_ip_counter s + 1 + n)"
  have loop: "yields (draw_fold (member R P L i cl) [0..<nat (cl_size cl)] s0) (I (nat (cl_size cl)))"
  proof (rule yields_range)
    show "I 0 s0" by (simp add: I_def s0_def)
    fix k s1 assume "I k s1"
    then obtain core where core: "g_rows s1 = g_rows s @ core" "length core = k"
      "\<forall>j < k. core_row P i (cl_start cl) (g_ip_counter s) (g_ip_counter s1) j (core ! j)"
      "g_ip_counter s < g_ip_counter s1" "g_ip_counter s1 \<le> g_ip_counter s + 1 + k" by (auto simp: I_def)
    show "yields (member R P L i cl k s1) (I (Suc k))"
    proof (rule yields_mono [OF member_yields [OF R L conjunct1 [OF cl] core(4)]], elim exE conjE)
      fix s2 r c' assume s2: "g_ip_counter s1 \<le> c'" "c' \<le> g_ip_counter s1 + 1"
        "s2 = s1\<lparr> g_ip_counter := c', g_rows := g_rows s1 @ [r] \<rparr>"
        "core_row P i (cl_start cl) (g_ip_counter s) c' k r"
      have "\<forall>j < Suc k. core_row P i (cl_start cl) (g_ip_counter s) c' j ((core @ [r]) ! j)"
        using core(2,3) s2(1,4) by (auto simp: nth_append less_Suc_eq intro: core_row_mono)
      with core s2 show "I (Suc k) s2"
        unfolding I_def by (intro exI [of _ "core @ [r]"]) auto
    qed
  qed
  show "yields (draw_bind (draw_fold (member R P L i cl) [0..<nat (cl_size cl)]
       (s\<lparr> g_ip_counter := g_ip_counter s + 1, g_starts := g_starts s @ [cl_start cl],
           g_accounts := g_accounts s @ [cl_account cl] \<rparr>)) (\<lambda>s1.
     let n = n_ambig ambiguity (cl_size cl)
     in if n = 0 then draw_ret s1
        else draw_bind (draw_lift (share_device cl (g_rows s1))) (\<lambda>rows.
            draw_fold (hard_member R P L i cl) [0..<nat n] (s1\<lparr> g_rows := rows \<rparr>))))
     (cluster_rows P sizes ambiguity i s)"
    unfolding s0_def [symmetric]
  proof (rule yields_bind [OF loop])
    fix s1 assume "I (nat (cl_size cl)) s1"
    then obtain core where core: "g_rows s1 = g_rows s @ core" "length core = nat (cl_size cl)"
      "\<forall>k < length core. core_row P i (cl_start cl) (g_ip_counter s) (g_ip_counter s1) k (core ! k)"
      "g_ip_counter s < g_ip_counter s1" "g_ip_counter s1 \<le> g_ip_counter s + 1 + length core" by (auto simp: I_def)
    have len: "int (length core) = cl_size cl" using cl lo core(2) by simp
    show "yields (let n = n_ambig ambiguity (cl_size cl)
     in if n = 0 then draw_ret s1
        else draw_bind (draw_lift (share_device cl (g_rows s1))) (\<lambda>rows.
            draw_fold (hard_member R P L i cl) [0..<nat n] (s1\<lparr> g_rows := rows \<rparr>)))
     (cluster_rows P sizes ambiguity i s)"
    proof (cases "n_ambig ambiguity (cl_size cl) = 0")
      case True
      have "cluster_rows P sizes ambiguity i s s1"
        unfolding cluster_rows_def using core cl len
        by (intro conjI exI [of _ "cl_start cl"] exI [of _ core] exI [of _ "[]"]) auto
      with True show ?thesis by (simp add: yields_ret)
    next
      case False
      let ?n = "nat (n_ambig ambiguity (cl_size cl))"
      from False have amb: "0 < ambiguity" by (auto simp: n_ambig_def split: if_splits)
      from False have "core \<noteq> []" using len by (auto simp: n_ambig_def round_half_even_0 split: if_splits)
      from share_device_ok [OF core(3) this conjunct1 [OF cl] len [symmetric], of "g_rows s"] obtain core' where
        core': "share_device cl (g_rows s1) = Inr (g_rows s @ core')" "length core' = length core"
          "\<forall>k < length core'. core_row P i (cl_start cl) (g_ip_counter s) (g_ip_counter s1) k (core' ! k)"
        using core(1) by auto
      define J :: "nat \<Rightarrow> gen \<Rightarrow> bool" where "J = (\<lambda>n s2. \<exists>hard. g_rows s2 = g_rows s @ core' @ hard \<and> length hard = n
          \<and> (\<forall>m < n. hard_row P i m (hard ! m)) \<and> g_ip_counter s1 \<le> g_ip_counter s2)"
      have "yields (draw_fold (hard_member R P L i cl) [0..<?n] (s1\<lparr> g_rows := g_rows s @ core' \<rparr>)) (J ?n)"
      proof (rule yields_range)
        show "J 0 (s1\<lparr> g_rows := g_rows s @ core' \<rparr>)" by (simp add: J_def)
        fix m s2 assume "J m s2"
        then obtain hard where hard: "g_rows s2 = g_rows s @ core' @ hard" "length hard = m"
          "\<forall>m < length hard. hard_row P i m (hard ! m)" "g_ip_counter s1 \<le> g_ip_counter s2" by (auto simp: J_def)
        show "yields (hard_member R P L i cl m s2) (J (Suc m))"
        proof (rule yields_mono [OF hard_member_yields [OF R L conjunct1 [OF cl]]], elim exE conjE)
          fix s3 r assume s3: "s3 = s2\<lparr> g_ip_counter := g_ip_counter s2 + 1, g_rows := g_rows s2 @ [r] \<rparr>"
            "hard_row P i m r"
          with hard show "J (Suc m) s3"
            unfolding J_def by (intro exI [of _ "hard @ [r]"]) (auto simp: nth_append less_Suc_eq)
        qed
      qed
      moreover have "cluster_rows P sizes ambiguity i s s2" if J: "J n s2" for n s2
      proof -
        from J obtain hard where hard: "g_rows s2 = g_rows s @ core' @ hard"
          "\<forall>m < length hard. hard_row P i m (hard ! m)" "g_ip_counter s1 \<le> g_ip_counter s2" by (auto simp: J_def)
        have "\<forall>k < length core'. core_row P i (cl_start cl) (g_ip_counter s) (g_ip_counter s2) k (core' ! k)"
          using core'(3) hard(3) core_row_mono by blast
        with hard core'(2) core(4) cl len amb show ?thesis
          unfolding cluster_rows_def
          by (intro conjI exI [of _ "cl_start cl"] exI [of _ core'] exI [of _ hard]) auto
      qed
      ultimately show ?thesis using False core'(1) by (simp add: yields_mono)
    qed
  qed
qed

lemma pools_nonempty:
  "SOURCE_SYSTEMS \<noteq> []" "CURRENCIES \<noteq> []" "DIRECTIONS \<noteq> []" "MERCHANTS \<noteq> []" "MCCS \<noteq> []" "TYPOLOGIES \<noteq> []"
  by (simp_all add: SOURCE_SYSTEMS_def CURRENCIES_def DIRECTIONS_def MERCHANTS_def MCCS_def TYPOLOGIES_def)

lemma lone_cents: "500 \<le> c \<Longrightarrow> c < 950000 \<Longrightarrow> 0 \<le> dec (of_int c / 100) \<and> dec (of_int c / 100) \<le> 10000000"
  using dec_cents [of c] by simp

lemma add_decoy_yields:
  assumes R: "rng_laws R"
  shows "yields (add_decoy R P n d s) (\<lambda>s'. \<exists>r t refs.
    s' = s\<lparr> g_ip_counter := g_ip_counter s + 1, g_rows := g_rows s @ [r] \<rparr>
    \<and> row_with P (''dcy-'' @ nat_text d @ ''-a0'') t refs (''dev-dcy-'' @ nat_text d) (g_ip_counter s)
        (''dcy-'' @ nat_text d) r)"
proof -
  have row: "\<exists>r t' refs'. s\<lparr> g_ip_counter := g_ip_counter s + 1, g_rows := g_rows s @ [alert_dict
        (''dcy-'' @ nat_text d @ ''-a0'') source (isoformat P t) (cents_text cents) currency direction refs merchant mcc
        (''dev-dcy-'' @ nat_text d, ipv4 (g_ip_counter s), session) risk typologies (''dcy-'' @ nat_text d)] \<rparr>
      = s\<lparr> g_ip_counter := g_ip_counter s + 1, g_rows := g_rows s @ [r] \<rparr>
    \<and> row_with P (''dcy-'' @ nat_text d @ ''-a0'') t' refs' (''dev-dcy-'' @ nat_text d) (g_ip_counter s)
        (''dcy-'' @ nat_text d) r"
    if "source \<in> set SOURCE_SYSTEMS" "cents < 10 ^ 10" "currency \<in> set CURRENCIES" "direction \<in> set DIRECTIONS"
      "20 \<le> risk" "risk \<le> 85" for source cents currency direction risk refs merchant mcc session typologies t
  proof -
    have "0 \<le> risk" "risk \<le> 100" using that by simp_all
    from row_withI [OF that(1-4) this] show ?thesis by blast
  qed
  show ?thesis
    unfolding add_decoy_def Let_def DECOY_TIME_SECONDS_def
    by (intro draw_rules R yields_ret row pools_nonempty; simp add: lone_cents)
qed

lemma add_singleton_yields:
  assumes R: "rng_laws R"
  shows "yields (add_singleton R P j s) (\<lambda>s'. \<exists>r t.
    s' = s\<lparr> g_ip_counter := g_ip_counter s + 1, g_rows := g_rows s @ [r] \<rparr>
    \<and> row_with P (''sng-'' @ nat_text j @ ''-a0'') t
        (''cust-s'' @ nat_text j, ''acct-s'' @ nat_text j, ''cp-s'' @ nat_text j) (''dev-s'' @ nat_text j)
        (g_ip_counter s) (''sng-'' @ nat_text j) r)"
proof -
  have row: "\<exists>r t'. s\<lparr> g_ip_counter := g_ip_counter s + 1, g_rows := g_rows s @ [alert_dict
        (''sng-'' @ nat_text j @ ''-a0'') source (isoformat P t) (cents_text cents) currency direction
        (''cust-s'' @ nat_text j, ''acct-s'' @ nat_text j, ''cp-s'' @ nat_text j) merchant mcc
        (''dev-s'' @ nat_text j, ipv4 (g_ip_counter s), session) risk typologies (''sng-'' @ nat_text j)] \<rparr>
      = s\<lparr> g_ip_counter := g_ip_counter s + 1, g_rows := g_rows s @ [r] \<rparr>
    \<and> row_with P (''sng-'' @ nat_text j @ ''-a0'') t'
        (''cust-s'' @ nat_text j, ''acct-s'' @ nat_text j, ''cp-s'' @ nat_text j) (''dev-s'' @ nat_text j)
        (g_ip_counter s) (''sng-'' @ nat_text j) r"
    if "source \<in> set SOURCE_SYSTEMS" "cents < 10 ^ 10" "currency \<in> set CURRENCIES" "direction \<in> set DIRECTIONS"
      "10 \<le> risk" "risk \<le> 80" for source cents currency direction risk merchant mcc session typologies t
  proof -
    have "0 \<le> risk" "risk \<le> 100" using that by simp_all
    from row_withI [OF that(1-4) this] show ?thesis by blast
  qed
  show ?thesis
    unfolding add_singleton_def
    by (intro draw_rules R yields_ret row pools_nonempty; simp add: lone_cents)
qed

section \<open>The whole data set\<close>

text \<open>The group that a row is labelled with, the rows that one step adds for it, and the data set as a
  sequence of such steps; \<open>c\<close> is the address counter.\<close>

datatype label = Grp nat | Dcy nat | Sng nat

fun gid :: "label \<Rightarrow> string" where
  "gid (Grp i) = ''grp-'' @ nat_text i"
| "gid (Dcy d) = ''dcy-'' @ nat_text d"
| "gid (Sng j) = ''sng-'' @ nat_text j"

fun block :: "platform \<Rightarrow> int \<times> int \<Rightarrow> rat \<Rightarrow> label \<Rightarrow> nat \<Rightarrow> nat \<Rightarrow> row list \<Rightarrow> bool" where
  "block P sizes ambiguity (Grp i) c c' rs \<longleftrightarrow>
     (\<exists>start core hard. rs = core @ hard
        \<and> fst sizes \<le> int (length core) \<and> int (length core) \<le> snd sizes
        \<and> (\<forall>k < length core. core_row P i start c c' k (core ! k))
        \<and> (\<forall>m < length hard. hard_row P i m (hard ! m))
        \<and> (ambiguity \<le> 0 \<longrightarrow> hard = [] \<and> c' \<le> c + 1 + length core))"
| "block P sizes ambiguity (Dcy d) c c' rs \<longleftrightarrow>
     (\<exists>r t refs. rs = [r] \<and> c' = c + 1 \<and> row_with P (''dcy-'' @ nat_text d @ ''-a0'') t refs
        (''dev-dcy-'' @ nat_text d) c (''dcy-'' @ nat_text d) r)"
| "block P sizes ambiguity (Sng j) c c' rs \<longleftrightarrow>
     (\<exists>r t. rs = [r] \<and> c' = c + 1 \<and> row_with P (''sng-'' @ nat_text j @ ''-a0'') t
        (''cust-s'' @ nat_text j, ''acct-s'' @ nat_text j, ''cp-s'' @ nat_text j) (''dev-s'' @ nat_text j)
        c (''sng-'' @ nat_text j) r)"

inductive grown :: "platform \<Rightarrow> int \<times> int \<Rightarrow> rat \<Rightarrow> label list \<Rightarrow> nat \<Rightarrow> row list \<Rightarrow> bool"
  for P sizes ambiguity where
  start: "grown P sizes ambiguity [] 1 []"
| more: "grown P sizes ambiguity Ts c rows \<Longrightarrow> T \<notin> set Ts \<Longrightarrow> c < c' \<Longrightarrow> block P sizes ambiguity T c c' rs \<Longrightarrow>
    grown P sizes ambiguity (Ts @ [T]) c' (rows @ rs)"

lemma cluster_rows_block:
  "cluster_rows P sizes ambiguity i s s' \<Longrightarrow>
     \<exists>rs. g_rows s' = g_rows s @ rs \<and> g_ip_counter s < g_ip_counter s'
       \<and> block P sizes ambiguity (Grp i) (g_ip_counter s) (g_ip_counter s') rs"
  unfolding cluster_rows_def block.simps by blast

text \<open>A loop whose \<open>i\<close>-th step adds the block of the label \<open>f i\<close>.\<close>

lemma grown_loop:
  fixes s :: gen
  assumes "\<And>i s. yields (step i s) (\<lambda>s'. \<exists>rs. g_rows s' = g_rows s @ rs \<and> g_ip_counter s < g_ip_counter s'
      \<and> block P sizes ambiguity (f i) (g_ip_counter s) (g_ip_counter s') rs)"
    and "grown P sizes ambiguity Ts (g_ip_counter s) (g_rows s)" and "inj f" and "\<forall>i. f i \<notin> set Ts"
  shows "yields (draw_fold step [0..<n] s)
    (\<lambda>s'. grown P sizes ambiguity (Ts @ map f [0..<n]) (g_ip_counter s') (g_rows s'))"
proof (rule yields_range)
  show "grown P sizes ambiguity (Ts @ map f [0..<0]) (g_ip_counter s) (g_rows s)" using assms(2) by simp
  fix i and s1 :: gen assume IH: "grown P sizes ambiguity (Ts @ map f [0..<i]) (g_ip_counter s1) (g_rows s1)"
  show "yields (step i s1) (\<lambda>s'. grown P sizes ambiguity (Ts @ map f [0..<Suc i]) (g_ip_counter s') (g_rows s'))"
  proof (rule yields_mono [OF assms(1)], elim exE conjE)
    fix s2 rs assume rs: "g_rows s2 = g_rows s1 @ rs" "g_ip_counter s1 < g_ip_counter s2"
      "block P sizes ambiguity (f i) (g_ip_counter s1) (g_ip_counter s2) rs"
    have "f i \<notin> set (Ts @ map f [0..<i])" using assms(3,4) by (auto dest: injD)
    from more [OF IH this rs(2,3)] show "grown P sizes ambiguity (Ts @ map f [0..<Suc i]) (g_ip_counter s2) (g_rows s2)"
      by (simp add: rs(1))
  qed
qed

lemma generate_grown:
  assumes R: "rng_laws R" and L: "reader_laws P L" and lo: "0 \<le> fst sizes" "fst sizes \<le> snd sizes"
  shows "yields (generate R P L n sizes m ambiguity) (\<lambda>out. \<exists>c rows. mset out = mset rows
    \<and> grown P sizes ambiguity (map Grp [0..<nat n] @ map Dcy [0..<nat (n_ambig ambiguity n)] @ map Sng [0..<nat m]) c rows)"
proof -
  let ?G = "grown P sizes ambiguity"
  have cl: "yields (add_cluster R P L sizes ambiguity i s) (\<lambda>s'. \<exists>rs. g_rows s' = g_rows s @ rs
      \<and> g_ip_counter s < g_ip_counter s' \<and> block P sizes ambiguity (Grp i) (g_ip_counter s) (g_ip_counter s') rs)" for i s
    by (rule yields_mono [OF add_cluster_yields [OF R L lo]], rule cluster_rows_block)
  have dc: "yields (add_decoy R P n i s) (\<lambda>s'. \<exists>rs. g_rows s' = g_rows s @ rs
      \<and> g_ip_counter s < g_ip_counter s' \<and> block P sizes ambiguity (Dcy i) (g_ip_counter s) (g_ip_counter s') rs)" for i s
    by (rule yields_mono [OF add_decoy_yields [OF R]], elim exE conjE)
      (rule exI, intro conjI, simp, simp, unfold block.simps, (rule exI)+, intro conjI, assumption?, simp_all)
  have sg: "yields (add_singleton R P i s) (\<lambda>s'. \<exists>rs. g_rows s' = g_rows s @ rs
      \<and> g_ip_counter s < g_ip_counter s' \<and> block P sizes ambiguity (Sng i) (g_ip_counter s) (g_ip_counter s') rs)" for i s
    by (rule yields_mono [OF add_singleton_yields [OF R]], elim exE conjE)
      (rule exI, intro conjI, simp, simp, unfold block.simps, (rule exI)+, intro conjI, assumption?, simp_all)
  have inj: "inj Grp" "inj Dcy" "inj Sng" by (simp_all add: inj_def)
  have start: "?G [] (g_ip_counter \<lparr> g_rows = [], g_ip_counter = 1, g_starts = [], g_accounts = [] \<rparr>)
      (g_rows \<lparr> g_rows = [], g_ip_counter = 1, g_starts = [], g_accounts = [] \<rparr>)"
    using grown.start [of P sizes ambiguity] by simp
  show ?thesis
    unfolding generate_def
  proof (rule yields_bind [OF grown_loop [OF cl start inj(1)]])
    fix s1 :: gen assume "?G ([] @ map Grp [0..<nat n]) (g_ip_counter s1) (g_rows s1)"
    then have s1: "?G (map Grp [0..<nat n]) (g_ip_counter s1) (g_rows s1)" by simp
    show "yields (draw_bind (draw_fold (add_decoy R P n) [0..<nat (n_ambig ambiguity n)] s1) (\<lambda>s2.
        draw_bind (draw_fold (add_singleton R P) [0..<nat m] s2) (\<lambda>s3. shuffle R (g_rows s3))))
      (\<lambda>out. \<exists>c rows. mset out = mset rows
        \<and> ?G (map Grp [0..<nat n] @ map Dcy [0..<nat (n_ambig ambiguity n)] @ map Sng [0..<nat m]) c rows)"
    proof (rule yields_bind [OF grown_loop [OF dc s1 inj(2)]])
      fix s2 :: gen assume s2: "?G (map Grp [0..<nat n] @ map Dcy [0..<nat (n_ambig ambiguity n)]) (g_ip_counter s2) (g_rows s2)"
      show "yields (draw_bind (draw_fold (add_singleton R P) [0..<nat m] s2) (\<lambda>s3. shuffle R (g_rows s3)))
        (\<lambda>out. \<exists>c rows. mset out = mset rows
          \<and> ?G (map Grp [0..<nat n] @ map Dcy [0..<nat (n_ambig ambiguity n)] @ map Sng [0..<nat m]) c rows)"
      proof (rule yields_bind [OF grown_loop [OF sg s2 inj(3)]])
        fix s3 :: gen assume "?G ((map Grp [0..<nat n] @ map Dcy [0..<nat (n_ambig ambiguity n)]) @ map Sng [0..<nat m])
          (g_ip_counter s3) (g_rows s3)"
        then show "yields (shuffle R (g_rows s3)) (\<lambda>out. \<exists>c rows. mset out = mset rows
          \<and> ?G (map Grp [0..<nat n] @ map Dcy [0..<nat (n_ambig ambiguity n)] @ map Sng [0..<nat m]) c rows)"
          by (intro yields_mono [OF yields_shuffle [OF R]]) auto
      qed auto
    qed auto
  qed auto
qed

section \<open>Reading a row\<close>

text \<open>A text member of a row, and the constraints of the schema \<open>AlertIn\<close> on the row as a JSON object:
  known members only, the required ones present, each of the type and in the range the schema demands.\<close>

definition text_of :: "row \<Rightarrow> string \<Rightarrow> string option" where
  "text_of r k = (case map_of r k of Some (Text t) \<Rightarrow> Some t | _ \<Rightarrow> None)"

definition text_fields :: "string list" where
  "text_fields = [''external_alert_id'', ''source_system'', ''event_time'', ''amount'', ''currency'', ''direction'',
     ''customer_ref'', ''account_ref'', ''counterparty_ref'', ''merchant_name'', ''mcc'', ''device_id'', ''ip_address'',
     ''session_id'', ''ground_truth_group_id'']"

definition dotted_quad :: "string \<Rightarrow> bool" where
  "dotted_quad t \<longleftrightarrow> (\<exists>a < 256. \<exists>b < 256. \<exists>c < 256. \<exists>d < 256.
     t = nat_text a @ ''.'' @ nat_text b @ ''.'' @ nat_text c @ ''.'' @ nat_text d)"

definition accepted_row :: "reader \<Rightarrow> row \<Rightarrow> bool" where
  "accepted_row L r \<longleftrightarrow>
     distinct (map fst r)
     \<and> (\<forall>(k, v) \<in> set r. k \<in> set text_fields \<and> (\<exists>t. v = Text t) \<or> k = ''risk_score'' \<and> (\<exists>n. v = Num n \<and> valid_risk_score n)
          \<or> k = ''typologies'' \<and> (\<exists>ts. v = Texts ts))
     \<and> text_of r ''external_alert_id'' \<noteq> None \<and> text_of r ''source_system'' \<noteq> None
     \<and> (\<exists>t i. text_of r ''event_time'' = Some t \<and> from_iso L t = Some i)
     \<and> (\<exists>t a. text_of r ''amount'' = Some t \<and> to_decimal L t = Some a \<and> valid_amount a)
     \<and> (\<exists>t. text_of r ''currency'' = Some t \<and> valid_currency t)
     \<and> (\<exists>t. text_of r ''direction'' = Some t \<and> valid_direction t)
     \<and> (\<forall>t. text_of r ''ip_address'' = Some t \<longrightarrow> dotted_quad t)"

lemma valid_amount_cents: "n < 10 ^ 10 \<Longrightarrow> valid_amount (of_nat n / 100)"
proof -
  assume n: "n < 10 ^ 10"
  have "rat_of_nat n < 10 ^ 10" using n by (metis of_nat_less_iff of_nat_numeral of_nat_power)
  moreover have "rat_of_nat n / 100 * 10 ^ 4 = of_int (int n * 100)" by simp
  then have "rat_of_nat n / 100 * 10 ^ 4 = of_int \<lfloor>rat_of_nat n / 100 * 10 ^ 4\<rfloor>" by (metis floor_of_int)
  ultimately show ?thesis by (simp add: valid_amount_def)
qed

lemma dotted_quad_ipv4: "dotted_quad (ipv4 n)"
proof -
  have "ipv4 n = nat_text 10 @ ''.'' @ nat_text (n div 2 ^ 16 mod 256) @ ''.'' @ nat_text (n div 2 ^ 8 mod 256) @ ''.''
      @ nat_text (n div 2 ^ 0 mod 256)"
    by (simp add: ipv4_def octet_def nat_text.simps char_of_def bit_iff_odd)
  then show ?thesis
    unfolding dotted_quad_def
    by (intro exI [of _ 10] exI [of _ "n div 2 ^ 16 mod 256"] exI [of _ "n div 2 ^ 8 mod 256"]
        exI [of _ "n div 2 ^ 0 mod 256"] conjI) simp_all
qed

lemma row_with_members:
  assumes "row_with P ext t (customer, account, counterparty) device n g r"
  shows "text_of r ''external_alert_id'' = Some ext" "text_of r ''event_time'' = Some (isoformat P t)"
    "text_of r ''customer_ref'' = Some customer" "text_of r ''account_ref'' = Some account"
    "text_of r ''counterparty_ref'' = Some counterparty" "text_of r ''device_id'' = Some device"
    "text_of r ''ip_address'' = Some (ipv4 n)" "text_of r ''ground_truth_group_id'' = Some g"
    "\<exists>cents < 10 ^ 10. text_of r ''amount'' = Some (cents_text cents)"
  using assms by (auto simp: row_with_def alert_dict_def prune_def text_of_def)

lemma row_with_accepted:
  assumes "reader_laws P L" and "row_with P ext t refs device n g r"
  shows "accepted_row L r"
proof -
  obtain customer account counterparty where refs: "refs = (customer, account, counterparty)" by (cases refs)
  from assms(2) obtain source cents currency direction merchant mcc session risk typologies where
    r: "r = alert_dict ext source (isoformat P t) (cents_text cents) currency direction refs merchant mcc
              (device, ipv4 n, session) risk typologies g"
    and c: "cents < 10 ^ 10" "currency \<in> set CURRENCIES" "direction \<in> set DIRECTIONS" "0 \<le> risk" "risk \<le> 100"
    unfolding row_with_def by blast
  note mem = row_with_members [OF assms(2) [unfolded refs]]
  have cur: "text_of r ''currency'' = Some currency" and dir: "text_of r ''direction'' = Some direction"
    and src: "text_of r ''source_system'' = Some source" and am: "text_of r ''amount'' = Some (cents_text cents)"
    by (simp_all add: r refs alert_dict_def prune_def text_of_def)
  have vc: "valid_currency currency" using c(2) by (auto simp: CURRENCIES_def valid_currency_def)
  have vd: "valid_direction direction" using c(3) by (simp add: DIRECTIONS_def valid_direction_def)
  have rd: "to_decimal L (cents_text cents) = Some (of_nat cents / 100)" "from_iso L (isoformat P t) = Some t"
    using assms(1) by (auto simp: reader_laws_def)
  have dist: "distinct (map fst r)" by (simp add: r refs alert_dict_def prune_def)
  have typed: "\<forall>(k, v) \<in> set r. k \<in> set text_fields \<and> (\<exists>t. v = Text t)
      \<or> k = ''risk_score'' \<and> (\<exists>n. v = Num n \<and> valid_risk_score n) \<or> k = ''typologies'' \<and> (\<exists>ts. v = Texts ts)"
    using c(4,5) by (simp add: r refs alert_dict_def prune_def text_fields_def valid_risk_score_def)
  have amount: "\<exists>t a. text_of r ''amount'' = Some t \<and> to_decimal L t = Some a \<and> valid_amount a"
    using am rd(1) valid_amount_cents [OF c(1)] by blast
  show ?thesis
    unfolding accepted_row_def
    by (intro conjI dist typed amount) (simp_all add: mem(1,2,7) cur dir src rd vc vd dotted_quad_ipv4)
qed

text \<open>The texts: a number ends where a character that is no digit begins, so labels and the identities
  built from them are pairwise different.\<close>

lemma nat_text_prefix:
  assumes "nat_text i @ u = nat_text j @ v" and "u = [] \<or> \<not> is_digit (hd u)" and "v = [] \<or> \<not> is_digit (hd v)"
  shows "i = j \<and> u = v"
proof -
  have take: "takeWhile is_digit (nat_text i @ u) = nat_text i" if "u = [] \<or> \<not> is_digit (hd u)" for i u
    using that digits_nat_text [of _ i] by (cases u) (auto simp: takeWhile_append2)
  from take [OF assms(2)] take [OF assms(3)] assms(1) have "nat_text i = nat_text j" by metis
  with assms(1) show ?thesis by (simp add: nat_text_inject)
qed

lemma not_digit [simp]: "\<not> is_digit (CHR ''-'')" "\<not> is_digit (CHR ''.'')"
  by (simp_all add: is_digit_def)

lemma gid_prefix:
  assumes "gid T @ CHR ''-'' # u = gid U @ CHR ''-'' # v"
  shows "T = U \<and> u = v"
  using assms by (cases T; cases U) (auto dest!: nat_text_prefix)

lemma gid_inject: "gid T = gid U \<longleftrightarrow> T = U"
  using gid_prefix [of T "[]" U "[]"] by auto

text \<open>Every row of a block carries the block's label and an identity that starts with it, and the
  identities differ.\<close>

definition labelled :: "label \<Rightarrow> row \<Rightarrow> bool" where
  "labelled T r \<longleftrightarrow> text_of r ''ground_truth_group_id'' = Some (gid T)
     \<and> (\<exists>u. text_of r ''external_alert_id'' = Some (gid T @ CHR ''-'' # u))"

definition row_id :: "row \<Rightarrow> string" where
  "row_id r = the (text_of r ''external_alert_id'')"

lemma row_with_labelled:
  assumes "row_with P ext t refs device n g r" and "ext = gid T @ CHR ''-'' # u" and "g = gid T"
  shows "labelled T r \<and> row_id r = ext"
proof (cases refs)
  case (fields a b c)
  from row_with_members [OF assms(1) [unfolded this]] assms(2,3) show ?thesis
    by (simp add: labelled_def row_id_def)
qed

lemma core_row_labelled:
  assumes "core_row P i start c c' k r"
  shows "labelled (Grp i) r \<and> row_id r = ''grp-'' @ nat_text i @ ''-a'' @ nat_text k"
proof -
  from assms obtain t refs device n where
    "row_with P (''grp-'' @ nat_text i @ ''-a'' @ nat_text k) t refs device n (''grp-'' @ nat_text i) r"
    unfolding core_row_def by blast
  from row_with_labelled [OF this, of "Grp i" "CHR ''a'' # nat_text k"] show ?thesis by simp
qed

lemma hard_row_labelled:
  assumes "hard_row P i m r"
  shows "labelled (Grp i) r \<and> row_id r = ''grp-'' @ nat_text i @ ''-x'' @ nat_text m"
proof -
  from assms obtain t refs n where
    "row_with P (''grp-'' @ nat_text i @ ''-x'' @ nat_text m) t refs (''dev-c'' @ nat_text i) n (''grp-'' @ nat_text i) r"
    unfolding hard_row_def by blast
  from row_with_labelled [OF this, of "Grp i" "CHR ''x'' # nat_text m"] show ?thesis by simp
qed

lemma block_rows:
  assumes "reader_laws P L" and "block P sizes ambiguity T c c' rs"
  shows "(\<forall>r \<in> set rs. accepted_row L r \<and> labelled T r) \<and> distinct (map row_id rs)"
proof (cases T)
  case (Grp i)
  with assms(2) obtain start core hard where rs: "rs = core @ hard"
    and core: "\<forall>k < length core. core_row P i start c c' k (core ! k)"
    and hard: "\<forall>m < length hard. hard_row P i m (hard ! m)" by auto
  have "\<forall>r \<in> set core. accepted_row L r" and "\<forall>r \<in> set hard. accepted_row L r"
    using core hard row_with_accepted [OF assms(1)] unfolding core_row_def hard_row_def
    by (metis in_set_conv_nth)+
  moreover have "\<forall>r \<in> set core. labelled (Grp i) r" "\<forall>r \<in> set hard. labelled (Grp i) r"
    using core hard core_row_labelled hard_row_labelled by (metis in_set_conv_nth)+
  moreover have "map row_id core = map (\<lambda>k. ''grp-'' @ nat_text i @ ''-a'' @ nat_text k) [0..<length core]"
    using core core_row_labelled by (intro nth_equalityI) auto
  moreover have "map row_id hard = map (\<lambda>m. ''grp-'' @ nat_text i @ ''-x'' @ nat_text m) [0..<length hard]"
    using hard hard_row_labelled by (intro nth_equalityI) auto
  ultimately show ?thesis
    by (auto simp: rs Grp distinct_map inj_on_def nat_text_inject)
next
  case (Dcy d)
  with assms(2) obtain r t refs where r: "rs = [r]"
    "row_with P (''dcy-'' @ nat_text d @ ''-a0'') t refs (''dev-dcy-'' @ nat_text d) c (''dcy-'' @ nat_text d) r" by auto
  from row_with_accepted [OF assms(1) r(2)] row_with_labelled [OF r(2), of T "''a0''"] show ?thesis
    by (simp add: r(1) Dcy)
next
  case (Sng j)
  with assms(2) obtain r t refs where r: "rs = [r]"
    "row_with P (''sng-'' @ nat_text j @ ''-a0'') t refs (''dev-s'' @ nat_text j) c (''sng-'' @ nat_text j) r" by auto
  from row_with_accepted [OF assms(1) r(2)] row_with_labelled [OF r(2), of T "''a0''"] show ?thesis
    by (simp add: r(1) Sng)
qed

lemma grown_rows:
  assumes "reader_laws P L" and "grown P sizes ambiguity Ts c rows"
  shows "(\<forall>r \<in> set rows. accepted_row L r \<and> (\<exists>T \<in> set Ts. labelled T r)) \<and> distinct (map row_id rows)"
  using assms(2)
proof (induction rule: grown.induct)
  case (more Ts c rows T c' rs)
  note new = block_rows [OF assms(1) more.hyps(4)]
  have "row_id r \<noteq> row_id q" if "r \<in> set rows" "q \<in> set rs" for r q
  proof -
    from more.IH that obtain U u where "U \<in> set Ts" "row_id r = gid U @ CHR ''-'' # u"
      by (auto simp: labelled_def row_id_def)
    moreover from new that obtain v where "row_id q = gid T @ CHR ''-'' # v"
      by (auto simp: labelled_def row_id_def)
    ultimately show ?thesis using more.hyps(2) gid_prefix by metis
  qed
  with more.IH new show ?case by (auto simp: image_iff)
qed simp

section \<open>Every generated row is one the schema accepts\<close>

lemma generate_rows:
  assumes "rng_laws R" and "reader_laws P L" and "0 \<le> fst sizes" and "fst sizes \<le> snd sizes"
  shows "yields (generate R P L n sizes m ambiguity) (\<lambda>out. (\<forall>r \<in> set out. accepted_row L r) \<and> distinct (map row_id out))"
proof (rule yields_mono [OF generate_grown [OF assms]], elim exE conjE)
  fix out c rows
  assume out: "mset out = mset rows"
    and "grown P sizes ambiguity (map Grp [0..<nat n] @ map Dcy [0..<nat (n_ambig ambiguity n)] @ map Sng [0..<nat m]) c rows"
  note rows = grown_rows [OF assms(2) this(2)]
  have "set out = set rows" using out by (rule mset_eq_setD)
  moreover have "mset (map row_id out) = mset (map row_id rows)" using out by simp
  then have "distinct (map row_id out) = distinct (map row_id rows)" by (metis distinct_count_atmost_1 set_mset_mset)
  ultimately show "(\<forall>r \<in> set out. accepted_row L r) \<and> distinct (map row_id out)" using rows by simp
qed

text \<open>C40: For sizes from 0 up, any ambiguity and any source of random numbers, the generator returns rows
  with pairwise different identities, and every row satisfies the constraints of the alert schema.\<close>

theorem generate_accepted:
  assumes "rng_laws R" and "reader_laws P L" and "0 \<le> lo" and "lo \<le> hi"
  shows "\<exists>rows g'. generate R P L n (lo, hi) m ambiguity g = Inr (rows, g')
    \<and> (\<forall>r \<in> set rows. accepted_row L r) \<and> distinct (map row_id rows)"
  using yieldsD [OF generate_rows [OF assms(1,2), of "(lo, hi)" n m ambiguity], of g] assms(3,4) by auto

section \<open>A concrete library\<close>

text \<open>A random source that always draws the least value, floats written as fractions, and the reader of
  these texts.\<close>

definition least_rng :: "unit rng" where
  "least_rng = \<lparr> random_unit = (\<lambda>g. (0, g)), randbelow = (\<lambda>n g. (0, g)) \<rparr>"

definition ratio_text :: "rat \<Rightarrow> string" where
  "ratio_text q = (case quotient_of q of (n, d) \<Rightarrow> nat_text (nat n) @ CHR ''/'' # nat_text (nat d))"

definition plain_reader :: reader where
  "plain_reader =
     \<lparr> to_decimal = (\<lambda>t. Some
         (if CHR ''/'' \<in> set t
          then of_nat (digits_value 0 (takeWhile is_digit t)) / of_nat (digits_value 0 (tl (dropWhile is_digit t)))
          else of_nat (digits_value 0 (filter is_digit t)) / 100)),
       from_iso = (\<lambda>t. Some (if t \<noteq> [] \<and> hd t = CHR ''-'' then - int (digits_value 0 (tl t)) else int (digits_value 0 t))),
       str_list = (\<lambda>ts. []) \<rparr>"

definition ratio_platform :: platform where
  "ratio_platform = sample_platform\<lparr> float_repr := ratio_text \<rparr>"

lemma rng_laws_least: "rng_laws least_rng"
  by (simp add: rng_laws_def least_rng_def)

lemma nat_text_digits: "takeWhile is_digit (nat_text n @ CHR ''/'' # u) = nat_text n"
  "dropWhile is_digit (nat_text n @ CHR ''/'' # u) = CHR ''/'' # u" "filter is_digit (nat_text n) = nat_text n"
  using digits_nat_text [of _ n] by (simp_all add: takeWhile_append2 dropWhile_append2 is_digit_def)

lemma plain_reader_laws: "reader_laws ratio_platform plain_reader"
proof -
  have "to_decimal plain_reader (ratio_text x) = Some x" if "0 \<le> x" for x
  proof -
    obtain n d where nd: "quotient_of x = (n, d)" by (cases "quotient_of x")
    have "0 < d" "x = of_int n / of_int d" using nd by (rule quotient_of_denom_pos, rule quotient_of_div)
    moreover from this that have "0 \<le> n" by (simp add: zero_le_divide_iff)
    moreover have "ratio_text x = nat_text (nat n) @ CHR ''/'' # nat_text (nat d)" by (simp add: ratio_text_def nd)
    then have "to_decimal plain_reader (ratio_text x) = Some (of_nat (nat n) / of_nat (nat d))"
      by (simp add: plain_reader_def nat_text_digits digits_value_nat_text)
    ultimately show ?thesis by simp
  qed
  moreover have "to_decimal plain_reader (cents_text n) = Some (of_nat n / 100)" for n
  proof -
    have "\<forall>x \<in> set (cents_text n). is_digit x \<or> x = CHR ''.''" using digits_nat_text by (auto simp: cents_text_def)
    then have "CHR ''/'' \<notin> set (cents_text n)" by (auto simp: is_digit_def)
    moreover have "filter is_digit (cents_text n) = nat_text (n div 100) @ [char_of (48 + n div 10 mod 10), char_of (48 + n mod 10)]"
      by (simp add: cents_text_def nat_text_digits)
    moreover have "n div 100 = n div 10 div 10" by (simp add: div_mult2_eq [symmetric])
    then have "10 * (10 * (n div 100) + n div 10 mod 10) + n mod 10 = n"
      using mult_div_mod_eq [of 10 "n div 10"] mult_div_mod_eq [of 10 n] by simp
    then have "digits_value 0 (nat_text (n div 100) @ [char_of (48 + n div 10 mod 10), char_of (48 + n mod 10)]) = n"
      by (simp add: digits_value_append digits_value_nat_text)
    ultimately show ?thesis by (simp only: plain_reader_def reader.simps if_False)
  qed
  moreover have "from_iso plain_reader (int_text t) = Some t" for t
  proof (cases "t < 0")
    case False
    have "hd (nat_text (nat t)) \<noteq> CHR ''-''" by (metis list.collapse nat_text_nonempty nat_text_not_minus)
    with False show ?thesis by (simp add: plain_reader_def int_text_def digits_value_nat_text)
  qed (simp add: plain_reader_def int_text_def digits_value_nat_text)
  ultimately show ?thesis
    by (auto simp: reader_laws_def ratio_platform_def sample_platform_def is_float_def)
qed

theorem generate_accepted_witness:
  "\<exists>rows g'. generate least_rng ratio_platform plain_reader 2 (1, 3) 1 (1 / 2) () = Inr (rows, g')
    \<and> (\<forall>r \<in> set rows. accepted_row plain_reader r) \<and> distinct (map row_id rows)"
  by (rule generate_accepted [OF rng_laws_least plain_reader_laws]) simp_all

end
