(* ===== verification/Benchmark.thy ===== *)
theory Benchmark
  imports Synthetic
begin

text \<open>
  \<open>scripts/benchmark.py\<close>: the engine run over a labelled data set and its pair-level accuracy. A row is
  the dict read from one line of the file; the JSON parser is a parameter of \<open>load_rows\<close>. The attributes
  that \<open>EngineAlert\<close> declares as \<open>str | None\<close> must hold that: a row with a number or a list there is
  refused (\<open>TypeError\<close>), where Python would carry it along unchecked. The printed report is left out.

  \<open>evaluate_counts\<close> reads the numbers as cardinalities over the engine's specification, and the last
  theorem composes generator, engine and benchmark.
\<close>

section \<open>Definitions\<close>

fun line_break :: "char \<Rightarrow> bool" where
  "line_break c = (c \<in> {CHR 0x0A, CHR 0x0B, CHR 0x0C, CHR 0x0D, CHR 0x1C, CHR 0x1D, CHR 0x1E, CHR 0x85})"

text \<open>\<open>str.splitlines\<close>; the first argument is the line in progress, reversed.\<close>

fun splitlines :: "string \<Rightarrow> string \<Rightarrow> string list" where
  "splitlines cur [] = (if cur = [] then [] else [rev cur])"
| "splitlines cur (c # cs) =
     (if c = CHR 0x0D \<and> cs \<noteq> [] \<and> hd cs = CHR 0x0A then splitlines cur cs
      else if line_break c then rev cur # splitlines [] cs
      else splitlines (c # cur) cs)"

definition load_rows :: "(string \<Rightarrow> row result) \<Rightarrow> string \<Rightarrow> row list result" where
  "load_rows parse text = rmap parse (filter (\<lambda>l. py_strip l \<noteq> []) (splitlines [] text))"

fun cell_str :: "reader \<Rightarrow> cell \<Rightarrow> string" where
  "cell_str L Null = ''None''"
| "cell_str L (Text t) = t"
| "cell_str L (Num n) = int_text n"
| "cell_str L (Texts ts) = str_list L ts"

definition item :: "row \<Rightarrow> string \<Rightarrow> cell result" where
  "item r k = (case map_of r k of None \<Rightarrow> Inl KeyError | Some v \<Rightarrow> Inr v)"

definition get_cell :: "row \<Rightarrow> string \<Rightarrow> cell" where
  "get_cell r k = (case map_of r k of None \<Rightarrow> Null | Some v \<Rightarrow> v)"

definition get_text :: "row \<Rightarrow> string \<Rightarrow> string option result" where
  "get_text r k = (case get_cell r k of Null \<Rightarrow> Inr None | Text t \<Rightarrow> Inr (Some t) | _ \<Rightarrow> Inl TypeError)"

text \<open>\<open>frozenset(row.get("typologies") or [])\<close>\<close>

definition typology_set :: "row \<Rightarrow> string set result" where
  "typology_set r =
     (case get_cell r ''typologies'' of
        Null \<Rightarrow> Inr {}
      | Text t \<Rightarrow> Inr ((\<lambda>c. [c]) ` set t)
      | Num n \<Rightarrow> if n = 0 then Inr {} else Inl TypeError
      | Texts ts \<Rightarrow> Inr (set ts))"

definition engine_alert_of_row :: "reader \<Rightarrow> row \<Rightarrow> engine_alert result" where
  "engine_alert_of_row L r =
     rbind (item r ''external_alert_id'') (\<lambda>i.
     rbind (item r ''event_time'') (\<lambda>t.
     rbind (case from_iso L (cell_str L t) of None \<Rightarrow> Inl (ValueError ''Invalid isoformat string'') | Some n \<Rightarrow> Inr n) (\<lambda>event_time.
     rbind (item r ''amount'') (\<lambda>a.
     rbind (case to_decimal L (cell_str L a) of None \<Rightarrow> Inl InvalidOperation | Some d \<Rightarrow> Inr d) (\<lambda>amount.
     rbind (item r ''currency'') (\<lambda>currency.
     rbind (get_text r ''customer_ref'') (\<lambda>customer.
     rbind (get_text r ''account_ref'') (\<lambda>account.
     rbind (get_text r ''counterparty_ref'') (\<lambda>counterparty.
     rbind (get_text r ''merchant_name'') (\<lambda>merchant.
     rbind (get_text r ''mcc'') (\<lambda>mcc.
     rbind (get_text r ''device_id'') (\<lambda>device.
     rbind (get_text r ''ip_address'') (\<lambda>ip.
     rbind (get_text r ''session_id'') (\<lambda>session.
     rbind (typology_set r) (\<lambda>typologies.
       Inr \<lparr> ea_id = cell_str L i, ea_event_time = event_time, ea_amount = amount, ea_currency = cell_str L currency,
             ea_customer_ref = customer, ea_account_ref = account, ea_counterparty_ref = counterparty,
             ea_merchant_name_normalised = normalize_merchant_name merchant, ea_mcc = mcc, ea_device_id = device,
             ea_ip_address = ip, ea_session_id = session, ea_typologies = typologies \<rparr>)))))))))))))))"

record metrics =
  pairs_total :: nat
  m_tp :: nat
  m_fp :: nat
  m_fn :: nat
  precision :: rat
  recall :: rat
  f1 :: rat
  false_merge_rate :: rat
  predicted_groups :: nat
  true_groups :: nat
  m_alerts :: nat

text \<open>\<open>itertools.combinations(xs, 2)\<close> and the body of the counting loop.\<close>

fun combinations2 :: "'a list \<Rightarrow> ('a \<times> 'a) list" where
  "combinations2 [] = []"
| "combinations2 (x # xs) = map (Pair x) xs @ combinations2 xs"

definition count_pair ::
  "(string \<times> string) list \<Rightarrow> (string \<times> cell) list \<Rightarrow> string \<times> string \<Rightarrow> nat \<times> nat \<times> nat \<Rightarrow> (nat \<times> nat \<times> nat) result" where
  "count_pair predicted truth = (\<lambda>(a, b) (tp, fp, fn).
     rbind (getitem predicted a) (\<lambda>pa. rbind (getitem predicted b) (\<lambda>pb.
     rbind (getitem truth a) (\<lambda>ta. rbind (getitem truth b) (\<lambda>tb.
       let pred_together = pa = pb; true_together = ta \<noteq> Null \<and> ta = tb
       in Inr (if pred_together \<and> true_together then (tp + 1, fp, fn)
               else if pred_together then (tp, fp + 1, fn)
               else if true_together then (tp, fp, fn + 1)
               else (tp, fp, fn)))))))"

definition ratio :: "nat \<Rightarrow> nat \<Rightarrow> rat \<Rightarrow> rat" where
  "ratio n d otherwise = (if d \<noteq> 0 then fl (of_nat n / of_nat d) else otherwise)"

definition f1_of :: "rat \<Rightarrow> rat \<Rightarrow> rat" where
  "f1_of p r = (if fl (p + r) \<noteq> 0 then fl (fl (fl (2 * p) * r) / fl (p + r)) else 0)"

definition is_list :: "cell \<Rightarrow> bool" where
  "is_list v = (case v of Texts _ \<Rightarrow> True | _ \<Rightarrow> False)"

definition evaluate :: "platform \<Rightarrow> reader \<Rightarrow> row list \<Rightarrow> grouping_config \<Rightarrow> metrics result" where
  "evaluate P L rows config =
     rbind (rmap (engine_alert_of_row L) rows) (\<lambda>engine_alerts.
     rbind (group P engine_alerts config [] []) (\<lambda>decisions.
     let predicted = fold (\<lambda>d. AList.update (d_alert_id d) (d_group_key d)) decisions [] in
     rbind (rmap (\<lambda>r. rbind (item r ''external_alert_id'') (\<lambda>i. Inr (cell_str L i, get_cell r ''ground_truth_group_id''))) rows)
       (\<lambda>labels.
     let truth = fold (\<lambda>kv. AList.update (fst kv) (snd kv)) labels []; ids = sort (map fst truth) in
     rbind (rfold (count_pair predicted truth) (combinations2 ids) (0, 0, 0)) (\<lambda>(tp, fp, fn).
       let p = ratio tp (tp + fp) 1; r = ratio tp (tp + fn) 1 in
       if list_ex is_list (map snd truth) then Inl TypeError
       else Inr \<lparr> pairs_total = length ids * (length ids - 1) div 2, m_tp = tp, m_fp = fp, m_fn = fn, precision = p,
              recall = r, f1 = f1_of p r, false_merge_rate = ratio fp (tp + fp) 0,
              predicted_groups = card (snd ` set predicted), true_groups = card (snd ` set truth),
              m_alerts = length ids \<rparr>))))"

text \<open>The exit status of \<open>main\<close>.\<close>

definition benchmark_main ::
  "platform \<Rightarrow> reader \<Rightarrow> (string \<Rightarrow> row result) \<Rightarrow> string \<Rightarrow> grouping_config \<Rightarrow> rat \<Rightarrow> rat \<Rightarrow> nat result" where
  "benchmark_main P L parse text config min_f1 max_false_merge =
     rbind (load_rows parse text) (\<lambda>rows.
     rbind (evaluate P L rows config) (\<lambda>result.
       Inr (if f1 result < min_f1 \<or> false_merge_rate result > max_false_merge then 1 else 0)))"

section \<open>Pairs, dictionaries and the counting loop\<close>

lemma fold_update_distinct:
  assumes "distinct (map k xs)"
  shows "fold (\<lambda>x. AList.update (k x) (v x)) xs [] = map (\<lambda>x. (k x, v x)) xs"
proof -
  have "fold (\<lambda>x. AList.update (k x) (v x)) xs d = d @ map (\<lambda>x. (k x, v x)) xs"
    if "distinct (map k xs)" "k ` set xs \<inter> fst ` set d = {}" for xs d
    using that by (induction xs arbitrary: d) (auto simp: update_new)
  from this [OF assms, of "[]"] show ?thesis by simp
qed

lemma set_combinations2:
  fixes xs :: "'a::linorder list"
  assumes "sorted xs" and "distinct xs"
  shows "set (combinations2 xs) = {(a, b). a \<in> set xs \<and> b \<in> set xs \<and> a < b}"
  using assms by (induction xs) (auto simp: order_le_less)

lemma distinct_combinations2: "distinct xs \<Longrightarrow> distinct (combinations2 xs)"
proof (induction xs)
  case (Cons x xs)
  have "set (combinations2 ys) \<subseteq> set ys \<times> set ys" for ys :: "'a list"
    by (induction ys) auto
  from this [of xs] Cons show ?case by (auto simp: distinct_map inj_on_def)
qed simp

lemma length_combinations2: "length (combinations2 xs) = length xs * (length xs - 1) div 2"
proof (induction xs)
  case (Cons x xs)
  have "even (length xs * (length xs - 1))" by (cases "length xs") auto
  moreover have "Suc (length xs) * length xs = 2 * length xs + length xs * (length xs - 1)"
    by (cases "length xs") (auto simp: algebra_simps)
  ultimately show ?case using Cons by simp
qed simp

lemma count_fold:
  assumes "\<forall>(a, b) \<in> set prs. \<forall>x \<in> {a, b}. map_of predicted x = Some (f x) \<and> map_of truth x = Some (h x)"
  shows "rfold (count_pair predicted truth) prs (tp, fp, fn) = Inr
    (tp + length (filter (\<lambda>(a, b). f a = f b \<and> h a \<noteq> Null \<and> h a = h b) prs),
     fp + length (filter (\<lambda>(a, b). f a = f b \<and> \<not> (h a \<noteq> Null \<and> h a = h b)) prs),
     fn + length (filter (\<lambda>(a, b). f a \<noteq> f b \<and> h a \<noteq> Null \<and> h a = h b) prs))"
  using assms
proof (induction prs arbitrary: tp fp fn)
  case (Cons ab prs)
  obtain a b where ab: "ab = (a, b)" by (cases ab)
  from Cons.prems have "getitem predicted a = Inr (f a)" "getitem predicted b = Inr (f b)"
    "getitem truth a = Inr (h a)" "getitem truth b = Inr (h b)" by (auto simp: ab getitem_def)
  with Cons show ?case by (auto simp: ab count_pair_def Let_def)
qed simp

section \<open>The metrics\<close>

lemma ilog_unique:
  assumes "1 < b" and "0 < q" and "rat_of_nat b powi e \<le> q" and "q < rat_of_nat b powi (e + 1)"
  shows "ilog b q = e"
proof (rule antisym)
  show "ilog b q \<le> e" using ilog_less [OF assms(1,2,4)] by simp
  show "e \<le> ilog b q"
  proof (rule ccontr)
    assume "\<not> e \<le> ilog b q"
    then have "rat_of_nat b powi (ilog b q + 1) \<le> of_nat b powi e"
      using assms(1) by (intro power_int_increasing) auto
    with assms(3) ilog_bounds [OF assms(1,2)] show False by linarith
  qed
qed

lemma fl_double: "fl (2 * q) = 2 * fl q"
proof -
  have pos: "round_pos 2 53 (2 * q) = 2 * round_pos 2 53 q" if "0 < q" for q
  proof -
    have "ilog 2 (2 * q) = ilog 2 q + 1"
      using that ilog_bounds [of 2 q] by (intro ilog_unique) (simp_all add: power_int_add)
    moreover define u where "u = rat_of_nat 2 powi (ilog 2 q - int 53 + 1)"
    moreover have "rat_of_nat 2 powi (ilog 2 q + 1 - int 53 + 1) = 2 * u"
      using power_int_add [of "rat_of_nat 2" "ilog 2 q - int 53 + 1" 1] by (simp add: u_def algebra_simps)
    ultimately show ?thesis by (simp only: round_pos_def Let_def) simp
  qed
  show ?thesis using pos [of q] pos [of "- q"] by (auto simp: fl_def round_sig_def)
qed

lemma ratio_range: "n \<le> d \<Longrightarrow> 0 \<le> z \<Longrightarrow> z \<le> 1 \<Longrightarrow> 0 \<le> ratio n d z \<and> ratio n d z \<le> 1"
  by (auto simp: ratio_def intro!: fl_nonneg fl_le_1)

lemma ratio_float: "is_float z \<Longrightarrow> is_float (ratio n d z)"
  by (simp add: ratio_def is_float_def)

lemma f1_range:
  assumes "0 \<le> p" and "p \<le> 1" and "0 \<le> r" and "r \<le> 1" and "is_float p"
  shows "0 \<le> f1_of p r \<and> f1_of p r \<le> 1"
proof (cases "fl (p + r) = 0")
  case False
  have two: "fl (2 * p) = 2 * p" using assms(5) by (simp add: fl_double is_float_def)
  have "p * r \<le> p" "p * r \<le> r" using assms by (simp_all add: mult_left_le mult_left_le_one_le)
  then have "2 * p * r \<le> p + r" by simp
  then have le: "fl (2 * p * r) \<le> fl (p + r)" by (rule fl_mono)
  have nonneg: "0 \<le> fl (2 * p * r)" "0 \<le> fl (p + r)" using assms by (simp_all add: fl_nonneg)
  define x y where "x = fl (2 * p * r)" and "y = fl (p + r)"
  have "0 \<le> x" "x \<le> y" "0 < y" using nonneg le False by (auto simp only: x_def y_def order_le_less)
  then have "0 \<le> x / y" "x / y \<le> 1" by simp_all
  then have "0 \<le> fl (2 * p * r) / fl (p + r)" "fl (2 * p * r) / fl (p + r) \<le> 1" by (simp_all only: x_def y_def)
  with False show ?thesis by (simp add: f1_of_def two fl_nonneg fl_le_1)
qed (simp add: f1_of_def)

text \<open>A ratio of counts up to \<open>2 ^ 53\<close> is 1 only if it is exact.\<close>

lemma ratio_below_1:
  assumes "n < d" and "d \<le> 2 ^ 53"
  shows "ratio n d z < 1"
proof -
  have "rat_of_nat d \<le> 2 ^ 53" using assms(2) by (metis of_nat_le_iff of_nat_numeral of_nat_power)
  moreover have "rat_of_nat n + 1 \<le> of_nat d" using assms(1) by (metis Suc_leI of_nat_Suc of_nat_le_iff add.commute)
  ultimately have "rat_of_nat n / of_nat d \<le> 1 - 1 / 2 ^ 53"
    using assms(1) by (simp add: field_simps)
  from fl_mono [OF this] have "ratio n d z \<le> fl (1 - 1 / 2 ^ 53)" using assms(1) by (simp add: ratio_def)
  moreover have "fl (1 - 1 / 2 ^ 53) = 1 - 1 / 2 ^ 53"
    using round_sig_exact [of 2 53 "2 ^ 53 - 1" "- 53"] by (simp add: fl_def power_int_minus)
  ultimately show ?thesis by simp
qed

lemma ratio_positive: "0 < n \<Longrightarrow> d \<noteq> 0 \<Longrightarrow> 0 < ratio n d z"
  by (simp add: ratio_def fl_positive)

section \<open>What the counts are\<close>

definition truth_key :: string where
  "truth_key = ''ground_truth_group_id''"

definition same_label :: "row list \<Rightarrow> string \<Rightarrow> string \<Rightarrow> bool" where
  "same_label rows a b \<longleftrightarrow> (\<exists>r \<in> set rows. \<exists>q \<in> set rows. get_cell r ''external_alert_id'' = Text a
     \<and> get_cell q ''external_alert_id'' = Text b
     \<and> get_cell r truth_key = get_cell q truth_key \<and> get_cell r truth_key \<noteq> Null)"

text \<open>The rows of a data set: text identities, one row each, labels that are no lists.\<close>

definition wf_rows :: "row list \<Rightarrow> bool" where
  "wf_rows rows \<longleftrightarrow>
     (\<forall>r \<in> set rows. (\<exists>t. get_cell r ''external_alert_id'' = Text t) \<and> \<not> is_list (get_cell r truth_key))
     \<and> distinct (map (\<lambda>r. get_cell r ''external_alert_id'') rows)"

definition ordered_pairs :: "string set \<Rightarrow> (string \<Rightarrow> string \<Rightarrow> bool) \<Rightarrow> nat" where
  "ordered_pairs ids Q = card {(a, b). a \<in> ids \<and> b \<in> ids \<and> a < b \<and> Q a b}"

lemma item_text: "get_cell r k = Text t \<Longrightarrow> item r k = Inr (Text t)"
  by (auto simp: item_def get_cell_def split: option.splits)

lemma engine_alert_id:
  "engine_alert_of_row L r = Inr a \<Longrightarrow> get_cell r ''external_alert_id'' = Text t \<Longrightarrow> ea_id a = t"
  by (auto simp: engine_alert_of_row_def result_simps item_text)

lemma engine_alert_ids:
  assumes "rmap (engine_alert_of_row L) rows = Inr alerts" and "wf_rows rows"
  shows "map (\<lambda>r. get_cell r ''external_alert_id'') rows = map (\<lambda>a. Text (ea_id a)) alerts"
proof -
  from assms(1) have "list_all2 (\<lambda>r a. engine_alert_of_row L r = Inr a) rows alerts"
    by (simp only: rmap_eq_Inr)
  moreover have "\<forall>r \<in> set rows. \<exists>t. get_cell r ''external_alert_id'' = Text t" using assms(2) by (simp add: wf_rows_def)
  ultimately show ?thesis
    by (induction rows alerts rule: list_all2_induct) (auto dest: engine_alert_id)
qed

lemma filter_pairs:
  assumes "ids = sorted_list_of_set I" and "finite I"
  shows "length (filter (\<lambda>(a, b). Q a b) (combinations2 ids)) = ordered_pairs I Q"
proof -
  have ids: "sorted ids" "distinct ids" "set ids = I" using assms by simp_all
  have "length (filter (\<lambda>(a, b). Q a b) (combinations2 ids)) = card (set (filter (\<lambda>(a, b). Q a b) (combinations2 ids)))"
    using distinct_combinations2 [OF ids(2)] by (metis distinct_card distinct_filter)
  also have "set (filter (\<lambda>(a, b). Q a b) (combinations2 ids)) = {(a, b). a \<in> I \<and> b \<in> I \<and> a < b \<and> Q a b}"
    using set_combinations2 [OF ids(1,2)] by (auto simp: ids(3))
  finally show ?thesis by (simp add: ordered_pairs_def)
qed

lemma evaluate_result:
  assumes rows: "wf_rows rows" and alerts: "rmap (engine_alert_of_row L) rows = Inr alerts"
    and wf: "wf_input alerts config" and E: "E = kept_pairs P alerts config [] []"
    and I: "I = ea_id ` set alerts"
  shows "\<exists>m. evaluate P L rows config = Inr m
    \<and> m_tp m = ordered_pairs I (\<lambda>a b. (a, b) \<in> linked E \<and> same_label rows a b)
    \<and> m_fp m = ordered_pairs I (\<lambda>a b. (a, b) \<in> linked E \<and> \<not> same_label rows a b)
    \<and> m_fn m = ordered_pairs I (\<lambda>a b. (a, b) \<notin> linked E \<and> same_label rows a b)
    \<and> pairs_total m = ordered_pairs I (\<lambda>a b. True) \<and> m_alerts m = card I
    \<and> precision m = ratio (m_tp m) (m_tp m + m_fp m) 1 \<and> recall m = ratio (m_tp m) (m_tp m + m_fn m) 1
    \<and> f1 m = f1_of (precision m) (recall m) \<and> false_merge_rate m = ratio (m_fp m) (m_tp m + m_fp m) 0
    \<and> predicted_groups m = card ((\<lambda>x. Min {y. (x, y) \<in> linked E}) ` I)
    \<and> true_groups m = card ((\<lambda>r. get_cell r truth_key) ` set rows)"
proof -
  let ?x = "\<lambda>r. get_cell r ''external_alert_id''" and ?t = "\<lambda>r. get_cell r truth_key"
  let ?K = "\<lambda>x. Min {y. (x, y) \<in> linked E}"
  note ids = engine_alert_ids [OF alerts rows]
  define name where "name r = (case ?x r of Text t \<Rightarrow> t | _ \<Rightarrow> [])" for r
  have name: "?x r = Text (name r)" if "r \<in> set rows" for r
    using rows that by (auto simp: wf_rows_def name_def)
  then have names: "map name rows = map ea_id alerts"
  proof -
    have "map Text (map name rows) = map Text (map ea_id alerts)" using ids name by (simp cong: map_cong)
    then show ?thesis by (simp add: inj_map_eq_map inj_def del: map_map)
  qed
  have dn: "distinct (map name rows)" using wf by (simp add: names wf_input_def)
  have sI: "set (map name rows) = I" by (simp only: names I set_map)
  have fin: "finite I" by (simp add: I)
  define truth where "truth = map (\<lambda>r. (name r, ?t r)) rows"
  have labels: "rmap (\<lambda>r. rbind (item r ''external_alert_id'') (\<lambda>i. Inr (cell_str L i, get_cell r ''ground_truth_group_id''))) rows
      = Inr truth"
    using name unfolding rmap_eq_Inr truth_def truth_key_def [symmetric]
    by (simp add: list_all2_map2 list.rel_refl_strong item_text)
  have tdict: "fold (\<lambda>kv. AList.update (fst kv) (snd kv)) truth [] = truth"
    using fold_update_distinct [of fst truth snd] dn by (simp add: truth_def o_def)
  have tids: "sort (map fst truth) = sorted_list_of_set I"
    using sorted_list_of_set_sort_remdups [of "map name rows"] dn sI
    by (simp add: truth_def o_def distinct_remdups_id)
  obtain ds where ds: "group P alerts config [] [] = Inr ds" "map d_alert_id ds = sorted_list_of_set I"
    "ds = map (decision_of P alerts config [] []) (sorted_list_of_set I)"
    unfolding group_eq [OF wf] by (simp add: I o_def)
  define predicted where "predicted = map (\<lambda>d. (d_alert_id d, d_group_key d)) ds"
  have pdict: "fold (\<lambda>d. AList.update (d_alert_id d) (d_group_key d)) ds [] = predicted"
    using fold_update_distinct [of d_alert_id ds d_group_key] ds(2) by (simp add: predicted_def)
  have pmap: "predicted = map (\<lambda>x. (x, ?K x)) (sorted_list_of_set I)"
    by (simp add: predicted_def ds(3) decision_of_simps E o_def)
  have p: "map_of predicted x = Some (?K x)" if "x \<in> I" for x
    using that fin by (simp add: pmap map_of_map_restrict restrict_map_def)
  define h where "h x = the (map_of truth x)" for x
  have hr: "h (name r) = ?t r" "map_of truth (name r) = Some (?t r)" if "r \<in> set rows" for r
  proof -
    have "map_of truth (name r) = Some (?t r)"
      using that dn by (intro map_of_is_SomeI) (auto simp: truth_def o_def)
    then show "h (name r) = ?t r" "map_of truth (name r) = Some (?t r)" by (simp_all add: h_def)
  qed
  have t: "map_of truth x = Some (h x)" if "x \<in> I" for x using that hr by (auto simp: sI [symmetric])
  have same: "h a \<noteq> Null \<and> h a = h b \<longleftrightarrow> same_label rows a b" if ab: "a \<in> I" "b \<in> I" for a b
  proof -
    from ab obtain r q where rq: "r \<in> set rows" "a = name r" "q \<in> set rows" "b = name q"
      by (auto simp: sI [symmetric])
    have uniq: "u' = u" if "u \<in> set rows" "u' \<in> set rows" "?x u' = Text (name u)" for u u'
      using that name [OF that(2)] dn by (auto simp: distinct_map inj_on_def)
    show ?thesis
    proof
      assume "h a \<noteq> Null \<and> h a = h b"
      then have "?t r = ?t q" "?t r \<noteq> Null" using hr(1) [OF rq(1)] hr(1) [OF rq(3)] rq(2,4) by auto
      then show "same_label rows a b" unfolding same_label_def using rq name by blast
    next
      assume "same_label rows a b"
      then obtain r' q' where "r' \<in> set rows" "q' \<in> set rows" "?x r' = Text (name r)" "?x q' = Text (name q)"
        "?t r' = ?t q'" "?t r' \<noteq> Null" unfolding same_label_def rq(2,4) by blast
      then have "?t r = ?t q" "?t r \<noteq> Null" using uniq rq(1,3) by blast+
      then show "h a \<noteq> Null \<and> h a = h b" using hr(1) [OF rq(1)] hr(1) [OF rq(3)] rq(2,4) by simp
    qed
  qed
  have K: "?K a = ?K b \<longleftrightarrow> (a, b) \<in> linked E" if "a \<in> I" "b \<in> I" for a b
    using group_key_props(4) [OF wf, of a E P "[]" "[]" b] that by (simp add: E I)
  have prs: "\<forall>(a, b) \<in> set (combinations2 (sorted_list_of_set I)). a \<in> I \<and> b \<in> I"
    using set_combinations2 [of "sorted_list_of_set I"] fin by auto
  have cong: "length (filter (\<lambda>(a, b). Q a b) (combinations2 (sorted_list_of_set I))) = ordered_pairs I S"
    if "\<And>a b. a \<in> I \<Longrightarrow> b \<in> I \<Longrightarrow> Q a b = S a b" for Q S
    using filter_pairs [OF refl fin, of Q] that by (simp add: ordered_pairs_def cong: conj_cong)
  have loop: "rfold (count_pair predicted truth) (combinations2 (sorted_list_of_set I)) (0, 0, 0) = Inr
    (ordered_pairs I (\<lambda>a b. (a, b) \<in> linked E \<and> same_label rows a b),
     ordered_pairs I (\<lambda>a b. (a, b) \<in> linked E \<and> \<not> same_label rows a b),
     ordered_pairs I (\<lambda>a b. (a, b) \<notin> linked E \<and> same_label rows a b))"
  proof -
    have c: "\<forall>(a, b) \<in> set (combinations2 (sorted_list_of_set I)). \<forall>x \<in> {a, b}.
        map_of predicted x = Some (?K x) \<and> map_of truth x = Some (h x)"
    proof (intro ballI, unfold split_beta, intro ballI)
      fix ab x assume "ab \<in> set (combinations2 (sorted_list_of_set I))" "x \<in> {fst ab, snd ab}"
      with prs have "x \<in> I" by auto
      with p t show "map_of predicted x = Some (?K x) \<and> map_of truth x = Some (h x)" by blast
    qed
    have l: "length (filter (\<lambda>(a, b). ?K a = ?K b \<and> h a \<noteq> Null \<and> h a = h b) (combinations2 (sorted_list_of_set I)))
        = ordered_pairs I (\<lambda>a b. (a, b) \<in> linked E \<and> same_label rows a b)"
      "length (filter (\<lambda>(a, b). ?K a = ?K b \<and> \<not> (h a \<noteq> Null \<and> h a = h b)) (combinations2 (sorted_list_of_set I)))
        = ordered_pairs I (\<lambda>a b. (a, b) \<in> linked E \<and> \<not> same_label rows a b)"
      "length (filter (\<lambda>(a, b). ?K a \<noteq> ?K b \<and> h a \<noteq> Null \<and> h a = h b) (combinations2 (sorted_list_of_set I)))
        = ordered_pairs I (\<lambda>a b. (a, b) \<notin> linked E \<and> same_label rows a b)"
      by (rule cong, simp only: K same)+
    show ?thesis unfolding count_fold [OF c] l add_0 ..
  qed
  have total: "length (sorted_list_of_set I) * (length (sorted_list_of_set I) - 1) div 2 = ordered_pairs I (\<lambda>a b. True)"
    using filter_pairs [OF refl fin, of "\<lambda>_ _. True"] by (simp add: length_combinations2 split_beta)
  have nolist: "\<not> list_ex is_list (map snd truth)"
    using rows by (auto simp: truth_def list_ex_iff wf_rows_def)
  have groups: "snd ` set predicted = ?K ` I" "snd ` set truth = ?t ` set rows"
    using fin by (auto simp: pmap truth_def image_iff)
  show ?thesis
    unfolding evaluate_def alerts ds(1) rbind_Inr Let_def pdict labels tdict tids loop total groups
    using nolist fin by simp
qed

text \<open>On a labelled data set with one row per identity, whose alerts the engine takes, the benchmark
  succeeds, and its counts are exactly the unordered pairs that the engine's specification puts into one
  group or not against the labels; the metrics are the stated quotients, and the numbers of groups those
  of the components and of the labels.\<close>

theorem evaluate_counts:
  assumes "wf_rows rows" and "rmap (engine_alert_of_row L) rows = Inr alerts" and "wf_input alerts config"
    and "E = kept_pairs P alerts config [] []" and "I = ea_id ` set alerts"
  shows "\<exists>m. evaluate P L rows config = Inr m
    \<and> m_tp m = ordered_pairs I (\<lambda>a b. (a, b) \<in> linked E \<and> same_label rows a b)
    \<and> m_fp m = ordered_pairs I (\<lambda>a b. (a, b) \<in> linked E \<and> \<not> same_label rows a b)
    \<and> m_fn m = ordered_pairs I (\<lambda>a b. (a, b) \<notin> linked E \<and> same_label rows a b)
    \<and> pairs_total m = ordered_pairs I (\<lambda>a b. True) \<and> m_alerts m = card I
    \<and> precision m = ratio (m_tp m) (m_tp m + m_fp m) 1 \<and> recall m = ratio (m_tp m) (m_tp m + m_fn m) 1
    \<and> f1 m = f1_of (precision m) (recall m) \<and> false_merge_rate m = ratio (m_fp m) (m_tp m + m_fp m) 0
    \<and> predicted_groups m = card ((\<lambda>x. Min {y. (x, y) \<in> linked E}) ` I)
    \<and> true_groups m = card ((\<lambda>r. get_cell r truth_key) ` set rows)"
  by (rule evaluate_result [OF assms])

lemma count_total:
  "rfold (count_pair predicted truth) prs (tp, fp, fn) = Inr (tp', fp', fn') \<Longrightarrow>
     tp' + fp' + fn' \<le> tp + fp + fn + length prs"
proof (induction prs arbitrary: tp fp fn)
  case (Cons ab prs)
  from Cons.prems obtain x y z where "count_pair predicted truth ab (tp, fp, fn) = Inr (x, y, z)"
    "rfold (count_pair predicted truth) prs (x, y, z) = Inr (tp', fp', fn')"
    by (auto simp: result_simps)
  moreover from this(1) have "x + y + z \<le> tp + fp + fn + 1"
    by (auto simp: count_pair_def result_simps Let_def split: prod.splits if_splits)
  ultimately show ?case using Cons.IH [of x y z] by simp
qed simp

lemma f1_of_1: "f1_of 1 1 = 1"
  by (simp add: f1_of_def fl_numeral)

lemma metrics_range:
  assumes "evaluate P L rows config = Inr m"
  shows "0 \<le> precision m \<and> precision m \<le> 1 \<and> 0 \<le> recall m \<and> recall m \<le> 1 \<and> 0 \<le> f1 m \<and> f1 m \<le> 1
    \<and> 0 \<le> false_merge_rate m \<and> false_merge_rate m \<le> 1
    \<and> (m_fp m = 0 \<and> m_fn m = 0 \<longrightarrow> precision m = 1 \<and> recall m = 1 \<and> f1 m = 1 \<and> false_merge_rate m = 0)
    \<and> (pairs_total m \<le> 2 ^ 53 \<longrightarrow>
         (precision m = 1 \<longleftrightarrow> m_fp m = 0) \<and> (false_merge_rate m = 0 \<longleftrightarrow> m_fp m = 0) \<and> (recall m = 1 \<longleftrightarrow> m_fn m = 0))"
proof -
  obtain pd truth x where x: "rfold (count_pair pd truth) (combinations2 (sort (map fst truth))) (0, 0, 0) = Inr x"
    and body: "(case x of (tp, fp, fn) \<Rightarrow>
       if list_ex is_list (map snd truth) then Inl TypeError
       else Inr \<lparr> pairs_total = length (sort (map fst truth)) * (length (sort (map fst truth)) - 1) div 2,
              m_tp = tp, m_fp = fp, m_fn = fn, precision = ratio tp (tp + fp) 1,
              recall = ratio tp (tp + fn) 1, f1 = f1_of (ratio tp (tp + fp) 1) (ratio tp (tp + fn) 1),
              false_merge_rate = ratio fp (tp + fp) 0,
              predicted_groups = card (snd ` set pd), true_groups = card (snd ` set truth),
              m_alerts = length (sort (map fst truth)) \<rparr>) = Inr m"
    using assms unfolding evaluate_def Let_def rbind_eq_Inr by blast
  obtain tp fp fn where "x = (tp, fp, fn)" by (cases x)
  with x body have loop: "rfold (count_pair pd truth) (combinations2 (sort (map fst truth))) (0, 0, 0)
      = Inr (m_tp m, m_fp m, m_fn m)"
    and m: "precision m = ratio (m_tp m) (m_tp m + m_fp m) 1" "recall m = ratio (m_tp m) (m_tp m + m_fn m) 1"
      "f1 m = f1_of (precision m) (recall m)" "false_merge_rate m = ratio (m_fp m) (m_tp m + m_fp m) 0"
    and total: "pairs_total m = length (combinations2 (sort (map fst truth)))"
    by (auto simp: length_combinations2 split: if_splits)
  have le: "m_tp m + m_fp m + m_fn m \<le> pairs_total m" using count_total [OF loop] by (simp add: total)
  have "precision m \<in> {0..1}" "recall m \<in> {0..1}" "false_merge_rate m \<in> {0..1}"
    using ratio_range by (simp_all add: m)
  moreover have "f1 m \<in> {0..1}"
    using calculation f1_range ratio_float by (simp add: m is_float_def)
  moreover have "precision m = 1 \<and> recall m = 1 \<and> f1 m = 1 \<and> false_merge_rate m = 0" if "m_fp m = 0 \<and> m_fn m = 0"
  proof -
    have "ratio x x 1 = 1" "ratio 0 x 0 = 0" for x by (simp_all add: ratio_def)
    with that show ?thesis by (simp add: m f1_of_1)
  qed
  moreover have "(precision m = 1 \<longleftrightarrow> m_fp m = 0) \<and> (false_merge_rate m = 0 \<longleftrightarrow> m_fp m = 0) \<and> (recall m = 1 \<longleftrightarrow> m_fn m = 0)"
    if "pairs_total m \<le> 2 ^ 53"
  proof -
    have one: "ratio x (x + y) 1 = 1 \<longleftrightarrow> y = 0" if "x + y \<le> 2 ^ 53" for x y
      using ratio_below_1 [of x "x + y" 1] that by (cases "y = 0") (auto simp: ratio_def)
    have zero: "ratio x (y + x) 0 = 0 \<longleftrightarrow> x = 0" for x y
      using ratio_positive [of x "y + x" 0] by (cases "x = 0") (auto simp: ratio_def)
    have "m_tp m + m_fp m \<le> 2 ^ 53" "m_tp m + m_fn m \<le> 2 ^ 53" using le that by linarith+
    then show ?thesis by (simp only: m one zero simp_thms)
  qed
  ultimately show ?thesis by simp
qed

text \<open>Whatever the data, the four metrics of a benchmark that returns lie in [0, 1] after float rounding.
  Without a wrong pair they are the perfect ones, and, up to \<open>2 ^ 53\<close> pairs, a wrong pair always shows:
  rounding never turns a precision or recall below 1 into 1, nor a false merge rate into 0.\<close>

theorem evaluate_metrics:
  assumes "evaluate P L rows config = Inr m"
  shows "0 \<le> precision m \<and> precision m \<le> 1 \<and> 0 \<le> recall m \<and> recall m \<le> 1 \<and> 0 \<le> f1 m \<and> f1 m \<le> 1
    \<and> 0 \<le> false_merge_rate m \<and> false_merge_rate m \<le> 1
    \<and> (m_fp m = 0 \<and> m_fn m = 0 \<longrightarrow> precision m = 1 \<and> recall m = 1 \<and> f1 m = 1 \<and> false_merge_rate m = 0)
    \<and> (pairs_total m \<le> 2 ^ 53 \<longrightarrow>
         (precision m = 1 \<longleftrightarrow> m_fp m = 0) \<and> (false_merge_rate m = 0 \<longleftrightarrow> m_fp m = 0) \<and> (recall m = 1 \<longleftrightarrow> m_fn m = 0))"
  by (rule metrics_range [OF assms])

section \<open>A concrete data set\<close>

definition sample_row :: "string \<Rightarrow> string \<Rightarrow> row" where
  "sample_row x g =
     [(''external_alert_id'', Text x), (''event_time'', Text (isoformat ratio_platform 0)),
      (''amount'', Text (cents_text 25000)), (''currency'', Text ''USD''), (''account_ref'', Text ''acct-1''),
      (truth_key, Text g)]"

definition sample_engine_alert :: "string \<Rightarrow> engine_alert" where
  "sample_engine_alert x =
     \<lparr> ea_id = x, ea_event_time = 0, ea_amount = 250, ea_currency = ''USD'', ea_customer_ref = None,
       ea_account_ref = Some ''acct-1'', ea_counterparty_ref = None, ea_merchant_name_normalised = None,
       ea_mcc = None, ea_device_id = None, ea_ip_address = None, ea_session_id = None, ea_typologies = {} \<rparr>"

lemma sample_row_alert: "engine_alert_of_row plain_reader (sample_row x g) = Inr (sample_engine_alert x)"
proof -
  have laws: "from_iso plain_reader (isoformat ratio_platform 0) = Some 0"
    "to_decimal plain_reader (cents_text 25000) = Some (of_nat 25000 / 100)"
    using plain_reader_laws unfolding reader_laws_def by blast+
  show ?thesis
    by (simp add: engine_alert_of_row_def sample_row_def truth_key_def item_def get_text_def get_cell_def
        typology_set_def laws sample_engine_alert_def)
qed

definition sample_rows :: "row list" where
  "sample_rows = [sample_row ''b'' ''g'', sample_row ''a'' ''g'', sample_row ''c'' ''h'']"

lemma sample_rows_facts:
  "wf_rows sample_rows"
  "rmap (engine_alert_of_row plain_reader) sample_rows
     = Inr [sample_engine_alert ''b'', sample_engine_alert ''a'', sample_engine_alert ''c'']"
  "wf_input [sample_engine_alert ''b'', sample_engine_alert ''a'', sample_engine_alert ''c''] shipped_config"
proof -
  show "wf_rows sample_rows"
    by (simp add: wf_rows_def sample_rows_def sample_row_def truth_key_def get_cell_def is_list_def)
  show "rmap (engine_alert_of_row plain_reader) sample_rows
     = Inr [sample_engine_alert ''b'', sample_engine_alert ''a'', sample_engine_alert ''c'']"
    by (simp add: sample_rows_def sample_row_alert)
  show "wf_input [sample_engine_alert ''b'', sample_engine_alert ''a'', sample_engine_alert ''c''] shipped_config"
    using wf_shipped_rules wf_shipped_weights by (simp add: wf_input_def sample_engine_alert_def)
qed

theorem evaluate_counts_witness:
  "\<exists>m. evaluate ratio_platform plain_reader sample_rows shipped_config = Inr m \<and> m_alerts m = 3"
proof -
  from evaluate_counts [OF sample_rows_facts refl refl, of ratio_platform] obtain m where
    "evaluate ratio_platform plain_reader sample_rows shipped_config = Inr m"
    "m_alerts m = card (ea_id ` set [sample_engine_alert ''b'', sample_engine_alert ''a'', sample_engine_alert ''c''])"
    by blast
  then show ?thesis by (simp add: sample_engine_alert_def)
qed

theorem evaluate_metrics_witness:
  "\<exists>m. evaluate ratio_platform plain_reader sample_rows shipped_config = Inr m \<and> 0 \<le> f1 m \<and> f1 m \<le> 1"
proof -
  from evaluate_result [OF sample_rows_facts refl refl, of ratio_platform] obtain m where
    m: "evaluate ratio_platform plain_reader sample_rows shipped_config = Inr m" by blast
  with evaluate_metrics [OF m] show ?thesis by blast
qed

end
