(* ===== verification/Recovery.thy ===== *)
theory Recovery
  imports Benchmark
begin

text \<open>
  Generator, engine and benchmark together: on the data that \<open>generate\<close> makes without hard cases, the
  engine with the shipped configuration recovers the labelled groups exactly. Alerts of one cluster share
  the customer and lie within twelve hours, so a rule links them; alerts of different groups share no value
  that a shipped rule blocks on.
\<close>

section \<open>The alerts of a group\<close>

fun tag :: "label \<Rightarrow> string" where
  "tag (Grp i) = ''c'' @ nat_text i"
| "tag (Dcy d) = ''dcy-'' @ nat_text d"
| "tag (Sng j) = ''s'' @ nat_text j"

text \<open>An alert of the group \<open>T\<close> with its keys, an instant in the window and an address from the range.\<close>

definition group_alert :: "label \<Rightarrow> int \<Rightarrow> nat \<Rightarrow> nat \<Rightarrow> engine_alert \<Rightarrow> bool" where
  "group_alert T start c c' a \<longleftrightarrow>
     0 \<le> ea_amount a \<and> start \<le> ea_event_time a \<and> ea_event_time a \<le> start + secs 43200
     \<and> ea_customer_ref a = Some (''cust-'' @ tag T) \<and> ea_account_ref a = Some (''acct-'' @ tag T)
     \<and> ea_counterparty_ref a = Some (''cp-'' @ tag T)
     \<and> (\<exists>u. ea_device_id a = Some (''dev-'' @ tag T @ u) \<and> (u = [] \<or> hd u = CHR ''-''))
     \<and> (\<exists>n. ea_ip_address a = Some (ipv4 n) \<and> c \<le> n \<and> n < c')"

definition group_row :: "reader \<Rightarrow> label \<Rightarrow> int \<Rightarrow> nat \<Rightarrow> nat \<Rightarrow> row \<Rightarrow> bool" where
  "group_row L T start c c' r \<longleftrightarrow>
     (\<exists>a. engine_alert_of_row L r = Inr a \<and> group_alert T start c c' a
        \<and> get_cell r ''external_alert_id'' = Text (ea_id a) \<and> get_cell r truth_key = Text (gid T))"

lemma row_with_group:
  assumes "reader_laws P L"
    and "row_with P ext t (''cust-'' @ tag T, ''acct-'' @ tag T, ''cp-'' @ tag T) (''dev-'' @ tag T @ u) n (gid T) r"
    and "start \<le> t" and "t \<le> start + secs 43200" and "c \<le> n" and "n < c'" and "u = [] \<or> hd u = CHR ''-''"
  shows "group_row L T start c c' r"
proof -
  from assms(2) obtain source cents currency direction merchant mcc session risk typologies where
    r: "r = alert_dict ext source (isoformat P t) (cents_text cents) currency direction
          (''cust-'' @ tag T, ''acct-'' @ tag T, ''cp-'' @ tag T) merchant mcc (''dev-'' @ tag T @ u, ipv4 n, session)
          risk typologies (gid T)"
    unfolding row_with_def by blast
  have cells: "map_of r ''external_alert_id'' = Some (Text ext)" "map_of r ''event_time'' = Some (Text (isoformat P t))"
    "map_of r ''amount'' = Some (Text (cents_text cents))" "map_of r ''currency'' = Some (Text currency)"
    "map_of r ''customer_ref'' = Some (Text (''cust-'' @ tag T))" "map_of r ''account_ref'' = Some (Text (''acct-'' @ tag T))"
    "map_of r ''counterparty_ref'' = Some (Text (''cp-'' @ tag T))" "map_of r ''merchant_name'' = Some (Text merchant)"
    "map_of r ''mcc'' = Some (Text mcc)" "map_of r ''device_id'' = Some (Text (''dev-'' @ tag T @ u))"
    "map_of r ''ip_address'' = Some (Text (ipv4 n))" "map_of r ''session_id'' = Some (Text session)"
    "map_of r ''typologies'' = Some (Texts typologies)" "map_of r truth_key = Some (Text (gid T))"
    by (simp_all add: r alert_dict_def prune_def truth_key_def)
  have laws: "from_iso L (isoformat P t) = Some t" "to_decimal L (cents_text cents) = Some (of_nat cents / 100)"
    using assms(1) by (auto simp: reader_laws_def)
  define a where "a = \<lparr> ea_id = ext, ea_event_time = t, ea_amount = of_nat cents / 100, ea_currency = currency,
      ea_customer_ref = Some (''cust-'' @ tag T), ea_account_ref = Some (''acct-'' @ tag T),
      ea_counterparty_ref = Some (''cp-'' @ tag T), ea_merchant_name_normalised = normalize_merchant_name (Some merchant),
      ea_mcc = Some mcc, ea_device_id = Some (''dev-'' @ tag T @ u), ea_ip_address = Some (ipv4 n),
      ea_session_id = Some session, ea_typologies = set typologies \<rparr>"
  have "engine_alert_of_row L r = Inr a"
    by (simp only: engine_alert_of_row_def item_def get_text_def get_cell_def typology_set_def cells option.simps
        rbind_Inr cell_str.simps laws cell.simps a_def)
  moreover have "group_alert T start c c' a"
    unfolding group_alert_def a_def using assms(3-7) by auto
  moreover have "get_cell r ''external_alert_id'' = Text (ea_id a)" "get_cell r truth_key = Text (gid T)"
    by (simp_all only: get_cell_def cells option.simps a_def engine_alert.simps)
  ultimately show ?thesis unfolding group_row_def by blast
qed

fun decoy :: "label \<Rightarrow> bool" where
  "decoy (Dcy d) = True"
| "decoy _ = False"

lemma block_group:
  assumes "reader_laws P L" and "block P sizes ambiguity T c c' rs" and "ambiguity \<le> 0" and "\<not> decoy T"
    and "1 \<le> fst sizes" and "snd sizes \<le> b" and "1 \<le> b"
  shows "\<exists>start. (\<forall>r \<in> set rs. group_row L T start c c' r) \<and> rs \<noteq> [] \<and> int (length rs) \<le> b
    \<and> int c' \<le> int c + (case T of Grp _ \<Rightarrow> 1 + snd sizes | _ \<Rightarrow> 1)"
proof (cases T)
  case (Grp i)
  with assms(2,3) obtain start where len: "fst sizes \<le> int (length rs)" "int (length rs) \<le> snd sizes"
    and core: "\<forall>k < length rs. core_row P i start c c' k (rs ! k)" and c': "c' \<le> c + 1 + length rs" by auto
  have "group_row L T start c c' r" if "r \<in> set rs" for r
  proof -
    from that core obtain k where "core_row P i start c c' k r" by (metis in_set_conv_nth)
    then obtain t device n where row: "row_with P (''grp-'' @ nat_text i @ ''-a'' @ nat_text k) t
        (''cust-c'' @ nat_text i, ''acct-c'' @ nat_text i, ''cp-c'' @ nat_text i) device n (''grp-'' @ nat_text i) r"
      and t: "start \<le> t" "t \<le> start + secs 43200" "c \<le> n" "n < c'"
      and device: "device = ''dev-c'' @ nat_text i \<or> device = ''dev-c'' @ nat_text i @ ''-m'' @ nat_text k"
      unfolding core_row_def by blast
    from device obtain u where u: "device = ''dev-'' @ tag T @ u" "u = [] \<or> hd u = CHR ''-''"
      by (auto simp: Grp)
    have "row_with P (''grp-'' @ nat_text i @ ''-a'' @ nat_text k) t
        (''cust-'' @ tag T, ''acct-'' @ tag T, ''cp-'' @ tag T) (''dev-'' @ tag T @ u) n (gid T) r"
      using row unfolding u(1) by (simp add: Grp)
    from row_with_group [OF assms(1) this t u(2)] show ?thesis .
  qed
  moreover have "rs \<noteq> []" using len(1) assms(5) by auto
  ultimately show ?thesis using len(2) c' assms(6) by (intro exI [of _ start]) (simp add: Grp)
next
  case (Sng j)
  with assms(2) obtain r t where r: "rs = [r]" "c' = c + 1"
    "row_with P (''sng-'' @ nat_text j @ ''-a0'') t (''cust-s'' @ nat_text j, ''acct-s'' @ nat_text j, ''cp-s'' @ nat_text j)
       (''dev-s'' @ nat_text j) c (''sng-'' @ nat_text j) r" by auto
  then have "row_with P (''sng-'' @ nat_text j @ ''-a0'') t
      (''cust-'' @ tag T, ''acct-'' @ tag T, ''cp-'' @ tag T) (''dev-'' @ tag T @ []) c (gid T) r" by (simp add: Sng)
  from row_with_group [OF assms(1) this, of t c c'] have "group_row L T t c c' r"
    by (simp add: r(2) secs_def)
  then show ?thesis using assms(7) by (intro exI [of _ t]) (simp add: r Sng)
qed (use assms(4) in simp)

text \<open>The whole data set: each group with its window and its own range of addresses.\<close>

definition in_group :: "label \<Rightarrow> row \<Rightarrow> bool" where
  "in_group T r \<longleftrightarrow> get_cell r truth_key = Text (gid T)"

lemma group_row_in: "group_row L T start c c' r \<Longrightarrow> in_group U r \<longleftrightarrow> U = T"
  by (auto simp: group_row_def in_group_def gid_inject)

lemma grown_groups:
  assumes "reader_laws P L" and "grown P sizes ambiguity Ts c rows" and "ambiguity \<le> 0"
    and "\<forall>T \<in> set Ts. \<not> decoy T" and "1 \<le> fst sizes" and "snd sizes \<le> b" and "1 \<le> b"
  shows "\<exists>start lo hi. (\<forall>r \<in> set rows. \<exists>T \<in> set Ts. group_row L T (start T) (lo T) (hi T) r)
    \<and> (\<forall>T \<in> set Ts. hi T \<le> c \<and> filter (in_group T) rows \<noteq> [] \<and> int (length (filter (in_group T) rows)) \<le> b)
    \<and> (\<forall>T \<in> set Ts. \<forall>U \<in> set Ts. T \<noteq> U \<longrightarrow> hi T \<le> lo U \<or> hi U \<le> lo T)
    \<and> int c \<le> 1 + sum_list (map (\<lambda>T. case T of Grp _ \<Rightarrow> 1 + snd sizes | _ \<Rightarrow> 1) Ts)"
  using assms(2,4)
proof (induction rule: grown.induct)
  case (more Ts c rows T c' rs)
  from more.IH more.prems obtain start lo hi where
    rows: "\<forall>r \<in> set rows. \<exists>T \<in> set Ts. group_row L T (start T) (lo T) (hi T) r"
    and sizes: "\<forall>T \<in> set Ts. hi T \<le> c \<and> filter (in_group T) rows \<noteq> [] \<and> int (length (filter (in_group T) rows)) \<le> b"
    and apart: "\<forall>T \<in> set Ts. \<forall>U \<in> set Ts. T \<noteq> U \<longrightarrow> hi T \<le> lo U \<or> hi U \<le> lo T"
    and c: "int c \<le> 1 + sum_list (map (\<lambda>T. case T of Grp _ \<Rightarrow> 1 + snd sizes | _ \<Rightarrow> 1) Ts)" by auto
  from block_group [OF assms(1) more.hyps(4) assms(3) _ assms(5-7)] more.prems obtain st where
    rs: "\<forall>r \<in> set rs. group_row L T st c c' r" "rs \<noteq> []" "int (length rs) \<le> b"
    and c': "int c' \<le> int c + (case T of Grp _ \<Rightarrow> 1 + snd sizes | _ \<Rightarrow> 1)" by auto
  have old: "filter (in_group U) (rows @ rs) = filter (in_group U) rows" if "U \<in> set Ts" for U
    using rs(1) group_row_in more.hyps(2) that by (auto simp: filter_empty_conv)
  have "filter (in_group T) rows = []" using rows group_row_in more.hyps(2) by (fastforce simp: filter_empty_conv)
  moreover have "in_group T r" if "r \<in> set rs" for r using that rs(1) group_row_in [of L T st c c' r T] by simp
  then have "filter (in_group T) rs = rs" by (simp add: filter_id_conv)
  ultimately have new: "filter (in_group T) (rows @ rs) = rs" by simp
  let ?start = "start(T := st)" and ?lo = "lo(T := c)" and ?hi = "hi(T := c')"
  have "\<forall>r \<in> set (rows @ rs). \<exists>U \<in> set (Ts @ [T]). group_row L U (?start U) (?lo U) (?hi U) r"
    using rows rs(1) more.hyps(2) by (auto intro: bexI)
  moreover have "\<forall>U \<in> set (Ts @ [T]). ?hi U \<le> c' \<and> filter (in_group U) (rows @ rs) \<noteq> []
      \<and> int (length (filter (in_group U) (rows @ rs))) \<le> b"
  proof
    fix U assume "U \<in> set (Ts @ [T])"
    then consider "U = T" | "U \<in> set Ts" "U \<noteq> T" using more.hyps(2) by auto
    then show "?hi U \<le> c' \<and> filter (in_group U) (rows @ rs) \<noteq> [] \<and> int (length (filter (in_group U) (rows @ rs))) \<le> b"
    proof cases
      case 1
      then show ?thesis using new rs(2,3) by simp
    next
      case 2
      then show ?thesis using old [OF 2(1)] sizes more.hyps(3) by fastforce
    qed
  qed
  moreover have "\<forall>V \<in> set (Ts @ [T]). \<forall>U \<in> set (Ts @ [T]). V \<noteq> U \<longrightarrow> ?hi V \<le> ?lo U \<or> ?hi U \<le> ?lo V"
    using apart sizes by auto
  moreover have "int c' \<le> 1 + sum_list (map (\<lambda>T. case T of Grp _ \<Rightarrow> 1 + snd sizes | _ \<Rightarrow> 1) (Ts @ [T]))"
    using c c' by simp
  ultimately show ?case by blast
qed simp

section \<open>Different groups share no key\<close>

lemma tag_apart:
  assumes "T \<noteq> U" and "\<not> decoy T" and "\<not> decoy U" and "u = [] \<or> hd u = CHR ''-''" and "v = [] \<or> hd v = CHR ''-''"
  shows "tag T @ u \<noteq> tag U @ v"
proof
  assume eq: "tag T @ u = tag U @ v"
  have "u = [] \<or> \<not> is_digit (hd u)" "v = [] \<or> \<not> is_digit (hd v)" using assms(4,5) by auto
  with eq assms(1-3) show False by (cases T; cases U) (auto simp: nat_text_inject dest: nat_text_prefix)
qed

lemma ipv4_inject:
  assumes "m < 2 ^ 24" and "n < 2 ^ 24" and "ipv4 m = ipv4 n"
  shows "m = n"
proof -
  have "nat_text (m div 2 ^ 16 mod 256) @ CHR ''.'' # octet 8 m @ ''.'' @ octet 0 m
      = nat_text (n div 2 ^ 16 mod 256) @ CHR ''.'' # octet 8 n @ ''.'' @ octet 0 n"
    using assms(3) by (simp add: ipv4_def octet_def)
  from nat_text_prefix [OF this] have a: "m div 2 ^ 16 mod 256 = n div 2 ^ 16 mod 256"
    and "nat_text (m div 2 ^ 8 mod 256) @ CHR ''.'' # octet 0 m = nat_text (n div 2 ^ 8 mod 256) @ CHR ''.'' # octet 0 n"
    by (simp_all add: octet_def)
  from nat_text_prefix [OF this(2)] have b: "m div 2 ^ 8 mod 256 = n div 2 ^ 8 mod 256" and c: "m mod 256 = n mod 256"
    by (simp_all add: octet_def nat_text_inject)
  have "k = 65536 * (k div 65536 mod 256) + 256 * (k div 256 mod 256) + k mod 256" if "k < 2 ^ 24" for k :: nat
  proof -
    have e0: "k div 65536 mod 256 = k div 65536" using that by (simp add: less_mult_imp_div_less)
    have "k div 256 div 256 = k div 65536" by (simp add: div_mult2_eq [symmetric])
    then have e1: "256 * (k div 65536) + k div 256 mod 256 = k div 256" by (metis mult_div_mod_eq)
    have e2: "256 * (k div 256) + k mod 256 = k" by (rule mult_div_mod_eq)
    show ?thesis unfolding e0 using e1 e2 by linarith
  qed
  from this [OF assms(1)] this [OF assms(2)] a b c show ?thesis by simp
qed

lemma groups_share_nothing:
  assumes "group_alert T s1 c1 d1 a" and "group_alert U s2 c2 d2 b" and "T \<noteq> U" and "\<not> decoy T" and "\<not> decoy U"
    and "d1 \<le> c2 \<or> d2 \<le> c1" and "d1 \<le> 2 ^ 24" and "d2 \<le> 2 ^ 24"
  shows "ea_customer_ref a \<noteq> ea_customer_ref b" "ea_account_ref a \<noteq> ea_account_ref b"
    "ea_counterparty_ref a \<noteq> ea_counterparty_ref b" "ea_device_id a \<noteq> ea_device_id b" "ea_ip_address a \<noteq> ea_ip_address b"
proof -
  note ab = assms(1,2) [unfolded group_alert_def]
  have "tag T \<noteq> tag U" using tag_apart [OF assms(3-5), of "[]" "[]"] by simp
  with ab show "ea_customer_ref a \<noteq> ea_customer_ref b" "ea_account_ref a \<noteq> ea_account_ref b"
    "ea_counterparty_ref a \<noteq> ea_counterparty_ref b" by auto
  from ab obtain u v where "ea_device_id a = Some (''dev-'' @ tag T @ u)" "u = [] \<or> hd u = CHR ''-''"
    "ea_device_id b = Some (''dev-'' @ tag U @ v)" "v = [] \<or> hd v = CHR ''-''" by blast
  with tag_apart [OF assms(3-5)] show "ea_device_id a \<noteq> ea_device_id b" by simp
  from ab obtain m n where "ea_ip_address a = Some (ipv4 m)" "c1 \<le> m" "m < d1"
    "ea_ip_address b = Some (ipv4 n)" "c2 \<le> n" "n < d2" by auto
  moreover from this assms(6-8) have "m \<noteq> n" "m < 2 ^ 24" "n < 2 ^ 24" by auto
  ultimately show "ea_ip_address a \<noteq> ea_ip_address b" using ipv4_inject by auto
qed

text \<open>What a shipped rule blocks on.\<close>

lemma blocked_single:
  assumes "blocked_together P r a b" and "blocking_keys r = [k]" and "k \<noteq> ''amount_bucket''"
    and "getattr_alert a k = Inr (opt_str x)" and "getattr_alert b k = Inr (opt_str y)"
  shows "x = y"
proof -
  have "blocking_key_values P e r = (case z of None \<Rightarrow> Inr [] | Some t \<Rightarrow> Inr [k @ ''='' @ t])"
    if "getattr_alert e k = Inr (opt_str z)" for e z
    using that assms(2,3) by (cases z) (simp_all add: blocking_key_values_def key_value_def py_text_def)
  from this [OF assms(4)] this [OF assms(5)] assms(1) show ?thesis
    by (auto simp: blocked_together_def split: option.splits)
qed

lemma shipped_rules_block:
  assumes "blocked_together P r a b" and "r \<in> set shipped_rules"
  shows "ea_account_ref a = ea_account_ref b \<or> ea_customer_ref a = ea_customer_ref b \<or> ea_device_id a = ea_device_id b
    \<or> ea_ip_address a = ea_ip_address b \<or> ea_counterparty_ref a = ea_counterparty_ref b"
proof -
  from assms(2) obtain k where k: "blocking_keys r = [k]"
    "k \<in> {''account_ref'', ''customer_ref'', ''device_id'', ''ip_address'', ''counterparty_ref''}"
    by (auto simp: shipped_rules_def)
  have "x = y" if "getattr_alert a k = Inr (opt_str x)" "getattr_alert b k = Inr (opt_str y)" for x y
    using blocked_single [OF assms(1) k(1) _ that] k(2) by auto
  with k(2) show ?thesis by (auto simp: getattr_alert_def)
qed

section \<open>Alerts of one cluster are linked by the customer rule\<close>

definition customer_rule :: rule where
  "customer_rule = shipped_rules ! 1"

lemma within_window:
  assumes "group_alert T s c d a" and "group_alert T s c d b"
  shows "delta_seconds a b \<le> 259200"
proof -
  have "\<bar>ea_event_time a - ea_event_time b\<bar> \<le> secs 43200"
    using assms by (auto simp: group_alert_def)
  then have "rat_of_int \<bar>ea_event_time a - ea_event_time b\<bar> \<le> of_int (43200 * 10 ^ 6)"
    by (simp only: of_int_le_iff secs_def)
  then have "rat_of_int \<bar>ea_event_time a - ea_event_time b\<bar> / 10 ^ 6 \<le> 259200" by simp
  from fl_mono [OF this] show ?thesis by (simp add: delta_seconds_def fl_abs fl_numeral)
qed

lemma customer_rule_links:
  assumes "group_alert T s c d a" and "group_alert T s c d b"
  shows "blocked_together P customer_rule a b" "rule_matches a b customer_rule" "customer_rule \<in> set shipped_rules"
proof -
  note w = within_window [OF assms]
  have cust: "ea_customer_ref a = Some (''cust-'' @ tag T)" "ea_customer_ref b = Some (''cust-'' @ tag T)"
    using assms by (simp_all add: group_alert_def)
  have "blocking_key_values P x customer_rule = Inr [''customer_ref='' @ ''cust-'' @ tag T]"
    if "ea_customer_ref x = Some (''cust-'' @ tag T)" for x
    using that by (simp add: customer_rule_def shipped_rules_def blocking_key_values_def key_value_def getattr_alert_def py_text_def)
  from this [OF cust(1)] this [OF cust(2)] w show "blocked_together P customer_rule a b"
    by (simp add: blocked_together_def customer_rule_def shipped_rules_def)
  show "rule_matches a b customer_rule"
    using w cust by (simp add: rule_matches_def customer_rule_def shipped_rules_def keys_agree_def getattr_alert_def)
  show "customer_rule \<in> set shipped_rules" by (simp add: customer_rule_def shipped_rules_def)
qed

text \<open>A pair that some rule matches is strong enough.\<close>

lemma matched_strong:
  assumes "wf_input alerts config" and "a \<in> set alerts" and "b \<in> set alerts"
    and "rule_matches a b r" and "r \<in> set (rules config)"
  shows "strong_enough config (by_id_edge P config alerts (ea_id a, ea_id b))"
proof -
  have det: "deterministic_match a b config = Inr (map rule_id (filter (rule_matches a b) (rules config)))"
    using assms(1-3) by (intro deterministic_match_eq) (auto simp: wf_input_def)
  have "filter (rule_matches a b) (rules config) \<noteq> []" using assms(4,5) by (auto simp: filter_empty_conv)
  moreover have "pair_edge P config (index_by_id alerts) (ea_id a, ea_id b) = Inr e \<Longrightarrow>
      \<exists>v. pair_decision P a b config = Inr v \<and> e_matched_rule_ids e = pv_rule_ids v" for e
    using assms(1-3) by (auto simp: pair_edge_def getitem_index wf_input_def result_simps)
  from this [OF pair_edge_ok [OF assms(1)]] assms(2,3) obtain v where "pair_decision P a b config = Inr v"
    "e_matched_rule_ids (by_id_edge P config alerts (ea_id a, ea_id b)) = pv_rule_ids v" by auto
  ultimately show ?thesis
    by (auto simp: strong_enough_def pair_decision_def det result_simps)
qed

section \<open>The groups are recovered\<close>

text \<open>The rows of a set \<open>G\<close> of groups, each in its window and its range of addresses.\<close>

definition grouped_rows ::
  "reader \<Rightarrow> label set \<Rightarrow> (label \<Rightarrow> int) \<Rightarrow> (label \<Rightarrow> nat) \<Rightarrow> (label \<Rightarrow> nat) \<Rightarrow> row list \<Rightarrow> bool" where
  "grouped_rows L G start lo hi rows \<longleftrightarrow>
     (\<forall>r \<in> set rows. \<exists>T \<in> G. group_row L T (start T) (lo T) (hi T) r)
     \<and> (\<forall>T \<in> G. \<not> decoy T \<and> hi T \<le> 2 ^ 24 \<and> (\<exists>r \<in> set rows. in_group T r)
          \<and> card {r \<in> set rows. in_group T r} \<le> 501)
     \<and> (\<forall>T \<in> G. \<forall>U \<in> G. T \<noteq> U \<longrightarrow> hi T \<le> lo U \<or> hi U \<le> lo T)
     \<and> distinct (map (\<lambda>r. get_cell r ''external_alert_id'') rows)"

text \<open>The group of an identity.\<close>

definition group_of :: "row list \<Rightarrow> string \<Rightarrow> label \<Rightarrow> bool" where
  "group_of rows x T \<longleftrightarrow> (\<exists>r \<in> set rows. get_cell r ''external_alert_id'' = Text x \<and> in_group T r)"

lemma grouped_alerts:
  assumes "grouped_rows L G start lo hi rows"
  obtains alerts where "rmap (engine_alert_of_row L) rows = Inr alerts" "wf_rows rows" "wf_input alerts shipped_config"
    "\<And>a. a \<in> set alerts \<Longrightarrow> \<exists>T \<in> G. group_alert T (start T) (lo T) (hi T) a \<and> group_of rows (ea_id a) T"
proof -
  from assms have row: "\<exists>T \<in> G. group_row L T (start T) (lo T) (hi T) r" if "r \<in> set rows" for r
    using that by (simp add: grouped_rows_def)
  then have "is_ok (rmap (engine_alert_of_row L) rows)"
    by (intro rmap_ok) (auto simp: group_row_def is_ok_def)
  then obtain alerts where al: "rmap (engine_alert_of_row L) rows = Inr alerts" by (rule is_okE)
  have wf: "wf_rows rows"
    using assms row by (fastforce simp: wf_rows_def grouped_rows_def group_row_def is_list_def)
  have "map (\<lambda>r. get_cell r ''external_alert_id'') rows = map Text (map ea_id alerts)"
    using engine_alert_ids [OF al wf] by (simp add: o_def)
  with assms have dist: "distinct (map ea_id alerts)" unfolding grouped_rows_def by (metis distinct_map)
  have alert: "\<exists>T \<in> G. group_alert T (start T) (lo T) (hi T) a \<and> group_of rows (ea_id a) T" if "a \<in> set alerts" for a
  proof -
    from that al obtain r where r: "r \<in> set rows" "engine_alert_of_row L r = Inr a"
      unfolding rmap_eq_Inr by (auto simp: list_all2_conv_all_nth in_set_conv_nth) (metis nth_mem)
    from row [OF r(1)] obtain T where T: "T \<in> G" "group_row L T (start T) (lo T) (hi T) r" by blast
    then have "group_alert T (start T) (lo T) (hi T) a" "get_cell r ''external_alert_id'' = Text (ea_id a)"
      using r(2) by (auto simp: group_row_def)
    moreover have "in_group T r" using group_row_in [OF T(2)] by simp
    ultimately show ?thesis using T(1) r(1) unfolding group_of_def by blast
  qed
  then have "\<forall>a \<in> set alerts. 0 \<le> ea_amount a" by (auto simp: group_alert_def)
  with dist have "wf_input alerts shipped_config"
    using wf_shipped_rules wf_shipped_weights by (simp add: wf_input_def)
  from that [OF al wf this alert] show thesis by blast
qed

lemma group_of_unique:
  assumes "grouped_rows L G start lo hi rows" and "group_of rows x T" and "group_of rows x U"
  shows "T = U"
proof -
  from assms(2,3) obtain r q where r: "r \<in> set rows" "get_cell r ''external_alert_id'' = Text x" "in_group T r"
    and q: "q \<in> set rows" "get_cell q ''external_alert_id'' = Text x" "in_group U q"
    unfolding group_of_def by blast
  moreover have "inj_on (\<lambda>r. get_cell r ''external_alert_id'') (set rows)"
    using assms(1) by (simp add: grouped_rows_def distinct_map)
  ultimately have "r = q" unfolding inj_on_def by metis
  with r(3) q(3) show ?thesis by (simp add: in_group_def gid_inject)
qed

lemma same_label_groups:
  assumes "grouped_rows L G start lo hi rows" and "group_of rows x T" and "group_of rows y U"
  shows "same_label rows x y \<longleftrightarrow> T = U"
proof
  assume "T = U"
  with assms(2,3) show "same_label rows x y" unfolding same_label_def group_of_def in_group_def by (metis cell.distinct(1))
next
  assume "same_label rows x y"
  then obtain r q where r: "r \<in> set rows" "get_cell r ''external_alert_id'' = Text x"
    and q: "q \<in> set rows" "get_cell q ''external_alert_id'' = Text y" "get_cell r truth_key = get_cell q truth_key"
    unfolding same_label_def by blast
  from assms(1) r(1) obtain V where "group_row L V (start V) (lo V) (hi V) r" unfolding grouped_rows_def by blast
  then have "in_group V r" using group_row_in by blast
  then have "in_group V q" using q(3) by (simp add: in_group_def)
  with \<open>in_group V r\<close> r q(1,2) have "group_of rows x V" "group_of rows y V" unfolding group_of_def by blast+
  with assms show "T = U" using group_of_unique by metis
qed

lemma recovered:
  assumes rows: "grouped_rows L G start lo hi rows" and al: "rmap (engine_alert_of_row L) rows = Inr alerts"
    and wf: "wf_input alerts shipped_config"
    and alert: "\<And>a. a \<in> set alerts \<Longrightarrow> \<exists>T \<in> G. group_alert T (start T) (lo T) (hi T) a \<and> group_of rows (ea_id a) T"
    and E: "E = kept_pairs P alerts shipped_config [] []"
  shows "(x, y) \<in> E \<Longrightarrow> same_label rows x y"
    and "x \<in> ea_id ` set alerts \<Longrightarrow> y \<in> ea_id ` set alerts \<Longrightarrow> x < y \<Longrightarrow> same_label rows x y \<Longrightarrow> (x, y) \<in> E"
proof -
  have rules: "rules shipped_config = shipped_rules" "candidate_cap shipped_config = 500" by (simp_all add: shipped_config_def)
  have dist: "distinct (map ea_id alerts)" using wf by (simp add: wf_input_def)
  have blocked: "same_label rows (ea_id a) (ea_id b)"
    if ab: "a \<in> set alerts" "b \<in> set alerts" "r \<in> set shipped_rules" "blocked_together P r a b" for a b r
  proof -
    from alert [OF ab(1)] obtain T where T: "T \<in> G" "group_alert T (start T) (lo T) (hi T) a" "group_of rows (ea_id a) T" by blast
    from alert [OF ab(2)] obtain U where U: "U \<in> G" "group_alert U (start U) (lo U) (hi U) b" "group_of rows (ea_id b) U" by blast
    have "T = U"
    proof (rule ccontr)
      assume "T \<noteq> U"
      with rows T(1) U(1) have "hi T \<le> lo U \<or> hi U \<le> lo T" "hi T \<le> 2 ^ 24" "hi U \<le> 2 ^ 24" "\<not> decoy T" "\<not> decoy U"
        by (simp_all add: grouped_rows_def)
      with groups_share_nothing [OF T(2) U(2) \<open>T \<noteq> U\<close>] shipped_rules_block [OF ab(4,3)] show False by blast
    qed
    with same_label_groups [OF rows T(3) U(3)] show ?thesis by simp
  qed
  have ids: "x \<in> ea_id ` set alerts \<and> y \<in> ea_id ` set alerts \<and> same_label rows x y"
    if "y \<in> counterpart_ids P alerts shipped_rules x" for x y
    using that blocked by (auto simp: counterpart_ids_def)
  {
    assume "(x, y) \<in> E"
    then obtain S where "candidate_pairs P alerts shipped_config = Inr S" "(x, y) \<in> S"
      by (auto simp: E kept_pairs_def)
    from candidate_pairs_blocked_lemma [OF this(1) dist this(2)] have "y \<in> counterpart_ids P alerts shipped_rules x"
      by (simp add: rules)
    then show "same_label rows x y" using ids by blast
  }
  have cap: "int (card (counterpart_ids P alerts shipped_rules x)) \<le> 500" for x
  proof (cases "counterpart_ids P alerts shipped_rules x = {}")
    case False
    then obtain a T where a: "a \<in> set alerts" "x = ea_id a" "T \<in> G" "group_of rows x T"
      using ids alert by (metis all_not_in_conv imageE)
    let ?R = "{r \<in> set rows. in_group T r}" and ?n = "\<lambda>r. case get_cell r ''external_alert_id'' of Text t \<Rightarrow> t | _ \<Rightarrow> []"
    have mem: "y \<in> ?n ` ?R" if "group_of rows y T" for y
      using that by (force simp: group_of_def)
    have "counterpart_ids P alerts shipped_rules x \<subseteq> ?n ` ?R - {x}"
    proof
      fix y assume y: "y \<in> counterpart_ids P alerts shipped_rules x"
      from y ids alert obtain U where U: "group_of rows y U" by blast
      with same_label_groups [OF rows a(4) U] ids [OF y] have "group_of rows y T" by simp
      moreover have "y \<noteq> x" using y dist by (auto simp: counterpart_ids_def distinct_map inj_on_def)
      ultimately show "y \<in> ?n ` ?R - {x}" using mem by blast
    qed
    then have "card (counterpart_ids P alerts shipped_rules x) \<le> card (?n ` ?R - {x})" by (intro card_mono) simp_all
    also have "\<dots> = card (?n ` ?R) - 1" using mem [OF a(4)] by simp
    also have "card (?n ` ?R) \<le> 501"
      using card_image_le [of ?R ?n] rows a(3) by (simp add: grouped_rows_def order_trans)
    finally show ?thesis by simp
  qed simp
  {
    assume xy: "x \<in> ea_id ` set alerts" "y \<in> ea_id ` set alerts" "x < y" "same_label rows x y"
    from xy(1,2) obtain a b where ab: "a \<in> set alerts" "b \<in> set alerts" "x = ea_id a" "y = ea_id b" by blast
    from alert [OF ab(1)] obtain T where T: "group_alert T (start T) (lo T) (hi T) a" "group_of rows x T"
      by (auto simp: ab(3))
    from alert [OF ab(2)] obtain U where U: "group_alert U (start U) (lo U) (hi U) b" "group_of rows y U"
      by (auto simp: ab(4))
    have "T = U" using same_label_groups [OF rows T(2) U(2)] xy(4) by simp
    note links = customer_rule_links [OF T(1) U(1) [folded this]]
    have amounts: "\<forall>a \<in> set alerts. 0 \<le> ea_amount a" using wf by (simp add: wf_input_def)
    have "is_ok (candidate_pairs P alerts shipped_config)"
      unfolding candidate_pairs_ok_iff rules
      using amounts wf_shipped_rules by (auto simp: list_all_iff intro: blocking_key_values_ok)
    then obtain S where S: "candidate_pairs P alerts shipped_config = Inr S" by (rule is_okE)
    have "a \<noteq> b" using xy(3) ab by auto
    then have y: "y \<in> counterpart_ids P alerts shipped_rules x"
      using ab links(1,3) unfolding counterpart_ids_def by blast
    have "distinct alerts" using dist by (simp add: distinct_map)
    have "(x, y) \<in> S"
      unfolding candidate_pairs_iff [OF S \<open>distinct alerts\<close>] rules
      using y counterpart_ids_swap [OF y] xy(3) capped_id [OF cap] by simp
    moreover have "strong_enough shipped_config (by_id_edge P shipped_config alerts (x, y))"
      using matched_strong [OF wf ab(1,2) links(2)] links(3) ab(3,4) by (simp add: rules)
    ultimately show "(x, y) \<in> E" using S by (auto simp: E kept_pairs_def)
  }
qed

lemma card_image_coarser:
  assumes "finite A" and "\<And>x y. x \<in> A \<Longrightarrow> y \<in> A \<Longrightarrow> k x = k y \<Longrightarrow> h x = h y"
  shows "card (h ` A) \<le> card (k ` A)"
proof (rule surj_card_le)
  show "finite (k ` A)" using assms(1) by simp
  show "h ` A \<subseteq> (\<lambda>v. h (inv_into A k v)) ` (k ` A)"
  proof
    fix v assume "v \<in> h ` A"
    then obtain x where x: "x \<in> A" "v = h x" by blast
    have "k (inv_into A k (k x)) = k x" "inv_into A k (k x) \<in> A"
      using x(1) by (simp_all add: f_inv_into_f inv_into_into)
    with assms(2) [of x "inv_into A k (k x)"] x have "v = h (inv_into A k (k x))" by metis
    with x(1) show "v \<in> (\<lambda>v. h (inv_into A k v)) ` (k ` A)" by blast
  qed
qed

lemma card_image_same:
  assumes "finite A" and "\<And>x y. x \<in> A \<Longrightarrow> y \<in> A \<Longrightarrow> f x = f y \<longleftrightarrow> g x = g y"
  shows "card (f ` A) = card (g ` A)"
proof (rule antisym)
  show "card (f ` A) \<le> card (g ` A)" by (rule card_image_coarser [OF assms(1)]) (simp add: assms(2))
  show "card (g ` A) \<le> card (f ` A)" by (rule card_image_coarser [OF assms(1)]) (simp add: assms(2))
qed

lemma evaluate_recovered:
  assumes rows: "grouped_rows L G start lo hi rows"
  shows "\<exists>m. evaluate P L rows shipped_config = Inr m \<and> m_fp m = 0 \<and> m_fn m = 0
    \<and> predicted_groups m = card G \<and> true_groups m = card G"
proof -
  from grouped_alerts [OF rows] obtain alerts where al: "rmap (engine_alert_of_row L) rows = Inr alerts" "wf_rows rows"
    "wf_input alerts shipped_config"
    and alert: "\<And>a. a \<in> set alerts \<Longrightarrow> \<exists>T \<in> G. group_alert T (start T) (lo T) (hi T) a \<and> group_of rows (ea_id a) T" by blast
  define E where "E = kept_pairs P alerts shipped_config [] []"
  define I where "I = ea_id ` set alerts"
  have rec: "(x, y) \<in> E \<Longrightarrow> same_label rows x y"
    "x \<in> ea_id ` set alerts \<Longrightarrow> y \<in> ea_id ` set alerts \<Longrightarrow> x < y \<Longrightarrow> same_label rows x y \<Longrightarrow> (x, y) \<in> E" for x y
    by (rule recovered [OF rows al(1,3) alert E_def], assumption+)+
  have grp: "\<exists>T \<in> G. group_of rows x T" if "x \<in> I" for x using alert that by (auto simp: I_def)
  have label: "same_label rows x y \<longleftrightarrow> (x, y) \<in> linked E" if xy: "x \<in> I" "y \<in> I" for x y
  proof
    assume same: "same_label rows x y"
    from grp xy obtain T U where TU: "group_of rows x T" "group_of rows y U" by blast
    with same_label_groups [OF rows] same have "same_label rows y x" by auto
    with same rec(2) xy have "norm_pair x y \<in> E" if "x \<noteq> y"
      using that unfolding I_def norm_pair_def by (cases "x < y") (auto simp: not_less)
    then show "(x, y) \<in> linked E" using linked_norm linked_refl by (cases "x = y") auto
  next
    assume "(x, y) \<in> linked E"
    then have "(\<forall>T. group_of rows x T \<longrightarrow> group_of rows y T)"
      unfolding linked_def
    proof (induction rule: rtrancl_induct)
      case (step y z)
      have "group_of rows u T \<longleftrightarrow> group_of rows v T" if uv: "(u, v) \<in> E" for u v T
      proof -
        have "u \<in> I" "v \<in> I" using uv kept_pairs_sub [OF al(3), of P "[]" "[]"] by (auto simp: E_def I_def)
        with grp obtain U V where UV: "group_of rows u U" "group_of rows v V" by blast
        with same_label_groups [OF rows UV] rec(1) [OF uv] have "U = V" by blast
        with UV group_of_unique [OF rows] show ?thesis by metis
      qed
      with step show ?case by blast
    qed simp
    with grp [OF xy(1)] same_label_groups [OF rows] show "same_label rows x y" by blast
  qed
  from evaluate_result [OF al(2,1,3) E_def I_def] obtain m where m: "evaluate P L rows shipped_config = Inr m"
    "m_fp m = ordered_pairs I (\<lambda>a b. (a, b) \<in> linked E \<and> \<not> same_label rows a b)"
    "m_fn m = ordered_pairs I (\<lambda>a b. (a, b) \<notin> linked E \<and> same_label rows a b)"
    "predicted_groups m = card ((\<lambda>x. Min {y. (x, y) \<in> linked E}) ` I)"
    "true_groups m = card ((\<lambda>r. get_cell r truth_key) ` set rows)" by blast
  have none: "ordered_pairs I Q = 0" if "\<And>a b. a \<in> I \<Longrightarrow> b \<in> I \<Longrightarrow> \<not> Q a b" for Q
  proof -
    have "{(a, b). a \<in> I \<and> b \<in> I \<and> a < b \<and> Q a b} = {}" using that by auto
    then show ?thesis unfolding ordered_pairs_def by (simp only: card.empty)
  qed
  have "(\<lambda>r. get_cell r truth_key) ` set rows = (\<lambda>T. Text (gid T)) ` G"
  proof
    show "(\<lambda>r. get_cell r truth_key) ` set rows \<subseteq> (\<lambda>T. Text (gid T)) ` G"
    proof (rule image_subsetI)
      fix r assume "r \<in> set rows"
      with rows obtain T where "T \<in> G" "group_row L T (start T) (lo T) (hi T) r" unfolding grouped_rows_def by blast
      then show "get_cell r truth_key \<in> (\<lambda>T. Text (gid T)) ` G" unfolding group_row_def by blast
    qed
    show "(\<lambda>T. Text (gid T)) ` G \<subseteq> (\<lambda>r. get_cell r truth_key) ` set rows"
    proof (rule image_subsetI)
      fix T assume "T \<in> G"
      with rows obtain r where "r \<in> set rows" "in_group T r" unfolding grouped_rows_def by blast
      then show "Text (gid T) \<in> (\<lambda>r. get_cell r truth_key) ` set rows" unfolding in_group_def by (metis imageI)
    qed
  qed
  then have truth: "card ((\<lambda>r. get_cell r truth_key) ` set rows) = card G"
    by (simp add: card_image inj_on_def gid_inject)
  define lab where "lab x = (THE T. group_of rows x T)" for x
  have lab: "lab x = T" if "group_of rows x T" for x T
    unfolding lab_def using that group_of_unique [OF rows] by blast
  have "lab ` I = G"
  proof
    show "lab ` I \<subseteq> G" using grp lab by auto
    show "G \<subseteq> lab ` I"
    proof
      fix T assume "T \<in> G"
      with rows obtain r where r: "r \<in> set rows" "in_group T r" unfolding grouped_rows_def by blast
      then obtain U where "group_row L U (start U) (lo U) (hi U) r" using rows by (auto simp: grouped_rows_def)
      then obtain a where a: "engine_alert_of_row L r = Inr a" "get_cell r ''external_alert_id'' = Text (ea_id a)"
        by (auto simp: group_row_def)
      have "a \<in> set alerts"
        using al(1) r(1) a(1) unfolding rmap_eq_Inr by (auto simp: list_all2_conv_all_nth in_set_conv_nth)
      moreover have "lab (ea_id a) = T" using r a(2) by (intro lab) (auto simp: group_of_def)
      ultimately show "T \<in> lab ` I" by (auto simp: I_def)
    qed
  qed
  moreover have "card ((\<lambda>x. Min {y. (x, y) \<in> linked E}) ` I) = card (lab ` I)"
  proof (rule card_image_same)
    show "finite I" by (simp add: I_def)
    fix x y assume xy: "x \<in> I" "y \<in> I"
    from grp xy obtain T U where TU: "group_of rows x T" "group_of rows y U" by blast
    have "lab x = lab y \<longleftrightarrow> same_label rows x y" using TU lab same_label_groups [OF rows TU] by simp
    moreover have "Min {z. (x, z) \<in> linked E} = Min {z. (y, z) \<in> linked E} \<longleftrightarrow> (x, y) \<in> linked E"
      by (rule group_key_props(4) [OF al(3) _ E_def]) (use xy in \<open>simp_all add: I_def\<close>)
    ultimately show "Min {z. (x, z) \<in> linked E} = Min {z. (y, z) \<in> linked E} \<longleftrightarrow> lab x = lab y"
      using label [OF xy] by simp
  qed
  ultimately show ?thesis using m truth none label by simp
qed

text \<open>C15: For every source of random numbers, cluster sizes from 1 up to 501 and fewer than \<open>2 ^ 24\<close>
  addresses, the data that the generator makes at ambiguity 0 are recovered exactly by the engine with the
  shipped configuration: no wrong and no missing pair, metrics 1, 1, 1 and 0, and one group per cluster
  and per singleton.\<close>

theorem clean_benchmark_perfect:
  assumes R: "rng_laws R" and L: "reader_laws P L" and sizes: "1 \<le> lo" "lo \<le> hi" "hi \<le> 501"
    and nm: "0 \<le> n" "0 \<le> m" "n * (1 + hi) + m < 2 ^ 24"
  shows "\<exists>rows g' r. generate R P L n (lo, hi) m 0 g = Inr (rows, g') \<and> evaluate P L rows shipped_config = Inr r
    \<and> m_fp r = 0 \<and> m_fn r = 0 \<and> precision r = 1 \<and> recall r = 1 \<and> f1 r = 1 \<and> false_merge_rate r = 0
    \<and> int (predicted_groups r) = n + m \<and> int (true_groups r) = n + m"
proof -
  let ?Ts = "map Grp [0..<nat n] @ map Dcy [0..<nat (n_ambig 0 n)] @ map Sng [0..<nat m]"
  from yieldsD [OF generate_grown [OF R L, of "(lo, hi)" n m 0], of g] sizes obtain out g' c rows where
    out: "generate R P L n (lo, hi) m 0 g = Inr (out, g')" "mset out = mset rows" "grown P (lo, hi) 0 ?Ts c rows" by auto
  have Ts: "?Ts = map Grp [0..<nat n] @ map Sng [0..<nat m]" by (simp add: n_ambig_def)
  have nd: "\<forall>T \<in> set ?Ts. \<not> decoy T" unfolding Ts by auto
  obtain start fr up where
    G: "\<forall>r \<in> set rows. \<exists>T \<in> set ?Ts. group_row L T (start T) (fr T) (up T) r"
    "\<forall>T \<in> set ?Ts. up T \<le> c \<and> filter (in_group T) rows \<noteq> [] \<and> int (length (filter (in_group T) rows)) \<le> 501"
    "\<forall>T \<in> set ?Ts. \<forall>U \<in> set ?Ts. T \<noteq> U \<longrightarrow> up T \<le> fr U \<or> up U \<le> fr T"
    "int c \<le> 1 + sum_list (map (\<lambda>T. case T of Grp _ \<Rightarrow> 1 + snd (lo, hi) | _ \<Rightarrow> 1) ?Ts)"
    using grown_groups [OF L out(3) _ nd, of 501] sizes by auto
  have "sum_list (map (\<lambda>T. case T of Grp _ \<Rightarrow> 1 + snd (lo, hi) | _ \<Rightarrow> 1) ?Ts) = n * (1 + hi) + m"
    unfolding Ts using nm by (simp add: o_def sum_list_triv)
  with G(4) nm(3) have c: "c \<le> 2 ^ 24" by simp
  have same: "set out = set rows" using out(2) by (rule mset_eq_setD)
  have ids: "distinct (map (\<lambda>r. get_cell r ''external_alert_id'') out)"
  proof -
    have "\<forall>r \<in> set rows. get_cell r ''external_alert_id'' = Text (row_id r)"
      using G(1) by (fastforce simp: group_row_def row_id_def text_of_def get_cell_def split: option.splits)
    then have "map (\<lambda>r. get_cell r ''external_alert_id'') rows = map Text (map row_id rows)" by simp
    then have "distinct (map (\<lambda>r. get_cell r ''external_alert_id'') rows)"
      using grown_rows [OF L out(3)] by (simp add: distinct_map inj_on_def)
    moreover have "mset (map (\<lambda>r. get_cell r ''external_alert_id'') out) = mset (map (\<lambda>r. get_cell r ''external_alert_id'') rows)"
      using out(2) by simp
    ultimately show ?thesis by (metis distinct_count_atmost_1 set_mset_mset)
  qed
  have "grouped_rows L (set ?Ts) start fr up out"
    unfolding grouped_rows_def same
  proof (intro conjI ballI ids)
    fix T assume T: "T \<in> set ?Ts"
    show "up T \<le> 2 ^ 24" using G(2) T c by fastforce
    show "\<exists>r \<in> set rows. in_group T r" using G(2) T by (auto simp: filter_empty_conv)
    have "card (set (filter (in_group T) rows)) \<le> length (filter (in_group T) rows)" by (rule card_length)
    then show "card {r \<in> set rows. in_group T r} \<le> 501" using G(2) T by fastforce
  qed (use G nd in blast)+
  from evaluate_recovered [OF this] obtain r where r: "evaluate P L out shipped_config = Inr r" "m_fp r = 0" "m_fn r = 0"
    "predicted_groups r = card (set ?Ts)" "true_groups r = card (set ?Ts)" by blast
  have "distinct ?Ts" unfolding Ts by (auto simp: distinct_map inj_on_def)
  then have "card (set ?Ts) = length ?Ts" by (rule distinct_card)
  also have "int \<dots> = n + m" unfolding Ts using nm by simp
  finally have "int (card (set ?Ts)) = n + m" .
  moreover have "precision r = 1 \<and> recall r = 1 \<and> f1 r = 1 \<and> false_merge_rate r = 0"
    using metrics_range [OF r(1)] r(2,3) by blast
  ultimately show ?thesis using out(1) r by (intro exI [of _ out] exI [of _ g'] exI [of _ r]) simp
qed

theorem clean_benchmark_perfect_witness:
  "\<exists>rows g' r. generate least_rng ratio_platform plain_reader 200 (2, 6) 300 0 () = Inr (rows, g')
    \<and> evaluate ratio_platform plain_reader rows shipped_config = Inr r
    \<and> m_fp r = 0 \<and> m_fn r = 0 \<and> precision r = 1 \<and> recall r = 1 \<and> f1 r = 1 \<and> false_merge_rate r = 0
    \<and> int (predicted_groups r) = 200 + 300 \<and> int (true_groups r) = 200 + 300"
  by (rule clean_benchmark_perfect [OF rng_laws_least plain_reader_laws]) simp_all

end
