(* ===== verification/Schema.thy ===== *)
theory Schema
  imports Prelude
begin

text \<open>
  The database as a value: its catalogue (tables with their columns and constraints, indexes, sequences and the
  privileges of the role \<open>app_user\<close>) and the rows of its tables. \<open>ddl\<close> has one constructor per kind of statement
  that the migrations run. \<open>catalogue_ddl\<close> is what SQL says of it as far as the catalogue goes: refused are a relation
  that exists already, one that does not, a key that refers to nothing unique, a table that others still refer to.
  \<open>apply_ddl\<close> adds the rows: a foreign key or an index that the stored rows contradict is refused too, a created
  table is empty, and a dropped one takes its rows along. The owner's privileges are not represented, since the
  owner runs every migration. Alembic's own table \<open>alembic_version\<close> lies in the same schema \<open>public\<close>; its content is
  the version in \<open>Migrations\<close>, what \<open>app_user\<close> may do with it is the field \<open>db_version_grants\<close>.
\<close>

section \<open>Schemas\<close>

datatype sa_type =
    Uuid | String nat | SqlText | Integer | BigInteger | Boolean | Float | Numeric nat nat | DateTime | JSONB

text \<open>\<open>sa.Column(name, type, server_default=..., nullable=...)\<close>; a default is its SQL text.\<close>

record column_def =
  col_name :: string
  col_type :: sa_type
  col_default :: "string option"
  col_nullable :: bool
  col_autoincrement :: bool

definition Column :: "string \<Rightarrow> sa_type \<Rightarrow> string option \<Rightarrow> bool \<Rightarrow> column_def" where
  "Column n t d nullable =
     \<lparr> col_name = n, col_type = t, col_default = d, col_nullable = nullable, col_autoincrement = False \<rparr>"

datatype table_constraint =
    PrimaryKey string "string list"
  | Unique string "string list"
  | ForeignKey string "string list" string "string list" "string option"
    \<comment> \<open>name, columns, referred table, referred columns, \<open>ON DELETE\<close>\<close>
  | Check string string

record table =
  t_name :: string
  t_columns :: "column_def list"
  t_constraints :: "table_constraint list"

text \<open>The keys of an index: columns, or \<open>to_tsvector('simple', c)\<close> with or without \<open>coalesce(c, '')\<close>.\<close>

datatype index_key = Key string | Tsvector string bool

record index =
  ix_name :: string
  ix_table :: string
  ix_keys :: "index_key list"
  ix_unique :: bool
  ix_method :: string

datatype privilege = SELECT | INSERT | UPDATE | DELETE | USAGE

record relation =
  rl_table :: table
  rl_grants :: "privilege set"

record sequence =
  sq_name :: string
  sq_owner :: "string option"
  sq_grants :: "privilege set"

text \<open>\<open>db_version_grants\<close> are the privileges on \<open>alembic_version\<close>, which the owner creates before the first script runs,
  when no default privileges are set.\<close>

record database =
  db_tables :: "relation list"
  db_indexes :: "index list"
  db_sequences :: "sequence list"
  db_version_grants :: "privilege set"
  db_default_tables :: "privilege set"
  db_default_sequences :: "privilege set"
  db_schema_usage :: bool

definition table_named :: "database \<Rightarrow> string \<Rightarrow> table option" where
  "table_named db n = map_option rl_table (List.find (\<lambda>r. t_name (rl_table r) = n) (db_tables db))"

definition has_columns :: "table \<Rightarrow> string list \<Rightarrow> bool" where
  "has_columns t cs \<longleftrightarrow> set cs \<subseteq> set (map col_name (t_columns t))"

fun constraint_name :: "table_constraint \<Rightarrow> string" where
  "constraint_name (PrimaryKey n cs) = n"
| "constraint_name (Unique n cs) = n"
| "constraint_name (ForeignKey n cs r rs d) = n"
| "constraint_name (Check n e) = n"

text \<open>Primary keys and unique constraints are backed by an index of their name.\<close>

fun is_key :: "table_constraint \<Rightarrow> bool" where
  "is_key (PrimaryKey n cs) = True"
| "is_key (Unique n cs) = True"
| "is_key c = False"

fun key_columns :: "table_constraint \<Rightarrow> string list" where
  "key_columns (PrimaryKey n cs) = cs"
| "key_columns (Unique n cs) = cs"
| "key_columns (ForeignKey n cs r rs d) = cs"
| "key_columns (Check n e) = []"

definition table_keys :: "table \<Rightarrow> string list" where
  "table_keys t = map constraint_name (filter is_key (t_constraints t))"

text \<open>Tables, indexes and sequences share one name space.\<close>

definition relation_names :: "database \<Rightarrow> string list" where
  "relation_names db =
     concat (map (\<lambda>r. t_name (rl_table r) # table_keys (rl_table r)) (db_tables db))
     @ map ix_name (db_indexes db) @ map sq_name (db_sequences db) @ [''alembic_version'', ''alembic_version_pkc'']"

fun refers_to :: "string \<Rightarrow> table_constraint \<Rightarrow> bool" where
  "refers_to n (ForeignKey k cs r rs d) = (r = n)"
| "refers_to n c = False"

section \<open>Statements\<close>

datatype ddl =
    CreateTable table
  | DropTable string
  | CreateIndex index
  | DropIndex string
  | AddForeignKey string string string "string list" "string list"
    \<comment> \<open>\<open>op.create_foreign_key(name, source, referent, local_cols, remote_cols)\<close>\<close>
  | DropConstraint string string
  | CreateSequence string
  | DropSequence string
  | GrantAllTables "privilege set"
  | GrantAllSequences "privilege set"
  | RevokeOn "privilege set" string
  | RevokeAllTables
  | RevokeAllSequences
  | DefaultGrantTables "privilege set"
  | DefaultGrantSequences "privilege set"
  | DefaultRevokeTables "privilege set"
  | DefaultRevokeSequences "privilege set"
  | GrantSchemaUsage

datatype ddl_error =
    DuplicateObject string
  | UndefinedObject string
  | InvalidReference string
  | DependentObjects string
  | ForeignKeyViolation string
  | IndexRefused string

type_synonym 'a ddl_result = "ddl_error + 'a"

fun reference_ok :: "database \<Rightarrow> table \<Rightarrow> table_constraint \<Rightarrow> bool" where
  "reference_ok db t (ForeignKey n cs r rs d) =
     (case (if r = t_name t then Some t else table_named db r) of
        None \<Rightarrow> False
      | Some u \<Rightarrow> length cs = length rs \<and> (\<exists>k \<in> set (t_constraints u). is_key k \<and> key_columns k = rs))"
| "reference_ok db t c = True"

definition serial_sequences :: "database \<Rightarrow> table \<Rightarrow> sequence list" where
  "serial_sequences db t =
     map (\<lambda>c. \<lparr> sq_name = t_name t @ ''_'' @ col_name c @ ''_seq'', sq_owner = Some (t_name t),
                 sq_grants = db_default_sequences db \<rparr>)
       (filter col_autoincrement (t_columns t))"

definition key_column :: "index_key \<Rightarrow> string" where
  "key_column k = (case k of Key c \<Rightarrow> c | Tsvector c b \<Rightarrow> c)"

definition on_table :: "string \<Rightarrow> (relation \<Rightarrow> relation) \<Rightarrow> database \<Rightarrow> database" where
  "on_table n f db = db\<lparr> db_tables := map (\<lambda>r. if t_name (rl_table r) = n then f r else r) (db_tables db) \<rparr>"

text \<open>\<open>ON ALL TABLES IN SCHEMA public\<close>, which \<open>alembic_version\<close> is one of.\<close>

definition on_tables :: "(privilege set \<Rightarrow> privilege set) \<Rightarrow> database \<Rightarrow> database" where
  "on_tables f db =
     db\<lparr> db_tables := map (\<lambda>r. r\<lparr> rl_grants := f (rl_grants r) \<rparr>) (db_tables db),
        db_version_grants := f (db_version_grants db) \<rparr>"

definition on_sequences :: "(privilege set \<Rightarrow> privilege set) \<Rightarrow> database \<Rightarrow> database" where
  "on_sequences f db = db\<lparr> db_sequences := map (\<lambda>q. q\<lparr> sq_grants := f (sq_grants q) \<rparr>) (db_sequences db) \<rparr>"

text \<open>The catalogue's part of a statement.\<close>

fun catalogue_ddl :: "ddl \<Rightarrow> database \<Rightarrow> database ddl_result" where
  "catalogue_ddl (CreateTable t) db =
     (let fresh = t_name t # table_keys t @ map sq_name (serial_sequences db t) in
      if \<not> (distinct fresh \<and> set fresh \<inter> set (relation_names db) = {}) then Inl (DuplicateObject (t_name t))
      else if \<not> (distinct (map col_name (t_columns t)) \<and> distinct (map constraint_name (t_constraints t)))
        then Inl (DuplicateObject (t_name t))
      else if \<not> list_all (\<lambda>c. has_columns t (key_columns c)) (t_constraints t) then Inl (UndefinedObject (t_name t))
      else if \<not> list_all (reference_ok db t) (t_constraints t) then Inl (InvalidReference (t_name t))
      else Inr (db\<lparr> db_tables := db_tables db @ [\<lparr> rl_table = t, rl_grants = db_default_tables db \<rparr>],
                     db_sequences := db_sequences db @ serial_sequences db t \<rparr>))"
| "catalogue_ddl (DropTable n) db =
     (if table_named db n = None then Inl (UndefinedObject n)
      else if list_ex (\<lambda>r. t_name (rl_table r) \<noteq> n \<and> list_ex (refers_to n) (t_constraints (rl_table r))) (db_tables db)
        then Inl (DependentObjects n)
      else Inr (db\<lparr> db_tables := filter (\<lambda>r. t_name (rl_table r) \<noteq> n) (db_tables db),
                     db_indexes := filter (\<lambda>i. ix_table i \<noteq> n) (db_indexes db),
                     db_sequences := filter (\<lambda>q. sq_owner q \<noteq> Some n) (db_sequences db) \<rparr>))"
| "catalogue_ddl (CreateIndex i) db =
     (if ix_name i \<in> set (relation_names db) then Inl (DuplicateObject (ix_name i))
      else case table_named db (ix_table i) of
        None \<Rightarrow> Inl (UndefinedObject (ix_table i))
      | Some t \<Rightarrow>
          if has_columns t (map key_column (ix_keys i)) then Inr (db\<lparr> db_indexes := db_indexes db @ [i] \<rparr>)
          else Inl (UndefinedObject (ix_name i)))"
| "catalogue_ddl (DropIndex n) db =
     (if n \<notin> set (map ix_name (db_indexes db)) then Inl (UndefinedObject n)
      else Inr (db\<lparr> db_indexes := filter (\<lambda>i. ix_name i \<noteq> n) (db_indexes db) \<rparr>))"
| "catalogue_ddl (AddForeignKey n src ref cs rs) db =
     (case table_named db src of
        None \<Rightarrow> Inl (UndefinedObject src)
      | Some t \<Rightarrow>
          let c = ForeignKey n cs ref rs None in
          if n \<in> set (map constraint_name (t_constraints t)) then Inl (DuplicateObject n)
          else if \<not> has_columns t cs then Inl (UndefinedObject n)
          else if \<not> reference_ok db t c then Inl (InvalidReference n)
          else Inr (on_table src (\<lambda>r. r\<lparr> rl_table := t\<lparr> t_constraints := t_constraints t @ [c] \<rparr> \<rparr>) db))"
| "catalogue_ddl (DropConstraint n src) db =
     (case table_named db src of
        None \<Rightarrow> Inl (UndefinedObject src)
      | Some t \<Rightarrow>
          if n \<notin> set (map constraint_name (t_constraints t)) then Inl (UndefinedObject n)
          else Inr (on_table src (\<lambda>r. r\<lparr> rl_table :=
                 t\<lparr> t_constraints := filter (\<lambda>c. constraint_name c \<noteq> n) (t_constraints t) \<rparr> \<rparr>) db))"
| "catalogue_ddl (CreateSequence n) db =
     (if n \<in> set (relation_names db) then Inl (DuplicateObject n)
      else Inr (db\<lparr> db_sequences := db_sequences db @ [\<lparr> sq_name = n, sq_owner = None, sq_grants = db_default_sequences db \<rparr>] \<rparr>))"
| "catalogue_ddl (DropSequence n) db =
     (if n \<notin> set (map sq_name (db_sequences db)) then Inl (UndefinedObject n)
      else Inr (db\<lparr> db_sequences := filter (\<lambda>q. sq_name q \<noteq> n) (db_sequences db) \<rparr>))"
| "catalogue_ddl (GrantAllTables ps) db = Inr (on_tables (\<lambda>g. g \<union> ps) db)"
| "catalogue_ddl (GrantAllSequences ps) db = Inr (on_sequences (\<lambda>g. g \<union> ps) db)"
| "catalogue_ddl (RevokeOn ps n) db =
     (if table_named db n = None then Inl (UndefinedObject n)
      else Inr (on_table n (\<lambda>r. r\<lparr> rl_grants := rl_grants r - ps \<rparr>) db))"
| "catalogue_ddl RevokeAllTables db = Inr (on_tables (\<lambda>_. {}) db)"
| "catalogue_ddl RevokeAllSequences db = Inr (on_sequences (\<lambda>_. {}) db)"
| "catalogue_ddl (DefaultGrantTables ps) db = Inr (db\<lparr> db_default_tables := db_default_tables db \<union> ps \<rparr>)"
| "catalogue_ddl (DefaultGrantSequences ps) db = Inr (db\<lparr> db_default_sequences := db_default_sequences db \<union> ps \<rparr>)"
| "catalogue_ddl (DefaultRevokeTables ps) db = Inr (db\<lparr> db_default_tables := db_default_tables db - ps \<rparr>)"
| "catalogue_ddl (DefaultRevokeSequences ps) db = Inr (db\<lparr> db_default_sequences := db_default_sequences db - ps \<rparr>)"
| "catalogue_ddl GrantSchemaUsage db = Inr (db\<lparr> db_schema_usage := True \<rparr>)"

fun run_catalogue :: "ddl list \<Rightarrow> database \<Rightarrow> database ddl_result" where
  "run_catalogue [] db = Inr db"
| "run_catalogue (d # ds) db = (case catalogue_ddl d db of Inl e \<Rightarrow> Inl e | Inr db' \<Rightarrow> run_catalogue ds db')"

lemma run_catalogue_append:
  "run_catalogue (ds @ es) db = (case run_catalogue ds db of Inl e \<Rightarrow> Inl e | Inr db' \<Rightarrow> run_catalogue es db')"
  by (induction ds arbitrary: db) (auto split: sum.split)

section \<open>Rows\<close>

text \<open>A row maps a column to the text of its value, \<open>NULL\<close> being \<open>None\<close>; the rows of each table.\<close>

type_synonym tuple = "string \<rightharpoonup> string"
type_synonym data = "string \<Rightarrow> tuple list"

definition no_rows :: data where
  "no_rows = (\<lambda>_. [])"

text \<open>\<open>MATCH SIMPLE\<close>: a key with a \<open>NULL\<close> in it refers to nothing.\<close>

definition dangling :: "data \<Rightarrow> string \<Rightarrow> string list \<Rightarrow> string \<Rightarrow> string list \<Rightarrow> bool" where
  "dangling rows src cs ref rs \<longleftrightarrow>
     list_ex (\<lambda>r. list_all (\<lambda>c. r c \<noteq> None) cs \<and> map r cs \<notin> set (map (\<lambda>u. map u rs) (rows ref))) (rows src)"

text \<open>The argument \<open>tsv\<close> says for which texts \<open>to_tsvector('simple', x)\<close> returns: PostgreSQL refuses one whose lexemes
  exceed a megabyte. \<open>NULL\<close> is not indexed, or coalesced to the empty text, which has no lexemes.\<close>

fun key_accepts :: "(string \<Rightarrow> bool) \<Rightarrow> tuple \<Rightarrow> index_key \<Rightarrow> bool" where
  "key_accepts tsv r (Key c) = True"
| "key_accepts tsv r (Tsvector c coalesced) = (case r c of None \<Rightarrow> True | Some x \<Rightarrow> tsv x)"

definition index_accepts :: "(string \<Rightarrow> bool) \<Rightarrow> index \<Rightarrow> tuple list \<Rightarrow> bool" where
  "index_accepts tsv i rs \<longleftrightarrow>
     list_all (\<lambda>r. list_all (key_accepts tsv r) (ix_keys i)) rs
     \<and> (ix_unique i \<longrightarrow>
          distinct (filter (list_all (\<lambda>v. v \<noteq> None)) (map (\<lambda>r. map (\<lambda>k. r (key_column k)) (ix_keys i)) rs)))"

text \<open>What a statement finds wrong with the rows, and what it makes of them.\<close>

fun data_error :: "(string \<Rightarrow> bool) \<Rightarrow> ddl \<Rightarrow> data \<Rightarrow> ddl_error option" where
  "data_error tsv (AddForeignKey n src ref cs rs) rows =
     (if dangling rows src cs ref rs then Some (ForeignKeyViolation n) else None)"
| "data_error tsv (CreateIndex i) rows =
     (if index_accepts tsv i (rows (ix_table i)) then None else Some (IndexRefused (ix_name i)))"
| "data_error tsv d rows = None"

fun data_after :: "ddl \<Rightarrow> data \<Rightarrow> data" where
  "data_after (CreateTable t) rows = rows(t_name t := [])"
| "data_after (DropTable n) rows = rows(n := [])"
| "data_after d rows = rows"

definition apply_ddl :: "(string \<Rightarrow> bool) \<Rightarrow> ddl \<Rightarrow> database \<times> data \<Rightarrow> (database \<times> data) ddl_result" where
  "apply_ddl tsv d = (\<lambda>(db, rows).
     case catalogue_ddl d db of
       Inl e \<Rightarrow> Inl e
     | Inr db' \<Rightarrow> (case data_error tsv d rows of Some e \<Rightarrow> Inl e | None \<Rightarrow> Inr (db', data_after d rows)))"

text \<open>A script stops at the first statement that is refused; its transaction then leaves no trace.\<close>

fun run_ddl :: "(string \<Rightarrow> bool) \<Rightarrow> ddl list \<Rightarrow> database \<times> data \<Rightarrow> (database \<times> data) ddl_result" where
  "run_ddl tsv [] db = Inr db"
| "run_ddl tsv (d # ds) db = (case apply_ddl tsv d db of Inl e \<Rightarrow> Inl e | Inr db' \<Rightarrow> run_ddl tsv ds db')"

text \<open>A script goes through if it does in the catalogue and the rows allow each of its statements.\<close>

fun rows_allow :: "(string \<Rightarrow> bool) \<Rightarrow> ddl list \<Rightarrow> data \<Rightarrow> bool" where
  "rows_allow tsv [] rows = True"
| "rows_allow tsv (d # ds) rows = (data_error tsv d rows = None \<and> rows_allow tsv ds (data_after d rows))"

lemma run_ddl_iff:
  "run_ddl tsv ds (db, rows) = Inr (db', rows') \<longleftrightarrow>
     run_catalogue ds db = Inr db' \<and> rows_allow tsv ds rows \<and> rows' = fold data_after ds rows"
  by (induction ds arbitrary: db rows) (auto simp: apply_ddl_def split: sum.split option.split)

fun touched :: "ddl list \<Rightarrow> string list" where
  "touched [] = []"
| "touched (CreateTable t # ds) = t_name t # touched ds"
| "touched (DropTable n # ds) = n # touched ds"
| "touched (d # ds) = touched ds"

lemma rows_untouched: "t \<notin> set (touched ds) \<Longrightarrow> fold data_after ds rows t = rows t"
  by (induction ds arbitrary: rows rule: touched.induct) auto

text \<open>What \<open>docker/postgres/init/01-roles.sh\<close> leaves: an empty schema that \<open>app_user\<close> may use.\<close>

definition bootstrap :: database where
  "bootstrap =
     \<lparr> db_tables = [], db_indexes = [], db_sequences = [], db_version_grants = {}, db_default_tables = {},
       db_default_sequences = {}, db_schema_usage = True \<rparr>"

definition SqlQuote :: "string \<Rightarrow> string" where
  "SqlQuote s = CHR 0x27 # s @ [CHR 0x27]"

end
