(* ===== verification/Migrations.thy ===== *)
theory Migrations
  imports Schema
begin

text \<open>
  \<open>backend/alembic/versions\<close>: the nine revisions as scripts of DDL statements, the chain that their
  \<open>down_revision\<close>s make, and \<open>alembic upgrade\<close> and \<open>alembic downgrade\<close> along it, on a database with rows.
  Alembic runs a command in one transaction, so a refused script changes nothing; the content of its own table
  \<open>alembic_version\<close> is the first component of the state.

  The chain is an instance of the interface \<open>reversible_chain\<close>: the schema depends on the revision alone and
  not on the ups and downs that led to it, while the rows decide which upgrades go through. The one refusal that the
  backend's own data lead to is that of \<open>cases_revision\<close>: its downgrade drops the cases and leaves \<open>alerts.case_id\<close>
  filled, so the foreign key cannot be added again.
\<close>

section \<open>The revisions\<close>

record revision =
  rev_id :: string
  down_revision :: "string option"
  rev_upgrade :: "ddl list"
  rev_downgrade :: "ddl list"

text \<open>\<open>op.create_index(name, table, columns, unique=False)\<close>, and the raw
  \<open>CREATE INDEX ... USING gin (to_tsvector('simple', ...))\<close>.\<close>

definition plain_index :: "string \<Rightarrow> string \<Rightarrow> string list \<Rightarrow> index" where
  "plain_index n t cs = \<lparr> ix_name = n, ix_table = t, ix_keys = map Key cs, ix_unique = False, ix_method = ''btree'' \<rparr>"

definition fts_index :: "string \<Rightarrow> string \<Rightarrow> string \<Rightarrow> bool \<Rightarrow> index" where
  "fts_index n t c coalesced =
     \<lparr> ix_name = n, ix_table = t, ix_keys = [Tsvector c coalesced], ix_unique = False, ix_method = ''gin'' \<rparr>"

definition baseline :: revision where
  "baseline = \<lparr> rev_id = ''d268e0fe1e4b'', down_revision = None, rev_upgrade = [], rev_downgrade = [] \<rparr>"

definition api_keys_table :: table where
  "api_keys_table =
     \<lparr> t_name = ''api_keys'',
       t_columns =
         [Column ''id'' Uuid None False,
          Column ''label'' (String 200) None False,
          Column ''hashed_key'' (String 255) None False,
          Column ''scope'' (String 50) (Some (SqlQuote ''ingest'')) False,
          Column ''is_active'' Boolean (Some ''true'') False,
          Column ''created_at'' DateTime (Some ''now()'') False,
          Column ''updated_at'' DateTime (Some ''now()'') False],
       t_constraints =
         [PrimaryKey ''pk_api_keys'' [''id'']] \<rparr>"

definition users_table :: table where
  "users_table =
     \<lparr> t_name = ''users'',
       t_columns =
         [Column ''id'' Uuid None False,
          Column ''email'' (String 320) None False,
          Column ''display_name'' (String 200) None False,
          Column ''password_hash'' (String 255) None False,
          Column ''is_active'' Boolean (Some ''true'') False,
          Column ''created_at'' DateTime (Some ''now()'') False,
          Column ''updated_at'' DateTime (Some ''now()'') False],
       t_constraints =
         [PrimaryKey ''pk_users'' [''id''],
          Unique ''uq_users_email'' [''email'']] \<rparr>"

definition user_roles_table :: table where
  "user_roles_table =
     \<lparr> t_name = ''user_roles'',
       t_columns =
         [Column ''user_id'' Uuid None False,
          Column ''role'' (String 32) None False,
          Column ''created_at'' DateTime (Some ''now()'') False,
          Column ''updated_at'' DateTime (Some ''now()'') False],
       t_constraints =
         [Check ''ck_user_roles_role_allowed'' (''role IN ('' @ SqlQuote ''analyst'' @ '', '' @ SqlQuote ''admin'' @ '', '' @ SqlQuote ''readonly'' @ '')''),
          ForeignKey ''fk_user_roles_user_id_users'' [''user_id''] ''users'' [''id''] (Some ''CASCADE''),
          PrimaryKey ''pk_user_roles'' [''user_id'', ''role'']] \<rparr>"

definition users_revision :: revision where
  "users_revision =
     \<lparr> rev_id = ''f86c7aa7045d'', down_revision = Some ''d268e0fe1e4b'',
       rev_upgrade =
         [CreateTable api_keys_table,
          CreateTable users_table,
          CreateTable user_roles_table],
       rev_downgrade =
         [DropTable ''user_roles'',
          DropTable ''users'',
          DropTable ''api_keys''] \<rparr>"

definition alerts_table :: table where
  "alerts_table =
     \<lparr> t_name = ''alerts'',
       t_columns =
         [Column ''id'' Uuid None False,
          Column ''external_alert_id'' (String 200) None False,
          Column ''source_system'' (String 100) None False,
          Column ''idempotency_key'' (String 255) None True,
          Column ''event_time'' DateTime None False,
          Column ''received_at'' DateTime (Some ''now()'') False,
          Column ''amount'' (Numeric 18 4) None False,
          Column ''currency'' (String 3) None False,
          Column ''direction'' (String 16) None False,
          Column ''customer_ref'' (String 200) None True,
          Column ''account_ref'' (String 200) None True,
          Column ''counterparty_ref'' (String 200) None True,
          Column ''merchant_name'' (String 255) None True,
          Column ''merchant_name_normalised'' (String 255) None True,
          Column ''mcc'' (String 8) None True,
          Column ''device_id'' (String 200) None True,
          Column ''session_id'' (String 200) None True,
          Column ''ip_address'' (String 45) None True,
          Column ''risk_score'' Integer None True,
          Column ''rule_codes'' JSONB (Some (SqlQuote ''[]'' @ ''::jsonb'')) False,
          Column ''typologies'' JSONB (Some (SqlQuote ''[]'' @ ''::jsonb'')) False,
          Column ''raw_payload'' JSONB (Some (SqlQuote ''{}'' @ ''::jsonb'')) False,
          Column ''ground_truth_group_id'' (String 200) None True,
          Column ''case_id'' Uuid None True,
          Column ''created_at'' DateTime (Some ''now()'') False,
          Column ''updated_at'' DateTime (Some ''now()'') False],
       t_constraints =
         [PrimaryKey ''pk_alerts'' [''id''],
          Unique ''uq_alerts_source_external'' [''source_system'', ''external_alert_id'']] \<rparr>"

definition alerts_revision :: revision where
  "alerts_revision =
     \<lparr> rev_id = ''d467b8de4c83'', down_revision = Some ''f86c7aa7045d'',
       rev_upgrade =
         [CreateTable alerts_table,
          CreateIndex (plain_index ''ix_alerts_customer_ref_event_time'' ''alerts'' [''customer_ref'', ''event_time'']),
          CreateIndex (plain_index ''ix_alerts_device_id'' ''alerts'' [''device_id'']),
          CreateIndex (plain_index ''ix_alerts_event_time'' ''alerts'' [''event_time'']),
          CreateIndex (plain_index ''ix_alerts_ip_address'' ''alerts'' [''ip_address''])],
       rev_downgrade =
         [DropIndex ''ix_alerts_ip_address'',
          DropIndex ''ix_alerts_event_time'',
          DropIndex ''ix_alerts_device_id'',
          DropIndex ''ix_alerts_customer_ref_event_time'',
          DropTable ''alerts''] \<rparr>"

definition audit_events_table :: table where
  "audit_events_table =
     \<lparr> t_name = ''audit_events'',
       t_columns =
         [(Column ''id'' BigInteger None False)\<lparr> col_autoincrement := True \<rparr>,
          Column ''stream'' (String 255) None False,
          Column ''seq'' Integer None False,
          Column ''prev_hash'' (String 64) None False,
          Column ''hash'' (String 64) None False,
          Column ''actor_id'' (String 255) None True,
          Column ''actor_role'' (String 255) None True,
          Column ''action'' (String 100) None False,
          Column ''target_type'' (String 100) None False,
          Column ''target_id'' (String 255) None False,
          Column ''reason'' (String 2000) None True,
          Column ''before'' JSONB None True,
          Column ''after'' JSONB None True,
          Column ''correlation_id'' (String 255) None True,
          Column ''created_at'' DateTime None False],
       t_constraints =
         [PrimaryKey ''pk_audit_events'' [''id''],
          Unique ''uq_audit_events_stream_seq'' [''stream'', ''seq'']] \<rparr>"

definition audit_streams_table :: table where
  "audit_streams_table =
     \<lparr> t_name = ''audit_streams'',
       t_columns =
         [Column ''stream'' (String 255) None False,
          Column ''last_seq'' Integer None False,
          Column ''last_hash'' (String 64) None False],
       t_constraints =
         [PrimaryKey ''pk_audit_streams'' [''stream'']] \<rparr>"

definition audit_revision :: revision where
  "audit_revision =
     \<lparr> rev_id = ''327e48bef586'', down_revision = Some ''d467b8de4c83'',
       rev_upgrade =
         [CreateTable audit_events_table,
          CreateIndex (plain_index ''ix_audit_events_action'' ''audit_events'' [''action'']),
          CreateIndex (plain_index ''ix_audit_events_actor_id'' ''audit_events'' [''actor_id'']),
          CreateIndex (plain_index ''ix_audit_events_created_at'' ''audit_events'' [''created_at'']),
          CreateTable audit_streams_table],
       rev_downgrade =
         [DropTable ''audit_streams'',
          DropIndex ''ix_audit_events_created_at'',
          DropIndex ''ix_audit_events_actor_id'',
          DropIndex ''ix_audit_events_action'',
          DropTable ''audit_events''] \<rparr>"

definition audit_grants_revision :: revision where
  "audit_grants_revision =
     \<lparr> rev_id = ''de0fe5693ed3'', down_revision = Some ''327e48bef586'',
       rev_upgrade =
         [GrantAllTables {SELECT, INSERT, UPDATE, DELETE},
          GrantAllSequences {USAGE, SELECT},
          RevokeOn {UPDATE, DELETE} ''audit_events'',
          RevokeOn {DELETE} ''audit_streams'',
          DefaultGrantTables {SELECT, INSERT, UPDATE, DELETE},
          DefaultGrantSequences {USAGE, SELECT}],
       rev_downgrade =
         [DefaultRevokeTables {SELECT, INSERT, UPDATE, DELETE},
          DefaultRevokeSequences {USAGE, SELECT},
          RevokeAllTables,
          RevokeAllSequences,
          GrantSchemaUsage] \<rparr>"

definition cases_table :: table where
  "cases_table =
     \<lparr> t_name = ''cases'',
       t_columns =
         [Column ''id'' Uuid None False,
          Column ''human_ref'' (String 64) None False,
          Column ''status'' (String 32) (Some (SqlQuote ''Open'')) False,
          Column ''disposition'' (String 64) None True,
          Column ''assignee_id'' Uuid None True,
          Column ''risk_score'' Integer (Some ''0'') False,
          Column ''alert_count'' Integer (Some ''0'') False,
          Column ''closed_at'' DateTime None True,
          Column ''canonical_from_case_id'' Uuid None True,
          Column ''version'' Integer (Some ''1'') False,
          Column ''created_at'' DateTime (Some ''now()'') False,
          Column ''updated_at'' DateTime (Some ''now()'') False],
       t_constraints =
         [PrimaryKey ''pk_cases'' [''id''],
          ForeignKey ''fk_cases_assignee_id_users'' [''assignee_id''] ''users'' [''id''] None,
          ForeignKey ''fk_cases_canonical_from_case_id_cases'' [''canonical_from_case_id'']
            ''cases'' [''id''] None,
          Unique ''uq_cases_human_ref'' [''human_ref'']] \<rparr>"

definition grouping_decisions_table :: table where
  "grouping_decisions_table =
     \<lparr> t_name = ''grouping_decisions'',
       t_columns =
         [Column ''id'' Uuid None False,
          Column ''alert_id'' Uuid None False,
          Column ''case_id'' Uuid None False,
          Column ''method'' (String 32) None False,
          Column ''matched_rule_ids'' JSONB None False,
          Column ''similarity_score'' Float None True,
          Column ''feature_contributions'' JSONB None False,
          Column ''engine_version'' (String 32) None False,
          Column ''config_hash'' (String 64) None False,
          Column ''created_at'' DateTime None False],
       t_constraints =
         [PrimaryKey ''pk_grouping_decisions'' [''id''],
          ForeignKey ''fk_grouping_decisions_alert_id_alerts'' [''alert_id''] ''alerts'' [''id''] None,
          ForeignKey ''fk_grouping_decisions_case_id_cases'' [''case_id''] ''cases'' [''id''] None] \<rparr>"

definition case_alert_links_table :: table where
  "case_alert_links_table =
     \<lparr> t_name = ''case_alert_links'',
       t_columns =
         [Column ''id'' Uuid None False,
          Column ''case_id'' Uuid None False,
          Column ''alert_id'' Uuid None False,
          Column ''grouping_decision_id'' Uuid None False,
          Column ''linked_at'' DateTime None False,
          Column ''linked_by'' (String 255) None False],
       t_constraints =
         [PrimaryKey ''pk_case_alert_links'' [''id''],
          ForeignKey ''fk_case_alert_links_case_id_cases'' [''case_id''] ''cases'' [''id''] None,
          ForeignKey ''fk_case_alert_links_alert_id_alerts'' [''alert_id''] ''alerts'' [''id''] None,
          ForeignKey ''fk_case_alert_links_grouping_decision_id_grouping_decisions'' [''grouping_decision_id'']
            ''grouping_decisions'' [''id''] None,
          Unique ''uq_case_alert_links_alert_id'' [''alert_id'']] \<rparr>"

definition cases_revision :: revision where
  "cases_revision =
     \<lparr> rev_id = ''b7c4e1a9d2f0'', down_revision = Some ''de0fe5693ed3'',
       rev_upgrade =
         [CreateSequence ''case_human_ref_seq'',
          CreateTable cases_table,
          CreateIndex (plain_index ''ix_cases_status'' ''cases'' [''status'']),
          CreateIndex (plain_index ''ix_cases_assignee_id'' ''cases'' [''assignee_id'']),
          CreateTable grouping_decisions_table,
          CreateIndex (plain_index ''ix_grouping_decisions_alert_id'' ''grouping_decisions'' [''alert_id'']),
          CreateTable case_alert_links_table,
          CreateIndex (plain_index ''ix_case_alert_links_case_id'' ''case_alert_links'' [''case_id'']),
          AddForeignKey ''fk_alerts_case_id_cases'' ''alerts'' ''cases'' [''case_id''] [''id'']],
       rev_downgrade =
         [DropConstraint ''fk_alerts_case_id_cases'' ''alerts'',
          DropIndex ''ix_case_alert_links_case_id'',
          DropTable ''case_alert_links'',
          DropIndex ''ix_grouping_decisions_alert_id'',
          DropTable ''grouping_decisions'',
          DropIndex ''ix_cases_assignee_id'',
          DropIndex ''ix_cases_status'',
          DropTable ''cases'',
          DropSequence ''case_human_ref_seq''] \<rparr>"

definition notes_table :: table where
  "notes_table =
     \<lparr> t_name = ''notes'',
       t_columns =
         [Column ''id'' Uuid None False,
          Column ''case_id'' Uuid None False,
          Column ''author_id'' Uuid None False,
          Column ''body'' SqlText None False,
          Column ''retracted'' Boolean (Some ''false'') False,
          Column ''retraction_reason'' SqlText None True,
          Column ''created_at'' DateTime (Some ''now()'') False],
       t_constraints =
         [PrimaryKey ''pk_notes'' [''id''],
          ForeignKey ''fk_notes_case_id_cases'' [''case_id''] ''cases'' [''id''] None,
          ForeignKey ''fk_notes_author_id_users'' [''author_id''] ''users'' [''id''] None] \<rparr>"

definition notes_revision :: revision where
  "notes_revision =
     \<lparr> rev_id = ''c9d4b1f7a2e5'', down_revision = Some ''b7c4e1a9d2f0'',
       rev_upgrade =
         [CreateTable notes_table,
          CreateIndex (plain_index ''ix_notes_case_id'' ''notes'' [''case_id''])],
       rev_downgrade =
         [DropIndex ''ix_notes_case_id'',
          DropTable ''notes''] \<rparr>"

definition fts_revision :: revision where
  "fts_revision =
     \<lparr> rev_id = ''e3f1a2b7c8d9'', down_revision = Some ''c9d4b1f7a2e5'',
       rev_upgrade =
         [CreateIndex (fts_index ''ix_alerts_merchant_fts'' ''alerts'' ''merchant_name_normalised'' True),
          CreateIndex (fts_index ''ix_alerts_external_fts'' ''alerts'' ''external_alert_id'' True),
          CreateIndex (fts_index ''ix_notes_body_fts'' ''notes'' ''body'' False),
          CreateIndex (fts_index ''ix_cases_human_ref_fts'' ''cases'' ''human_ref'' False)],
       rev_downgrade =
         [DropIndex ''ix_cases_human_ref_fts'',
          DropIndex ''ix_notes_body_fts'',
          DropIndex ''ix_alerts_external_fts'',
          DropIndex ''ix_alerts_merchant_fts''] \<rparr>"

definition fts_refs_revision :: revision where
  "fts_refs_revision =
     \<lparr> rev_id = ''f1a2b3c4d5e6'', down_revision = Some ''e3f1a2b7c8d9'',
       rev_upgrade =
         [CreateIndex (fts_index ''ix_alerts_customer_ref_fts'' ''alerts'' ''customer_ref'' True),
          CreateIndex (fts_index ''ix_alerts_account_ref_fts'' ''alerts'' ''account_ref'' True)],
       rev_downgrade =
         [DropIndex ''ix_alerts_account_ref_fts'',
          DropIndex ''ix_alerts_customer_ref_fts''] \<rparr>"

text \<open>The directory, in the order of the file names.\<close>

definition versions :: "revision list" where
  "versions =
     [audit_revision, cases_revision, notes_revision, baseline, alerts_revision, audit_grants_revision,
      fts_revision, fts_refs_revision, users_revision]"

section \<open>Walking the chain\<close>

datatype command = Upgrade | Downgrade
  \<comment> \<open>\<open>alembic upgrade +1\<close> and \<open>alembic downgrade -1\<close>\<close>

type_synonym catalogue = "string option \<times> database"
type_synonym deployment = "catalogue \<times> data"

definition next_revision :: "string option \<Rightarrow> revision option" where
  "next_revision v = List.find (\<lambda>r. down_revision r = v) versions"

definition this_revision :: "string option \<Rightarrow> revision option" where
  "this_revision v = List.find (\<lambda>r. Some (rev_id r) = v) versions"

fun migrate :: "(string \<Rightarrow> bool) \<Rightarrow> command \<Rightarrow> deployment \<Rightarrow> deployment ddl_result" where
  "migrate tsv Upgrade ((v, db), rows) =
     (case next_revision v of
        None \<Rightarrow> Inl (UndefinedObject ''+1'')
      | Some r \<Rightarrow>
          (case run_ddl tsv (rev_upgrade r) (db, rows) of
             Inl e \<Rightarrow> Inl e
           | Inr (db', rows') \<Rightarrow> Inr ((Some (rev_id r), db'), rows')))"
| "migrate tsv Downgrade ((v, db), rows) =
     (case this_revision v of
        None \<Rightarrow> Inl (UndefinedObject ''-1'')
      | Some r \<Rightarrow>
          (case run_ddl tsv (rev_downgrade r) (db, rows) of
             Inl e \<Rightarrow> Inl e
           | Inr (db', rows') \<Rightarrow> Inr ((down_revision r, db'), rows')))"

text \<open>\<open>alembic upgrade head\<close>; the fuel bounds the number of revisions.\<close>

fun upgrade_head :: "(string \<Rightarrow> bool) \<Rightarrow> nat \<Rightarrow> deployment \<Rightarrow> deployment ddl_result option" where
  "upgrade_head tsv n d =
     (if next_revision (fst (fst d)) = None then Some (Inr d)
      else case n of
        0 \<Rightarrow> None
      | Suc m \<Rightarrow> (case migrate tsv Upgrade d of Inl e \<Rightarrow> Some (Inl e) | Inr d' \<Rightarrow> upgrade_head tsv m d'))"

text \<open>What happens to a deployment: migrations, and writes of whatever rows into the application's tables, more than its
  constraints would let through. What is refused leaves no trace.\<close>

datatype action = Migrate command | UpgradeHead | Write string "tuple list"

fun perform :: "(string \<Rightarrow> bool) \<Rightarrow> action \<Rightarrow> deployment \<Rightarrow> deployment ddl_result" where
  "perform tsv (Migrate c) d = migrate tsv c d"
| "perform tsv UpgradeHead d =
     (case upgrade_head tsv (length versions) d of None \<Rightarrow> Inl (UndefinedObject ''head'') | Some r \<Rightarrow> r)"
| "perform tsv (Write t rs) ((v, db), rows) =
     (if table_named db t = None then Inl (UndefinedObject t) else Inr ((v, db), rows(t := rs)))"

fun operate :: "(string \<Rightarrow> bool) \<Rightarrow> action list \<Rightarrow> deployment \<Rightarrow> deployment" where
  "operate tsv [] d = d"
| "operate tsv (a # as) d = operate tsv as (case perform tsv a d of Inl e \<Rightarrow> d | Inr d' \<Rightarrow> d')"

definition fresh_server :: deployment where
  "fresh_server = ((None, bootstrap), no_rows)"

section \<open>The schema of a revision\<close>

text \<open>The chain of the \<open>down_revision\<close>s, the version after \<open>n\<close> of its revisions and the schema that their
  scripts leave.\<close>

definition chain :: "revision list" where
  "chain =
     [baseline, users_revision, alerts_revision, audit_revision, audit_grants_revision, cases_revision,
      notes_revision, fts_revision, fts_refs_revision]"

definition version_at :: "nat \<Rightarrow> string option" where
  "version_at n = (if n = 0 then None else Some (rev_id (chain ! (n - 1))))"

fun schema_at :: "nat \<Rightarrow> database" where
  "schema_at 0 = bootstrap"
| "schema_at (Suc n) = (case run_catalogue (rev_upgrade (chain ! n)) (schema_at n) of Inl e \<Rightarrow> schema_at n | Inr db \<Rightarrow> db)"

text \<open>The schemas after the grants and at the head, written out.\<close>

definition crud :: "privilege set" where
  "crud = {SELECT, INSERT, UPDATE, DELETE}"

definition audited_schema :: database where
  "audited_schema =
     \<lparr> db_tables =
         [\<lparr> rl_table = api_keys_table, rl_grants = crud \<rparr>, \<lparr> rl_table = users_table, rl_grants = crud \<rparr>,
          \<lparr> rl_table = user_roles_table, rl_grants = crud \<rparr>, \<lparr> rl_table = alerts_table, rl_grants = crud \<rparr>,
          \<lparr> rl_table = audit_events_table, rl_grants = {SELECT, INSERT} \<rparr>,
          \<lparr> rl_table = audit_streams_table, rl_grants = {SELECT, INSERT, UPDATE} \<rparr>],
       db_indexes =
         [plain_index ''ix_alerts_customer_ref_event_time'' ''alerts'' [''customer_ref'', ''event_time''],
          plain_index ''ix_alerts_device_id'' ''alerts'' [''device_id''],
          plain_index ''ix_alerts_event_time'' ''alerts'' [''event_time''],
          plain_index ''ix_alerts_ip_address'' ''alerts'' [''ip_address''],
          plain_index ''ix_audit_events_action'' ''audit_events'' [''action''],
          plain_index ''ix_audit_events_actor_id'' ''audit_events'' [''actor_id''],
          plain_index ''ix_audit_events_created_at'' ''audit_events'' [''created_at'']],
       db_sequences =
         [\<lparr> sq_name = ''audit_events_id_seq'', sq_owner = Some ''audit_events'', sq_grants = {USAGE, SELECT} \<rparr>],
       db_version_grants = crud, db_default_tables = crud, db_default_sequences = {USAGE, SELECT}, db_schema_usage = True \<rparr>"

definition linked_alerts_table :: table where
  "linked_alerts_table =
     alerts_table\<lparr> t_constraints := t_constraints alerts_table
       @ [ForeignKey ''fk_alerts_case_id_cases'' [''case_id''] ''cases'' [''id''] None] \<rparr>"

definition cases_schema :: database where
  "cases_schema =
     audited_schema\<lparr> db_tables :=
         [\<lparr> rl_table = api_keys_table, rl_grants = crud \<rparr>, \<lparr> rl_table = users_table, rl_grants = crud \<rparr>,
          \<lparr> rl_table = user_roles_table, rl_grants = crud \<rparr>, \<lparr> rl_table = linked_alerts_table, rl_grants = crud \<rparr>,
          \<lparr> rl_table = audit_events_table, rl_grants = {SELECT, INSERT} \<rparr>,
          \<lparr> rl_table = audit_streams_table, rl_grants = {SELECT, INSERT, UPDATE} \<rparr>,
          \<lparr> rl_table = cases_table, rl_grants = crud \<rparr>, \<lparr> rl_table = grouping_decisions_table, rl_grants = crud \<rparr>,
          \<lparr> rl_table = case_alert_links_table, rl_grants = crud \<rparr>],
       db_indexes := db_indexes audited_schema @
         [plain_index ''ix_cases_status'' ''cases'' [''status''],
          plain_index ''ix_cases_assignee_id'' ''cases'' [''assignee_id''],
          plain_index ''ix_grouping_decisions_alert_id'' ''grouping_decisions'' [''alert_id''],
          plain_index ''ix_case_alert_links_case_id'' ''case_alert_links'' [''case_id'']],
       db_sequences := db_sequences audited_schema @
         [\<lparr> sq_name = ''case_human_ref_seq'', sq_owner = None, sq_grants = {USAGE, SELECT} \<rparr>] \<rparr>"

definition head_schema :: database where
  "head_schema =
     cases_schema\<lparr> db_tables := db_tables cases_schema @ [\<lparr> rl_table = notes_table, rl_grants = crud \<rparr>],
       db_indexes := db_indexes cases_schema @
         [plain_index ''ix_notes_case_id'' ''notes'' [''case_id''],
          fts_index ''ix_alerts_merchant_fts'' ''alerts'' ''merchant_name_normalised'' True,
          fts_index ''ix_alerts_external_fts'' ''alerts'' ''external_alert_id'' True,
          fts_index ''ix_notes_body_fts'' ''notes'' ''body'' False,
          fts_index ''ix_cases_human_ref_fts'' ''cases'' ''human_ref'' False,
          fts_index ''ix_alerts_customer_ref_fts'' ''alerts'' ''customer_ref'' True,
          fts_index ''ix_alerts_account_ref_fts'' ''alerts'' ''account_ref'' True] \<rparr>"

text \<open>What the migrations promise of the audit tables: \<open>app_user\<close> never updates or deletes an event, and
  never deletes the tip of a stream.\<close>

definition append_only :: "database \<Rightarrow> bool" where
  "append_only db \<longleftrightarrow>
     list_all (\<lambda>r. (t_name (rl_table r) = ''audit_events'' \<longrightarrow> rl_grants r \<subseteq> {SELECT, INSERT})
       \<and> (t_name (rl_table r) = ''audit_streams'' \<longrightarrow> rl_grants r \<subseteq> {SELECT, INSERT, UPDATE})) (db_tables db)"

text \<open>Each script followed by its inverse, from one schema to the next, evaluated in three pieces. The tables whose
  rows a script touches are those that it creates or drops.\<close>

fun round_trip :: "database \<Rightarrow> revision list \<Rightarrow> database option" where
  "round_trip db [] = Some db"
| "round_trip db (r # rs) =
     (case run_catalogue (rev_upgrade r) db of
        Inl e \<Rightarrow> None
      | Inr db' \<Rightarrow>
          if run_catalogue (rev_downgrade r) db' = Inr db \<and> append_only db'
             \<and> list_all (\<lambda>t. table_named db t = None) (touched (rev_upgrade r) @ touched (rev_downgrade r))
          then round_trip db' rs else None)"

lemma round_trip_append: "round_trip db rs = Some db' \<Longrightarrow> round_trip db (rs @ ss) = round_trip db' ss"
  by (induction rs arbitrary: db) (auto split: sum.splits if_splits)

lemma audited_trip:
  "round_trip bootstrap [baseline, users_revision, alerts_revision, audit_revision, audit_grants_revision] = Some audited_schema"
  by code_simp

lemma cases_trip: "round_trip audited_schema [cases_revision] = Some cases_schema"
  by code_simp

lemma notes_trip: "round_trip cases_schema [notes_revision, fts_revision, fts_refs_revision] = Some head_schema"
  by code_simp

lemma chain_trip: "round_trip bootstrap chain = Some head_schema"
  using round_trip_append [OF audited_trip, of "cases_revision # [notes_revision, fts_revision, fts_refs_revision]"]
    round_trip_append [OF cases_trip, of "[notes_revision, fts_revision, fts_refs_revision]"] notes_trip
  by (simp add: chain_def)

lemma drop_trip: "n \<le> length chain \<Longrightarrow> round_trip (schema_at n) (drop n chain) = Some head_schema"
proof (induction n)
  case 0
  show ?case by (simp add: chain_trip)
next
  case (Suc n)
  then have "round_trip (schema_at n) (chain ! n # drop (Suc n) chain) = Some head_schema"
    by (simp add: Cons_nth_drop_Suc)
  then show ?case by (auto split: sum.splits if_splits)
qed

lemma schema_steps:
  assumes "n < length chain"
  shows "run_catalogue (rev_upgrade (chain ! n)) (schema_at n) = Inr (schema_at (Suc n))"
    "run_catalogue (rev_downgrade (chain ! n)) (schema_at (Suc n)) = Inr (schema_at n)" "append_only (schema_at (Suc n))"
    "t \<in> set (touched (rev_upgrade (chain ! n))) \<Longrightarrow> table_named (schema_at n) t = None"
    "t \<in> set (touched (rev_downgrade (chain ! n))) \<Longrightarrow> table_named (schema_at n) t = None"
proof -
  have "round_trip (schema_at n) (chain ! n # drop (Suc n) chain) = Some head_schema"
    using drop_trip [of n] assms by (simp add: Cons_nth_drop_Suc)
  then show "run_catalogue (rev_upgrade (chain ! n)) (schema_at n) = Inr (schema_at (Suc n))"
    "run_catalogue (rev_downgrade (chain ! n)) (schema_at (Suc n)) = Inr (schema_at n)" "append_only (schema_at (Suc n))"
    "t \<in> set (touched (rev_upgrade (chain ! n))) \<Longrightarrow> table_named (schema_at n) t = None"
    "t \<in> set (touched (rev_downgrade (chain ! n))) \<Longrightarrow> table_named (schema_at n) t = None"
    by (auto simp: list_all_iff split: sum.splits if_splits)
qed

lemma schema_head: "schema_at (length chain) = head_schema"
  using drop_trip [of "length chain"] by simp

lemma schema_append_only: "n \<le> length chain \<Longrightarrow> append_only (schema_at n)"
  using schema_steps(3) by (cases n) (auto simp: append_only_def bootstrap_def)

section \<open>What the rows refuse\<close>

text \<open>The rows that the next upgrade of a version asks for: no alert with a case when the cases are created, and texts
  that \<open>to_tsvector\<close> takes when they are indexed.\<close>

definition indexable :: "(string \<Rightarrow> bool) \<Rightarrow> data \<Rightarrow> string \<Rightarrow> string \<Rightarrow> bool" where
  "indexable tsv rows t c \<longleftrightarrow> list_all (\<lambda>r. case r c of None \<Rightarrow> True | Some x \<Rightarrow> tsv x) (rows t)"

definition caseless :: "data \<Rightarrow> bool" where
  "caseless rows \<longleftrightarrow> list_all (\<lambda>r. r ''case_id'' = None) (rows ''alerts'')"

definition admitted :: "(string \<Rightarrow> bool) \<Rightarrow> string option \<Rightarrow> data \<Rightarrow> bool" where
  "admitted tsv v rows \<longleftrightarrow>
     (v = Some ''de0fe5693ed3'' \<longrightarrow> caseless rows)
     \<and> (v = Some ''c9d4b1f7a2e5'' \<longrightarrow>
          indexable tsv rows ''alerts'' ''merchant_name_normalised'' \<and> indexable tsv rows ''alerts'' ''external_alert_id''
          \<and> indexable tsv rows ''notes'' ''body'' \<and> indexable tsv rows ''cases'' ''human_ref'')
     \<and> (v = Some ''e3f1a2b7c8d9'' \<longrightarrow>
          indexable tsv rows ''alerts'' ''customer_ref'' \<and> indexable tsv rows ''alerts'' ''account_ref'')"

text \<open>The same for all upgrades up to the head: what is there already must fit what is still to come.\<close>

definition ready :: "(string \<Rightarrow> bool) \<Rightarrow> database \<Rightarrow> data \<Rightarrow> bool" where
  "ready tsv db rows \<longleftrightarrow>
     (table_named db ''alerts'' \<noteq> None \<and> table_named db ''cases'' = None \<longrightarrow> caseless rows)
     \<and> list_all (\<lambda>i. table_named db (ix_table i) = None \<or> i \<in> set (db_indexes db)
           \<or> index_accepts tsv i (rows (ix_table i))) (db_indexes head_schema)"

section \<open>Reversible chains\<close>

text \<open>Commands along a chain of states \<open>pos 0\<close>, ..., \<open>pos len\<close> that carry data. The data may refuse the way up, one step
  (\<open>admits\<close>) or the whole of it (\<open>clears\<close>), and never the way down.\<close>

fun climb :: "(command \<Rightarrow> 's \<Rightarrow> 's option) \<Rightarrow> nat \<Rightarrow> 's \<Rightarrow> 's option" where
  "climb step 0 s = Some s"
| "climb step (Suc k) s = (case step Upgrade s of None \<Rightarrow> None | Some t \<Rightarrow> climb step k t)"

locale reversible_chain =
  fixes len :: nat and pos :: "nat \<Rightarrow> 's" and step :: "command \<Rightarrow> 's \<times> 'd \<Rightarrow> ('s \<times> 'd) option"
    and admits :: "nat \<Rightarrow> 'd \<Rightarrow> bool" and clears :: "nat \<Rightarrow> 'd \<Rightarrow> bool"
  assumes up: "n < len \<Longrightarrow> admits n x \<Longrightarrow> \<exists>y. step Upgrade (pos n, x) = Some (pos (Suc n), y) \<and> clears (Suc n) y = clears n x"
    and refused: "n < len \<Longrightarrow> \<not> admits n x \<Longrightarrow> step Upgrade (pos n, x) = None"
    and down: "n < len \<Longrightarrow> \<exists>y. step Downgrade (pos (Suc n), x) = Some (pos n, y)"
    and last: "step Upgrade (pos len, x) = None" "clears len x"
    and first: "step Downgrade (pos 0, x) = None"
    and clears_admits: "n < len \<Longrightarrow> clears n x \<Longrightarrow> admits n x"
begin

lemma upgrade_iff: "n \<le> len \<Longrightarrow> (\<exists>t. step Upgrade (pos n, x) = Some t) \<longleftrightarrow> n < len \<and> admits n x"
  using up refused last by (cases "n < len") (metis option.distinct(1), metis le_neq_implies_less option.distinct(1))

lemma downgrade_iff: "n \<le> len \<Longrightarrow> (\<exists>t. step Downgrade (pos n, x) = Some t) \<longleftrightarrow> n \<noteq> 0"
  using down [of "n - 1" x] first by (cases n) (auto simp: Suc_le_eq)

lemma goes_up: "n \<le> len \<Longrightarrow> step Upgrade (pos n, x) = Some t \<Longrightarrow> n < len \<and> admits n x \<and> (\<exists>y. t = (pos (Suc n), y))"
  using upgrade_iff up by (metis option.inject)

lemma goes_down: "n \<le> len \<Longrightarrow> step Downgrade (pos n, x) = Some t \<Longrightarrow> \<exists>m y. n = Suc m \<and> m < len \<and> t = (pos m, y)"
  using down [of "n - 1" x] first by (cases n) auto

lemma stays: "n \<le> len \<Longrightarrow> step c (pos n, x) = Some t \<Longrightarrow> \<exists>m y. m \<le> len \<and> t = (pos m, y)"
  using goes_up [of n x t] goes_down [of n x t] by (cases c) (metis Suc_leI, metis less_imp_le)

lemma up_undone:
  assumes "n \<le> len" and "step Upgrade (pos n, x) = Some t"
  shows "\<exists>y. step Downgrade t = Some (pos n, y)"
  using goes_up [OF assms] down by blast

lemma down_undone:
  assumes "n \<le> len" and "step Downgrade (pos n, x) = Some (s, y)"
  shows "\<exists>m < len. s = pos m \<and> (if admits m y then \<exists>z. step Upgrade (s, y) = Some (pos n, z) else step Upgrade (s, y) = None)"
  using goes_down [OF assms] up refused by force

lemma climbs:
  "n + k = len \<Longrightarrow> if clears n x then \<exists>y. climb step k (pos n, x) = Some (pos len, y) else climb step k (pos n, x) = None"
proof (induction k arbitrary: n x)
  case 0
  then show ?case using last by simp
next
  case (Suc k)
  then have n: "n < len" "Suc n + k = len" by simp_all
  show ?case
  proof (cases "admits n x")
    case True
    then obtain y where "step Upgrade (pos n, x) = Some (pos (Suc n), y)" "clears (Suc n) y = clears n x" using up n(1) by blast
    with Suc.IH [OF n(2), of y] show ?thesis by simp
  next
    case False
    with n refused clears_admits show ?thesis by auto
  qed
qed

end

lemma rev_simps:
  "rev_id baseline = ''d268e0fe1e4b''" "down_revision baseline = None"
  "rev_id users_revision = ''f86c7aa7045d''" "down_revision users_revision = Some ''d268e0fe1e4b''"
  "rev_id alerts_revision = ''d467b8de4c83''" "down_revision alerts_revision = Some ''f86c7aa7045d''"
  "rev_id audit_revision = ''327e48bef586''" "down_revision audit_revision = Some ''d467b8de4c83''"
  "rev_id audit_grants_revision = ''de0fe5693ed3''" "down_revision audit_grants_revision = Some ''327e48bef586''"
  "rev_id cases_revision = ''b7c4e1a9d2f0''" "down_revision cases_revision = Some ''de0fe5693ed3''"
  "rev_id notes_revision = ''c9d4b1f7a2e5''" "down_revision notes_revision = Some ''b7c4e1a9d2f0''"
  "rev_id fts_revision = ''e3f1a2b7c8d9''" "down_revision fts_revision = Some ''c9d4b1f7a2e5''"
  "rev_id fts_refs_revision = ''f1a2b3c4d5e6''" "down_revision fts_refs_revision = Some ''e3f1a2b7c8d9''"
  by (simp_all add: baseline_def users_revision_def alerts_revision_def audit_revision_def audit_grants_revision_def
      cases_revision_def notes_revision_def fts_revision_def fts_refs_revision_def)

lemma length_chain: "length chain = 9"
  by (simp add: chain_def)

lemma chain_nths:
  "chain ! 0 = baseline" "chain ! 1 = users_revision" "chain ! 2 = alerts_revision" "chain ! 3 = audit_revision"
  "chain ! 4 = audit_grants_revision" "chain ! 5 = cases_revision" "chain ! 6 = notes_revision"
  "chain ! 7 = fts_revision" "chain ! 8 = fts_refs_revision"
  by (simp_all add: chain_def)

lemma version_after: "version_at (Suc n) = Some (rev_id (chain ! n))"
  by (simp add: version_at_def)

lemma next_revisions:
  "next_revision None = Some baseline" "next_revision (Some (rev_id baseline)) = Some users_revision"
  "next_revision (Some (rev_id users_revision)) = Some alerts_revision"
  "next_revision (Some (rev_id alerts_revision)) = Some audit_revision"
  "next_revision (Some (rev_id audit_revision)) = Some audit_grants_revision"
  "next_revision (Some (rev_id audit_grants_revision)) = Some cases_revision"
  "next_revision (Some (rev_id cases_revision)) = Some notes_revision"
  "next_revision (Some (rev_id notes_revision)) = Some fts_revision"
  "next_revision (Some (rev_id fts_revision)) = Some fts_refs_revision"
  "next_revision (Some (rev_id fts_refs_revision)) = None"
  by (simp_all add: next_revision_def versions_def rev_simps)

lemma this_revisions:
  assumes "r \<in> set versions"
  shows "this_revision (Some (rev_id r)) = Some r"
  using assms unfolding versions_def list.set
  by (elim insertE emptyE) (simp_all add: this_revision_def versions_def rev_simps)

lemma chain_links:
  assumes "n < 9"
  shows "next_revision (version_at n) = Some (chain ! n)" "this_revision (version_at (Suc n)) = Some (chain ! n)"
    "down_revision (chain ! n) = version_at n"
proof -
  have r: "chain ! n \<in> set versions" using assms nth_mem [of n chain] by (auto simp: length_chain chain_def versions_def)
  then show "this_revision (version_at (Suc n)) = Some (chain ! n)" by (simp add: version_after this_revisions)
  have n: "n = 0 \<or> n = 1 \<or> n = 2 \<or> n = 3 \<or> n = 4 \<or> n = 5 \<or> n = 6 \<or> n = 7 \<or> n = 8" using assms by linarith
  then show "next_revision (version_at n) = Some (chain ! n)"
    by (elim disjE) (simp_all add: version_at_def chain_nths [simplified] next_revisions)
  from n show "down_revision (chain ! n) = version_at n"
    by (elim disjE) (simp_all add: version_at_def chain_nths [simplified] rev_simps)
qed

lemma chain_ends: "next_revision (version_at 9) = None" "this_revision (version_at 0) = None"
  by (simp_all add: next_revision_def this_revision_def versions_def version_at_def chain_def rev_simps)

section \<open>The alembic chain\<close>

text \<open>The schemas of the chain in one pass, and what each has of the tables and indexes that rows matter to.\<close>

fun schemas :: "database \<Rightarrow> revision list \<Rightarrow> database list" where
  "schemas db [] = [db]"
| "schemas db (r # rs) = db # (case run_catalogue (rev_upgrade r) db of Inl e \<Rightarrow> [] | Inr db' \<Rightarrow> schemas db' rs)"

fun created_indexes :: "ddl list \<Rightarrow> index list" where
  "created_indexes [] = []"
| "created_indexes (CreateIndex i # ds) = i # created_indexes ds"
| "created_indexes (d # ds) = created_indexes ds"

definition presence :: "database \<Rightarrow> bool list \<times> bool list" where
  "presence db =
     (map (\<lambda>t. table_named db t \<noteq> None) [''alerts'', ''cases'', ''notes''],
      map (\<lambda>i. i \<in> set (db_indexes db)) (created_indexes (rev_upgrade fts_revision @ rev_upgrade fts_refs_revision)))"

lemma schemas_at: "n + k = 9 \<Longrightarrow> schemas (schema_at n) (drop n chain) = map schema_at [n..<10]"
proof (induction k arbitrary: n)
  case 0
  then show ?case by (simp add: chain_def)
next
  case (Suc k)
  then have n: "n < 9" "Suc n + k = 9" by simp_all
  have "drop n chain = chain ! n # drop (Suc n) chain" using n(1) by (simp add: Cons_nth_drop_Suc length_chain)
  moreover have "[n..<10] = n # [Suc n..<10]" using n(1) by (simp add: upt_conv_Cons)
  ultimately show ?case using Suc.IH [OF n(2)] schema_steps(1) [of n] n(1) by (simp add: length_chain del: schema_at.simps)
qed

lemma presences:
  "map presence (schemas bootstrap chain) =
     replicate 3 ([False, False, False], replicate 6 False) @ replicate 3 ([True, False, False], replicate 6 False) @
     [([True, True, False], replicate 6 False), ([True, True, True], replicate 6 False),
      ([True, True, True], replicate 4 True @ replicate 2 False), ([True, True, True], replicate 6 True)]"
  by code_simp

lemma presence_at:
  assumes "n \<le> 9"
  shows "presence (schema_at n) = ([3 \<le> n, 6 \<le> n, 7 \<le> n], replicate 4 (8 \<le> n) @ replicate 2 (9 \<le> n))"
proof -
  have n: "n = 0 \<or> n = 1 \<or> n = 2 \<or> n = 3 \<or> n = 4 \<or> n = 5 \<or> n = 6 \<or> n = 7 \<or> n = 8 \<or> n = 9" using assms by presburger
  have all: "map presence (schemas bootstrap chain) = map (\<lambda>n. presence (schema_at n)) [0..<10]"
    using schemas_at [of 0 9] by simp
  have "presence (schema_at n) = map presence (schemas bootstrap chain) ! n" using assms unfolding all by simp
  also have "\<dots> = ([3 \<le> n, 6 \<le> n, 7 \<le> n], replicate 4 (8 \<le> n) @ replicate 2 (9 \<le> n))"
    using n unfolding presences by (elim disjE) (simp_all add: numeral_eq_Suc)
  finally show ?thesis .
qed

lemma tables_at:
  assumes "n \<le> 9"
  shows "table_named (schema_at n) ''alerts'' = None \<longleftrightarrow> n < 3" "table_named (schema_at n) ''cases'' = None \<longleftrightarrow> n < 6"
    "table_named (schema_at n) ''notes'' = None \<longleftrightarrow> n < 7"
  using presence_at [OF assms] by (auto simp: presence_def)

lemma fts_at:
  assumes "n \<le> 9"
  shows "fts_index ''ix_alerts_merchant_fts'' ''alerts'' ''merchant_name_normalised'' True \<in> set (db_indexes (schema_at n)) \<longleftrightarrow> 8 \<le> n"
    "fts_index ''ix_alerts_external_fts'' ''alerts'' ''external_alert_id'' True \<in> set (db_indexes (schema_at n)) \<longleftrightarrow> 8 \<le> n"
    "fts_index ''ix_notes_body_fts'' ''notes'' ''body'' False \<in> set (db_indexes (schema_at n)) \<longleftrightarrow> 8 \<le> n"
    "fts_index ''ix_cases_human_ref_fts'' ''cases'' ''human_ref'' False \<in> set (db_indexes (schema_at n)) \<longleftrightarrow> 8 \<le> n"
    "fts_index ''ix_alerts_customer_ref_fts'' ''alerts'' ''customer_ref'' True \<in> set (db_indexes (schema_at n)) \<longleftrightarrow> 9 \<le> n"
    "fts_index ''ix_alerts_account_ref_fts'' ''alerts'' ''account_ref'' True \<in> set (db_indexes (schema_at n)) \<longleftrightarrow> 9 \<le> n"
  using presence_at [OF assms]
  by (simp_all add: presence_def fts_revision_def fts_refs_revision_def numeral_eq_Suc del: schema_at.simps)

text \<open>What the rows are asked, statement by statement.\<close>

lemma index_accepts_simps:
  "index_accepts tsv (plain_index n t cs) rs"
  "index_accepts tsv (fts_index n t c b) (rows t) \<longleftrightarrow> indexable tsv rows t c"
  "ix_table (plain_index n t cs) = t" "ix_table (fts_index n t c b) = t"
  by (auto simp: index_accepts_def indexable_def plain_index_def fts_index_def list_all_iff split: option.splits)

lemma dangling_cases:
  "rows ''cases'' = [] \<Longrightarrow> dangling rows ''alerts'' [''case_id''] ''cases'' [''id''] \<longleftrightarrow> \<not> caseless rows"
  by (auto simp: dangling_def caseless_def list_ex_iff list_all_iff)

lemma caseless_update: "caseless (rows(t := rs)) \<longleftrightarrow> (if t = ''alerts'' then list_all (\<lambda>r. r ''case_id'' = None) rs else caseless rows)"
  by (simp add: caseless_def)

lemma indexable_update:
  "indexable tsv (rows(t := rs)) u c \<longleftrightarrow> (if u = t then indexable tsv (\<lambda>_. rs) t c else indexable tsv rows u c)"
  "indexable tsv (\<lambda>_. []) t c"
  by (simp_all add: indexable_def)

lemmas revision_defs = baseline_def users_revision_def alerts_revision_def audit_revision_def audit_grants_revision_def
  cases_revision_def notes_revision_def fts_revision_def fts_refs_revision_def

lemma table_names:
  "t_name api_keys_table = ''api_keys''" "t_name users_table = ''users''" "t_name user_roles_table = ''user_roles''"
  "t_name alerts_table = ''alerts''" "t_name audit_events_table = ''audit_events''"
  "t_name audit_streams_table = ''audit_streams''" "t_name cases_table = ''cases''"
  "t_name grouping_decisions_table = ''grouping_decisions''" "t_name case_alert_links_table = ''case_alert_links''"
  "t_name notes_table = ''notes''"
  by (simp_all add: api_keys_table_def users_table_def user_roles_table_def alerts_table_def audit_events_table_def
      audit_streams_table_def cases_table_def grouping_decisions_table_def case_alert_links_table_def notes_table_def)

lemma below_nine: "n < (9 :: nat) \<Longrightarrow> n = 0 \<or> n = 1 \<or> n = 2 \<or> n = 3 \<or> n = 4 \<or> n = 5 \<or> n = 6 \<or> n = 7 \<or> n = 8"
  by presburger

text \<open>What the rows are asked, script by script, and the tables that a script leaves empty.\<close>

lemma rows_allow_revisions:
  "rows_allow tsv (rev_upgrade baseline) rows" "rows_allow tsv (rev_upgrade users_revision) rows"
  "rows_allow tsv (rev_upgrade alerts_revision) rows" "rows_allow tsv (rev_upgrade audit_revision) rows"
  "rows_allow tsv (rev_upgrade audit_grants_revision) rows"
  "rows_allow tsv (rev_upgrade cases_revision) rows \<longleftrightarrow> caseless rows"
  "rows_allow tsv (rev_upgrade notes_revision) rows"
  "rows_allow tsv (rev_upgrade fts_revision) rows \<longleftrightarrow>
     indexable tsv rows ''alerts'' ''merchant_name_normalised'' \<and> indexable tsv rows ''alerts'' ''external_alert_id''
     \<and> indexable tsv rows ''notes'' ''body'' \<and> indexable tsv rows ''cases'' ''human_ref''"
  "rows_allow tsv (rev_upgrade fts_refs_revision) rows \<longleftrightarrow>
     indexable tsv rows ''alerts'' ''customer_ref'' \<and> indexable tsv rows ''alerts'' ''account_ref''"
  by (simp_all add: revision_defs index_accepts_simps table_names dangling_cases caseless_update)

lemma rows_allow_down_revisions:
  "rows_allow tsv (rev_downgrade baseline) rows" "rows_allow tsv (rev_downgrade users_revision) rows"
  "rows_allow tsv (rev_downgrade alerts_revision) rows" "rows_allow tsv (rev_downgrade audit_revision) rows"
  "rows_allow tsv (rev_downgrade audit_grants_revision) rows" "rows_allow tsv (rev_downgrade cases_revision) rows"
  "rows_allow tsv (rev_downgrade notes_revision) rows" "rows_allow tsv (rev_downgrade fts_revision) rows"
  "rows_allow tsv (rev_downgrade fts_refs_revision) rows"
  by (simp_all add: revision_defs)

lemma touched_revisions:
  "touched (rev_upgrade baseline) = []" "touched (rev_upgrade users_revision) = [''api_keys'', ''users'', ''user_roles'']"
  "touched (rev_upgrade alerts_revision) = [''alerts'']"
  "touched (rev_upgrade audit_revision) = [''audit_events'', ''audit_streams'']"
  "touched (rev_upgrade audit_grants_revision) = []"
  "touched (rev_upgrade cases_revision) = [''cases'', ''grouping_decisions'', ''case_alert_links'']"
  "touched (rev_upgrade notes_revision) = [''notes'']" "touched (rev_upgrade fts_revision) = []"
  "touched (rev_upgrade fts_refs_revision) = []"
  by (simp_all add: revision_defs table_names)

lemma rows_allow_up:
  assumes "n < 9"
  shows "rows_allow tsv (rev_upgrade (chain ! n)) rows \<longleftrightarrow> admitted tsv (version_at n) rows"
  using below_nine [OF assms]
  by (elim disjE) (simp_all add: version_at_def chain_nths [simplified] rev_simps admitted_def rows_allow_revisions)

lemma rows_allow_down: "n < 9 \<Longrightarrow> rows_allow tsv (rev_downgrade (chain ! n)) rows"
  by (drule below_nine) (elim disjE, simp_all add: chain_nths [simplified] rows_allow_down_revisions)

lemma rows_at_alerts:
  assumes "n < 9"
  shows "n \<noteq> 2 \<Longrightarrow> fold data_after (rev_upgrade (chain ! n)) rows ''alerts'' = rows ''alerts''"
    "n = 2 \<Longrightarrow> fold data_after (rev_upgrade (chain ! n)) rows ''alerts'' = []"
    "n \<noteq> 5 \<Longrightarrow> fold data_after (rev_upgrade (chain ! n)) rows ''cases'' = rows ''cases''"
    "n = 5 \<Longrightarrow> fold data_after (rev_upgrade (chain ! n)) rows ''cases'' = []"
    "n \<noteq> 6 \<Longrightarrow> fold data_after (rev_upgrade (chain ! n)) rows ''notes'' = rows ''notes''"
    "n = 6 \<Longrightarrow> fold data_after (rev_upgrade (chain ! n)) rows ''notes'' = []"
proof -
  note n = below_nine [OF assms]
  show "fold data_after (rev_upgrade (chain ! n)) rows ''alerts'' = rows ''alerts''" if "n \<noteq> 2"
    by (rule rows_untouched) (use n that in \<open>elim disjE; simp add: chain_nths [simplified] touched_revisions\<close>)
  show "fold data_after (rev_upgrade (chain ! n)) rows ''cases'' = rows ''cases''" if "n \<noteq> 5"
    by (rule rows_untouched) (use n that in \<open>elim disjE; simp add: chain_nths [simplified] touched_revisions\<close>)
  show "fold data_after (rev_upgrade (chain ! n)) rows ''notes'' = rows ''notes''" if "n \<noteq> 6"
    by (rule rows_untouched) (use n that in \<open>elim disjE; simp add: chain_nths [simplified] touched_revisions\<close>)
qed (simp_all add: chain_nths [simplified] revision_defs table_names)

lemma ready_at:
  assumes "n \<le> 9"
  shows "ready tsv (schema_at n) rows \<longleftrightarrow>
    (3 \<le> n \<and> n < 6 \<longrightarrow> caseless rows)
    \<and> (n < 3 \<or> 8 \<le> n \<or> indexable tsv rows ''alerts'' ''merchant_name_normalised'')
    \<and> (n < 3 \<or> 8 \<le> n \<or> indexable tsv rows ''alerts'' ''external_alert_id'')
    \<and> (n < 7 \<or> 8 \<le> n \<or> indexable tsv rows ''notes'' ''body'')
    \<and> (n < 6 \<or> 8 \<le> n \<or> indexable tsv rows ''cases'' ''human_ref'')
    \<and> (n < 3 \<or> 9 \<le> n \<or> indexable tsv rows ''alerts'' ''customer_ref'')
    \<and> (n < 3 \<or> 9 \<le> n \<or> indexable tsv rows ''alerts'' ''account_ref'')"
proof -
  have idx: "db_indexes head_schema = db_indexes cases_schema @ plain_index ''ix_notes_case_id'' ''notes'' [''case_id''] #
      created_indexes (rev_upgrade fts_revision @ rev_upgrade fts_refs_revision)"
    by (simp add: head_schema_def fts_revision_def fts_refs_revision_def)
  have plain: "list_all (\<lambda>i. Q i \<or> index_accepts tsv i (rows (ix_table i))) (db_indexes cases_schema)" for Q
    by (simp add: cases_schema_def audited_schema_def index_accepts_simps)
  show ?thesis
    unfolding ready_def idx list_all_append disj_assoc [symmetric] using plain
    by (simp only: tables_at [OF assms] fts_at [OF assms] index_accepts_simps fts_revision_def fts_refs_revision_def
        not_less revision.simps created_indexes.simps append.simps list.pred_inject simp_thms)
qed

lemma indexable_cong: "rows t = rows' t \<Longrightarrow> indexable tsv rows t c \<longleftrightarrow> indexable tsv rows' t c"
  by (simp add: indexable_def)

lemma ready_up:
  assumes "n < 9" and "admitted tsv (version_at n) rows"
  shows "ready tsv (schema_at (Suc n)) (fold data_after (rev_upgrade (chain ! n)) rows) \<longleftrightarrow> ready tsv (schema_at n) rows"
  using below_nine [OF assms(1)] assms(2) rows_at_alerts [OF assms(1), of rows]
  by (elim disjE)
    (simp_all add: ready_at version_at_def chain_nths [simplified] rev_simps admitted_def caseless_def indexable_def
       del: schema_at.simps data_after.simps fold_simps)

lemma head_ready: "ready tsv head_schema rows"
  using ready_at [of 9 tsv rows] schema_head by (simp add: length_chain del: schema_at.simps)

definition migrate_step :: "(string \<Rightarrow> bool) \<Rightarrow> command \<Rightarrow> deployment \<Rightarrow> deployment option" where
  "migrate_step tsv c d = (case migrate tsv c d of Inl e \<Rightarrow> None | Inr t \<Rightarrow> Some t)"

definition deployed :: "nat \<Rightarrow> catalogue" where
  "deployed n = (version_at n, schema_at n)"

lemma migrate_step_iff:
  "migrate_step tsv c d = Some t \<longleftrightarrow> migrate tsv c d = Inr t" "migrate_step tsv c d = None \<longleftrightarrow> (\<exists>e. migrate tsv c d = Inl e)"
  by (simp_all add: migrate_step_def split: sum.split)

lemma run_ddl_refused: "run_catalogue ds db = Inr db' \<Longrightarrow> \<not> rows_allow tsv ds rows \<Longrightarrow> \<exists>e. run_ddl tsv ds (db, rows) = Inl e"
  using run_ddl_iff [of tsv ds db rows] by (cases "run_ddl tsv ds (db, rows)") auto

lemma migrate_up:
  assumes "n < 9"
  shows "admitted tsv (version_at n) rows \<Longrightarrow>
      migrate tsv Upgrade (deployed n, rows) = Inr (deployed (Suc n), fold data_after (rev_upgrade (chain ! n)) rows)"
    "\<not> admitted tsv (version_at n) rows \<Longrightarrow> \<exists>e. migrate tsv Upgrade (deployed n, rows) = Inl e"
proof -
  have cat: "run_catalogue (rev_upgrade (chain ! n)) (schema_at n) = Inr (schema_at (Suc n))"
    using schema_steps(1) [of n] assms by (simp only: length_chain)
  have "run_ddl tsv (rev_upgrade (chain ! n)) (schema_at n, rows) = Inr (schema_at (Suc n), fold data_after (rev_upgrade (chain ! n)) rows)"
    if "admitted tsv (version_at n) rows" using cat that by (simp only: run_ddl_iff rows_allow_up [OF assms] simp_thms)
  then show "migrate tsv Upgrade (deployed n, rows) = Inr (deployed (Suc n), fold data_after (rev_upgrade (chain ! n)) rows)"
    if "admitted tsv (version_at n) rows"
    using that by (simp add: deployed_def chain_links(1) [OF assms] version_after del: schema_at.simps)
  show "\<exists>e. migrate tsv Upgrade (deployed n, rows) = Inl e" if "\<not> admitted tsv (version_at n) rows"
    using run_ddl_refused [OF cat, of tsv rows] that
    by (auto simp: deployed_def chain_links(1) [OF assms] rows_allow_up [OF assms] simp del: schema_at.simps)
qed

lemma migrate_down:
  assumes "n < 9"
  shows "migrate tsv Downgrade (deployed (Suc n), rows) = Inr (deployed n, fold data_after (rev_downgrade (chain ! n)) rows)"
proof -
  have "run_ddl tsv (rev_downgrade (chain ! n)) (schema_at (Suc n), rows) = Inr (schema_at n, fold data_after (rev_downgrade (chain ! n)) rows)"
    using schema_steps(2) [of n] assms rows_allow_down [OF assms] by (simp only: run_ddl_iff length_chain simp_thms)
  then show ?thesis by (simp add: deployed_def chain_links(2,3) [OF assms] del: schema_at.simps)
qed

lemma migrate_ends: "\<exists>e. migrate tsv Upgrade (deployed 9, rows) = Inl e" "\<exists>e. migrate tsv Downgrade (deployed 0, rows) = Inl e"
  by (simp_all add: deployed_def chain_ends del: schema_at.simps)

interpretation alembic: reversible_chain 9 deployed "migrate_step tsv" "\<lambda>n. admitted tsv (version_at n)" "\<lambda>n. ready tsv (schema_at n)"
proof
  fix n :: nat and x :: data
  assume n: "n < 9"
  show "\<exists>y. migrate_step tsv Upgrade (deployed n, x) = Some (deployed (Suc n), y)
      \<and> ready tsv (schema_at (Suc n)) y = ready tsv (schema_at n) x" if "admitted tsv (version_at n) x"
    using migrate_up(1) [OF n that] ready_up [OF n that] unfolding migrate_step_iff by blast
  show "migrate_step tsv Upgrade (deployed n, x) = None" if "\<not> admitted tsv (version_at n) x"
    using migrate_up(2) [OF n that] unfolding migrate_step_iff .
  show "\<exists>y. migrate_step tsv Downgrade (deployed (Suc n), x) = Some (deployed n, y)"
    using migrate_down [OF n] unfolding migrate_step_iff by blast
  show "admitted tsv (version_at n) x" if "ready tsv (schema_at n) x"
    using below_nine [OF n] that
    by (elim disjE) (simp_all add: ready_at admitted_def version_at_def chain_nths [simplified] rev_simps del: schema_at.simps)
next
  show "migrate_step tsv Upgrade (deployed 9, x) = None" "migrate_step tsv Downgrade (deployed 0, x) = None"
    "ready tsv (schema_at 9) x" for x
    using migrate_ends head_ready schema_head unfolding migrate_step_iff by (auto simp: length_chain simp del: schema_at.simps)
qed

lemma version_at_inj:
  assumes "version_at n = version_at m" and "n \<le> 9" and "m \<le> 9"
  shows "n = m"
proof -
  have "distinct (map rev_id chain)" by (simp add: chain_def rev_simps)
  then have "rev_id (chain ! i) \<noteq> rev_id (chain ! j)" if "i < 9" "j < 9" "i \<noteq> j" for i j
    using that by (simp add: distinct_conv_nth length_chain)
  moreover have "n - 1 < 9" "m - 1 < 9" using assms(2,3) by linarith+
  ultimately have "n - 1 = m - 1 \<or> n = 0 \<or> m = 0"
    using assms(1) by (auto simp: version_at_def split: if_splits)
  with assms(1) show ?thesis by (auto simp: version_at_def split: if_splits)
qed

lemma deployed_head: "deployed 9 = (Some ''f1a2b3c4d5e6'', head_schema)"
  using schema_head by (simp add: deployed_def version_at_def chain_nths [simplified] rev_simps length_chain del: schema_at.simps)

lemma deployed_inj: "(v, db) = deployed n \<Longrightarrow> (v, db') = deployed m \<Longrightarrow> n \<le> 9 \<Longrightarrow> m \<le> 9 \<Longrightarrow> db = db'"
  using version_at_inj [of n m] by (simp add: deployed_def)

lemma next_revision_at: "n \<le> 9 \<Longrightarrow> next_revision (fst (deployed n)) = None \<longleftrightarrow> n = 9"
  using chain_links(1) [of n] chain_ends by (cases "n = 9") (simp_all add: deployed_def)

lemma upgrade_head_climb:
  "n + k = 9 \<Longrightarrow> climb (migrate_step tsv) k (deployed n, rows) = Some d \<Longrightarrow> upgrade_head tsv (k + j) (deployed n, rows) = Some (Inr d)"
  "n + k = 9 \<Longrightarrow> climb (migrate_step tsv) k (deployed n, rows) = None \<Longrightarrow> \<exists>e. upgrade_head tsv (k + j) (deployed n, rows) = Some (Inl e)"
proof (induction k arbitrary: n rows)
  case 0
  {
    case 1
    then show ?case using next_revision_at [of n] by (subst upgrade_head.simps) auto
  next
    case 2
    then show ?case by simp
  }
next
  case (Suc k)
  have up: "\<exists>y. t = (deployed (Suc n), y)" if "migrate tsv Upgrade (deployed n, rows) = Inr t" "n + Suc k = 9" for n rows t
    using alembic.goes_up [of n tsv rows t] that unfolding migrate_step_iff by auto
  {
    case 1
    then obtain t where "migrate_step tsv Upgrade (deployed n, rows) = Some t" "climb (migrate_step tsv) k t = Some d"
      by (auto split: option.splits)
    then have t: "migrate tsv Upgrade (deployed n, rows) = Inr t" "climb (migrate_step tsv) k t = Some d"
      by (simp_all only: migrate_step_iff)
    with up 1(1) obtain y where "t = (deployed (Suc n), y)" by blast
    with Suc.IH(1) [of "Suc n" y] t 1(1) have "upgrade_head tsv (k + j) t = Some (Inr d)" by simp
    then show ?case using t(1) 1(1) next_revision_at [of n]
      by (subst upgrade_head.simps) (auto simp del: upgrade_head.simps)
  next
    case 2
    show ?case
    proof (cases "migrate tsv Upgrade (deployed n, rows)")
      case (Inl e)
      then show ?thesis using 2(1) next_revision_at [of n] by (subst upgrade_head.simps) simp
    next
      case (Inr t)
      with up 2(1) obtain y where y: "t = (deployed (Suc n), y)" by blast
      have "migrate_step tsv Upgrade (deployed n, rows) = Some t" unfolding migrate_step_iff by (rule Inr)
      with 2(2) have "climb (migrate_step tsv) k t = None" by simp
      with Suc.IH(2) [of "Suc n" y] y 2(1) have "\<exists>e. upgrade_head tsv (k + j) t = Some (Inl e)" by simp
      then show ?thesis using Inr 2(1) next_revision_at [of n] by (subst upgrade_head.simps) simp
    qed
  }
qed

lemma upgrade_head_deployed:
  assumes "n \<le> 9" and "9 \<le> n + fuel"
  shows "if ready tsv (schema_at n) rows
    then \<exists>rows'. upgrade_head tsv fuel (deployed n, rows) = Some (Inr (deployed 9, rows'))
    else \<exists>e. upgrade_head tsv fuel (deployed n, rows) = Some (Inl e)"
proof -
  obtain k j where k: "n + k = 9" "fuel = k + j" using assms by (metis le_Suc_ex add_le_imp_le_left)
  show ?thesis
  proof (cases "ready tsv (schema_at n) rows")
    case True
    then obtain y where "climb (migrate_step tsv) k (deployed n, rows) = Some (deployed 9, y)"
      using alembic.climbs [OF k(1), of tsv rows] by auto
    then have "upgrade_head tsv fuel (deployed n, rows) = Some (Inr (deployed 9, y))"
      unfolding k(2) by (rule upgrade_head_climb(1) [OF k(1)])
    with True show ?thesis by (simp only: if_True) blast
  next
    case False
    then have "climb (migrate_step tsv) k (deployed n, rows) = None"
      using alembic.climbs [OF k(1), of tsv rows] by simp
    then have "\<exists>e. upgrade_head tsv fuel (deployed n, rows) = Some (Inl e)"
      unfolding k(2) by (rule upgrade_head_climb(2) [OF k(1)])
    with False show ?thesis by (simp only: if_False)
  qed
qed

lemma length_versions: "length versions = 9"
  by (simp add: versions_def)

lemma perform_deployed:
  assumes "n \<le> 9" and "perform tsv a (deployed n, rows) = Inr d"
  shows "\<exists>m y. m \<le> 9 \<and> d = (deployed m, y)"
proof (cases a)
  case (Migrate c)
  then show ?thesis using alembic.stays [OF assms(1), of tsv c rows d] assms(2) unfolding migrate_step_iff by simp
next
  case UpgradeHead
  then have "\<exists>y. d = (deployed 9, y)"
    using upgrade_head_deployed [OF assms(1), of "length versions" tsv rows] assms(2)
    by (auto simp: length_versions split: if_splits simp del: schema_at.simps upgrade_head.simps)
  then show ?thesis by blast
next
  case (Write t rs)
  then show ?thesis using assms by (auto simp: deployed_def split: if_splits simp del: schema_at.simps)
qed

lemma operate_stays: "n \<le> 9 \<Longrightarrow> \<exists>m y. m \<le> 9 \<and> operate tsv as (deployed n, rows) = (deployed m, y)"
proof (induction as arbitrary: n rows)
  case (Cons a as)
  then show ?case using perform_deployed [OF Cons.prems, of tsv a rows] by (auto split: sum.split)
qed auto

lemma operate_deployed:
  assumes "operate tsv as fresh_server = (c, rows)"
  shows "\<exists>n \<le> 9. c = deployed n"
  using operate_stays [of 0 tsv as no_rows] assms by (auto simp: fresh_server_def deployed_def version_at_def)

lemma head_deployed:
  assumes "operate tsv as fresh_server = ((Some ''f1a2b3c4d5e6'', db), rows)"
  shows "db = head_schema"
  using operate_deployed [OF assms] deployed_head deployed_inj [of _ db _ head_schema 9] by auto

text \<open>A script leaves the rows of the tables that are there before and after it.\<close>

lemma migrate_rows:
  assumes "n \<le> 9" and "migrate tsv c (deployed n, rows) = Inr (w, rows')"
    and "table_named (schema_at n) t \<noteq> None" and "table_named (snd w) t \<noteq> None"
  shows "rows' t = rows t"
proof (cases c)
  case Upgrade
  then have "n < 9 \<and> admitted tsv (version_at n) rows"
    using alembic.goes_up [OF assms(1), of tsv rows "(w, rows')"] assms(2) unfolding migrate_step_iff by blast
  then have "rows' = fold data_after (rev_upgrade (chain ! n)) rows" "t \<notin> set (touched (rev_upgrade (chain ! n)))"
    using Upgrade assms(2,3) migrate_up(1) [of n tsv rows] schema_steps(4) [of n t] by (auto simp: length_chain)
  then show ?thesis using rows_untouched by simp
next
  case Downgrade
  then obtain m where m: "n = Suc m" "m < 9" "w = deployed m"
    using alembic.goes_down [OF assms(1), of tsv rows "(w, rows')"] assms(2) unfolding migrate_step_iff by blast
  then have "rows' = fold data_after (rev_downgrade (chain ! m)) rows" "t \<notin> set (touched (rev_downgrade (chain ! m)))"
    using Downgrade assms(2,4) migrate_down [of m tsv rows] schema_steps(5) [of m t] by (auto simp: deployed_def length_chain)
  then show ?thesis using rows_untouched by simp
qed

section \<open>Histories\<close>

text \<open>C30: Whatever commands have run since the database was set up and whatever rows have been written in between, the
  schema depends on the version alone. From there, a downgrade goes through above the base, and an upgrade below the
  head exactly if the rows admit it: at \<open>de0fe5693ed3\<close> no alert may carry a case, which those grouped before a
  downgrade from \<open>b7c4e1a9d2f0\<close> still do; then texts must be indexable. An upgrade is undone by a downgrade, a downgrade
  by an upgrade if the rows that it left admit that, both down to the privileges; and neither touches the rows of a table
  that it does not create or drop. \<open>alembic upgrade head\<close> ends at the head if the rows are ready for all that is missing,
  and is refused otherwise.\<close>

theorem migrations_history:
  assumes "operate tsv as fresh_server = ((v, db), rows)" and "length versions \<le> fuel"
  shows "(\<forall>tsv' as' db' rows'. operate tsv' as' fresh_server = ((v, db'), rows') \<longrightarrow> db' = db)
    \<and> ((\<exists>d. migrate tsv Downgrade ((v, db), rows) = Inr d) \<longleftrightarrow> v \<noteq> None)
    \<and> ((\<exists>d. migrate tsv Upgrade ((v, db), rows) = Inr d) \<longleftrightarrow> v \<noteq> Some ''f1a2b3c4d5e6'' \<and> admitted tsv v rows)
    \<and> (\<forall>d. migrate tsv Upgrade ((v, db), rows) = Inr d \<longrightarrow> (\<exists>rows'. migrate tsv Downgrade d = Inr ((v, db), rows')))
    \<and> (\<forall>w db' rows'. migrate tsv Downgrade ((v, db), rows) = Inr ((w, db'), rows') \<longrightarrow>
         (if admitted tsv w rows' then \<exists>rows''. migrate tsv Upgrade ((w, db'), rows') = Inr ((v, db), rows'')
          else \<exists>e. migrate tsv Upgrade ((w, db'), rows') = Inl e))
    \<and> (\<forall>c w rows' t. migrate tsv c ((v, db), rows) = Inr (w, rows') \<longrightarrow> table_named db t \<noteq> None \<longrightarrow> table_named (snd w) t \<noteq> None \<longrightarrow>
         rows' t = rows t)
    \<and> (if ready tsv db rows then \<exists>rows'. upgrade_head tsv fuel ((v, db), rows) = Some (Inr ((Some ''f1a2b3c4d5e6'', head_schema), rows'))
       else \<exists>e. upgrade_head tsv fuel ((v, db), rows) = Some (Inl e))"
proof -
  obtain n where n: "n \<le> 9" "(v, db) = deployed n" using operate_deployed [OF assms(1)] by blast
  then have vn: "v = version_at n" "db = schema_at n" by (simp_all only: deployed_def prod.inject)
  have "db' = db" if "operate tsv' as' fresh_server = ((v, db'), rows')" for tsv' as' db' rows'
    using operate_deployed [OF that] deployed_inj n by metis
  moreover have "(\<exists>d. migrate tsv Downgrade ((v, db), rows) = Inr d) \<longleftrightarrow> v \<noteq> None"
    using alembic.downgrade_iff [OF n(1), of tsv rows] n(2) vn by (simp add: migrate_step_iff version_at_def)
  moreover have "v = Some ''f1a2b3c4d5e6'' \<longleftrightarrow> n = 9"
    using deployed_head n deployed_inj [of v db n head_schema 9] version_at_inj [of n 9] by (auto simp: deployed_def)
  then have "(\<exists>d. migrate tsv Upgrade ((v, db), rows) = Inr d) \<longleftrightarrow> v \<noteq> Some ''f1a2b3c4d5e6'' \<and> admitted tsv v rows"
    using alembic.upgrade_iff [OF n(1), of tsv rows] n vn by (auto simp: migrate_step_iff)
  moreover have "\<exists>rows'. migrate tsv Downgrade d = Inr ((v, db), rows')" if "migrate tsv Upgrade ((v, db), rows) = Inr d" for d
    using alembic.up_undone [OF n(1), of tsv rows d] that n(2) by (simp add: migrate_step_iff)
  moreover have "if admitted tsv w rows' then \<exists>rows''. migrate tsv Upgrade ((w, db'), rows') = Inr ((v, db), rows'')
      else \<exists>e. migrate tsv Upgrade ((w, db'), rows') = Inl e"
    if "migrate tsv Downgrade ((v, db), rows) = Inr ((w, db'), rows')" for w db' rows'
  proof -
    from that obtain m where "(w, db') = deployed m"
      "if admitted tsv (version_at m) rows' then \<exists>z. migrate_step tsv Upgrade ((w, db'), rows') = Some (deployed n, z)
       else migrate_step tsv Upgrade ((w, db'), rows') = None"
      using alembic.down_undone [OF n(1), of tsv rows "(w, db')" rows'] n(2) unfolding migrate_step_iff by auto
    then show ?thesis unfolding migrate_step_iff n(2) by (simp add: deployed_def)
  qed
  moreover have "rows' t = rows t"
    if "migrate tsv c ((v, db), rows) = Inr (w, rows')" "table_named db t \<noteq> None" "table_named (snd w) t \<noteq> None" for c w rows' t
    using migrate_rows [OF n(1), of tsv c rows w rows' t] that n(2) vn by simp
  moreover have "if ready tsv db rows then \<exists>rows'. upgrade_head tsv fuel ((v, db), rows) = Some (Inr ((Some ''f1a2b3c4d5e6'', head_schema), rows'))
      else \<exists>e. upgrade_head tsv fuel ((v, db), rows) = Some (Inl e)"
    using upgrade_head_deployed [OF n(1), of fuel tsv rows] assms(2) unfolding n(2) [symmetric] vn(2) [symmetric] deployed_head
    by (simp add: length_versions)
  ultimately show ?thesis by blast
qed

text \<open>C29: At no time does \<open>app_user\<close>, the role the backend connects as, have \<open>UPDATE\<close> or \<open>DELETE\<close> on the audit
  events or \<open>DELETE\<close> on the stream tips, whatever migrations have run. Its exact rights at the head: it may read and
  append events, move the tips, use both sequences, and do everything with the other eight tables, which the backend
  needs, and with \<open>alembic_version\<close>, which it does not.\<close>

theorem audit_log_append_only:
  assumes "operate tsv as fresh_server = ((v, db), rows)"
  shows "append_only db
    \<and> (v = Some ''f1a2b3c4d5e6'' \<longrightarrow>
         map (\<lambda>r. (t_name (rl_table r), rl_grants r)) (db_tables db) =
           [(''api_keys'', crud), (''users'', crud), (''user_roles'', crud), (''alerts'', crud),
            (''audit_events'', {SELECT, INSERT}), (''audit_streams'', {SELECT, INSERT, UPDATE}), (''cases'', crud),
            (''grouping_decisions'', crud), (''case_alert_links'', crud), (''notes'', crud)]
         \<and> db_version_grants db = crud
         \<and> map (\<lambda>q. (sq_name q, sq_grants q)) (db_sequences db) =
           [(''audit_events_id_seq'', {USAGE, SELECT}), (''case_human_ref_seq'', {USAGE, SELECT})])"
proof -
  obtain n where n: "n \<le> 9" "(v, db) = deployed n" using operate_deployed [OF assms] by blast
  have "append_only db" using schema_append_only n by (simp add: deployed_def length_chain)
  moreover have "db = head_schema" if "v = Some ''f1a2b3c4d5e6''"
    using head_deployed assms that by simp
  ultimately show ?thesis
    by (auto simp: head_schema_def cases_schema_def audited_schema_def linked_alerts_table_def table_names)
qed

section \<open>Witnesses\<close>

lemma no_rows_after: "fold data_after ds no_rows = no_rows"
proof (induction ds)
  case (Cons d ds)
  have "data_after d no_rows = no_rows" by (cases d) (simp_all add: no_rows_def fun_eq_iff)
  with Cons show ?case by simp
qed simp

lemma upgrade_no_rows: "n + k = 9 \<Longrightarrow> operate tsv (replicate k (Migrate Upgrade)) (deployed n, no_rows) = (deployed 9, no_rows)"
proof (induction k arbitrary: n)
  case (Suc k)
  have "admitted tsv v no_rows" for v by (simp add: admitted_def caseless_def indexable_def no_rows_def)
  then have "migrate tsv Upgrade (deployed n, no_rows) = Inr (deployed (Suc n), no_rows)"
    using migrate_up(1) [of n tsv no_rows] Suc.prems by (simp add: no_rows_after)
  with Suc show ?case by simp
qed simp

lemma operate_head: "operate tsv (replicate 9 (Migrate Upgrade)) fresh_server = ((Some ''f1a2b3c4d5e6'', head_schema), no_rows)"
  using upgrade_no_rows [of 0 9 tsv] unfolding deployed_head by (simp add: fresh_server_def deployed_def version_at_def)

text \<open>A grouped alert, then back to before the cases existed: its case is gone, its \<open>case_id\<close> is not.\<close>

definition regroup :: "action list" where
  "regroup = replicate 9 (Migrate Upgrade) @ [Write ''cases'' [[''id'' \<mapsto> ''c1'']], Write ''alerts'' [[''id'' \<mapsto> ''a1'', ''case_id'' \<mapsto> ''c1'']]]
     @ replicate 4 (Migrate Downgrade)"

lemma operate_append: "operate tsv (as @ bs) d = operate tsv bs (operate tsv as d)"
  by (induction as arbitrary: d) simp_all

lemma alerts_kept: "n < 9 \<Longrightarrow> n \<noteq> 2 \<Longrightarrow> fold data_after (rev_downgrade (chain ! n)) rows ''alerts'' = rows ''alerts''"
  by (drule below_nine, rule rows_untouched) (elim disjE; simp add: chain_nths [simplified] revision_defs)

lemma downgrade_alerts:
  "n \<le> 9 \<Longrightarrow> 3 \<le> n - k \<Longrightarrow> \<exists>rows'. operate tsv (replicate k (Migrate Downgrade)) (deployed n, rows) = (deployed (n - k), rows')
     \<and> rows' ''alerts'' = rows ''alerts''"
proof (induction k arbitrary: n rows)
  case (Suc k)
  then obtain m where m: "n = Suc m" "m < 9" "m \<noteq> 2" "3 \<le> m - k" by (cases n) auto
  have "migrate tsv Downgrade (deployed n, rows) = Inr (deployed m, fold data_after (rev_downgrade (chain ! m)) rows)"
    using migrate_down [OF m(2)] m(1) by simp
  moreover have "fold data_after (rev_downgrade (chain ! m)) rows ''alerts'' = rows ''alerts''" by (rule alerts_kept [OF m(2,3)])
  ultimately show ?case using Suc.IH [of m "fold data_after (rev_downgrade (chain ! m)) rows"] m by simp
qed simp

lemma operate_regroup: "\<exists>rows. operate tsv regroup fresh_server = (deployed 5, rows) \<and> \<not> caseless rows"
proof -
  let ?x = "no_rows(''cases'' := [[''id'' \<mapsto> ''c1'']], ''alerts'' := [[''id'' \<mapsto> ''a1'', ''case_id'' \<mapsto> ''c1'']])"
  have t: "\<exists>t. table_named (schema_at 9) ''alerts'' = Some t" "\<exists>t. table_named (schema_at 9) ''cases'' = Some t"
    using tables_at [of 9] by (auto simp del: schema_at.simps)
  have "operate tsv (replicate 9 (Migrate Upgrade)) fresh_server = (deployed 9, no_rows)"
    unfolding deployed_head by (rule operate_head)
  then have "operate tsv regroup fresh_server = operate tsv (replicate 4 (Migrate Downgrade)) (deployed 9, ?x)"
    unfolding regroup_def operate_append using t by (auto simp: deployed_def simp del: schema_at.simps)
  moreover obtain y where "operate tsv (replicate 4 (Migrate Downgrade)) (deployed 9, ?x) = (deployed 5, y)" "y ''alerts'' = ?x ''alerts''"
    using downgrade_alerts [of 9 4 tsv ?x] by auto
  ultimately show ?thesis by (simp add: caseless_def)
qed

lemma uncased_stuck: "\<not> caseless rows \<Longrightarrow> \<not> ready tsv (snd (deployed 5)) rows"
  using ready_at [of 5 tsv rows] by (simp add: deployed_def del: schema_at.simps)

lemma regroup_stuck: "\<exists>db rows. operate tsv regroup fresh_server = ((Some ''de0fe5693ed3'', db), rows) \<and> \<not> ready tsv db rows"
proof -
  have "deployed 5 = (Some ''de0fe5693ed3'', schema_at 5)" by (simp add: deployed_def version_at_def chain_nths [simplified] rev_simps)
  then show ?thesis using operate_regroup [of tsv] uncased_stuck by fastforce
qed

theorem migrations_history_witness:
  "(\<exists>rows. upgrade_head (\<lambda>_. True) 9 ((Some ''f1a2b3c4d5e6'', head_schema), no_rows) = Some (Inr ((Some ''f1a2b3c4d5e6'', head_schema), rows)))
   \<and> (\<exists>db rows e. operate (\<lambda>_. True) regroup fresh_server = ((Some ''de0fe5693ed3'', db), rows)
        \<and> upgrade_head (\<lambda>_. True) 9 ((Some ''de0fe5693ed3'', db), rows) = Some (Inl e))"
proof -
  obtain db rows where r: "operate (\<lambda>_. True) regroup fresh_server = ((Some ''de0fe5693ed3'', db), rows)" "\<not> ready (\<lambda>_. True) db rows"
    using regroup_stuck by blast
  have nine: "length versions \<le> 9" by (simp add: length_versions)
  show ?thesis
    using migrations_history [OF operate_head nine, of "\<lambda>_. True"] migrations_history [OF r(1) nine] r head_ready by auto
qed

theorem audit_log_append_only_witness: "append_only head_schema \<and> db_version_grants head_schema = crud"
  using audit_log_append_only [OF operate_head] by blast

end
