(* ===== verification/Metadata.thy ===== *)
theory Metadata
  imports Migrations "HOL-Library.Sublist"
begin

text \<open>
  The declarative models (\<open>app/models\<close>) as SQLAlchemy turns them into tables: the mapped columns with their
  keyword arguments, \<open>__table_args__\<close>, the timestamp mixin and the naming convention of \<open>Base.metadata\<close>; and
  \<open>include_object\<close> of \<open>alembic/env.py\<close>. The models and the migrations are two descriptions of the same tables,
  written apart; \<open>head_matches_models\<close> compares them.
\<close>

section \<open>Declarations\<close>

record foreign_key =
  fk_table :: string
  fk_column :: string
  fk_name :: "string option"
  fk_ondelete :: "string option"

record mapped =
  mp_name :: string
  mp_type :: sa_type
  mp_nullable :: bool
  mp_default :: "string option"
  mp_primary_key :: bool
  mp_unique :: bool
  mp_autoincrement :: bool
  mp_foreign_key :: "foreign_key option"

definition mapped_column :: "string \<Rightarrow> sa_type \<Rightarrow> bool \<Rightarrow> mapped" where
  "mapped_column n t nullable =
     \<lparr> mp_name = n, mp_type = t, mp_nullable = nullable, mp_default = None, mp_primary_key = False, mp_unique = False,
       mp_autoincrement = False, mp_foreign_key = None \<rparr>"

definition server_default :: "string \<Rightarrow> mapped \<Rightarrow> mapped" where
  "server_default d m = m\<lparr> mp_default := Some d \<rparr>"

definition primary_key :: "mapped \<Rightarrow> mapped" where
  "primary_key m = m\<lparr> mp_primary_key := True \<rparr>"

definition references :: "string \<Rightarrow> string \<Rightarrow> string option \<Rightarrow> mapped \<Rightarrow> mapped" where
  "references t c n m =
     m\<lparr> mp_foreign_key := Some \<lparr> fk_table = t, fk_column = c, fk_name = n, fk_ondelete = None \<rparr> \<rparr>"

datatype table_arg = UniqueArg string "string list" | IndexArg string "string list" | CheckArg string string

record model =
  md_tablename :: string
  md_table_args :: "table_arg list"
  md_columns :: "mapped list"

definition TimestampMixin :: "mapped list" where
  "TimestampMixin =
     [server_default ''now()'' (mapped_column ''created_at'' DateTime False),
      server_default ''now()'' (mapped_column ''updated_at'' DateTime False)]"

text \<open>\<open>NAMING\<close>; the indexes are all named where they are declared.\<close>

definition uq_name :: "string \<Rightarrow> string \<Rightarrow> string" where "uq_name t c = ''uq_'' @ t @ ''_'' @ c"
definition ck_name :: "string \<Rightarrow> string \<Rightarrow> string" where "ck_name t n = ''ck_'' @ t @ ''_'' @ n"
definition default_fk_name :: "string \<Rightarrow> string \<Rightarrow> string \<Rightarrow> string" where
  "default_fk_name t c r = ''fk_'' @ t @ ''_'' @ c @ ''_'' @ r"
definition pk_name :: "string \<Rightarrow> string" where "pk_name t = ''pk_'' @ t"

definition column_of :: "mapped \<Rightarrow> column_def" where
  "column_of m =
     \<lparr> col_name = mp_name m, col_type = mp_type m, col_default = mp_default m,
       col_nullable = (mp_nullable m \<and> \<not> mp_primary_key m), col_autoincrement = mp_autoincrement m \<rparr>"

definition column_constraints :: "string \<Rightarrow> mapped \<Rightarrow> table_constraint list" where
  "column_constraints t m =
     (if mp_unique m then [Unique (uq_name t (mp_name m)) [mp_name m]] else [])
     @ (case mp_foreign_key m of
          None \<Rightarrow> []
        | Some k \<Rightarrow>
            [ForeignKey (case fk_name k of None \<Rightarrow> default_fk_name t (mp_name m) (fk_table k) | Some n \<Rightarrow> n)
               [mp_name m] (fk_table k) [fk_column k] (fk_ondelete k)])"

definition arg_constraints :: "string \<Rightarrow> table_arg \<Rightarrow> table_constraint list" where
  "arg_constraints t a =
     (case a of UniqueArg n cs \<Rightarrow> [Unique n cs] | IndexArg n cs \<Rightarrow> [] | CheckArg n e \<Rightarrow> [Check (ck_name t n) e])"

definition table_of :: "model \<Rightarrow> table" where
  "table_of M =
     \<lparr> t_name = md_tablename M, t_columns = map column_of (md_columns M),
       t_constraints =
         PrimaryKey (pk_name (md_tablename M)) (map mp_name (filter mp_primary_key (md_columns M)))
         # concat (map (column_constraints (md_tablename M)) (md_columns M))
         @ concat (map (arg_constraints (md_tablename M)) (md_table_args M)) \<rparr>"

definition indexes_of :: "model \<Rightarrow> index list" where
  "indexes_of M =
     concat (map (\<lambda>a. case a of IndexArg n cs \<Rightarrow> [plain_index n (md_tablename M) cs] | _ \<Rightarrow> []) (md_table_args M))"

section \<open>The models\<close>

definition User :: model where
  "User =
     \<lparr> md_tablename = ''users'', md_table_args = [],
       md_columns =
         [primary_key (mapped_column ''id'' Uuid False),
          (mapped_column ''email'' (String 320) False)\<lparr> mp_unique := True \<rparr>,
          mapped_column ''display_name'' (String 200) False,
          mapped_column ''password_hash'' (String 255) False,
          server_default ''true'' (mapped_column ''is_active'' Boolean False)] @ TimestampMixin \<rparr>"

definition UserRole :: model where
  "UserRole =
     \<lparr> md_tablename = ''user_roles'',
       md_table_args =
         [CheckArg ''role_allowed'' (''role IN ('' @ SqlQuote ''analyst'' @ '', '' @ SqlQuote ''admin'' @ '', ''
            @ SqlQuote ''readonly'' @ '')'')],
       md_columns =
         [primary_key ((mapped_column ''user_id'' Uuid False)\<lparr> mp_foreign_key :=
            Some \<lparr> fk_table = ''users'', fk_column = ''id'', fk_name = None, fk_ondelete = Some ''CASCADE'' \<rparr> \<rparr>),
          primary_key (mapped_column ''role'' (String 32) False)] @ TimestampMixin \<rparr>"

definition ApiKey :: model where
  "ApiKey =
     \<lparr> md_tablename = ''api_keys'', md_table_args = [],
       md_columns =
         [primary_key (mapped_column ''id'' Uuid False),
          mapped_column ''label'' (String 200) False,
          mapped_column ''hashed_key'' (String 255) False,
          server_default (SqlQuote ''ingest'') (mapped_column ''scope'' (String 50) False),
          server_default ''true'' (mapped_column ''is_active'' Boolean False)] @ TimestampMixin \<rparr>"

definition Alert :: model where
  "Alert =
     \<lparr> md_tablename = ''alerts'',
       md_table_args =
         [UniqueArg ''uq_alerts_source_external'' [''source_system'', ''external_alert_id''],
          IndexArg ''ix_alerts_event_time'' [''event_time''],
          IndexArg ''ix_alerts_customer_ref_event_time'' [''customer_ref'', ''event_time''],
          IndexArg ''ix_alerts_device_id'' [''device_id''],
          IndexArg ''ix_alerts_ip_address'' [''ip_address'']],
       md_columns =
         [primary_key (mapped_column ''id'' Uuid False),
          mapped_column ''external_alert_id'' (String 200) False,
          mapped_column ''source_system'' (String 100) False,
          mapped_column ''idempotency_key'' (String 255) True,
          mapped_column ''event_time'' DateTime False,
          server_default ''now()'' (mapped_column ''received_at'' DateTime False),
          mapped_column ''amount'' (Numeric 18 4) False,
          mapped_column ''currency'' (String 3) False,
          mapped_column ''direction'' (String 16) False,
          mapped_column ''customer_ref'' (String 200) True,
          mapped_column ''account_ref'' (String 200) True,
          mapped_column ''counterparty_ref'' (String 200) True,
          mapped_column ''merchant_name'' (String 255) True,
          mapped_column ''merchant_name_normalised'' (String 255) True,
          mapped_column ''mcc'' (String 8) True,
          mapped_column ''device_id'' (String 200) True,
          mapped_column ''session_id'' (String 200) True,
          mapped_column ''ip_address'' (String 45) True,
          mapped_column ''risk_score'' Integer True,
          server_default (SqlQuote ''[]'' @ ''::jsonb'') (mapped_column ''rule_codes'' JSONB False),
          server_default (SqlQuote ''[]'' @ ''::jsonb'') (mapped_column ''typologies'' JSONB False),
          server_default (SqlQuote ''{}'' @ ''::jsonb'') (mapped_column ''raw_payload'' JSONB False),
          mapped_column ''ground_truth_group_id'' (String 200) True,
          references ''cases'' ''id'' (Some ''fk_alerts_case_id_cases'') (mapped_column ''case_id'' Uuid True)]
         @ TimestampMixin \<rparr>"

definition AuditStream :: model where
  "AuditStream =
     \<lparr> md_tablename = ''audit_streams'', md_table_args = [],
       md_columns =
         [primary_key (mapped_column ''stream'' (String 255) False),
          mapped_column ''last_seq'' Integer False,
          mapped_column ''last_hash'' (String 64) False] \<rparr>"

definition AuditEvent :: model where
  "AuditEvent =
     \<lparr> md_tablename = ''audit_events'',
       md_table_args =
         [UniqueArg ''uq_audit_events_stream_seq'' [''stream'', ''seq''],
          IndexArg ''ix_audit_events_actor_id'' [''actor_id''],
          IndexArg ''ix_audit_events_action'' [''action''],
          IndexArg ''ix_audit_events_created_at'' [''created_at'']],
       md_columns =
         [primary_key ((mapped_column ''id'' BigInteger False)\<lparr> mp_autoincrement := True \<rparr>),
          mapped_column ''stream'' (String 255) False,
          mapped_column ''seq'' Integer False,
          mapped_column ''prev_hash'' (String 64) False,
          mapped_column ''hash'' (String 64) False,
          mapped_column ''actor_id'' (String 255) True,
          mapped_column ''actor_role'' (String 255) True,
          mapped_column ''action'' (String 100) False,
          mapped_column ''target_type'' (String 100) False,
          mapped_column ''target_id'' (String 255) False,
          mapped_column ''reason'' (String 2000) True,
          mapped_column ''before'' JSONB True,
          mapped_column ''after'' JSONB True,
          mapped_column ''correlation_id'' (String 255) True,
          mapped_column ''created_at'' DateTime False] \<rparr>"

definition Case :: model where
  "Case =
     \<lparr> md_tablename = ''cases'',
       md_table_args =
         [IndexArg ''ix_cases_status'' [''status''], IndexArg ''ix_cases_assignee_id'' [''assignee_id'']],
       md_columns =
         [primary_key (mapped_column ''id'' Uuid False),
          (mapped_column ''human_ref'' (String 64) False)\<lparr> mp_unique := True \<rparr>,
          server_default (SqlQuote ''Open'') (mapped_column ''status'' (String 32) False),
          mapped_column ''disposition'' (String 64) True,
          references ''users'' ''id'' (Some ''fk_cases_assignee_id_users'') (mapped_column ''assignee_id'' Uuid True),
          server_default ''0'' (mapped_column ''risk_score'' Integer False),
          server_default ''0'' (mapped_column ''alert_count'' Integer False),
          mapped_column ''closed_at'' DateTime True,
          references ''cases'' ''id'' (Some ''fk_cases_canonical_from_case_id_cases'')
            (mapped_column ''canonical_from_case_id'' Uuid True),
          server_default ''1'' (mapped_column ''version'' Integer False)] @ TimestampMixin \<rparr>"

definition CaseAlertLink :: model where
  "CaseAlertLink =
     \<lparr> md_tablename = ''case_alert_links'', md_table_args = [IndexArg ''ix_case_alert_links_case_id'' [''case_id'']],
       md_columns =
         [primary_key (mapped_column ''id'' Uuid False),
          references ''cases'' ''id'' (Some ''fk_case_alert_links_case_id_cases'') (mapped_column ''case_id'' Uuid False),
          (references ''alerts'' ''id'' (Some ''fk_case_alert_links_alert_id_alerts'')
            (mapped_column ''alert_id'' Uuid False))\<lparr> mp_unique := True \<rparr>,
          references ''grouping_decisions'' ''id''
            (Some ''fk_case_alert_links_grouping_decision_id_grouping_decisions'')
            (mapped_column ''grouping_decision_id'' Uuid False),
          mapped_column ''linked_at'' DateTime False,
          mapped_column ''linked_by'' (String 255) False] \<rparr>"

definition Note :: model where
  "Note =
     \<lparr> md_tablename = ''notes'', md_table_args = [IndexArg ''ix_notes_case_id'' [''case_id'']],
       md_columns =
         [primary_key (mapped_column ''id'' Uuid False),
          references ''cases'' ''id'' (Some ''fk_notes_case_id_cases'') (mapped_column ''case_id'' Uuid False),
          references ''users'' ''id'' (Some ''fk_notes_author_id_users'') (mapped_column ''author_id'' Uuid False),
          mapped_column ''body'' SqlText False,
          server_default ''false'' (mapped_column ''retracted'' Boolean False),
          mapped_column ''retraction_reason'' SqlText True,
          server_default ''now()'' (mapped_column ''created_at'' DateTime False)] \<rparr>"

definition GroupingDecision :: model where
  "GroupingDecision =
     \<lparr> md_tablename = ''grouping_decisions'',
       md_table_args = [IndexArg ''ix_grouping_decisions_alert_id'' [''alert_id'']],
       md_columns =
         [primary_key (mapped_column ''id'' Uuid False),
          references ''alerts'' ''id'' (Some ''fk_grouping_decisions_alert_id_alerts'')
            (mapped_column ''alert_id'' Uuid False),
          references ''cases'' ''id'' (Some ''fk_grouping_decisions_case_id_cases'') (mapped_column ''case_id'' Uuid False),
          mapped_column ''method'' (String 32) False,
          mapped_column ''matched_rule_ids'' JSONB False,
          mapped_column ''similarity_score'' Float True,
          mapped_column ''feature_contributions'' JSONB False,
          mapped_column ''engine_version'' (String 32) False,
          mapped_column ''config_hash'' (String 64) False,
          mapped_column ''created_at'' DateTime False] \<rparr>"

text \<open>\<open>Base.metadata\<close> once \<open>env.py\<close> has imported every model module.\<close>

definition target_metadata :: "model list" where
  "target_metadata =
     [User, UserRole, ApiKey, Alert, AuditStream, AuditEvent, Case, CaseAlertLink, Note, GroupingDecision]"

definition include_object :: "string option \<Rightarrow> string \<Rightarrow> bool" where
  "include_object n kind \<longleftrightarrow> \<not> (kind = ''index'' \<and> n \<noteq> None \<and> suffix (''_fts'') (the n))"

section \<open>The models are the tables of the head\<close>

text \<open>A table up to the order of its columns and constraints.\<close>

definition shape :: "table \<Rightarrow> string \<times> column_def set \<times> table_constraint set" where
  "shape t = (t_name t, set (t_columns t), set (t_constraints t))"

lemma shape_users: "shape (table_of User) = shape users_table" by code_simp
lemma shape_user_roles: "shape (table_of UserRole) = shape user_roles_table" by code_simp
lemma shape_api_keys: "shape (table_of ApiKey) = shape api_keys_table" by code_simp
lemma shape_alerts: "shape (table_of Alert) = shape linked_alerts_table" by code_simp
lemma shape_audit_streams: "shape (table_of AuditStream) = shape audit_streams_table" by code_simp
lemma shape_audit_events: "shape (table_of AuditEvent) = shape audit_events_table" by code_simp
lemma shape_cases: "shape (table_of Case) = shape cases_table" by code_simp
lemma shape_case_alert_links: "shape (table_of CaseAlertLink) = shape case_alert_links_table" by code_simp
lemma shape_notes: "shape (table_of Note) = shape notes_table" by code_simp
lemma shape_grouping_decisions: "shape (table_of GroupingDecision) = shape grouping_decisions_table" by code_simp

lemmas shapes = shape_users shape_user_roles shape_api_keys shape_alerts shape_audit_streams shape_audit_events
  shape_cases shape_case_alert_links shape_notes shape_grouping_decisions

lemma head_shapes: "shape ` rl_table ` set (db_tables head_schema) = (\<lambda>M. shape (table_of M)) ` set target_metadata"
  by (auto simp: target_metadata_def shapes head_schema_def cases_schema_def)

lemma head_indexes:
  "set (filter (\<lambda>i. include_object (Some (ix_name i)) ''index'') (db_indexes head_schema))
     = set (concat (map indexes_of target_metadata))"
  by code_simp

lemma head_hidden:
  "map ix_name (filter (\<lambda>i. \<not> include_object (Some (ix_name i)) ''index'') (db_indexes head_schema)) =
     [''ix_alerts_merchant_fts'', ''ix_alerts_external_fts'', ''ix_notes_body_fts'', ''ix_cases_human_ref_fts'',
      ''ix_alerts_customer_ref_fts'', ''ix_alerts_account_ref_fts'']"
  by code_simp

text \<open>C31: The migrations and the models agree. At the head the database has exactly the tables of the models, each
  with the same columns (types, defaults, nullability), keys, foreign keys and checks under the same names, and
  the same indexes, except for the full-text ones that \<open>include_object\<close> hides from Alembic's comparison.\<close>

theorem head_matches_models:
  assumes "operate tsv as fresh_server = ((Some ''f1a2b3c4d5e6'', db), rows)"
  shows "shape ` rl_table ` set (db_tables db) = (\<lambda>M. shape (table_of M)) ` set target_metadata
    \<and> set (filter (\<lambda>i. include_object (Some (ix_name i)) ''index'') (db_indexes db)) = set (concat (map indexes_of target_metadata))
    \<and> map ix_name (filter (\<lambda>i. \<not> include_object (Some (ix_name i)) ''index'') (db_indexes db)) =
        [''ix_alerts_merchant_fts'', ''ix_alerts_external_fts'', ''ix_notes_body_fts'', ''ix_cases_human_ref_fts'',
         ''ix_alerts_customer_ref_fts'', ''ix_alerts_account_ref_fts'']"
  using head_deployed [OF assms] head_shapes head_indexes head_hidden by simp

theorem head_matches_models_witness:
  "shape ` rl_table ` set (db_tables head_schema) = (\<lambda>M. shape (table_of M)) ` set target_metadata"
  using head_matches_models [OF operate_head] by blast

end
