(* ===== verification/Columns.thy ===== *)
theory Columns
  imports Metadata IngestionOutcome
begin

text \<open>
  The limits of the database as the migrations create it, against the limits that the write paths of the model
  check. \<open>alert_values\<close> and \<open>event_values\<close> list what \<open>Alert(...)\<close> and \<open>AuditEvent(...)\<close> assign to which column;
  \<open>fits_column\<close> is what PostgreSQL accepts in a column of a given type.
\<close>

datatype sql_value = SqlNull | SqlStr string | SqlNum rat | SqlJson json | SqlTime int

definition nullable :: "('a \<Rightarrow> sql_value) \<Rightarrow> 'a option \<Rightarrow> sql_value" where
  "nullable f v = (case v of None \<Rightarrow> SqlNull | Some x \<Rightarrow> f x)"

text \<open>A value of a type that the column's type cannot hold is refused too.\<close>

fun fits_type :: "sa_type \<Rightarrow> sql_value \<Rightarrow> bool" where
  "fits_type (String n) (SqlStr s) = fits n s"
| "fits_type (Numeric p d) (SqlNum x) = (\<bar>x\<bar> < 10 ^ (p - d))"
| "fits_type Integer (SqlNum x) = (x \<in> \<int> \<and> - (2 ^ 31) \<le> x \<and> x < 2 ^ 31)"
| "fits_type JSONB (SqlJson j) = jsonb_ok j"
| "fits_type DateTime (SqlTime t) = True"
| "fits_type t v = False"

definition column_at :: "database \<Rightarrow> string \<Rightarrow> string \<Rightarrow> column_def option" where
  "column_at db t c =
     (case table_named db t of
        None \<Rightarrow> None
      | Some u \<Rightarrow> List.find (\<lambda>k. col_name k = c) (t_columns u))"

definition fits_column :: "database \<Rightarrow> string \<Rightarrow> string \<times> sql_value \<Rightarrow> bool" where
  "fits_column db t = (\<lambda>(c, v).
     case column_at db t c of
       None \<Rightarrow> False
     | Some k \<Rightarrow> if v = SqlNull then col_nullable k else fits_type (col_type k) v)"

text \<open>The keyword arguments of \<open>Alert(...)\<close> in \<open>_insert_alert_or_existing\<close>.\<close>

definition alert_values :: "alert_row \<Rightarrow> (string \<times> sql_value) list" where
  "alert_values a =
     (let n = a_data a; texts = (\<lambda>xs. SqlJson (JList (map JStr xs)))
      in [(''external_alert_id'', SqlStr (na_external_alert_id n)), (''source_system'', SqlStr (na_source_system n)),
          (''idempotency_key'', nullable SqlStr (a_idempotency_key a)), (''event_time'', SqlTime (na_event_time n)),
          (''amount'', SqlNum (na_amount n)), (''currency'', SqlStr (na_currency n)), (''direction'', SqlStr (na_direction n)),
          (''customer_ref'', nullable SqlStr (na_customer_ref n)), (''account_ref'', nullable SqlStr (na_account_ref n)),
          (''counterparty_ref'', nullable SqlStr (na_counterparty_ref n)),
          (''merchant_name'', nullable SqlStr (na_merchant_name n)),
          (''merchant_name_normalised'', nullable SqlStr (na_merchant_name_normalised n)),
          (''mcc'', nullable SqlStr (na_mcc n)), (''device_id'', nullable SqlStr (na_device_id n)),
          (''session_id'', nullable SqlStr (na_session_id n)), (''ip_address'', nullable SqlStr (na_ip_address n)),
          (''risk_score'', nullable (\<lambda>r. SqlNum (of_int r)) (na_risk_score n)), (''rule_codes'', texts (na_rule_codes n)),
          (''typologies'', texts (na_typologies n)), (''raw_payload'', SqlJson (na_raw_payload n)),
          (''ground_truth_group_id'', nullable SqlStr (na_ground_truth_group_id n))])"

text \<open>Those of \<open>AuditEvent(...)\<close> in \<open>record_audit\<close> that come from the caller as texts, and the time. The number in the stream,
  the two digests of 64 digits and the JSON values \<open>before\<close> and \<open>after\<close>, which the backend makes itself, are not
  compared.\<close>

definition event_values :: "audit_event \<Rightarrow> (string \<times> sql_value) list" where
  "event_values e =
     [(''stream'', SqlStr (ev_stream e)), (''actor_id'', nullable SqlStr (ev_actor_id e)),
      (''actor_role'', nullable SqlStr (ev_actor_role e)), (''action'', SqlStr (ev_action e)),
      (''target_type'', SqlStr (ev_target_type e)), (''target_id'', SqlStr (ev_target_id e)),
      (''reason'', nullable SqlStr (ev_reason e)), (''correlation_id'', nullable SqlStr (ev_correlation_id e)),
      (''created_at'', SqlTime (ev_created_at e))]"

lemma head_columns:
  "column_at head_schema ''alerts'' c = List.find (\<lambda>k. col_name k = c) (t_columns alerts_table)"
  "column_at head_schema ''audit_events'' c = List.find (\<lambda>k. col_name k = c) (t_columns audit_events_table)"
  by (simp_all add: column_at_def table_named_def head_schema_def cases_schema_def linked_alerts_table_def
      api_keys_table_def users_table_def user_roles_table_def alerts_table_def audit_events_table_def)

lemma fits_column_text:
  assumes "column_at db t c = Some (Column c (String n) d True)"
  shows "fits_column db t (c, nullable SqlStr v) \<longleftrightarrow> fits_opt n v"
  using assms by (simp add: fits_column_def Column_def nullable_def fits_opt_def split: option.split)

lemma of_int_range:
  "- 2147483648 \<le> (of_int r :: rat) \<longleftrightarrow> - 2147483648 \<le> r" "(of_int r :: rat) < 2147483648 \<longleftrightarrow> r < 2147483648"
  by linarith+

lemma alert_column:
  "fits_column head_schema ''alerts'' (''external_alert_id'', SqlStr x) \<longleftrightarrow> fits 200 x"
  "fits_column head_schema ''alerts'' (''source_system'', SqlStr x) \<longleftrightarrow> fits 100 x"
  "fits_column head_schema ''alerts'' (''currency'', SqlStr x) \<longleftrightarrow> fits 3 x"
  "fits_column head_schema ''alerts'' (''direction'', SqlStr x) \<longleftrightarrow> fits 16 x"
  "fits_column head_schema ''alerts'' (''idempotency_key'', nullable SqlStr v) \<longleftrightarrow> fits_opt 255 v"
  "fits_column head_schema ''alerts'' (''customer_ref'', nullable SqlStr v) \<longleftrightarrow> fits_opt 200 v"
  "fits_column head_schema ''alerts'' (''account_ref'', nullable SqlStr v) \<longleftrightarrow> fits_opt 200 v"
  "fits_column head_schema ''alerts'' (''counterparty_ref'', nullable SqlStr v) \<longleftrightarrow> fits_opt 200 v"
  "fits_column head_schema ''alerts'' (''merchant_name'', nullable SqlStr v) \<longleftrightarrow> fits_opt 255 v"
  "fits_column head_schema ''alerts'' (''merchant_name_normalised'', nullable SqlStr v) \<longleftrightarrow> fits_opt 255 v"
  "fits_column head_schema ''alerts'' (''mcc'', nullable SqlStr v) \<longleftrightarrow> fits_opt 8 v"
  "fits_column head_schema ''alerts'' (''device_id'', nullable SqlStr v) \<longleftrightarrow> fits_opt 200 v"
  "fits_column head_schema ''alerts'' (''session_id'', nullable SqlStr v) \<longleftrightarrow> fits_opt 200 v"
  "fits_column head_schema ''alerts'' (''ip_address'', nullable SqlStr v) \<longleftrightarrow> fits_opt 45 v"
  "fits_column head_schema ''alerts'' (''ground_truth_group_id'', nullable SqlStr v) \<longleftrightarrow> fits_opt 200 v"
  "fits_column head_schema ''alerts'' (''event_time'', SqlTime t)"
  "fits_column head_schema ''alerts'' (''amount'', SqlNum y) \<longleftrightarrow> \<bar>y\<bar> < 10 ^ 14"
  "fits_column head_schema ''alerts'' (''rule_codes'', SqlJson j) \<longleftrightarrow> jsonb_ok j"
  "fits_column head_schema ''alerts'' (''typologies'', SqlJson j) \<longleftrightarrow> jsonb_ok j"
  "fits_column head_schema ''alerts'' (''raw_payload'', SqlJson j) \<longleftrightarrow> jsonb_ok j"
  "fits_column head_schema ''alerts'' (''risk_score'', nullable (\<lambda>r. SqlNum (of_int r)) w) \<longleftrightarrow>
     (\<forall>r. w = Some r \<longrightarrow> - (2 ^ 31) \<le> r \<and> r < 2 ^ 31)"
proof -
  show "fits_column head_schema ''alerts'' (''risk_score'', nullable (\<lambda>r. SqlNum (of_int r)) w) \<longleftrightarrow>
     (\<forall>r. w = Some r \<longrightarrow> - (2 ^ 31) \<le> r \<and> r < 2 ^ 31)"
    by (cases w) (simp_all add: fits_column_def head_columns alerts_table_def Column_def nullable_def of_int_range)
qed (simp_all add: fits_column_text head_columns alerts_table_def Column_def, simp_all add: fits_column_def head_columns alerts_table_def Column_def)

lemma event_column:
  "fits_column head_schema ''audit_events'' (''stream'', SqlStr x) \<longleftrightarrow> fits 255 x"
  "fits_column head_schema ''audit_events'' (''action'', SqlStr x) \<longleftrightarrow> fits 100 x"
  "fits_column head_schema ''audit_events'' (''target_type'', SqlStr x) \<longleftrightarrow> fits 100 x"
  "fits_column head_schema ''audit_events'' (''target_id'', SqlStr x) \<longleftrightarrow> fits 255 x"
  "fits_column head_schema ''audit_events'' (''actor_id'', nullable SqlStr v) \<longleftrightarrow> fits_opt 255 v"
  "fits_column head_schema ''audit_events'' (''actor_role'', nullable SqlStr v) \<longleftrightarrow> fits_opt 255 v"
  "fits_column head_schema ''audit_events'' (''reason'', nullable SqlStr v) \<longleftrightarrow> fits_opt 2000 v"
  "fits_column head_schema ''audit_events'' (''correlation_id'', nullable SqlStr v) \<longleftrightarrow> fits_opt 255 v"
  "fits_column head_schema ''audit_events'' (''created_at'', SqlTime t)"
  by (simp_all add: fits_column_text head_columns audit_events_table_def Column_def)
    (simp_all add: fits_column_def head_columns audit_events_table_def Column_def)

lemma alert_columns:
  assumes "\<forall>r. na_risk_score (a_data a) = Some r \<longrightarrow> 0 \<le> r \<and> r \<le> 100"
  shows "alert_fits a \<longleftrightarrow> list_all (fits_column head_schema ''alerts'') (alert_values a)"
proof -
  have "\<forall>r. na_risk_score (a_data a) = Some r \<longrightarrow> - (2 ^ 31) \<le> r \<and> r < 2 ^ 31" using assms by force
  then show ?thesis
    by (simp only: alert_fits_def alert_values_def Let_def list.pred_inject alert_column)
      (auto simp: list_all_iff)
qed

lemma event_columns: "event_fits e \<longleftrightarrow> list_all (fits_column head_schema ''audit_events'') (event_values e)"
  by (simp only: event_fits_def event_values_def list.pred_inject event_column) blast

text \<open>C32: The limits that the write paths respect are those of the database. At the head of the migrations, an alert
  whose risk score is in the schema's range passes the model's check exactly if every value that the insert
  assigns fits its column, and an audit event exactly if each of its texts does; and the columns of
  \<open>alerts\<close> that the insert leaves out are generated, have a default or are nullable.\<close>

theorem column_limits:
  assumes "operate tsv as fresh_server = ((Some ''f1a2b3c4d5e6'', db), rows)"
    and "\<forall>r. na_risk_score (a_data a) = Some r \<longrightarrow> 0 \<le> r \<and> r \<le> 100"
  shows "(alert_fits a \<longleftrightarrow> list_all (fits_column db ''alerts'') (alert_values a))
    \<and> (event_fits e \<longleftrightarrow> list_all (fits_column db ''audit_events'') (event_values e))
    \<and> filter (\<lambda>c. c \<notin> fst ` set (alert_values a)) (map col_name (t_columns (the (table_named db ''alerts''))))
        = [''id'', ''received_at'', ''case_id'', ''created_at'', ''updated_at'']"
proof -
  have "t_columns (the (table_named head_schema ''alerts'')) = t_columns alerts_table"
    by (simp add: table_named_def head_schema_def cases_schema_def linked_alerts_table_def api_keys_table_def
        users_table_def user_roles_table_def alerts_table_def)
  then show ?thesis
    using head_deployed [OF assms(1)] alert_columns [OF assms(2)] event_columns
    by (simp add: alert_values_def Let_def) (simp add: alerts_table_def Column_def)
qed

theorem column_limits_witness:
  "list_all (fits_column head_schema ''alerts'') (alert_values (sample_row ''x'' ''e1'' None))
   \<and> \<not> list_all (fits_column head_schema ''alerts'') (alert_values (sample_row ''x'' (replicate 201 (CHR ''x'')) None))"
proof -
  note c = column_limits [THEN conjunct1, OF operate_head]
  have "alert_fits (sample_row ''x'' ''e1'' None)" "\<not> alert_fits (sample_row ''x'' (replicate 201 (CHR ''x'')) None)"
    by (simp_all add: alert_fits_def sample_row_def sample_data_def fits_def fits_opt_def)
  then show ?thesis
    using c [of "sample_row ''x'' ''e1'' None"] c [of "sample_row ''x'' (replicate 201 (CHR ''x'')) None"]
    by (simp add: sample_row_def sample_data_def)
qed

end
