(* ===== verification/ConfigFile.thy ===== *)
theory ConfigFile
  imports ConfigHash Synthetic
begin

text \<open>
  \<open>load_config\<close> and \<open>get_grouping_config\<close> of \<open>app/grouping/config.py\<close> over what \<open>yaml.safe_load\<close> returns, and
  \<open>config/grouping.yaml\<close> as such a value. PyYAML, \<open>int\<close> and \<open>float\<close> of a text and \<open>str\<close> of a value that is
  no text are parameters. Two attributes are declared with a type and not converted (the weights and
  \<open>risk_aggregation\<close>): a value of another type, which Python would carry along, is refused here (\<open>TypeError\<close>).
\<close>

section \<open>The loader\<close>

datatype yaml =
    YNull
  | YBool bool
  | YInt int
  | YFloat rat
  | YStr string
  | YList "yaml list"
  | YDict "(string \<times> yaml) list"

record yaml_lib =
  str_of :: "yaml \<Rightarrow> string"
  int_of_text :: "string \<Rightarrow> int option"
  float_of_text :: "string \<Rightarrow> rat option"

fun yaml_item :: "yaml \<Rightarrow> string \<Rightarrow> yaml result" where
  "yaml_item (YDict kvs) k = (case map_of kvs k of None \<Rightarrow> Inl KeyError | Some v \<Rightarrow> Inr v)"
| "yaml_item v k = Inl TypeError"

fun yaml_iter :: "yaml \<Rightarrow> yaml list result" where
  "yaml_iter (YList xs) = Inr xs"
| "yaml_iter (YStr s) = Inr (map (\<lambda>c. YStr [c]) s)"
| "yaml_iter (YDict kvs) = Inr (map (\<lambda>kv. YStr (fst kv)) kvs)"
| "yaml_iter v = Inl TypeError"

fun py_str_of :: "yaml_lib \<Rightarrow> yaml \<Rightarrow> string" where
  "py_str_of Y (YStr s) = s"
| "py_str_of Y v = str_of Y v"

fun py_bool :: "yaml \<Rightarrow> bool" where
  "py_bool YNull = False"
| "py_bool (YBool b) = b"
| "py_bool (YInt n) = (n \<noteq> 0)"
| "py_bool (YFloat x) = (x \<noteq> 0)"
| "py_bool (YStr s) = (s \<noteq> [])"
| "py_bool (YList xs) = (xs \<noteq> [])"
| "py_bool (YDict kvs) = (kvs \<noteq> [])"

fun py_int :: "yaml_lib \<Rightarrow> yaml \<Rightarrow> int result" where
  "py_int Y (YInt n) = Inr n"
| "py_int Y (YBool b) = Inr (if b then 1 else 0)"
| "py_int Y (YFloat x) = Inr (int_of_float x)"
| "py_int Y (YStr s) =
     (case int_of_text Y s of None \<Rightarrow> Inl (ValueError ''invalid literal for int()'') | Some n \<Rightarrow> Inr n)"
| "py_int Y v = Inl TypeError"

fun py_float :: "yaml_lib \<Rightarrow> yaml \<Rightarrow> rat result" where
  "py_float Y (YFloat x) = Inr x"
| "py_float Y (YInt n) = Inr (fl (of_int n))"
| "py_float Y (YBool b) = Inr (if b then 1 else 0)"
| "py_float Y (YStr s) =
     (case float_of_text Y s of None \<Rightarrow> Inl (ValueError ''could not convert string to float'') | Some x \<Rightarrow> Inr x)"
| "py_float Y v = Inl TypeError"

fun number :: "yaml \<Rightarrow> rat result" where
  "number (YFloat x) = Inr x"
| "number (YInt n) = Inr (of_int n)"
| "number v = Inl TypeError"

fun text_value :: "yaml \<Rightarrow> string result" where
  "text_value (YStr s) = Inr s"
| "text_value v = Inl TypeError"

definition str_tuple :: "yaml_lib \<Rightarrow> yaml \<Rightarrow> string list result" where
  "str_tuple Y v = rbind (yaml_iter v) (\<lambda>xs. Inr (map (py_str_of Y) xs))"

text \<open>\<open>FeatureWeights(**kwargs)\<close> takes exactly its six arguments.\<close>

definition WEIGHT_NAMES :: "string list" where
  "WEIGHT_NAMES = [''time'', ''amount'', ''name'', ''device'', ''ip'', ''typology'']"

definition feature_weights_of :: "yaml \<Rightarrow> feature_weights result" where
  "feature_weights_of v =
     (case v of
        YDict kvs \<Rightarrow>
          if fst ` set kvs \<noteq> set WEIGHT_NAMES then Inl TypeError
          else
            let arg = (\<lambda>k. rbind (yaml_item v k) number)
            in rbind (arg ''time'') (\<lambda>t. rbind (arg ''amount'') (\<lambda>a. rbind (arg ''name'') (\<lambda>n.
               rbind (arg ''device'') (\<lambda>d. rbind (arg ''ip'') (\<lambda>i. rbind (arg ''typology'') (\<lambda>y.
                 Inr \<lparr> w_time = t, w_amount = a, w_name = n, w_device = d, w_ip = i, w_typology = y \<rparr>))))))
      | _ \<Rightarrow> Inl TypeError)"

text \<open>A rule holds its tolerance as the decimal that the scoring reads from it, \<open>Decimal(str(x))\<close>.\<close>

definition rule_of :: "platform \<Rightarrow> reader \<Rightarrow> yaml_lib \<Rightarrow> yaml \<Rightarrow> rule result" where
  "rule_of P L Y entry =
     rbind (yaml_item entry ''id'') (\<lambda>i.
     rbind (yaml_item entry ''enabled'') (\<lambda>e.
     rbind (rbind (yaml_item entry ''blocking_keys'') (str_tuple Y)) (\<lambda>bs.
     rbind (rbind (yaml_item entry ''time_window_seconds'') (py_int Y)) (\<lambda>w.
     rbind (rbind (yaml_item entry ''amount_tolerance'') (py_float Y)) (\<lambda>x.
     rbind (decimal_of_float P L x) (\<lambda>tol.
     rbind (rbind (yaml_item entry ''match_keys'') (str_tuple Y)) (\<lambda>ms.
     rbind (rbind (yaml_item entry ''weight'') (py_float Y)) (\<lambda>wt.
       Inr \<lparr> rule_id = py_str_of Y i, enabled = py_bool e, blocking_keys = bs, time_window_seconds = w,
             amount_tolerance = tol, match_keys = ms, weight = wt \<rparr>))))))))"

definition load_config :: "platform \<Rightarrow> reader \<Rightarrow> yaml_lib \<Rightarrow> yaml \<Rightarrow> grouping_config result" where
  "load_config P L Y raw =
     rbind (rbind (yaml_item raw ''weights'') feature_weights_of) (\<lambda>ws.
     rbind (rbind (rbind (yaml_item raw ''rules'') yaml_iter) (rmap (rule_of P L Y))) (\<lambda>rs.
     rbind (rbind (yaml_item raw ''similarity_threshold'') (py_float Y)) (\<lambda>th.
     rbind (rbind (yaml_item raw ''candidate_cap'') (py_int Y)) (\<lambda>cap.
     rbind (rbind (yaml_item raw ''time_tau_seconds'') (py_int Y)) (\<lambda>tau.
     rbind (rbind (yaml_item raw ''dispositions'') (str_tuple Y)) (\<lambda>ds.
     rbind (rbind (yaml_item raw ''risk_aggregation'') text_value) (\<lambda>ra.
       Inr \<lparr> rules = rs, weights = ws, similarity_threshold = th, candidate_cap = cap, time_tau_seconds = tau,
             dispositions = ds, risk_aggregation = ra \<rparr>)))))))"

text \<open>\<open>get_grouping_config\<close>: the path of the settings, relative to the backend's root unless absolute; the file is
  read once, later calls return the cached value. \<open>read_yaml\<close> is the parsed file, or its error.\<close>

definition config_path :: "string \<Rightarrow> string \<Rightarrow> string" where
  "config_path base configured =
     (if configured \<noteq> [] \<and> hd configured = CHR ''/'' then configured else base @ ''/'' @ configured)"

definition get_grouping_config ::
  "platform \<Rightarrow> reader \<Rightarrow> yaml_lib \<Rightarrow> (string \<Rightarrow> yaml result) \<Rightarrow> string \<Rightarrow> string \<Rightarrow> grouping_config option
     \<Rightarrow> grouping_config result \<times> grouping_config option" where
  "get_grouping_config P L Y read_yaml base configured cache =
     (case cache of
        Some c \<Rightarrow> (Inr c, cache)
      | None \<Rightarrow>
          (case rbind (read_yaml (config_path base configured)) (load_config P L Y) of
             Inl e \<Rightarrow> (Inl e, None)
           | Inr c \<Rightarrow> (Inr c, Some c)))"

text \<open>\<open>config/grouping.yaml\<close>.\<close>

definition yaml_rule :: "string \<Rightarrow> string \<Rightarrow> int \<Rightarrow> rat \<Rightarrow> string list \<Rightarrow> rat \<Rightarrow> yaml" where
  "yaml_rule i b t a ms w =
     YDict [(''id'', YStr i), (''enabled'', YBool True), (''blocking_keys'', YList [YStr b]),
       (''time_window_seconds'', YInt t), (''amount_tolerance'', YFloat a), (''match_keys'', YList (map YStr ms)),
       (''weight'', YFloat w)]"

definition grouping_yaml :: yaml where
  "grouping_yaml =
     YDict [(''similarity_threshold'', YFloat (fl (72 / 100))), (''candidate_cap'', YInt 500),
       (''time_tau_seconds'', YInt 10800), (''risk_aggregation'', YStr ''max''),
       (''weights'', YDict [(''time'', YFloat (fl (20 / 100))), (''amount'', YFloat (fl (20 / 100))),
          (''name'', YFloat (fl (20 / 100))), (''device'', YFloat (fl (15 / 100))), (''ip'', YFloat (fl (10 / 100))),
          (''typology'', YFloat (fl (15 / 100)))]),
       (''dispositions'', YList (map YStr
          [''No action'', ''Escalate'', ''Confirmed fraud'', ''Confirmed AML concern'', ''Duplicate''])),
       (''rules'', YList
          [yaml_rule ''same-txn-dispute'' ''account_ref'' 86400 0 [''account_ref'', ''amount'', ''counterparty_ref''] 1,
           yaml_rule ''same-customer-72h'' ''customer_ref'' 259200 1 [''customer_ref''] (fl (6 / 10)),
           yaml_rule ''card-testing-burst'' ''device_id'' 1800 (fl (10 / 100)) [''device_id'', ''amount_bucket''] (fl (8 / 10)),
           yaml_rule ''shared-ip-session'' ''ip_address'' 7200 1 [''ip_address'', ''session_id''] (fl (7 / 10)),
           yaml_rule ''same-counterparty-window'' ''counterparty_ref'' 604800 1 [''counterparty_ref''] (fl (5 / 10))])]"

section \<open>What a file says is what the engine gets\<close>

text \<open>A configuration written as a file: every field under its name.\<close>

definition rule_yaml :: "rule \<Rightarrow> yaml" where
  "rule_yaml r =
     YDict [(''id'', YStr (rule_id r)), (''enabled'', YBool (enabled r)),
       (''blocking_keys'', YList (map YStr (blocking_keys r))), (''time_window_seconds'', YInt (time_window_seconds r)),
       (''amount_tolerance'', YFloat (fl (amount_tolerance r))), (''match_keys'', YList (map YStr (match_keys r))),
       (''weight'', YFloat (weight r))]"

definition config_fields :: "grouping_config \<Rightarrow> (string \<times> yaml) list" where
  "config_fields c =
     (let w = weights c in
      [(''rules'', YList (map rule_yaml (rules c))),
       (''weights'', YDict [(''time'', YFloat (w_time w)), (''amount'', YFloat (w_amount w)), (''name'', YFloat (w_name w)),
          (''device'', YFloat (w_device w)), (''ip'', YFloat (w_ip w)), (''typology'', YFloat (w_typology w))]),
       (''similarity_threshold'', YFloat (similarity_threshold c)), (''candidate_cap'', YInt (candidate_cap c)),
       (''time_tau_seconds'', YInt (time_tau_seconds c)), (''dispositions'', YList (map YStr (dispositions c))),
       (''risk_aggregation'', YStr (risk_aggregation c))])"

text \<open>\<open>Decimal(str(float))\<close> gives back the decimal that was written, as \<open>repr\<close> promises for short ones.\<close>

definition reads_back :: "platform \<Rightarrow> reader \<Rightarrow> rat \<Rightarrow> bool" where
  "reads_back P L d \<longleftrightarrow> to_decimal L (float_repr P (fl d)) = Some d"

lemma str_tuple_YStr: "str_tuple Y (YList (map YStr xs)) = Inr xs"
  by (simp add: str_tuple_def o_def)

lemma rule_of_yaml:
  assumes "reads_back P L (amount_tolerance r)"
  shows "rule_of P L Y (rule_yaml r) = Inr r"
  using assms
  by (simp add: rule_of_def rule_yaml_def str_tuple_YStr decimal_of_float_def reads_back_def)

lemma rules_of_yaml:
  "\<forall>r \<in> set rs. reads_back P L (amount_tolerance r) \<Longrightarrow> rmap (rule_of P L Y) (map rule_yaml rs) = Inr rs"
  by (induction rs) (simp_all add: rule_of_yaml)

lemma feature_weights_of_yaml:
  "feature_weights_of (YDict [(''time'', YFloat t), (''amount'', YFloat a), (''name'', YFloat n), (''device'', YFloat d),
     (''ip'', YFloat i), (''typology'', YFloat y)])
   = Inr \<lparr> w_time = t, w_amount = a, w_name = n, w_device = d, w_ip = i, w_typology = y \<rparr>"
  by (simp add: feature_weights_of_def WEIGHT_NAMES_def Let_def)

lemma load_config_yaml:
  assumes "\<forall>r \<in> set (rules c). reads_back P L (amount_tolerance r)"
  shows "load_config P L Y (YDict (config_fields c)) = Inr c"
  using rules_of_yaml [OF assms, of Y]
  by (simp add: load_config_def config_fields_def Let_def feature_weights_of_yaml str_tuple_YStr)

lemma load_config_missing:
  assumes "\<forall>r \<in> set (rules c). reads_back P L (amount_tolerance r)" and "k \<in> fst ` set (config_fields c)"
  shows "load_config P L Y (YDict (filter (\<lambda>kv. fst kv \<noteq> k) (config_fields c))) = Inl KeyError"
proof -
  have "k \<in> {''rules'', ''weights'', ''similarity_threshold'', ''candidate_cap'', ''time_tau_seconds'', ''dispositions'',
      ''risk_aggregation''}"
    using assms(2) by (simp add: config_fields_def Let_def)
  then show ?thesis
    using rules_of_yaml [OF assms(1), of Y]
    by (elim insertE emptyE)
      (simp_all add: load_config_def config_fields_def Let_def feature_weights_of_yaml str_tuple_YStr)
qed

lemma grouping_yaml_rules:
  assumes "reads_back P L 0" and "reads_back P L 1" and "reads_back P L (1 / 10)"
  shows "rmap (rule_of P L Y)
      [yaml_rule ''same-txn-dispute'' ''account_ref'' 86400 0 [''account_ref'', ''amount'', ''counterparty_ref''] 1,
       yaml_rule ''same-customer-72h'' ''customer_ref'' 259200 1 [''customer_ref''] (fl (6 / 10)),
       yaml_rule ''card-testing-burst'' ''device_id'' 1800 (fl (10 / 100)) [''device_id'', ''amount_bucket''] (fl (8 / 10)),
       yaml_rule ''shared-ip-session'' ''ip_address'' 7200 1 [''ip_address'', ''session_id''] (fl (7 / 10)),
       yaml_rule ''same-counterparty-window'' ''counterparty_ref'' 604800 1 [''counterparty_ref''] (fl (5 / 10))]
    = Inr shipped_rules"
proof -
  have "map rule_yaml shipped_rules =
      [yaml_rule ''same-txn-dispute'' ''account_ref'' 86400 0 [''account_ref'', ''amount'', ''counterparty_ref''] 1,
       yaml_rule ''same-customer-72h'' ''customer_ref'' 259200 1 [''customer_ref''] (fl (6 / 10)),
       yaml_rule ''card-testing-burst'' ''device_id'' 1800 (fl (10 / 100)) [''device_id'', ''amount_bucket''] (fl (8 / 10)),
       yaml_rule ''shared-ip-session'' ''ip_address'' 7200 1 [''ip_address'', ''session_id''] (fl (7 / 10)),
       yaml_rule ''same-counterparty-window'' ''counterparty_ref'' 604800 1 [''counterparty_ref''] (fl (5 / 10))]"
    by (simp add: shipped_rules_def rule_yaml_def yaml_rule_def)
  moreover have "\<forall>r \<in> set shipped_rules. reads_back P L (amount_tolerance r)"
    using assms by (simp add: shipped_rules_def)
  ultimately show ?thesis using rules_of_yaml by metis
qed

lemma load_grouping_yaml:
  assumes "reads_back P L 0" and "reads_back P L 1" and "reads_back P L (1 / 10)"
  shows "load_config P L Y grouping_yaml = Inr shipped_config"
  by (simp only: load_config_def grouping_yaml_def yaml_item.simps map_of.simps fst_conv snd_conv)
    (simp add: grouping_yaml_rules [OF assms, simplified] feature_weights_of_yaml str_tuple_def
      shipped_config_def)

text \<open>C33: Configuration files say what they mean. The file that lists a configuration's values under their names is
  loaded as that configuration, whatever its values; \<open>config/grouping.yaml\<close> is loaded as the configuration that
  the theorems about the engine are stated for; and a file that lacks one of the top-level keys is refused.\<close>

theorem load_config_reads:
  assumes "\<forall>r \<in> set (rules c). reads_back P L (amount_tolerance r)"
    and "reads_back P L 0" and "reads_back P L 1" and "reads_back P L (1 / 10)"
  shows "load_config P L Y (YDict (config_fields c)) = Inr c
    \<and> load_config P L Y grouping_yaml = Inr shipped_config
    \<and> (\<forall>k \<in> fst ` set (config_fields c).
         load_config P L Y (YDict (filter (\<lambda>kv. fst kv \<noteq> k) (config_fields c))) = Inl KeyError)"
  using load_config_yaml [OF assms(1)] load_grouping_yaml [OF assms(2-4)] load_config_missing [OF assms(1)] by blast

definition tenth_platform :: platform where
  "tenth_platform = ratio_platform\<lparr> float_repr := (\<lambda>x. if x = fl (1 / 10) then cents_text 10 else ratio_text x) \<rparr>"

definition plain_yaml :: yaml_lib where
  "plain_yaml = \<lparr> str_of = (\<lambda>v. []), int_of_text = (\<lambda>s. None), float_of_text = (\<lambda>s. None) \<rparr>"

theorem load_config_reads_witness: "load_config tenth_platform plain_reader plain_yaml grouping_yaml = Inr shipped_config"
proof -
  have "fl (1 / 10) \<noteq> 1" by code_simp
  moreover have "to_decimal plain_reader (ratio_text 0) = Some 0" "to_decimal plain_reader (ratio_text 1) = Some 1"
    by code_simp+
  moreover have "to_decimal plain_reader (cents_text 10) = Some (1 / 10)"
    using plain_reader_laws by (simp add: reader_laws_def)
  ultimately have "reads_back tenth_platform plain_reader 0" "reads_back tenth_platform plain_reader 1"
    "reads_back tenth_platform plain_reader (1 / 10)"
    by (simp_all add: reads_back_def tenth_platform_def)
  then show ?thesis
    using load_config_reads [of shipped_config tenth_platform plain_reader plain_yaml]
    by (simp add: shipped_config_def shipped_rules_def)
qed

end
