(* ===== verification/Concurrency.thy ===== *)
theory Concurrency
  imports Service
begin

text \<open>
  Several \<open>POST /alerts\<close> of the same alert at the same time. The handler is cut at its waits on Redis and the
  database: the lookup in Redis, the transaction, the store in Redis. A client that has sent a request is in one of
  the phases between them, and the clients and the rest of the backend move in any order. The transaction is one
  step: its insert waits at the unique constraint for a transaction that inserts the same identity.
\<close>

section \<open>The handler in three steps\<close>

record ingest_request =
  rq_payload :: alert_in
  rq_header :: "string option"
  rq_api_key :: api_key

definition rq_key :: "ingest_request \<Rightarrow> string" where
  "rq_key r = compute_key (rq_header r) (rq_payload r) (k_id (rq_api_key r))"

datatype phase =
    Waiting
  | Missed
  | Committed alert_out bool
  | Answered "(nat \<times> alert_out) result"

definition check_step :: "platform \<Rightarrow> (alert_in \<Rightarrow> string) \<Rightarrow> bool \<Rightarrow> ingest_request \<Rightarrow> cache \<Rightarrow> phase" where
  "check_step P dump get_up r cache =
     (case idem_check get_up cache (rq_key r) of
        None \<Rightarrow> Missed
      | Some (body, fp) \<Rightarrow>
          Answered
            (if fp \<noteq> None \<and> fp \<noteq> Some (request_fingerprint P dump (rq_payload r))
             then Inl (HTTPException 409 ''idempotency_key_reuse'')
             else (case body of None \<Rightarrow> Inl (ValueError ''AlertOut'') | Some b \<Rightarrow> Inr (200, b))))"

definition ingest_step :: "env \<Rightarrow> ingest_request \<Rightarrow> state \<Rightarrow> phase \<times> state" where
  "ingest_step E r s =
     (case in_transaction (ingest_one E (rq_payload r) (rq_key r) (k_label (rq_api_key r)) (Some (k_id (rq_api_key r)))) s of
        (Inl e, t) \<Rightarrow> (Answered (Inl e), t)
      | (Inr (out, created), t) \<Rightarrow> (Committed out created, t))"

definition store_step :: "platform \<Rightarrow> (alert_in \<Rightarrow> string) \<Rightarrow> bool \<Rightarrow> ingest_request \<Rightarrow> alert_out \<Rightarrow> bool \<Rightarrow> cache \<Rightarrow> phase \<times> cache" where
  "store_step P dump set_up r out created cache =
     (if created
      then (Answered (Inr (201, out)), idem_store set_up cache (rq_key r) out (request_fingerprint P dump (rq_payload r)))
      else (Answered (Inr (200, out)), cache))"

text \<open>One after the other they are the handler.\<close>

lemma ingest_alert_steps:
  "ingest_alert E dump get_up set_up (rq_payload r) (rq_header r) (rq_api_key r) (cache, s) =
     (case check_step (env_platform E) dump get_up r cache of
        Answered a \<Rightarrow> (a, cache, s)
      | _ \<Rightarrow> (case ingest_step E r s of
          (Committed out created, t) \<Rightarrow>
            (case store_step (env_platform E) dump set_up r out created cache of (Answered a, cache') \<Rightarrow> (a, cache', t))
        | (Answered a, t) \<Rightarrow> (a, cache, t)))"
  by (simp add: ingest_alert_def check_step_def ingest_step_def store_step_def rq_key_def Let_def
      split: option.split prod.split sum.split)

section \<open>Interleavings\<close>

text \<open>The clients are numbered by the list of requests. Redis may drop the entries of their keys at any time (they
  expire) and change elsewhere; what else the backend does is any step of the service that does not insert the
  identity.\<close>

type_synonym ingest_config = "phase list \<times> cache \<times> state"

definition same_identity :: "alert_in \<Rightarrow> ingest_request \<Rightarrow> bool" where
  "same_identity p r \<longleftrightarrow>
     in_source_system (rq_payload r) = in_source_system p \<and> in_external_alert_id (rq_payload r) = in_external_alert_id p"

inductive race ::
  "platform \<Rightarrow> grouping_config \<Rightarrow> (alert_in \<Rightarrow> string) \<Rightarrow> alert_in \<Rightarrow> ingest_request list \<Rightarrow> ingest_config \<Rightarrow> ingest_config \<Rightarrow> bool"
  for P cfg dump p reqs where
  check: "i < length reqs \<Longrightarrow> phases ! i = Waiting \<Longrightarrow>
    race P cfg dump p reqs (phases, cache, s) (phases[i := check_step P dump get_up (reqs ! i) cache], cache, s)"
| transact: "i < length reqs \<Longrightarrow> phases ! i = Missed \<Longrightarrow> env_platform E = P \<Longrightarrow> env_config E = cfg \<Longrightarrow>
    ingest_step E (reqs ! i) s = (ph, t) \<Longrightarrow>
    race P cfg dump p reqs (phases, cache, s) (phases[i := ph], cache, t)"
| store: "i < length reqs \<Longrightarrow> phases ! i = Committed out created \<Longrightarrow>
    store_step P dump set_up (reqs ! i) out created cache = (ph, cache') \<Longrightarrow>
    race P cfg dump p reqs (phases, cache, s) (phases[i := ph], cache', s)"
| elsewhere: "served P cfg s t \<Longrightarrow> (stored_somewhere p t \<Longrightarrow> stored_somewhere p s) \<Longrightarrow>
    race P cfg dump p reqs (phases, cache, s) (phases, cache, t)"
| redis: "(\<And>r. r \<in> set reqs \<Longrightarrow>
      cache' (''idem:'' @ rq_key r) = None \<or> cache' (''idem:'' @ rq_key r) = cache (''idem:'' @ rq_key r)) \<Longrightarrow>
    race P cfg dump p reqs (phases, cache, s) (phases, cache', s)"

section \<open>What every interleaving keeps\<close>

fun created_phase :: "phase \<Rightarrow> bool" where
  "created_phase (Committed out created) = created"
| "created_phase (Answered (Inr (code, out))) = (code = 201)"
| "created_phase _ = False"

fun phase_out :: "phase \<Rightarrow> alert_out option" where
  "phase_out (Committed out created) = Some out"
| "phase_out (Answered (Inr (code, out))) = Some out"
| "phase_out _ = None"

definition holds_out :: "alert_in \<Rightarrow> state \<Rightarrow> alert_out \<Rightarrow> bool" where
  "holds_out p s out \<longleftrightarrow> stored_as p (ao_id out) s"

definition cached_ok :: "alert_in \<Rightarrow> ingest_request list \<Rightarrow> cache \<Rightarrow> state \<Rightarrow> bool" where
  "cached_ok p reqs cache s \<longleftrightarrow>
     (\<forall>r \<in> set reqs. cache (''idem:'' @ rq_key r) = None
        \<or> (\<exists>out fp. cache (''idem:'' @ rq_key r) = Some (Envelope (Some out) fp) \<and> holds_out p s out))"

fun race_inv :: "platform \<Rightarrow> grouping_config \<Rightarrow> alert_in \<Rightarrow> ingest_request list \<Rightarrow> ingest_config \<Rightarrow> bool" where
  "race_inv P cfg p reqs (phases, cache, s) \<longleftrightarrow>
     service_inv P cfg s \<and> length phases = length reqs
     \<and> (\<forall>ph \<in> set phases. \<forall>out. phase_out ph = Some out \<longrightarrow> holds_out p s out)
     \<and> cached_ok p reqs cache s
     \<and> length (filter created_phase phases) = (if stored_somewhere p s then 1 else 0)"

lemma filter_update:
  "i < length xs \<Longrightarrow>
    length (filter Q (xs[i := y])) + (if Q (xs ! i) then 1 else 0) = length (filter Q xs) + (if Q y then 1 else 0)"
proof (induction xs arbitrary: i)
  case (Cons x xs)
  then show ?case by (cases i) auto
qed simp

lemma filter_update_same:
  "i < length xs \<Longrightarrow> Q y = Q (xs ! i) \<Longrightarrow> length (filter Q (xs[i := y])) = length (filter Q xs)"
  using filter_update [of i xs Q y] by (simp split: if_splits)

lemma stored_as_mono: "prefix (alert_data s) (alert_data t) \<Longrightarrow> stored_as p i s \<Longrightarrow> stored_as p i t"
proof -
  assume pre: "prefix (alert_data s) (alert_data t)" and sto: "stored_as p i s"
  have eq: "stored_as p i u \<longleftrightarrow> (\<exists>(j, d, r) \<in> set (alert_data u). j = i \<and> identity d = (in_source_system p, in_external_alert_id p))" for u
    by (auto simp: stored_as_def alert_data_def)
  from sto set_mono_prefix [OF pre] show ?thesis unfolding eq by blast
qed

lemma past_stored: "past_kept s t \<Longrightarrow> stored_as p i s \<Longrightarrow> stored_as p i t"
  unfolding past_kept_def grows_def using stored_as_mono by blast

lemma past_holds: "past_kept s t \<Longrightarrow> holds_out p s out \<Longrightarrow> holds_out p t out"
  unfolding holds_out_def by (rule past_stored)

lemma past_somewhere: "past_kept s t \<Longrightarrow> stored_somewhere p s \<Longrightarrow> stored_somewhere p t"
  unfolding stored_somewhere_def using past_stored by blast

lemma past_cached: "past_kept s t \<Longrightarrow> cached_ok p reqs cache s \<Longrightarrow> cached_ok p reqs cache t"
  unfolding cached_ok_def using past_holds by blast

lemma stored_unique: "unique_identity s \<Longrightarrow> stored_as p i s \<Longrightarrow> stored_as p j s \<Longrightarrow> i = j"
  by (auto simp: stored_as_def unique_identity_def distinct_map inj_on_def)

lemma stored_as_identity: "same_identity p r \<Longrightarrow> stored_as (rq_payload r) i s = stored_as p i s"
  by (simp add: stored_as_def same_identity_def)

text \<open>One transaction: it creates the row exactly if there was none.\<close>

lemma ingest_step_outcome:
  assumes "ingest_step E r s = (ph, t)" and "service_inv (env_platform E) (env_config E) s" and "same_identity p r"
    and "0 \<le> in_amount (rq_payload r)"
  shows "service_inv (env_platform E) (env_config E) t" and "past_kept s t"
    and "phase_out ph = Some out \<Longrightarrow> holds_out p t out"
    and "created_phase ph \<longleftrightarrow> \<not> stored_somewhere p s \<and> stored_somewhere p t"
proof -
  let ?m = "ingest_one E (rq_payload r) (rq_key r) (k_label (rq_api_key r)) (Some (k_id (rq_api_key r)))"
  obtain q where run: "in_transaction ?m s = (q, t)" and ph: "ph = (case q of Inl e \<Rightarrow> Answered (Inl e) | Inr (out, created) \<Rightarrow> Committed out created)"
    using assms(1) by (auto simp: ingest_step_def split: prod.splits sum.splits)
  show good: "service_inv (env_platform E) (env_config E) t" "past_kept s t"
    using ingest_one_good [OF run assms(4)] assms(2) by (auto simp: good_step_def)
  have sys: "system_inv E s" "unique_identity t" using assms(2) good(1)
    by (simp_all add: service_inv_def system_inv_def)
  have "(\<forall>out. phase_out ph = Some out \<longrightarrow> holds_out p t out)
    \<and> (created_phase ph \<longleftrightarrow> \<not> stored_somewhere p s \<and> stored_somewhere p t)"
  proof (cases q)
    case (Inl e)
    with run have "same_tables s t" by (simp add: in_transaction_same_tables)
    then have "stored_somewhere p t = stored_somewhere p s"
      by (simp add: stored_somewhere_def stored_as_def same_tables_def)
    with Inl ph show ?thesis by simp
  next
    case (Inr oc)
    obtain out created where oc: "oc = (out, created)" by (cases oc)
    with run Inr have one: "?m s = (Inr (out, created), t)" by (simp add: in_transaction_Inr)
    note res = ingest_one_Inr [OF one sys(1) assms(4)]
    have sto: "stored_as p (ao_id out) t" using res(2) stored_as_identity [OF assms(3)] by simp
    have "stored_somewhere p s \<longleftrightarrow> \<not> created"
    proof (cases created)
      case True
      have "\<not> stored_as p i s" for i
      proof
        assume i: "stored_as p i s"
        from stored_unique [OF sys(2) past_stored [OF good(2) i] sto] have "i = ao_id out" .
        with i have "ao_id out \<in> a_id ` set (alerts s)" by (force simp: stored_as_def)
        with res(3) [OF True] show False by simp
      qed
      with True show ?thesis by (simp add: stored_somewhere_def)
    next
      case False
      with res(4) have "alerts s = alerts t" by (simp add: same_tables_def)
      with sto False show ?thesis by (auto simp: stored_somewhere_def stored_as_def)
    qed
    moreover have "stored_somewhere p t" using sto by (auto simp: stored_somewhere_def)
    ultimately show ?thesis using Inr oc ph sto by (simp add: holds_out_def)
  qed
  then show "phase_out ph = Some out \<Longrightarrow> holds_out p t out"
    "created_phase ph \<longleftrightarrow> \<not> stored_somewhere p s \<and> stored_somewhere p t" by blast+
qed

lemma check_step_outcome:
  assumes "cached_ok p reqs cache s" and "r \<in> set reqs"
  shows "\<not> created_phase (check_step P dump up r cache)"
    and "phase_out (check_step P dump up r cache) = Some out \<Longrightarrow> holds_out p s out"
proof -
  have "cache (''idem:'' @ rq_key r) = None \<or> (\<exists>b fp. cache (''idem:'' @ rq_key r) = Some (Envelope (Some b) fp) \<and> holds_out p s b)"
    using assms by (simp add: cached_ok_def)
  then consider (miss) "idem_check up cache (rq_key r) = None"
    | (hit) b fp where "idem_check up cache (rq_key r) = Some (Some b, fp)" "holds_out p s b"
    by (cases up) (auto simp: idem_check_def)
  then have "\<not> created_phase (check_step P dump up r cache)
    \<and> (phase_out (check_step P dump up r cache) = Some out \<longrightarrow> holds_out p s out)"
    by cases (auto simp: check_step_def)
  then show "\<not> created_phase (check_step P dump up r cache)"
    "phase_out (check_step P dump up r cache) = Some out \<Longrightarrow> holds_out p s out" by blast+
qed

lemma update_phases:
  assumes "\<forall>x \<in> set phases. \<forall>out. phase_out x = Some out \<longrightarrow> holds_out p s out"
    and "\<And>out. phase_out ph = Some out \<Longrightarrow> holds_out p s out"
  shows "\<forall>x \<in> set (phases[i := ph]). \<forall>out. phase_out x = Some out \<longrightarrow> holds_out p s out"
  using assms set_update_subset_insert [of phases i ph] by blast

lemma race_step:
  assumes "race P cfg dump p reqs c d" and "race_inv P cfg p reqs c"
    and reqs: "\<forall>r \<in> set reqs. same_identity p r \<and> 0 \<le> in_amount (rq_payload r)"
  shows "race_inv P cfg p reqs d"
  using assms(1,2)
proof (cases rule: race.cases)
  case (check i phases cache s up)
  let ?ph = "check_step P dump up (reqs ! i) cache"
  have inv: "race_inv P cfg p reqs (phases, cache, s)" using assms(2) check by simp
  then have i: "i < length phases" "cached_ok p reqs cache s" using check by simp_all
  note new = check_step_outcome [OF i(2) nth_mem [OF check(3)], of P dump up]
  have "length (filter created_phase (phases[i := ?ph])) = length (filter created_phase phases)"
    using filter_update_same [OF i(1), of created_phase ?ph] new(1) check(4) by simp
  moreover have "\<forall>x \<in> set (phases[i := ?ph]). \<forall>out. phase_out x = Some out \<longrightarrow> holds_out p s out"
    by (rule update_phases) (use inv new(2) in simp_all)
  ultimately show ?thesis using inv check(2) by simp
next
  case (transact i phases E s ph t cache)
  have inv: "race_inv P cfg p reqs (phases, cache, s)" using assms(2) transact by simp
  have r: "same_identity p (reqs ! i)" "0 \<le> in_amount (rq_payload (reqs ! i))"
    using reqs nth_mem [OF transact(3)] by blast+
  have sinv: "service_inv (env_platform E) (env_config E) s" using inv transact(5,6) by simp
  note out = ingest_step_outcome [OF transact(7) sinv r]
  have "\<forall>x \<in> set phases. \<forall>out. phase_out x = Some out \<longrightarrow> holds_out p t out"
    using inv past_holds [OF out(2)] by auto
  then have "\<forall>x \<in> set (phases[i := ph]). \<forall>out. phase_out x = Some out \<longrightarrow> holds_out p t out"
    by (rule update_phases) (rule out(3))
  moreover have "length (filter created_phase (phases[i := ph])) = (if stored_somewhere p t then 1 else 0)"
    using filter_update [of i phases created_phase ph] inv transact(3,4) out(4) past_somewhere [OF out(2)]
    by (auto split: if_splits)
  ultimately show ?thesis using inv transact(2,5,6) out(1) past_cached [OF out(2)] by simp
next
  case (store i phases out created up cache ph cache' s)
  have inv: "race_inv P cfg p reqs (phases, cache, s)" using assms(2) store by simp
  then have i: "i < length phases" "phases ! i \<in> set phases" using store(3) by simp_all
  then have out: "holds_out p s out" using inv store(4) by auto
  have "created_phase ph = created_phase (phases ! i)" "phase_out ph = Some out"
    using store(4,5) by (auto simp: store_step_def split: if_splits)
  moreover have "cached_ok p reqs cache' s"
    using inv store(5) out by (auto simp: store_step_def idem_store_def cached_ok_def split: if_splits)
  moreover from calculation have "\<forall>x \<in> set (phases[i := ph]). \<forall>out. phase_out x = Some out \<longrightarrow> holds_out p s out"
    using out inv by (intro update_phases) auto
  ultimately show ?thesis using inv store(2) filter_update_same [OF i(1), of created_phase ph] by simp
next
  case (elsewhere s t phases cache)
  have inv: "race_inv P cfg p reqs (phases, cache, s)" using assms(2) elsewhere by simp
  note good = served_good [OF elsewhere(3)]
  have kept: "service_inv P cfg t" "past_kept s t" using good inv by simp_all
  have "stored_somewhere p t = stored_somewhere p s" using elsewhere(4) past_somewhere [OF kept(2)] by blast
  then show ?thesis using inv elsewhere(2) kept(1) past_cached [OF kept(2)] past_holds [OF kept(2)] by auto
next
  case (redis cache' cache phases s)
  have inv: "race_inv P cfg p reqs (phases, cache, s)" using assms(2) redis by simp
  then have "cached_ok p reqs cache s" by simp
  then have "cached_ok p reqs cache' s" unfolding cached_ok_def using redis(3) by metis
  with inv redis(2) show ?thesis by simp
qed

section \<open>The race\<close>

lemma race_run:
  assumes "(race P cfg dump p reqs)\<^sup>*\<^sup>* c d" and "race_inv P cfg p reqs c"
    and "\<forall>r \<in> set reqs. same_identity p r \<and> 0 \<le> in_amount (rq_payload r)"
  shows "race_inv P cfg p reqs d"
  using assms(1,2) by (induction rule: rtranclp_induct) (blast intro: race_step [OF _ _ assms(3)])+

lemma race_inv_start:
  assumes "service_inv P cfg s" and "\<not> stored_somewhere p s" and "\<forall>r \<in> set reqs. cache (''idem:'' @ rq_key r) = None"
  shows "race_inv P cfg p reqs (replicate (length reqs) Waiting, cache, s)"
  using assms by (simp add: cached_ok_def)

text \<open>C23: Several clients post the same alert at the same time, with any headers and keys, while the rest of the backend
  goes on working and Redis answers, fails or forgets as it likes. In every interleaving at most one of them gets
  201, and one has or will get it as soon as the alert is stored; all clients that get an alert get the same one,
  and it is the stored row.\<close>

theorem ingest_race:
  assumes "(race P cfg dump p reqs)\<^sup>*\<^sup>* (replicate (length reqs) Waiting, cache, s) (phases, cache', t)"
    and "service_inv P cfg s" and "\<not> stored_somewhere p s"
    and "\<forall>r \<in> set reqs. same_identity p r \<and> valid_alert_in (rq_payload r) \<and> cache (''idem:'' @ rq_key r) = None"
  shows "length (filter created_phase phases) = (if stored_somewhere p t then 1 else 0)
    \<and> (\<forall>code out code' out'. Answered (Inr (code, out)) \<in> set phases \<longrightarrow> Answered (Inr (code', out')) \<in> set phases \<longrightarrow>
         ao_id out = ao_id out' \<and> stored_as p (ao_id out) t)
    \<and> service_inv P cfg t"
proof -
  have reqs: "\<forall>r \<in> set reqs. same_identity p r \<and> 0 \<le> in_amount (rq_payload r)"
    using assms(4) by (auto simp: valid_alert_in_def valid_amount_def)
  have inv: "race_inv P cfg p reqs (phases, cache', t)"
    by (rule race_run [OF assms(1) race_inv_start reqs]) (use assms(2-4) in simp_all)
  have out: "stored_as p (ao_id out) t" if "Answered (Inr (code, out)) \<in> set phases" for code out
    using inv that by (fastforce simp: holds_out_def)
  have "unique_identity t" using inv by (simp add: service_inv_def)
  then have "ao_id out = ao_id out'" if "Answered (Inr (code, out)) \<in> set phases" "Answered (Inr (code', out')) \<in> set phases"
    for code out code' out'
    using stored_unique out that by blast
  moreover have "length (filter created_phase phases) = (if stored_somewhere p t then 1 else 0)" "service_inv P cfg t"
    using inv by simp_all
  ultimately show ?thesis using out by blast
qed

section \<open>Two clients\<close>

definition sample_request :: ingest_request where
  "sample_request = \<lparr> rq_payload = sample_payload ''tm'' ''e1'', rq_header = None, rq_api_key = sample_key \<rparr>"

lemma sample_race:
  fixes dump :: "alert_in \<Rightarrow> string"
  defines "E \<equiv> hash_env (\<lambda>_. GENESIS_HASH)"
  shows "\<exists>out a cache' t. (race (env_platform E) (env_config E) dump (sample_payload ''tm'' ''e1'') [sample_request, sample_request])\<^sup>*\<^sup>*
       ([Waiting, Waiting], Map.empty, empty_state) ([Answered (Inr (201, out)), Answered (Inr (200, a))], cache', t)"
proof -
  let ?p = "sample_payload ''tm'' ''e1''" and ?r = sample_request
  let ?R = "race (env_platform E) (env_config E) dump ?p [?r, ?r]"
  obtain out c u where "ingest_alert E in_external_alert_id True True ?p None sample_key (Map.empty, empty_state) = (Inr (201, out), c, u)"
    using sample_created [OF genesis_fits, of "''tm''" "''e1''"] by (auto simp: fits_def E_def)
  note first = ingest_alert_Inr(1) [OF this]
  obtain a0 s1 where ins: "insert_alert_or_existing E ?p (compute_key None ?p (k_id sample_key)) empty_state = (Inr (a0, True), s1)"
    using first by (auto simp: ingest_one_def op_simps Let_def split: if_splits)
  from insert_Inr [OF ins] obtain n where n: "normalize_alert ?p = Inr n"
    "alert_fits (new_row E empty_state n (compute_key None ?p (k_id sample_key)))" by blast
  note one = ingest_one_Inr(1,2) [OF first system_inv_empty sample_amount]
  have "alert_fits (new_row E u n (compute_key None ?p (k_id sample_key)))"
    using n(2) by (simp add: alert_fits_def new_row_def Let_def)
  moreover have "unique_identity u" using one(1) by (simp add: system_inv_def)
  ultimately obtain a t where second: "ingest_one E ?p (compute_key None ?p (k_id sample_key)) (k_label sample_key) (Some (k_id sample_key)) u
      = (Inr (to_alert_out a, False), t)"
    using ingest_one_existing [OF n(1) _ _ one(2)] by blast
  have key: "rq_key ?r = compute_key None ?p (k_id sample_key)" "rq_payload ?r = ?p" "rq_api_key ?r = sample_key"
    by (simp_all add: rq_key_def sample_request_def)
  have steps: "ingest_step E ?r empty_state = (Committed out True, u)" "ingest_step E ?r u = (Committed (to_alert_out a) False, t)"
    by (simp_all add: ingest_step_def key in_transaction_def first second)
  let ?stored = "idem_store True Map.empty (rq_key ?r) out (request_fingerprint (env_platform E) dump ?p)"
  have r1: "?R ([Waiting, Waiting], Map.empty, empty_state) ([Missed, Waiting], Map.empty, empty_state)"
    using race.check [of 0 "[?r, ?r]" "[Waiting, Waiting]" "env_platform E" "env_config E" dump ?p Map.empty empty_state True]
    by (simp add: check_step_def idem_check_def)
  have r2: "?R ([Missed, Waiting], Map.empty, empty_state) ([Missed, Missed], Map.empty, empty_state)"
    using race.check [of 1 "[?r, ?r]" "[Missed, Waiting]" "env_platform E" "env_config E" dump ?p Map.empty empty_state True]
    by (simp add: check_step_def idem_check_def)
  have r3: "?R ([Missed, Missed], Map.empty, empty_state) ([Committed out True, Missed], Map.empty, u)"
    using race.transact [of 0 "[?r, ?r]" "[Missed, Missed]" E "env_platform E" "env_config E" empty_state "Committed out True" u dump ?p Map.empty]
      steps(1) by simp
  have r4: "?R ([Committed out True, Missed], Map.empty, u) ([Committed out True, Committed (to_alert_out a) False], Map.empty, t)"
    using race.transact [of 1 "[?r, ?r]" "[Committed out True, Missed]" E "env_platform E" "env_config E" u
      "Committed (to_alert_out a) False" t dump ?p Map.empty] steps(2) by simp
  have r5: "?R ([Committed out True, Committed (to_alert_out a) False], Map.empty, t)
      ([Answered (Inr (201, out)), Committed (to_alert_out a) False], ?stored, t)"
    using race.store [of 0 "[?r, ?r]" "[Committed out True, Committed (to_alert_out a) False]" out True "env_platform E" dump True Map.empty
      "Answered (Inr (201, out))" ?stored "env_config E" ?p t] by (simp add: store_step_def key)
  have r6: "?R ([Answered (Inr (201, out)), Committed (to_alert_out a) False], ?stored, t)
      ([Answered (Inr (201, out)), Answered (Inr (200, to_alert_out a))], ?stored, t)"
    using race.store [of 1 "[?r, ?r]" "[Answered (Inr (201, out)), Committed (to_alert_out a) False]" "to_alert_out a" False "env_platform E"
      dump True ?stored "Answered (Inr (200, to_alert_out a))" ?stored "env_config E" ?p t] by (simp add: store_step_def)
  from rtranclp.rtrancl_refl [of ?R, THEN rtranclp.rtrancl_into_rtrancl, OF r1, THEN rtranclp.rtrancl_into_rtrancl, OF r2,
    THEN rtranclp.rtrancl_into_rtrancl, OF r3, THEN rtranclp.rtrancl_into_rtrancl, OF r4,
    THEN rtranclp.rtrancl_into_rtrancl, OF r5, THEN rtranclp.rtrancl_into_rtrancl, OF r6]
  show ?thesis by blast
qed

theorem ingest_race_witness:
  "\<exists>(E :: env) out a cache' t. (race (env_platform E) (env_config E) in_external_alert_id (sample_payload ''tm'' ''e1'') [sample_request, sample_request])\<^sup>*\<^sup>*
       ([Waiting, Waiting], Map.empty, empty_state) ([Answered (Inr (201, out)), Answered (Inr (200, a))], cache', t)
     \<and> ao_id out = ao_id a \<and> stored_somewhere (sample_payload ''tm'' ''e1'') t"
proof -
  let ?E = "hash_env (\<lambda>_. GENESIS_HASH)"
  obtain out a cache' t where run: "(race (env_platform ?E) (env_config ?E) in_external_alert_id (sample_payload ''tm'' ''e1'') [sample_request, sample_request])\<^sup>*\<^sup>*
       ([Waiting, Waiting], Map.empty, empty_state) ([Answered (Inr (201, out)), Answered (Inr (200, a))], cache', t)"
    using sample_race by blast
  have start: "service_inv (env_platform ?E) (env_config ?E) empty_state" "\<not> stored_somewhere (sample_payload ''tm'' ''e1'') empty_state"
    by (rule fresh_service_inv) (simp_all add: fresh_database_def empty_state_def stored_somewhere_def stored_as_def)
  have reqs: "\<forall>r \<in> set [sample_request, sample_request]. same_identity (sample_payload ''tm'' ''e1'') r \<and> valid_alert_in (rq_payload r)
      \<and> Map.empty (''idem:'' @ rq_key r) = None"
    by (simp add: sample_request_def same_identity_def valid_sample_payload)
  have "replicate (length [sample_request, sample_request]) Waiting = [Waiting, Waiting]" by simp
  note race = ingest_race [OF run [folded this] start reqs]
  have "ao_id out = ao_id a \<and> stored_as (sample_payload ''tm'' ''e1'') (ao_id out) t"
    using race [THEN conjunct2, THEN conjunct1, rule_format, of 201 out 200 a] by force
  then have same: "ao_id out = ao_id a" "stored_somewhere (sample_payload ''tm'' ''e1'') t"
    unfolding stored_somewhere_def by blast+
  show ?thesis by (rule exI [of _ ?E], rule exI [of _ out], rule exI [of _ a], rule exI [of _ cache'], rule exI [of _ t])
    (rule conjI [OF run conjI [OF same]])
qed

end
