(* ===== verification/Supplies.thy ===== *)
theory Supplies
  imports Service
begin

text \<open>
  Ingestion and nothing else. Every primary key is a drawn UUID and every reference a number of the sequence, so that
  fresh draws never clash as long as \<open>uuid4\<close> does not repeat itself, and nobody has worked on a case; \<open>minted\<close> is that
  invariant and the ingest path keeps it. With it valid alerts with new identities are ingested without a failure.
\<close>

section \<open>Minted ids\<close>

definition minted :: "(nat \<Rightarrow> uuid) \<Rightarrow> state \<Rightarrow> bool" where
  "minted U s \<longleftrightarrow>
     a_id ` set (alerts s) \<subseteq> U ` {..<uuids s} \<and> c_id ` set (cases s) \<subseteq> U ` {..<uuids s}
     \<and> g_id ` set (groupings s) \<subseteq> U ` {..<uuids s} \<and> l_id ` set (links s) \<subseteq> U ` {..<uuids s}
     \<and> n_id ` set (case_notes s) \<subseteq> U ` {..<uuids s}
     \<and> c_human_ref ` set (cases s) \<subseteq> human_ref ` {..<human_ref_seq s} \<and> c_status ` set (cases s) \<subseteq> {''Open'', ''Merged''}"

definition known_case :: "(nat \<Rightarrow> uuid) \<Rightarrow> state \<Rightarrow> case_row \<Rightarrow> bool" where
  "known_case U s c \<longleftrightarrow> c_id c \<in> U ` {..<uuids s} \<and> c_human_ref c \<in> human_ref ` {..<human_ref_seq s}
     \<and> c_status c \<in> {''Open'', ''Merged''}"

lemma minted_known: "minted U s \<Longrightarrow> c \<in> set (cases s) \<Longrightarrow> known_case U s c"
  by (auto simp: minted_def known_case_def)

lemma known_mono: "known_case U s c \<Longrightarrow> uuids s \<le> uuids t \<Longrightarrow> human_ref_seq s \<le> human_ref_seq t \<Longrightarrow> known_case U t c"
  unfolding known_case_def by (auto intro: order_less_le_trans)

lemma minted_same_book:
  "same_book s t \<Longrightarrow> uuids t = uuids s \<Longrightarrow> human_ref_seq t = human_ref_seq s \<Longrightarrow> minted U t = minted U s"
  by (simp add: minted_def same_book_def)

lemma minted_later:
  assumes "minted U s" and "uuids s \<le> n" and "human_ref_seq s \<le> m"
  shows "minted U (s\<lparr> uuids := n, human_ref_seq := m \<rparr>)"
proof -
  have "X \<subseteq> U ` {..<uuids s} \<Longrightarrow> X \<subseteq> U ` {..<n}" for X
    by (erule order_trans) (use assms(2) in \<open>auto intro!: image_mono\<close>)
  moreover have "X \<subseteq> human_ref ` {..<human_ref_seq s} \<Longrightarrow> X \<subseteq> human_ref ` {..<m}" for X
    by (erule order_trans) (use assms(3) in \<open>auto intro!: image_mono\<close>)
  ultimately show ?thesis using assms(1) by (simp add: minted_def)
qed

lemma minted_draw: "minted U s \<Longrightarrow> uuids s \<le> n \<Longrightarrow> minted U (s\<lparr> uuids := n \<rparr>)"
  using minted_later [of U s n "human_ref_seq s"] by (simp add: minted_def)

lemma stored_subset: "set (stored E c rows) \<subseteq> insert (c\<lparr> c_updated_at := txn_now E \<rparr>) (set rows)"
  by (auto simp: stored_def set_update_where)

lemma minted_stored:
  assumes "minted U s" and "known_case U s c"
  shows "minted U (s\<lparr> cases := stored E c (cases s) \<rparr>)"
proof -
  have "f ` set (stored E c (cases s)) \<subseteq> X"
    if "f ` set (cases s) \<subseteq> X" "f c \<in> X" "f (c\<lparr> c_updated_at := txn_now E \<rparr>) = f c" for f :: "case_row \<Rightarrow> 'a" and X
    using stored_subset [of E c "cases s"] that by force
  note sub = this
  have "c_id ` set (stored E c (cases s)) \<subseteq> U ` {..<uuids s}"
    "c_human_ref ` set (stored E c (cases s)) \<subseteq> human_ref ` {..<human_ref_seq s}"
    "c_status ` set (stored E c (cases s)) \<subseteq> {''Open'', ''Merged''}"
    by (rule sub; use assms in \<open>simp add: minted_def known_case_def\<close>)+
  then show ?thesis using assms(1) by (simp add: minted_def)
qed

section \<open>The grouping transaction\<close>

text \<open>What each step does to the counters, beside keeping the ids minted.\<close>

lemma audit_minted:
  assumes "record_audit E k actor action tt tid reason before after s = (Inr e, t)" and "audit_inv (env_platform E) s"
  shows "minted U t = minted U s \<and> uuids t = uuids s \<and> human_ref_seq t = human_ref_seq s \<and> audit_inv (env_platform E) t"
  using record_audit_frame [OF assms] by (simp add: minted_def)

lemma flag_closed_minted:
  assumes "each (flag_closed E a) cs s = (Inr u, t)" and "audit_inv (env_platform E) s"
  shows "minted U t = minted U s \<and> uuids t = uuids s \<and> human_ref_seq t = human_ref_seq s"
  using assms
proof (induction cs arbitrary: s)
  case (Cons c cs)
  from Cons.prems(1) obtain s1 where one: "flag_closed E a c s = (Inr (), s1)"
    and rest: "each (flag_closed E a) cs s1 = (Inr u, t)" by (auto simp: op_simps)
  from one obtain e where r: "record_audit E (case_stream (c_id c)) None ''case.review_flagged'' ''case'' (c_id c)
       (Some (''new alert '' @ a_id a @ '' matched a closed case'')) None None s = (Inr e, s1)"
    by (auto simp: op_simps flag_closed_def)
  from audit_minted [OF r Cons.prems(2)] Cons.IH [OF rest] show ?case by simp
qed (simp add: op_simps)

lemma minted_absorb:
  assumes "minted U s" and "known_case U s l"
  shows "minted U (absorb E v l s)"
proof -
  let ?m = "move_contents (c_id l) (c_id v) s"
  have ids: "a_id ` set (alerts ?m) = a_id ` set (alerts s)" "g_id ` set (groupings ?m) = g_id ` set (groupings s)"
    "l_id ` set (links ?m) = l_id ` set (links s)" "n_id ` set (case_notes ?m) = n_id ` set (case_notes s)"
    unfolding image_set by (simp_all add: move_contents_def map_update_where)
  have "cases ?m = cases s" "uuids ?m = uuids s" "human_ref_seq ?m = human_ref_seq s" by (simp_all add: move_contents_def)
  with assms ids have "minted U ?m" "known_case U ?m (merged_row v l)" by (simp_all add: minted_def known_case_def)
  from minted_stored [OF this, of E] show ?thesis by (simp add: absorb_def move_contents_def)
qed

lemma merge_all_minted:
  assumes "each (merge_case E v) ls s = (Inr u, t)" and "audit_inv (env_platform E) s" and "minted U s"
    and "\<forall>l \<in> set ls. known_case U s l"
  shows "minted U t \<and> uuids t = uuids s \<and> human_ref_seq t = human_ref_seq s"
  using assms
proof (induction ls arbitrary: s)
  case (Cons l ls)
  let ?a = "absorb E v l s"
  from Cons.prems(1) obtain s1 where one: "merge_case E v l s = (Inr (), s1)"
    and rest: "each (merge_case E v) ls s1 = (Inr u, t)" by (auto simp: op_simps)
  from one obtain e where r: "record_audit E (case_stream (c_id l)) None ''case.merged'' ''case'' (c_id l) None
       (Some (JObj [(''status'', JStr (c_status l))]))
       (Some (JObj [(''status'', JStr ''Merged''), (''canonical_from_case_id'', JStr (c_id v))])) ?a = (Inr e, s1)"
    by (auto simp: op_simps merge_case_def absorb_def merged_row_def move_contents_def)
  have inv: "audit_inv (env_platform E) ?a" using Cons.prems(2) by (simp add: absorb_def)
  have "minted U ?a" "uuids ?a = uuids s" "human_ref_seq ?a = human_ref_seq s"
    using minted_absorb Cons.prems(3,4) by (simp_all add: absorb_def move_contents_def)
  with audit_minted [OF r inv] have s1: "minted U s1" "uuids s1 = uuids s" "human_ref_seq s1 = human_ref_seq s"
    "audit_inv (env_platform E) s1" by simp_all
  with Cons.prems(4) have "\<forall>k \<in> set ls. known_case U s1 k" by (simp add: known_case_def)
  from Cons.IH [OF rest s1(4,1) this] s1 show ?case by simp
qed (simp add: op_simps)

lemma create_minted:
  assumes "create_case E a s = (Inr c, t)" and "minted (new_uuid E) s"
  shows "minted (new_uuid E) t \<and> known_case (new_uuid E) t c \<and> uuids t = Suc (uuids s) \<and> human_ref_seq t = Suc (human_ref_seq s)"
proof -
  from create_case_Inr [OF assms(1)] have c: "c = fresh_case E (new_uuid E (uuids s)) (human_ref_seq s) a"
    and t: "t = s\<lparr> cases := cases s @ [c], human_ref_seq := Suc (human_ref_seq s), uuids := Suc (uuids s) \<rparr>" by blast+
  have k: "known_case (new_uuid E) t c" unfolding t known_case_def c fresh_case_simps by (simp add: lessThan_Suc)
  have "minted (new_uuid E) (s\<lparr> uuids := Suc (uuids s), human_ref_seq := Suc (human_ref_seq s) \<rparr>)"
    using minted_later [OF assms(2)] by simp
  with k have "minted (new_uuid E) t" unfolding minted_def known_case_def t by simp
  with k show ?thesis by (simp add: t)
qed

lemma choose_target_minted:
  assumes "choose_target E a os s = (Inr (v, created), t)" and "audit_inv (env_platform E) s" and "minted (new_uuid E) s"
    and "\<forall>c \<in> set os. known_case (new_uuid E) s c"
  shows "minted (new_uuid E) t \<and> known_case (new_uuid E) t v \<and> uuids s \<le> uuids t \<and> uuids t \<le> Suc (uuids s)
    \<and> human_ref_seq s \<le> human_ref_seq t \<and> human_ref_seq t \<le> Suc (human_ref_seq s)"
proof (cases os)
  case Nil
  with assms(1) have "create_case E a s = (Inr v, t)" by (auto simp: choose_target_def op_simps)
  from create_minted [OF this assms(3)] show ?thesis by simp
next
  case os_eq: (Cons c cs)
  show ?thesis
  proof (cases "cs = []")
    case True
    with os_eq assms show ?thesis by (auto simp: choose_target_def op_simps)
  next
    case False
    with os_eq assms(1) have v: "v = earliest c cs"
      and m: "each (merge_case E v) (filter (\<lambda>l. c_id l \<noteq> c_id v) os) s = (Inr (), t)"
      by (auto simp: choose_target_def op_simps Let_def split: if_splits)
    have "v \<in> set os" using earliest_least [of c cs] unfolding v os_eq by blast
    then have "known_case (new_uuid E) s v" using assms(4) by blast
    with merge_all_minted [OF m assms(2,3)] assms(4) show ?thesis by (simp add: known_case_def)
  qed
qed

lemma attach_minted:
  assumes "attach_alert E a v d n label s = (Inr g, t)" and "minted (new_uuid E) s"
  shows "minted (new_uuid E) t \<and> uuids t = uuids s + 2 \<and> human_ref_seq t = human_ref_seq s"
proof -
  let ?t = "(attached E a (c_id v) (new_uuid E (uuids s)) (new_uuid E (Suc (uuids s))) d n label s)\<lparr> uuids := Suc (Suc (uuids s)) \<rparr>"
  have t: "t = ?t" using attach_alert_Inr [OF assms(1)] by auto
  have "a_id ` set (alerts ?t) = a_id ` set (alerts s)" unfolding image_set by (simp add: attached_def map_update_where)
  moreover have "minted (new_uuid E) (s\<lparr> uuids := Suc (Suc (uuids s)) \<rparr>)"
    using minted_draw [OF assms(2)] by simp
  ultimately show ?thesis unfolding t by (simp add: minted_def attached_def lessThan_Suc)
qed

lemma apply_grouping_minted:
  assumes "apply_grouping E a label s = (Inr (w, g), t)" and "audit_inv (env_platform E) s" and "book_inv (env_config E) s"
    and "minted (new_uuid E) s"
  shows "minted (new_uuid E) t \<and> uuids s \<le> uuids t \<and> uuids t \<le> uuids s + 3
    \<and> human_ref_seq s \<le> human_ref_seq t \<and> human_ref_seq t \<le> Suc (human_ref_seq s)"
proof -
  from assms(1) obtain d ids s1 created v s2 s3 s4 e where
    fl: "each (flag_closed E a) (filter (\<lambda>c. c_status c = ''Closed'') (scanned E c_id (filter (\<lambda>c. c_id c \<in> set ids) (cases s))))
        (s\<lparr> ticks := Suc (ticks s), decisions_total := decisions_total s @ [d_method d] \<rparr>) = (Inr (), s1)"
    and ch: "choose_target E a (filter (\<lambda>c. c_status c \<notin> {''Merged'', ''Closed''}) (scanned E c_id (filter (\<lambda>c. c_id c \<in> set ids) (cases s)))) s1
      = (Inr (v, created), s2)"
    and at: "attach_alert E a v d (utcnow E (ticks s)) label s2 = (Inr g, s3)"
    and re: "refresh_case E created v s3 = (Inr w, s4)"
    and au: "record_audit E (case_stream (c_id w)) None ''case.alert_linked'' ''case'' (c_id w) None None
            (Some (JObj [(''alert_id'', JStr (a_id a)), (''method'', JStr (d_method d))])) s4 = (Inr e, t)"
    unfolding apply_grouping_def by (clarsimp simp: op_simps candidate_query_def Let_def)
  let ?s0 = "s\<lparr> ticks := Suc (ticks s), decisions_total := decisions_total s @ [d_method d] \<rparr>"
  have inv0: "audit_inv (env_platform E) ?s0" "minted (new_uuid E) ?s0" using assms(2,4) by (simp_all add: minted_def)
  note f1 = flag_closed_minted [OF fl inv0(1), of "new_uuid E"] and b1 = flag_closed_all [OF fl inv0(1)]
  have s1: "minted (new_uuid E) s1" "audit_inv (env_platform E) s1" "uuids s1 = uuids s" "human_ref_seq s1 = human_ref_seq s"
    "cases s1 = cases s" using f1 b1 inv0 by (simp_all add: same_book_def)
  let ?os = "filter (\<lambda>c. c_status c \<notin> {''Merged'', ''Closed''}) (scanned E c_id (filter (\<lambda>c. c_id c \<in> set ids) (cases s)))"
  have os: "\<forall>c \<in> set ?os. c \<in> set (cases s1) \<and> open_case c" "distinct ?os"
    using assms(3) by (auto simp: scanned_def s1(5) open_case_def book_upto_def keys_ok_def distinct_map)
  have "book_inv (env_config E) ?s0" using assms(3) same_book_inv [of s ?s0] by (simp add: same_book_def)
  then have "book_inv (env_config E) s1" using b1 same_book_inv by blast
  from choose_target_book [OF ch s1(2) this os] have inv2: "audit_inv (env_platform E) s2" by blast
  have "\<forall>c \<in> set ?os. known_case (new_uuid E) s1 c" using minted_known [OF s1(1)] os(1) by blast
  note s2 = choose_target_minted [OF ch s1(2,1) this]
  note s3 = attach_minted [OF at conjunct1 [OF s2]]
  from refresh_case_Inr [OF re] have w: "w = refreshed E s3 created v" and s4: "s4 = s3\<lparr> cases := stored E w (cases s3) \<rparr>" by blast+
  have "known_case (new_uuid E) s3 v" using s2 s3 known_mono [of "new_uuid E" s2 v s3] by simp
  then have "known_case (new_uuid E) s3 w" by (simp add: known_case_def w)
  with s3 have m4: "minted (new_uuid E) s4" by (simp add: s4 minted_stored)
  have "audit_inv (env_platform E) s3" using attach_alert_Inr [OF at] inv2 by (auto simp: attached_def)
  then have "audit_inv (env_platform E) s4" by (simp add: s4)
  from audit_minted [OF au this] m4 s1 s2 s3 show ?thesis by (simp add: s4)
qed

section \<open>An alert\<close>

lemma ingest_one_minted:
  assumes "ingest_one E p key label k s = (Inr (out, created), t)" and "system_inv E s" and "0 \<le> in_amount p"
    and "minted (new_uuid E) s"
  shows "minted (new_uuid E) t" and "uuids t \<le> uuids s + 4" and "human_ref_seq t \<le> Suc (human_ref_seq s)"
    and "created \<Longrightarrow> \<exists>n. normalize_alert p = Inr n
      \<and> map (\<lambda>x. identity (a_data x)) (alerts t) = map (\<lambda>x. identity (a_data x)) (alerts s) @ [identity n]
      \<and> map a_id (alerts t) = map a_id (alerts s) @ [ao_id out] \<and> users t = users s"
proof -
  from assms(1) obtain a s1 where ins: "insert_alert_or_existing E p key s = (Inr (a, created), s1)"
    by (auto simp: ingest_one_def op_simps Let_def split: if_splits)
  note inv1 = insert_system_inv(1) [OF ins assms(2,3)]
  from insert_Inr [OF ins] obtain n where n: "normalize_alert p = Inr n"
    and i: "if created then a = new_row E s n key \<and> s1 = s\<lparr> uuids := Suc (uuids s), alerts := alerts s @ [a] \<rparr>
        else s1 = s\<lparr> uuids := Suc (uuids s) \<rparr>" by (auto split: if_splits)
  have later: "minted (new_uuid E) (s\<lparr> uuids := Suc (uuids s) \<rparr>)" using minted_draw [OF assms(4)] by simp
  have m1: "minted (new_uuid E) s1" "human_ref_seq s1 = human_ref_seq s" "uuids s1 = Suc (uuids s)"
    using later i by (auto simp: minted_def lessThan_Suc split: if_splits)
  have all: "minted (new_uuid E) t \<and> uuids t \<le> uuids s + 4 \<and> human_ref_seq t \<le> Suc (human_ref_seq s)
    \<and> (created \<longrightarrow> (\<exists>n. normalize_alert p = Inr n
      \<and> map (\<lambda>x. identity (a_data x)) (alerts t) = map (\<lambda>x. identity (a_data x)) (alerts s) @ [identity n]
      \<and> map a_id (alerts t) = map a_id (alerts s) @ [ao_id out] \<and> users t = users s))"
  proof (cases created)
    case False
    with assms(1) ins have t: "t = s1\<lparr> ingested_duplicate := Suc (ingested_duplicate s1) \<rparr>"
      by (auto simp: ingest_one_def op_simps)
    with m1 False show ?thesis by (simp add: minted_def)
  next
    case True
    with assms(1) ins obtain c g s2 s3 where gr: "apply_grouping E a label s1 = (Inr (c, g), s2)"
      and au: "audit_ingested E (a\<lparr> a_case_id := Some (c_id c) \<rparr>) k label s2 = (Inr (), s3)"
      and t: "t = s3\<lparr> ingested_created := Suc (ingested_created s3) \<rparr>"
      and out: "ao_id out = a_id a"
      by (auto simp: ingest_one_def op_simps Let_def to_alert_out_def)
    have inv: "audit_inv (env_platform E) s1" "book_inv (env_config E) s1" using inv1 by (simp_all add: system_inv_def)
    note g = apply_grouping_minted [OF gr inv m1(1)] and sys = apply_grouping_system(1,2) [OF gr inv1]
    have inv2: "audit_inv (env_platform E) s2" using sys(1) by (simp add: system_inv_def)
    from au obtain e where r: "record_audit E (''alert:'' @ a_id (a\<lparr> a_case_id := Some (c_id c) \<rparr>)) (ingest_actor k label) ''alert.ingested''
        ''alert'' (a_id (a\<lparr> a_case_id := Some (c_id c) \<rparr>)) (Some (''api_key:'' @ label)) None
        (Some (audit_after (env_platform E) (a\<lparr> a_case_id := Some (c_id c) \<rparr>))) s2 = (Inr e, s3)"
      by (auto simp: audit_ingested_def op_simps)
    note f = record_audit_frame [OF r inv2]
    have "alert_data t = alert_data s1" using sys(2) f(2) by (simp add: t alert_data_def)
    moreover have "map (\<lambda>x. identity (a_data x)) (alerts u) = map (\<lambda>(i, d, r). identity d) (alert_data u)"
      "map a_id (alerts u) = map fst (alert_data u)" for u by (simp_all add: alert_data_def)
    ultimately have "map (\<lambda>x. identity (a_data x)) (alerts t) = map (\<lambda>x. identity (a_data x)) (alerts s1)"
      "map a_id (alerts t) = map a_id (alerts s1)" by simp_all
    moreover have "users t = users s"
      using history.safeD [OF history_ingestion(1) assms(1)] by (simp add: grows_def)
    moreover have "minted (new_uuid E) t = minted (new_uuid E) s3" by (simp add: t minted_def)
    then have "minted (new_uuid E) t" using g audit_minted [OF r inv2, of "new_uuid E"] by simp
    ultimately show ?thesis
      using True i n g m1(2,3) f(7,8) out by (auto simp: t new_row_def)
  qed
  then show "minted (new_uuid E) t" "uuids t \<le> uuids s + 4" "human_ref_seq t \<le> Suc (human_ref_seq s)"
    "created \<Longrightarrow> \<exists>n. normalize_alert p = Inr n
      \<and> map (\<lambda>x. identity (a_data x)) (alerts t) = map (\<lambda>x. identity (a_data x)) (alerts s) @ [identity n]
      \<and> map a_id (alerts t) = map a_id (alerts s) @ [ao_id out] \<and> users t = users s" by blast+
qed

section \<open>No clashes\<close>

text \<open>\<open>uuid4\<close> gives different ids of 36 characters for the first \<open>K\<close> draws; what the texts of an environment have
  to fit.\<close>

definition fresh_draws :: "(nat \<Rightarrow> uuid) \<Rightarrow> nat \<Rightarrow> bool" where
  "fresh_draws U K \<longleftrightarrow> inj_on U {..<K} \<and> (\<forall>k < K. fits 36 (U k))"

definition env_fits :: "env \<Rightarrow> bool" where
  "env_fits E \<longleftrightarrow>
     grouping_ok (env_config E) \<and> fits 64 (config_hash (env_platform E) (env_config E))
     \<and> (\<forall>r \<in> set (rules (env_config E)). CHR 0x00 \<notin> set (rule_id r)) \<and> fits_opt 255 (correlation E)"

lemma draw_new:
  assumes "fresh_draws U K" and "X \<subseteq> U ` {..<m}" and "m \<le> k" and "k < K"
  shows "U k \<notin> X"
proof
  assume "U k \<in> X"
  then obtain j where "j < m" "U j = U k" using assms(2) by auto
  moreover have "inj_on U {..<K}" using assms(1) by (simp add: fresh_draws_def)
  ultimately have "j = k" using assms(3,4) by (auto dest: inj_onD)
  with \<open>j < m\<close> assms(3) show False by simp
qed

lemma draw_fits:
  assumes "fresh_draws U K" and "f ` X \<subseteq> U ` {..<m}" and "m \<le> K" and "x \<in> X"
  shows "fits 36 (f x)"
proof -
  have "f x \<in> U ` {..<m}" using assms(2,4) by blast
  with assms(1,3) show ?thesis by (auto simp: fresh_draws_def)
qed

lemma ref_new: "X \<subseteq> human_ref ` {..<n} \<Longrightarrow> human_ref n \<notin> X"
  by (auto simp: human_ref_def base36_inject dest!: subsetD)

lemma minted_ready:
  assumes "minted (new_uuid E) s" and "fresh_draws (new_uuid E) K" and "uuids s + 4 \<le> K" and "human_ref_seq s < 2 ^ 63"
    and "env_fits E" and "fits 36 (k_id k)" and "fits 200 (k_label k)"
  shows "ingest_ready E k s"
proof -
  note m = assms(1) [unfolded minted_def]
  have new: "new_uuid E j \<notin> X" if "X \<subseteq> new_uuid E ` {..<uuids s}" "j \<in> {uuids s..<uuids s + 4}" for X j
    using draw_new [OF assms(2) that(1)] that(2) assms(3) by simp
  have fit: "fits 36 (new_uuid E j)" if "j \<in> {uuids s..<uuids s + 4}" for j
    using assms(2,3) that by (simp add: fresh_draws_def)
  have old: "\<forall>c \<in> set (cases s). fits 36 (c_id c)" "\<forall>a \<in> set (alerts s). fits 36 (a_id a)"
    using draw_fits [OF assms(2), of c_id "set (cases s)" "uuids s"] draw_fits [OF assms(2), of a_id "set (alerts s)" "uuids s"]
      m assms(3) by auto
  show ?thesis
    unfolding ingest_ready_def supplies_ok_def
    using m new fit old ref_new [of "c_human_ref ` set (cases s)"] assms(4-7) by (simp add: env_fits_def)
qed

lemma ingest_one_possible:
  assumes "system_inv E s" and "minted (new_uuid E) s" and "fresh_draws (new_uuid E) K" and "uuids s + 4 \<le> K"
    and "human_ref_seq s < 2 ^ 63" and "env_fits E" and "fits 200 label" and "valid_alert_in p" and "\<not> unfit E p key"
    and "(in_source_system p, in_external_alert_id p) \<notin> (\<lambda>x. identity (a_data x)) ` set (alerts s)"
  shows "\<exists>out t. ingest_one E p key label None s = (Inr (out, True), t)"
proof -
  let ?k = "\<lparr> k_id = [], k_label = label, k_hashed_key = [], k_scope = [], k_is_active = True \<rparr>"
  from normalize_alert_total [OF assms(8)] obtain n where n: "normalize_alert p = Inr n" ..
  have fit: "alert_fits (new_row E s n key)" using assms(9) n alert_fits_new_row [of E s n key empty_state] by (auto simp: unfit_def)
  have new: "identity n \<notin> (\<lambda>x. identity (a_data x)) ` set (alerts s)"
    using assms(10) by (simp only: normalize_alert_identity [OF n] not_False_eq_True)
  have "ingest_ready E ?k s" by (rule minted_ready [OF assms(2-6)]) (simp_all add: assms(7), simp add: fits_def)
  from ingest_one_runs [OF assms(1) n fit new _ this, of None] assms(8) show ?thesis
    by (simp add: valid_alert_in_def valid_amount_def)
qed

end
