(* ===== verification/SeedRows.thy ===== *)
theory SeedRows
  imports Synthetic IngestionOutcome
begin

text \<open>
  The generated rows against the database. \<open>brief\<close> bounds the texts of a row by widths that the columns of \<open>alerts\<close>
  have; every row of the generator is brief as long as its counts are at most a thousand, so that the alert made
  of it can be stored. \<open>alert_in_of_row\<close> is \<open>AlertIn(**row)\<close>.
\<close>

section \<open>Rows as alerts\<close>

definition alert_in_of_row :: "reader \<Rightarrow> row \<Rightarrow> alert_in result" where
  "alert_in_of_row L r =
     (if accepted_row L r
      then Inr \<lparr> in_external_alert_id = the (text_of r ''external_alert_id''), in_source_system = the (text_of r ''source_system''),
             in_event_time = \<lparr> dt_wall = the (from_iso L (the (text_of r ''event_time''))), dt_offset = Some 0 \<rparr>,
             in_amount = the (to_decimal L (the (text_of r ''amount''))), in_currency = the (text_of r ''currency''),
             in_direction = the (text_of r ''direction''), in_customer_ref = text_of r ''customer_ref'',
             in_account_ref = text_of r ''account_ref'', in_counterparty_ref = text_of r ''counterparty_ref'',
             in_merchant_name = text_of r ''merchant_name'', in_mcc = text_of r ''mcc'', in_device_id = text_of r ''device_id'',
             in_ip_address = text_of r ''ip_address'', in_session_id = text_of r ''session_id'',
             in_risk_score = (case map_of r ''risk_score'' of Some (Num n) \<Rightarrow> Some n | _ \<Rightarrow> None), in_rule_codes = [],
             in_typologies = (case map_of r ''typologies'' of Some (Texts ts) \<Rightarrow> ts | _ \<Rightarrow> []), in_raw_payload = JObj [],
             in_ground_truth_group_id = text_of r ''ground_truth_group_id'' \<rparr>
      else Inl (ValueError ''AlertIn''))"

lemma alert_in_of_accepted:
  assumes "accepted_row L r"
  shows "\<exists>p. alert_in_of_row L r = Inr p \<and> valid_alert_in p \<and> in_external_alert_id p = row_id r"
proof -
  have risk: "valid_risk_score n" if "map_of r ''risk_score'' = Some (Num n)" for n
    using assms map_of_SomeD [OF that] unfolding accepted_row_def by (fastforce simp: text_fields_def)
  from assms have "valid_amount (the (to_decimal L (the (text_of r ''amount''))))" "valid_currency (the (text_of r ''currency''))"
    "valid_direction (the (text_of r ''direction''))" unfolding accepted_row_def by fastforce+
  with assms risk show ?thesis
    by (auto simp: alert_in_of_row_def valid_alert_in_def row_id_def split: option.split cell.split)
qed

section \<open>Brief rows\<close>

definition width :: "string \<Rightarrow> nat" where
  "width k = (if k = ''currency'' then 3 else if k = ''mcc'' then 8 else if k = ''direction'' then 16 else 45)"

fun brief_cell :: "string \<times> cell \<Rightarrow> bool" where
  "brief_cell (k, Text t) \<longleftrightarrow> k \<in> {''event_time'', ''amount''} \<or> fits (width k) t"
| "brief_cell (k, Texts ts) \<longleftrightarrow> list_all (\<lambda>t. CHR 0x00 \<notin> set t) ts"
| "brief_cell (k, v) \<longleftrightarrow> True"

definition brief :: "row \<Rightarrow> bool" where
  "brief r \<longleftrightarrow> list_all brief_cell r"

lemma brief_text:
  assumes "brief r" and "text_of r k = Some t" and "k \<notin> {''event_time'', ''amount''}"
  shows "fits (width k) t"
proof -
  from assms(2) have "(k, Text t) \<in> set r" by (auto simp: text_of_def split: option.splits cell.splits dest: map_of_SomeD)
  with assms(1) have "brief_cell (k, Text t)" by (auto simp: brief_def list_all_iff)
  with assms(3) show ?thesis by simp
qed

lemma brief_opt: "brief r \<Longrightarrow> k \<notin> {''event_time'', ''amount''} \<Longrightarrow> fits_opt (width k) (text_of r k)"
  using brief_text by (cases "text_of r k") (auto simp: fits_opt_def)

lemma fits_wider: "fits m s \<Longrightarrow> m \<le> n \<Longrightarrow> fits n s"
  by (simp add: fits_def)

lemma fits_opt_wider: "fits_opt m v \<Longrightarrow> m \<le> n \<Longrightarrow> fits_opt n v"
  by (cases v) (auto simp: fits_opt_def intro: fits_wider)

text \<open>The normalised merchant name is no longer than the name.\<close>

lemma length_sub_runs: "length (sub_runs b s) \<le> length s"
  by (induction b s rule: sub_runs.induct) auto

lemma set_sub_runs: "set (sub_runs b s) \<subseteq> insert (CHR '' '') (set s)"
  by (induction b s rule: sub_runs.induct) auto

lemma py_strip_sub: "length (py_strip s) \<le> length s" "set (py_strip s) \<subseteq> set s"
proof -
  have "length (dropWhile P (rev (dropWhile P s))) \<le> length s" for P
    by (metis length_dropWhile_le length_rev order_trans)
  then show "length (py_strip s) \<le> length s" by (simp add: py_strip_def)
  have "set (dropWhile P (rev (dropWhile P s))) \<subseteq> set s" for P
    by (metis set_dropWhileD set_rev subsetI)
  then show "set (py_strip s) \<subseteq> set s" by (simp add: py_strip_def)
qed

lemma lower_char_NUL: "lower_char c = CHR 0x00 \<Longrightarrow> c = CHR 0x00"
proof -
  assume low: "lower_char c = CHR 0x00"
  show ?thesis
  proof (rule ccontr)
    assume "c \<noteq> CHR 0x00"
    with low have n: "65 \<le> (of_char c :: nat) \<and> (of_char c :: nat) \<le> 90 \<or> 192 \<le> (of_char c :: nat) \<and> (of_char c :: nat) \<le> 222"
      and eq: "char_of ((of_char c :: nat) + 32) = CHR 0x00"
      by (auto simp: lower_char_def Let_def split: if_splits)
    from eq have "of_char (char_of ((of_char c :: nat) + 32) :: char) = (0 :: nat)" by (simp only:) simp
    with n nat_dvd_not_less [of "of_char c + 32" 256] show False by (auto simp: of_char_of)
  qed
qed

lemma fits_normalized: "fits_opt n v \<Longrightarrow> fits_opt n (normalize_merchant_name v)"
proof (cases v)
  case (Some name)
  assume "fits_opt n v"
  then have name: "length name \<le> n" "CHR 0x00 \<notin> set name" by (simp_all add: Some fits_def)
  let ?s = "sub_runs False (py_lower name)"
  have "length (py_strip ?s) \<le> n"
    using py_strip_sub(1) [of ?s] length_sub_runs [of False "py_lower name"] name(1) by (simp add: py_lower_def)
  moreover have "CHR 0x00 \<notin> set (py_lower name)" by (metis (no_types, lifting) imageE list.set_map lower_char_NUL name(2) py_lower_def)
  then have "CHR 0x00 \<notin> set (py_strip ?s)"
    using py_strip_sub(2) [of ?s] set_sub_runs [of False "py_lower name"] by auto
  ultimately show ?thesis by (simp add: Some fits_def)
qed simp

text \<open>A brief row that the schema accepts is stored without a \<open>DataError\<close>, whatever the key up to 255 characters.\<close>

lemma brief_fits:
  assumes "brief r" and "alert_in_of_row L r = Inr p" and "fits 255 key"
  shows "\<not> unfit E p key"
proof
  assume "unfit E p key"
  then obtain n where n: "normalize_alert p = Inr n" and bad: "\<not> alert_fits (new_row E empty_state n key)"
    by (auto simp: unfit_def)
  have acc: "accepted_row L r" using assms(2) by (auto simp: alert_in_of_row_def split: if_splits)
  with alert_in_of_accepted assms(2) have val: "valid_amount (in_amount p)" "valid_currency (in_currency p)"
    by (fastforce simp: valid_alert_in_def)+
  have texts: "fits 45 (in_external_alert_id p)" "fits 45 (in_source_system p)" "fits 3 (in_currency p)" "fits 16 (in_direction p)"
    using assms(2) acc brief_text [OF assms(1)] by (force simp: alert_in_of_row_def accepted_row_def width_def)+
  note opt = brief_opt [OF assms(1)]
  have opts: "fits_opt 45 (in_customer_ref p)" "fits_opt 45 (in_account_ref p)" "fits_opt 45 (in_counterparty_ref p)"
    "fits_opt 45 (in_merchant_name p)" "fits_opt 8 (in_mcc p)" "fits_opt 45 (in_device_id p)" "fits_opt 45 (in_session_id p)"
    "fits_opt 45 (in_ip_address p)" "fits_opt 45 (in_ground_truth_group_id p)"
    using assms(2) acc opt [of "''customer_ref''"] opt [of "''account_ref''"] opt [of "''counterparty_ref''"]
      opt [of "''merchant_name''"] opt [of "''mcc''"] opt [of "''device_id''"] opt [of "''session_id''"]
      opt [of "''ip_address''"] opt [of "''ground_truth_group_id''"]
    by (auto simp: alert_in_of_row_def width_def)
  have tys: "list_all (\<lambda>t. CHR 0x00 \<notin> set t) (in_typologies p)"
  proof -
    have "list_all (\<lambda>t. CHR 0x00 \<notin> set t) ts" if "map_of r ''typologies'' = Some (Texts ts)" for ts
      using assms(1) map_of_SomeD [OF that] by (fastforce simp: brief_def list_all_iff)
    with assms(2) acc show ?thesis by (auto simp: alert_in_of_row_def split: option.split cell.split)
  qed
  have rest: "in_rule_codes p = []" "in_raw_payload p = JObj []" using assms(2) acc by (auto simp: alert_in_of_row_def)
  have "\<bar>in_amount p\<bar> < 10 ^ 14" using val(1) by (simp add: valid_amount_def)
  with texts opts tys rest fits_normalized [OF opts(4)] assms(3) n quantize4_exact [OF val(1)] valid_currency_upper [OF val(2)]
  have "alert_fits (new_row E empty_state n key)"
    by (auto simp: normalize_alert_def alert_fits_def new_row_def Let_def intro: fits_wider fits_opt_wider split: option.splits)
  with bad show False by simp
qed

section \<open>Every generated row is brief\<close>

lemma yields_both: "yields m Q \<Longrightarrow> yields m S \<Longrightarrow> yields m (\<lambda>x. Q x \<and> S x)"
  unfolding yields_def by (metis Inr_inject Pair_inject)

lemma fits_append: "fits m s \<Longrightarrow> fits n t \<Longrightarrow> m + n \<le> k \<Longrightarrow> fits k (s @ t)"
  by (simp add: fits_def)

lemma fits_nat_text: "n < 1000 \<Longrightarrow> fits 3 (nat_text n)"
proof -
  assume n: "n < 1000"
  have "length (nat_text n) \<le> 3"
    using n by (simp add: nat_text.simps [of n] nat_text.simps [of "n div 10"] nat_text.simps [of "n div 100"] flip: div_mult2_eq)
  moreover have "CHR 0x00 \<notin> set (nat_text n)" using digits_nat_text [of "CHR 0x00" n] by (auto simp: is_digit_def)
  ultimately show ?thesis by (simp add: fits_def)
qed

lemma fits_ipv4: "fits 45 (ipv4 n)"
proof -
  have oct: "fits 3 (octet k n)" for k unfolding octet_def by (rule fits_nat_text) (simp add: order_less_trans [OF mod_less_divisor])
  have "fits 45 (''10.'' @ octet 16 n @ ''.'' @ octet 8 n @ ''.'' @ octet 0 n)"
    using oct [of 16] oct [of 8] oct [of 0] by (simp add: fits_def)
  then show ?thesis by (simp add: ipv4_def)
qed

text \<open>The texts of the pools, and a pool text with a label behind it.\<close>

lemma pool_fits:
  "x \<in> set SOURCE_SYSTEMS \<Longrightarrow> fits 45 x" "x \<in> set CURRENCIES \<Longrightarrow> fits 3 x" "x \<in> set DIRECTIONS \<Longrightarrow> fits 16 x"
  "x \<in> set MERCHANTS \<Longrightarrow> fits 20 x" "x \<in> set MCCS \<Longrightarrow> fits 8 x" "x \<in> set TYPOLOGIES \<Longrightarrow> CHR 0x00 \<notin> set x"
  by (auto simp: SOURCE_SYSTEMS_def CURRENCIES_def DIRECTIONS_def MERCHANTS_def MCCS_def TYPOLOGIES_def fits_def)

lemma brief_dict:
  assumes "fits 45 ext" and "source \<in> set SOURCE_SYSTEMS" and "currency \<in> set CURRENCIES" and "direction \<in> set DIRECTIONS"
    and "fits 45 customer" and "fits 45 account" and "fits 45 counterparty" and "fits 45 merchant" and "mcc \<in> set MCCS"
    and "fits 45 device" and "fits 45 ip" and "fits 45 session" and "list_all (\<lambda>t. CHR 0x00 \<notin> set t) typologies" and "fits 45 g"
  shows "brief (alert_dict ext source time amount currency direction (customer, account, counterparty) merchant mcc
     (device, ip, session) risk typologies g)"
  using assms pool_fits(1) [OF assms(2)] pool_fits(2) [OF assms(3)] pool_fits(3) [OF assms(4)] pool_fits(5) [OF assms(9)]
  by (simp add: alert_dict_def prune_def brief_def width_def)

definition brief_cluster :: "nat \<Rightarrow> cluster \<Rightarrow> bool" where
  "brief_cluster i cl \<longleftrightarrow>
     fits 10 (cl_gid cl) \<and> fits 10 (cl_account cl) \<and> fits 10 (cl_counterparty cl) \<and> fits 10 (cl_customer cl)
     \<and> fits 30 (cl_merchant cl) \<and> cl_mcc cl \<in> set MCCS \<and> cl_currency cl \<in> set CURRENCIES
     \<and> cl_source cl \<in> set SOURCE_SYSTEMS \<and> list_all (\<lambda>t. CHR 0x00 \<notin> set t) (cl_typologies cl)
     \<and> fits 10 (cl_device cl) \<and> fits 10 (cl_session cl) \<and> fits 45 (cl_ip cl)"

lemma brief_label: "i < 1000 \<Longrightarrow> CHR 0x00 \<notin> set p \<Longrightarrow> length p + 3 \<le> n \<Longrightarrow> fits n (p @ nat_text i)"
  using fits_nat_text [of i] by (simp add: fits_def)

lemma brief_label2:
  "i < 1000 \<Longrightarrow> k < 1000 \<Longrightarrow> CHR 0x00 \<notin> set p \<Longrightarrow> CHR 0x00 \<notin> set q \<Longrightarrow> length p + length q + 6 \<le> n \<Longrightarrow>
    fits n (p @ nat_text i @ q @ nat_text k)"
  using fits_nat_text [of i] fits_nat_text [of k] by (simp add: fits_def)

lemma new_cluster_brief:
  assumes "rng_laws R" and "lo \<le> hi" and "i < 1000"
  shows "yields (new_cluster R lo hi i c) (\<lambda>cl. brief_cluster i cl)"
proof -
  have merchant: "fits 30 (x @ '' #'' @ nat_text i)" if "x \<in> set MERCHANTS" for x
    using pool_fits(4) [OF that] fits_nat_text [OF assms(3)] by (auto simp: fits_def)
  have labels: "fits 10 (''grp-'' @ nat_text i)" "fits 10 (''acct-c'' @ nat_text i)" "fits 10 (''cp-c'' @ nat_text i)"
    "fits 10 (''cust-c'' @ nat_text i)" "fits 10 (''dev-c'' @ nat_text i)" "fits 10 (''sess-c'' @ nat_text i)"
    by (rule brief_label [OF assms(3)]; simp)+
  show ?thesis
    unfolding new_cluster_def CLUSTER_TIME_WINDOW_HOURS_def fst_conv snd_conv
    by (intro draw_rules assms(1,2) yields_ret pools_nonempty)
      (use labels merchant fits_ipv4 [of c] pool_fits(6) in \<open>auto simp: brief_cluster_def\<close>)
qed

definition adds_brief :: "gen \<Rightarrow> gen \<Rightarrow> bool" where
  "adds_brief s t \<longleftrightarrow> (\<exists>r. g_rows t = g_rows s @ [r] \<and> brief r)"

lemma adds_brief_row: "brief r \<Longrightarrow> g_rows t = g_rows s @ [r] \<Longrightarrow> adds_brief s t"
  by (auto simp: adds_brief_def)

lemma member_brief:
  assumes "rng_laws R" and "reader_laws P L" and "cluster_of i c cl" and "brief_cluster i cl" and "i < 1000" and "k < 1000"
  shows "yields (member R P L i cl k s) (adds_brief s)"
proof -
  note cl = assms(3) [unfolded cluster_of_def] and b = assms(4) [unfolded brief_cluster_def]
  have offset: "yields (if k = 0 then draw_ret 0 else uniform R 0 (cl_window cl)) (\<lambda>x. True)"
    using cl yields_uniform [OF assms(1), of 0 "cl_window cl"] by (auto intro!: yields_ret elim!: yields_mono)
  have id: "fits 45 (cl_gid cl @ ''-a'' @ nat_text k)"
    using b brief_label [OF assms(6), of "''-a''" 5] by (auto intro: fits_append)
  have dev: "fits 45 (''dev-c'' @ nat_text i @ ''-m'' @ nat_text k)" "fits 45 (''sess-c'' @ nat_text i @ ''-m'' @ nat_text k)"
    by (rule brief_label2 [OF assms(5,6)]; simp)+
  have row: "brief (alert_dict (cl_gid cl @ ''-a'' @ nat_text k) (cl_source cl) time amount (cl_currency cl) direction
            (cl_customer cl, cl_account cl, cl_counterparty cl) (cl_merchant cl) (cl_mcc cl)
            (device, ip, session) risk (cl_typologies cl) (cl_gid cl))"
    if "direction \<in> set DIRECTIONS" "fits 45 device" "fits 45 ip" "fits 45 session" for time amount direction device ip session risk
    using b that id by (intro brief_dict) (auto intro: fits_wider)
  have shared: "fits 45 (cl_device cl)" "fits 45 (cl_session cl)" "fits 45 (cl_ip cl)" using b by (auto intro: fits_wider)
  have "yields (draw_bind (random R) (\<lambda>u. f u)) S" if "\<And>u. yields (f u) S" for f :: "rat \<Rightarrow> ('a, gen) draw" and S
    using that by (intro draw_rules assms)
  note any = this
  show ?thesis
    unfolding member_def Let_def
  proof (rule yields_bind [OF offset], rule yields_bind [OF member_amount_yields [OF assms(1,2)]])
    show "0 \<le> cl_amount cl" "cl_amount cl \<le> 10 ^ 6" using cl by auto
  qed (intro any draw_rules assms yields_ret adds_brief_row [OF row];
    use dev shared fits_ipv4 in \<open>auto simp: DIRECTIONS_def\<close>)
qed

lemma add_singleton_brief:
  assumes "rng_laws R" and "j < 1000"
  shows "yields (add_singleton R P j s) (adds_brief s)"
proof -
  have labels: "fits 45 (''sng-'' @ nat_text j @ ''-a0'')" "fits 45 (''sng-'' @ nat_text j)" "fits 45 (''cust-s'' @ nat_text j)"
    "fits 45 (''acct-s'' @ nat_text j)" "fits 45 (''cp-s'' @ nat_text j)" "fits 45 (''dev-s'' @ nat_text j)"
    "fits 45 (''sess-s'' @ nat_text j)"
    using fits_nat_text [OF assms(2)] by (auto simp: fits_def)
  have merchant: "fits 45 (x @ '' solo '' @ nat_text j)" if "x \<in> set MERCHANTS" for x
    using pool_fits(4) [OF that] fits_nat_text [OF assms(2)] by (auto simp: fits_def)
  have row: "brief (alert_dict (''sng-'' @ nat_text j @ ''-a0'') source time amount currency direction
            (''cust-s'' @ nat_text j, ''acct-s'' @ nat_text j, ''cp-s'' @ nat_text j) (merchant @ '' solo '' @ nat_text j) mcc
            (''dev-s'' @ nat_text j, ipv4 n, ''sess-s'' @ nat_text j) risk [typology] (''sng-'' @ nat_text j))"
    if "source \<in> set SOURCE_SYSTEMS" "currency \<in> set CURRENCIES" "direction \<in> set DIRECTIONS" "merchant \<in> set MERCHANTS"
      "mcc \<in> set MCCS" "typology \<in> set TYPOLOGIES" for source time amount currency direction merchant mcc n risk typology
    by (intro brief_dict labels that merchant fits_ipv4) (use pool_fits(6) [OF that(6)] in simp)
  show ?thesis
    unfolding add_singleton_def
    by (intro draw_rules assms(1) yields_ret adds_brief_row [OF row] pools_nonempty; simp add: lone_cents)
qed

lemma add_cluster_brief:
  assumes "rng_laws R" and "reader_laws P L" and "0 \<le> fst sizes" and "fst sizes \<le> snd sizes" and "snd sizes < 1000" and "i < 1000"
  shows "yields (add_cluster R P L sizes 0 i s)
    (\<lambda>s'. \<exists>rs. g_rows s' = g_rows s @ rs \<and> list_all brief rs \<and> int (length rs) \<le> snd sizes)"
proof -
  have none: "n_ambig 0 n = 0" for n by (simp add: n_ambig_def)
  show ?thesis
    unfolding add_cluster_def none Let_def
  proof (rule yields_bind [OF yields_both [OF new_cluster_yields [OF assms(1,4)] new_cluster_brief [OF assms(1,4,6)]]])
    fix cl assume cl: "(cluster_of i (g_ip_counter s) cl \<and> fst sizes \<le> cl_size cl \<and> cl_size cl \<le> snd sizes) \<and> brief_cluster i cl"
    let ?s = "s\<lparr> g_ip_counter := g_ip_counter s + 1, g_starts := g_starts s @ [cl_start cl], g_accounts := g_accounts s @ [cl_account cl] \<rparr>"
    define I where "I = (\<lambda>k (s1 :: gen). \<exists>rs. g_rows s1 = g_rows s @ rs \<and> list_all brief rs \<and> length rs = k)"
    have "yields (draw_fold (member R P L i cl) [0..<nat (cl_size cl)] ?s) (I (nat (cl_size cl)))"
    proof (rule yields_range)
      show "I 0 ?s" by (simp add: I_def)
      fix k s1 assume k: "k < nat (cl_size cl)" and "I k s1"
      then obtain rs where rs: "g_rows s1 = g_rows s @ rs" "list_all brief rs" "length rs = k" by (auto simp: I_def)
      have "k < 1000" using k cl assms(5) by linarith
      with cl have "yields (member R P L i cl k s1) (adds_brief s1)" using member_brief [OF assms(1,2) _ _ assms(6)] by blast
      then show "yields (member R P L i cl k s1) (I (Suc k))"
        by (rule yields_mono) (use rs in \<open>force simp: adds_brief_def I_def\<close>)
    qed
    moreover have "int (nat (cl_size cl)) \<le> snd sizes" using cl assms(3) by simp
    ultimately show "yields (draw_bind (draw_fold (member R P L i cl) [0..<nat (cl_size cl)] ?s) (\<lambda>s1.
        if (0 :: int) = 0 then draw_ret s1
        else draw_bind (draw_lift (share_device cl (g_rows s1))) (\<lambda>rows.
            draw_fold (hard_member R P L i cl) [0..<nat 0] (s1\<lparr> g_rows := rows \<rparr>))))
      (\<lambda>s'. \<exists>rs. g_rows s' = g_rows s @ rs \<and> list_all brief rs \<and> int (length rs) \<le> snd sizes)"
      by (elim yields_bind) (auto simp: I_def intro!: yields_ret)
  qed
qed

text \<open>The rows and their number.\<close>

lemma generate_brief:
  assumes "rng_laws R" and "reader_laws P L" and "0 \<le> fst sizes" and "fst sizes \<le> snd sizes" and "snd sizes < 1000"
    and "0 \<le> n" and "n \<le> 1000" and "0 \<le> m" and "m \<le> 1000"
  shows "yields (generate R P L n sizes m 0) (\<lambda>rows. list_all brief rows \<and> int (length rows) \<le> n * snd sizes + m)"
proof -
  define I where "I = (\<lambda>(b :: int) (s :: gen). list_all brief (g_rows s) \<and> int (length (g_rows s)) \<le> b)"
  have clusters: "yields (draw_fold (add_cluster R P L sizes 0) [0..<nat n] \<lparr> g_rows = [], g_ip_counter = 1, g_starts = [], g_accounts = [] \<rparr>)
      (I (int (nat n) * snd sizes))"
  proof (rule yields_range [where I = "\<lambda>i. I (int i * snd sizes)"])
    fix i s assume i: "i < nat n" and s: "I (int i * snd sizes) s"
    have "i < 1000" using i assms(7) by linarith
    from add_cluster_brief [OF assms(1-5) this] show "yields (add_cluster R P L sizes 0 i s) (I (int (Suc i) * snd sizes))"
      by (rule yields_mono) (use s in \<open>auto simp: I_def algebra_simps\<close>)
  qed (simp add: I_def)
  have singles: "yields (draw_fold (add_singleton R P) [0..<nat m] s) (I (b + int (nat m)))" if "I b s" for b s
  proof (rule yields_range [where I = "\<lambda>j. I (b + int j)"])
    fix j s1 assume j: "j < nat m" and s1: "I (b + int j) s1"
    have "j < 1000" using j assms(9) by linarith
    from add_singleton_brief [OF assms(1) this] show "yields (add_singleton R P j s1) (I (b + int (Suc j)))"
      by (rule yields_mono) (use s1 in \<open>auto simp: I_def adds_brief_def\<close>)
  qed (use that in simp)
  have none: "n_ambig 0 n = 0" by (simp add: n_ambig_def)
  show ?thesis
    unfolding generate_def none
  proof (rule yields_bind [OF clusters])
    fix s assume s: "I (int (nat n) * snd sizes) s"
    have "yields (draw_bind (draw_fold (add_singleton R P) [0..<nat m] s) (\<lambda>s3. shuffle R (g_rows s3)))
      (\<lambda>rows. list_all brief rows \<and> int (length rows) \<le> n * snd sizes + m)"
    proof (rule yields_bind [OF singles [OF s]])
      fix t assume t: "I (int (nat n) * snd sizes + int (nat m)) t"
      have "list_all brief rows \<and> int (length rows) \<le> n * snd sizes + m" if "mset rows = mset (g_rows t)" for rows
      proof -
        have "set rows = set (g_rows t)" "length rows = length (g_rows t)" using that by (rule mset_eq_setD, rule mset_eq_length)
        with t assms(6,8) show ?thesis by (simp add: I_def list_all_iff)
      qed
      then show "yields (shuffle R (g_rows t)) (\<lambda>rows. list_all brief rows \<and> int (length rows) \<le> n * snd sizes + m)"
        using yields_shuffle [OF assms(1), of "g_rows t"] by (auto elim!: yields_mono)
    qed
    then show "yields (draw_bind (draw_fold (add_decoy R P n) [0..<nat 0] s) (\<lambda>s2.
        draw_bind (draw_fold (add_singleton R P) [0..<nat m] s2) (\<lambda>s3. shuffle R (g_rows s3))))
      (\<lambda>rows. list_all brief rows \<and> int (length rows) \<le> n * snd sizes + m)" by simp
  qed
qed

end
