(* ===== verification/Seed.thy ===== *)
theory Seed
  imports Supplies SeedRows Migrations Auth
begin

text \<open>
  \<open>scripts/seed.py\<close>: the database brought to its demo state. The schema is migrated to the head, every table of the
  application truncated, three accounts and an ingest key are created, generated alerts go through \<open>ingest_one\<close>, and
  five cases are worked. Each commit ends a transaction, and each transaction has its own environment.
\<close>

section \<open>Migrating and truncating\<close>

text \<open>The database as the script sees it: the schema with its version, the rows, and the rows of \<open>api_keys\<close>, which the
  model of the service keeps apart. Rows of tables that the schema does not have count for nothing.\<close>

record seed_db =
  sd_database :: catalogue
  sd_state :: state
  sd_api_keys :: "api_key list"

definition APP_TABLES :: "string list" where
  "APP_TABLES =
     [''case_alert_links'', ''grouping_decisions'', ''notes'', ''audit_events'', ''audit_streams'', ''alerts'', ''cases'',
      ''user_roles'', ''api_keys'', ''users'']"

text \<open>The stored rows as the migrations see them, in the columns that a statement of theirs looks at.\<close>

definition rows_of_state :: "state \<Rightarrow> data" where
  "rows_of_state s = no_rows(
     ''alerts'' := map (\<lambda>a.
         [''id'' \<mapsto> a_id a, ''external_alert_id'' \<mapsto> na_external_alert_id (a_data a)]
           (''merchant_name_normalised'' := na_merchant_name_normalised (a_data a), ''customer_ref'' := na_customer_ref (a_data a),
            ''account_ref'' := na_account_ref (a_data a), ''case_id'' := a_case_id a)) (alerts s),
     ''cases'' := map (\<lambda>c. [''id'' \<mapsto> c_id c, ''human_ref'' \<mapsto> c_human_ref c]) (cases s),
     ''notes'' := map (\<lambda>n. [''id'' \<mapsto> n_id n, ''body'' \<mapsto> n_body n]) (case_notes s))"

text \<open>\<open>alembic upgrade head\<close> in a process of its own, with the rows that are there. It leaves them as they are.\<close>

definition run_migrations :: "(string \<Rightarrow> bool) \<Rightarrow> catalogue \<Rightarrow> state \<Rightarrow> catalogue result" where
  "run_migrations tsv v s =
     (case upgrade_head tsv (length versions) (v, rows_of_state s) of
        Some (Inr (w, _)) \<Rightarrow> Inr w
      | _ \<Rightarrow> Inl (RuntimeError ''alembic upgrade head failed''))"

text \<open>\<open>TRUNCATE ... CASCADE\<close> takes the tables that refer to a truncated one along; the fuel is the number of tables.\<close>

definition referring :: "database \<Rightarrow> string list \<Rightarrow> string list" where
  "referring db ts =
     filter (\<lambda>n. n \<notin> set ts)
       (map (\<lambda>r. t_name (rl_table r)) (filter (\<lambda>r. list_ex (\<lambda>t. list_ex (refers_to t) (t_constraints (rl_table r))) ts) (db_tables db)))"

fun cascade :: "nat \<Rightarrow> database \<Rightarrow> string list \<Rightarrow> string list" where
  "cascade 0 db ts = ts"
| "cascade (Suc n) db ts = (if referring db ts = [] then ts else cascade n db (ts @ referring db ts))"

definition clear_table :: "string \<Rightarrow> state \<Rightarrow> state" where
  "clear_table t s =
     (if t = ''case_alert_links'' then s\<lparr> links := [] \<rparr>
      else if t = ''grouping_decisions'' then s\<lparr> groupings := [] \<rparr>
      else if t = ''notes'' then s\<lparr> case_notes := [] \<rparr>
      else if t = ''audit_events'' then s\<lparr> events := [] \<rparr>
      else if t = ''audit_streams'' then s\<lparr> streams := [] \<rparr>
      else if t = ''alerts'' then s\<lparr> alerts := [] \<rparr>
      else if t = ''cases'' then s\<lparr> cases := [] \<rparr>
      else if t = ''user_roles'' then s\<lparr> users := map (\<lambda>u. u\<lparr> u_roles := [] \<rparr>) (users s) \<rparr>
      else if t = ''users'' then s\<lparr> users := [] \<rparr> else s)"

definition restart_sequence :: "string \<Rightarrow> state \<Rightarrow> state" where
  "restart_sequence q s =
     (if q = ''audit_events_id_seq'' then s\<lparr> event_id_seq := 1 \<rparr>
      else if q = ''case_human_ref_seq'' then s\<lparr> human_ref_seq := 1 \<rparr> else s)"

definition owned_by :: "string list \<Rightarrow> sequence \<Rightarrow> bool" where
  "owned_by ts q = (case sq_owner q of None \<Rightarrow> False | Some t \<Rightarrow> t \<in> set ts)"

definition truncate_all :: "seed_db \<Rightarrow> unit result \<times> seed_db" where
  "truncate_all d =
     (let db = snd (sd_database d); ts = cascade (length (db_tables db)) db APP_TABLES
      in if \<not> list_all (\<lambda>t. table_named db t \<noteq> None) APP_TABLES then (Inl (ProgrammingError ''TRUNCATE''), d)
         else if ''case_human_ref_seq'' \<notin> set (map sq_name (db_sequences db)) then (Inl (ProgrammingError ''ALTER SEQUENCE''), d)
         else (Inr (), d\<lparr>
           sd_state := restart_sequence ''case_human_ref_seq''
             (fold restart_sequence (map sq_name (filter (owned_by ts) (db_sequences db))) (fold clear_table ts (sd_state d))),
           sd_api_keys := (if ''api_keys'' \<in> set ts then [] else sd_api_keys d) \<rparr>))"

section \<open>Accounts and the key\<close>

definition SEED_USERS :: "(string \<times> string \<times> string) list" where
  "SEED_USERS =
     [(''admin@acms.example.com'', ''Seed Admin'', ''admin''), (''analyst@acms.example.com'', ''Seed Analyst'', ''analyst''),
      (''auditor@acms.example.com'', ''Seed Auditor'', ''readonly'')]"

definition ROLES :: "string list" where
  "ROLES = [''analyst'', ''admin'', ''readonly'']"

text \<open>A \<open>User\<close> with one \<open>UserRole\<close>, flushed: the limits of the columns, the unique columns and the check of the role.\<close>

definition insert_user :: "env \<Rightarrow> string \<Rightarrow> string \<Rightarrow> string \<Rightarrow> string \<Rightarrow> user_row op" where
  "insert_user E email display_name password_hash role =
     bind_op (uuid4 E) (\<lambda>i.
     bind_op (guard (fits 320 email \<and> fits 200 display_name \<and> fits 255 password_hash \<and> fits 32 role) DataError) (\<lambda>_.
     bind_op (read_state users) (\<lambda>us.
     bind_op (guard (i \<notin> u_id ` set us \<and> email \<notin> u_email ` set us \<and> role \<in> set ROLES) IntegrityError) (\<lambda>_.
       let u = \<lparr> u_id = i, u_email = email, u_display_name = display_name, u_password_hash = password_hash,
                 u_is_active = True, u_roles = [role] \<rparr>
       in bind_op (modify (\<lambda>s. s\<lparr> users := users s @ [u] \<rparr>)) (\<lambda>_. ret u)))))"

text \<open>The dict from the role to the user. \<open>hash_password n pw\<close> is the \<open>n\<close>th hash that argon2 makes, with a salt of its
  own.\<close>

fun insert_users :: "env \<Rightarrow> (nat \<Rightarrow> string \<Rightarrow> string) \<Rightarrow> nat \<Rightarrow> (string \<times> string \<times> string) list \<Rightarrow> (string \<times> user_row) list op" where
  "insert_users E hash_password n [] = ret []"
| "insert_users E hash_password n ((email, display_name, role) # us) =
     bind_op (insert_user E email display_name (hash_password n ''demo-pw'') role) (\<lambda>u.
     bind_op (insert_users E hash_password (Suc n) us) (\<lambda>created. ret ((role, u) # created)))"

definition create_users :: "env \<Rightarrow> (nat \<Rightarrow> string \<Rightarrow> string) \<Rightarrow> (string \<times> user_row) list op" where
  "create_users E hash_password = in_transaction (insert_users E hash_password 0 SEED_USERS)"

text \<open>\<open>secrets.token_urlsafe(32)\<close> is the argument \<open>raw\<close>.\<close>

definition generate_api_key :: "platform \<Rightarrow> string \<Rightarrow> string \<times> string" where
  "generate_api_key P raw = (raw, hash_api_key P raw)"

definition create_api_key :: "env \<Rightarrow> string \<Rightarrow> api_key list \<Rightarrow> (string \<times> api_key list) op" where
  "create_api_key E token keys =
     (let (raw, hashed) = generate_api_key (env_platform E) token
      in in_transaction (bind_op (uuid4 E) (\<lambda>i.
           bind_op (guard (fits 255 hashed) DataError) (\<lambda>_.
           bind_op (guard (i \<notin> k_id ` set keys) IntegrityError) (\<lambda>_.
           ret (raw, keys @ [\<lparr> k_id = i, k_label = ''seed-ingest'', k_hashed_key = hashed, k_scope = ''ingest'', k_is_active = True \<rparr>]))))))"

section \<open>Alerts and cases\<close>

fun ingest_rows :: "(nat \<Rightarrow> env) \<Rightarrow> reader \<Rightarrow> nat \<Rightarrow> row list \<Rightarrow> unit op" where
  "ingest_rows E L n [] = ret ()"
| "ingest_rows E L n (r # rs) =
     bind_op (lift_result (alert_in_of_row L r)) (\<lambda>p.
     bind_op (in_transaction (ingest_one (E n) p (''seed:'' @ row_id r) ''seed'' None)) (\<lambda>_.
     ingest_rows E L (Suc n) rs))"

definition ingest_alerts ::
  "(nat \<Rightarrow> env) \<Rightarrow> 'g rng \<Rightarrow> reader \<Rightarrow> 'g \<Rightarrow> nat op" where
  "ingest_alerts E R L seeded_rng =
     bind_op (lift_result (generate R (env_platform (E 0)) L 150 (2, 6) 200 0 seeded_rng)) (\<lambda>(rows, g).
     bind_op (ingest_rows E L 0 rows) (\<lambda>_. ret (length rows)))"

definition work_case :: "env \<Rightarrow> principal \<Rightarrow> uuid \<Rightarrow> unit op" where
  "work_case E actor case_id =
     bind_op (transition_case E case_id ''In Progress'' (Some ''Picked up during seed'') None actor None) (\<lambda>_.
     bind_op (add_note E case_id ''Seed walkthrough: reviewing linked alerts.'' actor) (\<lambda>_. ret ()))"

definition work_cases :: "env \<Rightarrow> user_row \<Rightarrow> nat op" where
  "work_cases E analyst =
     in_transaction
       (let actor = \<lparr> p_user_id = u_id analyst, p_email = u_email analyst, p_roles = [''analyst''] \<rparr>
        in bind_op (read_state (\<lambda>s. map c_id (take 5 (sort_key (\<lambda>c. (c_created_at c, c_id c))
               (filter (\<lambda>c. c_status c = ''Open'') (cases s)))))) (\<lambda>case_ids.
           bind_op (each (work_case E actor) case_ids) (\<lambda>_. ret (length case_ids))))"

section \<open>The script\<close>

text \<open>What is printed: users, key, rows generated, alerts and cases in the database, cases worked.\<close>

record summary =
  sm_users :: nat
  sm_key :: string
  sm_ingested :: nat
  sm_alerts :: nat
  sm_cases :: nat
  sm_worked :: nat

text \<open>The part after the key is committed: the alerts, the worked cases, the counts.\<close>

definition demo_data ::
  "(nat \<Rightarrow> env) \<Rightarrow> string \<Rightarrow> 'g rng \<Rightarrow> reader \<Rightarrow> 'g \<Rightarrow> (string \<times> user_row) list \<Rightarrow> summary op" where
  "demo_data E raw_key R L seeded_rng created =
     bind_op (ingest_alerts E R L seeded_rng) (\<lambda>n_alerts.
     bind_op (lift_result (case map_of created ''analyst'' of None \<Rightarrow> Inl KeyError | Some u \<Rightarrow> Inr u)) (\<lambda>analyst.
     bind_op (work_cases (E n_alerts) analyst) (\<lambda>n_worked.
     read_state (\<lambda>s. \<lparr> sm_users = length (users s), sm_key = raw_key, sm_ingested = n_alerts, sm_alerts = length (alerts s),
                      sm_cases = length (cases s), sm_worked = n_worked \<rparr>))))"

definition seed_main ::
  "(string \<Rightarrow> bool) \<Rightarrow> (nat \<Rightarrow> env) \<Rightarrow> (nat \<Rightarrow> string \<Rightarrow> string) \<Rightarrow> string \<Rightarrow> 'g rng \<Rightarrow> reader \<Rightarrow> 'g \<Rightarrow> seed_db \<Rightarrow> summary result \<times> seed_db" where
  "seed_main tsv E hash_password token R L seeded_rng d =
     (case run_migrations tsv (sd_database d) (sd_state d) of
        Inl e \<Rightarrow> (Inl e, d)
      | Inr v \<Rightarrow>
          (case truncate_all (d\<lparr> sd_database := v \<rparr>) of
             (Inl e, d1) \<Rightarrow> (Inl e, d1)
           | (Inr _, d1) \<Rightarrow>
               (case create_users (E 0) hash_password (sd_state d1) of
                  (Inl e, s) \<Rightarrow> (Inl e, d1\<lparr> sd_state := s \<rparr>)
                | (Inr created, s) \<Rightarrow>
                    (case create_api_key (E 1) token (sd_api_keys d1) s of
                       (Inl e, s1) \<Rightarrow> (Inl e, d1\<lparr> sd_state := s1 \<rparr>)
                     | (Inr (raw_key, keys), s1) \<Rightarrow>
                         (case demo_data (\<lambda>n. E (2 + n)) raw_key R L seeded_rng created s1 of
                            (r, s2) \<Rightarrow> (r, d1\<lparr> sd_state := s2, sd_api_keys := keys \<rparr>))))))"

section \<open>An empty database at the head\<close>

definition emptied :: "state \<Rightarrow> state" where
  "emptied s =
     s\<lparr> users := [], alerts := [], cases := [], links := [], case_notes := [], groupings := [], streams := [], events := [],
        human_ref_seq := 1, event_id_seq := 1 \<rparr>"

abbreviation migratable :: "(string \<Rightarrow> bool) \<Rightarrow> seed_db \<Rightarrow> bool" where
  "migratable tsv d \<equiv> ready tsv (snd (sd_database d)) (rows_of_state (sd_state d))"

lemma run_migrations_head:
  assumes "operate tsv' as fresh_server = (v, rows)"
  shows "run_migrations tsv v s =
    (if ready tsv (snd v) (rows_of_state s) then Inr (Some ''f1a2b3c4d5e6'', head_schema)
     else Inl (RuntimeError ''alembic upgrade head failed''))"
proof -
  from operate_deployed [OF assms] obtain n where n: "n \<le> 9" "v = deployed n" by blast
  then have v: "snd v = schema_at n" by (simp add: deployed_def)
  show ?thesis
    using upgrade_head_deployed [OF n(1), of 9 tsv "rows_of_state s"]
    unfolding run_migrations_def length_versions n(2) [symmetric] v [symmetric] deployed_head
    by (auto split: if_splits)
qed

lemma head_tables:
  "list_all (\<lambda>t. table_named head_schema t \<noteq> None) APP_TABLES"
  "''case_human_ref_seq'' \<in> set (map sq_name (db_sequences head_schema))"
  "referring head_schema APP_TABLES = []"
  "map sq_name (filter (owned_by APP_TABLES) (db_sequences head_schema)) = [''audit_events_id_seq'']"
  by code_simp+

lemma cascade_head: "cascade n head_schema APP_TABLES = APP_TABLES"
  by (cases n) (simp_all add: head_tables)

lemma truncate_head:
  assumes "snd (sd_database d) = head_schema"
  shows "truncate_all d = (Inr (), d\<lparr> sd_state := emptied (sd_state d), sd_api_keys := [] \<rparr>)"
proof -
  have "fold clear_table APP_TABLES s = s\<lparr> users := [], alerts := [], cases := [], links := [], case_notes := [], groupings := [],
      streams := [], events := [] \<rparr>" for s
    by (simp add: APP_TABLES_def clear_table_def)
  moreover have "''api_keys'' \<in> set APP_TABLES" by (simp add: APP_TABLES_def)
  ultimately show ?thesis
    using head_tables
    by (simp add: truncate_all_def assms cascade_head Let_def restart_sequence_def emptied_def)
qed

section \<open>The first transactions\<close>

definition seed_accounts :: "(nat \<Rightarrow> uuid) \<Rightarrow> (nat \<Rightarrow> string \<Rightarrow> string) \<Rightarrow> nat \<Rightarrow> user_row list" where
  "seed_accounts U hash_password k =
     map (\<lambda>(j, email, display_name, role).
         \<lparr> u_id = U (k + j), u_email = email, u_display_name = display_name, u_password_hash = hash_password j ''demo-pw'',
           u_is_active = True, u_roles = [role] \<rparr>)
       (zip [0..<3] SEED_USERS)"

lemma draws_differ: "fresh_draws U K \<Longrightarrow> i < K \<Longrightarrow> j < K \<Longrightarrow> U i = U j \<longleftrightarrow> i = j"
  by (auto simp: fresh_draws_def dest: inj_onD)

lemma insert_user_runs:
  assumes "fits 320 email" and "fits 200 display_name" and "fits 255 h" and "fits 32 role" and "role \<in> set ROLES"
    and "new_uuid E (uuids s) \<notin> u_id ` set (users s)" and "email \<notin> u_email ` set (users s)"
  shows "insert_user E email display_name h role s =
    (let u = \<lparr> u_id = new_uuid E (uuids s), u_email = email, u_display_name = display_name, u_password_hash = h,
               u_is_active = True, u_roles = [role] \<rparr>
     in (Inr u, s\<lparr> uuids := Suc (uuids s), users := users s @ [u] \<rparr>))"
  using assms by (simp add: insert_user_def run_simps Let_def)

lemma create_users_runs:
  assumes "fresh_draws (new_uuid E) K" and "uuids s + 3 \<le> K" and "users s = []" and "\<forall>j. fits 255 (h j ''demo-pw'')"
  shows "create_users E h s =
    (let us = seed_accounts (new_uuid E) h (uuids s)
     in (Inr (zip [''admin'', ''analyst'', ''readonly''] us), s\<lparr> uuids := uuids s + 3, users := us \<rparr>))"
proof -
  have diff: "new_uuid E (uuids s + i) = new_uuid E (uuids s + j) \<longleftrightarrow> i = j" if "i < 3" "j < 3" for i j
    using draws_differ [OF assms(1), of "uuids s + i" "uuids s + j"] that assms(2) by simp
  have "new_uuid E (Suc (uuids s)) \<noteq> new_uuid E (uuids s)" "new_uuid E (Suc (Suc (uuids s))) \<noteq> new_uuid E (uuids s)"
    "new_uuid E (Suc (Suc (uuids s))) \<noteq> new_uuid E (Suc (uuids s))"
    using diff [of 1 0] diff [of 2 0] diff [of 2 1] by simp_all
  note ids = this
  have texts: "fits 320 ''admin@acms.example.com''" "fits 320 ''analyst@acms.example.com''" "fits 320 ''auditor@acms.example.com''"
    "fits 200 ''Seed Admin''" "fits 200 ''Seed Analyst''" "fits 200 ''Seed Auditor''"
    "fits 32 ''admin''" "fits 32 ''analyst''" "fits 32 ''readonly''" by (simp_all add: fits_def)
  have three: "[0..<3] = [0, Suc 0, Suc (Suc 0)]" by code_simp
  have next3: "n + 3 = Suc (Suc (Suc n))" for n :: nat by simp
  show ?thesis
    by (simp add: create_users_def SEED_USERS_def in_transaction_def run_simps insert_user_runs assms(3,4) texts ids ROLES_def Let_def
        seed_accounts_def three next3)
qed

lemma create_api_key_runs:
  assumes "fits 255 (sha256 (env_platform E) token)"
  shows "create_api_key E token [] s =
    (Inr (token, [\<lparr> k_id = new_uuid E (uuids s), k_label = ''seed-ingest'', k_hashed_key = hash_api_key (env_platform E) token,
        k_scope = ''ingest'', k_is_active = True \<rparr>]), s\<lparr> uuids := Suc (uuids s) \<rparr>)"
  using assms by (simp add: create_api_key_def generate_api_key_def in_transaction_def run_simps hash_api_key_def)

section \<open>The alerts\<close>

definition seed_env :: "platform \<Rightarrow> grouping_config \<Rightarrow> (nat \<Rightarrow> uuid) \<Rightarrow> env \<Rightarrow> bool" where
  "seed_env P cfg U E \<longleftrightarrow> env_platform E = P \<and> env_config E = cfg \<and> new_uuid E = U \<and> env_fits E"

definition alert_ref :: "alert_row \<Rightarrow> string" where
  "alert_ref a = na_external_alert_id (a_data a)"

text \<open>What holds between two alerts.\<close>

definition ingested :: "platform \<Rightarrow> grouping_config \<Rightarrow> (nat \<Rightarrow> uuid) \<Rightarrow> state \<Rightarrow> bool" where
  "ingested P cfg U s \<longleftrightarrow>
     service_inv P cfg s \<and> minted U s \<and> case_notes s = [] \<and> (\<forall>x \<in> a_id ` set (alerts s). membership s x \<noteq> None)"

lemma refs_of_identities:
  "map alert_ref rows = map snd (map (\<lambda>x. identity (a_data x)) rows)"
  by (simp add: alert_ref_def identity_def)

lemma ingest_row_runs:
  assumes "seed_env P cfg U E" and "ingested P cfg U s" and "fresh_draws U K" and "uuids s + 4 \<le> K" and "human_ref_seq s < 2 ^ 63"
    and "accepted_row L r" and "brief r" and "row_id r \<notin> alert_ref ` set (alerts s)"
  shows "\<exists>p out t. alert_in_of_row L r = Inr p \<and> ingest_one E p (''seed:'' @ row_id r) ''seed'' None s = (Inr (out, True), t)
    \<and> ingested P cfg U t \<and> uuids t \<le> uuids s + 4 \<and> human_ref_seq t \<le> Suc (human_ref_seq s)
    \<and> map alert_ref (alerts t) = map alert_ref (alerts s) @ [row_id r] \<and> users t = users s"
proof -
  note E = assms(1) [unfolded seed_env_def] and s = assms(2) [unfolded ingested_def]
  have sys: "system_inv E s" using s E service_inv_system [of E P cfg s] by simp
  from alert_in_of_accepted [OF assms(6)] obtain p where p: "alert_in_of_row L r = Inr p" "valid_alert_in p"
    "in_external_alert_id p = row_id r" by blast
  have amt: "0 \<le> in_amount p" using p(2) by (simp add: valid_alert_in_def valid_amount_def)
  have "text_of r ''external_alert_id'' = Some (row_id r)" using assms(6) by (auto simp: accepted_row_def row_id_def)
  from brief_text [OF assms(7) this] have "fits 45 (row_id r)" by (simp add: width_def)
  then have "fits 255 (''seed:'' @ row_id r)" by (simp add: fits_def)
  with brief_fits [OF assms(7) p(1)] have fit: "\<not> unfit E p (''seed:'' @ row_id r)" by blast
  have new: "(in_source_system p, in_external_alert_id p) \<notin> (\<lambda>x. identity (a_data x)) ` set (alerts s)"
    using assms(8) p(3) by (force simp: identity_def alert_ref_def)
  have "fits 200 ''seed''" by (simp add: fits_def)
  with ingest_one_possible [OF sys _ _ assms(4,5) _ _ p(2) fit new, of "''seed''"] s E assms(3)
  obtain out t where run: "ingest_one E p (''seed:'' @ row_id r) ''seed'' None s = (Inr (out, True), t)" by auto
  have m: "minted (new_uuid E) s" using s E by simp
  note min = ingest_one_minted [OF run sys amt m] and one = ingest_one_Inr [OF run sys amt] and kept = ingest_one_kept [OF run sys amt]
  from min(4) [OF TrueI] obtain n where n: "normalize_alert p = Inr n"
    "map (\<lambda>x. identity (a_data x)) (alerts t) = map (\<lambda>x. identity (a_data x)) (alerts s) @ [identity n]"
    "map a_id (alerts t) = map a_id (alerts s) @ [ao_id out]" "users t = users s" by blast
  have refs: "map alert_ref (alerts t) = map alert_ref (alerts s) @ [row_id r]"
    unfolding refs_of_identities n(2) using normalize_alert_identity [OF n(1)] p(3) by simp
  have "map n_id (case_notes t) = map n_id (case_notes s)"
    using note_ids.safeD [OF note_ids_ingestion(1) run] by (simp add: same_note_ids_def)
  then have none: "case_notes t = []" using s by simp
  have "a_id ` set (alerts t) = insert (ao_id out) (a_id ` set (alerts s))"
    using arg_cong [OF n(3), of set] by simp
  moreover have "membership t (ao_id out) \<noteq> None" using one(3) [OF TrueI] by metis
  ultimately have "\<forall>x \<in> a_id ` set (alerts t). membership t x \<noteq> None" using s kept by (simp add: past_kept_def)
  moreover have "service_inv P cfg t" using one(1) none E service_inv_system [of E P cfg t] by simp
  ultimately have "ingested P cfg U t" using min(1) none E by (simp add: ingested_def)
  then show ?thesis using p(1) run min(2,3) refs n(4) by blast
qed

lemma ingest_rows_runs:
  assumes "\<forall>n. seed_env P cfg U (E n)" and "ingested P cfg U s" and "fresh_draws U K" and "uuids s + 4 * length rows \<le> K"
    and "human_ref_seq s + length rows \<le> 2 ^ 63" and "\<forall>r \<in> set rows. accepted_row L r" and "list_all brief rows"
    and "distinct (map alert_ref (alerts s) @ map row_id rows)"
  shows "\<exists>t. ingest_rows E L n rows s = (Inr (), t) \<and> ingested P cfg U t \<and> uuids t \<le> uuids s + 4 * length rows
    \<and> map alert_ref (alerts t) = map alert_ref (alerts s) @ map row_id rows \<and> users t = users s"
  using assms(2,4-8)
proof (induction rows arbitrary: s n)
  case (Cons r rs)
  have "row_id r \<notin> alert_ref ` set (alerts s)" using Cons.prems(6) by auto
  with ingest_row_runs [OF assms(1) [rule_format, of n] Cons.prems(1) assms(3), of L r] Cons.prems
  obtain p out s1 where one: "alert_in_of_row L r = Inr p" "ingest_one (E n) p (''seed:'' @ row_id r) ''seed'' None s = (Inr (out, True), s1)"
    and s1: "ingested P cfg U s1" "uuids s1 \<le> uuids s + 4" "human_ref_seq s1 \<le> Suc (human_ref_seq s)"
      "map alert_ref (alerts s1) = map alert_ref (alerts s) @ [row_id r]" "users s1 = users s"
    by fastforce
  have "uuids s1 + 4 * length rs \<le> K" "human_ref_seq s1 + length rs \<le> 2 ^ 63" "\<forall>r \<in> set rs. accepted_row L r" "list_all brief rs"
    "distinct (map alert_ref (alerts s1) @ map row_id rs)" using Cons.prems s1(2-4) by simp_all
  from Cons.IH [OF s1(1) this, of "Suc n"] obtain t where t: "ingest_rows E L (Suc n) rs s1 = (Inr (), t)" "ingested P cfg U t"
    "uuids t \<le> uuids s1 + 4 * length rs" "map alert_ref (alerts t) = map alert_ref (alerts s1) @ map row_id rs" "users t = users s1"
    by blast
  have "ingest_rows E L n (r # rs) s = (Inr (), t)"
    by (simp add: one t(1) lift_result_def in_transaction_def run_simps del: append_Cons)
  with t s1(2,4,5) show ?case by (intro exI [of _ t]) simp
qed (simp add: ret_def)

section \<open>The worked cases\<close>

definition worked :: "env \<Rightarrow> case_row \<Rightarrow> case_row" where
  "worked E c = c\<lparr> c_status := ''In Progress'', c_version := c_version c + 1, c_updated_at := txn_now E \<rparr>"

lemma open_move: "''In Progress'' \<in> set (reachable_from ''Open'')"
  by (simp add: reachable_from_cases)

lemma stored_worked:
  assumes "find_case s i = Some c" and "distinct (map c_id (cases s))" and "c_status c = ''Open''"
  shows "stored E (moved c ''In Progress'' None time) (cases s) = map (\<lambda>r. if c_id r = i then worked E r else r) (cases s)"
proof -
  note c = find_case_Some [OF assms(1)]
  have "r = c" if "r \<in> set (cases s)" "c_id r = i" for r
    using find_case_unique [OF assms(2) that(1)] that(2) assms(1) by simp
  then show ?thesis using c assms(3) by (auto simp: stored_def update_where_def moved_def worked_def)
qed

lemma transition_runs:
  assumes "system_inv E s" and "find_case s i = Some c" and "c_status c = ''Open''" and "request_fits E i actor"
    and "''analyst'' \<in> set (p_roles actor)" and "fits 2000 reason"
  shows "\<exists>c1 t. transition_case E i ''In Progress'' (Some reason) None actor None s = (Inr c1, t) \<and> system_inv E t
    \<and> membership t = membership s \<and> users t = users s \<and> alerts t = alerts s \<and> case_notes t = case_notes s
    \<and> cases t = map (\<lambda>r. if c_id r = i then worked E r else r) (cases s) \<and> uuids t = uuids s"
proof -
  have audit: "audit_inv (env_platform E) s" and ids: "distinct (map c_id (cases s))"
    using assms(1) by (simp_all add: system_inv_def book_defs)
  have "is_ok (fst (transition_case_endpoint E i ''In Progress'' (Some reason) None actor None s))"
    unfolding transition_endpoint_result [OF audit ids assms(4)]
    using assms open_move by (auto simp: transition_outcome_def is_ok_def)
  then obtain d t where ep: "transition_case_endpoint E i ''In Progress'' (Some reason) None actor None s = (Inr d, t)"
    by (cases "transition_case_endpoint E i ''In Progress'' (Some reason) None actor None s") (auto simp: is_ok_def)
  from transition_endpoint_Inr [OF ep] obtain c1 t1
    where "transition_case E i ''In Progress'' (Some reason) None actor None s = (Inr c1, t1)" "reload_case c1 t1 = (Inr d, t)" by blast
  then have run: "transition_case E i ''In Progress'' (Some reason) None actor None s = (Inr c1, t)" using reload_case_Inr by blast
  from transition_case_Inr [OF run audit] obtain c' time where c': "find_case s i = Some c'" "c1 = moved c' ''In Progress'' None time"
    "cases t = stored E c1 (cases s)" "case_notes t = case_notes s" "uuids t = uuids s"
    and log: "logged E s t i ''case.transitioned'' (Some (status_json (c_status c') (c_disposition c')))
      (Some (status_json (c_status c1) (c_disposition c1)))" by blast
  have "cases t = map (\<lambda>r. if c_id r = i then worked E r else r) (cases s)"
    using stored_worked [OF assms(2) ids assms(3)] c'(1-3) assms(2) by simp
  then show ?thesis using run transition_step [OF ep assms(1)] c'(4,5) log by (auto simp: logged_def)
qed

lemma add_note_runs:
  assumes "system_inv E s" and "distinct (map n_id (case_notes s))" and "find_case s i = Some c" and "c_status c \<noteq> ''Merged''"
    and "request_fits E i actor" and "''analyst'' \<in> set (p_roles actor)" and "p_user_id actor \<in> u_id ` set (users s)"
    and "new_uuid E (uuids s) \<notin> n_id ` set (case_notes s)" and "fits 36 (new_uuid E (uuids s))" and "CHR 0x00 \<notin> set body"
  shows "\<exists>t. add_note E i body actor s = (Inr (new_note E (new_uuid E (uuids s)) i actor body), t) \<and> system_inv E t
    \<and> membership t = membership s \<and> users t = users s \<and> alerts t = alerts s \<and> cases t = cases s
    \<and> case_notes t = case_notes s @ [new_note E (new_uuid E (uuids s)) i actor body] \<and> uuids t = Suc (uuids s)
    \<and> distinct (map n_id (case_notes t))"
proof -
  let ?n = "new_note E (new_uuid E (uuids s)) i actor body"
  let ?s = "s\<lparr> uuids := Suc (uuids s), case_notes := case_notes s @ [?n] \<rparr>"
  have audit: "audit_inv (env_platform E) s" using assms(1) by (simp add: system_inv_def)
  then have "audit_inv (env_platform E) ?s" by simp
  from record_audit_reason [OF this assms(5), of "''case.note_added''" "''note''" "new_uuid E (uuids s)" None None
      "Some (JObj [(''note_id'', JStr (new_uuid E (uuids s))), (''excerpt'', JStr (take 120 body))])"] assms(9)
  obtain e t where au: "record_audit E (case_stream i) (Some actor) ''case.note_added'' ''note'' (new_uuid E (uuids s)) None None
      (Some (JObj [(''note_id'', JStr (new_uuid E (uuids s))), (''excerpt'', JStr (take 120 body))])) ?s = (Inr e, t)"
    by (auto simp: fits_def)
  have run: "add_note E i body actor s = (Inr ?n, t)"
    using assms(3,4,7,8,10) au by (simp add: add_note_def run_simps Let_def new_note_def)
  then have "add_note_endpoint E i body actor s = (Inr ?n, t)"
    using assms(6) by (auto simp: add_note_endpoint_def in_transaction_def catch_op_def run_simps)
  from add_note_step [OF this assms(1)] add_note_Inr [OF run audit] assms(2) show ?thesis
    using run by (auto simp: logged_def)
qed

text \<open>Between two cases that are worked.\<close>

definition at_work :: "env \<Rightarrow> principal \<Rightarrow> state \<Rightarrow> bool" where
  "at_work E actor s \<longleftrightarrow>
     system_inv E s \<and> distinct (map n_id (case_notes s)) \<and> n_id ` set (case_notes s) \<subseteq> new_uuid E ` {..<uuids s}
     \<and> p_user_id actor \<in> u_id ` set (users s)"

definition work_done :: "env \<Rightarrow> principal \<Rightarrow> uuid list \<Rightarrow> state \<Rightarrow> state \<Rightarrow> bool" where
  "work_done E actor ids s t \<longleftrightarrow>
     membership t = membership s \<and> users t = users s \<and> alerts t = alerts s
     \<and> cases t = map (\<lambda>r. if c_id r \<in> set ids then worked E r else r) (cases s) \<and> uuids t = uuids s + length ids
     \<and> (\<exists>ns. case_notes t = case_notes s @ ns \<and> map n_case_id ns = ids \<and> (\<forall>n \<in> set ns. n_author_id n = p_user_id actor))"

lemma work_done_trans:
  assumes "work_done E actor ids s t" and "work_done E actor js t u" and "set ids \<inter> set js = {}"
  shows "work_done E actor (ids @ js) s u"
proof -
  obtain ns ms where "case_notes t = case_notes s @ ns" "map n_case_id ns = ids" "\<forall>n \<in> set ns. n_author_id n = p_user_id actor"
    "case_notes u = case_notes t @ ms" "map n_case_id ms = js" "\<forall>n \<in> set ms. n_author_id n = p_user_id actor"
    using assms(1,2) unfolding work_done_def by blast
  then have "\<exists>ns. case_notes u = case_notes s @ ns \<and> map n_case_id ns = ids @ js \<and> (\<forall>n \<in> set ns. n_author_id n = p_user_id actor)"
    by (intro exI [of _ "ns @ ms"]) auto
  moreover have "cases u = map (\<lambda>r. if c_id r \<in> set (ids @ js) then worked E r else r) (cases s)"
    using assms unfolding work_done_def by (auto simp: worked_def)
  ultimately show ?thesis using assms(1,2) unfolding work_done_def by simp
qed

lemma work_case_runs:
  assumes "at_work E actor s" and "fresh_draws (new_uuid E) K" and "uuids s < K" and "find_case s i = Some c" and "c_status c = ''Open''"
    and "request_fits E i actor" and "''analyst'' \<in> set (p_roles actor)"
  shows "\<exists>t. work_case E actor i s = (Inr (), t) \<and> at_work E actor t \<and> work_done E actor [i] s t"
proof -
  note s = assms(1) [unfolded at_work_def]
  have "fits 2000 ''Picked up during seed''" by (simp add: fits_def)
  from transition_runs [OF _ assms(4-7) this] s obtain c1 s1 where
    tr: "transition_case E i ''In Progress'' (Some ''Picked up during seed'') None actor None s = (Inr c1, s1)"
    and s1: "system_inv E s1" "membership s1 = membership s" "users s1 = users s" "alerts s1 = alerts s" "case_notes s1 = case_notes s"
      "cases s1 = map (\<lambda>r. if c_id r = i then worked E r else r) (cases s)" "uuids s1 = uuids s" by blast
  have ids: "distinct (map c_id (cases s1))" using s1(1) by (simp add: system_inv_def book_defs)
  have "worked E c \<in> set (cases s1)" "c_id (worked E c) = i" using find_case_Some [OF assms(4)] s1(6) by (auto simp: worked_def)
  with find_case_unique [OF ids] have find: "find_case s1 i = Some (worked E c)" by fastforce
  have new: "new_uuid E (uuids s1) \<notin> n_id ` set (case_notes s1)" "fits 36 (new_uuid E (uuids s1))"
    using draw_new [OF assms(2), of _ "uuids s" "uuids s"] s s1(5,7) assms(2,3) by (auto simp: fresh_draws_def)
  let ?n = "new_note E (new_uuid E (uuids s1)) i actor ''Seed walkthrough: reviewing linked alerts.''"
  have "distinct (map n_id (case_notes s1))" "c_status (worked E c) \<noteq> ''Merged''" "p_user_id actor \<in> u_id ` set (users s1)"
    "CHR 0x00 \<notin> set ''Seed walkthrough: reviewing linked alerts.''" using s s1(3,5) by (simp_all add: worked_def)
  from add_note_runs [OF s1(1) this(1) find this(2) assms(6,7) this(3) new this(4)] obtain t where
    nt: "add_note E i ''Seed walkthrough: reviewing linked alerts.'' actor s1 = (Inr ?n, t)"
    and t: "system_inv E t" "membership t = membership s1" "users t = users s1" "alerts t = alerts s1" "cases t = cases s1"
      "case_notes t = case_notes s1 @ [?n]" "uuids t = Suc (uuids s1)" "distinct (map n_id (case_notes t))" by blast
  have "work_case E actor i s = (Inr (), t)" by (simp add: work_case_def tr nt run_simps)
  moreover have "at_work E actor t" using s t s1 by (auto simp: at_work_def lessThan_Suc new_note_def)
  moreover have "work_done E actor [i] s t" using t s1 by (auto simp: work_done_def new_note_def)
  ultimately show ?thesis by blast
qed

lemma work_loop:
  assumes "at_work E actor s" and "fresh_draws (new_uuid E) K" and "uuids s + length ids \<le> K" and "distinct ids"
    and "\<forall>i \<in> set ids. request_fits E i actor \<and> (\<exists>c. find_case s i = Some c \<and> c_status c = ''Open'')"
    and "''analyst'' \<in> set (p_roles actor)"
  shows "\<exists>t. each (work_case E actor) ids s = (Inr (), t) \<and> at_work E actor t \<and> work_done E actor ids s t"
  using assms(1,3-5)
proof (induction ids arbitrary: s)
  case Nil
  have "work_done E actor [] s s" by (simp add: work_done_def)
  with Nil show ?case by (simp add: ret_def)
next
  case (Cons i js)
  from Cons.prems obtain c where "find_case s i = Some c" "c_status c = ''Open''" "request_fits E i actor" by auto
  with work_case_runs [OF Cons.prems(1) assms(2) _ this(1,2,3) assms(6)] Cons.prems(2) obtain s1 where
    one: "work_case E actor i s = (Inr (), s1)" and s1: "at_work E actor s1" "work_done E actor [i] s s1" by auto
  have "find_case s1 j = find_case s j" if "j \<noteq> i" for j
  proof -
    have "List.find (\<lambda>c. c_id c = j) (map (\<lambda>r. if c_id r = i then worked E r else r) rows) = List.find (\<lambda>c. c_id c = j) rows" for rows
      using that by (induction rows) (auto simp: worked_def)
    then show ?thesis using s1(2) by (simp add: find_case_def work_done_def)
  qed
  note same = this
  have "\<forall>j \<in> set js. request_fits E j actor \<and> (\<exists>c. find_case s1 j = Some c \<and> c_status c = ''Open'')"
  proof
    fix j assume j: "j \<in> set js"
    with Cons.prems(3) have "j \<noteq> i" by auto
    with same j Cons.prems(4) show "request_fits E j actor \<and> (\<exists>c. find_case s1 j = Some c \<and> c_status c = ''Open'')" by simp
  qed
  moreover have "uuids s1 + length js \<le> K" using s1(2) Cons.prems(2) by (simp add: work_done_def)
  ultimately obtain t where t: "each (work_case E actor) js s1 = (Inr (), t)" "at_work E actor t" "work_done E actor js s1 t"
    using Cons.IH [OF s1(1)] Cons.prems(3) by auto
  have "each (work_case E actor) (i # js) s = (Inr (), t)" by (simp add: one t(1) run_simps)
  moreover have "work_done E actor ([i] @ js) s t" by (rule work_done_trans [OF s1(2) t(3)]) (use Cons.prems(3) in simp)
  ultimately show ?case using t(2) by (intro exI [of _ t]) simp
qed

text \<open>The cases that are worked: the first five, oldest first.\<close>

definition walked :: "uuid \<Rightarrow> state \<Rightarrow> nat \<Rightarrow> bool" where
  "walked analyst s n \<longleftrightarrow>
     n = min 5 (length (filter (\<lambda>c. c_status c \<noteq> ''Merged'') (cases s)))
     \<and> length (case_notes s) = n \<and> distinct (map n_case_id (case_notes s))
     \<and> n_case_id ` set (case_notes s) = c_id ` {c \<in> set (cases s). c_status c = ''In Progress''}
     \<and> (\<forall>x \<in> set (case_notes s). n_author_id x = analyst)
     \<and> (\<forall>c \<in> set (cases s). c_status c \<in> {''Open'', ''In Progress'', ''Merged''})
     \<and> (\<forall>c \<in> set (cases s). \<forall>d \<in> set (cases s). c_status c = ''In Progress'' \<longrightarrow> c_status d = ''Open'' \<longrightarrow>
          (c_created_at c, c_id c) \<le> (c_created_at d, c_id d))"

lemma take_sorted:
  assumes "x \<in> set (take n (sort_key k xs))" and "y \<in> set xs" and "y \<notin> set (take n (sort_key k xs))"
  shows "k x \<le> k y"
proof -
  let ?ys = "sort_key k xs"
  have "sorted (map k (take n ?ys @ drop n ?ys))" by simp
  then have "\<forall>u \<in> set (take n ?ys). \<forall>v \<in> set (drop n ?ys). k u \<le> k v" unfolding map_append sorted_append by auto
  moreover have "set ?ys = set (take n ?ys) \<union> set (drop n ?ys)" by (metis append_take_drop_id set_append)
  then have "y \<in> set (drop n ?ys)" using assms(2,3) by auto
  ultimately show ?thesis using assms(1) by blast
qed

lemma work_done_walked:
  assumes "work_done E actor ids s t" and "case_notes s = []" and "\<forall>c \<in> set (cases s). c_status c \<in> {''Open'', ''Merged''}"
    and "distinct (map c_id (cases s))"
    and ids: "ids = map c_id (take 5 (sort_key (\<lambda>c. (c_created_at c, c_id c)) (filter (\<lambda>c. c_status c = ''Open'') (cases s))))"
  shows "walked (p_user_id actor) t (length ids)" and "distinct ids"
proof -
  let ?k = "\<lambda>c. (c_created_at c, c_id c)"
  define os where "os = filter (\<lambda>c. c_status c = ''Open'') (cases s)"
  define ws where "ws = take 5 (sort_key ?k os)"
  note wd = assms(1) [unfolded work_done_def]
  have ids': "ids = map c_id ws" by (simp add: ids ws_def os_def)
  have inj: "inj_on c_id (set (cases s))" using assms(4) by (simp add: distinct_map)
  have ws: "set ws \<subseteq> set os" using set_take_subset [of 5 "sort_key ?k os"] by (simp add: ws_def)
  then have mem: "c_id c \<in> set ids \<longleftrightarrow> c \<in> set ws" if "c \<in> set (cases s)" for c
    using inj that unfolding ids' os_def by (auto simp: inj_on_def)
  have "distinct (map c_id (sort_key ?k os))"
    using assms(4) by (simp add: distinct_map os_def inj_on_subset [OF inj])
  then show dist: "distinct ids" using distinct_take unfolding ids' ws_def take_map [symmetric] by blast
  define f where "f = (\<lambda>r. if c_id r \<in> set ids then worked E r else r)"
  have cs: "cases t = map f (cases s)" using wd unfolding f_def by blast
  have f: "c_id (f r) = c_id r" "c_created_at (f r) = c_created_at r" for r by (simp_all add: f_def worked_def)
  have st: "c_status (f c) = (if c \<in> set ws then ''In Progress'' else c_status c)" if "c \<in> set (cases s)" for c
    using mem [OF that] by (simp add: f_def worked_def)
  have live: "c_status (f c) \<noteq> ''Merged'' \<longleftrightarrow> c_status c = ''Open''" if "c \<in> set (cases s)" for c
    using st [OF that] assms(3) that ws by (auto simp: os_def)
  have moving: "c_status (f c) = ''In Progress'' \<longleftrightarrow> c \<in> set ws" if "c \<in> set (cases s)" for c
    using st [OF that] assms(3) that by auto
  have "filter (\<lambda>c. c_status (f c) \<noteq> ''Merged'') (cases s) = os" unfolding os_def by (rule filter_cong [OF refl live])
  then have "length (filter (\<lambda>c. c_status c \<noteq> ''Merged'') (cases t)) = length os"
    by (simp only: cs filter_map length_map comp_def)
  moreover have "length ids = min 5 (length os)" by (simp add: ids' ws_def)
  ultimately have len: "length ids = min 5 (length (filter (\<lambda>c. c_status c \<noteq> ''Merged'') (cases t)))" by simp
  have "{c \<in> set (cases t). c_status c = ''In Progress''} = f ` set ws"
    using moving ws unfolding cs os_def by auto
  then have prog: "c_id ` {c \<in> set (cases t). c_status c = ''In Progress''} = set ids" by (simp add: image_image f ids')
  obtain ns where ns: "case_notes t = ns" "map n_case_id ns = ids" "\<forall>n \<in> set ns. n_author_id n = p_user_id actor"
    using wd assms(2) by auto
  have kept: "length (case_notes t) = length ids" "distinct (map n_case_id (case_notes t))" "n_case_id ` set (case_notes t) = set ids"
    using ns dist by (metis length_map, simp, metis set_map)
  have all: "\<forall>c \<in> set (cases t). c_status c \<in> {''Open'', ''In Progress'', ''Merged''}"
    using st assms(3) by (auto simp: cs)
  have first: "?k c \<le> ?k d" if "c \<in> set (cases t)" "d \<in> set (cases t)" "c_status c = ''In Progress''" "c_status d = ''Open''" for c d
  proof -
    from that obtain x y where x: "x \<in> set (cases s)" "c = f x" and y: "y \<in> set (cases s)" "d = f y" by (auto simp: cs)
    have "x \<in> set ws" using moving [OF x(1)] that(3) x(2) by simp
    moreover have "y \<in> set os" "y \<notin> set ws" using st [OF y(1)] that(4) y by (auto simp: os_def split: if_splits)
    ultimately have "?k x \<le> ?k y" unfolding ws_def by (rule take_sorted [where k = ?k])
    then show ?thesis by (simp only: x(2) y(2) f)
  qed
  show "walked (p_user_id actor) t (length ids)"
    unfolding walked_def using len kept prog all first ns by simp
qed

lemma work_cases_runs:
  assumes "ingested P cfg U s" and "seed_env P cfg U E" and "fresh_draws U K" and "uuids s + 5 \<le> K"
    and "u \<in> set (users s)" and "fits 36 (u_id u)"
  shows "\<exists>n t. work_cases E u s = (Inr n, t) \<and> service_inv P cfg t \<and> walked (u_id u) t n
    \<and> membership t = membership s \<and> users t = users s \<and> alerts t = alerts s"
proof -
  note s = assms(1) [unfolded ingested_def] and E = assms(2) [unfolded seed_env_def]
  let ?actor = "\<lparr> p_user_id = u_id u, p_email = u_email u, p_roles = [''analyst''] \<rparr>"
  let ?k = "\<lambda>c. (c_created_at c, c_id c)"
  define ids where "ids = map c_id (take 5 (sort_key ?k (filter (\<lambda>c. c_status c = ''Open'') (cases s))))"
  have sys: "system_inv E s" using s E service_inv_system [of E P cfg s] by simp
  then have dist: "distinct (map c_id (cases s))" by (simp add: system_inv_def book_defs)
  have start: "at_work E ?actor s" using sys s assms(5) by (simp add: at_work_def)
  have fit: "fits 36 (c_id c)" if "c \<in> set (cases s)" for c
    using draw_fits [OF assms(3), of c_id "set (cases s)" "uuids s" c] s assms(4) that by (simp add: minted_def)
  have "actor_roles_text (Some ?actor) = Some ''analyst''" by (simp add: actor_roles_text_def)
  then have ready: "request_fits E (c_id c) ?actor" if "c \<in> set (cases s)" for c
    using fit [OF that] assms(6) E by (simp add: request_fits_def env_fits_def) (simp add: fits_def case_stream_def)
  have sub: "set (take 5 (sort_key ?k (filter (\<lambda>c. c_status c = ''Open'') (cases s)))) \<subseteq> {c \<in> set (cases s). c_status c = ''Open''}"
    using set_take_subset [of 5 "sort_key ?k (filter (\<lambda>c. c_status c = ''Open'') (cases s))"] by auto
  have opens: "\<forall>i \<in> set ids. request_fits E i ?actor \<and> (\<exists>c. find_case s i = Some c \<and> c_status c = ''Open'')"
  proof
    fix i assume "i \<in> set ids"
    then obtain c where "c \<in> set (cases s)" "c_status c = ''Open''" "i = c_id c" using sub by (auto simp: ids_def)
    with ready find_case_unique [OF dist] show "request_fits E i ?actor \<and> (\<exists>c. find_case s i = Some c \<and> c_status c = ''Open'')" by blast
  qed
  have "distinct (map c_id (sort_key ?k (filter (\<lambda>c. c_status c = ''Open'') (cases s))))"
    using dist by (simp add: distinct_map inj_on_def)
  then have "distinct ids" using distinct_take unfolding ids_def take_map [symmetric] by blast
  moreover have "uuids s + length ids \<le> K" using assms(4) by (simp add: ids_def)
  ultimately obtain t where t: "each (work_case E ?actor) ids s = (Inr (), t)" "at_work E ?actor t" "work_done E ?actor ids s t"
    using work_loop [OF start _ _ _ opens, of K] E assms(3) by auto
  have "\<forall>c \<in> set (cases s). c_status c \<in> {''Open'', ''Merged''}" using s by (auto simp: minted_def)
  from work_done_walked(1) [OF t(3) _ this dist] s have "walked (u_id u) t (length ids)" by (simp add: ids_def)
  moreover have "work_cases E u s = (Inr (length ids), t)"
    by (simp add: work_cases_def in_transaction_def run_simps Let_def t(1) flip: ids_def)
  moreover have "service_inv P cfg t" using t(2) E service_inv_system [of E P cfg t] by (simp add: at_work_def)
  ultimately show ?thesis using t(3) by (auto simp: work_done_def)
qed

section \<open>The whole run\<close>

lemma demo_rows:
  assumes "rng_laws R" and "reader_laws P L"
  shows "\<exists>rows g'. generate R P L 150 (2, 6) 200 0 g = Inr (rows, g') \<and> (\<forall>r \<in> set rows. accepted_row L r)
    \<and> distinct (map row_id rows) \<and> list_all brief rows \<and> length rows \<le> 1100"
proof -
  have "yields (generate R P L 150 (2, 6) 200 0) (\<lambda>rows. ((\<forall>r \<in> set rows. accepted_row L r) \<and> distinct (map row_id rows))
      \<and> list_all brief rows \<and> int (length rows) \<le> 150 * snd (2 :: int, 6 :: int) + 200)"
    by (rule yields_both [OF generate_rows [OF assms] generate_brief [OF assms]]) simp_all
  from yieldsD [OF this, of g] show ?thesis by auto
qed

lemma demo_data_runs:
  assumes "\<forall>n. seed_env P cfg U (E n)" and "ingested P cfg U s" and "alerts s = []" and "human_ref_seq s = 1"
    and "fresh_draws U K" and "uuids s + 4405 \<le> K" and "rng_laws R" and "reader_laws P L"
    and "map_of created ''analyst'' = Some u" and "u \<in> set (users s)" and "fits 36 (u_id u)"
  shows "\<exists>sm t rows g'. demo_data E token R L g created s = (Inr sm, t) \<and> service_inv P cfg t \<and> walked (u_id u) t (sm_worked sm)
    \<and> generate R P L 150 (2, 6) 200 0 g = Inr (rows, g') \<and> map alert_ref (alerts t) = map row_id rows
    \<and> (\<forall>a \<in> set (alerts t). a_case_id a \<noteq> None) \<and> users t = users s \<and> sm_key sm = token
    \<and> sm_ingested sm = length rows \<and> sm_alerts sm = length rows \<and> sm_cases sm = length (cases t) \<and> sm_users sm = length (users s)"
proof -
  from demo_rows [OF assms(7,8), of g] obtain rows g' where gen: "generate R P L 150 (2, 6) 200 0 g = Inr (rows, g')"
    and rows: "\<forall>r \<in> set rows. accepted_row L r" "distinct (map row_id rows)" "list_all brief rows" "length rows \<le> 1100" by blast
  have P: "env_platform (E 0) = P" using assms(1) by (simp add: seed_env_def)
  from ingest_rows_runs [OF assms(1,2,5) _ _ rows(1,3), of 0] assms(3,4,6) rows(2,4)
  obtain s1 where one: "ingest_rows E L 0 rows s = (Inr (), s1)" and s1: "ingested P cfg U s1" "uuids s1 \<le> uuids s + 4 * length rows"
    "map alert_ref (alerts s1) = map row_id rows" "users s1 = users s" by auto
  have "uuids s1 + 5 \<le> K" using s1(2) rows(4) assms(6) by simp
  with work_cases_runs [OF s1(1) assms(1) [rule_format] assms(5), of u "length rows"] assms(10,11) s1(4)
  obtain n t where two: "work_cases (E (length rows)) u s1 = (Inr n, t)" and t: "service_inv P cfg t" "walked (u_id u) t n"
    "membership t = membership s1" "users t = users s1" "alerts t = alerts s1" by auto
  have "distinct (map a_id (alerts t))" using t(1) by (simp add: service_inv_def book_defs)
  then have "\<forall>a \<in> set (alerts t). a_case_id a \<noteq> None"
    using membership_row [of t] t(3,5) s1(1) by (fastforce simp: ingested_def)
  moreover have "length (alerts t) = length rows" using arg_cong [OF s1(3), of length] t(5) by simp
  moreover have "demo_data E token R L g created s = (Inr \<lparr> sm_users = length (users t), sm_key = token, sm_ingested = length rows,
      sm_alerts = length (alerts t), sm_cases = length (cases t), sm_worked = n \<rparr>, t)"
    by (simp add: demo_data_def ingest_alerts_def lift_result_def run_simps P gen one assms(9) two)
  ultimately show ?thesis using t s1 gen by (intro exI [of _ t] exI [of _ rows] exI) auto
qed

lemma seed_db_all:
  "(d :: seed_db)\<lparr> sd_database := v, sd_state := s, sd_api_keys := ks \<rparr> = \<lparr> sd_database = v, sd_state = s, sd_api_keys = ks \<rparr>"
  by (cases d) simp

lemma run_seed:
  assumes "operate tsv' as fresh_server = (sd_database d, rows)" and "migratable tsv d" and "\<forall>n. seed_env P cfg U (E n)"
    and "fresh_draws U K" and "uuids (sd_state d) + 3 \<le> K" and "\<forall>j. fits 255 (hash_password j ''demo-pw'')"
    and "fits 255 (sha256 P token)"
  defines "k \<equiv> uuids (sd_state d)"
  defines "us \<equiv> seed_accounts U hash_password k"
  shows "seed_main tsv E hash_password token R L g d =
    (case demo_data (\<lambda>n. E (2 + n)) token R L g (zip [''admin'', ''analyst'', ''readonly''] us)
        ((emptied (sd_state d))\<lparr> uuids := k + 4, users := us \<rparr>) of
       (r, t) \<Rightarrow> (r, \<lparr> sd_database = (Some ''f1a2b3c4d5e6'', head_schema), sd_state = t,
         sd_api_keys = [\<lparr> k_id = U (k + 3), k_label = ''seed-ingest'', k_hashed_key = hash_api_key P token, k_scope = ''ingest'',
           k_is_active = True \<rparr>] \<rparr>))"
proof -
  let ?d = "d\<lparr> sd_database := (Some ''f1a2b3c4d5e6'', head_schema) \<rparr>"
  have E: "new_uuid (E n) = U" "env_platform (E n) = P" for n using assms(3) by (simp_all add: seed_env_def)
  have empty: "uuids (emptied (sd_state d)) = k" "users (emptied (sd_state d)) = []" by (simp_all add: emptied_def k_def)
  have tr: "truncate_all ?d = (Inr (), ?d\<lparr> sd_state := emptied (sd_state d), sd_api_keys := [] \<rparr>)"
    using truncate_head [of ?d] by simp
  have cu: "create_users (E 0) hash_password (emptied (sd_state d)) =
      (Inr (zip [''admin'', ''analyst'', ''readonly''] us), (emptied (sd_state d))\<lparr> uuids := k + 3, users := us \<rparr>)"
    using create_users_runs [of "E 0" K "emptied (sd_state d)" hash_password] assms(4-6)
    by (simp add: E empty us_def k_def [symmetric] Let_def)
  have ck: "create_api_key (E 1) token [] ((emptied (sd_state d))\<lparr> uuids := k + 3, users := us \<rparr>) =
      (Inr (token, [\<lparr> k_id = U (k + 3), k_label = ''seed-ingest'', k_hashed_key = hash_api_key P token, k_scope = ''ingest'',
           k_is_active = True \<rparr>]), (emptied (sd_state d))\<lparr> uuids := k + 4, users := us \<rparr>)"
    using create_api_key_runs [of "E 1" token] assms(7) by (simp add: E)
  obtain r t where "demo_data (\<lambda>n. E (2 + n)) token R L g (zip [''admin'', ''analyst'', ''readonly''] us)
        ((emptied (sd_state d))\<lparr> uuids := k + 4, users := us \<rparr>) = (r, t)" by (rule prod.exhaust)
  then show ?thesis
    by (simp only: seed_main_def run_migrations_head [OF assms(1)] assms(2) if_True tr cu ck sum.case prod.case)
      (simp add: cu ck [unfolded One_nat_def] seed_db_all)
qed

text \<open>What the accounts and the key are good for.\<close>

lemma seed_accounts_simps:
  "map (\<lambda>u. (u_email u, u_roles u)) (seed_accounts U h k) =
     [(''admin@acms.example.com'', [''admin'']), (''analyst@acms.example.com'', [''analyst'']),
      (''auditor@acms.example.com'', [''readonly''])]"
  "length (seed_accounts U h k) = 3" "u_id (seed_accounts U h k ! 1) = U (k + 1)"
  "\<forall>u \<in> set (seed_accounts U h k). u_is_active u \<and> (\<exists>j. u_password_hash u = h j ''demo-pw'')"
proof -
  have three: "[0..<3] = [0, Suc 0, Suc (Suc 0)]" by code_simp
  show "map (\<lambda>u. (u_email u, u_roles u)) (seed_accounts U h k) =
     [(''admin@acms.example.com'', [''admin'']), (''analyst@acms.example.com'', [''analyst'']),
      (''auditor@acms.example.com'', [''readonly''])]"
    "length (seed_accounts U h k) = 3" "u_id (seed_accounts U h k ! 1) = U (k + 1)"
    "\<forall>u \<in> set (seed_accounts U h k). u_is_active u \<and> (\<exists>j. u_password_hash u = h j ''demo-pw'')"
    by (auto simp: seed_accounts_def SEED_USERS_def three)
qed

lemma seed_logins:
  assumes "users s = seed_accounts U h k" and "email \<in> fst ` set SEED_USERS" and "\<forall>j. verify_password lib ''demo-pw'' (h j ''demo-pw'')"
  shows "is_ok (fst (issue_token lib S E email ''demo-pw'' s))"
proof -
  have emails: "map u_email (users s) = [''admin@acms.example.com'', ''analyst@acms.example.com'', ''auditor@acms.example.com'']"
    using arg_cong [OF seed_accounts_simps(1) [of U h k], of "map fst"] by (simp add: assms(1) comp_def)
  then have dist: "distinct (map u_email (users s))" by simp
  have "email \<in> set (map u_email (users s))" unfolding emails using assms(2) by (auto simp: SEED_USERS_def)
  then have "List.find (\<lambda>u. u_email u = email) (users s) \<noteq> None" by (auto simp: find_None_iff)
  then obtain u where u: "List.find (\<lambda>u. u_email u = email) (users s) = Some u" by blast
  then have "u \<in> set (seed_accounts U h k)" by (auto simp: find_Some_iff assms(1))
  with seed_accounts_simps(4) assms(3) have "u_is_active u \<and> verify_password lib ''demo-pw'' (u_password_hash u)" by metis
  then show ?thesis by (simp add: issue_token_run [OF dist] u is_ok_def)
qed

text \<open>C11: From whichever migration the database is at and whatever it holds, the script does one of two things. If the
  rows stand in the way of the missing migrations, it raises the \<open>RuntimeError\<close> and nothing has changed: above all when
  the cases have been migrated away and an alert still names one. Otherwise it succeeds. It leaves the schema of
  the head, the three accounts with their roles, every generated alert stored once and in a case, and tables that keep
  the service's invariant; the first five live cases, oldest first, are in progress with one note of the analyst each
  and the others are open. The printed key passes the guard of the ingest routes and the password logs in. Two runs
  that succeed from different data with the same counters and clocks end in the same state.\<close>

theorem seed_outcome:
  assumes "operate tsv' as fresh_server = (sd_database d, rs)" and "\<forall>n. seed_env P cfg U (E n)"
    and "fresh_draws U (uuids (sd_state d) + 4500)" and "\<forall>j. fits 255 (hash_password j ''demo-pw'')"
    and "fits 255 (sha256 P token)" and "token \<noteq> []" and "rng_laws R" and "reader_laws P L"
  shows "(\<not> migratable tsv d \<longrightarrow>
      seed_main tsv E hash_password token R L g d = (Inl (RuntimeError ''alembic upgrade head failed''), d))
    \<and> (migratable tsv d \<longrightarrow> (\<exists>sm e rows g'. seed_main tsv E hash_password token R L g d = (Inr sm, e)
    \<and> sd_database e = (Some ''f1a2b3c4d5e6'', head_schema) \<and> service_inv P cfg (sd_state e)
    \<and> map (\<lambda>u. (u_email u, u_roles u)) (users (sd_state e)) =
        [(''admin@acms.example.com'', [''admin'']), (''analyst@acms.example.com'', [''analyst'']),
         (''auditor@acms.example.com'', [''readonly''])]
    \<and> generate R P L 150 (2, 6) 200 0 g = Inr (rows, g') \<and> map alert_ref (alerts (sd_state e)) = map row_id rows
    \<and> (\<forall>a \<in> set (alerts (sd_state e)). a_case_id a \<noteq> None)
    \<and> sm_ingested sm = length rows \<and> sm_alerts sm = length rows \<and> sm_cases sm = length (cases (sd_state e))
    \<and> walked (u_id (users (sd_state e) ! 1)) (sd_state e) (sm_worked sm)
    \<and> (\<exists>k. require_ingest_key P (sd_api_keys e) (Some (sm_key sm)) = Inr k)
    \<and> (\<forall>lib S E' email. (\<forall>j. verify_password lib ''demo-pw'' (hash_password j ''demo-pw'')) \<longrightarrow> email \<in> fst ` set SEED_USERS \<longrightarrow>
         is_ok (fst (issue_token lib S E' email ''demo-pw'' (sd_state e))))
    \<and> (\<forall>tsv'' as' rs' d'. operate tsv'' as' fresh_server = (sd_database d', rs') \<longrightarrow> migratable tsv d' \<longrightarrow>
         emptied (sd_state d') = emptied (sd_state d) \<longrightarrow> seed_main tsv E hash_password token R L g d' = (Inr sm, e))))"
proof -
  let ?k = "uuids (sd_state d)"
  let ?us = "seed_accounts U hash_password ?k"
  let ?created = "zip [''admin'', ''analyst'', ''readonly''] ?us"
  let ?s = "(emptied (sd_state d))\<lparr> uuids := ?k + 4, users := ?us \<rparr>"
  let ?keys = "[\<lparr> k_id = U (?k + 3), k_label = ''seed-ingest'', k_hashed_key = hash_api_key P token, k_scope = ''ingest'', k_is_active = True \<rparr>]"
  note run = run_seed [where hash_password = hash_password and token = token and tsv = tsv, OF _ _ assms(2,3) _ assms(4,5)]
  have shape: "\<exists>x y z. ?us = [x, y, z]"
    using seed_accounts_simps(2) [of U hash_password ?k] by (auto simp: length_Suc_conv numeral_3_eq_3)
  then have analyst: "map_of ?created ''analyst'' = Some (?us ! 1)" "?us ! 1 \<in> set ?us" by auto
  have "service_inv P cfg ?s" by (rule fresh_service_inv) (simp add: fresh_database_def emptied_def)
  then have start: "ingested P cfg U ?s" by (simp add: ingested_def minted_def emptied_def)
  have fit: "fits 36 (u_id (?us ! 1))" unfolding seed_accounts_simps(3) using assms(3) by (simp add: fresh_draws_def)
  have envs: "\<forall>n. seed_env P cfg U (E (2 + n))" using assms(2) by blast
  have "alerts ?s = []" "human_ref_seq ?s = 1" "uuids ?s + 4405 \<le> ?k + 4500" "?us ! 1 \<in> set (users ?s)"
    using analyst(2) by (simp_all add: emptied_def)
  from demo_data_runs [OF envs start this(1,2) assms(3) this(3) assms(7,8) analyst(1) this(4) fit, of token g]
  obtain sm t rows g' where data: "demo_data (\<lambda>n. E (2 + n)) token R L g ?created ?s = (Inr sm, t)"
    and t: "service_inv P cfg t" "walked (u_id (?us ! 1)) t (sm_worked sm)" "generate R P L 150 (2, 6) 200 0 g = Inr (rows, g')"
      "map alert_ref (alerts t) = map row_id rows" "\<forall>a \<in> set (alerts t). a_case_id a \<noteq> None" "users t = ?us"
    and sm: "sm_key sm = token" "sm_ingested sm = length rows" "sm_alerts sm = length rows" "sm_cases sm = length (cases t)"
    by auto
  let ?e = "\<lparr> sd_database = (Some ''f1a2b3c4d5e6'', head_schema), sd_state = t, sd_api_keys = ?keys \<rparr>"
  have res: "seed_main tsv E hash_password token R L g d' = (Inr sm, ?e)"
    if "operate tsv'' as' fresh_server = (sd_database d', rs')" "migratable tsv d'" "emptied (sd_state d') = emptied (sd_state d)"
    for tsv'' as' rs' d'
  proof -
    have u: "uuids (sd_state d') = ?k" using arg_cong [OF that(3), of uuids] by (simp add: emptied_def)
    then have "uuids (sd_state d') + 3 \<le> ?k + 4500" by simp
    from run [OF that(1,2) this, of R L g] show ?thesis unfolding u that(3) data prod.case .
  qed
  have key: "require_ingest_key P ?keys (Some token) = Inr (hd ?keys)" using assms(6) by (simp add: require_ingest_key_def)
  have "seed_main tsv E hash_password token R L g d = (Inl (RuntimeError ''alembic upgrade head failed''), d)" if "\<not> migratable tsv d"
    using run_migrations_head [OF assms(1), of tsv "sd_state d"] that by (simp add: seed_main_def)
  then show ?thesis
    using res [OF assms(1) _ refl] t sm key seed_accounts_simps(1) [of U hash_password ?k] seed_logins [OF t(6)] res
    by (intro conjI impI exI [of _ sm] exI [of _ ?e] exI [of _ rows] exI [of _ g']) simp_all
qed

section \<open>A run from an empty server\<close>

definition seed_sample_env :: env where
  "seed_sample_env = sample_env\<lparr> env_platform := ratio_platform\<lparr> sha256 := \<lambda>_. GENESIS_HASH \<rparr> \<rparr>"

lemma length_nat_text: "n < 10 ^ k \<Longrightarrow> 0 < k \<Longrightarrow> length (nat_text n) \<le> k"
proof (induction k arbitrary: n)
  case (Suc k)
  show ?case
  proof (cases "n < 10")
    case True
    then show ?thesis by (simp add: nat_text.simps [of n])
  next
    case False
    with Suc.prems have "0 < k" "n div 10 < 10 ^ k" by (auto simp: less_mult_imp_div_less mult.commute intro!: Nat.gr0I)
    with Suc.IH False show ?thesis by (simp add: nat_text.simps [of n])
  qed
qed simp

lemma fresh_nat_text: "fresh_draws nat_text 4500"
proof -
  have "fits 36 (nat_text k)" if "k < 4500" for k
    using length_nat_text [of k 4] digits_nat_text [of "CHR 0x00" k] that by (auto simp: fits_def is_digit_def)
  then show ?thesis by (simp add: fresh_draws_def inj_on_def nat_text_inject)
qed

lemma seed_sample_ok:
  "seed_env (env_platform seed_sample_env) shipped_config nat_text seed_sample_env" "reader_laws (env_platform seed_sample_env) plain_reader"
proof -
  have "grouping_ok shipped_config" using sample_book_ok(1) by simp
  moreover have "fits 64 (config_hash (env_platform seed_sample_env) shipped_config)"
    using genesis_fits by (simp add: config_hash_def seed_sample_env_def)
  moreover have "\<forall>r \<in> set shipped_rules. CHR 0x00 \<notin> set (rule_id r)" by (simp add: shipped_rules_def)
  ultimately show "seed_env (env_platform seed_sample_env) shipped_config nat_text seed_sample_env"
    by (simp add: seed_env_def env_fits_def) (simp add: seed_sample_env_def sample_env_def)
  show "reader_laws (env_platform seed_sample_env) plain_reader"
    using plain_reader_laws by (simp add: reader_laws_def seed_sample_env_def sample_env_def)
qed

lemma bootstrap_ready: "ready tsv bootstrap rows"
  using ready_at [of 0 tsv rows] by simp

text \<open>One run from an empty server, and one that is refused after a downgrade below the cases.\<close>

theorem seed_outcome_witness:
  "(\<exists>sm e. seed_main (\<lambda>_. True) (\<lambda>_. seed_sample_env) (\<lambda>j pw. pw) ''key'' least_rng plain_reader ()
       \<lparr> sd_database = (None, bootstrap), sd_state = empty_state, sd_api_keys = [] \<rparr> = (Inr sm, e)
     \<and> walked (u_id (users (sd_state e) ! 1)) (sd_state e) (sm_worked sm))
   \<and> (let d = \<lparr> sd_database = deployed 5, sd_state = empty_state\<lparr> alerts := [sample_row ''a1'' ''e1'' (Some ''c1'')] \<rparr>,
              sd_api_keys = [] \<rparr>
      in seed_main (\<lambda>_. True) (\<lambda>_. seed_sample_env) (\<lambda>j pw. pw) ''key'' least_rng plain_reader () d
           = (Inl (RuntimeError ''alembic upgrade head failed''), d))"
proof -
  let ?d = "\<lparr> sd_database = (None, bootstrap), sd_state = empty_state, sd_api_keys = [] \<rparr>"
  let ?s = "empty_state\<lparr> alerts := [sample_row ''a1'' ''e1'' (Some ''c1'')] \<rparr>"
  let ?c = "\<lparr> sd_database = deployed 5, sd_state = ?s, sd_api_keys = [] \<rparr>"
  have key: "fits 255 (sha256 (env_platform seed_sample_env) ''key'')"
    using genesis_fits by (simp add: seed_sample_env_def sample_env_def fits_def)
  have pw: "\<forall>j :: nat. fits 255 ''demo-pw''" by (simp add: fits_def)
  have draws: "fresh_draws nat_text (uuids (sd_state ?d) + 4500)" "fresh_draws nat_text (uuids (sd_state ?c) + 4500)"
    using fresh_nat_text by (simp_all add: empty_state_def)
  have start: "operate (\<lambda>_. True) [] fresh_server = (sd_database ?d, no_rows)" by (simp add: fresh_server_def)
  obtain rows where stuck: "operate (\<lambda>_. True) regroup fresh_server = (sd_database ?c, rows)" using operate_regroup by auto
  have envs: "\<forall>n :: nat. seed_env (env_platform seed_sample_env) shipped_config nat_text seed_sample_env"
    using seed_sample_ok(1) by blast
  have tok: "''key'' \<noteq> []" by simp
  have yes: "migratable (\<lambda>_. True) ?d" by (simp add: bootstrap_ready)
  have "\<not> caseless (rows_of_state ?s)" by (simp add: caseless_def rows_of_state_def sample_row_def)
  then have no: "\<not> migratable (\<lambda>_. True) ?c" using uncased_stuck by simp
  note out = seed_outcome [where tsv = "\<lambda>_. True" and g = "()" and E = "\<lambda>_. seed_sample_env" and hash_password = "\<lambda>j pw. pw",
      OF start envs draws(1) pw key tok rng_laws_least seed_sample_ok(2)]
  note out' = seed_outcome [where tsv = "\<lambda>_. True" and g = "()" and E = "\<lambda>_. seed_sample_env" and hash_password = "\<lambda>j pw. pw",
      OF stuck envs draws(2) pw key tok rng_laws_least seed_sample_ok(2)]
  show ?thesis
    unfolding Let_def
  proof (rule conjI)
    show "\<exists>sm e. seed_main (\<lambda>_. True) (\<lambda>_. seed_sample_env) (\<lambda>j pw. pw) ''key'' least_rng plain_reader () ?d = (Inr sm, e)
     \<and> walked (u_id (users (sd_state e) ! 1)) (sd_state e) (sm_worked sm)"
      using mp [OF conjunct2 [OF out] yes] by (elim exE conjE) (intro exI conjI)
  qed (rule mp [OF conjunct1 [OF out'] no])
qed

end
