(* ===== verification/Surface.thy ===== *)
theory Surface
  imports Operations Auth
begin

text \<open>
  The HTTP surface (\<open>main.py\<close> and the route decorators): which paths there are, in which order they are tried, what
  guards the way in, and what the request-duration middleware records. How Starlette matches a path with a template is
  the parameter \<open>path_matches\<close>; its documented behaviour is the hypothesis \<open>starlette_paths\<close>. The pages that FastAPI adds
  by itself (the OpenAPI document and its viewers) are not routes of the program.
\<close>

section \<open>The routes\<close>

datatype entry = Public | AuthLimited | Roles "string list" | IngestKey

record route =
  rt_method :: string
  rt_path :: string
  rt_entry :: entry
  rt_endpoint :: string

definition route :: "string \<Rightarrow> string \<Rightarrow> entry \<Rightarrow> string \<Rightarrow> route" where
  "route m p e f = \<lparr> rt_method = m, rt_path = p, rt_entry = e, rt_endpoint = f \<rparr>"

text \<open>\<open>APIRouter(prefix=...)\<close> and \<open>include_router(..., prefix=...)\<close> put their prefix before every path.\<close>

definition prefixed :: "string \<Rightarrow> route list \<Rightarrow> route list" where
  "prefixed pre rs = map (\<lambda>r. r\<lparr> rt_path := pre @ rt_path r \<rparr>) rs"

definition READ_ROLES :: "string list" where
  "READ_ROLES = [''analyst'', ''admin'', ''readonly'']"

definition ops_router :: "route list" where
  "ops_router =
     [route ''GET'' ''/healthz'' Public ''healthz'', route ''GET'' ''/readyz'' Public ''readyz'',
      route ''GET'' ''/metrics'' Public ''metrics'']"

definition auth_router :: "route list" where
  "auth_router =
     prefixed ''/auth''
       [route ''POST'' ''/token'' AuthLimited ''issue_token'', route ''POST'' ''/refresh'' AuthLimited ''refresh'']"

definition audit_router :: "route list" where
  "audit_router =
     [route ''GET'' ''/audit'' (Roles [''admin'', ''readonly'']) ''query_audit'',
      route ''GET'' ''/cases/{case_id}/audit'' (Roles [''analyst'', ''admin'', ''readonly'']) ''case_audit'',
      route ''POST'' ''/cases/{case_id}/audit:export'' (Roles [''analyst'', ''admin'', ''readonly'']) ''export_case_audit'',
      route ''POST'' ''/audit:verify'' (Roles [''admin'']) ''verify_audit'']"

definition ingestion_router :: "route list" where
  "ingestion_router =
     [route ''POST'' ''/alerts'' IngestKey ''ingest_alert'', route ''POST'' ''/alerts:batch'' IngestKey ''ingest_alerts_batch'']"

definition cases_router :: "route list" where
  "cases_router =
     prefixed ''/cases''
       [route ''GET'' [] (Roles READ_ROLES) ''list_cases'', route ''GET'' ''/stats'' (Roles READ_ROLES) ''case_stats_endpoint'',
        route ''GET'' ''/{case_id}'' (Roles READ_ROLES) ''case_detail'',
        route ''POST'' ''/{case_id}/transition'' (Roles [''analyst'', ''admin'']) ''transition_case_endpoint'',
        route ''POST'' ''/{case_id}/assign'' (Roles [''analyst'', ''admin'']) ''assign_case_endpoint'',
        route ''POST'' ''/{case_id}/notes'' (Roles [''analyst'', ''admin'']) ''add_note_endpoint'',
        route ''POST'' ''/{case_id}/notes/{note_id}/retract'' (Roles [''analyst'', ''admin'']) ''retract_note_endpoint'']"

definition users_router :: "route list" where
  "users_router = prefixed ''/users'' [route ''GET'' [] (Roles [''analyst'', ''admin'', ''readonly'']) ''list_users'']"

definition API_V1_PREFIX :: string where
  "API_V1_PREFIX = ''/api/v1''"

definition create_app :: "route list" where
  "create_app =
     ops_router @ prefixed API_V1_PREFIX auth_router @ prefixed API_V1_PREFIX audit_router
     @ prefixed API_V1_PREFIX ingestion_router @ prefixed API_V1_PREFIX cases_router @ prefixed API_V1_PREFIX users_router"

text \<open>What lets a caller in: the principal behind the bearer token, if there is one, and the ingest key, if there is one.\<close>

definition enter :: "route \<Rightarrow> principal result \<Rightarrow> api_key result \<Rightarrow> unit op" where
  "enter r who key =
     (case rt_entry r of
        Roles roles \<Rightarrow> bind_op (lift_result who) (require_role roles)
      | IngestKey \<Rightarrow> bind_op (lift_result key) (\<lambda>_. ret ())
      | _ \<Rightarrow> ret ())"

section \<open>Routing\<close>

text \<open>Routes are tried in the order they were included.\<close>

definition resolve :: "(string \<Rightarrow> string \<Rightarrow> bool) \<Rightarrow> string \<Rightarrow> string \<Rightarrow> route option" where
  "resolve path_matches m path = List.find (\<lambda>r. rt_method r = m \<and> path_matches (rt_path r) path) create_app"

fun segments :: "string \<Rightarrow> string list" where
  "segments [] = [[]]"
| "segments (c # cs) =
     (if c = CHR ''/'' then [] # segments cs else (case segments cs of [] \<Rightarrow> [[c]] | x # xs \<Rightarrow> (c # x) # xs))"

definition is_param :: "string \<Rightarrow> bool" where
  "is_param t \<longleftrightarrow> t \<noteq> [] \<and> hd t = CHR ''{'' \<and> last t = CHR ''}''"

text \<open>A parameter \<open>{name}\<close> stands for one segment that is not empty, everything else for itself.\<close>

definition segment_matches :: "string \<Rightarrow> string \<Rightarrow> bool" where
  "segment_matches t x \<longleftrightarrow> (if is_param t then x \<noteq> [] else t = x)"

definition plain_paths :: "string \<Rightarrow> string \<Rightarrow> bool" where
  "plain_paths t path \<longleftrightarrow> list_all2 segment_matches (segments t) (segments path)"

text \<open>What is assumed of the matcher, for the templates of the program, whose parameters are all whole segments: it
  accepts what fits segment by segment, and besides at most such a path with a newline after it, since the pattern's
  \<open>$\<close> also matches before one.\<close>

definition starlette_paths :: "(string \<Rightarrow> string \<Rightarrow> bool) \<Rightarrow> bool" where
  "starlette_paths M \<longleftrightarrow>
     (\<forall>t \<in> rt_path ` set create_app. \<forall>path.
        (plain_paths t path \<longrightarrow> M t path)
        \<and> (M t path \<longrightarrow> plain_paths t path \<or> (\<exists>p. path = p @ [CHR 0x0A] \<and> plain_paths t p)))"

section \<open>The duration of requests\<close>

text \<open>\<open>_record_request_duration\<close>: the histogram's observations with their labels. \<open>call_next\<close> gives the status and the
  path of the route that the router put into the scope; where it raises, nothing is observed.\<close>

type_synonym observation = "(string \<times> string \<times> nat) \<times> int"

definition record_request_duration ::
  "int \<times> int \<Rightarrow> string \<Rightarrow> (state \<Rightarrow> (nat \<times> string option) result \<times> state) \<Rightarrow> observation list \<times> state
     \<Rightarrow> (nat \<times> string option) result \<times> observation list \<times> state" where
  "record_request_duration perf_counter m call_next = (\<lambda>(obs, s).
     (case call_next s of
        (Inl e, t) \<Rightarrow> (Inl e, obs, t)
      | (Inr (status, path), t) \<Rightarrow>
          let elapsed = snd perf_counter - fst perf_counter;
              template = (case path of None \<Rightarrow> ''unmatched'' | Some p \<Rightarrow> if p = [] then ''unmatched'' else p)
          in (Inr (status, path), obs @ [((m, template, status), elapsed)], t)))"

section \<open>No route is shadowed but one\<close>

fun join :: "string list \<Rightarrow> string" where
  "join [] = []"
| "join [x] = x"
| "join (x # y # xs) = x @ CHR ''/'' # join (y # xs)"

lemma segments_Cons: "\<exists>x xs. segments s = x # xs"
  by (induction s rule: segments.induct) (auto split: list.split)

lemma join_segments: "join (segments s) = s"
proof (induction s)
  case (Cons c s)
  obtain x xs where "segments s = x # xs" using segments_Cons by blast
  with Cons show ?case by (cases xs) auto
qed simp

lemma segments_inject: "segments s = segments t \<Longrightarrow> s = t"
  by (metis join_segments)

definition overlap :: "route \<Rightarrow> route \<Rightarrow> bool" where
  "overlap r q \<longleftrightarrow> rt_method r = rt_method q
     \<and> list_all2 (\<lambda>a b. is_param a \<or> is_param b \<or> a = b) (segments (rt_path r)) (segments (rt_path q))"

text \<open>A segment of a matched path, where the last one may have a newline more.\<close>

definition line_matches :: "string \<Rightarrow> string \<Rightarrow> bool" where
  "line_matches a x \<longleftrightarrow> is_param a \<or> x = a \<or> x = a @ [CHR 0x0A]"

lemma segments_newline: "segments (p @ [CHR 0x0A]) = butlast (segments p) @ [last (segments p) @ [CHR 0x0A]]"
proof (induction p)
  case (Cons c p)
  obtain x xs where "segments p = x # xs" using segments_Cons by blast
  with Cons show ?case by (cases xs) auto
qed simp

lemma plain_newline:
  assumes "plain_paths t p"
  shows "list_all2 line_matches (segments t) (segments (p @ [CHR 0x0A]))"
proof -
  let ?ts = "segments t" and ?xs = "segments p"
  have ne: "?ts \<noteq> []" "?xs \<noteq> []" using segments_Cons [of t] segments_Cons [of p] by auto
  have all: "list_all2 segment_matches (butlast ?ts @ [last ?ts]) (butlast ?xs @ [last ?xs])"
    using assms ne by (simp add: plain_paths_def)
  moreover have "length (butlast ?ts) = length (butlast ?xs)" using list_all2_lengthD [OF all] by simp
  ultimately have parts: "list_all2 segment_matches (butlast ?ts) (butlast ?xs)" "segment_matches (last ?ts) (last ?xs)"
    by (simp_all add: list_all2_append)
  have "list_all2 line_matches (butlast ?ts) (butlast ?xs)"
    by (rule list_all2_mono [OF parts(1)]) (auto simp: segment_matches_def line_matches_def split: if_splits)
  moreover have "line_matches (last ?ts) (last ?xs @ [CHR 0x0A])"
    using parts(2) by (auto simp: segment_matches_def line_matches_def split: if_splits)
  ultimately have "list_all2 line_matches (butlast ?ts @ [last ?ts]) (butlast ?xs @ [last ?xs @ [CHR 0x0A]])"
    by (intro list_all2_appendI) simp_all
  then show ?thesis using ne by (simp add: segments_newline)
qed

lemma matches_lines:
  assumes "starlette_paths M" and "r \<in> set create_app" and "M (rt_path r) path"
  shows "list_all2 line_matches (segments (rt_path r)) (segments path)"
proof -
  have "list_all2 line_matches (segments t) (segments p)" if "plain_paths t p" for t p
    using that unfolding plain_paths_def
    by (rule list_all2_mono) (auto simp: segment_matches_def line_matches_def split: if_splits)
  then show ?thesis using assms plain_newline unfolding starlette_paths_def by blast
qed

lemma no_newlines: "list_all (\<lambda>r. list_all (\<lambda>a. CHR 0x0A \<notin> set a) (segments (rt_path r))) create_app"
  by code_simp

lemma snoc_in: "xs @ [x] = ys \<Longrightarrow> x \<in> set ys"
  by auto

lemma matches_overlap:
  assumes "starlette_paths M" and "r \<in> set create_app" and "q \<in> set create_app"
    and "M (rt_path r) path" and "M (rt_path q) path" and "rt_method r = rt_method q"
  shows "overlap r q"
  unfolding overlap_def
proof
  let ?rs = "segments (rt_path r)" and ?qs = "segments (rt_path q)" and ?xs = "segments path"
  note lines = matches_lines [OF assms(1,2,4)] matches_lines [OF assms(1,3,5)]
  have len: "length ?rs = length ?qs" using lines [THEN list_all2_lengthD] by simp
  have plain: "\<forall>a \<in> set ?rs. CHR 0x0A \<notin> set a" "\<forall>a \<in> set ?qs. CHR 0x0A \<notin> set a"
    using no_newlines assms(2,3) by (auto simp: list_all_iff)
  have "is_param (?rs ! i) \<or> is_param (?qs ! i) \<or> ?rs ! i = ?qs ! i" if "i < length ?rs" for i
  proof -
    have i: "i < length ?qs" using that len by simp
    have "line_matches (?rs ! i) (?xs ! i)" "line_matches (?qs ! i) (?xs ! i)"
      using lines that i by (auto dest: list_all2_nthD)
    moreover have "CHR 0x0A \<notin> set (?rs ! i)" "CHR 0x0A \<notin> set (?qs ! i)" using plain that i nth_mem by blast+
    ultimately show ?thesis by (auto simp: line_matches_def dest: snoc_in)
  qed
  then show "list_all2 (\<lambda>a b. is_param a \<or> is_param b \<or> a = b) ?rs ?qs"
    using len by (simp add: list_all2_conv_all_nth)
qed (rule assms(6))

definition stats_route :: route where
  "stats_route = route ''GET'' ''/api/v1/cases/stats'' (Roles READ_ROLES) ''case_stats_endpoint''"

definition detail_route :: route where
  "detail_route = route ''GET'' ''/api/v1/cases/{case_id}'' (Roles READ_ROLES) ''case_detail''"

fun clashes :: "route list \<Rightarrow> (route \<times> route) list" where
  "clashes [] = []"
| "clashes (r # rs) = map (Pair r) (filter (overlap r) rs) @ clashes rs"

lemma clashes_app: "clashes create_app = [(stats_route, detail_route)]"
  by code_simp

lemma first_clash:
  assumes "List.find p rs = Some q" and "r \<in> set rs" and "p r" and "q \<noteq> r" and "overlap q r"
  shows "(q, r) \<in> set (clashes rs)"
  using assms by (induction rs) (auto split: if_splits)

lemma route_names: "map rt_endpoint create_app =
    [''healthz'', ''readyz'', ''metrics'', ''issue_token'', ''refresh'', ''query_audit'', ''case_audit'', ''export_case_audit'', ''verify_audit'',
     ''ingest_alert'', ''ingest_alerts_batch'', ''list_cases'', ''case_stats_endpoint'', ''case_detail'', ''transition_case_endpoint'',
     ''assign_case_endpoint'', ''add_note_endpoint'', ''retract_note_endpoint'', ''list_users'']"
  by code_simp

lemma stats_first: "stats_route \<in> set create_app" "detail_route \<in> set create_app" "stats_route \<noteq> detail_route"
  by code_simp+

text \<open>The template of the statistics matches its own text, and with a newline after it at most.\<close>

lemma stats_path:
  assumes "starlette_paths M"
  shows "M (rt_path stats_route) ''/api/v1/cases/stats''"
    "M (rt_path stats_route) path \<Longrightarrow> path = ''/api/v1/cases/stats'' \<or> path = ''/api/v1/cases/stats'' @ [CHR 0x0A]"
proof -
  have seg: "segments (rt_path stats_route) = [[], ''api'', ''v1'', ''cases'', ''stats'']" by code_simp
  have eq: "segments ''/api/v1/cases/stats'' = [[], ''api'', ''v1'', ''cases'', ''stats'']" by code_simp
  have "list_all2 segment_matches [[], ''api'', ''v1'', ''cases'', ''stats''] xs \<longleftrightarrow> xs = [[], ''api'', ''v1'', ''cases'', ''stats'']" for xs
    by (auto simp: list_all2_Cons1 segment_matches_def is_param_def)
  then have plain: "plain_paths (rt_path stats_route) path \<longleftrightarrow> path = ''/api/v1/cases/stats''" for path
    unfolding plain_paths_def seg eq [symmetric] using segments_inject by blast
  have M: "plain_paths (rt_path stats_route) path \<Longrightarrow> M (rt_path stats_route) path"
    "M (rt_path stats_route) path \<Longrightarrow> plain_paths (rt_path stats_route) path
      \<or> (\<exists>p. path = p @ [CHR 0x0A] \<and> plain_paths (rt_path stats_route) p)" for path
    using assms stats_first(1) unfolding starlette_paths_def by blast+
  show "M (rt_path stats_route) ''/api/v1/cases/stats''" by (rule M(1)) (simp only: plain)
  show "path = ''/api/v1/cases/stats'' \<or> path = ''/api/v1/cases/stats'' @ [CHR 0x0A]" if "M (rt_path stats_route) path"
    using M(2) [OF that] unfolding plain by blast
qed

lemma detail_stats: "starlette_paths M \<Longrightarrow> M (rt_path detail_route) ''/api/v1/cases/stats''"
proof -
  have "plain_paths (rt_path detail_route) ''/api/v1/cases/stats''" by code_simp
  then show "starlette_paths M \<Longrightarrow> M (rt_path detail_route) ''/api/v1/cases/stats''"
    using stats_first(2) unfolding starlette_paths_def by blast
qed

lemma find_before: "List.find p (us @ x # vs) = Some y \<Longrightarrow> p x \<Longrightarrow> y = x \<or> y \<in> set us"
  by (induction us) (auto split: if_splits)

lemma stats_before: "create_app = take 12 create_app @ stats_route # drop 13 create_app" "detail_route \<notin> set (take 12 create_app)"
  by code_simp+

lemma resolve_route:
  assumes "starlette_paths M" and "r \<in> set create_app" and "M (rt_path r) path"
  shows "resolve M (rt_method r) path = Some (if r = detail_route \<and> M (rt_path stats_route) path then stats_route else r)"
proof -
  let ?p = "\<lambda>q. rt_method q = rt_method r \<and> M (rt_path q) path"
  have "List.find ?p create_app \<noteq> None" using assms(2,3) by (auto simp: find_None_iff)
  then obtain q where q: "List.find ?p create_app = Some q" by blast
  then have mq: "rt_method q = rt_method r" "M (rt_path q) path" "q \<in> set create_app" by (auto simp: find_Some_iff)
  have clash: "(q, r) = (stats_route, detail_route)" if "q \<noteq> r"
    using first_clash [OF q assms(2) _ that matches_overlap [OF assms(1) mq(3) assms(2) mq(2) assms(3) mq(1)]] assms(3) clashes_app by simp
  show ?thesis
  proof (cases "q = r")
    case False
    with clash have "q = stats_route" "r = detail_route" by simp_all
    moreover from this mq(2) have "M (rt_path stats_route) path" by simp
    ultimately show ?thesis using q by (simp add: resolve_def)
  next
    case True
    have "\<not> (r = detail_route \<and> M (rt_path stats_route) path)"
    proof
      assume rp: "r = detail_route \<and> M (rt_path stats_route) path"
      then have "?p stats_route" by (simp add: stats_route_def detail_route_def route_def)
      moreover have "List.find ?p (take 12 create_app @ stats_route # drop 13 create_app) = Some q"
        by (subst stats_before(1) [symmetric]) (rule q)
      ultimately have "q = stats_route \<or> q \<in> set (take 12 create_app)" by (intro find_before)
      with stats_before(2) stats_first(3) True rp show False by metis
    qed
    with q True show ?thesis unfolding resolve_def by auto
  qed
qed

text \<open>The principal behind the request has one of the roles.\<close>

definition has_role :: "principal result \<Rightarrow> string list \<Rightarrow> bool" where
  "has_role who roles \<longleftrightarrow> (\<exists>p. who = Inr p \<and> set roles \<inter> set (p_roles p) \<noteq> {})"

lemma enter_ok:
  "is_ok (fst (enter r who key s)) \<longleftrightarrow>
     (case rt_entry r of Roles roles \<Rightarrow> has_role who roles | IngestKey \<Rightarrow> is_ok key | _ \<Rightarrow> True)"
  by (cases who; cases key)
    (auto simp: enter_def bind_op_def lift_result_def run_simps is_ok_def has_role_def split: entry.split)

text \<open>C12: The surface of the service. A request for the path of a route reaches that route, whatever stands for its
  parameters, except that \<open>/cases/stats\<close>, with at most a newline after it, is the statistics and never a case. And who enters what: without a valid token
  or key, of these routes only the probes, the metrics, login and refresh; each role the routes listed, in particular a caller who is
  only \<open>readonly\<close> no route that changes a case; ingestion the holder of a key alone, whatever the roles.\<close>

theorem surface_access:
  assumes "starlette_paths M"
  shows "(\<forall>r \<in> set create_app. \<forall>path. M (rt_path r) path \<longrightarrow>
       resolve M (rt_method r) path = Some (if r = detail_route \<and> M (rt_path stats_route) path then stats_route else r))
    \<and> M (rt_path stats_route) ''/api/v1/cases/stats''
    \<and> (\<forall>path. M (rt_path stats_route) path \<longrightarrow> path = ''/api/v1/cases/stats'' \<or> path = ''/api/v1/cases/stats'' @ [CHR 0x0A])
    \<and> map rt_endpoint (filter (\<lambda>r. is_ok (fst (enter r who key s))) create_app) =
      [''healthz'', ''readyz'', ''metrics'', ''issue_token'', ''refresh'']
      @ (if has_role who [''admin'', ''readonly''] then [''query_audit''] else [])
      @ (if has_role who READ_ROLES then [''case_audit'', ''export_case_audit''] else [])
      @ (if has_role who [''admin''] then [''verify_audit''] else [])
      @ (if is_ok key then [''ingest_alert'', ''ingest_alerts_batch''] else [])
      @ (if has_role who READ_ROLES then [''list_cases'', ''case_stats_endpoint'', ''case_detail''] else [])
      @ (if has_role who [''analyst'', ''admin'']
         then [''transition_case_endpoint'', ''assign_case_endpoint'', ''add_note_endpoint'', ''retract_note_endpoint''] else [])
      @ (if has_role who READ_ROLES then [''list_users''] else [])"
proof (intro conjI)
  show "\<forall>r \<in> set create_app. \<forall>path. M (rt_path r) path \<longrightarrow>
       resolve M (rt_method r) path = Some (if r = detail_route \<and> M (rt_path stats_route) path then stats_route else r)"
    using resolve_route [OF assms] by blast
  show "M (rt_path stats_route) ''/api/v1/cases/stats''"
    "\<forall>path. M (rt_path stats_route) path \<longrightarrow> path = ''/api/v1/cases/stats'' \<or> path = ''/api/v1/cases/stats'' @ [CHR 0x0A]"
    using stats_path [OF assms] by blast+
qed (simp add: enter_ok create_app_def ops_router_def auth_router_def audit_router_def ingestion_router_def cases_router_def
    users_router_def prefixed_def route_def READ_ROLES_def)

section \<open>What the middleware observes\<close>

text \<open>Below the middleware an \<open>HTTPException\<close> has become a response; other exceptions are raised through it.\<close>

definition responded :: "string option \<Rightarrow> nat \<Rightarrow> 'a op \<Rightarrow> state \<Rightarrow> (nat \<times> string option) result \<times> state" where
  "responded path code handler s =
     (case handler s of
        (Inr x, t) \<Rightarrow> (Inr (code, path), t)
      | (Inl (HTTPException c d), t) \<Rightarrow> (Inr (c, path), t)
      | (Inl e, t) \<Rightarrow> (Inl e, t))"

text \<open>The label is a template or \<open>unmatched\<close>, never the text of the path, and a request that dies on an exception leaves no
  observation.\<close>

lemma duration_label:
  assumes "resolve M m path = Some r" and "handler s = (Inr x, t)"
  shows "record_request_duration (a, b) m (responded (Some (rt_path r)) code handler) (obs, s)
      = (Inr (code, Some (rt_path r)), obs @ [((m, rt_path r, code), b - a)], t)"
proof -
  have "r \<in> set create_app" using assms(1) by (auto simp: resolve_def find_Some_iff)
  moreover have "list_all (\<lambda>r. rt_path r \<noteq> []) create_app" by code_simp
  ultimately have "rt_path r \<noteq> []" by (simp add: list_all_iff)
  with assms(2) show ?thesis by (simp add: record_request_duration_def responded_def)
qed

lemma duration_unobserved:
  assumes "handler s = (Inl e, t)" and "\<forall>c d. e \<noteq> HTTPException c d"
  shows "record_request_duration perf_counter m (responded path code handler) (obs, s) = (Inl e, obs, t)"
  using assms by (cases e) (auto simp: record_request_duration_def responded_def)

section \<open>Witness\<close>

theorem surface_access_witness:
  "resolve plain_paths ''GET'' ''/api/v1/cases/stats'' = Some stats_route
   \<and> map rt_endpoint (filter (\<lambda>r. is_ok (fst (enter r (Inl unauthenticated) (Inl unauthenticated) empty_state))) create_app)
     = [''healthz'', ''readyz'', ''metrics'', ''issue_token'', ''refresh'']"
proof -
  have M: "starlette_paths plain_paths" by (simp add: starlette_paths_def)
  note all = surface_access [OF M, of "Inl unauthenticated" "Inl unauthenticated" empty_state]
  have "resolve plain_paths (rt_method detail_route) ''/api/v1/cases/stats'' = Some stats_route"
    using all detail_stats [OF M] stats_first(2) by simp
  moreover have "rt_method detail_route = ''GET''" by (simp add: detail_route_def route_def)
  ultimately show ?thesis using all by (simp add: has_role_def is_ok_def)
qed

end
