(* ===== verification/Spec2Isabelle.thy ===== *)
theory Spec2Isabelle
  imports Service ConfigHash Paging AuditQuery Auth Operations Recovery Columns ConfigFile Concurrency Seed Surface
begin

text \<open>
  \<^bold>\<open>Alert case management and deduplication: the backend.\<close>

  The program is a FastAPI service over PostgreSQL and Redis (\<open>src/backend/app\<close>). Machines post alerts; each
  alert is normalised, stored once per identity, and put into a case: a grouping engine compares it with
  the alerts of existing cases, and the case that holds a match receives it, several matching cases are
  merged, or a new case is opened. People log in, list and search cases, move them through a life cycle,
  assign them and write notes. Every change appends to a hash-chained audit log, which can be queried,
  verified and exported per case. A batch route leaves the grouping to a worker job.

  \<^bold>\<open>Theories.\<close> Each opens with what it holds.
  \<^item> \<open>Prelude\<close>, \<open>Numerics\<close>, \<open>Json\<close>: results and exceptions, insertion-ordered dicts, quotients rounded to
    binary64 and to 28 decimal digits, the canonical JSON text that hashes are computed from.
  \<^item> \<open>Normalize\<close> (\<open>ingestion/normalize.py\<close>, \<open>schemas/alert.py\<close>), \<open>Grouping\<close> (the configuration and its shipped
    values), \<open>Blocking\<close> (\<open>grouping/blocking.py\<close>), \<open>Scoring\<close> (\<open>grouping/scoring.py\<close>), \<open>UnionFind\<close> and \<open>Engine\<close>
    (\<open>grouping/engine.py\<close>): the pure part. The union-find is the interface \<open>disjoint_sets\<close>, interpreted on the
    code's dict-based find and union; \<open>Engine\<close> uses the partition that the interface gives.
  \<^item> \<open>Store\<close> (\<open>models/\<close>): the tables as lists of row records, the environment (clock, UUIDs, order of unordered
    queries, configuration) and the operations of a session, \<open>state \<Rightarrow> result \<times> state\<close>; a failed transaction
    restores the tables and not the sequences, counters and the clock.
  \<^item> \<open>AuditLog\<close> (\<open>audit/service.py\<close>, \<open>audit/routes.py\<close>): append and verification; the interface \<open>append_log\<close>.
  \<^item> \<open>Lifecycle\<close>, \<open>CaseService\<close> (\<open>cases/lifecycle.py\<close>, \<open>cases/service.py\<close>, \<open>cases/routes.py\<close>): transitions, assignment,
    notes and their endpoints.
  \<^item> \<open>Persistence\<close> (\<open>grouping/persistence.py\<close>), \<open>ConfigHash\<close> (\<open>grouping/config.py\<close>), \<open>CaseBook\<close>, \<open>GroupingOutcome\<close>:
    the grouping transaction, the agreement of the tables that it keeps, and its result in terms of the
    partial map from alerts to cases.
  \<^item> \<open>Ingestion\<close>, \<open>IngestionOutcome\<close>, \<open>IngestionRoutes\<close> (\<open>ingestion/\<close>, \<open>worker.py\<close>): the two routes with Redis as a map
    that may be out of reach at each call, and the worker job.
  \<^item> \<open>Cursor\<close>, \<open>Keyset\<close>, \<open>Search\<close>, \<open>Paging\<close> (\<open>cases/search.py\<close>, the list and statistics of \<open>cases/routes.py\<close>):
    opaque cursors, keyset pagination as the interface \<open>keyset_paging\<close> for any directed order, filters and sorts
    of the case list, and the pages of a whole listing. \<open>AuditQuery\<close> (\<open>audit/routes.py\<close>) is the second instance of
    the interface: the paginated query over the audit log.
  \<^item> \<open>AuditHtml\<close>, \<open>AuditExport\<close> (\<open>audit/export.py\<close>): the bundle of a case, its HTML document and the export endpoint.
  \<^item> \<open>RateLimit\<close>, \<open>Auth\<close> (\<open>ratelimit.py\<close>, \<open>auth/\<close>, \<open>config.py\<close>): the fixed-window limiter over Redis counters that
    may fail at each call; passwords, tokens, login, refresh, and the guards in front of the routes.
  \<^item> \<open>Operations\<close> (\<open>users/routes.py\<close>, \<open>ops/routes.py\<close>, \<open>logging.py\<close>): the user directory, the probes, the gauge of open
    cases and the correlation id of a request.
  \<^item> \<open>Sampling\<close>, \<open>Synthetic\<close> (\<open>scripts/generate_synthetic.py\<close>): Python's random module over a threaded source of
    draws, with rules for total correctness, and the generator of labelled alerts written in it.
    \<open>Benchmark\<close> (\<open>scripts/benchmark.py\<close>) reads such data into the engine and measures the result; \<open>Recovery\<close>
    composes the three.
  \<^item> \<open>Schema\<close>, \<open>Migrations\<close> (\<open>alembic/versions\<close>): a catalogue of tables, indexes, sequences and privileges with rows in
    the tables, the DDL statements with their errors, those that stored rows cause included, and the nine revisions as
    scripts; walking up and down the chain, with data that may refuse a way up, is the interface \<open>reversible_chain\<close>. \<open>Metadata\<close> (\<open>models/\<close>, \<open>alembic/env.py\<close>): the declarative models and the tables they
    stand for. \<open>Columns\<close>: what the inserts assign to which column.
  \<^item> \<open>ConfigFile\<close> (\<open>grouping/config.py\<close>, \<open>config/grouping.yaml\<close>): the loader of the configuration.
  \<^item> \<open>History\<close>, \<open>Service\<close>: the backend as a step relation. \<open>op_relation\<close> is the interface of a preorder on states
    to the operations, \<open>service\<close> that of one step to a history of steps.
  \<^item> \<open>Concurrency\<close>: \<open>POST /alerts\<close> cut at its waits on Redis and the database, and the interleavings of several
    such requests with each other and with the rest of the backend.
  \<^item> \<open>Supplies\<close>, \<open>SeedRows\<close>, \<open>Seed\<close> (\<open>scripts/seed.py\<close>): what ingestion alone leaves behind, why the generated rows fit
    the columns, and the script that migrates, truncates, creates accounts, ingests the rows and works five cases.
  \<^item> \<open>Surface\<close> (\<open>main.py\<close>, the decorators of the routes): the routes in the order they are tried, the guard of each, and
    the middleware that observes durations.

  \<^bold>\<open>What the lemmas show.\<close> The engine: its verdict on a pair is symmetric and bounded, blocking finds exactly
  the pairs it should, groups are the connected components of the kept pairs and do not depend on the order
  of the input. The log: appending keeps chains intact, verification accepts what the backend wrote and
  notices every replacement of the rows. Cases: the complete result of a transition request, no lost
  update, merged cases read only. Grouping: it succeeds, it goes to the earliest matching case, the books
  agree afterwards. Ingestion: created once, also by requests that race, retried without effect, accounting of a batch. The service:
  an invariant of all tables and a preorder of what is never lost, for every history of requests and jobs.
  Listings: following \<open>next_cursor\<close> shows every matching case or event once, in order, and the statistics
  count what the list shows. Exports: the bundle is the state before the export, its verdict is compared with
  the verification endpoint, and no text in it changes the tags of the document. Access: a login succeeds
  exactly for the password of an active account, what its tokens are good for and until when, and which
  callers enter which route. The limiter lets at most twice its limit pass in any window. The directory lists
  exactly the users a case can be assigned to. The generator's rows satisfy the alert schema and have different
  identities whatever is drawn; the benchmark counts the pairs of the engine's specification, and clean
  data are recovered without a wrong or missing pair. The schema of a version does not depend on how it was
  reached, whichever rows were written in between, and which upgrades those rows refuse is stated exactly; it never lets
  the backend's role change or delete audit events, is at the head that of the models, and its
  columns have the limits that the write paths are modelled with; the shipped configuration file loads as the
  configuration that the engine's theorems are stated for. The seed script composes almost all of it: from
  any database that the migrations reach it either succeeds, and its result is stated completely up to the grouping, or
  the rows stand in the way of a migration and it changes nothing.
  Some theorems state defects: colliding natural keys, payloads that pass the schema and fail in
  the database, a batch failing as a whole, a cursor that passes its checks and fails in the database, a
  rate-limit counter that never expires, a truncated log that an export still calls verified, a correlation
  id that makes its request fail, a failed request that no metric shows, a downgrade after which grouped alerts
  keep every upgrade from going through again, full rights of the backend's role on \<open>alembic_version\<close>.

  \<^bold>\<open>Bounds.\<close> All recursion is structural or has a measure, except the union-find loop, which is a
  \<open>partial_function (option)\<close> proved to return on the graphs the code builds. References are shown to fit
  their column below \<open>36 ^ 13\<close>, more than the sequence's \<open>2 ^ 63\<close>. Characters are those of \<open>char\<close> (code points
  below 256); case conversion is the ASCII one.

  \<^bold>\<open>Parameters.\<close> SHA-256, \<open>exp\<close>, RapidFuzz's \<open>token_set_ratio\<close>, the texts of floats, decimals and dates
  (\<open>platform\<close>), the JSON parser, pydantic's constructor and serialiser, the queue, clock, UUIDs and the order
  of unordered queries (\<open>env\<close>), base64, \<open>json.loads\<close> and \<open>fromisoformat\<close> for cursors (\<open>codec\<close>), PostgreSQL's full-text
  match, average and the texts that \<open>to_tsvector\<close> takes, Python's \<open>repr\<close>, argon2, PyJWT and the \<open>api_keys\<close> table (\<open>auth_lib\<close>), the draws of the Mersenne twister (\<open>rng\<close>), the reading of
  decimals and dates (\<open>reader\<close>), PyYAML and Python's conversions of texts to numbers (\<open>yaml_lib\<close>),
  Starlette's matching of paths. The JSON of a response stored in Redis is read back as the value that was stored.
  What is assumed of them is a hypothesis of the theorem that needs it.

  \<^bold>\<open>Not modelled.\<close> Concurrency inside a transaction: a step of the service is atomic here, and requests
  interleave between transactions. The code earns that where it locks the row of a case, a note or a stream;
  \<open>grouping/persistence.py\<close> takes no lock, so for the grouping it is an assumption, and the aggregates of the cases are
  those of serial histories. Nor are modelled the refusal of a note whose body is too long for the full-text index,
  the range of the sequence numbers of a stream, expiry in Redis (the cache of a step is arbitrary), logging and metrics other than the counters
  on the session's path, connection pools, argument parsers and printed reports and the export of the
  OpenAPI document.
\<close>

end
